(* ===== verification/Prelude.thy ===== *)
theory Prelude
  imports Main "HOL-Library.Word" "HOL-Library.Multiset"
begin

text \<open>
  Shared vocabulary and generic lemmas of the development.

  \<^item> Every pointer dereference of the C code that could hit NULL is a computation of type
    \<open>'a option\<close>; \<open>None\<close> is the NULL dereference (undefined behaviour in C), so that a theorem
    of the form \<open>f x = Some y\<close> also says that the code never dereferences NULL.
  \<^item> \<open>pl_simps\<close> collects the rewrite rules the component theories share.
\<close>

named_theorems pl_simps

lemma sorted_wrt_append_Cons:
  "sorted_wrt R (xs @ y # ys) \<longleftrightarrow>
     sorted_wrt R xs \<and> sorted_wrt R ys \<and> (\<forall>x\<in>set xs. R x y) \<and> (\<forall>z\<in>set ys. R y z) \<and>
     (\<forall>x\<in>set xs. \<forall>z\<in>set ys. R x z)"
  by (auto simp: sorted_wrt_append)

lemma filter_all_True: "(\<And>x. x \<in> set xs \<Longrightarrow> P x) \<Longrightarrow> filter P xs = xs"
  by (induction xs) auto

lemma filter_all_False: "(\<And>x. x \<in> set xs \<Longrightarrow> \<not> P x) \<Longrightarrow> filter P xs = []"
  by (induction xs) auto

lemma find_append:
  "find P (xs @ ys) = (case find P xs of None \<Rightarrow> find P ys | Some x \<Rightarrow> Some x)"
  by (induction xs) auto

lemma find_filter_same: "(\<And>x. x \<in> set xs \<Longrightarrow> P x \<Longrightarrow> Q x) \<Longrightarrow> find P (filter Q xs) = find P xs"
  by (induction xs) auto

lemma find_filter_none: "(\<And>x. x \<in> set xs \<Longrightarrow> P x \<Longrightarrow> \<not> Q x) \<Longrightarrow> find P (filter Q xs) = None"
  by (auto simp: find_None_iff)

lemma zip_append_right: "zip xs (ys @ zs) = zip xs ys @ zip (drop (length ys) xs) zs"
proof (induction ys arbitrary: xs)
  case (Cons y ys)
  then show ?case by (cases xs) auto
qed simp

lemma two_times_less: "2 < n \<Longrightarrow> 2 * n < 2 ^ n"
proof (induction n)
  case (Suc n)
  then show ?case by (cases "n = 2") auto
qed simp

lemma sint_of_small: "n < 2 ^ 31 \<Longrightarrow> sint (of_nat n :: 32 word) = int n"
  by (simp add: signed_of_nat signed_take_bit_int_eq_self)

end
