(* ===== verification/PTreeBase.thy ===== *)
theory PTreeBase
  imports Prelude
begin

text \<open>
  The part of the tree code the three balancing schemes share (\<open>ptree-private.h\<close>, and the search
  and unlinking code repeated in \<open>ptree-bst.c\<close>, \<open>ptree-avl.c\<close> and \<open>ptree-rb.c\<close>).

  A node is \<open>Node l k v x r\<close>: the \<open>PTreeBaseNode\<close> fields left, right, key and value, with \<open>x\<close> the
  fields the derived structs add (nothing, \<open>balance_factor\<close>, \<open>color\<close>).  The derived structs' parent
  pointers are represented by a path: the chain of ancestors of a node, nearest first.  Each ancestor
  is a crumb that records which of its children lies on the path and what it holds elsewhere.
  \<open>zip_up t p\<close> is the whole tree in which the node whose ancestors are \<open>p\<close> is \<open>t\<close>, that is the
  value of \<open>*root_node\<close>.
\<close>

section \<open>Nodes and ancestor paths\<close>

datatype ('k, 'v, 'x) node =
    Null
  | Node (left: "('k, 'v, 'x) node") (key: 'k) (val: 'v) (ann: 'x) (right: "('k, 'v, 'x) node")

datatype ('k, 'v, 'x) crumb =
    LeftOf 'k 'v 'x "('k, 'v, 'x) node"
  | RightOf "('k, 'v, 'x) node" 'k 'v 'x

type_synonym ('k, 'v, 'x) path = "('k, 'v, 'x) crumb list"

type_synonym ('k, 'v, 'x) zipper = "('k, 'v, 'x) node \<times> ('k, 'v, 'x) path"

fun plug :: "('k, 'v, 'x) node \<Rightarrow> ('k, 'v, 'x) crumb \<Rightarrow> ('k, 'v, 'x) node" where
  "plug t (LeftOf k v x r) = Node t k v x r"
| "plug t (RightOf l k v x) = Node l k v x t"

fun zip_up :: "('k, 'v, 'x) node \<Rightarrow> ('k, 'v, 'x) path \<Rightarrow> ('k, 'v, 'x) node" where
  "zip_up t [] = t"
| "zip_up t (c # p) = zip_up (plug t c) p"

lemma zip_up_append [simp]: "zip_up t (p @ q) = zip_up (zip_up t p) q"
  by (induction p arbitrary: t) auto

section \<open>Callbacks and the destruction log\<close>

text \<open>
  \<open>key_destroy_func\<close> and \<open>value_destroy_func\<close> are caller supplied and may be NULL; what matters is
  the order and the arguments of their calls, which the model logs, with the calls of \<open>p_free\<close> on
  nodes.  The \<open>kd\<close> and \<open>vd\<close> flags say whether each function pointer is non-NULL.
\<close>

datatype ('k, 'v) event = KeyDestroyed 'k | ValueDestroyed 'v | NodeFreed

definition destroy_pair :: "bool \<Rightarrow> bool \<Rightarrow> 'k \<Rightarrow> 'v \<Rightarrow> ('k, 'v) event list" where
  "destroy_pair kd vd k v =
     (if kd then [KeyDestroyed k] else []) @ (if vd then [ValueDestroyed v] else [])"

section \<open>Searching\<close>

type_synonym 'k compare = "'k \<Rightarrow> 'k \<Rightarrow> int"

text \<open>
  The contract of a \<open>PCompareDataFunc\<close> (its \<open>data\<close> argument fixed): the signs of the results form a
  total preorder, two keys being the same key when they compare to 0.
\<close>

definition compare_ok :: "'k compare \<Rightarrow> bool" where
  "compare_ok cmp \<longleftrightarrow>
     (\<forall>x y. sgn (cmp y x) = - sgn (cmp x y)) \<and>
     (\<forall>x y z. cmp x y \<le> 0 \<longrightarrow> cmp y z \<le> 0 \<longrightarrow> cmp x z \<le> 0)"

text \<open>The comparison of machine integers that the library's own tests use for integer keys.\<close>

definition int_compare :: "int compare" where
  "int_compare a b = (if a < b then -1 else if a = b then 0 else 1)"

text \<open>
  The search loop: it starts at the root with no ancestors, goes left or right by the sign of the
  comparison of the searched key with the node's key, and stops at a NULL link or at an equal key.
\<close>

fun descend :: "'k compare \<Rightarrow> 'k \<Rightarrow> ('k, 'v, 'x) node \<Rightarrow> ('k, 'v, 'x) path \<Rightarrow> ('k, 'v, 'x) zipper" where
  "descend cmp k Null p = (Null, p)"
| "descend cmp k (Node l k0 v0 x r) p =
     (if cmp k k0 < 0 then descend cmp k l (LeftOf k0 v0 x r # p)
      else if cmp k k0 > 0 then descend cmp k r (RightOf l k0 v0 x # p)
      else (Node l k0 v0 x r, p))"

text \<open>The loop \<open>while (prev_node->right != NULL) prev_node = prev_node->right\<close>.\<close>

fun rightmost :: "('k, 'v, 'x) node \<Rightarrow> ('k, 'v, 'x) path \<Rightarrow> ('k, 'v, 'x) zipper" where
  "rightmost Null p = (Null, p)"
| "rightmost (Node l k v x r) p =
     (if r = Null then (Node l k v x r, p) else rightmost r (RightOf l k v x # p))"

text \<open>
  The node that a removal unlinks: a node with two children takes over key and value of the rightmost
  node of its left subtree, and that node is unlinked in its place.
\<close>

definition select_victim :: "('k, 'v, 'x) zipper \<Rightarrow> ('k, 'v, 'x) zipper" where
  "select_victim z =
     (case z of
        (Node l k v x r, p) \<Rightarrow>
          if l \<noteq> Null \<and> r \<noteq> Null then
            (let (prev, q) = rightmost l []
             in (prev, q @ LeftOf (key prev) (val prev) x r # p))
          else (Node l k v x r, p)
      | (Null, p) \<Rightarrow> (Null, p))"

text \<open>\<open>cur_node->left == NULL ? cur_node->right : cur_node->left\<close>\<close>

fun only_child :: "('k, 'v, 'x) node \<Rightarrow> ('k, 'v, 'x) node" where
  "only_child Null = Null"
| "only_child (Node l k v x r) = (if l = Null then r else l)"

text \<open>The search of \<open>p_tree_lookup\<close>; \<open>None\<close> is the returned NULL.\<close>

fun lookup_node :: "'k compare \<Rightarrow> 'k \<Rightarrow> ('k, 'v, 'x) node \<Rightarrow> 'v option" where
  "lookup_node cmp k Null = None"
| "lookup_node cmp k (Node l k0 v0 x r) =
     (if cmp k k0 < 0 then lookup_node cmp k l
      else if cmp k k0 > 0 then lookup_node cmp k r
      else Some v0)"

section \<open>In-order contents\<close>

text \<open>
  The abstract view of a tree is the list of its key-value pairs from left to right; \<open>lefts p\<close> and
  \<open>rights p\<close> are the pairs a path contributes before and after the node it leads to.
\<close>

fun inorder :: "('k, 'v, 'x) node \<Rightarrow> ('k \<times> 'v) list" where
  "inorder Null = []"
| "inorder (Node l k v x r) = inorder l @ (k, v) # inorder r"

fun lefts :: "('k, 'v, 'x) path \<Rightarrow> ('k \<times> 'v) list" where
  "lefts [] = []"
| "lefts (LeftOf k v x r # p) = lefts p"
| "lefts (RightOf l k v x # p) = lefts p @ inorder l @ [(k, v)]"

fun rights :: "('k, 'v, 'x) path \<Rightarrow> ('k \<times> 'v) list" where
  "rights [] = []"
| "rights (LeftOf k v x r # p) = (k, v) # inorder r @ rights p"
| "rights (RightOf l k v x # p) = rights p"

lemma inorder_zip_up [simp]: "inorder (zip_up t p) = lefts p @ inorder t @ rights p"
proof (induction t p rule: zip_up.induct)
  case (2 t c p)
  then show ?case by (cases c) simp_all
qed simp

lemma lefts_append [simp]: "lefts (p @ q) = lefts q @ lefts p"
  by (induction p rule: lefts.induct) auto

lemma rights_append [simp]: "rights (p @ q) = rights p @ rights q"
  by (induction p rule: rights.induct) auto

text \<open>Splitting off the nearest ancestor (not a simplification rule: it would apply to its own result).\<close>

lemma sides_Cons: "lefts (c # p) = lefts p @ lefts [c]" "rights (c # p) = rights [c] @ rights p"
  using lefts_append[of "[c]" p] rights_append[of "[c]" p] by simp_all

lemma inorder_plug: "inorder (plug t c) = lefts [c] @ inorder t @ rights [c]"
  by (cases c) simp_all

lemma inorder_eq_Nil [simp]: "inorder t = [] \<longleftrightarrow> t = Null"
  by (cases t) auto

text \<open>The search-tree property: the keys increase strictly from left to right.\<close>

definition increasing :: "'k compare \<Rightarrow> ('k \<times> 'v) list \<Rightarrow> bool" where
  "increasing cmp xs \<longleftrightarrow> sorted_wrt (\<lambda>a b. cmp (fst a) (fst b) < 0) xs"

definition bst :: "'k compare \<Rightarrow> ('k, 'v, 'x) node \<Rightarrow> bool" where
  "bst cmp t \<longleftrightarrow> increasing cmp (inorder t)"

text \<open>
  The abstract specification on lists of pairs: what a map from keys (up to \<open>cmp _ _ = 0\<close>) to values
  should do.  None of the three mentions a tree.
\<close>

definition upd_pairs :: "'k compare \<Rightarrow> 'k \<Rightarrow> 'v \<Rightarrow> ('k \<times> 'v) list \<Rightarrow> ('k \<times> 'v) list" where
  "upd_pairs cmp k v xs =
     filter (\<lambda>a. cmp k (fst a) > 0) xs @ (k, v) # filter (\<lambda>a. cmp k (fst a) < 0) xs"

definition del_pairs :: "'k compare \<Rightarrow> 'k \<Rightarrow> ('k \<times> 'v) list \<Rightarrow> ('k \<times> 'v) list" where
  "del_pairs cmp k xs = filter (\<lambda>a. cmp k (fst a) \<noteq> 0) xs"

definition find_pair :: "'k compare \<Rightarrow> 'k \<Rightarrow> ('k \<times> 'v) list \<Rightarrow> ('k \<times> 'v) option" where
  "find_pair cmp k xs = find (\<lambda>a. cmp k (fst a) = 0) xs"

definition has_key :: "'k compare \<Rightarrow> 'k \<Rightarrow> ('k \<times> 'v) list \<Rightarrow> bool" where
  "has_key cmp k xs \<longleftrightarrow> (\<exists>a\<in>set xs. cmp k (fst a) = 0)"

fun height :: "('k, 'v, 'x) node \<Rightarrow> nat" where
  "height Null = 0"
| "height (Node l k v x r) = Suc (max (height l) (height r))"

lemma height_0 [simp]: "height t = 0 \<longleftrightarrow> t = Null"
  by (cases t) auto

section \<open>Consequences of the comparison contract\<close>

lemma int_compare_ok: "compare_ok int_compare"
  by (auto simp: compare_ok_def int_compare_def)

lemma cmp_swap_less: "compare_ok cmp \<Longrightarrow> cmp y x < 0 \<longleftrightarrow> cmp x y > 0"
  unfolding compare_ok_def by (metis neg_equal_0_iff_equal neg_less_0_iff_less sgn_greater sgn_less)

lemma cmp_swap_zero: "compare_ok cmp \<Longrightarrow> cmp y x = 0 \<longleftrightarrow> cmp x y = 0"
  unfolding compare_ok_def by (metis neg_equal_0_iff_equal sgn_0_0)

lemma cmp_trans: "compare_ok cmp \<Longrightarrow> cmp x y \<le> 0 \<Longrightarrow> cmp y z \<le> 0 \<Longrightarrow> cmp x z \<le> 0"
  unfolding compare_ok_def by blast

lemma cmp_less_trans:
  assumes "compare_ok cmp" "cmp x y \<le> 0" "cmp y z < 0"
  shows "cmp x z < 0"
proof (rule ccontr)
  assume "\<not> cmp x z < 0"
  with cmp_trans[OF assms(1,2), of z] assms(3) have "cmp x z = 0" by linarith
  then have "cmp z x \<le> 0" using cmp_swap_zero[OF assms(1), of x z] by simp
  from cmp_trans[OF assms(1) this assms(2)] have "cmp z y \<le> 0" .
  then show False using cmp_swap_less[OF assms(1), of y z] assms(3) by linarith
qed

lemma cmp_less_trans2:
  assumes "compare_ok cmp" "cmp x y < 0" "cmp y z \<le> 0"
  shows "cmp x z < 0"
proof (rule ccontr)
  assume "\<not> cmp x z < 0"
  then have "cmp z x \<le> 0"
    using cmp_swap_less[OF assms(1), of x z] by linarith
  from cmp_trans[OF assms(1,3) this] have "cmp y x \<le> 0" .
  then show False using cmp_swap_less[OF assms(1), of x y] assms(2) by linarith
qed

section \<open>The search loop\<close>

lemma descend_zip: "descend cmp k t p = (t', p') \<Longrightarrow> zip_up t' p' = zip_up t p"
  by (induction cmp k t p rule: descend.induct) (auto split: if_splits)

text \<open>The search makes one comparison per ancestor it leaves behind, at most \<open>height t\<close> of them.\<close>

lemma descend_steps: "descend cmp k t p = (t', p') \<Longrightarrow> length p' \<le> height t + length p"
  by (induction cmp k t p rule: descend.induct) (auto split: if_splits)

lemma descend_found:
  "descend cmp k t p = (Node l k0 v0 x r, p') \<Longrightarrow> cmp k k0 = 0"
  by (induction cmp k t p rule: descend.induct) (auto split: if_splits)

text \<open>What the search keeps of the pairs it leaves behind on either side.\<close>

definition separates :: "'k compare \<Rightarrow> 'k \<Rightarrow> ('k, 'v, 'x) path \<Rightarrow> bool" where
  "separates cmp k p \<longleftrightarrow>
     (\<forall>a\<in>set (lefts p). cmp k (fst a) > 0) \<and> (\<forall>a\<in>set (rights p). cmp k (fst a) < 0)"

lemma separates_Nil [simp]: "separates cmp k []"
  by (simp add: separates_def)

lemma cmp_greater_trans:
  assumes "compare_ok cmp" "cmp k k0 > 0" "cmp y k0 < 0"
  shows "cmp k y > 0"
proof -
  have "cmp k0 k < 0" using assms cmp_swap_less by metis
  moreover have "cmp y k0 \<le> 0" using assms by simp
  ultimately have "cmp y k < 0" using cmp_less_trans assms(1) by metis
  then show ?thesis using cmp_swap_less assms(1) by metis
qed

lemma descend_separates:
  assumes ok: "compare_ok cmp"
  shows "descend cmp k t p = (t', p') \<Longrightarrow> bst cmp t \<Longrightarrow> separates cmp k p \<Longrightarrow>
    separates cmp k p' \<and> bst cmp t'"
proof (induction t arbitrary: p)
  case (Node l k0 v0 x r)
  have sub: "bst cmp l" "bst cmp r"
    and l: "\<And>a. a \<in> set (inorder l) \<Longrightarrow> cmp (fst a) k0 < 0"
    and r: "\<And>a. a \<in> set (inorder r) \<Longrightarrow> cmp k0 (fst a) < 0"
    using Node.prems(2) by (auto simp: bst_def increasing_def sorted_wrt_append)
  consider "cmp k k0 < 0" | "cmp k k0 > 0" | "cmp k k0 = 0" by linarith
  then show ?case
  proof cases
    case 1
    then have "separates cmp k (LeftOf k0 v0 x r # p)"
      using Node.prems(3) r cmp_less_trans[OF ok, of k k0] by (auto simp: separates_def)
    then show ?thesis using 1 Node.IH(1) Node.prems sub by simp
  next
    case 2
    then have "separates cmp k (RightOf l k0 v0 x # p)"
      using Node.prems(3) l cmp_greater_trans[OF ok 2] by (auto simp: separates_def)
    then show ?thesis using 2 Node.IH(2) Node.prems sub by simp
  next
    case 3
    then show ?thesis using Node.prems by simp
  qed
qed simp

lemma search_separates:
  assumes "compare_ok cmp" "bst cmp root" "descend cmp k root [] = (t, p)"
  shows "separates cmp k p"
  using descend_separates[OF assms(1,3,2)] by simp

lemma search_zip: "descend cmp k root [] = (t, p) \<Longrightarrow> inorder root = lefts p @ inorder t @ rights p"
  using descend_zip[of cmp k root "[]" t p] by (metis inorder_zip_up zip_up.simps(1))

text \<open>Around a separating path the three list operations act on the node at its end only.\<close>

lemma separates_filters:
  assumes "separates cmp k p"
  shows "filter (\<lambda>a. cmp k (fst a) > 0) (lefts p) = lefts p"
    and "filter (\<lambda>a. cmp k (fst a) > 0) (rights p) = []"
    and "filter (\<lambda>a. cmp k (fst a) < 0) (lefts p) = []"
    and "filter (\<lambda>a. cmp k (fst a) < 0) (rights p) = rights p"
    and "filter (\<lambda>a. cmp k (fst a) \<noteq> 0) (lefts p) = lefts p"
    and "filter (\<lambda>a. cmp k (fst a) \<noteq> 0) (rights p) = rights p"
  using assms unfolding separates_def
  by (fastforce intro!: filter_all_True filter_all_False)+

lemma node_bounds:
  assumes "compare_ok cmp" "bst cmp (Node l k0 v0 x r)" "cmp k k0 = 0"
  shows "a \<in> set (inorder l) \<Longrightarrow> cmp k (fst a) > 0"
    and "a \<in> set (inorder r) \<Longrightarrow> cmp k (fst a) < 0"
proof -
  have l: "\<And>a. a \<in> set (inorder l) \<Longrightarrow> cmp (fst a) k0 < 0"
    and r: "\<And>a. a \<in> set (inorder r) \<Longrightarrow> cmp k0 (fst a) < 0"
    using assms(2) by (auto simp: bst_def increasing_def sorted_wrt_append)
  show "a \<in> set (inorder r) \<Longrightarrow> cmp k (fst a) < 0"
    using r[of a] cmp_less_trans[OF assms(1), of k k0 "fst a"] assms(3) by simp
  have "cmp k0 k = 0" using assms(1,3) cmp_swap_zero by metis
  then show "a \<in> set (inorder l) \<Longrightarrow> cmp k (fst a) > 0"
    using l[of a] cmp_less_trans2[OF assms(1), of "fst a" k0 k] cmp_swap_less[OF assms(1)] by simp
qed

lemma node_filters:
  assumes "compare_ok cmp" "bst cmp (Node l k0 v0 x r)" "cmp k k0 = 0"
  shows "filter (\<lambda>a. cmp k (fst a) > 0) (inorder l) = inorder l"
    and "filter (\<lambda>a. cmp k (fst a) > 0) (inorder r) = []"
    and "filter (\<lambda>a. cmp k (fst a) < 0) (inorder l) = []"
    and "filter (\<lambda>a. cmp k (fst a) < 0) (inorder r) = inorder r"
    and "filter (\<lambda>a. cmp k (fst a) \<noteq> 0) (inorder l) = inorder l"
    and "filter (\<lambda>a. cmp k (fst a) \<noteq> 0) (inorder r) = inorder r"
  using node_bounds[OF assms]
  by (fastforce intro!: filter_all_True filter_all_False)+

text \<open>The three outcomes of a search, in terms of the abstract list.\<close>

lemma search_miss:
  assumes "compare_ok cmp" "bst cmp root" "descend cmp k root [] = (Null, p)"
  shows "lefts p @ (k, v) # rights p = upd_pairs cmp k v (inorder root)"
    and "\<not> has_key cmp k (inorder root)"
    and "inorder root = lefts p @ rights p"
proof -
  note sep = search_separates[OF assms] and z = search_zip[OF assms(3)]
  show "lefts p @ (k, v) # rights p = upd_pairs cmp k v (inorder root)"
    by (simp add: upd_pairs_def z separates_filters[OF sep])
  show "\<not> has_key cmp k (inorder root)"
    using sep by (auto simp: has_key_def z separates_def)
  show "inorder root = lefts p @ rights p" using z by simp
qed

lemma search_hit:
  assumes "compare_ok cmp" "bst cmp root" "descend cmp k root [] = (Node l k0 v0 x r, p)"
  shows "lefts p @ inorder l @ (k, v) # inorder r @ rights p = upd_pairs cmp k v (inorder root)"
    and "lefts p @ inorder l @ inorder r @ rights p = del_pairs cmp k (inorder root)"
    and "has_key cmp k (inorder root)"
    and "find_pair cmp k (inorder root) = Some (k0, v0)"
proof -
  note sep = search_separates[OF assms] and z = search_zip[OF assms(3)]
    and eq = descend_found[OF assms(3)]
  have b: "bst cmp (Node l k0 v0 x r)"
    using descend_separates[OF assms(1,3,2)] by simp
  note nf = node_filters[OF assms(1) b eq]
  show "lefts p @ inorder l @ (k, v) # inorder r @ rights p = upd_pairs cmp k v (inorder root)"
    by (simp add: upd_pairs_def z separates_filters[OF sep] nf eq)
  show "lefts p @ inorder l @ inorder r @ rights p = del_pairs cmp k (inorder root)"
    by (simp add: del_pairs_def z separates_filters[OF sep] nf eq)
  show "has_key cmp k (inorder root)" by (simp add: has_key_def z eq)
  have "find (\<lambda>a. cmp k (fst a) = 0) (lefts p @ inorder l) = None"
    using sep node_bounds(1)[OF assms(1) b eq] by (fastforce simp: find_None_iff separates_def)
  then show "find_pair cmp k (inorder root) = Some (k0, v0)"
    by (simp add: find_pair_def z eq find_append del: append_assoc flip: append_assoc)
qed

section \<open>Choosing the node to unlink\<close>

lemma rightmost_zip: "rightmost t p = (t', p') \<Longrightarrow> zip_up t' p' = zip_up t p"
  by (induction t p rule: rightmost.induct) (auto split: if_splits)

lemma rightmost_spec:
  assumes "rightmost t p = (t', p')" "t \<noteq> Null"
  obtains l k v x q where "t' = Node l k v x Null" "p' = q @ p" "rights q = []"
    "inorder t = lefts q @ inorder l @ [(k, v)]"
proof -
  from assms have "\<exists>l k v x q. t' = Node l k v x Null \<and> p' = q @ p \<and> rights q = [] \<and>
    inorder t = lefts q @ inorder l @ [(k, v)]"
  proof (induction t p rule: rightmost.induct)
    case (2 l k v x r p)
    show ?case
    proof (cases "r = Null")
      case True
      then show ?thesis using "2.prems" by (intro exI[of _ l] exI[of _ k] exI[of _ v] exI[of _ x] exI[of _ "[]"]) auto
    next
      case False
      then obtain l1 k1 v1 x1 q where "t' = Node l1 k1 v1 x1 Null" "p' = q @ RightOf l k v x # p"
        "rights q = []" "inorder r = lefts q @ inorder l1 @ [(k1, v1)]"
        using 2 by auto
      then show ?thesis by (intro exI[of _ "q @ [RightOf l k v x]"] exI) (auto intro!: exI)
    qed
  qed simp
  then show thesis using that by blast
qed

lemma select_victim_spec:
  assumes "select_victim (Node l k0 v0 x r, p) = (t, q)"
  obtains l1 k1 v1 x1 r1 where "t = Node l1 k1 v1 x1 r1" "l1 = Null \<or> r1 = Null"
    "lefts q @ inorder (only_child t) @ rights q = lefts p @ inorder l @ inorder r @ rights p"
    "if l \<noteq> Null \<and> r \<noteq> Null then last (inorder l) = (k1, v1) else (k1, v1) = (k0, v0)"
proof (cases "l \<noteq> Null \<and> r \<noteq> Null")
  case True
  obtain t' p' where rm: "rightmost l [] = (t', p')" by fastforce
  from rightmost_spec[OF rm] True obtain l1 k1 v1 x1 q1 where
    "t' = Node l1 k1 v1 x1 Null" "p' = q1 @ []" "rights q1 = []"
    "inorder l = lefts q1 @ inorder l1 @ [(k1, v1)]" by metis
  then show thesis using assms True rm that by (auto simp: select_victim_def)
next
  case False
  then show thesis using assms that by (auto simp: select_victim_def)
qed

section \<open>The list specification keeps the order\<close>

lemma increasing_upd_pairs:
  assumes ok: "compare_ok cmp" and inc: "increasing cmp xs"
  shows "increasing cmp (upd_pairs cmp k v xs)"
proof -
  have "cmp (fst a) k < 0" if "cmp k (fst a) > 0" for a :: "'a \<times> 'b"
    using that cmp_swap_less[OF ok] by metis
  moreover have "cmp (fst a) (fst b) < 0" if "cmp k (fst a) > 0" "cmp k (fst b) < 0" for a b :: "'a \<times> 'b"
    using that cmp_swap_less[OF ok, of k "fst a"] cmp_less_trans[OF ok, of "fst a" k "fst b"] by simp
  ultimately show ?thesis
    using inc by (auto simp: increasing_def upd_pairs_def sorted_wrt_append_Cons sorted_wrt_filter)
qed

lemma increasing_del_pairs: "increasing cmp xs \<Longrightarrow> increasing cmp (del_pairs cmp k xs)"
  by (simp add: increasing_def del_pairs_def sorted_wrt_filter)

lemma cmp_eq_trans:
  assumes "compare_ok cmp" "cmp x y = 0" "cmp y z = 0"
  shows "cmp x z = 0"
proof -
  have "cmp x z \<le> 0" using cmp_trans[OF assms(1), of x y z] assms by simp
  moreover have "cmp z x \<le> 0"
    using cmp_trans[OF assms(1), of z y x] cmp_swap_zero[OF assms(1)] assms by (metis order_refl)
  ultimately show ?thesis using cmp_swap_less[OF assms(1), of x z] by linarith
qed

lemma cmp_eq_sign:
  assumes "compare_ok cmp" "cmp y z = 0"
  shows "cmp x z < 0 \<longleftrightarrow> cmp x y < 0" and "cmp x z > 0 \<longleftrightarrow> cmp x y > 0" and "cmp x z = 0 \<longleftrightarrow> cmp x y = 0"
proof -
  have zy: "cmp z y = 0" using assms cmp_swap_zero by metis
  show less: "cmp x z < 0 \<longleftrightarrow> cmp x y < 0"
    using cmp_less_trans2[OF assms(1)] assms(2) zy by (metis order_refl)
  show eq: "cmp x z = 0 \<longleftrightarrow> cmp x y = 0" using cmp_eq_trans[OF assms(1)] assms(2) zy by metis
  show "cmp x z > 0 \<longleftrightarrow> cmp x y > 0" using less eq by linarith
qed

section \<open>The map a list of pairs stands for\<close>

lemma find_pair_upd:
  assumes "compare_ok cmp"
  shows "find_pair cmp k' (upd_pairs cmp k v xs) =
    (if cmp k' k = 0 then Some (k, v) else find_pair cmp k' xs)"
proof -
  have sign: "(cmp k (fst a) < 0) = (cmp k k' < 0)" "(cmp k (fst a) > 0) = (cmp k k' > 0)"
    if "cmp k' (fst a) = 0" for a :: "'a \<times> 'b"
    using cmp_eq_sign[OF assms that] by blast+
  have sw: "cmp k' k = 0 \<longleftrightarrow> cmp k k' = 0" by (rule cmp_swap_zero[OF assms])
  let ?P = "\<lambda>a. cmp k' (fst a) = 0"
  let ?G = "filter (\<lambda>a. cmp k (fst a) > 0) xs" and ?L = "filter (\<lambda>a. cmp k (fst a) < 0) xs"
  consider (gt) "cmp k k' > 0" | (lt) "cmp k k' < 0" | (eq) "cmp k k' = 0" by linarith
  then show ?thesis
  proof cases
    case gt
    then have "find ?P ?G = find ?P xs" "find ?P ?L = None"
      by (simp_all add: find_filter_same find_filter_none sign)
    then show ?thesis using gt sw by (simp add: find_pair_def upd_pairs_def find_append split: option.split)
  next
    case lt
    then have "find ?P ?G = None" "find ?P ?L = find ?P xs"
      by (simp_all add: find_filter_same find_filter_none sign)
    then show ?thesis using lt sw by (simp add: find_pair_def upd_pairs_def find_append)
  next
    case eq
    then have "find ?P ?G = None"
      by (simp add: find_filter_none sign)
    then show ?thesis using eq sw by (simp add: find_pair_def upd_pairs_def find_append)
  qed
qed

lemma find_pair_del:
  assumes "compare_ok cmp"
  shows "find_pair cmp k' (del_pairs cmp k xs) = (if cmp k' k = 0 then None else find_pair cmp k' xs)"
proof -
  have eq: "(cmp k (fst a) = 0) = (cmp k' k = 0)" if "cmp k' (fst a) = 0" for a :: "'a \<times> 'b"
    using cmp_eq_sign(3)[OF assms that, of k] cmp_swap_zero[OF assms, of k' k] by blast
  show ?thesis
    by (simp add: find_pair_def del_pairs_def find_filter_same find_filter_none eq)
qed

lemma has_key_iff: "has_key cmp k xs \<longleftrightarrow> find_pair cmp k xs \<noteq> None"
proof -
  have "find (\<lambda>a. cmp k (fst a) = 0) xs = None \<longleftrightarrow> \<not> (\<exists>a. a \<in> set xs \<and> cmp k (fst a) = 0)"
    by (rule find_None_iff)
  then show ?thesis by (simp add: has_key_def find_pair_def Bex_def)
qed

definition tree_map :: "'k compare \<Rightarrow> ('k, 'v, 'x) node \<Rightarrow> 'k \<Rightarrow> 'v option" where
  "tree_map cmp t k = map_option snd (find_pair cmp k (inorder t))"

text \<open>The lookup loop computes this map.\<close>

lemma lookup_node_descend:
  "lookup_node cmp k t =
    (case descend cmp k t p of (Null, _) \<Rightarrow> None | (Node _ _ v _ _, _) \<Rightarrow> Some v)"
  by (induction cmp k t p rule: descend.induct) auto

lemma lookup_node_map:
  assumes "compare_ok cmp" "bst cmp t"
  shows "lookup_node cmp k t = tree_map cmp t k"
proof -
  obtain t' p where d: "descend cmp k t [] = (t', p)" by fastforce
  show ?thesis
  proof (cases t')
    case Null
    then have "find_pair cmp k (inorder t) = None"
      using search_miss(2)[OF assms] d has_key_iff[of cmp k "inorder t"] by blast
    then show ?thesis using d Null lookup_node_descend[of cmp k t "[]"] by (simp add: tree_map_def)
  next
    case (Node l k0 v0 x r)
    then have "find_pair cmp k (inorder t) = Some (k0, v0)"
      using search_hit(4)[OF assms, of k l k0 v0 x r p] d by simp
    then show ?thesis using d Node lookup_node_descend[of cmp k t "[]"] by (simp add: tree_map_def)
  qed
qed

end
