(* ===== verification/PTreeBackend.thy ===== *)
theory PTreeBackend
  imports PTreeBase
begin

text \<open>
  The interface between \<open>ptree.c\<close> and the three balancing schemes.  A \<open>PTree\<close> stores pointers to an
  insert and a remove function (\<open>insert_node_func\<close>, \<open>remove_node_func\<close>); this theory states, as a
  locale, what \<open>ptree.c\<close> relies on.  An operation returns the new root, its \<open>pboolean\<close> result and
  the log of destruction events, or \<open>None\<close> for a NULL dereference.
\<close>

type_synonym ('k, 'v, 'x) outcome = "(('k, 'v, 'x) node \<times> bool \<times> ('k, 'v) event list) option"

definition destroyed_by_insert ::
  "'k compare \<Rightarrow> bool \<Rightarrow> bool \<Rightarrow> 'k \<Rightarrow> ('k \<times> 'v) list \<Rightarrow> ('k, 'v) event list" where
  "destroyed_by_insert cmp kd vd k xs =
     (case find_pair cmp k xs of None \<Rightarrow> [] | Some (k0, v0) \<Rightarrow> destroy_pair kd vd k0 v0)"

text \<open>
  What an insertion and a removal must achieve on the abstract list of pairs.  \<open>mem\<close> says whether
  \<open>p_malloc0\<close> succeeds.  A removal destroys exactly one pair and frees exactly one node.
\<close>

definition insert_spec ::
  "'k compare \<Rightarrow> bool \<Rightarrow> bool \<Rightarrow> bool \<Rightarrow> 'k \<Rightarrow> 'v \<Rightarrow> ('k \<times> 'v) list \<Rightarrow>
   ('k \<times> 'v) list \<times> bool \<times> ('k, 'v) event list \<Rightarrow> bool" where
  "insert_spec cmp kd vd mem k v xs out \<longleftrightarrow>
     (case out of (ys, res, log) \<Rightarrow>
        ys = (if mem \<or> has_key cmp k xs then upd_pairs cmp k v xs else xs) \<and>
        res = (mem \<and> \<not> has_key cmp k xs) \<and>
        log = destroyed_by_insert cmp kd vd k xs)"

definition remove_spec ::
  "'k compare \<Rightarrow> bool \<Rightarrow> bool \<Rightarrow> 'k \<Rightarrow> ('k \<times> 'v) list \<Rightarrow>
   ('k \<times> 'v) list \<times> bool \<times> ('k, 'v) event list \<Rightarrow> bool" where
  "remove_spec cmp kd vd k xs out \<longleftrightarrow>
     (case out of (ys, res, log) \<Rightarrow>
        ys = del_pairs cmp k xs \<and> res = has_key cmp k xs \<and>
        (if res then \<exists>k1 v1. (k1, v1) \<in> set xs \<and> log = destroy_pair kd vd k1 v1 @ [NodeFreed]
         else log = []))"

locale tree_backend =
  fixes ins :: "'k compare \<Rightarrow> bool \<Rightarrow> bool \<Rightarrow> bool \<Rightarrow> 'k \<Rightarrow> 'v \<Rightarrow> ('k, 'v, 'x) node \<Rightarrow> ('k, 'v, 'x) outcome"
    and rem :: "'k compare \<Rightarrow> bool \<Rightarrow> bool \<Rightarrow> 'k \<Rightarrow> ('k, 'v, 'x) node \<Rightarrow> ('k, 'v, 'x) outcome"
    and inv :: "('k, 'v, 'x) node \<Rightarrow> bool"
  assumes inv_Null: "inv Null"
    and ins_law: "compare_ok cmp \<Longrightarrow> bst cmp t \<Longrightarrow> inv t \<Longrightarrow>
      \<exists>t' out. ins cmp kd vd mem k v t = Some (t', out) \<and> inv t' \<and>
        insert_spec cmp kd vd mem k v (inorder t) (inorder t', out)"
    and rem_law: "compare_ok cmp \<Longrightarrow> bst cmp t \<Longrightarrow> inv t \<Longrightarrow>
      \<exists>t' out. rem cmp kd vd k t = Some (t', out) \<and> inv t' \<and>
        remove_spec cmp kd vd k (inorder t) (inorder t', out)"

text \<open>What every backend needs to discharge the laws.\<close>

lemma insert_spec_miss:
  assumes "compare_ok cmp" "bst cmp root" "descend cmp k root [] = (Null, p)"
    and "inorder t' = lefts p @ (k, v) # rights p"
  shows "insert_spec cmp kd vd True k v (inorder root) (inorder t', True, [])"
    and "insert_spec cmp kd vd False k v (inorder root) (inorder root, False, [])"
proof -
  note m = search_miss[OF assms(1-3)]
  then have "find_pair cmp k (inorder root) = None"
    using has_key_iff[of cmp k "inorder root"] by blast
  with m show "insert_spec cmp kd vd True k v (inorder root) (inorder t', True, [])"
    and "insert_spec cmp kd vd False k v (inorder root) (inorder root, False, [])"
    by (simp_all add: insert_spec_def destroyed_by_insert_def assms(4))
qed

lemma insert_spec_hit:
  assumes "compare_ok cmp" "bst cmp root" "descend cmp k root [] = (Node l k0 v0 x r, p)"
  shows "insert_spec cmp kd vd mem k v (inorder root)
    (inorder (zip_up (Node l k v x r) p), False, destroy_pair kd vd k0 v0)"
  using search_hit[OF assms] by (simp add: insert_spec_def destroyed_by_insert_def)

lemma remove_spec_miss:
  assumes "compare_ok cmp" "bst cmp root" "descend cmp k root [] = (Null, p)"
  shows "remove_spec cmp kd vd k (inorder root) (inorder root, False, [])"
proof -
  have "\<not> has_key cmp k (inorder root)" by (rule search_miss(2)[OF assms])
  then show ?thesis by (auto simp: remove_spec_def del_pairs_def has_key_def filter_id_conv)
qed

lemma remove_spec_hit:
  assumes "compare_ok cmp" "bst cmp root" "descend cmp k root [] = (Node l k0 v0 x r, p)"
    and "select_victim (Node l k0 v0 x r, p) = (Node l1 k1 v1 x1 r1, q)"
    and "inorder t' = lefts q @ inorder (only_child (Node l1 k1 v1 x1 r1)) @ rights q"
  shows "remove_spec cmp kd vd k (inorder root)
    (inorder t', True, destroy_pair kd vd k1 v1 @ [NodeFreed])"
proof -
  from select_victim_spec[OF assms(4)] have
    sv: "inorder t' = lefts p @ inorder l @ inorder r @ rights p"
      "if l \<noteq> Null \<and> r \<noteq> Null then last (inorder l) = (k1, v1) else (k1, v1) = (k0, v0)"
    using assms(5) by (metis node.inject)+
  have "(k1, v1) \<in> set (inorder root)"
  proof (cases "l \<noteq> Null \<and> r \<noteq> Null")
    case True
    then have "(k1, v1) \<in> set (inorder l)"
      using sv(2) last_in_set[of "inorder l"] by simp
    then show ?thesis by (simp add: search_zip[OF assms(3)])
  next
    case False
    then show ?thesis using sv(2) by (simp only: search_zip[OF assms(3)] if_False) simp
  qed
  then show ?thesis
    using search_hit(2,3)[OF assms(1-3)] sv(1) by (auto simp: remove_spec_def)
qed

lemma bst_after_insert:
  assumes "compare_ok cmp" "bst cmp t" "insert_spec cmp kd vd mem k v (inorder t) (inorder t', out)"
  shows "bst cmp t'"
  using assms increasing_upd_pairs[OF assms(1)] by (cases out) (auto simp: bst_def insert_spec_def split: if_splits)

lemma bst_after_remove:
  assumes "bst cmp t" "remove_spec cmp kd vd k (inorder t) (inorder t', out)"
  shows "bst cmp t'"
  using assms increasing_del_pairs by (cases out) (auto simp: bst_def remove_spec_def)

text \<open>Consequences of the laws that any client may use, proved once for all backends.\<close>

context tree_backend
begin

lemma ins_keeps:
  assumes "compare_ok cmp" "bst cmp t" "inv t"
  shows "\<exists>t' out. ins cmp kd vd mem k v t = Some (t', out) \<and> inv t' \<and> bst cmp t'"
  using ins_law[OF assms] bst_after_insert[OF assms(1,2)] by blast

lemma rem_keeps:
  assumes "compare_ok cmp" "bst cmp t" "inv t"
  shows "\<exists>t' out. rem cmp kd vd k t = Some (t', out) \<and> inv t' \<and> bst cmp t'"
  using rem_law[OF assms] bst_after_remove[OF assms(2)] by blast

lemma ins_map:
  assumes "compare_ok cmp" "bst cmp t" "inv t" "ins cmp kd vd True k v t = Some (t', out)"
  shows "tree_map cmp t' k' = (if cmp k' k = 0 then Some v else tree_map cmp t k')"
  using ins_law[OF assms(1-3), of kd vd True k v] assms(4)
  by (cases out) (auto simp: insert_spec_def tree_map_def find_pair_upd[OF assms(1)])

lemma rem_map:
  assumes "compare_ok cmp" "bst cmp t" "inv t" "rem cmp kd vd k t = Some (t', out)"
  shows "tree_map cmp t' k' = (if cmp k' k = 0 then None else tree_map cmp t k')"
  using rem_law[OF assms(1-3), of kd vd k] assms(4)
  by (cases out) (auto simp: remove_spec_def tree_map_def find_pair_del[OF assms(1)])

end

end
