(* ===== verification/PTreeBst.thy ===== *)
theory PTreeBst
  imports PTreeBackend
begin

text \<open>The unbalanced binary search tree (\<open>ptree-bst.c\<close>).  Its nodes carry no further fields.\<close>

definition p_tree_bst_insert ::
  "'k compare \<Rightarrow> bool \<Rightarrow> bool \<Rightarrow> bool \<Rightarrow> 'k \<Rightarrow> 'v \<Rightarrow> ('k, 'v, unit) node \<Rightarrow>
   ('k, 'v, unit) node \<times> bool \<times> ('k, 'v) event list" where
  "p_tree_bst_insert cmp kd vd mem k v root =
     (case descend cmp k root [] of
        (Null, p) \<Rightarrow>
          if mem then (zip_up (Node Null k v () Null) p, True, []) else (root, False, [])
      | (Node l k0 v0 x r, p) \<Rightarrow>
          (zip_up (Node l k v x r) p, False, destroy_pair kd vd k0 v0))"

definition p_tree_bst_remove ::
  "'k compare \<Rightarrow> bool \<Rightarrow> bool \<Rightarrow> 'k \<Rightarrow> ('k, 'v, unit) node \<Rightarrow>
   ('k, 'v, unit) node \<times> bool \<times> ('k, 'v) event list" where
  "p_tree_bst_remove cmp kd vd k root =
     (let z = descend cmp k root []
      in case z of
           (Null, p) \<Rightarrow> (root, False, [])
         | (Node _ _ _ _ _, _) \<Rightarrow>
             (let (cur, p) = select_victim z
              in (zip_up (only_child cur) p, True, destroy_pair kd vd (key cur) (val cur) @ [NodeFreed])))"

lemma bst_insert_law:
  assumes "compare_ok cmp" "bst cmp root"
  shows "\<exists>t' out. p_tree_bst_insert cmp kd vd mem k v root = (t', out) \<and>
    insert_spec cmp kd vd mem k v (inorder root) (inorder t', out)"
proof -
  obtain t p where d: "descend cmp k root [] = (t, p)" by fastforce
  show ?thesis
  proof (cases t)
    case Null
    with d have d': "descend cmp k root [] = (Null, p)" by simp
    show ?thesis
      using insert_spec_miss[OF assms d', of "zip_up (Node Null k v () Null) p" v kd vd]
      by (cases mem) (simp_all add: p_tree_bst_insert_def d')
  next
    case (Node l k0 v0 x r)
    with d have d': "descend cmp k root [] = (Node l k0 v0 x r, p)" by simp
    show ?thesis using insert_spec_hit[OF assms d'] by (simp add: p_tree_bst_insert_def d')
  qed
qed

lemma bst_remove_law:
  assumes "compare_ok cmp" "bst cmp root"
  shows "\<exists>t' out. p_tree_bst_remove cmp kd vd k root = (t', out) \<and>
    remove_spec cmp kd vd k (inorder root) (inorder t', out)"
proof -
  obtain t p where d: "descend cmp k root [] = (t, p)" by fastforce
  show ?thesis
  proof (cases t)
    case Null
    with d have d': "descend cmp k root [] = (Null, p)" by simp
    show ?thesis using remove_spec_miss[OF assms d'] by (simp add: p_tree_bst_remove_def d')
  next
    case (Node l k0 v0 x r)
    with d have d': "descend cmp k root [] = (Node l k0 v0 () r, p)" by simp
    obtain cur q where sv: "select_victim (Node l k0 v0 () r, p) = (cur, q)" by fastforce
    then obtain l1 k1 v1 r1 where cur: "cur = Node l1 k1 v1 () r1"
      by (rule select_victim_spec) simp
    show ?thesis
      using remove_spec_hit[OF assms d' sv[unfolded cur], of "zip_up (only_child cur) q" kd vd]
      by (simp add: p_tree_bst_remove_def d' sv cur)
  qed
qed

text \<open>As stored in the tree object; neither dereferences a pointer it has not checked.\<close>

definition p_tree_bst_insert_func ::
  "'k compare \<Rightarrow> bool \<Rightarrow> bool \<Rightarrow> bool \<Rightarrow> 'k \<Rightarrow> 'v \<Rightarrow> ('k, 'v, unit) node \<Rightarrow> ('k, 'v, unit) outcome" where
  "p_tree_bst_insert_func cmp kd vd mem k v t = Some (p_tree_bst_insert cmp kd vd mem k v t)"

definition p_tree_bst_remove_func ::
  "'k compare \<Rightarrow> bool \<Rightarrow> bool \<Rightarrow> 'k \<Rightarrow> ('k, 'v, unit) node \<Rightarrow> ('k, 'v, unit) outcome" where
  "p_tree_bst_remove_func cmp kd vd k t = Some (p_tree_bst_remove cmp kd vd k t)"

interpretation bst_tree: tree_backend p_tree_bst_insert_func p_tree_bst_remove_func "\<lambda>_. True"
  by unfold_locales
    (use bst_insert_law bst_remove_law in \<open>auto simp: p_tree_bst_insert_func_def p_tree_bst_remove_func_def\<close>)

end
