(* ===== verification/PTreeAvl.thy ===== *)
theory PTreeAvl
  imports PTreeBackend
begin

text \<open>
  The AVL tree (\<open>ptree-avl.c\<close>).  A node's further field is its \<open>balance_factor\<close>: the height of its
  left subtree minus the height of its right subtree.  Parent pointers are the ancestor paths of
  \<open>PTreeBase\<close>; a rotation takes the node it is called on together with its ancestors.
\<close>

type_synonym ('k, 'v) avl_node = "('k, 'v, int) node"
type_synonym ('k, 'v) avl_path = "('k, 'v, int) path"
type_synonym ('k, 'v) avl_zipper = "('k, 'v, int) zipper"

section \<open>Rotations\<close>

text \<open>
  \<open>rotate_left\<close> is called on the right child \<open>node\<close> of its parent, \<open>rotate_right\<close> on the left child.
  In the result the focus is \<open>node\<close> at its new place, or \<open>tmp_node\<close> for the double rotations.  A
  rotation on a node with no parent, or a double rotation with no inner child, dereferences NULL.
\<close>

fun pp_tree_avl_rotate_left :: "('k, 'v) avl_zipper \<Rightarrow> ('k, 'v) avl_zipper option" where
  "pp_tree_avl_rotate_left (Node b k v bf c, RightOf a pk pv pbf # p) =
     (let bf' = bf + 1; pbf' = - bf'
      in Some (Node (Node a pk pv pbf' b) k v bf' c, p))"
| "pp_tree_avl_rotate_left _ = None"

fun pp_tree_avl_rotate_right :: "('k, 'v) avl_zipper \<Rightarrow> ('k, 'v) avl_zipper option" where
  "pp_tree_avl_rotate_right (Node a k v bf b, LeftOf pk pv pbf c # p) =
     (let bf' = bf - 1; pbf' = - bf'
      in Some (Node a k v bf' (Node b pk pv pbf' c), p))"
| "pp_tree_avl_rotate_right _ = None"

text \<open>The balance factors both double rotations give to the left and the right child of \<open>tmp_node\<close>.\<close>

definition restored_factors :: "int \<Rightarrow> int \<times> int" where
  "restored_factors tbf = (if tbf = 1 then (0, -1) else if tbf = -1 then (1, 0) else (0, 0))"

fun pp_tree_avl_rotate_left_right :: "('k, 'v) avl_zipper \<Rightarrow> ('k, 'v) avl_zipper option" where
  "pp_tree_avl_rotate_left_right (Node a k v bf (Node b tk tv tbf c), LeftOf pk pv pbf d # p) =
     (let (lbf, rbf) = restored_factors tbf
      in Some (Node (Node a k v lbf b) tk tv 0 (Node c pk pv rbf d), p))"
| "pp_tree_avl_rotate_left_right _ = None"

fun pp_tree_avl_rotate_right_left :: "('k, 'v) avl_zipper \<Rightarrow> ('k, 'v) avl_zipper option" where
  "pp_tree_avl_rotate_right_left (Node (Node b tk tv tbf c) k v bf d, RightOf a pk pv pbf # p) =
     (let (lbf, rbf) = restored_factors tbf
      in Some (Node (Node a pk pv lbf b) tk tv 0 (Node c k v rbf d), p))"
| "pp_tree_avl_rotate_right_left _ = None"

lemma rotate_path:
  "pp_tree_avl_rotate_left z = Some (t, p) \<Longrightarrow> p = tl (snd z)"
  "pp_tree_avl_rotate_right z = Some (t, p) \<Longrightarrow> p = tl (snd z)"
  "pp_tree_avl_rotate_left_right z = Some (t, p) \<Longrightarrow> p = tl (snd z)"
  "pp_tree_avl_rotate_right_left z = Some (t, p) \<Longrightarrow> p = tl (snd z)"
  by (auto elim!: pp_tree_avl_rotate_left.elims pp_tree_avl_rotate_right.elims
      pp_tree_avl_rotate_left_right.elims pp_tree_avl_rotate_right_left.elims
      simp: Let_def restored_factors_def split: if_splits)

section \<open>Rebalancing\<close>

text \<open>
  \<open>pp_tree_avl_balance_insert\<close>: the loop climbs from the new node until a rotation or an absorbed
  imbalance ends it.  The result is the root.
\<close>

fun pp_tree_avl_balance_insert ::
  "('k, 'v) avl_node \<Rightarrow> ('k, 'v) avl_path \<Rightarrow> ('k, 'v) avl_node option" where
  "pp_tree_avl_balance_insert node [] = Some node"
| "pp_tree_avl_balance_insert Null (c # p) = None"
| "pp_tree_avl_balance_insert (Node l k v bf r) (LeftOf pk pv pbf pr # p) =
     (let node = Node l k v bf r
      in if pbf = 1 then
           map_option (\<lambda>(t, q). zip_up t q)
             (if bf = -1 then pp_tree_avl_rotate_left_right (node, LeftOf pk pv pbf pr # p)
              else pp_tree_avl_rotate_right (node, LeftOf pk pv pbf pr # p))
         else if pbf = -1 then Some (zip_up (Node node pk pv 0 pr) p)
         else pp_tree_avl_balance_insert (Node node pk pv 1 pr) p)"
| "pp_tree_avl_balance_insert (Node l k v bf r) (RightOf pl pk pv pbf # p) =
     (let node = Node l k v bf r
      in if pbf = -1 then
           map_option (\<lambda>(t, q). zip_up t q)
             (if bf = 1 then pp_tree_avl_rotate_right_left (node, RightOf pl pk pv pbf # p)
              else pp_tree_avl_rotate_left (node, RightOf pl pk pv pbf # p))
         else if pbf = 1 then Some (zip_up (Node pl pk pv 0 node) p)
         else pp_tree_avl_balance_insert (Node pl pk pv (-1) node) p)"

text \<open>
  \<open>pp_tree_avl_balance_remove\<close>: the loop climbs from the node \<open>cur\<close> it is called on.  \<open>below\<close> holds
  the ancestors of \<open>cur\<close> up to the loop variable \<open>node\<close>, \<open>above\<close> those of \<open>node\<close>; the result is the
  new ancestor path of \<open>cur\<close>, whose parent the caller still has to update.  After a rotation on the
  sibling, \<open>node\<close> is a grandchild of the node rotated up; \<open>node = parent\<close> and \<open>node = node->parent\<close>
  put both onto \<open>below\<close>.
\<close>

function (sequential) pp_tree_avl_balance_remove ::
  "('k, 'v) avl_node \<Rightarrow> ('k, 'v) avl_path \<Rightarrow> ('k, 'v) avl_path \<Rightarrow> ('k, 'v) avl_path option" where
  "pp_tree_avl_balance_remove cur below [] = Some below"
| "pp_tree_avl_balance_remove cur below (LeftOf pk pv pbf sib # p) =
     (if pbf = -1 then
        (case sib of
           Null \<Rightarrow> None
         | Node _ _ _ sbf _ \<Rightarrow>
             (let z = (sib, RightOf (zip_up cur below) pk pv pbf # p)
              in case (if sbf = 1 then pp_tree_avl_rotate_right_left z else pp_tree_avl_rotate_left z) of
                   Some (Node (Node _ k1 v1 bf1 r1) k2 v2 bf2 r2, q) \<Rightarrow>
                     (let below' = below @ [LeftOf k1 v1 bf1 r1, LeftOf k2 v2 bf2 r2]
                      in if sbf = 0 then Some (below' @ q)
                         else pp_tree_avl_balance_remove cur below' q)
                 | _ \<Rightarrow> None))
      else if pbf = 0 then Some (below @ LeftOf pk pv (-1) sib # p)
      else pp_tree_avl_balance_remove cur (below @ [LeftOf pk pv 0 sib]) p)"
| "pp_tree_avl_balance_remove cur below (RightOf sib pk pv pbf # p) =
     (if pbf = 1 then
        (case sib of
           Null \<Rightarrow> None
         | Node _ _ _ sbf _ \<Rightarrow>
             (let z = (sib, LeftOf pk pv pbf (zip_up cur below) # p)
              in case (if sbf = -1 then pp_tree_avl_rotate_left_right z else pp_tree_avl_rotate_right z) of
                   Some (Node l2 k2 v2 bf2 (Node l1 k1 v1 bf1 _), q) \<Rightarrow>
                     (let below' = below @ [RightOf l1 k1 v1 bf1, RightOf l2 k2 v2 bf2]
                      in if sbf = 0 then Some (below' @ q)
                         else pp_tree_avl_balance_remove cur below' q)
                 | _ \<Rightarrow> None))
      else if pbf = 0 then Some (below @ RightOf sib pk pv 1 # p)
      else pp_tree_avl_balance_remove cur (below @ [RightOf sib pk pv 0]) p)"
  by pat_completeness auto
termination
  by (relation "measure (\<lambda>(cur, below, above). length above)")
     (auto dest!: rotate_path split: if_splits)

section \<open>Insertion and removal\<close>

definition p_tree_avl_insert ::
  "'k compare \<Rightarrow> bool \<Rightarrow> bool \<Rightarrow> bool \<Rightarrow> 'k \<Rightarrow> 'v \<Rightarrow> ('k, 'v) avl_node \<Rightarrow> ('k, 'v, int) outcome" where
  "p_tree_avl_insert cmp kd vd mem k v root =
     (case descend cmp k root [] of
        (Node l k0 v0 bf r, p) \<Rightarrow>
          Some (zip_up (Node l k v bf r) p, False, destroy_pair kd vd k0 v0)
      | (Null, p) \<Rightarrow>
          if \<not> mem then Some (root, False, [])
          else map_option (\<lambda>root'. (root', True, []))
                 (pp_tree_avl_balance_insert (Node Null k v 0 Null) p))"

text \<open>
  With no child, the tree is rebalanced around \<open>cur_node\<close> before it is unlinked; with one child it is
  replaced by the child first, and the tree is rebalanced around the child.
\<close>

definition p_tree_avl_remove ::
  "'k compare \<Rightarrow> bool \<Rightarrow> bool \<Rightarrow> 'k \<Rightarrow> ('k, 'v) avl_node \<Rightarrow> ('k, 'v, int) outcome" where
  "p_tree_avl_remove cmp kd vd k root =
     (let z = descend cmp k root []
      in case z of
           (Null, p) \<Rightarrow> Some (root, False, [])
         | (Node _ _ _ _ _, _) \<Rightarrow>
             (let (cur, p) = select_victim z;
                  child = only_child cur;
                  log = destroy_pair kd vd (key cur) (val cur) @ [NodeFreed]
              in if child = Null then
                   map_option (\<lambda>q. (zip_up child q, True, log)) (pp_tree_avl_balance_remove cur [] p)
                 else
                   map_option (\<lambda>q. (zip_up child q, True, log)) (pp_tree_avl_balance_remove child [] p)))"

section \<open>The AVL invariant\<close>

fun avl :: "('k, 'v) avl_node \<Rightarrow> bool" where
  "avl Null = True"
| "avl (Node l k v bf r) \<longleftrightarrow>
     bf = int (height l) - int (height r) \<and> \<bar>bf\<bar> \<le> 1 \<and> avl l \<and> avl r"

text \<open>\<open>avl_path p h\<close>: plugging an AVL tree of height \<open>h\<close> into the hole of \<open>p\<close> gives an AVL tree.\<close>

fun avl_ctx :: "('k, 'v) avl_path \<Rightarrow> nat \<Rightarrow> bool" where
  "avl_ctx [] h = True"
| "avl_ctx (LeftOf k v bf r # p) h \<longleftrightarrow>
     bf = int h - int (height r) \<and> \<bar>bf\<bar> \<le> 1 \<and> avl r \<and> avl_ctx p (Suc (max h (height r)))"
| "avl_ctx (RightOf l k v bf # p) h \<longleftrightarrow>
     bf = int (height l) - int h \<and> \<bar>bf\<bar> \<le> 1 \<and> avl l \<and> avl_ctx p (Suc (max (height l) h))"

lemma avl_zip_up: "avl (zip_up t p) \<longleftrightarrow> avl t \<and> avl_ctx p (height t)"
proof (induction t p rule: zip_up.induct)
  case (2 t c p)
  then show ?case by (cases c) auto
qed simp

text \<open>The three admissible balance factors, without integer arithmetic.\<close>

definition fits :: "int \<Rightarrow> nat \<Rightarrow> nat \<Rightarrow> bool" where
  "fits bf m n \<longleftrightarrow> bf = 0 \<and> m = n \<or> bf = 1 \<and> m = Suc n \<or> bf = -1 \<and> n = Suc m"

lemma fits_iff: "bf = int m - int n \<and> \<bar>bf\<bar> \<le> 1 \<longleftrightarrow> fits bf m n"
  unfolding fits_def by auto

lemma avl_Node: "avl (Node l k v bf r) \<longleftrightarrow> fits bf (height l) (height r) \<and> avl l \<and> avl r"
  using fits_iff[of bf "height l" "height r"] by (simp only: avl.simps) blast

lemma avl_ctx_Left:
  "avl_ctx (LeftOf k v bf r # p) h \<longleftrightarrow>
     fits bf h (height r) \<and> avl r \<and> avl_ctx p (Suc (max h (height r)))"
  using fits_iff[of bf h "height r"] by (simp only: avl_ctx.simps) blast

lemma avl_ctx_Right:
  "avl_ctx (RightOf l k v bf # p) h \<longleftrightarrow>
     fits bf (height l) h \<and> avl l \<and> avl_ctx p (Suc (max (height l) h))"
  using fits_iff[of bf "height l" h] by (simp only: avl_ctx.simps) blast

lemma fits_simps [simp]:
  "fits 0 m n \<longleftrightarrow> m = n" "fits 1 m n \<longleftrightarrow> m = Suc n" "fits (-1) m n \<longleftrightarrow> n = Suc m"
  by (auto simp: fits_def)

lemma fits_cases:
  assumes "fits bf m n"
  obtains "bf = 0" "m = n" | "bf = 1" "m = Suc n" | "bf = -1" "n = Suc m"
  using assms by (auto simp: fits_def)

lemma restored_factors_simps [simp]:
  "restored_factors 0 = (0, 0)" "restored_factors 1 = (0, -1)" "restored_factors (-1) = (1, 0)"
  by (simp_all add: restored_factors_def)

text \<open>The factors a double rotation restores are right for outer subtrees of height \<open>max m n\<close>.\<close>

lemma restored_fits:
  assumes "fits tbf m n" "restored_factors tbf = (lbf, rbf)"
  shows "fits lbf (max m n) m \<and> fits rbf n (max m n)"
  using assms by (cases rule: fits_cases) auto

lemmas avl_unfold = avl_Node avl_ctx_Left avl_ctx_Right
declare avl.simps(2) [simp del] avl_ctx.simps(2,3) [simp del]

text \<open>An AVL tree of height \<open>h\<close> has at least \<open>2 ^ (h div 2) - 1\<close> nodes.\<close>

lemma avl_size: "avl t \<Longrightarrow> height t = h \<Longrightarrow> 2 ^ (h div 2) \<le> Suc (length (inorder t))"
proof (induction h arbitrary: t rule: less_induct)
  case (less h)
  show ?case
  proof (cases "h \<le> 1")
    case False
    then obtain g where g: "h = Suc (Suc g)" by (cases h; cases "h - 1") auto
    with less.prems obtain l k v bf r where t: "t = Node l k v bf r" by (cases t) auto
    with less.prems have a: "avl l" "avl r" "fits bf (height l) (height r)" by (simp_all add: avl_Node)
    then have hs: "height l \<in> {g, Suc g}" "height r \<in> {g, Suc g}"
      using less.prems(2) unfolding t g fits_def by auto
    have ge: "2 ^ (g div 2) \<le> Suc (length (inorder s))" if "avl s" "height s \<in> {g, Suc g}" for s :: "('a, 'b) avl_node"
    proof -
      have "(2::nat) ^ (g div 2) \<le> 2 ^ (height s div 2)"
        using that(2) by (intro power_increasing div_le_mono) auto
      also have "\<dots> \<le> Suc (length (inorder s))"
        using less.IH[OF _ that(1) refl] that(2) g by auto
      finally show ?thesis .
    qed
    show ?thesis using ge[OF a(1) hs(1)] ge[OF a(2) hs(2)] by (simp add: t g)
  next
    case True
    then have "h div 2 = 0" by simp
    then show ?thesis by simp
  qed
qed

section \<open>Insertion\<close>

text \<open>
  The loop invariant: the subtree at \<open>node\<close> has grown by one level over what its ancestors expect, and
  it leans to one side unless it is the new leaf itself.
\<close>

lemma balance_insert_correct:
  assumes "avl t" "height t = Suc h" "avl_ctx p h" "h = 0 \<or> ann t \<noteq> 0"
  shows "\<exists>t'. pp_tree_avl_balance_insert t p = Some t' \<and> avl t' \<and>
    inorder t' = lefts p @ inorder t @ rights p"
  using assms
proof (induction t p arbitrary: h rule: pp_tree_avl_balance_insert.induct)
  case (3 l k v bf r pk pv pbf pr p)
  then have "fits pbf h (height pr)" by (simp add: avl_unfold)
  then show ?case
  proof (cases rule: fits_cases)
    case 1
    with "3.prems" "3.IH"[of _ "Suc h"] show ?thesis by (auto simp: avl_unfold)
  next
    case 2
    from "3.prems" have "fits bf (height l) (height r)" by (simp add: avl_unfold)
    then show ?thesis
    proof (cases rule: fits_cases)
      case b: 3
      with 2 "3.prems" obtain b tk tv tbf c where r: "r = Node b tk tv tbf c" by (cases r) auto
      with "3.prems" have "fits tbf (height b) (height c)" by (simp add: avl_unfold)
      then show ?thesis
        by (cases rule: fits_cases) (use 2 b r "3.prems" in \<open>auto simp: avl_unfold avl_zip_up\<close>)
    qed (use 2 "3.prems" in \<open>auto simp: avl_unfold avl_zip_up\<close>)
  next
    case b: 3
    with "3.prems" show ?thesis by (auto simp: avl_unfold avl_zip_up)
  qed
next
  case (4 l k v bf r pl pk pv pbf p)
  then have "fits pbf (height pl) h" by (simp add: avl_unfold)
  then show ?case
  proof (cases rule: fits_cases)
    case 1
    with "4.prems" "4.IH"[of _ "Suc h"] show ?thesis by (auto simp: avl_unfold)
  next
    case 2
    with "4.prems" show ?thesis by (auto simp: avl_unfold avl_zip_up)
  next
    case p: 3
    from "4.prems" have "fits bf (height l) (height r)" by (simp add: avl_unfold)
    then show ?thesis
    proof (cases rule: fits_cases)
      case b: 2
      with p "4.prems" obtain b tk tv tbf c where l: "l = Node b tk tv tbf c" by (cases l) auto
      with "4.prems" have "fits tbf (height b) (height c)" by (simp add: avl_unfold)
      then show ?thesis
        by (cases rule: fits_cases) (use p b l "4.prems" in \<open>auto simp: avl_unfold avl_zip_up\<close>)
    qed (use p "4.prems" in \<open>auto simp: avl_unfold avl_zip_up\<close>)
  qed
qed auto

text \<open>
  The loop invariant of the removal: the ancestors of \<open>node\<close> expect one level more than the subtree at
  \<open>node\<close> will have once \<open>cur\<close> is unlinked.  One lemma per direction, given the climb from the parent.
\<close>

definition shrinks :: "('k, 'v) avl_node \<Rightarrow> ('k, 'v) avl_path \<Rightarrow> ('k, 'v) avl_path \<Rightarrow> nat \<Rightarrow> bool" where
  "shrinks cur below p h \<longleftrightarrow>
     (\<exists>q. pp_tree_avl_balance_remove cur below p = Some (below @ q) \<and> avl_ctx q h \<and>
        lefts q = lefts p \<and> rights q = rights p)"

lemma shrinks_climb:
  assumes "pp_tree_avl_balance_remove cur below up = pp_tree_avl_balance_remove cur (below @ cs) p"
    and "shrinks cur (below @ cs) p h'"
    and "\<And>q. avl_ctx q h' \<Longrightarrow> avl_ctx (cs @ q) h"
    and "lefts up = lefts p @ lefts cs" "rights up = rights cs @ rights p"
  shows "shrinks cur below up h"
proof -
  from assms(2) obtain q where "pp_tree_avl_balance_remove cur (below @ cs) p = Some (below @ cs @ q)"
    "avl_ctx q h'" "lefts q = lefts p" "rights q = rights p"
    unfolding shrinks_def by auto
  then show ?thesis unfolding shrinks_def by (intro exI[of _ "cs @ q"]) (simp add: assms)
qed

lemma balance_remove_left:
  assumes ctx: "avl_ctx (LeftOf pk pv pbf sib # p) (Suc h)"
    and IH: "\<And>below h. avl_ctx p (Suc h) \<Longrightarrow> shrinks cur below p h"
  shows "shrinks cur below (LeftOf pk pv pbf sib # p) h"
proof -
  from ctx have "fits pbf (Suc h) (height sib)" by (simp add: avl_unfold)
  then show ?thesis
  proof (cases rule: fits_cases)
    case 1
    with ctx show ?thesis by (auto simp: shrinks_def avl_unfold)
  next
    case 2
    with ctx show ?thesis
      by - (rule shrinks_climb[where cs = "[LeftOf pk pv 0 sib]" and p = p and h' = "Suc h", OF _ IH],
            auto simp: avl_unfold)
  next
    case p: 3
    with ctx obtain b k v sbf c where sib: "sib = Node b k v sbf c" by (cases sib) auto
    with ctx have "fits sbf (height b) (height c)" by (simp add: avl_unfold)
    then show ?thesis
    proof (cases rule: fits_cases)
      case 1
      with p sib ctx show ?thesis by (auto simp: shrinks_def avl_unfold)
    next
      case s: 2
      with p sib ctx obtain b1 tk tv tbf b2 where b: "b = Node b1 tk tv tbf b2" by (cases b) auto
      with sib ctx have t: "fits tbf (height b1) (height b2)" by (simp add: avl_unfold)
      obtain lbf rbf where rf: "restored_factors tbf = (lbf, rbf)" by fastforce
      from restored_fits[OF t rf] p s sib b ctx
      have f: "fits lbf h (height b1)" "fits rbf (height b2) (height c)" "height c = h"
        "max (height b1) (height b2) = h"
        by (simp_all add: avl_unfold)
      let ?cs = "[LeftOf pk pv lbf b1, LeftOf tk tv 0 (Node b2 k v rbf c)]"
      have step: "pp_tree_avl_balance_remove cur below (LeftOf pk pv pbf sib # p) =
          pp_tree_avl_balance_remove cur (below @ ?cs) p"
        by (simp add: p(1) s(1) sib b rf)
      have c: "avl c" "avl b1" "avl b2" "avl_ctx p (Suc (Suc (Suc h)))"
        using ctx unfolding sib b avl_unfold p(2)[unfolded sib b] by auto
      have m: "height b1 \<le> h" "height b2 \<le> h" using f(4) by auto
      show ?thesis
      proof (rule shrinks_climb[OF step IH[OF c(4)]])
        show "avl_ctx (?cs @ q) h" if "avl_ctx q (Suc (Suc h))" for q
          using that c f(1,2) m by (simp add: avl_unfold f(3) max_absorb1 max_absorb2)
      qed (simp_all add: sib b)
    next
      case s: 3
      with p sib ctx show ?thesis
        by - (rule shrinks_climb[where p = p and h' = "Suc (Suc h)"
              and cs = "[LeftOf pk pv 0 b, LeftOf k v 0 c]", OF _ IH],
            auto simp: avl_unfold)
    qed
  qed
qed

lemma balance_remove_right:
  assumes ctx: "avl_ctx (RightOf sib pk pv pbf # p) (Suc h)"
    and IH: "\<And>below h. avl_ctx p (Suc h) \<Longrightarrow> shrinks cur below p h"
  shows "shrinks cur below (RightOf sib pk pv pbf # p) h"
proof -
  from ctx have "fits pbf (height sib) (Suc h)" by (simp add: avl_unfold)
  then show ?thesis
  proof (cases rule: fits_cases)
    case 1
    with ctx show ?thesis by (auto simp: shrinks_def avl_unfold)
  next
    case p: 2
    with ctx obtain a k v sbf b where sib: "sib = Node a k v sbf b" by (cases sib) auto
    with ctx have "fits sbf (height a) (height b)" by (simp add: avl_unfold)
    then show ?thesis
    proof (cases rule: fits_cases)
      case 1
      with p sib ctx show ?thesis by (auto simp: shrinks_def avl_unfold)
    next
      case s: 2
      with p sib ctx show ?thesis
        by - (rule shrinks_climb[where p = p and h' = "Suc (Suc h)"
              and cs = "[RightOf b pk pv 0, RightOf a k v 0]", OF _ IH],
            auto simp: avl_unfold)
    next
      case s: 3
      with p sib ctx obtain b1 tk tv tbf b2 where b: "b = Node b1 tk tv tbf b2" by (cases b) auto
      with sib ctx have t: "fits tbf (height b1) (height b2)" by (simp add: avl_unfold)
      obtain lbf rbf where rf: "restored_factors tbf = (lbf, rbf)" by fastforce
      from restored_fits[OF t rf] p s sib b ctx
      have f: "fits lbf (height a) (height b1)" "fits rbf (height b2) h" "height a = h"
        "max (height b1) (height b2) = h"
        by (simp_all add: avl_unfold)
      let ?cs = "[RightOf b2 pk pv rbf, RightOf (Node a k v lbf b1) tk tv 0]"
      have step: "pp_tree_avl_balance_remove cur below (RightOf sib pk pv pbf # p) =
          pp_tree_avl_balance_remove cur (below @ ?cs) p"
        by (simp add: p(1) s(1) sib b rf)
      have c: "avl a" "avl b1" "avl b2" "avl_ctx p (Suc (Suc (Suc h)))"
        using ctx unfolding sib b avl_unfold p(2)[unfolded sib b] by auto
      have m: "height b1 \<le> h" "height b2 \<le> h" using f(4) by auto
      show ?thesis
      proof (rule shrinks_climb[OF step IH[OF c(4)]])
        show "avl_ctx (?cs @ q) h" if "avl_ctx q (Suc (Suc h))" for q
          using that c f(1,2) m by (simp add: avl_unfold f(3) max_absorb1 max_absorb2)
      qed (simp_all add: sib b)
    qed
  next
    case 3
    with ctx show ?thesis
      by - (rule shrinks_climb[where cs = "[RightOf sib pk pv 0]" and p = p and h' = "Suc h", OF _ IH],
            auto simp: avl_unfold)
  qed
qed

lemma balance_remove_correct: "avl_ctx p (Suc h) \<Longrightarrow> shrinks cur below p h"
proof (induction p arbitrary: below h)
  case Nil
  then show ?case by (simp add: shrinks_def)
next
  case (Cons c p)
  show ?case
  proof (cases c)
    case (LeftOf k v bf r)
    show ?thesis using balance_remove_left[OF Cons.prems[unfolded LeftOf] Cons.IH] by (simp add: LeftOf)
  next
    case (RightOf l k v bf)
    show ?thesis using balance_remove_right[OF Cons.prems[unfolded RightOf] Cons.IH] by (simp add: RightOf)
  qed
qed

section \<open>The backend laws\<close>

lemma descend_avl:
  "descend cmp k t p = (t', p') \<Longrightarrow> avl t \<Longrightarrow> avl_ctx p (height t) \<Longrightarrow> avl t' \<and> avl_ctx p' (height t')"
  using avl_zip_up by (metis descend_zip)

lemma select_victim_avl:
  assumes "select_victim (Node l k v bf r, p) = (cur, q)" "avl (Node l k v bf r)"
    "avl_ctx p (height (Node l k v bf r))"
  shows "avl cur \<and> avl_ctx q (height cur)"
proof (cases "l \<noteq> Null \<and> r \<noteq> Null")
  case True
  then obtain q1 where rm: "rightmost l [] = (cur, q1)"
    and q: "q = q1 @ LeftOf (key cur) (val cur) bf r # p"
    using assms(1) by (auto simp: select_victim_def split: prod.splits)
  have "avl (zip_up cur q)"
    using rightmost_zip[OF rm] assms(2,3) by (simp add: q avl_zip_up avl_unfold)
  then show ?thesis by (simp add: avl_zip_up)
qed (use assms in \<open>auto simp: select_victim_def\<close>)

lemma avl_insert_law:
  assumes "compare_ok cmp" "bst cmp root" "avl root"
  shows "\<exists>t' out. p_tree_avl_insert cmp kd vd mem k v root = Some (t', out) \<and> avl t' \<and>
    insert_spec cmp kd vd mem k v (inorder root) (inorder t', out)"
proof -
  obtain t p where d: "descend cmp k root [] = (t, p)" by fastforce
  with assms(3) have a: "avl t" "avl_ctx p (height t)" using descend_avl[OF d] by auto
  show ?thesis
  proof (cases t)
    case Null
    with d have d': "descend cmp k root [] = (Null, p)" by simp
    obtain t' where t': "pp_tree_avl_balance_insert (Node Null k v 0 Null) p = Some t'" "avl t'"
      "inorder t' = lefts p @ (k, v) # rights p"
      using balance_insert_correct[of "Node Null k v 0 Null" 0 p] a Null by (auto simp: avl_Node)
    show ?thesis
      using insert_spec_miss[OF assms(1,2) d' t'(3), of kd vd] assms(3) t'
      by (cases mem) (simp_all add: p_tree_avl_insert_def d')
  next
    case (Node l k0 v0 bf r)
    with d have d': "descend cmp k root [] = (Node l k0 v0 bf r, p)" by simp
    have "avl (zip_up (Node l k v bf r) p)" using a Node by (simp add: avl_zip_up avl_unfold)
    then show ?thesis using insert_spec_hit[OF assms(1,2) d'] by (simp add: p_tree_avl_insert_def d')
  qed
qed

lemma avl_remove_law:
  assumes "compare_ok cmp" "bst cmp root" "avl root"
  shows "\<exists>t' out. p_tree_avl_remove cmp kd vd k root = Some (t', out) \<and> avl t' \<and>
    remove_spec cmp kd vd k (inorder root) (inorder t', out)"
proof -
  obtain t p where d: "descend cmp k root [] = (t, p)" by fastforce
  with assms(3) have a: "avl t" "avl_ctx p (height t)" using descend_avl[OF d] by auto
  show ?thesis
  proof (cases t)
    case Null
    with d have d': "descend cmp k root [] = (Null, p)" by simp
    show ?thesis using remove_spec_miss[OF assms(1,2) d'] assms(3) by (simp add: p_tree_avl_remove_def d')
  next
    case (Node l k0 v0 bf r)
    with d have d': "descend cmp k root [] = (Node l k0 v0 bf r, p)" by simp
    obtain cur q where sv: "select_victim (Node l k0 v0 bf r, p) = (cur, q)" by fastforce
    then obtain l1 k1 v1 bf1 r1 where cur: "cur = Node l1 k1 v1 bf1 r1" and one: "l1 = Null \<or> r1 = Null"
      by (rule select_victim_spec) blast
    have ac: "avl cur" "avl_ctx q (height cur)" using select_victim_avl[OF sv] a Node by auto
    let ?child = "only_child cur"
    have h: "height cur = Suc (height ?child)" "avl ?child" using ac(1) one by (auto simp: cur avl_Node)
    obtain q' where q': "pp_tree_avl_balance_remove (if ?child = Null then cur else ?child) [] q = Some q'"
      "avl_ctx q' (height ?child)" "lefts q' = lefts q" "rights q' = rights q"
      using balance_remove_correct[of q "height ?child"] ac(2) unfolding h(1) shrinks_def
      by (metis append_Nil)
    have io: "inorder (zip_up ?child q') = lefts q @ inorder ?child @ rights q" by (simp add: q')
    have "avl (zip_up ?child q')" using q' h by (simp add: avl_zip_up)
    then show ?thesis
      using remove_spec_hit[OF assms(1,2) d' sv[unfolded cur] io[unfolded cur], of kd vd] q'(1)
      by (auto simp: p_tree_avl_remove_def d' sv cur Let_def split: if_splits)
  qed
qed

interpretation avl_tree: tree_backend p_tree_avl_insert p_tree_avl_remove avl
  by unfold_locales (simp, erule (2) avl_insert_law, erule (2) avl_remove_law)

end
