(* ===== verification/PTreeRb.thy ===== *)
theory PTreeRb
  imports PTreeBackend "HOL-Library.Monad_Syntax"
begin

text \<open>
  The red-black tree (\<open>ptree-rb.c\<close>).  A node's further field is its color.  Parent pointers are the
  ancestor paths of \<open>PTreeBase\<close>.
\<close>

datatype color = Red | Black

type_synonym ('k, 'v) rb_node = "('k, 'v, color) node"
type_synonym ('k, 'v) rb_path = "('k, 'v, color) path"

section \<open>Colors and neighbours\<close>

fun pp_tree_rb_is_black :: "('k, 'v) rb_node \<Rightarrow> bool" where
  "pp_tree_rb_is_black Null = True"
| "pp_tree_rb_is_black (Node _ _ _ c _) = (c = Black)"

fun pp_tree_rb_is_red :: "('k, 'v) rb_node \<Rightarrow> bool option" where
  "pp_tree_rb_is_red Null = None"
| "pp_tree_rb_is_red (Node _ _ _ c _) = Some (c = Red)"

text \<open>The assignment \<open>node->color = c\<close>.\<close>

fun set_color :: "color \<Rightarrow> ('k, 'v) rb_node \<Rightarrow> ('k, 'v) rb_node option" where
  "set_color c Null = None"
| "set_color c (Node l k v _ r) = Some (Node l k v c r)"

fun set_left_color :: "color \<Rightarrow> ('k, 'v) rb_node \<Rightarrow> ('k, 'v) rb_node option" where
  "set_left_color c Null = None"
| "set_left_color c (Node l k v x r) = map_option (\<lambda>l'. Node l' k v x r) (set_color c l)"

fun set_right_color :: "color \<Rightarrow> ('k, 'v) rb_node \<Rightarrow> ('k, 'v) rb_node option" where
  "set_right_color c Null = None"
| "set_right_color c (Node l k v x r) = map_option (\<lambda>r'. Node l k v x r') (set_color c r)"

text \<open>The color of the ancestor a crumb stands for, and the assignment to it.\<close>

fun crumb_color :: "('k, 'v, color) crumb \<Rightarrow> color" where
  "crumb_color (LeftOf k v c r) = c"
| "crumb_color (RightOf l k v c) = c"

fun set_crumb_color :: "color \<Rightarrow> ('k, 'v, color) crumb \<Rightarrow> ('k, 'v, color) crumb" where
  "set_crumb_color c (LeftOf k v _ r) = LeftOf k v c r"
| "set_crumb_color c (RightOf l k v _) = RightOf l k v c"

text \<open>
  The other child of a node's parent: \<open>pp_tree_rb_get_sibling\<close> reads it from the parent,
  \<open>pp_tree_rb_get_uncle\<close> from the grandparent, where the node is the parent.
\<close>

fun pp_tree_rb_get_sibling :: "('k, 'v, color) crumb \<Rightarrow> ('k, 'v) rb_node" where
  "pp_tree_rb_get_sibling (LeftOf _ _ _ r) = r"
| "pp_tree_rb_get_sibling (RightOf l _ _ _) = l"

fun set_sibling :: "('k, 'v) rb_node \<Rightarrow> ('k, 'v, color) crumb \<Rightarrow> ('k, 'v, color) crumb" where
  "set_sibling s (LeftOf k v c _) = LeftOf k v c s"
| "set_sibling s (RightOf _ k v c) = RightOf s k v c"

text \<open>\<open>node->parent->parent\<close> and the uncle read from it; a parent that is the root has none.\<close>

fun pp_tree_rb_get_gparent ::
  "('k, 'v) rb_path \<Rightarrow> (('k, 'v, color) crumb \<times> ('k, 'v) rb_path) option" where
  "pp_tree_rb_get_gparent (_ # g # p) = Some (g, p)"
| "pp_tree_rb_get_gparent _ = None"

fun pp_tree_rb_get_uncle :: "('k, 'v) rb_path \<Rightarrow> ('k, 'v) rb_node option" where
  "pp_tree_rb_get_uncle q =
     map_option (\<lambda>(g, p). pp_tree_rb_get_sibling g) (pp_tree_rb_get_gparent q)"

section \<open>Rotations\<close>

text \<open>
  The child of \<open>node\<close> that moves up must exist.  Its new parent is \<open>node\<close>'s old one, so the ancestor
  path is the same before and after, and the rotated subtree replaces the old one in it.
\<close>

fun pp_tree_rb_rotate_left :: "('k, 'v) rb_node \<Rightarrow> ('k, 'v) rb_node option" where
  "pp_tree_rb_rotate_left (Node a k v c (Node b tk tv tc d)) = Some (Node (Node a k v c b) tk tv tc d)"
| "pp_tree_rb_rotate_left _ = None"

fun pp_tree_rb_rotate_right :: "('k, 'v) rb_node \<Rightarrow> ('k, 'v) rb_node option" where
  "pp_tree_rb_rotate_right (Node (Node a tk tv tc b) k v c d) = Some (Node a tk tv tc (Node b k v c d))"
| "pp_tree_rb_rotate_right _ = None"

section \<open>Rebalancing after an insertion\<close>

text \<open>
  Cases 4 and 5, with the crumbs of the parent and the grandparent: the result is the subtree that
  takes the grandparent's place.  After case 4 the rotated-up node is the parent of the new \<open>node\<close>.
\<close>

fun rb_insert_cases_4_5 ::
  "('k, 'v) rb_node \<Rightarrow> ('k, 'v, color) crumb \<Rightarrow> ('k, 'v, color) crumb \<Rightarrow> ('k, 'v) rb_node option" where
  "rb_insert_cases_4_5 node c (LeftOf gk gv gc gr) =
     do {
       parent \<leftarrow> (case c of RightOf _ _ _ _ \<Rightarrow> pp_tree_rb_rotate_left (plug node c)
                     | LeftOf _ _ _ _ \<Rightarrow> Some (plug node c));
       parent' \<leftarrow> set_color Black parent;
       pp_tree_rb_rotate_right (plug parent' (LeftOf gk gv Red gr))
     }"
| "rb_insert_cases_4_5 node c (RightOf gl gk gv gc) =
     do {
       parent \<leftarrow> (case c of LeftOf _ _ _ _ \<Rightarrow> pp_tree_rb_rotate_right (plug node c)
                     | RightOf _ _ _ _ \<Rightarrow> Some (plug node c));
       parent' \<leftarrow> set_color Black parent;
       pp_tree_rb_rotate_left (plug parent' (RightOf gl gk gv Red))
     }"

fun pp_tree_rb_balance_insert ::
  "('k, 'v) rb_node \<Rightarrow> ('k, 'v) rb_path \<Rightarrow> ('k, 'v) rb_node option" where
  "pp_tree_rb_balance_insert node [] = set_color Black node"
| "pp_tree_rb_balance_insert node [c] =
     (if crumb_color c = Black then Some (zip_up node [c]) else None)"
| "pp_tree_rb_balance_insert node (c # g # p) =
     (if crumb_color c = Black then Some (zip_up node (c # g # p))
      else
        (let uncle = pp_tree_rb_get_sibling g
         in if uncle \<noteq> Null \<and> pp_tree_rb_is_red uncle = Some True then
              do {
                uncle' \<leftarrow> set_color Black uncle;
                pp_tree_rb_balance_insert
                  (plug (plug node (set_crumb_color Black c)) (set_crumb_color Red (set_sibling uncle' g))) p
              }
            else map_option (\<lambda>t. zip_up t p) (rb_insert_cases_4_5 node c g)))"

section \<open>Rebalancing before a removal\<close>

text \<open>
  As in \<open>PTreeAvl\<close>, the loop is called on \<open>cur\<close> and computes its new ancestor path; \<open>node\<close> is the
  subtree of the loop variable.  Case 2 gives the new path of \<open>node\<close>, cases 4 and 5 the crumbs that
  replace the parent's.
\<close>

fun rb_remove_case_2 ::
  "('k, 'v) rb_node \<Rightarrow> ('k, 'v, color) crumb \<Rightarrow> (('k, 'v, color) crumb \<times> ('k, 'v) rb_path) option" where
  "rb_remove_case_2 node (LeftOf pk pv pc sib) =
     do {
       sib' \<leftarrow> set_color Black sib;
       t \<leftarrow> pp_tree_rb_rotate_left (plug node (LeftOf pk pv Red sib'));
       (case t of
          Node (Node _ k1 v1 c1 r1) k2 v2 c2 r2 \<Rightarrow> Some (LeftOf k1 v1 c1 r1, [LeftOf k2 v2 c2 r2])
        | _ \<Rightarrow> None)
     }"
| "rb_remove_case_2 node (RightOf sib pk pv pc) =
     do {
       sib' \<leftarrow> set_color Black sib;
       t \<leftarrow> pp_tree_rb_rotate_right (plug node (RightOf sib' pk pv Red));
       (case t of
          Node l2 k2 v2 c2 (Node l1 k1 v1 c1 _) \<Rightarrow> Some (RightOf l1 k1 v1 c1, [RightOf l2 k2 v2 c2])
        | _ \<Rightarrow> None)
     }"

fun rb_remove_cases_4_5 ::
  "('k, 'v) rb_node \<Rightarrow> ('k, 'v, color) crumb \<Rightarrow> ('k, 'v) rb_path option" where
  "rb_remove_cases_4_5 node (LeftOf pk pv pc sib0) =
     do {
       sib \<leftarrow> (if pp_tree_rb_is_black (right sib0) then
                 do { s1 \<leftarrow> set_color Red sib0; s2 \<leftarrow> set_left_color Black s1; pp_tree_rb_rotate_right s2 }
               else Some sib0);
       s3 \<leftarrow> set_color pc sib;
       s4 \<leftarrow> set_right_color Black s3;
       t \<leftarrow> pp_tree_rb_rotate_left (plug node (LeftOf pk pv Black s4));
       (case t of
          Node (Node _ k1 v1 c1 r1) k2 v2 c2 r2 \<Rightarrow> Some [LeftOf k1 v1 c1 r1, LeftOf k2 v2 c2 r2]
        | _ \<Rightarrow> None)
     }"
| "rb_remove_cases_4_5 node (RightOf sib0 pk pv pc) =
     do {
       sib \<leftarrow> (if pp_tree_rb_is_black (left sib0) then
                 do { s1 \<leftarrow> set_color Red sib0; s2 \<leftarrow> set_right_color Black s1; pp_tree_rb_rotate_left s2 }
               else Some sib0);
       s3 \<leftarrow> set_color pc sib;
       s4 \<leftarrow> set_left_color Black s3;
       t \<leftarrow> pp_tree_rb_rotate_right (plug node (RightOf s4 pk pv Black));
       (case t of
          Node l2 k2 v2 c2 (Node l1 k1 v1 c1 _) \<Rightarrow> Some [RightOf l1 k1 v1 c1, RightOf l2 k2 v2 c2]
        | _ \<Rightarrow> None)
     }"

lemma rb_remove_case_2_red: "rb_remove_case_2 node c = Some (c', q) \<Longrightarrow> crumb_color c' = Red"
  by (cases c; cases "pp_tree_rb_get_sibling c")
    (auto split: Option.bind_splits node.splits elim!: pp_tree_rb_rotate_left.elims pp_tree_rb_rotate_right.elims)

text \<open>
  The loop.  After case 2 the parent is red, so case 3 ends the loop there; otherwise it goes on from
  the parent when the parent is black.
\<close>

function pp_tree_rb_balance_remove ::
  "('k, 'v) rb_node \<Rightarrow> ('k, 'v) rb_path \<Rightarrow> ('k, 'v) rb_path \<Rightarrow> ('k, 'v) rb_path option" where
  "pp_tree_rb_balance_remove cur below [] = Some below"
| "pp_tree_rb_balance_remove cur below (c # p) =
     (case pp_tree_rb_is_red (pp_tree_rb_get_sibling c) of
        None \<Rightarrow> None
      | Some red \<Rightarrow>
          (case (if red then rb_remove_case_2 (zip_up cur below) c else Some (c, [])) of
             None \<Rightarrow> None
           | Some (c', q) \<Rightarrow>
               (case pp_tree_rb_get_sibling c' of
                  Null \<Rightarrow> None
                | Node sl sk sv sc sr \<Rightarrow>
                    if pp_tree_rb_is_black sl \<and> pp_tree_rb_is_black sr then
                      (let c'' = set_sibling (Node sl sk sv Red sr) c'
                       in if crumb_color c' = Black then
                            pp_tree_rb_balance_remove cur (below @ [c'']) (q @ p)
                          else Some (below @ set_crumb_color Black c'' # q @ p))
                    else
                      map_option (\<lambda>cs. below @ cs @ q @ p)
                        (rb_remove_cases_4_5 (zip_up cur below) c'))))"
  by pat_completeness auto
termination
  by (relation "measure (\<lambda>(cur, below, up). length up)")
     (auto dest!: rb_remove_case_2_red split: if_splits)

section \<open>Insertion and removal\<close>

definition p_tree_rb_insert ::
  "'k compare \<Rightarrow> bool \<Rightarrow> bool \<Rightarrow> bool \<Rightarrow> 'k \<Rightarrow> 'v \<Rightarrow> ('k, 'v) rb_node \<Rightarrow> ('k, 'v, color) outcome" where
  "p_tree_rb_insert cmp kd vd mem k v root =
     (case descend cmp k root [] of
        (Node l k0 v0 c r, p) \<Rightarrow>
          Some (zip_up (Node l k v c r) p, False, destroy_pair kd vd k0 v0)
      | (Null, p) \<Rightarrow>
          if \<not> mem then Some (root, False, [])
          else map_option (\<lambda>root'. (root', True, []))
                 (pp_tree_rb_balance_insert (Node Null k v Red Null) p))"

text \<open>
  A black node without children is first made removable by the loop; the child that replaces a black
  node is painted black.
\<close>

definition p_tree_rb_remove ::
  "'k compare \<Rightarrow> bool \<Rightarrow> bool \<Rightarrow> 'k \<Rightarrow> ('k, 'v) rb_node \<Rightarrow> ('k, 'v, color) outcome" where
  "p_tree_rb_remove cmp kd vd k root =
     (let z = descend cmp k root []
      in case z of
           (Null, p) \<Rightarrow> Some (root, False, [])
         | (Node _ _ _ _ _, _) \<Rightarrow>
             (let (cur, p) = select_victim z;
                  child = only_child cur;
                  log = destroy_pair kd vd (key cur) (val cur) @ [NodeFreed]
              in do {
                   q \<leftarrow> (if child = Null \<and> pp_tree_rb_is_black cur
                         then pp_tree_rb_balance_remove cur [] p else Some p);
                   child' \<leftarrow> (if child \<noteq> Null \<and> pp_tree_rb_is_black cur
                              then set_color Black child else Some child);
                   Some (zip_up child' q, True, log)
                 }))"

section \<open>The red-black invariant\<close>

text \<open>\<open>rb t n\<close>: no red node has a red child, and every path from the root of \<open>t\<close> has \<open>n\<close> black nodes.\<close>

fun rb :: "('k, 'v) rb_node \<Rightarrow> nat \<Rightarrow> bool" where
  "rb Null n \<longleftrightarrow> n = 0"
| "rb (Node l k v Red r) n \<longleftrightarrow> pp_tree_rb_is_black l \<and> pp_tree_rb_is_black r \<and> rb l n \<and> rb r n"
| "rb (Node l k v Black r) 0 \<longleftrightarrow> False"
| "rb (Node l k v Black r) (Suc n) \<longleftrightarrow> rb l n \<and> rb r n"

fun black_height :: "('k, 'v) rb_node \<Rightarrow> nat" where
  "black_height Null = 0"
| "black_height (Node l k v c r) = (if c = Black then Suc (black_height l) else black_height l)"

definition rb_inv :: "('k, 'v) rb_node \<Rightarrow> bool" where
  "rb_inv t \<longleftrightarrow> pp_tree_rb_is_black t \<and> rb t (black_height t)"

lemma rb_black_height: "rb t n \<Longrightarrow> black_height t = n"
  by (induction t n rule: rb.induct) auto

lemma rb_inv_iff: "rb_inv t \<longleftrightarrow> pp_tree_rb_is_black t \<and> (\<exists>n. rb t n)"
  unfolding rb_inv_def using rb_black_height by blast

text \<open>
  \<open>rb_ctx p n c\<close>: plugging a subtree of black height \<open>n\<close> whose root has color \<open>c\<close> into the hole of \<open>p\<close>
  gives a red-black tree with a black root.
\<close>

fun rb_ctx :: "('k, 'v) rb_path \<Rightarrow> nat \<Rightarrow> color \<Rightarrow> bool" where
  "rb_ctx [] n c \<longleftrightarrow> c = Black"
| "rb_ctx (b # p) n c \<longleftrightarrow>
     rb (pp_tree_rb_get_sibling b) n \<and>
     (if crumb_color b = Red
      then c = Black \<and> pp_tree_rb_is_black (pp_tree_rb_get_sibling b) \<and> rb_ctx p n Red
      else rb_ctx p (Suc n) Black)"

definition node_color :: "('k, 'v) rb_node \<Rightarrow> color" where
  "node_color t = (if pp_tree_rb_is_black t then Black else Red)"

lemma rb_Black: "rb (Node l k v Black r) n \<longleftrightarrow> (\<exists>m. n = Suc m \<and> rb l m \<and> rb r m)"
  by (cases n) auto

lemma not_Red [simp]: "c \<noteq> Red \<longleftrightarrow> c = Black" and not_Black [simp]: "c \<noteq> Black \<longleftrightarrow> c = Red"
  by (cases c; simp)+

lemma not_black_Node: "\<not> pp_tree_rb_is_black t \<longleftrightarrow> (\<exists>l k v r. t = Node l k v Red r)"
  by (cases t) auto

lemma node_color_simps [simp]: "node_color Null = Black" "node_color (Node l k v c r) = c"
  by (auto simp: node_color_def)

lemma rb_ctx_Red: "rb_ctx p n Red \<Longrightarrow> rb_ctx p n Black"
  by (cases p) (auto split: if_splits)

lemma rb_zip_up: "(\<exists>n. rb t n \<and> rb_ctx p n (node_color t)) \<longleftrightarrow> rb_inv (zip_up t p)"
proof (induction p arbitrary: t)
  case Nil
  then show ?case by (auto simp: rb_inv_iff node_color_def)
next
  case (Cons b p)
  have "(\<exists>n. rb t n \<and> rb_ctx (b # p) n (node_color t)) \<longleftrightarrow>
    (\<exists>n. rb (plug t b) n \<and> rb_ctx p n (node_color (plug t b)))"
    by (cases b; cases "crumb_color b") (auto simp: rb_Black node_color_def)
  then show ?case using Cons.IH[of "plug t b"] by simp
qed

lemma rb_zipI: "rb t n \<Longrightarrow> rb_ctx p n (node_color t) \<Longrightarrow> rb_inv (zip_up t p)"
  using rb_zip_up by blast

text \<open>The height is at most twice the black height, and the black height is logarithmic.\<close>

lemma rb_height: "rb t n \<Longrightarrow> height t \<le> 2 * n + (if pp_tree_rb_is_black t then 0 else 1)"
proof (induction t arbitrary: n)
  case (Node l k v c r)
  then show ?case
    by (cases c) (force simp: rb_Black split: if_splits)+
qed simp

lemma rb_size: "rb t n \<Longrightarrow> 2 ^ n \<le> Suc (length (inorder t))"
  by (induction t n rule: rb.induct) auto

section \<open>Insertion keeps the invariant\<close>

text \<open>Cases 4 and 5 give a black subtree of the grandparent's black height.\<close>

lemma rb_insert_cases_4_5_correct:
  assumes "rb (Node l k v Red r) n" "crumb_color c = Red" "rb (pp_tree_rb_get_sibling c) n"
    "pp_tree_rb_is_black (pp_tree_rb_get_sibling c)" "crumb_color g = Black"
    "rb (pp_tree_rb_get_sibling g) n" "pp_tree_rb_is_black (pp_tree_rb_get_sibling g)"
  shows "\<exists>t. rb_insert_cases_4_5 (Node l k v Red r) c g = Some t \<and> rb t (Suc n) \<and>
    node_color t = Black \<and> inorder t = inorder (zip_up (Node l k v Red r) [c, g])"
  using assms by (cases c; cases g) auto

lemma rb_balance_insert_correct:
  assumes "rb t n" "node_color t = Red" "rb_ctx p n Black"
  shows "\<exists>t'. pp_tree_rb_balance_insert t p = Some t' \<and> rb_inv t' \<and>
    inorder t' = lefts p @ inorder t @ rights p"
  using assms
proof (induction t p arbitrary: n rule: pp_tree_rb_balance_insert.induct)
  case (1 t)
  then obtain l k v r where "t = Node l k v Red r" by (cases t) auto
  with 1 show ?case by (auto simp: rb_inv_iff intro!: exI[of _ "Suc n"])
next
  case (2 t c)
  then show ?case using rb_zipI[of t n "[c]"] by (cases c; cases "crumb_color c") auto
next
  case (3 t c g p)
  then obtain l k v r where t: "t = Node l k v Red r" by (cases t) auto
  show ?case
  proof (cases "crumb_color c")
    case Black
    with 3 have "rb_inv (zip_up t (c # g # p))" by (intro rb_zipI[of t n]) auto
    then show ?thesis using Black by (simp add: inorder_plug sides_Cons[of c "g # p"] sides_Cons[of g p])
  next
    case Red
    with 3 have c: "rb (pp_tree_rb_get_sibling c) n" "pp_tree_rb_is_black (pp_tree_rb_get_sibling c)"
      and g: "crumb_color g = Black" "rb (pp_tree_rb_get_sibling g) n" "rb_ctx p (Suc n) Black"
      by (auto split: if_splits)
    let ?u = "pp_tree_rb_get_sibling g"
    show ?thesis
    proof (cases "pp_tree_rb_is_black ?u")
      case True
      then have nr: "\<not> (?u \<noteq> Null \<and> pp_tree_rb_is_red ?u = Some True)" by (cases ?u) auto
      from rb_insert_cases_4_5_correct[of l k v r n c g] "3.prems" t c g Red True
      obtain t' where t': "rb_insert_cases_4_5 t c g = Some t'" "rb t' (Suc n)" "node_color t' = Black"
        "inorder t' = inorder (zip_up t [c, g])" by auto
      moreover have "rb_inv (zip_up t' p)" using t' g(3) by (intro rb_zipI[of t' "Suc n"]) auto
      ultimately show ?thesis using Red nr by (cases c; cases g) auto
    next
      case False
      then obtain ul uk uv ur where u: "?u = Node ul uk uv Red ur" by (auto simp: not_black_Node)
      let ?t = "plug (plug t (set_crumb_color Black c)) (set_crumb_color Red (set_sibling (Node ul uk uv Black ur) g))"
      have "rb ?t (Suc n)" "node_color ?t = Red"
        using c g u "3.prems" by (cases c; cases g; auto)+
      then show ?thesis
        using "3.IH"[of _ "Node ul uk uv Black ur" "Suc n"] Red u g(3) by (cases c; cases g) auto
    qed
  qed
qed

section \<open>Removal keeps the invariant\<close>

text \<open>
  Case 2 turns a red sibling into a black one under a red parent; cases 4 and 5 supply the missing
  black node for a hole of black height \<open>n\<close>.  Neither changes the pairs on the two sides.
\<close>

lemma rb_remove_case_2_correct:
  assumes "rb_ctx (c # p) (Suc n) Black" "pp_tree_rb_is_red (pp_tree_rb_get_sibling c) = Some True"
  shows "\<exists>c' d. rb_remove_case_2 node c = Some (c', [d]) \<and> crumb_color c' = Red \<and>
    rb_ctx (c' # d # p) (Suc n) Black \<and>
    lefts [c', d] = lefts [c] \<and> rights [c', d] = rights [c]"
  using assms
  by (cases c; cases "crumb_color c"; cases "pp_tree_rb_get_sibling c")
    (auto simp: rb_Black split: if_splits)

lemma rb_remove_cases_4_5_correct:
  assumes "rb_ctx (c # p) (Suc n) Black" "pp_tree_rb_get_sibling c = Node sl sk sv Black sr"
    "\<not> (pp_tree_rb_is_black sl \<and> pp_tree_rb_is_black sr)"
  shows "\<exists>cs. rb_remove_cases_4_5 node c = Some cs \<and> rb_ctx (cs @ p) n Black \<and>
    lefts cs = lefts [c] \<and> rights cs = rights [c]"
  using assms
  by (cases c; cases "crumb_color c"; cases sl; cases sr)
    (auto simp: not_black_Node rb_Black split: if_splits)

definition unblacks :: "('k, 'v) rb_node \<Rightarrow> ('k, 'v) rb_path \<Rightarrow> ('k, 'v) rb_path \<Rightarrow> nat \<Rightarrow> bool" where
  "unblacks cur below p n \<longleftrightarrow>
     (\<exists>q. pp_tree_rb_balance_remove cur below p = Some (below @ q) \<and> rb_ctx q n Black \<and>
        lefts q = lefts p \<and> rights q = rights p)"

text \<open>Case 3: the sibling becomes red, and a red parent black.\<close>

lemma rb_remove_case_3_correct:
  assumes "rb_ctx (c # p) (Suc n) Black" "pp_tree_rb_get_sibling c = Node sl sk sv Black sr"
    "pp_tree_rb_is_black sl" "pp_tree_rb_is_black sr"
  shows "crumb_color c = Black \<Longrightarrow> rb_ctx p (Suc (Suc n)) Black"
    and "crumb_color c = Black \<Longrightarrow> rb_ctx q (Suc n) Black \<Longrightarrow> rb_ctx (set_sibling (Node sl sk sv Red sr) c # q) n Black"
    and "crumb_color c = Red \<Longrightarrow> rb_ctx (set_crumb_color Black (set_sibling (Node sl sk sv Red sr) c) # p) n Black"
    and "lefts (set_sibling (Node sl sk sv Red sr) c # q) = lefts (c # q)"
    and "rights (set_sibling (Node sl sk sv Red sr) c # q) = rights (c # q)"
    and "lefts (set_crumb_color x b # q) = lefts (b # q)"
    and "rights (set_crumb_color x b # q) = rights (b # q)"
  using assms rb_ctx_Red[of p "Suc n"] by (cases c; cases b; auto)+

text \<open>Cases 3 to 5 with a black sibling; \<open>q\<close> is empty unless case 2 was taken, when the parent is red.\<close>

definition rb_remove_cases_3_5 ::
  "('k, 'v) rb_node \<Rightarrow> ('k, 'v) rb_path \<Rightarrow> ('k, 'v, color) crumb \<Rightarrow> ('k, 'v) rb_path \<Rightarrow> ('k, 'v) rb_path option" where
  "rb_remove_cases_3_5 cur below c p =
     (case pp_tree_rb_get_sibling c of
        Null \<Rightarrow> None
      | Node sl sk sv sc sr \<Rightarrow>
          if pp_tree_rb_is_black sl \<and> pp_tree_rb_is_black sr then
            (let c'' = set_sibling (Node sl sk sv Red sr) c
             in if crumb_color c = Black then pp_tree_rb_balance_remove cur (below @ [c'']) p
                else Some (below @ set_crumb_color Black c'' # p))
          else map_option (\<lambda>cs. below @ cs @ p) (rb_remove_cases_4_5 (zip_up cur below) c))"

lemma rb_remove_cases_3_5_correct:
  assumes ctx: "rb_ctx (c # p) (Suc n) Black" and black: "pp_tree_rb_is_black (pp_tree_rb_get_sibling c)"
    and IH: "\<And>below n. crumb_color c = Black \<Longrightarrow> rb_ctx p (Suc n) Black \<Longrightarrow> unblacks cur below p n"
  shows "\<exists>q. rb_remove_cases_3_5 cur below c p = Some (below @ q) \<and> rb_ctx q n Black \<and>
    lefts q = lefts (c # p) \<and> rights q = rights (c # p)"
proof -
  from ctx black obtain sl sk sv sr where sib: "pp_tree_rb_get_sibling c = Node sl sk sv Black sr"
    by (cases "pp_tree_rb_get_sibling c") auto
  let ?c = "set_sibling (Node sl sk sv Red sr) c"
  show ?thesis
  proof (cases "pp_tree_rb_is_black sl \<and> pp_tree_rb_is_black sr")
    case True
    note case3 = rb_remove_case_3_correct[OF ctx sib conjunct1[OF True] conjunct2[OF True]]
    show ?thesis
    proof (cases "crumb_color c")
      case Red
      then show ?thesis using True case3
        by (intro exI[of _ "set_crumb_color Black ?c # p"]) (simp add: rb_remove_cases_3_5_def sib)
    next
      case Black
      from IH[OF Black case3(1)[OF Black], of "below @ [?c]"] obtain q where
        q: "pp_tree_rb_balance_remove cur (below @ [?c]) p = Some ((below @ [?c]) @ q)"
          "rb_ctx q (Suc n) Black" "lefts q = lefts p" "rights q = rights p"
        unfolding unblacks_def by blast
      have "lefts (?c # q) = lefts (c # p)" "rights (?c # q) = rights (c # p)"
        using q(3,4) lefts_append[of "[c]"] rights_append[of "[c]"] case3(4,5)[of q]
        by (metis append_Cons append_Nil)+
      then show ?thesis using True Black q(1) case3(2)[OF Black q(2)]
        by (intro exI[of _ "?c # q"]) (simp add: rb_remove_cases_3_5_def sib)
    qed
  next
    case False
    from rb_remove_cases_4_5_correct[OF ctx sib False, of "zip_up cur below"] obtain cs where
      cs: "rb_remove_cases_4_5 (zip_up cur below) c = Some cs" "rb_ctx (cs @ p) n Black"
        "lefts cs = lefts [c]" "rights cs = rights [c]" by blast
    have "lefts (cs @ p) = lefts (c # p)" "rights (cs @ p) = rights (c # p)"
      using cs(3,4) sides_Cons[of c p] by simp_all
    then show ?thesis using False cs(1,2)
      by (intro exI[of _ "cs @ p"])
        (auto simp add: rb_remove_cases_3_5_def sib simp del: lefts_append rights_append)
  qed
qed

lemma rb_balance_remove_correct: "rb_ctx p (Suc n) Black \<Longrightarrow> unblacks cur below p n"
proof (induction p arbitrary: below n)
  case Nil
  then show ?case by (simp add: unblacks_def)
next
  case (Cons c p)
  then have "rb (pp_tree_rb_get_sibling c) (Suc n)" by simp
  then obtain l k v x r where sib: "pp_tree_rb_get_sibling c = Node l k v x r"
    by (cases "pp_tree_rb_get_sibling c") auto
  show ?case
  proof (cases x)
    case Black
    then have "pp_tree_rb_balance_remove cur below (c # p) = rb_remove_cases_3_5 cur below c p"
      by (simp add: rb_remove_cases_3_5_def sib Let_def)
    then show ?thesis
      using rb_remove_cases_3_5_correct[OF Cons.prems, of cur below] Cons.IH Black sib
      by (simp add: unblacks_def)
  next
    case Red
    with sib have "pp_tree_rb_is_red (pp_tree_rb_get_sibling c) = Some True" by simp
    from rb_remove_case_2_correct[OF Cons.prems this, of "zip_up cur below"] obtain c' d where
      c': "rb_remove_case_2 (zip_up cur below) c = Some (c', [d])" "crumb_color c' = Red"
        "rb_ctx (c' # d # p) (Suc n) Black" "lefts [c', d] = lefts [c]" "rights [c', d] = rights [c]"
      by blast
    have "pp_tree_rb_balance_remove cur below (c # p) = rb_remove_cases_3_5 cur below c' (d # p)"
      using c'(1,2) sib Red by (simp add: rb_remove_cases_3_5_def split: node.split)
    moreover have "pp_tree_rb_is_black (pp_tree_rb_get_sibling c')"
      using c'(2,3) by simp
    moreover have "lefts (c' # d # p) = lefts (c # p)" "rights (c' # d # p) = rights (c # p)"
      using c'(4,5) lefts_append[of "[c', d]" p] lefts_append[of "[c]" p]
        rights_append[of "[c', d]" p] rights_append[of "[c]" p] by simp_all
    ultimately show ?thesis
      using rb_remove_cases_3_5_correct[OF c'(3), of cur below] c'(2) by (simp add: unblacks_def)
  qed
qed

section \<open>The backend laws\<close>

lemma rb_insert_law:
  assumes "compare_ok cmp" "bst cmp root" "rb_inv root"
  shows "\<exists>t' out. p_tree_rb_insert cmp kd vd mem k v root = Some (t', out) \<and> rb_inv t' \<and>
    insert_spec cmp kd vd mem k v (inorder root) (inorder t', out)"
proof -
  obtain t p where d: "descend cmp k root [] = (t, p)" by fastforce
  with assms(3) obtain n where a: "rb t n" "rb_ctx p n (node_color t)"
    using descend_zip[OF d] rb_zip_up[of t p] by auto
  show ?thesis
  proof (cases t)
    case Null
    with d have d': "descend cmp k root [] = (Null, p)" by simp
    obtain t' where t': "pp_tree_rb_balance_insert (Node Null k v Red Null) p = Some t'" "rb_inv t'"
      "inorder t' = lefts p @ (k, v) # rights p"
      using rb_balance_insert_correct[of "Node Null k v Red Null" 0 p] a Null by auto
    show ?thesis
      using insert_spec_miss[OF assms(1,2) d' t'(3), of kd vd] assms(3) t'
      by (cases mem) (simp_all add: p_tree_rb_insert_def d')
  next
    case (Node l k0 v0 x r)
    with d have d': "descend cmp k root [] = (Node l k0 v0 x r, p)" by simp
    have "rb (Node l k v x r) n" using a Node by (cases x) (auto simp: rb_Black)
    then have "rb_inv (zip_up (Node l k v x r) p)" using a Node by (intro rb_zipI[of _ n]) auto
    then show ?thesis using insert_spec_hit[OF assms(1,2) d'] by (simp add: p_tree_rb_insert_def d')
  qed
qed

lemma rb_0_black: "rb t 0 \<Longrightarrow> pp_tree_rb_is_black t \<Longrightarrow> t = Null"
  by (cases t) (auto simp: rb_Black)

lemma rb_0: "rb t 0 \<Longrightarrow> t = Null \<or> (\<exists>k v. t = Node Null k v Red Null)"
proof (cases t)
  case (Node l k v c r)
  moreover assume "rb t 0"
  ultimately show ?thesis by (cases c) (auto simp: rb_Black dest: rb_0_black)
qed simp

text \<open>The node to unlink has at most one child; with one child it is black and the child a red leaf.\<close>

lemma rb_one_child:
  assumes "rb (Node l k v c r) n" "l = Null \<or> r = Null"
  shows "only_child (Node l k v c r) = Null \<and> n = (if c = Black then 1 else 0) \<or>
    c = Black \<and> n = 1 \<and> (\<exists>k1 v1. only_child (Node l k v c r) = Node Null k1 v1 Red Null)"
proof -
  show ?thesis using assms by (cases c) (auto simp: rb_Black dest!: rb_0 rb_0_black)
qed

lemma select_victim_rb:
  assumes "select_victim (Node l k v x r, p) = (cur, q)" "rb_inv (zip_up (Node l k v x r) p)"
  shows "rb_inv (zip_up cur q)"
proof (cases "l \<noteq> Null \<and> r \<noteq> Null")
  case True
  then obtain q1 where rm: "rightmost l [] = (cur, q1)"
    and q: "q = q1 @ LeftOf (key cur) (val cur) x r # p"
    using assms(1) by (auto simp: select_victim_def split: prod.splits)
  obtain n where n: "rb (Node l k v x r) n" "rb_ctx p n x" using assms(2) rb_zip_up by fastforce
  have "rb (Node l (key cur) (val cur) x r) n" using n(1) by (cases x) (auto simp: rb_Black)
  then show ?thesis
    using n(2) rightmost_zip[OF rm] by (simp add: q rb_zipI)
qed (use assms in \<open>auto simp: select_victim_def\<close>)

lemma rb_remove_law:
  assumes "compare_ok cmp" "bst cmp root" "rb_inv root"
  shows "\<exists>t' out. p_tree_rb_remove cmp kd vd k root = Some (t', out) \<and> rb_inv t' \<and>
    remove_spec cmp kd vd k (inorder root) (inorder t', out)"
proof -
  obtain t p where d: "descend cmp k root [] = (t, p)" by fastforce
  show ?thesis
  proof (cases t)
    case Null
    with d have d': "descend cmp k root [] = (Null, p)" by simp
    show ?thesis using remove_spec_miss[OF assms(1,2) d'] assms(3) by (simp add: p_tree_rb_remove_def d')
  next
    case (Node l k0 v0 x r)
    with d have d': "descend cmp k root [] = (Node l k0 v0 x r, p)" by simp
    obtain cur q where sv: "select_victim (Node l k0 v0 x r, p) = (cur, q)" by fastforce
    then obtain l1 k1 v1 x1 r1 where cur: "cur = Node l1 k1 v1 x1 r1" and one: "l1 = Null \<or> r1 = Null"
      by (rule select_victim_spec) blast
    have "rb_inv (zip_up cur q)"
      using select_victim_rb[OF sv] descend_zip[OF d'] assms(3) by simp
    then obtain n where n: "rb cur n" "rb_ctx q n x1" using rb_zip_up cur by fastforce
    let ?child = "only_child cur"
    have "\<exists>q' child'. (if ?child = Null \<and> pp_tree_rb_is_black cur
           then pp_tree_rb_balance_remove cur [] q else Some q) = Some q' \<and>
        (if ?child \<noteq> Null \<and> pp_tree_rb_is_black cur then set_color Black ?child else Some ?child) = Some child' \<and>
        inorder (zip_up child' q') = lefts q @ inorder ?child @ rights q \<and> rb_inv (zip_up child' q')"
      using rb_one_child[OF n(1)[unfolded cur] one]
    proof (elim disjE conjE exE)
      assume c: "only_child (Node l1 k1 v1 x1 r1) = Null" "n = (if x1 = Black then 1 else 0)"
      show ?thesis
      proof (cases x1)
        case Red
        then show ?thesis using c n rb_ctx_Red[of q 0] rb_zipI[of Null 0 q] by (simp add: cur)
      next
        case Black
        with c n rb_balance_remove_correct[of q 0 cur "[]"] obtain q' where
          "pp_tree_rb_balance_remove cur [] q = Some q'" "rb_ctx q' 0 Black"
          "lefts q' = lefts q" "rights q' = rights q" by (auto simp: unblacks_def)
        then show ?thesis using Black c rb_zipI[of Null 0 q'] by (simp add: cur)
      qed
    next
      fix k2 v2
      assume c: "x1 = Black" "n = 1" "only_child (Node l1 k1 v1 x1 r1) = Node Null k2 v2 Red Null"
      then show ?thesis using n rb_zipI[of "Node Null k2 v2 Black Null" 1 q] by (simp add: cur)
    qed
    then obtain q' child' where r: "(if ?child = Null \<and> pp_tree_rb_is_black cur
           then pp_tree_rb_balance_remove cur [] q else Some q) = Some q'"
      "(if ?child \<noteq> Null \<and> pp_tree_rb_is_black cur then set_color Black ?child else Some ?child) = Some child'"
      "inorder (zip_up child' q') = lefts q @ inorder ?child @ rights q" "rb_inv (zip_up child' q')"
      by blast
    show ?thesis
      using remove_spec_hit[OF assms(1,2) d' sv[unfolded cur] r(3)[unfolded cur], of kd vd] r(1,2,4)
      by (simp add: p_tree_rb_remove_def d' sv Let_def) (simp add: cur)
  qed
qed

interpretation rb_tree: tree_backend p_tree_rb_insert p_tree_rb_remove rb_inv
  by unfold_locales (simp add: rb_inv_def, erule (2) rb_insert_law, erule (2) rb_remove_law)

end
