(* ===== verification/PTree.thy ===== *)
theory PTree
  imports PTreeBst PTreeAvl PTreeRb
begin

text \<open>
  The tree object (\<open>ptree.c\<close>): a record with the root, the function pointers chosen by
  \<open>p_tree_new_full\<close>, the comparison with its data, and the node count, a \<open>pint\<close> of 32 bits.  A \<open>PTree *\<close> is an option, with
  \<open>None\<close> for NULL.  The traversals work on the node pointers themselves and are in \<open>PTreeHeap\<close>.
\<close>

section \<open>The object and its construction\<close>

datatype PTreeType = P_TREE_TYPE_BINARY | P_TREE_TYPE_RB | P_TREE_TYPE_AVL

type_synonym ('k, 'd) PCompareDataFunc = "'k \<Rightarrow> 'k \<Rightarrow> 'd option \<Rightarrow> int"

type_synonym ('k, 'v, 'x) PTreeInsertNode =
  "'k compare \<Rightarrow> bool \<Rightarrow> bool \<Rightarrow> bool \<Rightarrow> 'k \<Rightarrow> 'v \<Rightarrow> ('k, 'v, 'x) node \<Rightarrow> ('k, 'v, 'x) outcome"

type_synonym ('k, 'v, 'x) PTreeRemoveNode =
  "'k compare \<Rightarrow> bool \<Rightarrow> bool \<Rightarrow> 'k \<Rightarrow> ('k, 'v, 'x) node \<Rightarrow> ('k, 'v, 'x) outcome"

record ('k, 'v, 'x, 'd) PTree =
  root :: "('k, 'v, 'x) node"
  insert_node_func :: "('k, 'v, 'x) PTreeInsertNode"
  remove_node_func :: "('k, 'v, 'x) PTreeRemoveNode"
  key_destroy_func :: bool
  value_destroy_func :: bool
  compare_func :: "('k, 'd) PCompareDataFunc"
  data :: "'d option"
  tree_type :: PTreeType
  nnodes :: "32 word"

text \<open>\<open>compare_func (a, b, data)\<close>\<close>

definition compare_keys :: "('k, 'v, 'x, 'd) PTree \<Rightarrow> 'k compare" where
  "compare_keys T = (\<lambda>a b. compare_func T a b (data T))"

text \<open>
  The node type depends on the tree type, so a created object is one of three; \<open>type\<close> is the raw
  \<open>PTreeType\<close> value the caller passes (0, 1 or 2), \<open>func\<close> is \<open>None\<close> when NULL, and \<open>mem\<close> says whether
  \<open>p_malloc0\<close> succeeds.
\<close>

datatype ('k, 'v, 'd) created =
    BstTree "('k, 'v, unit, 'd) PTree"
  | RbTree "('k, 'v, color, 'd) PTree"
  | AvlTree "('k, 'v, int, 'd) PTree"

definition new_tree ::
  "('k, 'v, 'x) PTreeInsertNode \<Rightarrow> ('k, 'v, 'x) PTreeRemoveNode \<Rightarrow> PTreeType \<Rightarrow>
   ('k, 'd) PCompareDataFunc \<Rightarrow> 'd option \<Rightarrow> bool \<Rightarrow> bool \<Rightarrow> ('k, 'v, 'x, 'd) PTree" where
  "new_tree ins rem ty func dat kd vd =
     \<lparr>root = Null, insert_node_func = ins, remove_node_func = rem, key_destroy_func = kd,
      value_destroy_func = vd, compare_func = func, data = dat, tree_type = ty, nnodes = 0\<rparr>"

definition p_tree_new_full ::
  "int \<Rightarrow> ('k, 'd) PCompareDataFunc option \<Rightarrow> 'd option \<Rightarrow> bool \<Rightarrow> bool \<Rightarrow> bool \<Rightarrow> ('k, 'v, 'd) created option" where
  "p_tree_new_full ty func dat kd vd mem =
     (if ty < 0 \<or> ty > 2 then None
      else case func of
             None \<Rightarrow> None
           | Some f \<Rightarrow>
               if \<not> mem then None
               else if ty = 0 then
                 Some (BstTree (new_tree p_tree_bst_insert_func p_tree_bst_remove_func P_TREE_TYPE_BINARY f dat kd vd))
               else if ty = 1 then
                 Some (RbTree (new_tree p_tree_rb_insert p_tree_rb_remove P_TREE_TYPE_RB f dat kd vd))
               else
                 Some (AvlTree (new_tree p_tree_avl_insert p_tree_avl_remove P_TREE_TYPE_AVL f dat kd vd)))"

definition p_tree_new_with_data ::
  "int \<Rightarrow> ('k, 'd) PCompareDataFunc option \<Rightarrow> 'd option \<Rightarrow> bool \<Rightarrow> ('k, 'v, 'd) created option" where
  "p_tree_new_with_data ty func dat mem = p_tree_new_full ty func dat False False mem"

definition p_tree_new :: "int \<Rightarrow> 'k compare option \<Rightarrow> bool \<Rightarrow> ('k, 'v, 'd) created option" where
  "p_tree_new ty func mem =
     p_tree_new_full ty (map_option (\<lambda>f a b _. f a b) func) None False False mem"

section \<open>Operations\<close>

definition p_tree_insert ::
  "bool \<Rightarrow> ('k, 'v, 'x, 'd) PTree option \<Rightarrow> 'k \<Rightarrow> 'v \<Rightarrow>
   (('k, 'v, 'x, 'd) PTree option \<times> ('k, 'v) event list) option" where
  "p_tree_insert mem tree k v =
     (case tree of
        None \<Rightarrow> Some (None, [])
      | Some T \<Rightarrow>
          (case insert_node_func T (compare_keys T) (key_destroy_func T) (value_destroy_func T) mem k v (root T) of
             None \<Rightarrow> None
           | Some (t', res, log) \<Rightarrow>
               Some (Some (T\<lparr>root := t', nnodes := (if res then nnodes T + 1 else nnodes T)\<rparr>), log)))"

definition p_tree_remove ::
  "('k, 'v, 'x, 'd) PTree option \<Rightarrow> 'k \<Rightarrow>
   (('k, 'v, 'x, 'd) PTree option \<times> bool \<times> ('k, 'v) event list) option" where
  "p_tree_remove tree k =
     (case tree of
        None \<Rightarrow> Some (None, False, [])
      | Some T \<Rightarrow>
          if root T = Null then Some (Some T, False, [])
          else
            (case remove_node_func T (compare_keys T) (key_destroy_func T) (value_destroy_func T) k (root T) of
               None \<Rightarrow> None
             | Some (t', res, log) \<Rightarrow>
                 Some (Some (T\<lparr>root := t', nnodes := (if res then nnodes T - 1 else nnodes T)\<rparr>), res, log)))"

definition p_tree_lookup :: "('k, 'v, 'x, 'd) PTree option \<Rightarrow> 'k \<Rightarrow> 'v option" where
  "p_tree_lookup tree k =
     (case tree of None \<Rightarrow> None | Some T \<Rightarrow> lookup_node (compare_keys T) k (root T))"

text \<open>\<open>None\<close> stands for the returned \<open>(PTreeType) -1\<close>.\<close>

definition p_tree_get_type :: "('k, 'v, 'x, 'd) PTree option \<Rightarrow> PTreeType option" where
  "p_tree_get_type tree = map_option tree_type tree"

definition p_tree_get_nnodes :: "('k, 'v, 'x, 'd) PTree option \<Rightarrow> 32 word" where
  "p_tree_get_nnodes tree = (case tree of None \<Rightarrow> 0 | Some T \<Rightarrow> nnodes T)"

section \<open>Sequences of operations\<close>

text \<open>
  A client's history, with an allocator that succeeds; \<open>model_ops\<close> is what a dictionary would hold after
  it, keys being the same when they compare to 0.
\<close>

datatype ('k, 'v) tree_op = Insert 'k 'v | Remove 'k

fun run_ops ::
  "('k, 'v) tree_op list \<Rightarrow> ('k, 'v, 'x, 'd) PTree option \<Rightarrow> ('k, 'v, 'x, 'd) PTree option option" where
  "run_ops [] tree = Some tree"
| "run_ops (Insert k v # ops) tree =
     (case p_tree_insert True tree k v of None \<Rightarrow> None | Some (tree', _) \<Rightarrow> run_ops ops tree')"
| "run_ops (Remove k # ops) tree =
     (case p_tree_remove tree k of None \<Rightarrow> None | Some (tree', _, _) \<Rightarrow> run_ops ops tree')"

fun model_ops :: "'k compare \<Rightarrow> ('k, 'v) tree_op list \<Rightarrow> ('k \<Rightarrow> 'v option) \<Rightarrow> 'k \<Rightarrow> 'v option" where
  "model_ops cmp [] m = m"
| "model_ops cmp (Insert k v # ops) m = model_ops cmp ops (\<lambda>k'. if cmp k' k = 0 then Some v else m k')"
| "model_ops cmp (Remove k # ops) m = model_ops cmp ops (\<lambda>k'. if cmp k' k = 0 then None else m k')"

section \<open>The client of the backend interface\<close>

text \<open>The object invariant, over any backend.\<close>

definition tree_ok ::
  "('k, 'v, 'x) PTreeInsertNode \<Rightarrow> ('k, 'v, 'x) PTreeRemoveNode \<Rightarrow> (('k, 'v, 'x) node \<Rightarrow> bool) \<Rightarrow>
   ('k, 'v, 'x, 'd) PTree \<Rightarrow> bool" where
  "tree_ok ins rem good T \<longleftrightarrow>
     insert_node_func T = ins \<and> remove_node_func T = rem \<and> compare_ok (compare_keys T) \<and>
     good (root T) \<and> bst (compare_keys T) (root T) \<and> nnodes T = of_nat (length (inorder (root T)))"

lemma length_upd_pairs: "length (upd_pairs cmp k v xs) = Suc (length (del_pairs cmp k xs))"
  by (induction xs) (auto simp: upd_pairs_def del_pairs_def)

lemma del_pairs_none: "\<not> has_key cmp k xs \<Longrightarrow> del_pairs cmp k xs = xs"
  by (auto simp: del_pairs_def has_key_def filter_id_conv)

lemma length_del_pairs:
  assumes ok: "compare_ok cmp" and inc: "increasing cmp xs" and "has_key cmp k xs"
  shows "length xs = Suc (length (del_pairs cmp k xs))"
  using assms(2,3)
proof (induction xs)
  case (Cons a xs)
  show ?case
  proof (cases "cmp k (fst a) = 0")
    case True
    then have "\<not> has_key cmp k xs"
      using Cons.prems(1) cmp_less_trans[OF ok, of k "fst a"] by (fastforce simp: increasing_def has_key_def)
    then have "del_pairs cmp k xs = xs" by (rule del_pairs_none)
    then show ?thesis using True by (simp add: del_pairs_def)
  next
    case False
    then show ?thesis using Cons by (auto simp: del_pairs_def has_key_def increasing_def)
  qed
qed (simp add: has_key_def)

lemma tree_map_step:
  assumes "compare_ok cmp"
  shows "insert_spec cmp kd vd True k v xs (ys, out) \<Longrightarrow>
      map_option snd (find_pair cmp k' ys) = (if cmp k' k = 0 then Some v else map_option snd (find_pair cmp k' xs))"
    and "remove_spec cmp kd vd k xs (ys, out) \<Longrightarrow>
      map_option snd (find_pair cmp k' ys) = (if cmp k' k = 0 then None else map_option snd (find_pair cmp k' xs))"
  by (cases out; auto simp: insert_spec_def remove_spec_def find_pair_upd[OF assms] find_pair_del[OF assms])+

context tree_backend
begin

lemma new_tree_ok:
  assumes "compare_ok (\<lambda>a b. func a b dat)"
  shows "tree_ok ins rem inv (new_tree ins rem ty func dat kd vd)"
  using assms by (simp add: tree_ok_def new_tree_def compare_keys_def inv_Null bst_def increasing_def)

lemma p_tree_insert_ok:
  assumes T: "tree_ok ins rem inv T"
  shows "\<exists>T' log. p_tree_insert mem (Some T) k v = Some (Some T', log) \<and> tree_ok ins rem inv T' \<and>
    compare_keys T' = compare_keys T \<and> nnodes T' = nnodes T + (if mem \<and> \<not> has_key (compare_keys T) k (inorder (root T)) then 1 else 0) \<and>
    insert_spec (compare_keys T) (key_destroy_func T) (value_destroy_func T) mem k v
      (inorder (root T)) (inorder (root T'), nnodes T' \<noteq> nnodes T, log)"
proof -
  let ?c = "compare_keys T" and ?xs = "inorder (root T)"
  from T have ok: "compare_ok ?c" "bst ?c (root T)" "inv (root T)" by (simp_all add: tree_ok_def)
  from ins_law[OF this, of "key_destroy_func T" "value_destroy_func T" mem k v] obtain t' res log where
    i: "ins ?c (key_destroy_func T) (value_destroy_func T) mem k v (root T) = Some (t', res, log)" "inv t'"
      "insert_spec ?c (key_destroy_func T) (value_destroy_func T) mem k v ?xs (inorder t', res, log)"
    by auto
  have res: "res = (mem \<and> \<not> has_key ?c k ?xs)" using i(3) by (simp add: insert_spec_def)
  have "length (inorder t') = length ?xs + (if res then 1 else 0)"
    using i(3) del_pairs_none[of ?c k ?xs] length_del_pairs[OF ok(1), of ?xs k] ok(2)
    by (auto simp: insert_spec_def length_upd_pairs bst_def)
  then show ?thesis
    using T i bst_after_insert[OF ok(1,2) i(3)] res
    by (auto simp: p_tree_insert_def tree_ok_def compare_keys_def)
qed

lemma p_tree_remove_ok:
  assumes T: "tree_ok ins rem inv T"
  shows "\<exists>T' res log. p_tree_remove (Some T) k = Some (Some T', res, log) \<and> tree_ok ins rem inv T' \<and>
    compare_keys T' = compare_keys T \<and> nnodes T' = nnodes T - (if res then 1 else 0) \<and>
    remove_spec (compare_keys T) (key_destroy_func T) (value_destroy_func T) k
      (inorder (root T)) (inorder (root T'), res, log)"
proof (cases "root T = Null")
  case True
  then show ?thesis using T by (auto simp: p_tree_remove_def remove_spec_def del_pairs_def has_key_def)
next
  case False
  let ?c = "compare_keys T" and ?xs = "inorder (root T)"
  from T have ok: "compare_ok ?c" "bst ?c (root T)" "inv (root T)" by (simp_all add: tree_ok_def)
  from rem_law[OF this, of "key_destroy_func T" "value_destroy_func T" k] obtain t' res log where
    i: "rem ?c (key_destroy_func T) (value_destroy_func T) k (root T) = Some (t', res, log)" "inv t'"
      "remove_spec ?c (key_destroy_func T) (value_destroy_func T) k ?xs (inorder t', res, log)"
    by auto
  have "length ?xs = length (inorder t') + (if res then 1 else 0)"
    using i(3) del_pairs_none[of ?c k ?xs] length_del_pairs[OF ok(1), of ?xs k] ok(2)
    by (auto simp: remove_spec_def bst_def)
  then show ?thesis
    using False T i bst_after_remove[OF ok(2) i(3)]
    by (auto simp: p_tree_remove_def tree_ok_def compare_keys_def)
qed

lemma p_tree_lookup_ok:
  assumes "tree_ok ins rem inv T"
  shows "p_tree_lookup (Some T) k = tree_map (compare_keys T) (root T) k"
  using assms lookup_node_map by (auto simp: p_tree_lookup_def tree_ok_def)

lemma run_ops_ok:
  assumes "tree_ok ins rem inv T"
  shows "\<exists>T'. run_ops ops (Some T) = Some (Some T') \<and> tree_ok ins rem inv T' \<and>
    compare_keys T' = compare_keys T \<and>
    p_tree_lookup (Some T') = model_ops (compare_keys T) ops (p_tree_lookup (Some T))"
  using assms
proof (induction ops arbitrary: T)
  case Nil
  then show ?case by simp
next
  case (Cons a ops)
  have ok: "compare_ok (compare_keys T)" using Cons.prems by (simp add: tree_ok_def)
  show ?case
  proof (cases a)
    case (Insert k v)
    from p_tree_insert_ok[OF Cons.prems, of True k v] obtain T1 log out where
      T1: "p_tree_insert True (Some T) k v = Some (Some T1, log)" "tree_ok ins rem inv T1"
        "compare_keys T1 = compare_keys T"
        "insert_spec (compare_keys T) (key_destroy_func T) (value_destroy_func T) True k v
           (inorder (root T)) (inorder (root T1), out)" by blast
    have "p_tree_lookup (Some T1) =
        (\<lambda>k'. if compare_keys T k' k = 0 then Some v else p_tree_lookup (Some T) k')"
      using tree_map_step(1)[OF ok T1(4)]
      by (auto simp: p_tree_lookup_ok[OF T1(2)] p_tree_lookup_ok[OF Cons.prems] tree_map_def T1(3))
    then show ?thesis using Cons.IH[OF T1(2)] T1(1,3) by (auto simp: Insert)
  next
    case (Remove k)
    from p_tree_remove_ok[OF Cons.prems, of k] obtain T1 res log where
      T1: "p_tree_remove (Some T) k = Some (Some T1, res, log)" "tree_ok ins rem inv T1"
        "compare_keys T1 = compare_keys T"
        "remove_spec (compare_keys T) (key_destroy_func T) (value_destroy_func T) k
           (inorder (root T)) (inorder (root T1), res, log)" by blast
    have "p_tree_lookup (Some T1) =
        (\<lambda>k'. if compare_keys T k' k = 0 then None else p_tree_lookup (Some T) k')"
      using tree_map_step(2)[OF ok T1(4)]
      by (auto simp: p_tree_lookup_ok[OF T1(2)] p_tree_lookup_ok[OF Cons.prems] tree_map_def T1(3))
    then show ?thesis using Cons.IH[OF T1(2)] T1(1,3) by (auto simp: Remove)
  qed
qed

end

end
