(* ===== verification/PTreeHeap.thy ===== *)
theory PTreeHeap
  imports PTreeBase
begin

text \<open>
  The traversals of \<open>ptree.c\<close>, \<open>p_tree_foreach\<close> and \<open>p_tree_clear\<close>.  They use no stack: they walk the
  tree by writing temporary links into the right pointers of its nodes (Morris traversal), so they are
  modelled on an explicit heap of \<open>PTreeBaseNode\<close> cells.  A pointer is a \<open>nat\<close>, NULL is 0, and reading
  an address that is not mapped (NULL, or a node already freed) makes the result \<open>None\<close>.
\<close>

section \<open>The heap\<close>

record ('k, 'v) base_node =
  bn_left :: nat
  bn_right :: nat
  bn_key :: 'k
  bn_value :: 'v

type_synonym ('k, 'v) heap = "nat \<Rightarrow> ('k, 'v) base_node option"

text \<open>
  The inner loop of both traversals: from \<open>prev\<close> follow the right pointers until one is NULL or leads
  to \<open>cur\<close>.  (\<open>p_tree_clear\<close> only tests for NULL; that is \<open>cur = 0\<close>.)
\<close>

partial_function (option) find_pred :: "('k, 'v) heap \<Rightarrow> nat \<Rightarrow> nat \<Rightarrow> nat option" where
  "find_pred h cur prev =
     (case h prev of
        None \<Rightarrow> None
      | Some n \<Rightarrow>
          if bn_right n \<noteq> 0 \<and> bn_right n \<noteq> cur then find_pred h cur (bn_right n) else Some prev)"

text \<open>
  \<open>traverse_func\<close> maps key, value and user data to its \<open>pboolean\<close> result and the new user data.  It is
  only called while \<open>need_stop\<close> is FALSE.
\<close>

type_synonym ('k, 'v, 'u) PTraverseFunc = "'k \<Rightarrow> 'v \<Rightarrow> 'u \<Rightarrow> bool \<times> 'u"

definition visit :: "('k, 'v, 'u) PTraverseFunc \<Rightarrow> 'k \<Rightarrow> 'v \<Rightarrow> bool \<times> 'u \<Rightarrow> bool \<times> 'u" where
  "visit f k v st = (case st of (stop, u) \<Rightarrow> if \<not> stop then f k v u else (stop, u))"

partial_function (option) foreach_loop ::
  "('k, 'v, 'u) PTraverseFunc \<Rightarrow> ('k, 'v) heap \<Rightarrow> nat \<Rightarrow> int \<Rightarrow> bool \<times> 'u \<Rightarrow> (('k, 'v) heap \<times> 'u) option" where
  "foreach_loop f h cur m st =
     (if cur = 0 then Some (h, snd st)
      else case h cur of
        None \<Rightarrow> None
      | Some n \<Rightarrow>
          if bn_left n = 0 then
            foreach_loop f h (bn_right n) m (visit f (bn_key n) (bn_value n) st)
          else
            (case find_pred h cur (bn_left n) of
               None \<Rightarrow> None
             | Some prev \<Rightarrow>
                 (case h prev of
                    None \<Rightarrow> None
                  | Some pn \<Rightarrow>
                      if bn_right pn = 0 then
                        foreach_loop f (h(prev \<mapsto> pn\<lparr>bn_right := cur\<rparr>)) (bn_left n) (m + 1) st
                      else
                        (let st' = visit f (bn_key n) (bn_value n) st;
                             h' = h(prev \<mapsto> pn\<lparr>bn_right := 0\<rparr>)
                         in if fst st' \<and> m - 1 = 0 then Some (h', snd st')
                            else foreach_loop f h' (bn_right n) (m - 1) st'))))"

text \<open>The tree argument is the root pointer, or \<open>None\<close> for a NULL tree; \<open>f\<close> is \<open>None\<close> when NULL.\<close>

definition p_tree_foreach ::
  "('k, 'v, 'u) PTraverseFunc option \<Rightarrow> ('k, 'v) heap \<Rightarrow> nat option \<Rightarrow> 'u \<Rightarrow> (('k, 'v) heap \<times> 'u) option" where
  "p_tree_foreach func h tree u =
     (case (tree, func) of
        (Some a, Some f) \<Rightarrow> if a = 0 then Some (h, u) else foreach_loop f h a 0 (False, u)
      | _ \<Rightarrow> Some (h, u))"

partial_function (option) clear_loop ::
  "bool \<Rightarrow> bool \<Rightarrow> ('k, 'v) heap \<Rightarrow> nat \<Rightarrow> 32 word \<Rightarrow> ('k, 'v) event list \<Rightarrow>
   (('k, 'v) heap \<times> 32 word \<times> ('k, 'v) event list) option" where
  "clear_loop kd vd h cur n log =
     (if cur = 0 then Some (h, n, log)
      else case h cur of
        None \<Rightarrow> None
      | Some nd \<Rightarrow>
          if bn_left nd = 0 then
            clear_loop kd vd (h(cur := None)) (bn_right nd) (n - 1)
              (log @ destroy_pair kd vd (bn_key nd) (bn_value nd) @ [NodeFreed])
          else
            (case find_pred h 0 (bn_left nd) of
               None \<Rightarrow> None
             | Some prev \<Rightarrow>
                 (case h prev of
                    None \<Rightarrow> None
                  | Some pn \<Rightarrow>
                      (let h1 = h(prev \<mapsto> pn\<lparr>bn_right := cur\<rparr>)
                       in case h1 cur of
                            None \<Rightarrow> None
                          | Some cn \<Rightarrow>
                              clear_loop kd vd (h1(cur \<mapsto> cn\<lparr>bn_left := 0\<rparr>)) (bn_left cn) n log))))"

text \<open>\<open>p_tree_clear\<close> on the root pointer and the node count; the result holds the new root pointer.\<close>

definition p_tree_clear ::
  "bool \<Rightarrow> bool \<Rightarrow> ('k, 'v) heap \<Rightarrow> (nat \<times> 32 word) option \<Rightarrow>
   (('k, 'v) heap \<times> (nat \<times> 32 word) option \<times> ('k, 'v) event list) option" where
  "p_tree_clear kd vd h tree =
     (case tree of
        None \<Rightarrow> Some (h, None, [])
      | Some (a, n) \<Rightarrow>
          if a = 0 then Some (h, Some (a, n), [])
          else map_option (\<lambda>(h', n', log). (h', Some (0, n'), log)) (clear_loop kd vd h a n []))"

text \<open>
  \<open>p_tree_free\<close> clears the tree and then gives back the \<open>PTree\<close> object itself; the boolean says whether
  there was one.
\<close>

definition p_tree_free ::
  "bool \<Rightarrow> bool \<Rightarrow> ('k, 'v) heap \<Rightarrow> (nat \<times> 32 word) option \<Rightarrow> (('k, 'v) heap \<times> ('k, 'v) event list \<times> bool) option" where
  "p_tree_free kd vd h tree =
     map_option (\<lambda>(h', tree', log). (h', log, tree' \<noteq> None)) (p_tree_clear kd vd h tree)"

section \<open>Trees in the heap\<close>

text \<open>
  \<open>seg h a t s\<close>: the nodes of \<open>t\<close>, each annotated with its address, lie in the heap from \<open>a\<close> on, with
  the last right pointer leading to \<open>s\<close>.  A proper tree is a segment with \<open>s = 0\<close>.
\<close>

type_synonym ('k, 'v) htree = "('k, 'v, nat) node"

fun seg :: "('k, 'v) heap \<Rightarrow> nat \<Rightarrow> ('k, 'v) htree \<Rightarrow> nat \<Rightarrow> bool" where
  "seg h a Null s \<longleftrightarrow> a = s"
| "seg h a (Node l k v x r) s \<longleftrightarrow>
     a = x \<and> x \<noteq> 0 \<and>
     (case h x of
        None \<Rightarrow> False
      | Some n \<Rightarrow>
          bn_key n = k \<and> bn_value n = v \<and> seg h (bn_left n) l 0 \<and> seg h (bn_right n) r s)"

fun addrs :: "('k, 'v) htree \<Rightarrow> nat list" where
  "addrs Null = []"
| "addrs (Node l k v x r) = addrs l @ x # addrs r"

definition tree_at :: "('k, 'v) heap \<Rightarrow> nat \<Rightarrow> ('k, 'v) htree \<Rightarrow> bool" where
  "tree_at h a t \<longleftrightarrow> seg h a t 0 \<and> distinct (addrs t)"

fun last_addr :: "('k, 'v) htree \<Rightarrow> nat" where
  "last_addr Null = 0"
| "last_addr (Node l k v x r) = (if r = Null then x else last_addr r)"

lemma seg_frame: "(\<And>x. x \<in> set (addrs t) \<Longrightarrow> h x = h' x) \<Longrightarrow> seg h a t s \<longleftrightarrow> seg h' a t s"
  by (induction t arbitrary: a s) (auto split: option.splits)

lemma seg_upd [simp]: "b \<notin> set (addrs t) \<Longrightarrow> seg (h(b := c)) a t s \<longleftrightarrow> seg h a t s"
  by (rule seg_frame) auto

lemma seg_root: "seg h a t s \<Longrightarrow> t \<noteq> Null \<Longrightarrow> a \<noteq> 0 \<and> a \<in> set (addrs t)"
  by (cases t) auto

lemma last_addr_in: "t \<noteq> Null \<Longrightarrow> last_addr t \<in> set (addrs t)"
  by (induction t) auto

text \<open>The end of the right spine, which the inner loop finds, holds the pointer to \<open>s\<close>.\<close>

lemma find_pred_seg:
  assumes "seg h a t s" "t \<noteq> Null" "s = 0 \<or> s = cur" "cur \<notin> set (addrs t)"
  shows "find_pred h cur a = Some (last_addr t)"
  using assms
proof (induction t arbitrary: a)
  case (Node l k v x r)
  from Node.prems(1) obtain n where n: "h x = Some n" "a = x" "seg h (bn_right n) r s"
    by (auto split: option.splits)
  show ?case
  proof (cases "r = Null")
    case True
    then show ?thesis using n Node.prems(3) by (subst find_pred.simps) auto
  next
    case False
    then have "bn_right n \<noteq> 0" "bn_right n \<noteq> cur"
      using seg_root[OF n(3)] Node.prems(4) by auto
    then show ?thesis using n False Node.IH(2)[OF n(3)] Node.prems(3,4)
      by (subst find_pred.simps) simp
  qed
qed simp

lemma last_cell:
  assumes "seg h a t s" "t \<noteq> Null"
  shows "\<exists>pn. h (last_addr t) = Some pn \<and> bn_right pn = s"
  using assms by (induction t arbitrary: a) (auto split: option.splits if_splits)

lemma seg_Node:
  "seg h a (Node l k v x r) s \<longleftrightarrow>
     a = x \<and> x \<noteq> 0 \<and>
     (\<exists>n. h x = Some n \<and> bn_key n = k \<and> bn_value n = v \<and>
        seg h (bn_left n) l 0 \<and> seg h (bn_right n) r s)"
  by (auto split: option.splits)

declare seg.simps(2) [simp del] seg_Node [simp]

lemma seg_addrs: "seg h a t s \<Longrightarrow> 0 \<notin> set (addrs t)"
  by (induction t arbitrary: a s) auto

lemma seg_thread:
  assumes "seg h a t s" "t \<noteq> Null" "distinct (addrs t)" "h (last_addr t) = Some pn"
  shows "seg (h(last_addr t \<mapsto> pn\<lparr>bn_right := s'\<rparr>)) a t s'"
  using assms
proof (induction t arbitrary: a)
  case (Node l k v x r)
  show ?case
  proof (cases "r = Null")
    case True
    let ?h = "h(x \<mapsto> pn\<lparr>bn_right := s'\<rparr>)"
    have "seg ?h (bn_left pn) l 0" if "seg h (bn_left pn) l 0"
      using that Node.prems(3) seg_upd[of x l h] by simp
    then show ?thesis using Node.prems True by (auto simp: fun_upd_same simp del: fun_upd_apply)
  next
    case False
    then have "last_addr r \<noteq> x" "last_addr r \<notin> set (addrs l)"
      using last_addr_in[OF False] Node.prems(3) by auto
    moreover have "seg (h(last_addr r \<mapsto> pn\<lparr>bn_right := s'\<rparr>)) b l 0 \<longleftrightarrow> seg h b l 0" for b
      using calculation(2) by (rule seg_upd)
    ultimately show ?thesis using False Node by (auto simp del: fun_upd_apply simp: fun_upd_other)
  qed
qed simp

section \<open>In-order traversal\<close>

definition visits :: "('k, 'v, 'u) PTraverseFunc \<Rightarrow> ('k \<times> 'v) list \<Rightarrow> bool \<times> 'u \<Rightarrow> bool \<times> 'u" where
  "visits f xs st = fold (\<lambda>(k, v). visit f k v) xs st"

lemma visits_stopped [simp]: "visits f xs (True, u) = (True, u)"
  by (induction xs) (auto simp: visits_def visit_def)

lemma visits_append [simp]: "visits f (xs @ ys) st = visits f ys (visits f xs st)"
  and visits_Cons [simp]: "visits f ((k, v) # xs) st = visits f xs (visit f k v st)"
  and visits_Nil [simp]: "visits f [] st = st"
  by (simp_all add: visits_def)

lemma foreach_seg:
  assumes "seg h a t s" "distinct (addrs t)" "s \<notin> set (addrs t)" "0 \<le> m"
    and "visits f (inorder t) st = st'"
  shows "foreach_loop f h a m st = foreach_loop f h s m st' \<or>
    m = 0 \<and> fst st' \<and> foreach_loop f h a m st = Some (h, snd st')"
  using assms
proof (induction t arbitrary: h a s m st st')
  case Null
  then show ?case by simp
next
  case (Node l k v x r)
  from Node.prems(1) obtain n where n: "h x = Some n" "a = x" "x \<noteq> 0" "bn_key n = k" "bn_value n = v"
    "seg h (bn_left n) l 0" "seg h (bn_right n) r s" by auto
  let ?stl = "visits f (inorder l) st"
  let ?stx = "visit f k v ?stl"
  have rest: "foreach_loop f h (bn_right n) m ?stx = foreach_loop f h s m st' \<or>
      m = 0 \<and> fst st' \<and> foreach_loop f h (bn_right n) m ?stx = Some (h, snd st')"
    using Node.IH(2)[OF n(7), of m ?stx st'] Node.prems by simp
  show ?case
  proof (cases "l = Null")
    case True
    then have "foreach_loop f h a m st = foreach_loop f h (bn_right n) m ?stx"
      using n by (subst foreach_loop.simps) simp
    then show ?thesis using rest by simp
  next
    case False
    have dl: "distinct (addrs l)" "x \<notin> set (addrs l)" using Node.prems(2) by auto
    let ?p = "last_addr l"
    obtain pn where pn: "h ?p = Some pn" "bn_right pn = 0" using last_cell[OF n(6) False] by blast
    let ?h1 = "h(?p \<mapsto> pn\<lparr>bn_right := x\<rparr>)"
    have px: "?p \<noteq> x" using last_addr_in[OF False] dl by auto
    have seg1: "seg ?h1 (bn_left n) l x" by (rule seg_thread[OF n(6) False dl(1) pn(1)])
    have left0: "bn_left n \<noteq> 0" using seg_root[OF n(6) False] by simp
    have "foreach_loop f h a m st = foreach_loop f ?h1 (bn_left n) (m + 1) st"
      using n pn left0 find_pred_seg[OF n(6) False, of x] dl by (subst foreach_loop.simps) simp
    also have "\<dots> = foreach_loop f ?h1 x (m + 1) ?stl"
      using Node.IH(1)[OF seg1 dl(1,2), of "m + 1" st ?stl] Node.prems(4)
      by (auto simp del: fun_upd_apply)
    also have "\<dots> = (if fst ?stx \<and> m = 0 then Some (h, snd ?stx) else foreach_loop f h (bn_right n) m ?stx)"
      using n pn left0 px find_pred_seg[OF seg1 False, of x] dl
      by (subst foreach_loop.simps) (simp add: Let_def fun_upd_idem)
    finally have step: "foreach_loop f h a m st =
      (if fst ?stx \<and> m = 0 then Some (h, snd ?stx) else foreach_loop f h (bn_right n) m ?stx)" .
    show ?thesis
    proof (cases "fst ?stx \<and> m = 0")
      case True
      then have "st' = ?stx" using Node.prems(5) by (cases ?stx) simp
      then show ?thesis using step True by simp
    next
      case False
      then show ?thesis using step rest by (simp only: if_False)
    qed
  qed
qed

lemma foreach_tree:
  assumes "tree_at h a t" "visits f (inorder t) (False, u) = (stop, u')"
  shows "p_tree_foreach (Some f) h (Some a) u = Some (h, u')"
proof (cases "t = Null")
  case True
  then show ?thesis using assms by (simp add: tree_at_def p_tree_foreach_def)
next
  case False
  have end0: "foreach_loop f h 0 0 (stop, u') = Some (h, u')" by (subst foreach_loop.simps) simp
  have "0 \<notin> set (addrs t)" if "seg h a t s" for a s and t :: "('a, 'b) htree"
    using that by (induction t arbitrary: a s) (auto simp: seg_Node)
  then have "foreach_loop f h a 0 (False, u) = Some (h, u')"
    using foreach_seg[of h a t 0 0 f "(False, u)" "(stop, u')"] assms end0 seg_addrs[of h a t 0]
    by (auto simp: tree_at_def)
  then show ?thesis using False assms(1) seg_root[of h a t 0] by (simp add: p_tree_foreach_def tree_at_def)
qed

section \<open>Clearing\<close>

definition destroy_all :: "bool \<Rightarrow> bool \<Rightarrow> ('k \<times> 'v) list \<Rightarrow> ('k, 'v) event list" where
  "destroy_all kd vd xs = concat (map (\<lambda>(k, v). destroy_pair kd vd k v @ [NodeFreed]) xs)"

lemma clear_seg:
  assumes "seg h a t s" "distinct (addrs t)"
  shows "clear_loop kd vd h a n log =
    clear_loop kd vd (h |` (- set (addrs t))) s (n - of_nat (length (inorder t)))
      (log @ destroy_all kd vd (inorder t))"
  using assms
proof (induction t arbitrary: h a s n log)
  case Null
  then show ?case by (simp add: destroy_all_def)
next
  case (Node l k v x r)
  from Node.prems(1) obtain nd where n: "h x = Some nd" "a = x" "x \<noteq> 0" "bn_key nd = k" "bn_value nd = v"
    "seg h (bn_left nd) l 0" "seg h (bn_right nd) r s" by auto
  let ?hl = "(h |` (- set (addrs l)))(x := None)"
  let ?nl = "n - of_nat (length (inorder l)) - 1"
  let ?logl = "log @ destroy_all kd vd (inorder l) @ destroy_pair kd vd k v @ [NodeFreed]"
  have "seg ?hl (bn_right nd) r s"
    using n(7) Node.prems(2) by (subst seg_frame[where h' = h]) (auto simp: restrict_map_def)
  moreover have "?hl |` (- set (addrs r)) = h |` (- set (addrs (Node l k v x r)))"
    by (auto simp: restrict_map_def fun_eq_iff)
  ultimately have rest: "clear_loop kd vd ?hl (bn_right nd) ?nl ?logl =
      clear_loop kd vd (h |` (- set (addrs (Node l k v x r)))) s
        (n - of_nat (length (inorder (Node l k v x r)))) (log @ destroy_all kd vd (inorder (Node l k v x r)))"
    using Node.IH(2)[of ?hl "bn_right nd" s ?nl ?logl] Node.prems(2)
    by (simp add: destroy_all_def algebra_simps)
  show ?case
  proof (cases "l = Null")
    case True
    then have "?hl = h(x := None)" by (auto simp: restrict_map_def)
    then have "clear_loop kd vd h a n log = clear_loop kd vd ?hl (bn_right nd) ?nl ?logl"
      using n True by (subst clear_loop.simps) (simp add: destroy_all_def)
    then show ?thesis using rest by simp
  next
    case False
    have dl: "distinct (addrs l)" "x \<notin> set (addrs l)" using Node.prems(2) by auto
    let ?p = "last_addr l"
    obtain pn where pn: "h ?p = Some pn" "bn_right pn = 0" using last_cell[OF n(6) False] by blast
    let ?h2 = "h(?p \<mapsto> pn\<lparr>bn_right := x\<rparr>, x \<mapsto> nd\<lparr>bn_left := 0\<rparr>)"
    have pl: "?p \<in> set (addrs l)" "?p \<noteq> x" using last_addr_in[OF False] dl by auto
    have seg2: "seg ?h2 (bn_left nd) l x"
      using seg_thread[OF n(6) False dl(1) pn(1), of x] dl(2) by simp
    have left0: "bn_left nd \<noteq> 0" "0 \<notin> set (addrs l)"
      using seg_root[OF n(6) False] seg_addrs[OF n(6)] by simp_all
    have "clear_loop kd vd h a n log = clear_loop kd vd ?h2 (bn_left nd) n log"
      using n pn pl left0 find_pred_seg[OF n(6) False, of 0] by (subst clear_loop.simps) simp
    also have "\<dots> = clear_loop kd vd (?h2 |` (- set (addrs l))) x (n - of_nat (length (inorder l)))
        (log @ destroy_all kd vd (inorder l))"
      by (rule Node.IH(1)[OF seg2 dl(1)])
    also have "\<dots> = clear_loop kd vd ((?h2 |` (- set (addrs l)))(x := None)) (bn_right nd) ?nl ?logl"
      using n dl by (subst clear_loop.simps) simp
    also have "(?h2 |` (- set (addrs l)))(x := None) = ?hl"
      using pl by (auto simp: restrict_map_def fun_eq_iff)
    finally show ?thesis using rest by simp
  qed
qed

end
