(* ===== verification/PTreeProps.thy ===== *)
theory PTreeProps
  imports PTree PTreeHeap
begin

text \<open>The properties of the tree component.\<close>

section \<open>A tree is a dictionary\<close>

definition tree_behaves ::
  "'k compare \<Rightarrow> ('k, 'v) tree_op list \<Rightarrow> ('k, 'v, 'x, 'd) PTree \<Rightarrow> bool" where
  "tree_behaves cmp ops T \<longleftrightarrow>
     (case run_ops ops (Some T) of
        Some (Some T') \<Rightarrow>
          (\<forall>k. p_tree_lookup (Some T') k = model_ops cmp ops (\<lambda>_. None) k) \<and>
          bst cmp (root T') \<and> nnodes T' = of_nat (length (inorder (root T'))) \<and>
          (length (inorder (root T')) < 2 ^ 31 \<longrightarrow> sint (nnodes T') = int (length (inorder (root T'))))
      | _ \<Rightarrow> False)"

definition created_behaves ::
  "'k compare \<Rightarrow> ('k, 'v) tree_op list \<Rightarrow> ('k, 'v, 'd) created \<Rightarrow> bool" where
  "created_behaves cmp ops c \<longleftrightarrow>
     (case c of BstTree T \<Rightarrow> tree_behaves cmp ops T
      | RbTree T \<Rightarrow> tree_behaves cmp ops T
      | AvlTree T \<Rightarrow> tree_behaves cmp ops T)"

context tree_backend
begin

lemma new_tree_behaves:
  assumes "compare_ok (\<lambda>a b. func a b dat)"
  shows "tree_behaves (\<lambda>a b. func a b dat) ops (new_tree ins rem ty func dat kd vd)"
proof -
  let ?T = "new_tree ins rem ty func dat kd vd"
  have "compare_keys ?T = (\<lambda>a b. func a b dat)" by (simp add: compare_keys_def new_tree_def)
  moreover have "p_tree_lookup (Some ?T) = (\<lambda>_. None)"
    by (auto simp: p_tree_lookup_def new_tree_def)
  moreover obtain T' where "run_ops ops (Some ?T) = Some (Some T')" "tree_ok ins rem inv T'"
    "p_tree_lookup (Some T') = model_ops (compare_keys ?T) ops (p_tree_lookup (Some ?T))"
    "compare_keys T' = compare_keys ?T"
    using run_ops_ok[OF new_tree_ok[of func dat, OF assms]] by blast
  ultimately show ?thesis by (auto simp: tree_behaves_def tree_ok_def sint_of_small)
qed

end

text \<open>
  C1.  A tree of any of the three types, created by \<open>p_tree_new_full\<close>, behaves as a dictionary under
  every sequence of insertions and removals: no NULL is dereferenced, every lookup returns what the
  last insertion of an equal key stored (NULL if it was removed since), the keys stay in search order,
  and the node counter, a \<open>pint\<close>, is the number of nodes, which it can hold up to 2 ^ 31 - 1.
\<close>

theorem ptree_is_dictionary:
  assumes "compare_ok (\<lambda>a b. f a b dat)" and "0 \<le> ty" and "ty \<le> 2"
  shows "\<exists>c. p_tree_new_full ty (Some f) dat kd vd True = Some c \<and>
    created_behaves (\<lambda>a b. f a b dat) ops c"
proof -
  consider "ty = 0" | "ty = 1" | "ty = 2" using assms(2,3) by linarith
  then show ?thesis
    by cases (use bst_tree.new_tree_behaves[of f dat, OF assms(1)] rb_tree.new_tree_behaves[of f dat, OF assms(1)]
        avl_tree.new_tree_behaves[of f dat, OF assms(1)] in
        \<open>simp_all add: p_tree_new_full_def created_behaves_def\<close>)
qed

definition sample_ops :: "(int, string) tree_op list" where
  "sample_ops =
     [Insert 5 ''five'', Insert 2 ''two'', Insert 8 ''eight'', Insert 1 ''one'', Insert 3 ''three'',
      Remove 5, Insert 8 ''VIII'', Remove 7]"

theorem ptree_is_dictionary_witness:
  "compare_ok int_compare \<and>
   (\<exists>c. p_tree_new_full 2 (Some (\<lambda>a b (_ :: unit option). int_compare a b)) None True True True = Some c \<and>
      created_behaves int_compare sample_ops c) \<and>
   model_ops int_compare sample_ops (\<lambda>_. None) 8 = Some ''VIII''"
proof (intro conjI)
  show "\<exists>c. p_tree_new_full 2 (Some (\<lambda>a b (_ :: unit option). int_compare a b)) None True True True = Some c \<and>
      created_behaves int_compare sample_ops c"
    using ptree_is_dictionary[of "\<lambda>a b (_ :: unit option). int_compare a b" None 2 True True sample_ops]
      int_compare_ok by simp
  show "model_ops int_compare sample_ops (\<lambda>_. None) 8 = Some ''VIII''"
    by (simp add: sample_ops_def int_compare_def)
qed (rule int_compare_ok)

section \<open>What an operation destroys\<close>

definition insert_effect :: "bool \<Rightarrow> ('k, 'v, 'x, 'd) PTree \<Rightarrow> 'k \<Rightarrow> 'v \<Rightarrow> bool" where
  "insert_effect mem T k v \<longleftrightarrow>
     (case p_tree_insert mem (Some T) k v of
        Some (Some T', log) \<Rightarrow>
          (case find_pair (compare_keys T) k (inorder (root T)) of
             Some (k0, v0) \<Rightarrow>
               log = destroy_pair (key_destroy_func T) (value_destroy_func T) k0 v0 \<and> nnodes T' = nnodes T \<and>
               inorder (root T') = upd_pairs (compare_keys T) k v (inorder (root T))
           | None \<Rightarrow>
               log = [] \<and> nnodes T' = nnodes T + (if mem then 1 else 0) \<and>
               inorder (root T') =
                 (if mem then upd_pairs (compare_keys T) k v (inorder (root T)) else inorder (root T)))
      | _ \<Rightarrow> False)"

context tree_backend
begin

lemma insert_effect:
  assumes "tree_ok ins rem inv T"
  shows "insert_effect mem T k v"
proof -
  obtain T' log where i: "p_tree_insert mem (Some T) k v = Some (Some T', log)"
    "nnodes T' = nnodes T + (if mem \<and> \<not> has_key (compare_keys T) k (inorder (root T)) then 1 else 0)"
    "insert_spec (compare_keys T) (key_destroy_func T) (value_destroy_func T) mem k v
      (inorder (root T)) (inorder (root T'), nnodes T' \<noteq> nnodes T, log)"
    using p_tree_insert_ok[OF assms, of mem k v] by blast
  show ?thesis
    using i(2,3) has_key_iff[of "compare_keys T" k "inorder (root T)"]
    by (auto simp: insert_effect_def i(1) insert_spec_def destroyed_by_insert_def split: option.splits)
qed

end

abbreviation "bst_tree_ok \<equiv> tree_ok p_tree_bst_insert_func p_tree_bst_remove_func (\<lambda>_. True)"
abbreviation "rb_tree_ok \<equiv> tree_ok p_tree_rb_insert p_tree_rb_remove rb_inv"
abbreviation "avl_tree_ok \<equiv> tree_ok p_tree_avl_insert p_tree_avl_remove avl"

text \<open>
  Inserting an equal key replaces key and value in place: the old pair is handed to the destroy
  functions and the node count does not change.  Inserting a new key destroys nothing and adds one
  node, unless the allocation fails, when contents and count are unchanged.
\<close>

theorem ptree_insert_effect:
  "(bst_tree_ok B \<longrightarrow> insert_effect mem B k v) \<and>
   (rb_tree_ok R \<longrightarrow> insert_effect mem R k v) \<and>
   (avl_tree_ok A \<longrightarrow> insert_effect mem A k v)"
  by (intro conjI impI bst_tree.insert_effect rb_tree.insert_effect avl_tree.insert_effect)

text \<open>Empty trees over integer keys, to apply the properties to.\<close>

definition empty_bst :: "(int, string, unit, unit) PTree" where
  "empty_bst = new_tree p_tree_bst_insert_func p_tree_bst_remove_func P_TREE_TYPE_BINARY
     (\<lambda>a b _. int_compare a b) None True True"

definition empty_rb :: "(int, string, color, unit) PTree" where
  "empty_rb = new_tree p_tree_rb_insert p_tree_rb_remove P_TREE_TYPE_RB (\<lambda>a b _. int_compare a b) None True True"

definition empty_avl :: "(int, string, int, unit) PTree" where
  "empty_avl = new_tree p_tree_avl_insert p_tree_avl_remove P_TREE_TYPE_AVL (\<lambda>a b _. int_compare a b) None True True"

lemma empty_trees_ok: "bst_tree_ok empty_bst" "rb_tree_ok empty_rb" "avl_tree_ok empty_avl"
  unfolding empty_bst_def empty_rb_def empty_avl_def
  by (rule bst_tree.new_tree_ok rb_tree.new_tree_ok avl_tree.new_tree_ok, simp add: int_compare_ok)+

theorem ptree_insert_effect_witness:
  "insert_effect True empty_bst 3 ''three'' \<and> insert_effect True empty_rb 3 ''three'' \<and>
   insert_effect True empty_avl 3 ''three''"
  using ptree_insert_effect[of empty_bst True 3 "''three''" empty_rb empty_avl] empty_trees_ok by blast

text \<open>
  The pair a removal destroys: that of the node itself if it has at most one child, otherwise that of
  its in-order predecessor, whose key and value were copied into the node that stays.
\<close>

definition destroyed_pair :: "('k, 'v, 'x) node \<Rightarrow> 'k \<times> 'v" where
  "destroyed_pair t =
     (case t of Node l k v x r \<Rightarrow> if l \<noteq> Null \<and> r \<noteq> Null then last (inorder l) else (k, v))"

lemma select_victim_pair:
  assumes "select_victim (Node l k0 v0 x r, p) = (cur, q)"
  shows "cur \<noteq> Null \<and> destroyed_pair (Node l k0 v0 x r) = (key cur, val cur)"
  using assms by (rule select_victim_spec) (auto simp: destroyed_pair_def split: if_splits)

lemma bst_remove_log:
  assumes "descend cmp k t [] = (Node l k0 v0 () r, p)"
  shows "snd (p_tree_bst_remove cmp kd vd k t) =
    (True, case_prod (destroy_pair kd vd) (destroyed_pair (Node l k0 v0 () r)) @ [NodeFreed])"
proof -
  obtain cur q where sv: "select_victim (Node l k0 v0 () r, p) = (cur, q)" by fastforce
  show ?thesis using select_victim_pair[OF sv] by (auto simp: p_tree_bst_remove_def assms sv)
qed

lemma avl_remove_log:
  assumes "descend cmp k t [] = (Node l k0 v0 x r, p)" "p_tree_avl_remove cmp kd vd k t = Some (t', out)"
  shows "out = (True, case_prod (destroy_pair kd vd) (destroyed_pair (Node l k0 v0 x r)) @ [NodeFreed])"
proof -
  obtain cur q where sv: "select_victim (Node l k0 v0 x r, p) = (cur, q)" by fastforce
  show ?thesis using select_victim_pair[OF sv] assms
    by (auto simp: p_tree_avl_remove_def sv Let_def split: if_splits)
qed

lemma rb_remove_log:
  assumes "descend cmp k t [] = (Node l k0 v0 x r, p)" "p_tree_rb_remove cmp kd vd k t = Some (t', out)"
  shows "out = (True, case_prod (destroy_pair kd vd) (destroyed_pair (Node l k0 v0 x r)) @ [NodeFreed])"
proof -
  obtain cur q where sv: "select_victim (Node l k0 v0 x r, p) = (cur, q)" by fastforce
  show ?thesis using select_victim_pair[OF sv] assms
    by (auto simp: p_tree_rb_remove_def sv Let_def split: if_splits Option.bind_splits)
qed

definition destroys_live_pair :: "('k, 'v, 'x) node \<times> bool \<times> ('k, 'v) event list \<Rightarrow> 'k \<Rightarrow> bool" where
  "destroys_live_pair res k0 \<longleftrightarrow>
     (case res of (t', removed, log) \<Rightarrow>
        removed \<and> KeyDestroyed k0 \<notin> set log \<and>
        (\<exists>k1 v1. KeyDestroyed k1 \<in> set log \<and> ValueDestroyed v1 \<in> set log \<and> (k1, v1) \<in> set (inorder t')))"

lemma two_children_live:
  assumes "compare_ok cmp" "bst cmp t" "descend cmp k t [] = (Node l k0 v0 x r, p)" "l \<noteq> Null" "r \<noteq> Null"
    and "remove_spec cmp True True k (inorder t) (inorder t', out)"
    and "out = (True, case_prod (destroy_pair True True) (destroyed_pair (Node l k0 v0 x r)) @ [NodeFreed])"
  shows "destroys_live_pair (t', out) k0"
proof -
  obtain k1 v1 where kv: "last (inorder l) = (k1, v1)" by fastforce
  then have inl: "(k1, v1) \<in> set (inorder l)" using assms(4) last_in_set[of "inorder l"] by simp
  have b: "bst cmp (Node l k0 v0 x r)" using descend_separates[OF assms(1,3,2)] by simp
  have "cmp k k1 > 0" "cmp k k0 = 0"
    using node_bounds(1)[OF assms(1) b descend_found[OF assms(3)] inl] descend_found[OF assms(3)] by simp_all
  moreover have "(k1, v1) \<in> set (inorder t)"
    using inl by (simp add: search_zip[OF assms(3)])
  ultimately show ?thesis using assms(4-7) kv
    by (auto simp: destroys_live_pair_def remove_spec_def del_pairs_def destroyed_pair_def destroy_pair_def)
qed

text \<open>
  C2.  Removing a key whose node has two children calls the destroy functions on a key and a value that
  are still in the tree (those of the in-order predecessor), and never on the removed pair: in all
  three implementations the pair that is destroyed is \<open>last (inorder l)\<close>, which the resulting tree
  still contains, while the removed key is not destroyed.
\<close>

theorem remove_two_children_destroys_live_pair:
  assumes "compare_ok cmp"
    and "bst cmp t" "descend cmp k t [] = (Node l k0 v0 () r, p)" "l \<noteq> Null" "r \<noteq> Null"
    and "bst cmp a" "avl a" "descend cmp k a [] = (Node la ka va xa ra, pa)" "la \<noteq> Null" "ra \<noteq> Null"
    and "bst cmp b" "rb_inv b" "descend cmp k b [] = (Node lb kb vb xb rrb, pb)" "lb \<noteq> Null" "rrb \<noteq> Null"
  shows "destroys_live_pair (p_tree_bst_remove cmp True True k t) k0 \<and>
    (\<exists>res. p_tree_avl_remove cmp True True k a = Some res \<and> destroys_live_pair res ka) \<and>
    (\<exists>res. p_tree_rb_remove cmp True True k b = Some res \<and> destroys_live_pair res kb)"
proof (intro conjI)
  obtain t' out where "p_tree_bst_remove cmp True True k t = (t', out)"
    "remove_spec cmp True True k (inorder t) (inorder t', out)"
    using bst_remove_law[OF assms(1,2)] by blast
  then show "destroys_live_pair (p_tree_bst_remove cmp True True k t) k0"
    using two_children_live[OF assms(1-5)] bst_remove_log[OF assms(3), of True True] by force
next
  obtain t' out where "p_tree_avl_remove cmp True True k a = Some (t', out)"
    "remove_spec cmp True True k (inorder a) (inorder t', out)"
    using avl_remove_law[OF assms(1,6,7)] by blast
  then show "\<exists>res. p_tree_avl_remove cmp True True k a = Some res \<and> destroys_live_pair res ka"
    using two_children_live[OF assms(1,6,8-10)] avl_remove_log[OF assms(8)] by blast
next
  obtain t' out where "p_tree_rb_remove cmp True True k b = Some (t', out)"
    "remove_spec cmp True True k (inorder b) (inorder t', out)"
    using rb_remove_law[OF assms(1,11,12)] by blast
  then show "\<exists>res. p_tree_rb_remove cmp True True k b = Some res \<and> destroys_live_pair res kb"
    using two_children_live[OF assms(1,11,13-15)] rb_remove_log[OF assms(13)] by blast
qed

theorem remove_two_children_destroys_live_pair_witness:
  "destroys_live_pair (p_tree_bst_remove int_compare True True 2
     (Node (Node Null 1 ''a'' () Null) 2 ''b'' () (Node Null 3 ''c'' () Null))) 2"
  using remove_two_children_destroys_live_pair[of int_compare
      "Node (Node Null 1 ''a'' () Null) 2 ''b'' () (Node Null 3 ''c'' () Null)" 2
      "Node Null 1 ''a'' () Null" 2 "''b''" "Node Null 3 ''c'' () Null" "[]"
      "Node (Node Null 1 ''a'' 0 Null) 2 ''b'' 0 (Node Null 3 ''c'' 0 Null)"
      "Node Null 1 ''a'' 0 Null" 2 "''b''" 0 "Node Null 3 ''c'' 0 Null" "[]"
      "Node (Node Null 1 ''a'' Red Null) 2 ''b'' Black (Node Null 3 ''c'' Red Null)"
      "Node Null 1 ''a'' Red Null" 2 "''b''" Black "Node Null 3 ''c'' Red Null" "[]"]
    int_compare_ok
  by (simp add: bst_def increasing_def int_compare_def avl_Node rb_inv_def)

section \<open>Balance\<close>

text \<open>
  C3.  The AVL operations never dereference NULL and keep the tree balanced: on a search tree in which
  every \<open>balance_factor\<close> is the height difference of the subtrees and at most one in size, insertion
  and removal return such a tree again, whether or not the allocation succeeds.
\<close>

theorem avl_operations_keep_balance:
  assumes "compare_ok cmp" "bst cmp t" "avl t"
  shows "(\<exists>t' out. p_tree_avl_insert cmp kd vd mem k v t = Some (t', out) \<and> avl t' \<and> bst cmp t') \<and>
    (\<exists>t' out. p_tree_avl_remove cmp kd vd k t = Some (t', out) \<and> avl t' \<and> bst cmp t')"
  using avl_tree.ins_keeps[OF assms] avl_tree.rem_keeps[OF assms] by blast

definition sample_avl :: "(int, string) avl_node" where
  "sample_avl = Node (Node (Node Null 1 ''a'' 0 Null) 2 ''b'' 1 Null) 4 ''d'' 1 (Node Null 5 ''e'' 0 Null)"

theorem avl_operations_keep_balance_witness:
  "avl sample_avl \<and>
   (\<exists>t' out. p_tree_avl_remove int_compare True True 5 sample_avl = Some (t', out) \<and> avl t' \<and> bst int_compare t')"
proof -
  have "avl sample_avl" by (simp add: sample_avl_def avl_Node)
  moreover have "bst int_compare sample_avl"
    by (simp add: sample_avl_def bst_def increasing_def int_compare_def)
  ultimately show ?thesis
    using avl_operations_keep_balance[OF int_compare_ok, of sample_avl True True True 5] by blast
qed

text \<open>
  C4.  The red-black operations never dereference NULL and keep the red-black rules: black root, no red
  node with a red child, and the same number of black nodes on every path.
\<close>

theorem rb_operations_keep_rules:
  assumes "compare_ok cmp" "bst cmp t" "rb_inv t"
  shows "(\<exists>t' out. p_tree_rb_insert cmp kd vd mem k v t = Some (t', out) \<and> rb_inv t' \<and> bst cmp t') \<and>
    (\<exists>t' out. p_tree_rb_remove cmp kd vd k t = Some (t', out) \<and> rb_inv t' \<and> bst cmp t')"
  using rb_tree.ins_keeps[OF assms] rb_tree.rem_keeps[OF assms] by blast

definition sample_rb :: "(int, string) rb_node" where
  "sample_rb = Node (Node Null 1 ''a'' Black Null) 2 ''b'' Black (Node Null 3 ''c'' Black Null)"

theorem rb_operations_keep_rules_witness:
  "rb_inv sample_rb \<and>
   (\<exists>t' out. p_tree_rb_remove int_compare True True 3 sample_rb = Some (t', out) \<and> rb_inv t' \<and> bst int_compare t')"
proof -
  have "rb_inv sample_rb" by (simp add: sample_rb_def rb_inv_def rb_Black)
  moreover have "bst int_compare sample_rb"
    by (simp add: sample_rb_def bst_def increasing_def int_compare_def)
  ultimately show ?thesis
    using rb_operations_keep_rules[OF int_compare_ok, of sample_rb True True True 3] by blast
qed

text \<open>
  The calls of the comparison that \<open>lookup_node\<close> makes, one for each round of its loop, and the insertions of a
  history, which bound the number of nodes.
\<close>

fun lookup_calls :: "'k compare \<Rightarrow> 'k \<Rightarrow> ('k, 'v, 'x) node \<Rightarrow> nat" where
  "lookup_calls cmp k Null = 0"
| "lookup_calls cmp k (Node l k0 v0 x r) =
     Suc (if cmp k k0 < 0 then lookup_calls cmp k l else if cmp k k0 > 0 then lookup_calls cmp k r else 0)"

fun insertions :: "('k, 'v) tree_op list \<Rightarrow> nat" where
  "insertions [] = 0"
| "insertions (Insert k v # ops) = Suc (insertions ops)"
| "insertions (Remove k # ops) = insertions ops"

definition searches_logarithmic ::
  "'k compare \<Rightarrow> ('k, 'v) tree_op list \<Rightarrow> ('k, 'v, 'x, 'd) PTree \<Rightarrow> bool" where
  "searches_logarithmic cmp ops T \<longleftrightarrow>
     (case run_ops ops (Some T) of
        Some (Some T') \<Rightarrow>
          length (inorder (root T')) \<le> insertions ops \<and>
          (\<forall>k. p_tree_lookup (Some T') k = model_ops cmp ops (\<lambda>_. None) k \<and>
             2 ^ (lookup_calls cmp k (root T') div 2) \<le> length (inorder (root T')) + 1)
      | _ \<Rightarrow> False)"

definition created_logarithmic ::
  "'k compare \<Rightarrow> ('k, 'v) tree_op list \<Rightarrow> ('k, 'v, 'd) created \<Rightarrow> bool" where
  "created_logarithmic cmp ops c \<longleftrightarrow>
     (case c of BstTree T \<Rightarrow> False
      | RbTree T \<Rightarrow> searches_logarithmic cmp ops T
      | AvlTree T \<Rightarrow> searches_logarithmic cmp ops T)"

lemma lookup_calls_height: "lookup_calls cmp k t \<le> height t"
  by (induction cmp k t rule: lookup_calls.induct) auto

text \<open>A backend whose invariant bounds the height.\<close>

locale balanced_backend = tree_backend +
  assumes inv_height: "inv t \<Longrightarrow> 2 ^ (height t div 2) \<le> Suc (length (inorder t))"

context balanced_backend
begin

lemma run_ops_size:
  assumes "tree_ok ins rem inv T" "run_ops ops (Some T) = Some (Some T')"
  shows "length (inorder (root T')) \<le> length (inorder (root T)) + insertions ops"
  using assms
proof (induction ops arbitrary: T)
  case (Cons a ops)
  show ?case
  proof (cases a)
    case (Insert k v)
    from p_tree_insert_ok[OF Cons.prems(1), of True k v] obtain T1 log out where
      T1: "p_tree_insert True (Some T) k v = Some (Some T1, log)" "tree_ok ins rem inv T1"
        "insert_spec (compare_keys T) (key_destroy_func T) (value_destroy_func T) True k v
           (inorder (root T)) (inorder (root T1), out)" by blast
    have "length (inorder (root T1)) \<le> Suc (length (inorder (root T)))"
      using T1(3) by (cases out) (auto simp: insert_spec_def length_upd_pairs del_pairs_def)
    then show ?thesis using Cons.IH[OF T1(2)] Cons.prems(2) T1(1) by (simp add: Insert)
  next
    case (Remove k)
    from p_tree_remove_ok[OF Cons.prems(1), of k] obtain T1 res log where
      T1: "p_tree_remove (Some T) k = Some (Some T1, res, log)" "tree_ok ins rem inv T1"
        "remove_spec (compare_keys T) (key_destroy_func T) (value_destroy_func T) k
           (inorder (root T)) (inorder (root T1), res, log)" by blast
    have "length (inorder (root T1)) \<le> length (inorder (root T))"
      using T1(3) by (auto simp: remove_spec_def del_pairs_def)
    then show ?thesis using Cons.IH[OF T1(2)] Cons.prems(2) T1(1) by (simp add: Remove)
  qed
qed simp

lemma new_tree_logarithmic:
  assumes "compare_ok (\<lambda>a b. func a b dat)"
  shows "searches_logarithmic (\<lambda>a b. func a b dat) ops (new_tree ins rem ty func dat kd vd)"
proof -
  let ?T = "new_tree ins rem ty func dat kd vd"
  note ok = new_tree_ok[of func dat, OF assms]
  obtain T' where run: "run_ops ops (Some ?T) = Some (Some T')" and T': "tree_ok ins rem inv T'"
    using run_ops_ok[OF ok] by blast
  have "2 ^ (lookup_calls cmp k (root T') div 2) \<le> length (inorder (root T')) + 1" for cmp k
  proof -
    have "(2 :: nat) ^ (lookup_calls cmp k (root T') div 2) \<le> 2 ^ (height (root T') div 2)"
      using lookup_calls_height[of cmp k "root T'"] by (intro power_increasing div_le_mono) auto
    also have "\<dots> \<le> length (inorder (root T')) + 1" using inv_height[of "root T'"] T' by (simp add: tree_ok_def)
    finally show ?thesis .
  qed
  moreover have "length (inorder (root T')) \<le> insertions ops"
    using run_ops_size[OF ok run] by (simp add: new_tree_def)
  moreover have "tree_behaves (\<lambda>a b. func a b dat) ops ?T" by (rule new_tree_behaves) (rule assms)
  ultimately show ?thesis by (simp add: searches_logarithmic_def tree_behaves_def run)
qed

end

lemma avl_height_bound: "avl t \<Longrightarrow> 2 ^ (height t div 2) \<le> Suc (length (inorder t))"
  by (rule avl_size) simp_all

lemma rb_height_bound: "rb_inv t \<Longrightarrow> 2 ^ (height t div 2) \<le> Suc (length (inorder t))"
proof -
  assume t: "rb_inv t"
  then have "height t div 2 \<le> black_height t" using rb_height[of t "black_height t"] by (auto simp: rb_inv_def)
  then have "(2 :: nat) ^ (height t div 2) \<le> 2 ^ black_height t" by (intro power_increasing) auto
  also have "\<dots> \<le> Suc (length (inorder t))" using rb_size[of t "black_height t"] t by (simp add: rb_inv_def)
  finally show ?thesis .
qed

interpretation avl_balanced: balanced_backend p_tree_avl_insert p_tree_avl_remove avl
  by unfold_locales (rule avl_height_bound)

interpretation rb_balanced: balanced_backend p_tree_rb_insert p_tree_rb_remove rb_inv
  by unfold_locales (rule rb_height_bound)

text \<open>
  C5.  Searching is logarithmic in the trees that insertions and removals build: after every history on a new
  red-black or AVL tree, a lookup of any key gives what the history stored for it with \<open>n\<close> calls of the comparison
  such that \<open>2 ^ (n div 2) \<le> m + 1\<close>, for \<open>m\<close> nodes, which are at most as many as there were insertions.
\<close>

theorem balanced_search_is_logarithmic:
  assumes "compare_ok (\<lambda>a b. f a b dat)" and "ty = 1 \<or> ty = 2"
  shows "\<exists>c. p_tree_new_full ty (Some f) dat kd vd True = Some c \<and>
    created_logarithmic (\<lambda>a b. f a b dat) ops c"
  using assms(2) rb_balanced.new_tree_logarithmic[of f dat, OF assms(1)] avl_balanced.new_tree_logarithmic[of f dat, OF assms(1)]
  by (elim disjE) (simp_all add: p_tree_new_full_def created_logarithmic_def)

text \<open>Seven keys in increasing order, which make a binary tree of height seven.\<close>

theorem balanced_search_is_logarithmic_witness:
  "(\<exists>c. p_tree_new_full 1 (Some (\<lambda>a b (_ :: unit option). int_compare a b)) None True True True = Some c \<and>
      created_logarithmic int_compare (map (\<lambda>k. Insert k ''x'') [1, 2, 3, 4, 5, 6, 7]) c) \<and>
   lookup_calls int_compare 7
     (Node Null 1 ''x'' () (Node Null 2 ''x'' () (Node Null 3 ''x'' () (Node Null 4 ''x'' () (Node Null 5 ''x'' () (
      Node Null 6 ''x'' () (Node Null 7 ''x'' () Null))))))) = 7"
proof
  show "\<exists>c. p_tree_new_full 1 (Some (\<lambda>a b (_ :: unit option). int_compare a b)) None True True True = Some c \<and>
      created_logarithmic int_compare (map (\<lambda>k. Insert k ''x'') [1, 2, 3, 4, 5, 6, 7]) c"
    using balanced_search_is_logarithmic[of "\<lambda>a b (_ :: unit option). int_compare a b" None 1 True True
        "map (\<lambda>k. Insert k ''x'') [1, 2, 3, 4, 5, 6, 7]"] int_compare_ok by simp
qed (simp add: int_compare_def)

section \<open>Traversals\<close>

text \<open>
  C6.  \<open>p_tree_foreach\<close> on a tree in the heap terminates, calls the function on the pairs from left to
  right up to and including the first call that asks to stop, and leaves every node of the tree as it
  was, although it rewrites right pointers on the way.
\<close>

theorem foreach_visits_in_order:
  assumes "tree_at h a t"
  shows "p_tree_foreach (Some f) h (Some a) u = Some (h, snd (visits f (inorder t) (False, u)))"
  using foreach_tree[OF assms] by (cases "visits f (inorder t) (False, u)") simp

definition sample_heap :: "(int, string) heap" where
  "sample_heap =
     [10 \<mapsto> \<lparr>bn_left = 20, bn_right = 30, bn_key = 2, bn_value = ''b''\<rparr>,
      20 \<mapsto> \<lparr>bn_left = 0, bn_right = 0, bn_key = 1, bn_value = ''a''\<rparr>,
      30 \<mapsto> \<lparr>bn_left = 0, bn_right = 0, bn_key = 3, bn_value = ''c''\<rparr>]"

definition sample_htree :: "(int, string) htree" where
  "sample_htree = Node (Node Null 1 ''a'' 20 Null) 2 ''b'' 10 (Node Null 3 ''c'' 30 Null)"

lemma sample_tree_at: "tree_at sample_heap 10 sample_htree"
  by (simp add: tree_at_def sample_heap_def sample_htree_def)

theorem foreach_visits_in_order_witness:
  "p_tree_foreach (Some (\<lambda>k v u. (k = 2, u @ [k]))) sample_heap (Some 10) [] = Some (sample_heap, [1, 2])"
  using foreach_visits_in_order[OF sample_tree_at, of "\<lambda>k v u. (k = 2, u @ [k])" "[]"]
  by (simp add: sample_htree_def visit_def)

text \<open>
  C7.  \<open>p_tree_clear\<close> on a tree in the heap terminates, destroys every pair and frees every node exactly
  once, from left to right, never touches a freed node or a node of another structure, and leaves a
  NULL root and the node count lowered by the number of nodes.
\<close>

theorem clear_frees_every_node_once:
  assumes "tree_at h a t"
  shows "p_tree_clear kd vd h (Some (a, n)) =
    Some (h |` (- set (addrs t)), Some (0, n - of_nat (length (inorder t))), destroy_all kd vd (inorder t))"
proof -
  have "clear_loop kd vd h' 0 n' log = Some (h', n', log)" for h' n' log
    by (subst clear_loop.simps) simp
  then show ?thesis
    using assms clear_seg[of h a t 0 kd vd n "[]"] seg_root[of h a t 0]
    by (cases "t = Null") (auto simp: p_tree_clear_def tree_at_def destroy_all_def)
qed

theorem clear_frees_every_node_once_witness:
  "p_tree_clear True False sample_heap (Some (10, 3)) =
    Some (sample_heap |` (- {20, 10, 30}), Some (0, 0),
      [KeyDestroyed 1, NodeFreed, KeyDestroyed 2, NodeFreed, KeyDestroyed 3, NodeFreed])"
  using clear_frees_every_node_once[OF sample_tree_at, of True False 3]
  by (simp add: sample_htree_def destroy_all_def destroy_pair_def)

definition created_type :: "('k, 'v, 'd) created \<Rightarrow> int" where
  "created_type c = (case c of BstTree _ \<Rightarrow> 0 | RbTree _ \<Rightarrow> 1 | AvlTree _ \<Rightarrow> 2)"

definition created_nnodes :: "('k, 'v, 'd) created \<Rightarrow> 32 word" where
  "created_nnodes c = (case c of BstTree T \<Rightarrow> p_tree_get_nnodes (Some T)
     | RbTree T \<Rightarrow> p_tree_get_nnodes (Some T) | AvlTree T \<Rightarrow> p_tree_get_nnodes (Some T))"

definition created_get_type :: "('k, 'v, 'd) created \<Rightarrow> PTreeType option" where
  "created_get_type c = (case c of BstTree T \<Rightarrow> p_tree_get_type (Some T)
     | RbTree T \<Rightarrow> p_tree_get_type (Some T) | AvlTree T \<Rightarrow> p_tree_get_type (Some T))"

text \<open>
  \<open>p_tree_new_full\<close> returns NULL exactly for a type outside the enumeration, a NULL comparison, or a
  failed allocation; otherwise the object has the requested type, is empty, and has the given
  comparison and callbacks.
\<close>

theorem new_full_result:
  "(case p_tree_new_full ty func dat kd vd mem of
      None \<Rightarrow> ty \<notin> {0, 1, 2} \<or> func = None \<or> mem = False
    | Some c \<Rightarrow> ty \<in> {0, 1, 2} \<and> func \<noteq> None \<and> mem = True \<and> created_type c = ty \<and> created_nnodes c = 0 \<and>
        created_get_type c = Some ([P_TREE_TYPE_BINARY, P_TREE_TYPE_RB, P_TREE_TYPE_AVL] ! nat ty))"
proof -
  have "ty = 0 \<or> ty = 1 \<or> ty = 2 \<or> ty < 0 \<or> 2 < ty" by linarith
  then show ?thesis
    by (elim disjE) (auto simp: p_tree_new_full_def created_type_def created_nnodes_def created_get_type_def
        p_tree_get_nnodes_def p_tree_get_type_def new_tree_def split: option.splits)
qed

theorem new_full_result_witness:
  "p_tree_new_full 7 (Some (\<lambda>a b (d :: unit option). a - b)) None False False True =
     (None :: (int, int, unit) created option)"
  using new_full_result[where ty = 7 and func = "Some (\<lambda>a b (d :: unit option). a - b :: int)"
      and dat = None and kd = False and vd = False and mem = True, where ?'b = int]
  by (auto split: option.splits)

end
