(* ===== verification/PList.thy ===== *)
theory PList
  imports Prelude
begin

text \<open>
  The singly linked list (\<open>plist.c\<close>), on an explicit heap of \<open>PList\<close> cells: the operations relink cells
  in place, and a \<open>PList *\<close> handed to a caller aliases the cells of the list.  A pointer is a \<open>nat\<close>, NULL
  is 0, and following a pointer that is not mapped gives \<open>None\<close>.  Each operation that allocates takes
  the address \<open>m\<close> that \<open>p_malloc0\<close> returned, 0 when it failed.
\<close>

section \<open>Cells and operations\<close>

record 'a plist_cell =
  l_data :: 'a
  l_next :: nat

type_synonym 'a list_heap = "nat \<Rightarrow> 'a plist_cell option"

text \<open>\<open>for (cur = list; cur->next != NULL; cur = cur->next);\<close>\<close>

partial_function (option) last_loop :: "'a list_heap \<Rightarrow> nat \<Rightarrow> nat option" where
  "last_loop h cur =
     (case h cur of
        None \<Rightarrow> None
      | Some n \<Rightarrow> if l_next n \<noteq> 0 then last_loop h (l_next n) else Some cur)"

definition p_list_append ::
  "'a list_heap \<Rightarrow> nat \<Rightarrow> 'a \<Rightarrow> nat \<Rightarrow> ('a list_heap \<times> nat) option" where
  "p_list_append h list data m =
     (if m = 0 then Some (h, list)
      else
        (let h1 = h(m \<mapsto> \<lparr>l_data = data, l_next = 0\<rparr>)
         in if list = 0 then Some (h1, m)
            else case last_loop h1 list of
                   None \<Rightarrow> None
                 | Some cur \<Rightarrow>
                     map_option (\<lambda>n. (h1(cur \<mapsto> n\<lparr>l_next := m\<rparr>), list)) (h1 cur)))"

partial_function (option) remove_loop ::
  "'a list_heap \<Rightarrow> 'a \<Rightarrow> nat \<Rightarrow> nat \<Rightarrow> nat \<Rightarrow> ('a list_heap \<times> nat) option" where
  "remove_loop h data head prev cur =
     (if cur = 0 then Some (h, head)
      else case h cur of
        None \<Rightarrow> None
      | Some n \<Rightarrow>
          if l_data n = data then
            (if prev = 0 then Some (h(cur := None), l_next n)
             else map_option (\<lambda>p. ((h(prev \<mapsto> p\<lparr>l_next := l_next n\<rparr>))(cur := None), head)) (h prev))
          else remove_loop h data head cur (l_next n))"

definition p_list_remove :: "'a list_heap \<Rightarrow> nat \<Rightarrow> 'a \<Rightarrow> ('a list_heap \<times> nat) option" where
  "p_list_remove h list data = (if list = 0 then Some (h, 0) else remove_loop h data list 0 list)"

text \<open>\<open>func\<close> is \<open>None\<close> when NULL; \<open>u\<close> is what it changes through \<open>user_data\<close>.\<close>

partial_function (option) list_foreach_loop :: "('a \<Rightarrow> 'u \<Rightarrow> 'u) \<Rightarrow> 'a list_heap \<Rightarrow> nat \<Rightarrow> 'u \<Rightarrow> 'u option" where
  "list_foreach_loop f h cur u =
     (if cur = 0 then Some u
      else case h cur of
        None \<Rightarrow> None
      | Some n \<Rightarrow> list_foreach_loop f h (l_next n) (f (l_data n) u))"

definition p_list_foreach :: "('a \<Rightarrow> 'u \<Rightarrow> 'u) option \<Rightarrow> 'a list_heap \<Rightarrow> nat \<Rightarrow> 'u \<Rightarrow> 'u option" where
  "p_list_foreach func h list u =
     (case func of None \<Rightarrow> Some u | Some f \<Rightarrow> if list = 0 then Some u else list_foreach_loop f h list u)"

partial_function (option) free_loop :: "'a list_heap \<Rightarrow> nat \<Rightarrow> nat \<Rightarrow> 'a list_heap option" where
  "free_loop h cur nxt =
     (if cur = 0 \<or> nxt = 0 then Some h
      else case h cur of
        None \<Rightarrow> None
      | Some n \<Rightarrow> free_loop (h(cur := None)) (l_next n) (l_next n))"

definition p_list_free :: "'a list_heap \<Rightarrow> nat \<Rightarrow> 'a list_heap option" where
  "p_list_free h list = (if list = 0 then Some h else free_loop h list list)"

definition p_list_last :: "'a list_heap \<Rightarrow> nat \<Rightarrow> nat option" where
  "p_list_last h list = (if list = 0 then Some 0 else last_loop h list)"

partial_function (option) length_loop :: "'a list_heap \<Rightarrow> nat \<Rightarrow> nat \<Rightarrow> nat option" where
  "length_loop h cur ret =
     (case h cur of
        None \<Rightarrow> None
      | Some n \<Rightarrow> if l_next n \<noteq> 0 then length_loop h (l_next n) (ret + 1) else Some ret)"

definition p_list_length :: "'a list_heap \<Rightarrow> nat \<Rightarrow> nat option" where
  "p_list_length h list = (if list = 0 then Some 0 else length_loop h list 1)"

definition p_list_prepend :: "'a list_heap \<Rightarrow> nat \<Rightarrow> 'a \<Rightarrow> nat \<Rightarrow> 'a list_heap \<times> nat" where
  "p_list_prepend h list data m =
     (if m = 0 then (h, list)
      else
        (let h1 = h(m \<mapsto> \<lparr>l_data = data, l_next = 0\<rparr>)
         in if list = 0 then (h1, m) else (h1(m \<mapsto> \<lparr>l_data = data, l_next = list\<rparr>), m)))"

partial_function (option) reverse_loop :: "'a list_heap \<Rightarrow> nat \<Rightarrow> nat \<Rightarrow> ('a list_heap \<times> nat) option" where
  "reverse_loop h prev cur =
     (if cur = 0 then Some (h, prev)
      else case h cur of
        None \<Rightarrow> None
      | Some n \<Rightarrow> reverse_loop (h(cur \<mapsto> n\<lparr>l_next := prev\<rparr>)) cur (l_next n))"

definition p_list_reverse :: "'a list_heap \<Rightarrow> nat \<Rightarrow> ('a list_heap \<times> nat) option" where
  "p_list_reverse h list =
     (if list = 0 then Some (h, 0)
      else case h list of
        None \<Rightarrow> None
      | Some n \<Rightarrow> reverse_loop (h(list \<mapsto> n\<lparr>l_next := 0\<rparr>)) list (l_next n))"

section \<open>Lists in the heap\<close>

text \<open>
  \<open>chain h a xs e\<close>: from pointer \<open>a\<close> the next pointers lead through the cells \<open>xs\<close> (address and data)
  to \<open>e\<close>.  \<open>list_at h a xs\<close> is a proper list; \<open>list_of\<close> gives its data.
\<close>

fun chain :: "'a list_heap \<Rightarrow> nat \<Rightarrow> (nat \<times> 'a) list \<Rightarrow> nat \<Rightarrow> bool" where
  "chain h a [] e \<longleftrightarrow> a = e"
| "chain h a ((x, d) # xs) e \<longleftrightarrow>
     a = x \<and> x \<noteq> 0 \<and> (\<exists>n. h x = Some n \<and> l_data n = d \<and> chain h (l_next n) xs e)"

abbreviation cells :: "(nat \<times> 'a) list \<Rightarrow> nat set" where
  "cells xs \<equiv> fst ` set xs"

definition list_at :: "'a list_heap \<Rightarrow> nat \<Rightarrow> (nat \<times> 'a) list \<Rightarrow> bool" where
  "list_at h a xs \<longleftrightarrow> chain h a xs 0 \<and> distinct (map fst xs)"

lemma chain_frame: "(\<And>x. x \<in> cells xs \<Longrightarrow> h x = h' x) \<Longrightarrow> chain h a xs e \<longleftrightarrow> chain h' a xs e"
  by (induction xs arbitrary: a) auto

lemma chain_upd: "b \<notin> cells xs \<Longrightarrow> chain (h(b := c)) a xs e \<longleftrightarrow> chain h a xs e"
  by (rule chain_frame) auto

lemma chain_append: "chain h a (xs @ ys) e \<longleftrightarrow> (\<exists>b. chain h a xs b \<and> chain h b ys e)"
  by (induction xs arbitrary: a) (auto, blast+)

lemma chain_0: "chain h a xs e \<Longrightarrow> 0 \<notin> cells xs"
  by (induction xs arbitrary: a) force+

lemma chain_mapped: "chain h a xs e \<Longrightarrow> x \<in> cells xs \<Longrightarrow> h x \<noteq> None"
  by (induction xs arbitrary: a) force+

lemma chain_null: "chain h 0 xs 0 \<longleftrightarrow> xs = []"
  by (cases xs) auto

lemma list_at_Nil: "list_at h 0 xs \<longleftrightarrow> xs = []"
  by (auto simp: list_at_def chain_null)

lemma list_at_nonempty: "list_at h a xs \<Longrightarrow> a \<noteq> 0 \<longleftrightarrow> xs \<noteq> []"
  by (cases xs) (auto simp: list_at_def)

lemma last_loop_chain: "chain h a (xs @ [(x, d)]) 0 \<Longrightarrow> last_loop h a = Some x"
proof (induction xs arbitrary: a)
  case Nil
  then show ?case by (subst last_loop.simps) auto
next
  case (Cons y xs)
  obtain y1 y2 where y: "y = (y1, y2)" by fastforce
  with Cons.prems obtain n where n: "h a = Some n" "chain h (l_next n) (xs @ [(x, d)]) 0" by auto
  then have "l_next n \<noteq> 0" by (cases xs) auto
  then show ?case using n Cons.IH by (subst last_loop.simps) auto
qed

text \<open>The cells without the first one that holds \<open>d\<close>.\<close>

fun drop_cell :: "'a \<Rightarrow> (nat \<times> 'a) list \<Rightarrow> (nat \<times> 'a) list" where
  "drop_cell d [] = []"
| "drop_cell d (c # cs) = (if snd c = d then cs else c # drop_cell d cs)"

lemma drop_cell_data: "map snd (drop_cell d cs) = remove1 d (map snd cs)"
  by (induction cs) auto

section \<open>What the operations do to the list\<close>

text \<open>An operation keeps every cell outside the list (and outside the cell it allocates).\<close>

definition keeps_others :: "'a list_heap \<Rightarrow> 'a list_heap \<Rightarrow> nat set \<Rightarrow> bool" where
  "keeps_others h h' A \<longleftrightarrow> (\<forall>y. y \<notin> A \<longrightarrow> h' y = h y)"

lemma append_spec:
  assumes "list_at h a xs" "m \<noteq> 0" "h m = None"
  shows "\<exists>h' a'. p_list_append h a d m = Some (h', a') \<and> list_at h' a' (xs @ [(m, d)]) \<and>
    keeps_others h h' (insert m (cells xs)) \<and> dom h' = insert m (dom h)"
proof (cases xs rule: rev_cases)
  case Nil
  then show ?thesis using assms
    by (auto simp: list_at_def p_list_append_def keeps_others_def)
next
  case (snoc ys y)
  obtain x e where y: "y = (x, e)" by fastforce
  let ?h1 = "h(m \<mapsto> \<lparr>l_data = d, l_next = 0\<rparr>)"
  have ch: "chain h a (ys @ [(x, e)]) 0" and di: "distinct (map fst (ys @ [(x, e)]))"
    using assms(1) by (auto simp: list_at_def snoc y)
  have a: "a \<noteq> 0" using list_at_nonempty[OF assms(1)] snoc by simp
  have m: "m \<notin> cells (ys @ [(x, e)])" using chain_mapped[OF ch] assms(3) by blast
  have ch1: "chain ?h1 a (ys @ [(x, e)]) 0" using ch m by (simp only: chain_upd not_False_eq_True)
  then obtain n where n: "?h1 x = Some n" "l_data n = e" "chain ?h1 a ys x" "x \<noteq> 0"
    by (auto simp: chain_append)
  let ?h2 = "?h1(x \<mapsto> n\<lparr>l_next := m\<rparr>)"
  have "chain ?h2 a ys x" using n(3) di by (subst chain_upd) auto
  then have "chain ?h2 a (ys @ [(x, e), (m, d)]) 0"
    using n m assms(2) by (auto simp: chain_append)
  moreover have "p_list_append h a d m = Some (?h2, a)"
    using assms(2) a n last_loop_chain[OF ch1] by (simp add: p_list_append_def Let_def)
  moreover have "dom ?h2 = insert m (dom h)" using n(1) by (auto split: if_splits)
  ultimately show ?thesis using di m
    by (auto simp: list_at_def snoc y keeps_others_def)
qed

lemma remove_loop_spec:
  assumes "chain h head us cur" "chain h cur vs 0" "distinct (map fst (us @ vs))" "d \<notin> snd ` set us"
    and "us = [] \<Longrightarrow> prev = 0 \<and> head = cur" "us \<noteq> [] \<Longrightarrow> prev = fst (last us)"
  shows "\<exists>h' a'. remove_loop h d head prev cur = Some (h', a') \<and>
    list_at h' a' (us @ drop_cell d vs) \<and>
    keeps_others h h' (cells (us @ vs))"
  using assms
proof (induction vs arbitrary: us prev cur)
  case Nil
  then show ?case by (subst remove_loop.simps) (auto simp: list_at_def chain_append keeps_others_def)
next
  case (Cons v vs)
  obtain x e where v: "v = (x, e)" by fastforce
  with Cons.prems(2) obtain n where n: "h cur = Some n" "cur = x" "x \<noteq> 0" "l_data n = e" "chain h (l_next n) vs 0"
    by auto
  have di: "distinct (map fst us)" "x \<notin> cells us" "x \<notin> cells vs" "distinct (map fst vs)" "cells us \<inter> cells vs = {}"
    using Cons.prems(3) by (auto simp: v)
  show ?case
  proof (cases "e = d")
    case True
    show ?thesis
    proof (cases us rule: rev_cases)
      case Nil
      then show ?thesis using n True Cons.prems(5) di
        by (subst remove_loop.simps) (auto simp: v list_at_def keeps_others_def chain_upd)
    next
      case (snoc ws w)
      obtain y f where w: "w = (y, f)" by fastforce
      from Cons.prems(1) obtain p where p: "chain h head ws y" "h y = Some p" "l_data p = f" "y \<noteq> 0"
        by (auto simp: snoc w chain_append)
      have y: "y \<noteq> x" "y \<notin> cells ws" "y \<notin> cells vs" "x \<notin> cells ws" using di by (auto simp: snoc w)
      let ?h = "(h(y \<mapsto> p\<lparr>l_next := l_next n\<rparr>))(x := None)"
      have "chain ?h head ws y" "chain ?h (l_next n) vs 0"
        using p(1) n(5) y di(3) by (simp_all only: chain_upd not_False_eq_True)
      then have "chain ?h head (ws @ [(y, f)] @ vs) 0" using p y(1) by (auto simp: chain_append)
      moreover have "remove_loop h d head prev cur = Some (?h, head)"
        using n True p Cons.prems(6) by (subst remove_loop.simps) (simp add: snoc w)
      ultimately show ?thesis using di y True by (auto simp: v list_at_def snoc w keeps_others_def)
    qed
  next
    case False
    have "chain h head (us @ [(x, e)]) (l_next n)" using Cons.prems(1) n by (auto simp: chain_append)
    then show ?thesis
      using Cons.IH[of "us @ [(x, e)]" "l_next n" x] n False Cons.prems(3,4)
      by (subst remove_loop.simps) (auto simp: v)
  qed
qed

lemma free_loop_spec:
  assumes "chain h a xs 0" "distinct (map fst xs)"
  shows "free_loop h a a = Some (h |` (- cells xs))"
  using assms
proof (induction xs arbitrary: h a)
  case Nil
  then show ?case by (subst free_loop.simps) (simp add: restrict_map_def)
next
  case (Cons y xs)
  obtain x d where y: "y = (x, d)" by fastforce
  with Cons.prems obtain n where n: "h a = Some n" "a = x" "x \<noteq> 0" "chain h (l_next n) xs 0" by auto
  have "chain (h(x := None)) (l_next n) xs 0" using n(4) Cons.prems(2) by (simp add: y chain_upd)
  moreover have "distinct (map fst xs)" using Cons.prems(2) by simp
  ultimately have "free_loop (h(x := None)) (l_next n) (l_next n) = Some (h(x := None) |` (- cells xs))"
    by (rule Cons.IH)
  also have "h(x := None) |` (- cells xs) = h |` (- cells (y # xs))"
    by (auto simp: restrict_map_def y fun_eq_iff)
  finally show ?case using n by (subst free_loop.simps) (simp del: fun_upd_apply)
qed

lemma length_loop_spec: "chain h a (x # xs) 0 \<Longrightarrow> length_loop h a r = Some (r + length xs)"
proof (induction xs arbitrary: a x r)
  case Nil
  then show ?case by (cases x) (subst length_loop.simps, auto)
next
  case (Cons y xs)
  obtain x1 x2 where x: "x = (x1, x2)" by fastforce
  with Cons.prems obtain n where n: "h a = Some n" "chain h (l_next n) (y # xs) 0" by auto
  moreover have "l_next n \<noteq> 0" using n(2) by (cases y) auto
  ultimately show ?case using Cons.IH by (subst length_loop.simps) auto
qed

lemma list_foreach_loop_spec: "chain h a xs 0 \<Longrightarrow> list_foreach_loop f h a u = Some (fold f (map snd xs) u)"
proof (induction xs arbitrary: a u)
  case Nil
  then show ?case by (subst list_foreach_loop.simps) simp
next
  case (Cons y xs)
  then show ?case by (cases y) (subst list_foreach_loop.simps, auto)
qed

lemma reverse_loop_spec:
  assumes "chain h prev us 0" "chain h cur vs 0" "distinct (map fst (us @ vs))"
  shows "\<exists>h' a'. reverse_loop h prev cur = Some (h', a') \<and> list_at h' a' (rev vs @ us) \<and>
    keeps_others h h' (cells vs)"
  using assms
proof (induction vs arbitrary: h prev cur us)
  case Nil
  then show ?case by (subst reverse_loop.simps) (auto simp: list_at_def keeps_others_def)
next
  case (Cons v vs)
  obtain x d where v: "v = (x, d)" by fastforce
  with Cons.prems(2) obtain n where n: "h cur = Some n" "cur = x" "x \<noteq> 0" "l_data n = d" "chain h (l_next n) vs 0"
    by auto
  let ?h = "h(x \<mapsto> n\<lparr>l_next := prev\<rparr>)"
  have di: "x \<notin> cells us" "x \<notin> cells vs" using Cons.prems(3) by (auto simp: v)
  have us: "chain ?h x ((x, d) # us) 0" and vs: "chain ?h (l_next n) vs 0"
    using Cons.prems(1) n di by (simp_all add: chain_upd)
  have "distinct (map fst (((x, d) # us) @ vs))" using Cons.prems(3) by (auto simp: v)
  from Cons.IH[OF us vs this] obtain h' a' where "reverse_loop ?h x (l_next n) = Some (h', a')"
    "list_at h' a' (rev vs @ (x, d) # us)" "keeps_others ?h h' (cells vs)" by blast
  then show ?case using n by (subst reverse_loop.simps) (auto simp: v keeps_others_def)
qed

lemma remove_spec:
  assumes "list_at h a xs"
  shows "\<exists>h' a'. p_list_remove h a d = Some (h', a') \<and> list_at h' a' (drop_cell d xs) \<and>
    keeps_others h h' (cells xs)"
proof (cases "a = 0")
  case True
  then show ?thesis using assms by (auto simp: list_at_Nil p_list_remove_def keeps_others_def)
next
  case False
  then show ?thesis using remove_loop_spec[of h a "[]" a xs d 0] assms
    by (simp add: p_list_remove_def list_at_def)
qed

lemma prepend_spec:
  assumes "list_at h a xs" "m \<noteq> 0" "h m = None"
  shows "\<exists>h' a'. p_list_prepend h a d m = (h', a') \<and> list_at h' a' ((m, d) # xs) \<and>
    keeps_others h h' {m}"
proof -
  have "m \<notin> cells xs" using assms chain_mapped unfolding list_at_def by blast
  then show ?thesis using assms
    by (auto simp: p_list_prepend_def Let_def list_at_def keeps_others_def chain_upd chain_null)
qed

lemma reverse_spec:
  assumes "list_at h a xs"
  shows "\<exists>h' a'. p_list_reverse h a = Some (h', a') \<and> list_at h' a' (rev xs) \<and>
    keeps_others h h' (cells xs)"
proof (cases xs)
  case Nil
  then show ?thesis using assms by (auto simp: p_list_reverse_def list_at_def keeps_others_def)
next
  case (Cons v vs)
  obtain x d where v: "v = (x, d)" by fastforce
  obtain n where n: "h a = Some n" "a = x" "x \<noteq> 0" "l_data n = d" "chain h (l_next n) vs 0"
    using assms by (auto simp: Cons v list_at_def)
  have di: "x \<notin> cells vs" "distinct (map fst ([(x, d)] @ vs))" using assms by (auto simp: Cons v list_at_def)
  let ?h = "h(x \<mapsto> n\<lparr>l_next := 0\<rparr>)"
  have "chain ?h x [(x, d)] 0" "chain ?h (l_next n) vs 0" using n di by (simp_all add: chain_upd)
  from reverse_loop_spec[OF this di(2)] show ?thesis using n
    by (auto simp: p_list_reverse_def Cons v keeps_others_def)
qed

lemma free_spec: "list_at h a xs \<Longrightarrow> p_list_free h a = Some (h |` (- cells xs))"
  by (cases "a = 0") (auto simp: p_list_free_def list_at_Nil list_at_def chain_null free_loop_spec)

lemma length_spec: "list_at h a xs \<Longrightarrow> p_list_length h a = Some (length xs)"
  using list_at_nonempty[of h a xs] length_loop_spec[of h a "hd xs" "tl xs" 1]
  by (cases xs) (simp_all add: p_list_length_def list_at_def del: chain.simps(2))

lemma last_spec:
  "list_at h a xs \<Longrightarrow> p_list_last h a = Some (if xs = [] then 0 else fst (last xs))"
  by (cases xs rule: rev_cases)
    (use list_at_nonempty[of h a xs] in \<open>auto simp: p_list_last_def list_at_def last_loop_chain\<close>)

lemma foreach_spec:
  "list_at h a xs \<Longrightarrow> p_list_foreach func h a u =
     Some (case func of None \<Rightarrow> u | Some f \<Rightarrow> fold f (map snd xs) u)"
  by (cases "a = 0")
    (auto simp: p_list_foreach_def list_at_Nil list_at_def chain_null list_foreach_loop_spec split: option.splits)

section \<open>The interface to the modules that build lists\<close>

text \<open>
  Clients of the list build their results by appending one element after the other.  The interface is
  the operation and the law that it extends the list in place and leaves the rest of the heap alone.
\<close>

locale appender =
  fixes app :: "'a list_heap \<Rightarrow> nat \<Rightarrow> 'a \<Rightarrow> nat \<Rightarrow> ('a list_heap \<times> nat) option"
  assumes app_ok: "list_at h a xs \<Longrightarrow> m \<noteq> 0 \<Longrightarrow> h m = None \<Longrightarrow>
      \<exists>h' a'. app h a d m = Some (h', a') \<and> list_at h' a' (xs @ [(m, d)]) \<and>
        keeps_others h h' (insert m (cells xs)) \<and> dom h' = insert m (dom h)"
    and app_fail: "app h a d 0 = Some (h, a)"

text \<open>Appending a sequence of elements; every element comes with the address its allocation returned.\<close>

fun append_all :: "('a list_heap \<Rightarrow> nat \<Rightarrow> 'a \<Rightarrow> nat \<Rightarrow> ('a list_heap \<times> nat) option) \<Rightarrow>
    (nat \<times> 'a) list \<Rightarrow> 'a list_heap \<Rightarrow> nat \<Rightarrow> ('a list_heap \<times> nat) option" where
  "append_all app [] h a = Some (h, a)"
| "append_all app ((m, d) # ds) h a =
     (case app h a d m of None \<Rightarrow> None | Some (h', a') \<Rightarrow> append_all app ds h' a')"

lemma append_all_snoc:
  "append_all app (xs @ [(m, d)]) h a =
     (case append_all app xs h a of None \<Rightarrow> None | Some (h', a') \<Rightarrow> app h' a' d m)"
  by (induction xs arbitrary: h a) (auto split: option.splits)

context appender
begin

lemma append_all_ok:
  assumes "list_at h a xs" "distinct (map fst ds)" "\<And>m. m \<in> cells ds \<Longrightarrow> m \<noteq> 0 \<and> h m = None"
  shows "\<exists>h' a'. append_all app ds h a = Some (h', a') \<and> list_at h' a' (xs @ ds) \<and>
    keeps_others h h' (cells xs \<union> cells ds)"
  using assms
proof (induction ds arbitrary: h a xs)
  case Nil
  then show ?case by (simp add: keeps_others_def)
next
  case (Cons c ds)
  obtain m d where c: "c = (m, d)" by fastforce
  have "m \<noteq> 0" "h m = None" using Cons.prems(3)[of m] by (auto simp: c)
  from app_ok[OF Cons.prems(1) this, of d] obtain h' a' where 1: "app h a d m = Some (h', a')"
    "list_at h' a' (xs @ [(m, d)])" "keeps_others h h' (insert m (cells xs))" "dom h' = insert m (dom h)" by blast
  have "\<exists>h'' a''. append_all app ds h' a' = Some (h'', a'') \<and> list_at h'' a'' ((xs @ [(m, d)]) @ ds) \<and>
      keeps_others h' h'' (cells (xs @ [(m, d)]) \<union> cells ds)"
  proof (rule Cons.IH[OF 1(2)])
    show "distinct (map fst ds)" using Cons.prems(2) by simp
    fix k assume k: "k \<in> cells ds"
    then have "k \<noteq> m" using Cons.prems(2) by (auto simp: c)
    then show "k \<noteq> 0 \<and> h' k = None" using Cons.prems(3)[of k] k 1(4) by (auto simp: domIff)
  qed
  then obtain h'' a'' where 2: "append_all app ds h' a' = Some (h'', a'')" "list_at h'' a'' ((xs @ [(m, d)]) @ ds)"
    "keeps_others h' h'' (cells (xs @ [(m, d)]) \<union> cells ds)" by blast
  have "keeps_others h h'' (cells xs \<union> cells (c # ds))" using 1(3) 2(3) by (simp add: c keeps_others_def)
  then show ?case using 1(1) 2(1,2) by (auto simp: c)
qed

end

interpretation list_append: appender p_list_append
  by unfold_locales (erule (2) append_spec, simp add: p_list_append_def)

end
