(* ===== verification/PHashTable.thy ===== *)
theory PHashTable
  imports PList
begin

text \<open>
  The hash table (\<open>phashtable.c\<close>).  A \<open>PHashTableNode\<close> chain of a bucket is the list of its nodes in
  chain order (no pointer to a node ever leaves the module); keys and values are 64-bit pointers, a
  \<open>PHashTable *\<close> is an option with \<open>None\<close> for NULL.  The lists that \<open>p_hash_table_keys\<close> and the like
  return are built with \<open>p_list_append\<close> on the list heap.
\<close>

section \<open>The table and its operations\<close>

type_synonym ppointer = "64 word"

record PHashTableNode =
  h_key :: ppointer
  h_value :: ppointer

record PHashTable =
  table :: "PHashTableNode list list"
  size :: "64 word"

text \<open>
  \<open>P_POINTER_TO_INT\<close> keeps the low 32 bits as an \<open>int\<close>; the sum with 37 is an \<open>int\<close> too (wrapping here;
  the C standard leaves it undefined when it overflows), sign-extended to \<open>psize\<close> for the unsigned
  remainder, and the result is a \<open>puint\<close>.
\<close>

definition pp_hash_table_calc_hash :: "ppointer \<Rightarrow> 64 word \<Rightarrow> 32 word" where
  "pp_hash_table_calc_hash pointer modulus =
     ucast ((scast ((ucast pointer :: 32 word) + 37) :: 64 word) mod modulus)"

abbreviation bucket_index :: "ppointer \<Rightarrow> 64 word \<Rightarrow> nat" where
  "bucket_index key n \<equiv> unat (pp_hash_table_calc_hash key n)"

fun find_in_chain :: "ppointer \<Rightarrow> PHashTableNode list \<Rightarrow> PHashTableNode option" where
  "find_in_chain key [] = None"
| "find_in_chain key (ret # next) = (if h_key ret = key then Some ret else find_in_chain key next)"

definition pp_hash_table_find_node :: "PHashTable \<Rightarrow> ppointer \<Rightarrow> PHashTableNode option" where
  "pp_hash_table_find_node t key = find_in_chain key (table t ! bucket_index key (size t))"

definition P_HASH_TABLE_SIZE :: nat where
  "P_HASH_TABLE_SIZE = 101"

text \<open>\<open>m1\<close>, \<open>m2\<close>: whether the two allocations succeed.\<close>

definition p_hash_table_new :: "bool \<Rightarrow> bool \<Rightarrow> PHashTable option" where
  "p_hash_table_new m1 m2 =
     (if \<not> m1 then None
      else if \<not> m2 then None
      else Some \<lparr>table = replicate P_HASH_TABLE_SIZE [], size = of_nat P_HASH_TABLE_SIZE\<rparr>)"

text \<open>\<open>node->value = value\<close> for the node that \<open>pp_hash_table_find_node\<close> found.\<close>

fun set_value :: "ppointer \<Rightarrow> ppointer \<Rightarrow> PHashTableNode list \<Rightarrow> PHashTableNode list" where
  "set_value key v [] = []"
| "set_value key v (node # next) =
     (if h_key node = key then node\<lparr>h_value := v\<rparr> # next else node # set_value key v next)"

definition p_hash_table_insert :: "PHashTable option \<Rightarrow> ppointer \<Rightarrow> ppointer \<Rightarrow> bool \<Rightarrow> PHashTable option" where
  "p_hash_table_insert tab key v mem =
     (case tab of
        None \<Rightarrow> None
      | Some t \<Rightarrow>
          (let hash = bucket_index key (size t)
           in case pp_hash_table_find_node t key of
                None \<Rightarrow>
                  (if \<not> mem then Some t
                   else Some (t\<lparr>table := (table t)[hash := \<lparr>h_key = key, h_value = v\<rparr> # table t ! hash]\<rparr>))
              | Some node \<Rightarrow>
                  Some (t\<lparr>table := (table t)[hash := set_value key v (table t ! hash)]\<rparr>)))"

definition p_hash_table_lookup :: "PHashTable option \<Rightarrow> ppointer \<Rightarrow> ppointer" where
  "p_hash_table_lookup tab key =
     (case tab of
        None \<Rightarrow> 0
      | Some t \<Rightarrow> (case pp_hash_table_find_node t key of None \<Rightarrow> - 1 | Some node \<Rightarrow> h_value node))"

text \<open>The inner and outer loop of the collecting functions; \<open>ms\<close> are the addresses the allocations return.\<close>

fun collect_chain :: "(PHashTableNode \<Rightarrow> bool) \<Rightarrow> (PHashTableNode \<Rightarrow> ppointer) \<Rightarrow> PHashTableNode list \<Rightarrow>
    ppointer list_heap \<Rightarrow> nat \<Rightarrow> nat list \<Rightarrow> (ppointer list_heap \<times> nat \<times> nat list) option" where
  "collect_chain P sel [] h ret ms = Some (h, ret, ms)"
| "collect_chain P sel (node # next) h ret ms =
     (if P node then
        (case p_list_append h ret (sel node) (case ms of [] \<Rightarrow> 0 | m # _ \<Rightarrow> m) of
           None \<Rightarrow> None
         | Some (h', ret') \<Rightarrow> collect_chain P sel next h' ret' (tl ms))
      else collect_chain P sel next h ret ms)"

fun collect_buckets :: "(PHashTableNode \<Rightarrow> bool) \<Rightarrow> (PHashTableNode \<Rightarrow> ppointer) \<Rightarrow> PHashTableNode list list \<Rightarrow>
    ppointer list_heap \<Rightarrow> nat \<Rightarrow> nat list \<Rightarrow> (ppointer list_heap \<times> nat \<times> nat list) option" where
  "collect_buckets P sel [] h ret ms = Some (h, ret, ms)"
| "collect_buckets P sel (b # bs) h ret ms =
     (case collect_chain P sel b h ret ms of
        None \<Rightarrow> None
      | Some (h', ret', ms') \<Rightarrow> collect_buckets P sel bs h' ret' ms')"

definition p_hash_table_keys ::
  "PHashTable option \<Rightarrow> ppointer list_heap \<Rightarrow> nat list \<Rightarrow> (ppointer list_heap \<times> nat) option" where
  "p_hash_table_keys tab h ms =
     (case tab of
        None \<Rightarrow> Some (h, 0)
      | Some t \<Rightarrow> map_option (\<lambda>(h', ret, _). (h', ret))
          (collect_buckets (\<lambda>_. True) h_key (take (unat (size t)) (table t)) h 0 ms))"

definition p_hash_table_values ::
  "PHashTable option \<Rightarrow> ppointer list_heap \<Rightarrow> nat list \<Rightarrow> (ppointer list_heap \<times> nat) option" where
  "p_hash_table_values tab h ms =
     (case tab of
        None \<Rightarrow> Some (h, 0)
      | Some t \<Rightarrow> map_option (\<lambda>(h', ret, _). (h', ret))
          (collect_buckets (\<lambda>_. True) h_value (take (unat (size t)) (table t)) h 0 ms))"

text \<open>The nodes, the table and the object that \<open>p_hash_table_free\<close> releases, in order.\<close>

datatype freed = FreeNode PHashTableNode | FreeTable | FreeObject

definition p_hash_table_free :: "PHashTable option \<Rightarrow> freed list" where
  "p_hash_table_free tab =
     (case tab of
        None \<Rightarrow> []
      | Some t \<Rightarrow> map FreeNode (concat (take (unat (size t)) (table t))) @ [FreeTable, FreeObject])"

fun unlink :: "ppointer \<Rightarrow> PHashTableNode list \<Rightarrow> PHashTableNode list" where
  "unlink key [] = []"
| "unlink key (node # next) = (if h_key node = key then next else node # unlink key next)"

definition p_hash_table_remove :: "PHashTable option \<Rightarrow> ppointer \<Rightarrow> PHashTable option" where
  "p_hash_table_remove tab key =
     (case tab of
        None \<Rightarrow> None
      | Some t \<Rightarrow>
          (case pp_hash_table_find_node t key of
             None \<Rightarrow> Some t
           | Some _ \<Rightarrow>
               (let hash = bucket_index key (size t)
                in Some (t\<lparr>table := (table t)[hash := unlink key (table t ! hash)]\<rparr>))))"

definition p_hash_table_lookup_by_value ::
  "PHashTable option \<Rightarrow> ppointer \<Rightarrow> (ppointer \<Rightarrow> ppointer \<Rightarrow> int) option \<Rightarrow>
   ppointer list_heap \<Rightarrow> nat list \<Rightarrow> (ppointer list_heap \<times> nat) option" where
  "p_hash_table_lookup_by_value tab val func h ms =
     (case tab of
        None \<Rightarrow> Some (h, 0)
      | Some t \<Rightarrow> map_option (\<lambda>(h', ret, _). (h', ret))
          (collect_buckets
             (\<lambda>node. case func of None \<Rightarrow> h_value node = val | Some f \<Rightarrow> f (h_value node) val = 0)
             h_key (take (unat (size t)) (table t)) h 0 ms))"

section \<open>Buckets selected by a hash\<close>

text \<open>
  The laws of chained buckets depend on the hash only through its range: \<open>hash\<close> is any function below
  \<open>n\<close>.  In a well-placed table each node is in the bucket of its key and no key occurs twice.
\<close>

locale buckets =
  fixes hash :: "ppointer \<Rightarrow> nat" and n :: nat
  assumes hash_less: "hash k < n"

definition well_placed :: "(ppointer \<Rightarrow> nat) \<Rightarrow> nat \<Rightarrow> PHashTableNode list list \<Rightarrow> bool" where
  "well_placed hash n bs \<longleftrightarrow> length bs = n \<and>
     (\<forall>i < n. distinct (map h_key (bs ! i)) \<and> (\<forall>x \<in> set (bs ! i). hash (h_key x) = i))"

definition find_value :: "(ppointer \<Rightarrow> nat) \<Rightarrow> PHashTableNode list list \<Rightarrow> ppointer \<rightharpoonup> ppointer" where
  "find_value hash bs = (\<lambda>k. map_option h_value (find_in_chain k (bs ! hash k)))"

lemma find_in_chain_None: "find_in_chain k xs = None \<longleftrightarrow> k \<notin> h_key ` set xs"
  by (induction xs) auto

lemma find_in_chain_Some: "find_in_chain k xs = Some x \<Longrightarrow> x \<in> set xs \<and> h_key x = k"
  by (induction xs) (auto split: if_splits)

lemma find_set_value:
  "find_in_chain k (set_value k' v xs) =
     (if k = k' then map_option (\<lambda>x. x\<lparr>h_value := v\<rparr>) (find_in_chain k xs) else find_in_chain k xs)"
  by (induction xs) auto

lemma keys_set_value: "map h_key (set_value k v xs) = map h_key xs"
  by (induction xs) auto

lemma set_value_keys: "x \<in> set (set_value k v xs) \<Longrightarrow> \<exists>y \<in> set xs. h_key y = h_key x"
  by (induction xs) (auto split: if_splits)

lemma keys_unlink: "map h_key (unlink k xs) = remove1 k (map h_key xs)"
  by (induction xs) auto

lemma set_unlink: "set (unlink k xs) \<subseteq> set xs"
  by (induction xs) auto

lemma find_unlink:
  "distinct (map h_key xs) \<Longrightarrow>
   find_in_chain k (unlink k' xs) = (if k = k' then None else find_in_chain k xs)"
  by (induction xs) (auto simp: find_in_chain_None)

lemma find_in_chain_distinct:
  "distinct (map h_key xs) \<Longrightarrow> x \<in> set xs \<Longrightarrow> find_in_chain (h_key x) xs = Some x"
  by (induction xs) (auto simp: rev_image_eqI)

context buckets
begin

lemma empty_placed: "well_placed hash n (replicate n [])"
  by (simp add: well_placed_def)

lemma set_bucket:
  assumes "well_placed hash n bs" "distinct (map h_key c)" "\<And>x. x \<in> set c \<Longrightarrow> hash (h_key x) = hash k"
  shows "well_placed hash n (bs[hash k := c])"
  using assms hash_less[of k] by (auto simp: well_placed_def nth_list_update)

lemma bucket_facts:
  assumes "well_placed hash n bs"
  shows "distinct (map h_key (bs ! hash k))" "\<And>x. x \<in> set (bs ! hash k) \<Longrightarrow> hash (h_key x) = hash k"
  using assms hash_less[of k] by (auto simp: well_placed_def)

lemma find_value_update:
  assumes "well_placed hash n bs"
    and "\<And>k'. find_in_chain k' c = (if k' = k then r else find_in_chain k' (bs ! hash k))"
  shows "find_value hash (bs[hash k := c]) = (find_value hash bs)(k := map_option h_value r)"
proof
  fix k'
  have "hash k < length bs" using hash_less assms(1) by (simp add: well_placed_def)
  then show "find_value hash (bs[hash k := c]) k' = ((find_value hash bs)(k := map_option h_value r)) k'"
    using assms(2)[of k'] by (auto simp: find_value_def nth_list_update)
qed

lemma all_keys:
  assumes "well_placed hash n bs"
  shows "distinct (map h_key (concat bs))"
    and "(\<exists>x \<in> set (concat bs). h_key x = k \<and> h_value x = v) \<longleftrightarrow> find_value hash bs k = Some v"
proof -
  have 1: "m \<le> n \<Longrightarrow> distinct (map h_key (concat (take m bs)))" for m
  proof (induction m)
    case (Suc m)
    have m: "m < length bs" using Suc.prems assms by (simp add: well_placed_def)
    have "h_key x \<noteq> h_key y" if xy: "x \<in> set (bs ! m)" "y \<in> set (concat (take m bs))" for x y
    proof -
      obtain i where "i < m" "y \<in> set (bs ! i)" using xy(2) m
        by (auto simp: in_set_conv_nth[of _ "take m bs"])
      then have "hash (h_key y) = i" "hash (h_key x) = m" using xy(1) m assms Suc.prems by (auto simp: well_placed_def)
      then show ?thesis using \<open>i < m\<close> by auto
    qed
    then show ?case using Suc m assms by (fastforce simp: take_Suc_conv_app_nth well_placed_def)
  qed simp
  show "distinct (map h_key (concat bs))" using 1[of n] assms by (simp add: well_placed_def)
  show "(\<exists>x \<in> set (concat bs). h_key x = k \<and> h_value x = v) \<longleftrightarrow> find_value hash bs k = Some v" (is "?L \<longleftrightarrow> ?R")
  proof
    assume ?L
    then obtain i x where i: "i < length bs" "x \<in> set (bs ! i)" "h_key x = k" "h_value x = v"
      by (auto simp: in_set_conv_nth) (metis in_set_conv_nth)
    then have "hash k = i" "distinct (map h_key (bs ! i))" using assms by (auto simp: well_placed_def)
    then show ?R using i find_in_chain_distinct by (auto simp: find_value_def)
  next
    assume ?R
    then obtain x where "find_in_chain k (bs ! hash k) = Some x" "h_value x = v" by (auto simp: find_value_def)
    moreover from this have "x \<in> set (bs ! hash k)" "h_key x = k" using find_in_chain_Some by blast+
    moreover have "bs ! hash k \<in> set bs" using hash_less[of k] assms by (simp add: well_placed_def)
    ultimately show ?L by auto
  qed
qed

end

lemma calc_hash_less: "n \<noteq> 0 \<Longrightarrow> n \<le> 2 ^ 32 \<Longrightarrow> bucket_index key n < unat n"
proof -
  assume n: "n \<noteq> 0" "n \<le> 2 ^ 32"
  let ?x = "(scast ((ucast key :: 32 word) + 37) :: 64 word)"
  have "unat (?x mod n) < unat n" using n by (simp add: unat_mod unat_gt_0)
  moreover have "unat n \<le> 2 ^ 32" using n(2) by (simp add: word_le_nat_alt)
  ultimately show ?thesis
    by (simp add: pp_hash_table_calc_hash_def unsigned_ucast_eq take_bit_nat_eq_self)
qed

interpretation hash101: buckets "\<lambda>k. bucket_index k (of_nat P_HASH_TABLE_SIZE)" P_HASH_TABLE_SIZE
  by unfold_locales (use calc_hash_less[of 101] in \<open>simp add: P_HASH_TABLE_SIZE_def\<close>)

section \<open>The table as a map\<close>

definition table_ok :: "PHashTable \<Rightarrow> bool" where
  "table_ok t \<longleftrightarrow> size t = of_nat P_HASH_TABLE_SIZE \<and>
     well_placed (\<lambda>k. bucket_index k (of_nat P_HASH_TABLE_SIZE)) P_HASH_TABLE_SIZE (table t)"

definition contents :: "PHashTable \<Rightarrow> ppointer \<rightharpoonup> ppointer" where
  "contents t = find_value (\<lambda>k. bucket_index k (size t)) (table t)"

definition all_nodes :: "PHashTable \<Rightarrow> PHashTableNode list" where
  "all_nodes t = concat (table t)"

lemma contents_find: "contents t k = map_option h_value (pp_hash_table_find_node t k)"
  by (simp add: contents_def find_value_def pp_hash_table_find_node_def)

lemma table_new_ok: "p_hash_table_new m1 m2 = Some t \<Longrightarrow> table_ok t \<and> contents t = Map.empty"
  by (auto simp: p_hash_table_new_def table_ok_def contents_def find_value_def hash101.empty_placed fun_eq_iff
      split: if_splits) (use hash101.hash_less in simp)

lemma insert_ok:
  assumes "table_ok t"
  shows "\<exists>t'. p_hash_table_insert (Some t) k v mem = Some t' \<and> table_ok t' \<and>
    contents t' = (if \<not> mem \<and> contents t k = None then contents t else (contents t)(k \<mapsto> v))"
proof -
  let ?hash = "\<lambda>k. bucket_index k (of_nat P_HASH_TABLE_SIZE)"
  let ?c = "table t ! ?hash k"
  have sz: "size t = of_nat P_HASH_TABLE_SIZE" and wp: "well_placed ?hash P_HASH_TABLE_SIZE (table t)"
    using assms by (simp_all add: table_ok_def)
  note b = hash101.bucket_facts[OF wp, where k = k]
  show ?thesis
  proof (cases "find_in_chain k ?c")
    case None
    let ?n = "\<lparr>h_key = k, h_value = v\<rparr> # ?c"
    have "well_placed ?hash P_HASH_TABLE_SIZE ((table t)[?hash k := ?n])"
      using b None by (intro hash101.set_bucket[OF wp]) (auto simp: find_in_chain_None)
    moreover have "find_value ?hash ((table t)[?hash k := ?n]) = (find_value ?hash (table t))(k \<mapsto> v)"
      using hash101.find_value_update[OF wp, of ?n k "Some \<lparr>h_key = k, h_value = v\<rparr>"] by simp
    moreover have "contents t k = None" "pp_hash_table_find_node t k = None"
      using None by (simp_all add: contents_find pp_hash_table_find_node_def sz)
    ultimately show ?thesis using assms
      by (auto simp: p_hash_table_insert_def Let_def sz table_ok_def contents_def)
  next
    case (Some x)
    let ?n = "set_value k v ?c"
    have "distinct (map h_key ?n)" using b(1) by (simp add: keys_set_value)
    moreover have "?hash (h_key y) = ?hash k" if "y \<in> set ?n" for y
      using set_value_keys[OF that] b(2) by force
    ultimately have "well_placed ?hash P_HASH_TABLE_SIZE ((table t)[?hash k := ?n])"
      by (intro hash101.set_bucket[OF wp]) auto
    moreover have "find_value ?hash ((table t)[?hash k := ?n]) = (find_value ?hash (table t))(k \<mapsto> v)"
      using hash101.find_value_update[OF wp, of ?n k "Some (x\<lparr>h_value := v\<rparr>)"] Some
      by (simp add: find_set_value)
    moreover have "contents t k \<noteq> None" "pp_hash_table_find_node t k = Some x"
      using Some by (simp_all add: contents_find pp_hash_table_find_node_def sz)
    ultimately show ?thesis
      by (auto simp: p_hash_table_insert_def Let_def sz table_ok_def contents_def)
  qed
qed

lemma remove_ok:
  assumes "table_ok t"
  shows "\<exists>t'. p_hash_table_remove (Some t) k = Some t' \<and> table_ok t' \<and> contents t' = (contents t)(k := None)"
proof -
  let ?hash = "\<lambda>k. bucket_index k (of_nat P_HASH_TABLE_SIZE)"
  let ?c = "table t ! ?hash k"
  have sz: "size t = of_nat P_HASH_TABLE_SIZE" and wp: "well_placed ?hash P_HASH_TABLE_SIZE (table t)"
    using assms by (simp_all add: table_ok_def)
  note b = hash101.bucket_facts[OF wp, where k = k]
  show ?thesis
  proof (cases "find_in_chain k ?c")
    case None
    then show ?thesis using assms
      by (auto simp: p_hash_table_remove_def pp_hash_table_find_node_def sz contents_find)
  next
    case (Some x)
    let ?n = "unlink k ?c"
    have "distinct (map h_key ?n)" using b(1) by (simp add: keys_unlink)
    then have "well_placed ?hash P_HASH_TABLE_SIZE ((table t)[?hash k := ?n])"
      using b(2) set_unlink[of k ?c] by (intro hash101.set_bucket[OF wp]) auto
    moreover have "find_value ?hash ((table t)[?hash k := ?n]) = (find_value ?hash (table t))(k := None)"
      using hash101.find_value_update[OF wp, of ?n k None] b(1) by (simp add: find_unlink)
    ultimately show ?thesis using Some
      by (auto simp: p_hash_table_remove_def Let_def sz table_ok_def contents_def pp_hash_table_find_node_def)
  qed
qed

lemma lookup_ok:
  "p_hash_table_lookup (Some t) k = (case contents t k of None \<Rightarrow> - 1 | Some v \<Rightarrow> v)"
  by (simp add: p_hash_table_lookup_def contents_find split: option.splits)

lemma all_nodes_ok:
  assumes "table_ok t"
  shows "distinct (map h_key (all_nodes t))"
    and "(\<exists>x \<in> set (all_nodes t). h_key x = k \<and> h_value x = v) \<longleftrightarrow> contents t k = Some v"
    and "take (unat (size t)) (table t) = table t"
proof -
  note wp = assms[unfolded table_ok_def, THEN conjunct2]
  show "distinct (map h_key (all_nodes t))" unfolding all_nodes_def by (rule hash101.all_keys(1)[OF wp])
  show "(\<exists>x \<in> set (all_nodes t). h_key x = k \<and> h_value x = v) \<longleftrightarrow> contents t k = Some v"
    unfolding all_nodes_def contents_def using hash101.all_keys(2)[OF wp] assms by (simp add: table_ok_def)
  show "take (unat (size t)) (table t) = table t"
    using assms by (simp add: table_ok_def well_placed_def P_HASH_TABLE_SIZE_def)
qed

section \<open>Collected lists\<close>

lemma collect_chain_append_all:
  "length (filter P xs) \<le> length ms \<Longrightarrow> collect_chain P sel xs h ret ms =
     map_option (\<lambda>(h', ret'). (h', ret', drop (length (filter P xs)) ms))
       (append_all p_list_append (zip ms (map sel (filter P xs))) h ret)"
proof (induction xs arbitrary: h ret ms)
  case (Cons x xs)
  show ?case
  proof (cases "P x")
    case True
    then obtain m ms' where ms: "ms = m # ms'" using Cons.prems by (cases ms) auto
    then show ?thesis using Cons True by (auto split: option.splits)
  next
    case False
    then show ?thesis using Cons by simp
  qed
qed simp

lemma append_all_append:
  "append_all app (xs @ ys) h a = (case append_all app xs h a of None \<Rightarrow> None | Some (h', a') \<Rightarrow> append_all app ys h' a')"
  by (induction xs arbitrary: h a) (auto split: option.splits)

lemma collect_buckets_append_all:
  "length (filter P (concat bs)) \<le> length ms \<Longrightarrow> collect_buckets P sel bs h ret ms =
     map_option (\<lambda>(h', ret'). (h', ret', drop (length (filter P (concat bs))) ms))
       (append_all p_list_append (zip ms (map sel (filter P (concat bs)))) h ret)"
proof (induction bs arbitrary: h ret ms)
  case (Cons b bs)
  let ?n = "length (filter P b)"
  have 1: "zip ms (map sel (filter P (concat (b # bs)))) =
      zip ms (map sel (filter P b)) @ zip (drop ?n ms) (map sel (filter P (concat bs)))"
    by (simp add: zip_append_right)
  have "length (filter P (concat bs)) \<le> length (drop ?n ms)" using Cons.prems by simp
  note 2 = Cons.IH[OF this]
  show ?case using Cons.prems unfolding 1
    by (auto simp: collect_chain_append_all append_all_append 2 option.map_comp comp_def add.commute
        split: option.splits)
qed simp

lemma collect_ok:
  assumes "length (filter P (concat bs)) \<le> length ms" "distinct ms" "\<And>m. m \<in> set ms \<Longrightarrow> m \<noteq> 0 \<and> h m = None"
  shows "\<exists>h' a xs. map_option (\<lambda>(h', ret, _). (h', ret)) (collect_buckets P sel bs h 0 ms) = Some (h', a) \<and>
    list_at h' a xs \<and> map snd xs = map sel (filter P (concat bs)) \<and> keeps_others h h' (set ms)"
proof -
  let ?ds = "zip ms (map sel (filter P (concat bs)))"
  have "list_at h 0 []" by (simp add: list_at_Nil)
  moreover have "distinct (map fst ?ds)" using assms(2) by (simp add: map_fst_zip_take)
  moreover have "m \<in> cells ?ds \<Longrightarrow> m \<noteq> 0 \<and> h m = None" for m
    using assms(3) by (auto dest: set_zip_leftD)
  ultimately obtain h' a where "append_all p_list_append ?ds h 0 = Some (h', a)" "list_at h' a ?ds"
    "keeps_others h h' (cells ?ds)"
    using list_append.append_all_ok[of h 0 "[]" ?ds] by auto
  moreover have "map snd ?ds = map sel (filter P (concat bs))" using assms(1) by (simp add: map_snd_zip_take)
  moreover have "cells ?ds \<subseteq> set ms" by (auto dest: set_zip_leftD)
  ultimately show ?thesis using collect_buckets_append_all[OF assms(1), of sel h 0] by (auto simp: keeps_others_def)
qed

end
