(* ===== verification/PContainerProps.thy ===== *)
theory PContainerProps
  imports PHashTable
begin

text \<open>
  The properties of the list and of the hash table: whole programs over the two modules, against HOL
  lists and HOL maps.
\<close>

section \<open>Sequences of list operations\<close>

text \<open>An operation that allocates carries the address \<open>p_malloc0\<close> returns, 0 for a failure.\<close>

datatype 'a list_op = LAppend 'a nat | LPrepend 'a nat | LRemove 'a | LReverse

fun run_list_op :: "'a list_op \<Rightarrow> 'a list_heap \<times> nat \<Rightarrow> ('a list_heap \<times> nat) option" where
  "run_list_op (LAppend d m) (h, a) = p_list_append h a d m"
| "run_list_op (LPrepend d m) (h, a) = Some (p_list_prepend h a d m)"
| "run_list_op (LRemove d) (h, a) = p_list_remove h a d"
| "run_list_op LReverse (h, a) = p_list_reverse h a"

fun run_list :: "'a list_op list \<Rightarrow> 'a list_heap \<times> nat \<Rightarrow> ('a list_heap \<times> nat) option" where
  "run_list [] s = Some s"
| "run_list (op # ops) s = (case run_list_op op s of None \<Rightarrow> None | Some s' \<Rightarrow> run_list ops s')"

fun spec_list_op :: "'a list_op \<Rightarrow> 'a list \<Rightarrow> 'a list" where
  "spec_list_op (LAppend d m) xs = (if m = 0 then xs else xs @ [d])"
| "spec_list_op (LPrepend d m) xs = (if m = 0 then xs else d # xs)"
| "spec_list_op (LRemove d) xs = remove1 d xs"
| "spec_list_op LReverse xs = rev xs"

fun op_addr :: "'a list_op \<Rightarrow> nat" where
  "op_addr (LAppend d m) = m"
| "op_addr (LPrepend d m) = m"
| "op_addr _ = 0"

definition allocated :: "'a list_op list \<Rightarrow> nat list" where
  "allocated ops = filter (\<lambda>m. m \<noteq> 0) (map op_addr ops)"

lemma drop_cell_cells: "cells (drop_cell d xs) \<subseteq> cells xs" "distinct (map fst xs) \<Longrightarrow> distinct (map fst (drop_cell d xs))"
  by (induction xs) auto

lemma keeps_others_mono: "keeps_others h h' A \<Longrightarrow> A \<subseteq> B \<Longrightarrow> keeps_others h h' B"
  by (auto simp: keeps_others_def)

lemma keeps_others_trans:
  "keeps_others h h' A \<Longrightarrow> keeps_others h' h'' A \<Longrightarrow> keeps_others h h'' A"
  by (auto simp: keeps_others_def)

lemma run_list_op_ok:
  assumes "list_at h a xs" "op_addr op \<noteq> 0 \<Longrightarrow> h (op_addr op) = None"
  shows "\<exists>h' a' ys. run_list_op op (h, a) = Some (h', a') \<and> list_at h' a' ys \<and>
    map snd ys = spec_list_op op (map snd xs) \<and> cells ys \<subseteq> (cells xs \<union> {op_addr op}) \<and>
    keeps_others h h' (cells xs \<union> {op_addr op})"
proof (cases op)
  case (LAppend d m)
  show ?thesis
  proof (cases "m = 0")
    case True
    then show ?thesis using assms by (auto simp: LAppend p_list_append_def keeps_others_def)
  next
    case False
    with assms(2) have "h m = None" by (simp add: LAppend)
    from append_spec[OF assms(1) False this, of d] obtain h' a' where
      "p_list_append h a d m = Some (h', a')" "list_at h' a' (xs @ [(m, d)])"
      "keeps_others h h' (insert m (cells xs))" by blast
    then show ?thesis using False by (intro exI[of _ h'] exI[of _ a'] exI[of _ "xs @ [(m, d)]"]) (auto simp: LAppend)
  qed
next
  case (LPrepend d m)
  show ?thesis
  proof (cases "m = 0")
    case True
    then show ?thesis using assms by (auto simp: LPrepend p_list_prepend_def keeps_others_def)
  next
    case False
    with assms(2) have "h m = None" by (simp add: LPrepend)
    from prepend_spec[OF assms(1) False this, of d] obtain h' a' where
      "p_list_prepend h a d m = (h', a')" "list_at h' a' ((m, d) # xs)" "keeps_others h h' {m}" by blast
    then show ?thesis using False
      by (intro exI[of _ h'] exI[of _ a'] exI[of _ "(m, d) # xs"]) (auto simp: LPrepend keeps_others_def)
  qed
next
  case (LRemove d)
  then show ?thesis using remove_spec[OF assms(1), of d] drop_cell_cells(1)[of d xs] drop_cell_data[of d xs]
    by (fastforce simp: keeps_others_def)
next
  case LReverse
  then show ?thesis using reverse_spec[OF assms(1)]
    by (fastforce simp: keeps_others_def rev_map)
qed

lemma run_list_ok:
  assumes "list_at h a xs" "distinct (allocated ops)" "\<And>m. m \<in> set (allocated ops) \<Longrightarrow> h m = None"
  shows "\<exists>h' a' ys. run_list ops (h, a) = Some (h', a') \<and> list_at h' a' ys \<and>
    map snd ys = fold spec_list_op ops (map snd xs) \<and>
    keeps_others h h' (cells xs \<union> insert 0 (set (allocated ops)))"
  using assms
proof (induction ops arbitrary: h a xs)
  case Nil
  then show ?case by (auto simp: keeps_others_def)
next
  case (Cons op ops)
  let ?A = "cells xs \<union> {op_addr op}"
  have "op_addr op \<noteq> 0 \<Longrightarrow> h (op_addr op) = None" using Cons.prems(3) by (simp add: allocated_def)
  from run_list_op_ok[OF Cons.prems(1) this] obtain h1 a1 zs where
    1: "run_list_op op (h, a) = Some (h1, a1)" "list_at h1 a1 zs" "map snd zs = spec_list_op op (map snd xs)"
      "cells zs \<subseteq> ?A" "keeps_others h h1 ?A" by blast
  have al: "distinct (allocated ops)" "set (allocated ops) \<subseteq> set (allocated (op # ops))"
    using Cons.prems(2) by (auto simp: allocated_def split: if_splits)
  have "h1 m = None" if m: "m \<in> set (allocated ops)" for m
  proof -
    have "m \<noteq> op_addr op" using Cons.prems(2) m by (auto simp: allocated_def split: if_splits) (metis image_eqI)
    moreover have "h m = None" using Cons.prems(3) m al(2) by blast
    moreover from this have "m \<notin> cells xs" using Cons.prems(1) chain_mapped unfolding list_at_def by blast
    ultimately show ?thesis using 1(5) by (simp add: keeps_others_def)
  qed
  from Cons.IH[OF 1(2) al(1) this] obtain h2 a2 ys where
    2: "run_list ops (h1, a1) = Some (h2, a2)" "list_at h2 a2 ys" "map snd ys = fold spec_list_op ops (map snd zs)"
      "keeps_others h1 h2 (cells zs \<union> insert 0 (set (allocated ops)))" by blast
  have sub: "?A \<subseteq> cells xs \<union> insert 0 (set (allocated (op # ops)))" by (auto simp: allocated_def)
  have "keeps_others h h2 (cells xs \<union> insert 0 (set (allocated (op # ops))))"
  proof (rule keeps_others_trans[OF keeps_others_mono[OF 1(5) sub] keeps_others_mono[OF 2(4)]])
    show "cells zs \<union> insert 0 (set (allocated ops)) \<subseteq> cells xs \<union> insert 0 (set (allocated (op # ops)))"
      using sub 1(4) al(2) by (meson Un_least Un_upper2 dual_order.trans insert_mono le_supI2)
  qed
  then show ?case using 1 2 by auto
qed

text \<open>
  C8.  A program of appends, prepends, removals and reversals on a list in the heap, with any outcome
  of the allocations (fresh addresses, or failures that leave the list as it was), runs without
  following a bad pointer and leaves a well-formed list that holds what the same operations give on
  HOL lists.  Cells that are neither in the list nor allocated on the way keep their contents.
\<close>

theorem list_programs_refine_lists:
  assumes "list_at h a xs" "distinct (allocated ops)" "\<forall>m \<in> set (allocated ops). h m = None"
  shows "\<exists>h' a' ys. run_list ops (h, a) = Some (h', a') \<and> list_at h' a' ys \<and>
    map snd ys = fold spec_list_op ops (map snd xs) \<and>
    p_list_length h' a' = Some (length ys) \<and>
    (\<forall>y. y \<noteq> 0 \<and> y \<notin> cells xs \<and> y \<notin> set (allocated ops) \<longrightarrow> h' y = h y)"
  using run_list_ok[OF assms(1,2)] assms(3) length_spec by (fastforce simp: keeps_others_def)

lemma list_programs_refine_lists_witness:
  "\<exists>h' a' ys. run_list [LAppend (7::nat) 10, LPrepend 8 11, LAppend 9 0, LAppend 7 12, LRemove 7, LReverse]
      (Map.empty, 0) = Some (h', a') \<and> list_at h' a' ys \<and> map snd ys = [7, 8]"
  using list_programs_refine_lists[of Map.empty 0 "[]"
      "[LAppend (7::nat) 10, LPrepend 8 11, LAppend 9 0, LAppend 7 12, LRemove 7, LReverse]"]
  by (fastforce simp: allocated_def list_at_Nil)

text \<open>
  \<open>p_list_free\<close> gives back exactly the cells of the list, each once (a second release of a cell
  would find it unmapped), and \<open>p_list_foreach\<close> calls its function on every element, in order.
\<close>

theorem list_free_and_foreach:
  assumes "list_at h a xs"
  shows "p_list_free h a = Some (h |` (- cells xs)) \<and>
    p_list_foreach (Some f) h a u = Some (fold f (map snd xs) u) \<and>
    p_list_last h a = Some (if xs = [] then 0 else fst (last xs))"
  using assms by (simp add: free_spec foreach_spec last_spec)

lemma list_free_and_foreach_witness:
  "p_list_free [5 \<mapsto> \<lparr>l_data = (1::nat), l_next = 6\<rparr>, 6 \<mapsto> \<lparr>l_data = 2, l_next = 0\<rparr>] 5 = Some Map.empty"
proof -
  have "list_at [5 \<mapsto> \<lparr>l_data = (1::nat), l_next = 6\<rparr>, 6 \<mapsto> \<lparr>l_data = 2, l_next = 0\<rparr>] 5 [(5, 1), (6, 2)]"
    by (simp add: list_at_def)
  from list_free_and_foreach[OF this, of "\<lambda>_ u. u" "()"] show ?thesis by simp
qed

section \<open>Sequences of hash table operations\<close>

datatype hash_op = HInsert ppointer ppointer bool | HRemove ppointer

fun run_hash_op :: "hash_op \<Rightarrow> PHashTable option \<Rightarrow> PHashTable option" where
  "run_hash_op (HInsert k v mem) t = p_hash_table_insert t k v mem"
| "run_hash_op (HRemove k) t = p_hash_table_remove t k"

text \<open>The map the operations stand for; an insertion of a new key that gets no memory changes nothing.\<close>

fun spec_hash_op :: "hash_op \<Rightarrow> (ppointer \<rightharpoonup> ppointer) \<Rightarrow> (ppointer \<rightharpoonup> ppointer)" where
  "spec_hash_op (HInsert k v mem) f = (if \<not> mem \<and> f k = None then f else f(k \<mapsto> v))"
| "spec_hash_op (HRemove k) f = f(k := None)"

lemma run_hash_ok:
  "table_ok t \<Longrightarrow> \<exists>t'. fold run_hash_op ops (Some t) = Some t' \<and> table_ok t' \<and>
     contents t' = fold spec_hash_op ops (contents t)"
proof (induction ops arbitrary: t)
  case (Cons op ops)
  have "\<exists>t1. run_hash_op op (Some t) = Some t1 \<and> table_ok t1 \<and> contents t1 = spec_hash_op op (contents t)"
    using insert_ok[OF Cons.prems] remove_ok[OF Cons.prems] by (cases op) auto
  then show ?case using Cons.IH by fastforce
qed simp

text \<open>
  C9.  The hash table is a map from pointers to pointers: after any program of insertions and removals
  on a new table (any allocation may fail), the lookup of each key gives the value the map has, and
  \<open>(ppointer) -1\<close> for a key that is not there.
\<close>

theorem hash_table_is_map:
  assumes "p_hash_table_new m1 m2 = Some t"
  shows "\<exists>t'. fold run_hash_op ops (Some t) = Some t' \<and> table_ok t' \<and>
    (\<forall>k. p_hash_table_lookup (Some t') k =
      (case fold spec_hash_op ops Map.empty k of None \<Rightarrow> - 1 | Some v \<Rightarrow> v))"
  using run_hash_ok[of t ops] table_new_ok[OF assms] by (auto simp: lookup_ok)

lemma hash_table_is_map_witness:
  "\<exists>t t'. p_hash_table_new True True = Some t \<and>
     fold run_hash_op [HInsert 1 10 True, HInsert 102 20 True, HInsert 1 11 False, HRemove 102] (Some t) = Some t' \<and>
     p_hash_table_lookup (Some t') 1 = 11 \<and> p_hash_table_lookup (Some t') 102 = - 1"
proof -
  obtain t where t: "p_hash_table_new True True = Some t" by (simp add: p_hash_table_new_def)
  from hash_table_is_map[OF t, of "[HInsert 1 10 True, HInsert 102 20 True, HInsert 1 11 False, HRemove 102]"] t
  show ?thesis by fastforce
qed

lemma spec_hash_dom:
  "finite (dom f) \<Longrightarrow> finite (dom (fold spec_hash_op ops f)) \<and>
    card (dom (fold spec_hash_op ops f)) \<le> card (dom f) + length ops"
proof (induction ops arbitrary: f)
  case (Cons op ops)
  have "finite (dom (spec_hash_op op f)) \<and> card (dom (spec_hash_op op f)) \<le> Suc (card (dom f))"
    using Cons.prems by (cases op) (auto simp: card_insert_if intro: le_SucI card_Diff1_le)
  then show ?case using Cons.IH[of "spec_hash_op op f"] by fastforce
qed simp

text \<open>
  The three functions that return lists, for a table with contents \<open>f\<close>: the lists of the keys, each once, of their
  values in the same order and of the keys whose value the comparison accepts; the heap changes only where the
  allocations are.
\<close>

definition lists_contents :: "PHashTable \<Rightarrow> (ppointer \<rightharpoonup> ppointer) \<Rightarrow> ppointer \<Rightarrow>
    (ppointer \<Rightarrow> ppointer \<Rightarrow> int) option \<Rightarrow> ppointer list_heap \<Rightarrow> nat list \<Rightarrow> bool" where
  "lists_contents t f val func h ms \<longleftrightarrow> (\<exists>h1 a1 ks h2 a2 vs h3 a3 ls.
    p_hash_table_keys (Some t) h ms = Some (h1, a1) \<and> list_at h1 a1 ks \<and> keeps_others h h1 (set ms) \<and>
    distinct (map snd ks) \<and> set (map snd ks) = dom f \<and>
    p_hash_table_values (Some t) h ms = Some (h2, a2) \<and> list_at h2 a2 vs \<and> keeps_others h h2 (set ms) \<and>
    map snd vs = map (the \<circ> f) (map snd ks) \<and>
    p_hash_table_lookup_by_value (Some t) val func h ms = Some (h3, a3) \<and> list_at h3 a3 ls \<and>
    keeps_others h h3 (set ms) \<and>
    map snd ls = filter (\<lambda>k. case func of None \<Rightarrow> f k = Some val | Some g \<Rightarrow> g (the (f k)) val = 0) (map snd ks))"

lemma table_lists:
  assumes "table_ok t" "card (dom (contents t)) \<le> length ms" "distinct ms" "\<forall>m \<in> set ms. m \<noteq> 0 \<and> h m = None"
  shows "lists_contents t (contents t) val func h ms"
proof -
  note nodes = all_nodes_ok[OF assms(1)]
  have ms: "m \<in> set ms \<Longrightarrow> m \<noteq> 0 \<and> h m = None" for m using assms(4) by blast
  let ?P = "\<lambda>node. case func of None \<Rightarrow> h_value node = val | Some f \<Rightarrow> f (h_value node) val = 0"
  have val: "contents t (h_key x) = Some (h_value x)" if "x \<in> set (all_nodes t)" for x
    using nodes(2) that by blast
  have nodes_dom: "set (map h_key (all_nodes t)) = dom (contents t)"
  proof (rule set_eqI)
    fix k
    show "k \<in> set (map h_key (all_nodes t)) \<longleftrightarrow> k \<in> dom (contents t)"
      unfolding domIff not_None_eq using nodes(2)[of k] by (metis image_iff list.set_map)
  qed
  have "length (all_nodes t) \<le> length ms"
    using assms(2) distinct_card[OF nodes(1)] nodes_dom by simp
  then have len: "length (filter Q (concat (table t))) \<le> length ms" for Q
    using le_trans[OF length_filter_le] unfolding all_nodes_def by blast
  have "map h_value (all_nodes t) = map (the \<circ> contents t) (map h_key (all_nodes t))"
    using val by simp
  moreover have "map h_key (filter ?P (all_nodes t)) =
     filter (\<lambda>k. case func of None \<Rightarrow> contents t k = Some val | Some f \<Rightarrow> f (the (contents t k)) val = 0)
       (map h_key (all_nodes t))"
    using val by (auto simp: filter_map comp_def intro!: arg_cong[where f = "map h_key"] filter_cong split: option.splits)
  moreover obtain h1 a1 ks where "p_hash_table_keys (Some t) h ms = Some (h1, a1)" "list_at h1 a1 ks"
    "map snd ks = map h_key (all_nodes t)" "keeps_others h h1 (set ms)"
    using collect_ok[OF len[of "\<lambda>_. True"] assms(3) ms, of h_key]
    by (auto simp: p_hash_table_keys_def nodes(3) all_nodes_def)
  moreover obtain h2 a2 vs where "p_hash_table_values (Some t) h ms = Some (h2, a2)" "list_at h2 a2 vs"
    "map snd vs = map h_value (all_nodes t)" "keeps_others h h2 (set ms)"
    using collect_ok[OF len[of "\<lambda>_. True"] assms(3) ms, of h_value]
    by (auto simp: p_hash_table_values_def nodes(3) all_nodes_def)
  moreover obtain h3 a3 ls where "p_hash_table_lookup_by_value (Some t) val func h ms = Some (h3, a3)" "list_at h3 a3 ls"
    "map snd ls = map h_key (filter ?P (all_nodes t))" "keeps_others h h3 (set ms)"
    using collect_ok[OF len[of ?P] assms(3) ms, of h_key]
    by (auto simp: p_hash_table_lookup_by_value_def nodes(3) all_nodes_def)
  ultimately show ?thesis unfolding lists_contents_def
    by (intro exI[of _ h1] exI[of _ a1] exI[of _ ks] exI[of _ h2] exI[of _ a2] exI[of _ vs] exI[of _ h3]
        exI[of _ a3] exI[of _ ls]) (simp only: nodes(1) nodes_dom simp_thms)
qed

text \<open>
  C23.  After any program of insertions and removals on a new table (any allocation of a node may fail), with memory
  for the lists, \<open>p_hash_table_keys\<close> lists each key the program leaves exactly once, \<open>p_hash_table_values\<close> the
  value of each of those keys at the same position, and \<open>p_hash_table_lookup_by_value\<close> exactly the keys whose value
  the comparison accepts; no other cell of the heap changes.
\<close>

theorem hash_table_lists:
  assumes "p_hash_table_new m1 m2 = Some t" "fold run_hash_op ops (Some t) = Some t'"
    and "length ops \<le> length ms" "distinct ms" "\<forall>m \<in> set ms. m \<noteq> 0 \<and> h m = None"
  shows "lists_contents t' (fold spec_hash_op ops Map.empty) val func h ms"
proof -
  have "table_ok t'" "contents t' = fold spec_hash_op ops Map.empty"
    using run_hash_ok[of t ops] table_new_ok[OF assms(1)] assms(2) by auto
  moreover have "card (dom (fold spec_hash_op ops Map.empty)) \<le> length ms"
    using spec_hash_dom[of Map.empty ops] assms(3) by simp
  ultimately show ?thesis using table_lists[of t' ms h val func] assms(4,5) by simp
qed

theorem hash_table_lists_witness:
  "\<exists>t t' h a ks. p_hash_table_new True True = Some t \<and>
     fold run_hash_op [HInsert 5 6 True, HInsert 106 7 True, HRemove 5] (Some t) = Some t' \<and>
     p_hash_table_keys (Some t') Map.empty [1, 2, 3] = Some (h, a) \<and> list_at h a ks \<and> set (map snd ks) = {106}"
proof -
  obtain t where t: "p_hash_table_new True True = Some t" by (simp add: p_hash_table_new_def)
  let ?ops = "[HInsert 5 6 True, HInsert 106 7 True, HRemove 5]"
  obtain t' where t': "fold run_hash_op ?ops (Some t) = Some t'"
    using run_hash_ok[of t ?ops] table_new_ok[OF t] by blast
  have "lists_contents t' (fold spec_hash_op ?ops Map.empty) 0 None Map.empty [1, 2, 3]"
    by (rule hash_table_lists[OF t t']) simp_all
  moreover have "dom (fold spec_hash_op ?ops Map.empty) = {106}" by (auto split: if_splits)
  ultimately show ?thesis unfolding lists_contents_def using t t' by auto
qed

end
