(* ===== verification/PBytes.thy ===== *)
theory PBytes
  imports Prelude
begin

text \<open>
  Bytes and words in memory (the byte-order macros of \<open>ptypes.h\<close>).  The host's byte order is a
  parameter: \<open>big\<close> is what \<open>PLIBSYS_IS_BIGENDIAN\<close> says in the build, and no theorem depends on it.
\<close>

unbundle bit_operations_syntax

type_synonym byte = "8 word"

section \<open>The swapping macros\<close>

definition PUINT32_SWAP_BYTES :: "32 word \<Rightarrow> 32 word" where
  "PUINT32_SWAP_BYTES val =
     drop_bit 24 val OR (push_bit 8 val AND 0x00FF0000) OR (drop_bit 8 val AND 0x0000FF00) OR push_bit 24 val"

definition PUINT64_SWAP_BYTES :: "64 word \<Rightarrow> 64 word" where
  "PUINT64_SWAP_BYTES val =
     drop_bit 56 val OR
     (push_bit 40 val AND 0x00FF000000000000) OR
     (push_bit 24 val AND 0x0000FF0000000000) OR
     (push_bit 8 val AND 0x000000FF00000000) OR
     (drop_bit 8 val AND 0x00000000FF000000) OR
     (drop_bit 24 val AND 0x0000000000FF0000) OR
     (drop_bit 40 val AND 0x000000000000FF00) OR
     push_bit 56 val"

definition PUINT32_TO_LE :: "bool \<Rightarrow> 32 word \<Rightarrow> 32 word" where
  "PUINT32_TO_LE big val = (if big then PUINT32_SWAP_BYTES val else val)"

definition PUINT32_TO_BE :: "bool \<Rightarrow> 32 word \<Rightarrow> 32 word" where
  "PUINT32_TO_BE big val = (if big then val else PUINT32_SWAP_BYTES val)"

definition PUINT64_TO_BE :: "bool \<Rightarrow> 64 word \<Rightarrow> 64 word" where
  "PUINT64_TO_BE big val = (if big then val else PUINT64_SWAP_BYTES val)"

section \<open>Rotations\<close>

text \<open>The shifts and the OR of the rotation macros.\<close>

lemma rotr_macro:
  assumes "n < LENGTH('w)"
  shows "drop_bit n w OR push_bit (LENGTH('w) - n) w = word_rotr n (w :: 'w::len word)"
proof (rule bit_word_eqI)
  fix i assume i: "i < LENGTH('w)"
  show "bit (drop_bit n w OR push_bit (LENGTH('w) - n) w) i \<longleftrightarrow> bit (word_rotr n w) i"
  proof (cases "i + n < LENGTH('w)")
    case True
    then show ?thesis using i by (auto simp: bit_simps add.commute)
  next
    case False
    then have "(i + n) mod LENGTH('w) = i + n - LENGTH('w)" using i assms by (simp add: le_mod_geq)
    then show ?thesis using False i assms by (auto simp: bit_simps add.commute dest: bit_imp_le_length)
  qed
qed

lemma rotl_macro:
  assumes "0 < n" "n < LENGTH('w)"
  shows "push_bit n w OR drop_bit (LENGTH('w) - n) w = word_rotl n (w :: 'w::len word)"
  using rotr_macro[of "LENGTH('w) - n" w] assms by (simp add: word_rotl_eq_word_rotr or.commute)

section \<open>Words as bytes\<close>

text \<open>The word whose bytes are given with the least significant one first, and back.\<close>

fun word_le :: "byte list \<Rightarrow> 'w::len word" where
  "word_le [] = 0"
| "word_le (b # bs) = ucast b OR push_bit 8 (word_le bs)"

definition bytes_le :: "'w::len word \<Rightarrow> byte list" where
  "bytes_le w = map (\<lambda>i. ucast (drop_bit (8 * i) w)) [0 ..< LENGTH('w) div 8]"

text \<open>The same in an order that is big-endian or not: \<open>big\<close> is the host's order when memory is read.\<close>

definition word_of :: "bool \<Rightarrow> byte list \<Rightarrow> 'w::len word" where
  "word_of big bs = word_le (if big then rev bs else bs)"

definition bytes_of :: "bool \<Rightarrow> 'w::len word \<Rightarrow> byte list" where
  "bytes_of big w = (if big then rev (bytes_le w) else bytes_le w)"

lemma length_bytes_le [simp]: "length (bytes_le (w :: 'w::len word)) = LENGTH('w) div 8"
  by (simp add: bytes_le_def)

lemma length_bytes_of [simp]: "length (bytes_of big (w :: 'w::len word)) = LENGTH('w) div 8"
  by (simp add: bytes_of_def)

text \<open>\<open>memcpy (dst + off, xs, \<dots>)\<close>; writing beyond the end makes the list longer.\<close>

definition copy_at :: "'a list \<Rightarrow> nat \<Rightarrow> 'a list \<Rightarrow> 'a list" where
  "copy_at dst off xs = take off dst @ xs @ drop (off + length xs) dst"

lemma length_copy_at: "off + length xs \<le> length dst \<Longrightarrow> length (copy_at dst off xs) = length dst"
  by (simp add: copy_at_def)

lemma copy_at_all: "length xs = length dst \<Longrightarrow> copy_at dst 0 xs = xs"
  by (simp add: copy_at_def)

section \<open>The interface: a conversion between two byte orders\<close>

text \<open>
  \<open>conv\<close> turns a word read in the host's order into the word that the same bytes give in the order
  \<open>wire\<close> (big-endian or not), and turns a word to be written in the order \<open>wire\<close> into the one whose
  bytes in memory are right.
\<close>

locale byte_order =
  fixes conv :: "bool \<Rightarrow> 'w::len word \<Rightarrow> 'w word" and wire :: bool
  assumes conv_read: "length bs = LENGTH('w) div 8 \<Longrightarrow> conv big (word_of big bs) = word_of wire bs"
    and conv_write: "bytes_of big (conv big w) = bytes_of wire w"

text \<open>Bit \<open>n\<close> of the word is bit \<open>n mod 8\<close> of byte \<open>n div 8\<close>; the macros move whole bytes.\<close>

lemma bit_word_le:
  "bit (word_le bs :: 'w::len word) n \<longleftrightarrow> n < LENGTH('w) \<and> n div 8 < length bs \<and> bit (bs ! (n div 8)) (n mod 8)"
proof (induction bs arbitrary: n)
  case (Cons b bs)
  show ?case
  proof (cases "n < 8")
    case True
    then show ?thesis by (auto simp: bit_simps)
  next
    case False
    then obtain m where m: "n = m + 8" by (metis add.commute le_add_diff_inverse not_less)
    have "\<not> bit b n" using bit_imp_le_length[of b n] False by auto
    then show ?thesis using Cons[of m] m by (auto simp: bit_simps div_add_self2)
  qed
qed simp

lemma bit_bytes_le:
  "i < LENGTH('w) div 8 \<Longrightarrow> j < 8 \<Longrightarrow> bit (bytes_le (w :: 'w::len word) ! i) j \<longleftrightarrow> bit w (8 * i + j)"
  by (auto simp: bytes_le_def bit_simps dest: bit_imp_le_length)

lemma word_of_bytes_of:
  assumes "8 dvd LENGTH('w)"
  shows "word_of big (bytes_of big w) = (w :: 'w::len word)"
proof -
  have "word_le (bytes_le w) = w"
  proof (rule bit_word_eqI)
    fix i assume i: "i < LENGTH('w)"
    then have "i div 8 < LENGTH('w) div 8" using assms by auto
    then show "bit (word_le (bytes_le w) :: 'w word) i \<longleftrightarrow> bit w i"
      using i by (simp add: bit_word_le bit_bytes_le)
  qed
  then show ?thesis by (simp add: word_of_def bytes_of_def)
qed

lemma bit_beyond: "LENGTH('w) \<le> n \<Longrightarrow> \<not> bit (v :: 'w::len word) n"
  using bit_imp_le_length[of v n] by auto

lemma masks32:
  "0x00FF0000 = push_bit 16 (mask 8 :: 32 word)"
  "0x0000FF00 = push_bit 8 (mask 8 :: 32 word)"
  by (simp_all add: mask_eq_exp_minus_1)

lemma masks64:
  "0x00FF000000000000 = push_bit 48 (mask 8 :: 64 word)"
  "0x0000FF0000000000 = push_bit 40 (mask 8 :: 64 word)"
  "0x000000FF00000000 = push_bit 32 (mask 8 :: 64 word)"
  "0x00000000FF000000 = push_bit 24 (mask 8 :: 64 word)"
  "0x0000000000FF0000 = push_bit 16 (mask 8 :: 64 word)"
  "0x000000000000FF00 = push_bit 8 (mask 8 :: 64 word)"
  by (simp_all add: mask_eq_exp_minus_1)

lemma swap32_bits:
  assumes "q < 4" "j < 8"
  shows "bit (PUINT32_SWAP_BYTES v) (8 * q + j) \<longleftrightarrow> bit v (8 * (4 - 1 - q) + j)"
proof -
  have "q = 0 \<or> q = 1 \<or> q = 2 \<or> q = 3" using assms(1) by arith
  then show ?thesis using assms(2) unfolding PUINT32_SWAP_BYTES_def masks32
    by (elim disjE; simp add: bit_simps bit_beyond)
qed

lemma swap64_bits:
  assumes "q < 8" "j < 8"
  shows "bit (PUINT64_SWAP_BYTES v) (8 * q + j) \<longleftrightarrow> bit v (8 * (8 - 1 - q) + j)"
proof -
  have "q = 0 \<or> q = 1 \<or> q = 2 \<or> q = 3 \<or> q = 4 \<or> q = 5 \<or> q = 6 \<or> q = 7" using assms(1) by arith
  then show ?thesis using assms(2) unfolding PUINT64_SWAP_BYTES_def masks64
    by (elim disjE; simp add: bit_simps bit_beyond)
qed

lemma byte_reversal:
  fixes swap :: "'w::len word \<Rightarrow> 'w word"
  assumes len: "LENGTH('w) = 8 * k"
    and swap: "\<And>v q j. q < k \<Longrightarrow> j < 8 \<Longrightarrow> bit (swap v) (8 * q + j) \<longleftrightarrow> bit v (8 * (k - 1 - q) + j)"
  shows "length bs = k \<Longrightarrow> swap (word_le bs) = word_le (rev bs)" "bytes_le (swap w) = rev (bytes_le w)"
proof -
  show "swap (word_le bs) = word_le (rev bs)" if l: "length bs = k"
  proof (rule bit_word_eqI)
    fix n assume n: "n < LENGTH('w)"
    then have q: "n div 8 < k" using len by auto
    have "8 * (k - 1 - n div 8) + n mod 8 < LENGTH('w)" using len q by simp
    then show "bit (swap (word_le bs)) n \<longleftrightarrow> bit (word_le (rev bs) :: 'w word) n"
      using swap[OF q, of "n mod 8" "word_le bs"] n q l by (simp add: bit_word_le rev_nth)
  qed
  show "bytes_le (swap w) = rev (bytes_le w)"
  proof (rule nth_equalityI)
    fix i assume "i < length (bytes_le (swap w))"
    then have i: "i < k" using len by simp
    show "bytes_le (swap w) ! i = rev (bytes_le w) ! i"
    proof (rule bit_word_eqI)
      fix j assume "j < LENGTH(8)"
      then have j: "j < 8" by simp
      have "8 * i + j < LENGTH('w)" using i j len by simp
      with swap[OF i j, of w] show "bit (bytes_le (swap w) ! i) j \<longleftrightarrow> bit (rev (bytes_le w) ! i) j"
        using i j len by (simp add: bit_bytes_le rev_nth)
    qed
  qed simp
qed

lemma PUINT32_SWAP_reverses:
  "length bs = 4 \<Longrightarrow> PUINT32_SWAP_BYTES (word_le bs) = word_le (rev bs)"
  "bytes_le (PUINT32_SWAP_BYTES w) = rev (bytes_le w)"
  using byte_reversal[of 4 PUINT32_SWAP_BYTES] swap32_bits by simp_all

lemma PUINT64_SWAP_reverses:
  "length bs = 8 \<Longrightarrow> PUINT64_SWAP_BYTES (word_le bs) = word_le (rev bs)"
  "bytes_le (PUINT64_SWAP_BYTES w) = rev (bytes_le w)"
  using byte_reversal[of 8 PUINT64_SWAP_BYTES] swap64_bits by simp_all

interpretation le32: byte_order PUINT32_TO_LE False
  by unfold_locales
    (simp_all add: PUINT32_TO_LE_def word_of_def bytes_of_def PUINT32_SWAP_reverses)

interpretation be32: byte_order PUINT32_TO_BE True
  by unfold_locales
    (simp_all add: PUINT32_TO_BE_def word_of_def bytes_of_def PUINT32_SWAP_reverses)

interpretation be64: byte_order PUINT64_TO_BE True
  by unfold_locales
    (simp_all add: PUINT64_TO_BE_def word_of_def bytes_of_def PUINT64_SWAP_reverses)

end
