(* ===== verification/PHashBlock.thy ===== *)
theory PHashBlock
  imports PBytes
begin

text \<open>
  The part that \<open>pcryptohash-md5.c\<close>, \<open>-sha1.c\<close>, \<open>-sha2-256.c\<close> and \<open>-sha2-512.c\<close> share text for text: a context with
  a buffer of one block, the chaining words and a two-word byte counter, and the functions \<open>update\<close>
  and \<open>finish\<close> around the transformation of a block.  The four modules differ in the block size, the
  word width, the byte order, the order of the two length words, the number of hash words converted at
  the end, and the transformation; these are the parameters here.
\<close>

section \<open>The context and its operations\<close>

record (overloaded) ('w::len) hash_ctx =
  buf :: "byte list"
  hash :: "'w word list"
  len_high :: "'w word"
  len_low :: "'w word"

text \<open>The full groups of \<open>k\<close> elements of a list.\<close>

function (sequential) groups :: "nat \<Rightarrow> 'a list \<Rightarrow> 'a list list" where
  "groups k xs = (if k = 0 \<or> length xs < k then [] else take k xs # groups k (drop k xs))"
  by pat_completeness auto
termination by (relation "measure (\<lambda>(k, xs). length xs)") auto

declare groups.simps [simp del]

text \<open>The union member \<open>buf_w\<close>: the buffer read and written as words.\<close>

definition buf_w :: "bool \<Rightarrow> byte list \<Rightarrow> 'w::len word list" where
  "buf_w big bs = map (word_of big) (groups (LENGTH('w) div 8) bs)"

definition of_buf_w :: "bool \<Rightarrow> 'w::len word list \<Rightarrow> byte list" where
  "of_buf_w big ws = concat (map (bytes_of big) ws)"

text \<open>\<open>swap_bytes (data, words)\<close> converts the first words of an array.\<close>

definition swap_words :: "('w::len word \<Rightarrow> 'w word) \<Rightarrow> 'w word list \<Rightarrow> nat \<Rightarrow> 'w word list" where
  "swap_words conv data words = map conv (take words data) @ drop words data"

text \<open>\<open>swap_bytes (ctx->buf.buf_w, 16); process (ctx, ctx->buf.buf_w);\<close>\<close>

definition process_buf ::
  "bool \<Rightarrow> ('w::len word list \<Rightarrow> nat \<Rightarrow> 'w word list) \<Rightarrow> ('w word list \<Rightarrow> 'w word list \<Rightarrow> 'w word list) \<Rightarrow>
   ('w, 'z) hash_ctx_scheme \<Rightarrow> ('w, 'z) hash_ctx_scheme" where
  "process_buf big swap process ctx =
     (let ws = swap (buf_w big (buf ctx)) 16
      in ctx\<lparr>buf := of_buf_w big ws, hash := process (hash ctx) ws\<rparr>)"

function update_blocks ::
  "nat \<Rightarrow> (('w::len, 'z) hash_ctx_scheme \<Rightarrow> ('w, 'z) hash_ctx_scheme) \<Rightarrow> ('w, 'z) hash_ctx_scheme \<Rightarrow> byte list \<Rightarrow>
   ('w, 'z) hash_ctx_scheme \<times> byte list" where
  "update_blocks N step ctx data =
     (if N = 0 \<or> length data < N then (ctx, data)
      else update_blocks N step (step (ctx\<lparr>buf := copy_at (buf ctx) 0 (take N data)\<rparr>)) (drop N data))"
  by pat_completeness auto
termination by (relation "measure (\<lambda>(N, step, ctx, data). length data)") auto

declare update_blocks.simps [simp del]

definition count_bytes :: "('w::len, 'z) hash_ctx_scheme \<Rightarrow> 'w word \<Rightarrow> ('w, 'z) hash_ctx_scheme" where
  "count_bytes ctx len =
     (let low = len_low ctx + len
      in ctx\<lparr>len_low := low, len_high := (if low < len then len_high ctx + 1 else len_high ctx)\<rparr>)"

text \<open>\<open>len\<close> is the \<open>psize\<close> length of \<open>data\<close>; it is converted to the counter's width before the comparison.\<close>

definition block_update ::
  "nat \<Rightarrow> (('w::len, 'z) hash_ctx_scheme \<Rightarrow> ('w, 'z) hash_ctx_scheme) \<Rightarrow> ('w, 'z) hash_ctx_scheme \<Rightarrow> byte list \<Rightarrow>
   ('w, 'z) hash_ctx_scheme" where
  "block_update N step ctx data =
     (let len = (of_nat (length data) :: 'w word);
          left = unat (len_low ctx AND of_nat (N - 1));
          to_fill = N - left;
          ctx1 = count_bytes ctx len;
          (ctx2, data2, left2) =
            (if left \<noteq> 0 \<and> of_nat to_fill \<le> len
             then (step (ctx1\<lparr>buf := copy_at (buf ctx1) left (take to_fill data)\<rparr>), drop to_fill data, 0)
             else (ctx1, data, left));
          (ctx3, data3) = update_blocks N step ctx2 data2
      in if data3 \<noteq> [] then ctx3\<lparr>buf := copy_at (buf ctx3) left2 data3\<rparr> else ctx3)"

definition hash_pad :: "nat \<Rightarrow> byte list" where
  "hash_pad N = 0x80 # replicate (N - 1) 0"

text \<open>
  \<open>order\<close> puts the words \<open>high\<close> and \<open>low\<close> of the length in bits into \<open>buf_w[14]\<close> and \<open>buf_w[15]\<close>; \<open>n\<close> hash words
  are converted at the end.
\<close>

definition block_finish ::
  "nat \<Rightarrow> bool \<Rightarrow> (('w::len, 'z) hash_ctx_scheme \<Rightarrow> byte list \<Rightarrow> ('w, 'z) hash_ctx_scheme) \<Rightarrow>
   ('w word list \<Rightarrow> nat \<Rightarrow> 'w word list) \<Rightarrow> ('w word list \<Rightarrow> 'w word list \<Rightarrow> 'w word list) \<Rightarrow>
   ('w word \<Rightarrow> 'w word \<Rightarrow> 'w word \<times> 'w word) \<Rightarrow> nat \<Rightarrow> ('w, 'z) hash_ctx_scheme \<Rightarrow> ('w, 'z) hash_ctx_scheme" where
  "block_finish N big update swap process order n ctx =
     (let left = unat (len_low ctx AND of_nat (N - 1));
          last = (if left < N - N div 8 then N - N div 8 - left else 2 * N - N div 8 - left);
          low = push_bit 3 (len_low ctx);
          high = push_bit 3 (len_high ctx) OR drop_bit (LENGTH('w) - 3) (len_low ctx);
          ctx1 = (if last > 0 then update ctx (take last (hash_pad N)) else ctx);
          (w14, w15) = order high low;
          ws = swap ((buf_w big (buf ctx1))[14 := w14, 15 := w15]) 14
      in ctx1\<lparr>buf := of_buf_w big ws, hash := swap (process (hash ctx1) ws) n\<rparr>)"

text \<open>The digest is the hash array as it lies in memory.\<close>

definition block_digest :: "bool \<Rightarrow> ('w::len, 'z) hash_ctx_scheme \<Rightarrow> byte list" where
  "block_digest big ctx = of_buf_w big (hash ctx)"

section \<open>Groups\<close>

lemma groups_short: "length xs < k \<Longrightarrow> groups k xs = []"
  by (subst groups.simps) simp

lemma groups_append1: "0 < k \<Longrightarrow> length xs = k \<Longrightarrow> groups k (xs @ ys) = xs # groups k ys"
  by (subst groups.simps) simp

lemma groups_append: "0 < k \<Longrightarrow> k dvd length xs \<Longrightarrow> groups k (xs @ ys) = groups k xs @ groups k ys"
proof (induction k xs rule: groups.induct)
  case (1 k xs)
  show ?case
  proof (cases "length xs < k")
    case True
    then have "xs = []" using "1.prems" by (metis dvd_imp_le gr_zeroI length_0_conv not_le)
    then show ?thesis using "1.prems" by (simp add: groups_short)
  next
    case False
    then have "groups k (drop k xs @ ys) = groups k (drop k xs) @ groups k ys" using 1 by (simp add: dvd_diff_nat)
    moreover have "groups k (xs @ ys) = take k xs # groups k (drop k (xs @ ys))"
      using False "1.prems" by (subst groups.simps) simp
    moreover have "groups k xs = take k xs # groups k (drop k xs)"
      using False "1.prems" by (subst groups.simps) simp
    ultimately show ?thesis using False by simp
  qed
qed

lemma length_groups: "0 < k \<Longrightarrow> length (groups k xs) = length xs div k"
proof (induction k xs rule: groups.induct)
  case (1 k xs)
  then show ?case by (cases "length xs < k") (simp_all add: groups.simps[of k xs] le_div_geq)
qed

lemma in_groups: "g \<in> set (groups k xs) \<Longrightarrow> length g = k"
  by (induction k xs rule: groups.induct) (subst (asm) (2) groups.simps, auto split: if_splits)

lemma groups_concat: "0 < k \<Longrightarrow> (\<And>x. x \<in> set xss \<Longrightarrow> length x = k) \<Longrightarrow> groups k (concat xss) = xss"
  by (induction xss) (auto simp: groups_append1 groups_short)

text \<open>The part of a list that is in no full group.\<close>

definition rest :: "nat \<Rightarrow> 'a list \<Rightarrow> 'a list" where
  "rest k xs = drop (length xs - length xs mod k) xs"

lemma length_rest: "length (rest k xs) = length xs mod k"
  by (simp add: rest_def)

lemma groups_rest: "0 < k \<Longrightarrow> concat (groups k xs) @ rest k xs = xs"
proof (induction k xs rule: groups.induct)
  case (1 k xs)
  show ?case
  proof (cases "length xs < k")
    case True
    then show ?thesis by (simp add: groups_short rest_def)
  next
    case False
    then have "concat (groups k (drop k xs)) @ rest k (drop k xs) = drop k xs" using 1 by simp
    moreover have "rest k (drop k xs) = rest k xs"
    proof -
      let ?n = "length xs - k"
      have "length xs mod k = ?n mod k" using False by (simp add: le_mod_geq)
      moreover have "?n - ?n mod k + k = length xs - ?n mod k"
        using mod_less_eq_dividend[of ?n k] False by linarith
      ultimately show ?thesis by (simp add: rest_def)
    qed
    moreover have "groups k xs = take k xs # groups k (drop k xs)"
      using False "1.prems" by (subst groups.simps) simp
    ultimately show ?thesis by simp
  qed
qed

lemma rest_append: "0 < k \<Longrightarrow> k dvd length xs \<Longrightarrow> rest k (xs @ ys) = rest k ys"
proof -
  assume k: "0 < k" "k dvd length xs"
  let ?r = "length ys mod k"
  have "(length xs + length ys) mod k = ?r" using k(2) by auto
  moreover have "length xs + length ys - ?r = length xs + (length ys - ?r)"
    by (rule Nat.add_diff_assoc[OF mod_less_eq_dividend, symmetric])
  moreover have "length xs \<le> length xs + (length ys - ?r)" by (rule le_add1)
  ultimately show ?thesis by (simp only: rest_def length_append drop_append) simp
qed

lemma groups_dvd: "k dvd length (concat (groups k xs))"
proof -
  have "\<forall>g \<in> set gs. length g = k \<Longrightarrow> k dvd length (concat gs)" for gs :: "'a list list"
    by (induction gs) auto
  then show ?thesis using in_groups by blast
qed

lemma groups_rest_append: "0 < k \<Longrightarrow> groups k (xs @ ys) = groups k xs @ groups k (rest k xs @ ys)"
proof -
  assume k: "0 < k"
  have "groups k (xs @ ys) = groups k (concat (groups k xs) @ rest k xs @ ys)"
    using groups_rest[OF k, of xs] by (metis append.assoc)
  also have "\<dots> = groups k (concat (groups k xs)) @ groups k (rest k xs @ ys)"
    by (rule groups_append[OF k groups_dvd])
  also have "groups k (concat (groups k xs)) = groups k xs" by (rule groups_concat[OF k in_groups])
  finally show ?thesis .
qed

lemma rest_rest_append: "0 < k \<Longrightarrow> rest k (xs @ ys) = rest k (rest k xs @ ys)"
proof -
  assume k: "0 < k"
  have "rest k (xs @ ys) = rest k (concat (groups k xs) @ rest k xs @ ys)"
    using groups_rest[OF k, of xs] by (metis append.assoc)
  also have "\<dots> = rest k (rest k xs @ ys)" by (rule rest_append[OF k groups_dvd])
  finally show ?thesis .
qed

lemma rest_short: "length xs < k \<Longrightarrow> rest k xs = xs"
  by (simp add: rest_def)

section \<open>The interface to the unrolled transformations\<close>

text \<open>
  The code's transformation is a sequence of statements that leave the variables where they are and
  rename them instead; the standard's is a loop that shifts them.  \<open>view t\<close> reads the standard's
  variables out of the code's before statement \<open>t\<close>, and \<open>inv t\<close> says what the message schedule holds.
\<close>

locale unrolled =
  fixes stmt :: "nat \<Rightarrow> 's \<Rightarrow> 's" and inv :: "nat \<Rightarrow> 's \<Rightarrow> bool" and view :: "nat \<Rightarrow> 's \<Rightarrow> 'v"
    and step :: "nat \<Rightarrow> 'v \<Rightarrow> 'v" and n :: nat
  assumes simulates: "t < n \<Longrightarrow> inv t s \<Longrightarrow> inv (Suc t) (stmt t s) \<and> view (Suc t) (stmt t s) = step t (view t s)"

context unrolled
begin

lemma prefix:
  "t \<le> n \<Longrightarrow> inv 0 s \<Longrightarrow>
   inv t (fold stmt [0..<t] s) \<and> view t (fold stmt [0..<t] s) = fold step [0..<t] (view 0 s)"
  by (induction t) (simp_all add: simulates)

lemma all_statements:
  "inv 0 s \<Longrightarrow> stmts = map stmt [0..<n] \<Longrightarrow> view n (fold (\<lambda>f. f) stmts s) = fold step [0..<n] (view 0 s)"
  using prefix[of n s] by (simp add: fold_map comp_def)

end

section \<open>What a hash of this kind computes\<close>

text \<open>
  The reference: the message is padded with 0x80, zeros and its length in bits, and the blocks are
  folded with the compression function; words are read and written in the order \<open>wire\<close>.
\<close>

definition compress ::
  "bool \<Rightarrow> ('w::len word list \<Rightarrow> 'w word list \<Rightarrow> 'w word list) \<Rightarrow> 'w word list \<Rightarrow> byte list \<Rightarrow> 'w word list" where
  "compress wire process h block = process h (map (word_of wire) (groups (LENGTH('w) div 8) block))"

definition absorb ::
  "nat \<Rightarrow> bool \<Rightarrow> ('w::len word list \<Rightarrow> 'w word list \<Rightarrow> 'w word list) \<Rightarrow> 'w word list \<Rightarrow> byte list \<Rightarrow> 'w word list" where
  "absorb N wire process iv msg = foldl (compress wire process) iv (groups N msg)"

definition length_bytes :: "bool \<Rightarrow> 'w::len itself \<Rightarrow> nat \<Rightarrow> byte list" where
  "length_bytes wire TYPE('w) n =
     (let low = of_nat (8 * n) :: 'w word; high = of_nat (8 * n div 2 ^ LENGTH('w)) :: 'w word
      in if wire then bytes_of wire high @ bytes_of wire low else bytes_of wire low @ bytes_of wire high)"

definition hash_padding :: "nat \<Rightarrow> nat \<Rightarrow> byte list" where
  "hash_padding N n = 0x80 # replicate ((2 * N - N div 8 - 1 - n mod N) mod N) 0"

definition reference_digest ::
  "nat \<Rightarrow> bool \<Rightarrow> ('w::len word list \<Rightarrow> 'w word list \<Rightarrow> 'w word list) \<Rightarrow> nat \<Rightarrow> 'w word list \<Rightarrow> byte list \<Rightarrow>
   byte list" where
  "reference_digest N wire process n iv msg =
     concat (map (bytes_of wire) (take n
       (absorb N wire process iv
         (msg @ hash_padding N (length msg) @ length_bytes wire TYPE('w) (length msg)))))"

text \<open>
  \<open>absorbed\<close>: the context after the bytes \<open>msg\<close>.  The buffer starts with the bytes that do not fill a
  block yet, and the counter is the number of bytes, modulo \<open>2 ^ (2 w)\<close>.
\<close>

definition absorbed ::
  "nat \<Rightarrow> bool \<Rightarrow> ('w::len word list \<Rightarrow> 'w word list \<Rightarrow> 'w word list) \<Rightarrow> 'w word list \<Rightarrow> byte list \<Rightarrow>
   ('w, 'z) hash_ctx_scheme \<Rightarrow> bool" where
  "absorbed N wire process iv msg ctx \<longleftrightarrow>
     length (buf ctx) = N \<and> take (length msg mod N) (buf ctx) = rest N msg \<and>
     hash ctx = absorb N wire process iv msg \<and>
     len_low ctx = of_nat (length msg) \<and> len_high ctx = of_nat (length msg div 2 ^ LENGTH('w))"

lemma absorb_append:
  "0 < N \<Longrightarrow> absorb N wire process iv (xs @ ys) = absorb N wire process (absorb N wire process iv xs) (rest N xs @ ys)"
  unfolding absorb_def by (subst groups_rest_append) simp_all

section \<open>The interface to the four modules\<close>

locale block_hash = byte_order conv wire
  for conv :: "bool \<Rightarrow> 'w::len word \<Rightarrow> 'w word" and wire :: bool +
  fixes process :: "'w word list \<Rightarrow> 'w word list \<Rightarrow> 'w word list"
    and swap :: "bool \<Rightarrow> 'w word list \<Rightarrow> nat \<Rightarrow> 'w word list"
    and order :: "'w word \<Rightarrow> 'w word \<Rightarrow> 'w word \<times> 'w word"
    and N :: nat and n :: nat and nh :: nat
  assumes swap_swaps: "swap big ws k = swap_words (conv big) ws k"
    and order_ok: "order high low = (if wire then (high, low) else (low, high))"
    and N_def: "N = 2 * LENGTH('w)"
    and width: "8 dvd LENGTH('w)" "8 < LENGTH('w)" "\<exists>m. N = 2 ^ m"
    and process_length: "length h = nh \<Longrightarrow> length (process h ws) = nh"
    and n_le: "n \<le> nh"

lemma block_update_left:
  assumes "unat (len_low ctx AND of_nat (N - 1)) = left"
    and "(of_nat (N - left) :: 'w word) \<le> of_nat (length data) \<longleftrightarrow> N - left \<le> length data"
  shows "block_update N step (ctx :: ('w::len, 'z) hash_ctx_scheme) data =
    (case (if left \<noteq> 0 \<and> N - left \<le> length data
           then (step ((count_bytes ctx (of_nat (length data)))\<lparr>buf :=
                   copy_at (buf (count_bytes ctx (of_nat (length data)))) left (take (N - left) data)\<rparr>),
                 drop (N - left) data, 0)
           else (count_bytes ctx (of_nat (length data)), data, left)) of
       (ctx2, data2, left2) \<Rightarrow>
         (case update_blocks N step ctx2 data2 of
            (ctx3, data3) \<Rightarrow> if data3 \<noteq> [] then ctx3\<lparr>buf := copy_at (buf ctx3) left2 data3\<rparr> else ctx3))"
  by (simp only: block_update_def Let_def assms)

lemma block_finish_hash:
  fixes ctx :: "('w::len, 'z) hash_ctx_scheme"
  assumes "unat (len_low ctx AND of_nat (N - 1)) = left"
    and "lst = (if left < N - N div 8 then N - N div 8 - left else 2 * N - N div 8 - left)" "0 < lst"
    and "push_bit 3 (len_low ctx) = low"
    and "push_bit 3 (len_high ctx) OR drop_bit (LENGTH('w) - 3) (len_low ctx) = high"
    and "ctx1 = update ctx (take lst (hash_pad N))"
  shows "hash (block_finish N big update swap process order n ctx) =
    swap (process (hash ctx1)
      (swap ((buf_w big (buf ctx1))[14 := fst (order high low), 15 := snd (order high low)]) 14)) n"
  unfolding block_finish_def Let_def assms(1,4,5) assms(2)[symmetric] if_P[OF assms(3)] assms(6)[symmetric]
  by (simp add: split_beta)

lemma length_of_buf_w: "length (of_buf_w big (ws :: 'w::len word list)) = length ws * (LENGTH('w) div 8)"
  by (induction ws) (auto simp: of_buf_w_def)

lemma count_bytes_simps [simp]:
  "buf (count_bytes ctx l) = buf ctx" "hash (count_bytes ctx l) = hash ctx"
  by (simp_all add: count_bytes_def Let_def)

lemma count_bytes_zero [simp]: "count_bytes ctx 0 = ctx"
  by (simp add: count_bytes_def)

lemma pad_arith:
  fixes N q left last :: nat
  assumes "left < N" "0 < q" "8 * q \<le> N" and last: "last = (if left < N - q then N - q - left else 2 * N - q - left)"
  shows "0 < last" "last \<le> N" "(2 * N - q - 1 - left) mod N = last - 1" "(left + last) mod N = N - q"
proof -
  show l: "0 < last" "last \<le> N" using assms by (auto simp: last)
  show "(2 * N - q - 1 - left) mod N = last - 1"
  proof (cases "left < N - q")
    case True
    then have "2 * N - q - 1 - left = N + (last - 1)" by (simp add: last)
    moreover have "last - 1 < N" using l by linarith
    ultimately show ?thesis by (metis mod_add_self1 mod_less)
  next
    case False
    then have "2 * N - q - 1 - left = last - 1" by (simp add: last)
    moreover have "last - 1 < N" using l by linarith
    ultimately show ?thesis by simp
  qed
  show "(left + last) mod N = N - q"
  proof (cases "left < N - q")
    case True
    then have "left + last = N - q" by (simp add: last)
    then show ?thesis using assms(1,2) by simp
  next
    case False
    then have "left + last = N + (N - q)" using assms(1,3) by (simp add: last)
    then show ?thesis using assms(1,2) by simp
  qed
qed

context block_hash
begin

abbreviation "step big \<equiv> process_buf big (swap big) process"

lemma sizes: "N = 16 * (LENGTH('w) div 8)" "0 < N" "0 < (LENGTH('w) div 8)" "N div 8 = 2 * (LENGTH('w) div 8)"
  using N_def width(1,2) by auto

lemma step_ok:
  assumes "length (buf ctx) = N"
  shows "hash (step big ctx) = compress wire process (hash ctx) (buf ctx)"
    and "length (buf (step big ctx)) = N"
    and "len_low (step big ctx) = len_low ctx" "len_high (step big ctx) = len_high ctx"
proof -
  let ?ws = "buf_w big (buf ctx) :: 'w word list"
  have len: "length ?ws = 16" using assms sizes by (simp add: buf_w_def length_groups)
  have "swap big ?ws 16 = map (conv big) ?ws" using len by (simp add: swap_swaps swap_words_def)
  also have "\<dots> = map (word_of wire) (groups (LENGTH('w) div 8) (buf ctx))"
    using in_groups[of _ "LENGTH('w) div 8" "buf ctx"] by (simp add: buf_w_def conv_read)
  finally have ws: "swap big ?ws 16 = map (word_of wire) (groups (LENGTH('w) div 8) (buf ctx))" .
  show "hash (step big ctx) = compress wire process (hash ctx) (buf ctx)"
    by (simp add: process_buf_def Let_def ws compress_def)
  have "length (swap big ?ws 16) = 16" using len by (simp add: swap_swaps swap_words_def)
  then show "length (buf (step big ctx)) = N"
    using sizes by (simp add: process_buf_def Let_def length_of_buf_w)
qed (simp_all add: process_buf_def Let_def)

lemma update_blocks_ok:
  "length (buf ctx) = N \<Longrightarrow> \<exists>ctx'. update_blocks N (step big) ctx data = (ctx', rest N data) \<and>
     hash ctx' = foldl (compress wire process) (hash ctx) (groups N data) \<and> length (buf ctx') = N \<and>
     len_low ctx' = len_low ctx \<and> len_high ctx' = len_high ctx"
proof (induction "length data" arbitrary: ctx data rule: less_induct)
  case less
  show ?case
  proof (cases "length data < N")
    case True
    then show ?thesis using less.prems
      by (subst update_blocks.simps) (simp add: groups_short rest_def)
  next
    case False
    let ?c = "ctx\<lparr>buf := copy_at (buf ctx) 0 (take N data)\<rparr>"
    have b: "buf ?c = take N data" using False less.prems by (simp add: copy_at_all)
    then have c: "length (buf ?c) = N" using False by simp
    have "length (drop N data) < length data" using False sizes(2) by simp
    from less.hyps[OF this step_ok(2)[OF c, of big]] obtain ctx' where ctx':
      "update_blocks N (step big) (step big ?c) (drop N data) = (ctx', rest N (drop N data))"
      "hash ctx' = foldl (compress wire process) (hash (step big ?c)) (groups N (drop N data))"
      "length (buf ctx') = N" "len_low ctx' = len_low (step big ?c)" "len_high ctx' = len_high (step big ?c)"
      by blast
    have "rest N data = rest N (drop N data)" "groups N data = take N data # groups N (drop N data)"
      using rest_append[of N "take N data" "drop N data"] groups_append1[of N "take N data" "drop N data"] False sizes(2)
      by simp_all
    moreover have "update_blocks N (step big) ctx data = update_blocks N (step big) (step big ?c) (drop N data)"
      using False sizes(2) by (subst update_blocks.simps) simp
    ultimately show ?thesis using ctx' step_ok(1,3,4)[OF c, of big] b by simp
  qed
qed

lemma left_eq: "unat ((of_nat k :: 'w word) AND of_nat (N - 1)) = k mod N"
proof -
  obtain m where m: "N = 2 ^ m" using width(3) by blast
  have "2 ^ m = 2 * LENGTH('w)" using m N_def by simp
  also have "\<dots> < 2 ^ LENGTH('w)" using width(2) two_times_less by simp
  finally have ml: "m < LENGTH('w)" by simp
  have "of_nat (N - 1) = (mask m :: 'w word)" by (simp add: m mask_eq_exp_minus_1 of_nat_diff)
  then have "(of_nat k :: 'w word) AND of_nat (N - 1) = take_bit m (of_nat k)" by (simp add: take_bit_eq_mask)
  moreover have "unat (take_bit m (of_nat k :: 'w word)) = k mod N"
    using ml by (simp add: unsigned_take_bit_eq unsigned_of_nat min_def m flip: take_bit_eq_mod)
  ultimately show ?thesis by simp
qed

lemma width_bound: "N < 2 ^ LENGTH('w)"
  unfolding N_def using width(2) two_times_less by simp

lemma count_ok:
  fixes ctx :: "('w, 'z) hash_ctx_scheme"
  assumes "len_low ctx = of_nat k" "len_high ctx = of_nat (k div 2 ^ LENGTH('w))" "d < 2 ^ LENGTH('w)"
  shows "len_low (count_bytes ctx (of_nat d)) = of_nat (k + d)"
    and "len_high (count_bytes ctx (of_nat d)) = of_nat ((k + d) div 2 ^ LENGTH('w))"
proof -
  let ?W = "2 ^ LENGTH('w) :: nat"
  have "(of_nat k :: 'w word) + of_nat d < of_nat d \<longleftrightarrow> (k + d) mod ?W < d"
    using assms(3) by (simp add: word_less_nat_alt unat_of_nat unat_word_ariths mod_add_left_eq flip: take_bit_eq_mod)
      (simp add: take_bit_eq_mod mod_add_left_eq)
  also have "\<dots> \<longleftrightarrow> k mod ?W + d \<ge> ?W"
  proof (cases "k mod ?W + d \<ge> ?W")
    case True
    have "(k + d) mod ?W = (k mod ?W + d) mod ?W" by (simp add: mod_add_left_eq)
    also have "\<dots> = (k mod ?W + d - ?W) mod ?W" using True by (rule le_mod_geq)
    also have "\<dots> = k mod ?W + d - ?W"
    proof (rule mod_less)
      have "k mod ?W < ?W" by simp
      then show "k mod ?W + d - ?W < ?W" using assms(3) by linarith
    qed
    also have "\<dots> < d" using mod_less_divisor[of ?W k] assms(3) True by linarith
    finally show ?thesis using True by simp
  next
    case False
    then have "(k + d) mod ?W = k mod ?W + d" by (metis mod_add_left_eq mod_less not_le)
    then show ?thesis using False by simp
  qed
  finally have carry: "(of_nat k :: 'w word) + of_nat d < of_nat d \<longleftrightarrow> k mod ?W + d \<ge> ?W" .
  have "(k + d) div ?W = k div ?W + (if k mod ?W + d \<ge> ?W then 1 else 0)"
  proof -
    have m: "k mod ?W < ?W" by simp
    have "(k mod ?W + d) div ?W = (if k mod ?W + d \<ge> ?W then 1 else 0)"
    proof (cases "k mod ?W + d \<ge> ?W")
      case True
      then have "k mod ?W + d - ?W < ?W" using m assms(3) by linarith
      then show ?thesis using True by (simp add: le_div_geq)
    qed simp
    then show ?thesis using div_add1_eq[of k d ?W] assms(3) by simp
  qed
  then show "len_high (count_bytes ctx (of_nat d)) = of_nat ((k + d) div ?W)"
    unfolding count_bytes_def Let_def assms(1) carry by (simp add: assms(2))
  show "len_low (count_bytes ctx (of_nat d)) = of_nat (k + d)"
    using assms(1) by (simp add: count_bytes_def Let_def)
qed

lemma tail_ok:
  assumes "length (buf ctx) = N" "update_blocks N (step big) ctx data = (ctx', xs)"
  shows "xs = rest N data"
    and "length (copy_at (buf ctx') 0 xs) = N" "take (length xs) (copy_at (buf ctx') 0 xs) = xs"
    and "length (buf ctx') = N" "len_low ctx' = len_low ctx" "len_high ctx' = len_high ctx"
    and "hash ctx' = foldl (compress wire process) (hash ctx) (groups N data)"
proof -
  from update_blocks_ok[OF assms(1), of big data] assms(2) show xs: "xs = rest N data"
    and b: "length (buf ctx') = N" and "len_low ctx' = len_low ctx" "len_high ctx' = len_high ctx"
      "hash ctx' = foldl (compress wire process) (hash ctx) (groups N data)" by auto
  have "length xs < N" using sizes(2) by (simp add: xs length_rest)
  then show "length (copy_at (buf ctx') 0 xs) = N" "take (length xs) (copy_at (buf ctx') 0 xs) = xs"
    using b by (simp_all add: copy_at_def)
qed

lemma update_ok:
  assumes abs: "absorbed N wire process iv msg ctx" and d: "length data < 2 ^ LENGTH('w)"
  shows "absorbed N wire process iv (msg @ data) (block_update N (step big) ctx data)"
proof -
  let ?d = "length data" and ?left = "length msg mod N"
  let ?c1 = "count_bytes ctx (of_nat ?d)"
  have ctx: "length (buf ctx) = N" "take ?left (buf ctx) = rest N msg" "hash ctx = absorb N wire process iv msg"
    "len_low ctx = of_nat (length msg)" "len_high ctx = of_nat (length msg div 2 ^ LENGTH('w))"
    using abs by (simp_all add: absorbed_def)
  note c1 = count_ok[OF ctx(4,5) d]
  have left: "unat (len_low ctx AND of_nat (N - 1)) = ?left"
    unfolding ctx(4) by (rule left_eq)
  have fill: "(of_nat (N - ?left) :: 'w word) \<le> of_nat ?d \<longleftrightarrow> N - ?left \<le> ?d"
    using width_bound d by (simp add: word_le_nat_alt unsigned_of_nat take_bit_nat_eq_self less_imp_diff_less)
  have hash': "absorb N wire process iv (msg @ data) = foldl (compress wire process) (hash ctx) (groups N (rest N msg @ data))"
    unfolding ctx(3) by (subst absorb_append[OF sizes(2)]) (simp add: absorb_def)
  have rest': "rest N (msg @ data) = rest N (rest N msg @ data)" by (rule rest_rest_append[OF sizes(2)])
  have len': "length (msg @ data) mod N = length (rest N (msg @ data))" by (simp add: length_rest)
  have lr: "length (rest N msg) = ?left" by (simp add: length_rest)
  have left_less: "?left < N" using sizes(2) by simp
  consider (filled) "?left \<noteq> 0" "N - ?left \<le> ?d" | (aligned) "?left = 0" | (short) "?left \<noteq> 0" "?d < N - ?left"
    by linarith
  then show ?thesis
  proof cases
    case filled
    let ?tf = "N - ?left"
    let ?c2 = "?c1\<lparr>buf := copy_at (buf ?c1) ?left (take ?tf data)\<rparr>"
    have b: "buf ?c2 = rest N msg @ take ?tf data"
      using ctx(1,2) filled(2) left_less by (simp add: copy_at_def)
    have b': "length (buf ?c2) = N" using b lr filled(2) left_less by simp
    obtain c3 xs where c3: "update_blocks N (step big) (step big ?c2) (drop ?tf data) = (c3, xs)" by fastforce
    note t = tail_ok[OF step_ok(2)[OF b', of big] c3]
    have upd: "block_update N (step big) ctx data = (if xs \<noteq> [] then c3\<lparr>buf := copy_at (buf c3) 0 xs\<rparr> else c3)"
      using filled c3 by (simp add: block_update_left[OF left fill])
    have g: "groups N (rest N msg @ data) = (rest N msg @ take ?tf data) # groups N (drop ?tf data)"
      using groups_append1[OF sizes(2), of "rest N msg @ take ?tf data" "drop ?tf data"] b b' by simp
    have r: "rest N (rest N msg @ data) = xs"
      using rest_append[OF sizes(2), of "rest N msg @ take ?tf data" "drop ?tf data"] b b' t(1) by simp
    show ?thesis unfolding absorbed_def len' rest' hash' r g upd
      using t step_ok[OF b', of big] b c1 ctx(1) by simp
  next
    case aligned
    then have r: "rest N msg = []" using lr by simp
    obtain c3 xs where c3: "update_blocks N (step big) ?c1 data = (c3, xs)" by fastforce
    have b': "length (buf ?c1) = N" using ctx(1) by simp
    note t = tail_ok[OF b' c3]
    have upd: "block_update N (step big) ctx data = (if xs \<noteq> [] then c3\<lparr>buf := copy_at (buf c3) 0 xs\<rparr> else c3)"
      using aligned c3 by (simp add: block_update_left[OF left fill])
    show ?thesis unfolding absorbed_def len' rest' hash' upd
      using t c1 r by simp
  next
    case short
    have "update_blocks N (step big) ?c1 data = (?c1, data)"
      using short(2) by (subst update_blocks.simps) (simp add: less_diff_conv)
    then have upd: "block_update N (step big) ctx data =
        (if data \<noteq> [] then ?c1\<lparr>buf := copy_at (buf ctx) ?left data\<rparr> else ?c1)"
      using short by (simp add: block_update_left[OF left fill])
    have "length (rest N msg @ data) < N" using short lr by simp
    then have r: "rest N (rest N msg @ data) = rest N msg @ data" "groups N (rest N msg @ data) = []"
      by (simp_all add: rest_short groups_short)
    show ?thesis unfolding absorbed_def len' rest' hash' r upd
      using c1 ctx(1,2) short lr by (auto simp: copy_at_def)
  qed
qed

lemma absorb_length: "length iv = nh \<Longrightarrow> length (absorb N wire process iv msg) = nh"
proof -
  have "length iv = nh \<Longrightarrow> length (foldl (compress wire process) iv gs) = nh" for gs
    by (induction gs arbitrary: iv) (simp_all add: compress_def process_length)
  then show "length iv = nh \<Longrightarrow> length (absorb N wire process iv msg) = nh" by (simp add: absorb_def)
qed

lemma high_ok:
  "push_bit 3 (of_nat (k div 2 ^ LENGTH('w)) :: 'w word) OR drop_bit (LENGTH('w) - 3) (of_nat k)
   = of_nat (8 * k div 2 ^ LENGTH('w))"
proof -
  let ?w = "LENGTH('w)" and ?W = "2 ^ LENGTH('w) :: nat"
  have w: "3 < ?w" using width(2) by simp
  have "?W = 2 ^ (3 + (?w - 3))" using w by simp
  also have "\<dots> = 8 * 2 ^ (?w - 3)" by (simp only: power_add) simp
  finally have W: "?W = 8 * 2 ^ (?w - 3)" .
  have "unat (drop_bit (?w - 3) (of_nat k :: 'w word)) = k mod ?W div 2 ^ (?w - 3)"
    by (subst unsigned_drop_bit_eq) (simp only: unsigned_of_nat drop_bit_eq_div take_bit_eq_mod mod_mod_trivial, simp)
  then have d: "drop_bit (?w - 3) (of_nat k :: 'w word) = of_nat (k mod ?W div 2 ^ (?w - 3))"
    by (metis of_nat_unat ucast_id)
  have "8 * k = 8 * (k mod ?W) + 8 * (k div ?W) * ?W" by (simp add: algebra_simps flip: distrib_left)
  then have "8 * k div ?W = 8 * (k div ?W) + 8 * (k mod ?W) div ?W" by simp
  also have "8 * (k mod ?W) div ?W = k mod ?W div 2 ^ (?w - 3)" unfolding W by (simp add: div_mult_mult1)
  finally have k: "8 * k div ?W = 8 * (k div ?W) + k mod ?W div 2 ^ (?w - 3)" .
  have "push_bit 3 (of_nat (k div ?W) :: 'w word) + drop_bit (?w - 3) (of_nat k) =
      push_bit 3 (of_nat (k div ?W)) OR drop_bit (?w - 3) (of_nat k)"
    using w by (intro disjunctive_add) (auto simp: bit_simps)
  from this[symmetric] show ?thesis unfolding k d by (simp add: push_bit_eq_mult mult.commute)
qed

lemma finish_ok:
  assumes abs: "absorbed N wire process iv msg ctx" and iv: "length iv = nh"
  shows "take (n * (LENGTH('w) div 8))
      (block_digest big (block_finish N big (block_update N (step big)) (swap big) process order n ctx))
    = reference_digest N wire process n iv msg"
proof -
  define left where "left = length msg mod N"
  let ?wb = "LENGTH('w) div 8" and ?L = "length msg"
  define last where "last = (if left < N - N div 8 then N - N div 8 - left else 2 * N - N div 8 - left)"
  let ?pad = "hash_padding N ?L"
  define ctx1 where "ctx1 = block_update N (step big) ctx ?pad"
  define r where "r = rest N (msg @ ?pad)"
  let ?low = "of_nat (8 * ?L) :: 'w word" and ?high = "of_nat (8 * ?L div 2 ^ LENGTH('w)) :: 'w word"
  let ?a = "fst (order ?high ?low)" and ?b = "snd (order ?high ?low)"
  have ll: "left < N" using sizes(2) by (simp add: left_def)
  have q: "0 < N div 8" "8 * (N div 8) \<le> N" using sizes by simp_all
  note last = pad_arith[OF ll q last_def]
  obtain l where l: "last = Suc l" using last(1) by (cases last) auto
  have "?pad = 0x80 # replicate l 0"
    unfolding hash_padding_def left_def[symmetric] last(3) l by simp
  moreover have "take last (hash_pad N) = 0x80 # replicate l 0"
    using last(2) by (simp add: hash_pad_def l min_def)
  ultimately have pad: "take last (hash_pad N) = ?pad" by simp
  have len_pad: "length ?pad = last" unfolding \<open>?pad = 0x80 # replicate l 0\<close> by (simp add: l)
  have "last < 2 ^ LENGTH('w)" using last(2) width_bound by linarith
  from update_ok[OF abs, of ?pad big] this have abs1: "absorbed N wire process iv (msg @ ?pad) ctx1"
    by (simp add: len_pad ctx1_def)
  have "(?L + last) mod N = (left + last) mod N" by (simp add: mod_add_left_eq left_def)
  also have "\<dots> = N - N div 8" by (rule last(4))
  also have "\<dots> = 14 * ?wb" using sizes by simp
  finally have mod: "length (msg @ ?pad) mod N = 14 * ?wb" by (simp only: len_pad length_append)
  have r: "length r = 14 * ?wb" "take (14 * ?wb) (buf ctx1) = r" "length (buf ctx1) = N"
    using abs1 mod by (simp_all add: r_def length_rest absorbed_def)
  have "groups ?wb (buf ctx1) = groups ?wb r @ groups ?wb (drop (14 * ?wb) (buf ctx1))"
  proof -
    have "?wb dvd length r" unfolding r(1) by simp
    from groups_append[OF sizes(3) this, of "drop (14 * ?wb) (buf ctx1)"] show ?thesis
      unfolding r(2)[symmetric] append_take_drop_id .
  qed
  moreover have g14: "length (groups ?wb r) = 14" and g2: "length (groups ?wb (drop (14 * ?wb) (buf ctx1))) = 2"
    using r sizes by (simp_all add: length_groups)
  moreover obtain x y where "groups ?wb (drop (14 * ?wb) (buf ctx1)) = [x, y]"
    using g2 by (auto simp: length_Suc_conv numeral_2_eq_2)
  ultimately have g: "groups ?wb (buf ctx1) = groups ?wb r @ [x, y]" by simp
  have ws: "swap big ((buf_w big (buf ctx1))[14 := ?a, 15 := ?b]) 14 = map (word_of wire) (groups ?wb r) @ [?a, ?b]"
    using in_groups[of _ ?wb r] g14
    by (simp add: swap_swaps swap_words_def buf_w_def g list_update_append conv_read)
  have lb: "groups ?wb (r @ length_bytes wire TYPE('w) ?L) =
      groups ?wb r @ [bytes_of wire ?a, bytes_of wire ?b]"
    using groups_append[OF sizes(3), of r] r(1) sizes(3)
    by (simp add: length_bytes_def Let_def order_ok groups_append1 groups_short groups_append1[where ys = "[]", simplified])
  have "length (r @ length_bytes wire TYPE('w) ?L) = N"
    using r(1) sizes by (simp add: length_bytes_def Let_def)
  then have "absorb N wire process iv (msg @ ?pad @ length_bytes wire TYPE('w) ?L) =
      compress wire process (absorb N wire process iv (msg @ ?pad)) (r @ length_bytes wire TYPE('w) ?L)"
    using absorb_append[OF sizes(2), of wire process iv "msg @ ?pad" "length_bytes wire TYPE('w) ?L"]
      groups_append1[OF sizes(2), of "r @ length_bytes wire TYPE('w) ?L" "[]"] sizes(2)
    by (simp add: absorb_def r_def groups_short)
  also have "\<dots> = process (hash ctx1) (map (word_of wire) (groups ?wb r) @ [?a, ?b])"
    using abs1 by (simp add: compress_def lb word_of_bytes_of width(1) absorbed_def)
  finally have final: "process (hash ctx1) (map (word_of wire) (groups ?wb r) @ [?a, ?b]) =
      absorb N wire process iv (msg @ ?pad @ length_bytes wire TYPE('w) ?L)" by simp
  let ?h = "absorb N wire process iv (msg @ ?pad @ length_bytes wire TYPE('w) ?L)"
  have "hash (block_finish N big (block_update N (step big)) (swap big) process order n ctx) = swap big ?h n"
  proof -
    have "unat (len_low ctx AND of_nat (N - 1)) = left"
      using abs left_eq[of ?L] by (simp add: absorbed_def left_def)
    moreover have "push_bit 3 (len_low ctx) = ?low"
      using abs by (simp add: absorbed_def push_bit_eq_mult mult.commute)
    moreover have "push_bit 3 (len_high ctx) OR drop_bit (LENGTH('w) - 3) (len_low ctx) = ?high"
      using abs high_ok[of ?L] by (simp add: absorbed_def)
    ultimately show ?thesis
      using block_finish_hash[OF _ last_def last(1), of ctx] ctx1_def ws final by (simp only: pad)
  qed
  moreover have "take (n * ?wb) (of_buf_w big (swap big h n)) = concat (map (bytes_of wire) (take n h))"
    if "length h = nh" for h
  proof -
    have "concat (map (bytes_of big) (map (conv big) (take n h))) = concat (map (bytes_of wire) (take n h))"
      by (simp add: comp_def conv_write)
    moreover have "length (concat (map (bytes_of wire) (take n h))) = n * ?wb"
      using that n_le length_of_buf_w[of wire "take n h"] by (simp add: of_buf_w_def)
    ultimately show ?thesis by (simp add: swap_swaps swap_words_def of_buf_w_def)
  qed
  moreover have "length ?h = nh" by (rule absorb_length[OF iv])
  ultimately show ?thesis by (simp add: block_digest_def reference_digest_def)
qed

text \<open>Only the block words and the chaining words that occur matter for the reference.\<close>

lemma reference_digest_cong:
  fixes iv :: "'w word list"
  assumes same: "\<And>h M. length h = nh \<Longrightarrow> length M = 16 \<Longrightarrow> process h M = f h M" and iv: "length iv = nh"
  shows "reference_digest N wire process n iv msg = reference_digest N wire f n iv msg"
proof -
  let ?c = "compress wire process"
  have block: "?c h b = compress wire f h b" if "length h = nh" "length b = N" for h b
    using that same sizes by (simp add: compress_def length_groups)
  have *: "\<forall>b \<in> set bs. length b = N \<Longrightarrow> length h = nh \<Longrightarrow> foldl ?c h bs = foldl (compress wire f) h bs" for h bs
  proof (induction bs arbitrary: h)
    case (Cons b bs)
    have "length (?c h b) = nh" using Cons.prems by (simp add: compress_def process_length)
    then show ?case using Cons block by simp
  qed simp
  have "absorb N wire process iv m = absorb N wire f iv m" for m
    unfolding absorb_def by (intro * iv ballI in_groups)
  then show ?thesis by (simp add: reference_digest_def)
qed

lemma length_reference_digest:
  "length iv = nh \<Longrightarrow> length (reference_digest N wire process n iv msg) = n * (LENGTH('w) div 8)"
  using length_of_buf_w[of wire "take n (absorb N wire process iv m)" for m] n_le
  by (simp add: reference_digest_def absorb_length min_def flip: of_buf_w_def)

end

section \<open>Fields that the operations leave alone\<close>

lemma absorbed_empty:
  "0 < N \<Longrightarrow> absorbed N wire process iv [] (ctx\<lparr>buf := replicate N 0, len_low := 0, len_high := 0, hash := iv\<rparr>)"
  by (simp add: absorbed_def absorb_def groups_short rest_def)

lemma more_process_buf [simp]: "hash_ctx.more (process_buf big swap process ctx) = hash_ctx.more ctx"
  by (simp add: process_buf_def Let_def)

lemma more_update_blocks:
  assumes "\<And>c. hash_ctx.more (step c) = hash_ctx.more c"
  shows "hash_ctx.more (fst (update_blocks N step ctx data)) = hash_ctx.more ctx"
proof (induction "length data" arbitrary: ctx data rule: less_induct)
  case less
  then have "N \<noteq> 0 \<Longrightarrow> \<not> length data < N \<Longrightarrow>
      hash_ctx.more (fst (update_blocks N step c (drop N data))) = hash_ctx.more c" for c by simp
  then show ?case by (subst update_blocks.simps) (simp add: assms)
qed

lemma more_block_update:
  assumes "\<And>c. hash_ctx.more (step c) = hash_ctx.more c"
  shows "hash_ctx.more (block_update N step ctx data) = hash_ctx.more ctx"
  using more_update_blocks[of step N, OF assms]
  by (simp add: block_update_def Let_def split_beta count_bytes_def assms)

lemma more_block_finish:
  assumes "\<And>c d. hash_ctx.more (update c d) = hash_ctx.more c"
  shows "hash_ctx.more (block_finish N big update swap process order n ctx) = hash_ctx.more ctx"
  by (simp add: block_finish_def Let_def split_beta assms)

lemma counters_update_blocks:
  assumes "\<And>c. len_low (step c) = len_low c \<and> len_high (step c) = len_high c"
  shows "len_low (fst (update_blocks N step ctx data)) = len_low ctx \<and>
    len_high (fst (update_blocks N step ctx data)) = len_high ctx"
proof (induction "length data" arbitrary: ctx data rule: less_induct)
  case less
  then have "N \<noteq> 0 \<Longrightarrow> \<not> length data < N \<Longrightarrow>
      len_low (fst (update_blocks N step c (drop N data))) = len_low c \<and>
      len_high (fst (update_blocks N step c (drop N data))) = len_high c" for c by simp
  then show ?case by (simp add: update_blocks.simps[of N step ctx data] assms)
qed

text \<open>The counters advance by the length as a word of the counter's width.\<close>

lemma counters_block_update:
  assumes "\<And>c. len_low (step c) = len_low c \<and> len_high (step c) = len_high c"
  shows "len_low (block_update N step ctx data) = len_low (count_bytes ctx (of_nat (length data)))"
    and "len_high (block_update N step ctx data) = len_high (count_bytes ctx (of_nat (length data)))"
  using counters_update_blocks[of step N, OF assms]
  by (simp_all add: block_update_def Let_def split_beta assms)

end
