(* ===== verification/PMd5.thy ===== *)
theory PMd5
  imports PHashBlock
begin

text \<open>
  MD5 (\<open>pcryptohash-md5.c\<close>): the unrolled transformation, the context functions, and the equivalence with
  the round function of RFC 1321.
\<close>

section \<open>The transformation\<close>

type_synonym PHashMD5 = "32 hash_ctx"

definition P_MD5_ROTL :: "32 word \<Rightarrow> nat \<Rightarrow> 32 word" where
  "P_MD5_ROTL val shift = push_bit shift val OR drop_bit (32 - shift) val"

definition P_MD5_F :: "32 word \<Rightarrow> 32 word \<Rightarrow> 32 word \<Rightarrow> 32 word" where
  "P_MD5_F x y z = (z XOR (x AND (y XOR z)))"

definition P_MD5_G :: "32 word \<Rightarrow> 32 word \<Rightarrow> 32 word \<Rightarrow> 32 word" where
  "P_MD5_G x y z = P_MD5_F z x y"

definition P_MD5_H :: "32 word \<Rightarrow> 32 word \<Rightarrow> 32 word \<Rightarrow> 32 word" where
  "P_MD5_H x y z = (x XOR y XOR z)"

definition P_MD5_I :: "32 word \<Rightarrow> 32 word \<Rightarrow> 32 word \<Rightarrow> 32 word" where
  "P_MD5_I x y z = (y XOR (x OR NOT z))"

text \<open>A round macro gives its first argument a new value, computed from all four and \<open>data[k]\<close>.\<close>

definition P_MD5_ROUND_0 :: "32 word \<Rightarrow> 32 word \<Rightarrow> nat \<Rightarrow> 32 word \<Rightarrow> 32 word \<Rightarrow> 32 word \<Rightarrow> 32 word \<Rightarrow> 32 word" where
  "P_MD5_ROUND_0 x i s a b c d = P_MD5_ROTL (a + (P_MD5_F b c d + x + i)) s + b"

definition P_MD5_ROUND_1 :: "32 word \<Rightarrow> 32 word \<Rightarrow> nat \<Rightarrow> 32 word \<Rightarrow> 32 word \<Rightarrow> 32 word \<Rightarrow> 32 word \<Rightarrow> 32 word" where
  "P_MD5_ROUND_1 x i s a b c d = P_MD5_ROTL (a + (P_MD5_G b c d + x + i)) s + b"

definition P_MD5_ROUND_2 :: "32 word \<Rightarrow> 32 word \<Rightarrow> nat \<Rightarrow> 32 word \<Rightarrow> 32 word \<Rightarrow> 32 word \<Rightarrow> 32 word \<Rightarrow> 32 word" where
  "P_MD5_ROUND_2 x i s a b c d = P_MD5_ROTL (a + (P_MD5_H b c d + x + i)) s + b"

definition P_MD5_ROUND_3 :: "32 word \<Rightarrow> 32 word \<Rightarrow> nat \<Rightarrow> 32 word \<Rightarrow> 32 word \<Rightarrow> 32 word \<Rightarrow> 32 word \<Rightarrow> 32 word" where
  "P_MD5_ROUND_3 x i s a b c d = P_MD5_ROTL (a + (P_MD5_I b c d + x + i)) s + b"

text \<open>The variables A, B, C, D, and a round macro applied to them in one of the four orders.\<close>

type_synonym md5_vars = "32 word \<times> 32 word \<times> 32 word \<times> 32 word"
type_synonym md5_round = "32 word \<Rightarrow> 32 word \<Rightarrow> 32 word \<Rightarrow> 32 word \<Rightarrow> 32 word"

fun on_ABCD :: "md5_round \<Rightarrow> md5_vars \<Rightarrow> md5_vars" where
  "on_ABCD r (A, B, C, D) = (r A B C D, B, C, D)"

fun on_DABC :: "md5_round \<Rightarrow> md5_vars \<Rightarrow> md5_vars" where
  "on_DABC r (A, B, C, D) = (A, B, C, r D A B C)"

fun on_CDAB :: "md5_round \<Rightarrow> md5_vars \<Rightarrow> md5_vars" where
  "on_CDAB r (A, B, C, D) = (A, B, r C D A B, D)"

fun on_BCDA :: "md5_round \<Rightarrow> md5_vars \<Rightarrow> md5_vars" where
  "on_BCDA r (A, B, C, D) = (A, r B C D A, C, D)"

text \<open>The statements of \<open>pp_crypto_hash_md5_process\<close>, in order.\<close>

definition md5_statements :: "32 word list \<Rightarrow> (md5_vars \<Rightarrow> md5_vars) list" where
  "md5_statements data =
     [on_ABCD (P_MD5_ROUND_0 (data ! 0) 0xD76AA478 7),
      on_DABC (P_MD5_ROUND_0 (data ! 1) 0xE8C7B756 12),
      on_CDAB (P_MD5_ROUND_0 (data ! 2) 0x242070DB 17),
      on_BCDA (P_MD5_ROUND_0 (data ! 3) 0xC1BDCEEE 22),
      on_ABCD (P_MD5_ROUND_0 (data ! 4) 0xF57C0FAF 7),
      on_DABC (P_MD5_ROUND_0 (data ! 5) 0x4787C62A 12),
      on_CDAB (P_MD5_ROUND_0 (data ! 6) 0xA8304613 17),
      on_BCDA (P_MD5_ROUND_0 (data ! 7) 0xFD469501 22),
      on_ABCD (P_MD5_ROUND_0 (data ! 8) 0x698098D8 7),
      on_DABC (P_MD5_ROUND_0 (data ! 9) 0x8B44F7AF 12),
      on_CDAB (P_MD5_ROUND_0 (data ! 10) 0xFFFF5BB1 17),
      on_BCDA (P_MD5_ROUND_0 (data ! 11) 0x895CD7BE 22),
      on_ABCD (P_MD5_ROUND_0 (data ! 12) 0x6B901122 7),
      on_DABC (P_MD5_ROUND_0 (data ! 13) 0xFD987193 12),
      on_CDAB (P_MD5_ROUND_0 (data ! 14) 0xA679438E 17),
      on_BCDA (P_MD5_ROUND_0 (data ! 15) 0x49B40821 22),
      on_ABCD (P_MD5_ROUND_1 (data ! 1) 0xF61E2562 5),
      on_DABC (P_MD5_ROUND_1 (data ! 6) 0xC040B340 9),
      on_CDAB (P_MD5_ROUND_1 (data ! 11) 0x265E5A51 14),
      on_BCDA (P_MD5_ROUND_1 (data ! 0) 0xE9B6C7AA 20),
      on_ABCD (P_MD5_ROUND_1 (data ! 5) 0xD62F105D 5),
      on_DABC (P_MD5_ROUND_1 (data ! 10) 0x02441453 9),
      on_CDAB (P_MD5_ROUND_1 (data ! 15) 0xD8A1E681 14),
      on_BCDA (P_MD5_ROUND_1 (data ! 4) 0xE7D3FBC8 20),
      on_ABCD (P_MD5_ROUND_1 (data ! 9) 0x21E1CDE6 5),
      on_DABC (P_MD5_ROUND_1 (data ! 14) 0xC33707D6 9),
      on_CDAB (P_MD5_ROUND_1 (data ! 3) 0xF4D50D87 14),
      on_BCDA (P_MD5_ROUND_1 (data ! 8) 0x455A14ED 20),
      on_ABCD (P_MD5_ROUND_1 (data ! 13) 0xA9E3E905 5),
      on_DABC (P_MD5_ROUND_1 (data ! 2) 0xFCEFA3F8 9),
      on_CDAB (P_MD5_ROUND_1 (data ! 7) 0x676F02D9 14),
      on_BCDA (P_MD5_ROUND_1 (data ! 12) 0x8D2A4C8A 20),
      on_ABCD (P_MD5_ROUND_2 (data ! 5) 0xFFFA3942 4),
      on_DABC (P_MD5_ROUND_2 (data ! 8) 0x8771F681 11),
      on_CDAB (P_MD5_ROUND_2 (data ! 11) 0x6D9D6122 16),
      on_BCDA (P_MD5_ROUND_2 (data ! 14) 0xFDE5380C 23),
      on_ABCD (P_MD5_ROUND_2 (data ! 1) 0xA4BEEA44 4),
      on_DABC (P_MD5_ROUND_2 (data ! 4) 0x4BDECFA9 11),
      on_CDAB (P_MD5_ROUND_2 (data ! 7) 0xF6BB4B60 16),
      on_BCDA (P_MD5_ROUND_2 (data ! 10) 0xBEBFBC70 23),
      on_ABCD (P_MD5_ROUND_2 (data ! 13) 0x289B7EC6 4),
      on_DABC (P_MD5_ROUND_2 (data ! 0) 0xEAA127FA 11),
      on_CDAB (P_MD5_ROUND_2 (data ! 3) 0xD4EF3085 16),
      on_BCDA (P_MD5_ROUND_2 (data ! 6) 0x04881D05 23),
      on_ABCD (P_MD5_ROUND_2 (data ! 9) 0xD9D4D039 4),
      on_DABC (P_MD5_ROUND_2 (data ! 12) 0xE6DB99E5 11),
      on_CDAB (P_MD5_ROUND_2 (data ! 15) 0x1FA27CF8 16),
      on_BCDA (P_MD5_ROUND_2 (data ! 2) 0xC4AC5665 23),
      on_ABCD (P_MD5_ROUND_3 (data ! 0) 0xF4292244 6),
      on_DABC (P_MD5_ROUND_3 (data ! 7) 0x432AFF97 10),
      on_CDAB (P_MD5_ROUND_3 (data ! 14) 0xAB9423A7 15),
      on_BCDA (P_MD5_ROUND_3 (data ! 5) 0xFC93A039 21),
      on_ABCD (P_MD5_ROUND_3 (data ! 12) 0x655B59C3 6),
      on_DABC (P_MD5_ROUND_3 (data ! 3) 0x8F0CCC92 10),
      on_CDAB (P_MD5_ROUND_3 (data ! 10) 0xFFEFF47D 15),
      on_BCDA (P_MD5_ROUND_3 (data ! 1) 0x85845DD1 21),
      on_ABCD (P_MD5_ROUND_3 (data ! 8) 0x6FA87E4F 6),
      on_DABC (P_MD5_ROUND_3 (data ! 15) 0xFE2CE6E0 10),
      on_CDAB (P_MD5_ROUND_3 (data ! 6) 0xA3014314 15),
      on_BCDA (P_MD5_ROUND_3 (data ! 13) 0x4E0811A1 21),
      on_ABCD (P_MD5_ROUND_3 (data ! 4) 0xF7537E82 6),
      on_DABC (P_MD5_ROUND_3 (data ! 11) 0xBD3AF235 10),
      on_CDAB (P_MD5_ROUND_3 (data ! 2) 0x2AD7D2BB 15),
      on_BCDA (P_MD5_ROUND_3 (data ! 9) 0xEB86D391 21)]"

definition pp_crypto_hash_md5_process :: "32 word list \<Rightarrow> 32 word list \<Rightarrow> 32 word list" where
  "pp_crypto_hash_md5_process h data =
     (case fold (\<lambda>stmt. stmt) (md5_statements data) (h ! 0, h ! 1, h ! 2, h ! 3) of
        (A, B, C, D) \<Rightarrow> [h ! 0 + A, h ! 1 + B, h ! 2 + C, h ! 3 + D])"

definition pp_crypto_hash_md5_swap_bytes :: "bool \<Rightarrow> 32 word list \<Rightarrow> nat \<Rightarrow> 32 word list" where
  "pp_crypto_hash_md5_swap_bytes big data words =
     (if \<not> big then data else swap_words (PUINT32_TO_LE big) data words)"

section \<open>The context\<close>

definition md5_iv :: "32 word list" where
  "md5_iv = [0x67452301, 0xEFCDAB89, 0x98BADCFE, 0x10325476]"

definition p_crypto_hash_md5_reset :: "PHashMD5 \<Rightarrow> PHashMD5" where
  "p_crypto_hash_md5_reset ctx =
     ctx\<lparr>buf := replicate 64 0, len_low := 0, len_high := 0, hash := md5_iv\<rparr>"

text \<open>\<open>mem\<close> says whether \<open>p_malloc0\<close> succeeds; the object it returns is all zero.\<close>

definition p_crypto_hash_md5_new :: "bool \<Rightarrow> PHashMD5 option" where
  "p_crypto_hash_md5_new mem =
     (if \<not> mem then None
      else Some (p_crypto_hash_md5_reset \<lparr>buf = replicate 64 0, hash = replicate 4 0, len_high = 0, len_low = 0\<rparr>))"

definition p_crypto_hash_md5_update :: "bool \<Rightarrow> PHashMD5 \<Rightarrow> byte list \<Rightarrow> PHashMD5" where
  "p_crypto_hash_md5_update big =
     block_update 64 (process_buf big (pp_crypto_hash_md5_swap_bytes big) pp_crypto_hash_md5_process)"

definition p_crypto_hash_md5_finish :: "bool \<Rightarrow> PHashMD5 \<Rightarrow> PHashMD5" where
  "p_crypto_hash_md5_finish big =
     block_finish 64 big (p_crypto_hash_md5_update big) (pp_crypto_hash_md5_swap_bytes big)
       pp_crypto_hash_md5_process (\<lambda>high low. (low, high)) 4"

definition p_crypto_hash_md5_digest :: "bool \<Rightarrow> PHashMD5 \<Rightarrow> byte list" where
  "p_crypto_hash_md5_digest big ctx = block_digest big ctx"

interpretation md5: block_hash PUINT32_TO_LE False pp_crypto_hash_md5_process pp_crypto_hash_md5_swap_bytes
    "\<lambda>high low. (low, high)" 64 4 4
proof unfold_locales
  fix big :: bool and ws :: "32 word list" and k :: nat
  have "map (PUINT32_TO_LE False) xs = xs" for xs by (induction xs) (simp_all add: PUINT32_TO_LE_def)
  then show "pp_crypto_hash_md5_swap_bytes big ws k = swap_words (PUINT32_TO_LE big) ws k"
    by (simp add: pp_crypto_hash_md5_swap_bytes_def swap_words_def)
next
  show "\<exists>m. (64::nat) = 2 ^ m" by (rule exI[of _ 6]) simp
next
  fix h ws :: "32 word list" assume "length h = 4"
  then show "length (pp_crypto_hash_md5_process h ws) = 4"
    by (simp add: pp_crypto_hash_md5_process_def split: prod.splits)
qed simp_all

section \<open>RFC 1321\<close>

text \<open>The reference: 64 steps on (a, b, c, d), with the tables T and s and the word index of each round.\<close>

definition md5_T :: "32 word list" where
  "md5_T =
     [0xD76AA478, 0xE8C7B756, 0x242070DB, 0xC1BDCEEE,
      0xF57C0FAF, 0x4787C62A, 0xA8304613, 0xFD469501,
      0x698098D8, 0x8B44F7AF, 0xFFFF5BB1, 0x895CD7BE,
      0x6B901122, 0xFD987193, 0xA679438E, 0x49B40821,
      0xF61E2562, 0xC040B340, 0x265E5A51, 0xE9B6C7AA,
      0xD62F105D, 0x02441453, 0xD8A1E681, 0xE7D3FBC8,
      0x21E1CDE6, 0xC33707D6, 0xF4D50D87, 0x455A14ED,
      0xA9E3E905, 0xFCEFA3F8, 0x676F02D9, 0x8D2A4C8A,
      0xFFFA3942, 0x8771F681, 0x6D9D6122, 0xFDE5380C,
      0xA4BEEA44, 0x4BDECFA9, 0xF6BB4B60, 0xBEBFBC70,
      0x289B7EC6, 0xEAA127FA, 0xD4EF3085, 0x04881D05,
      0xD9D4D039, 0xE6DB99E5, 0x1FA27CF8, 0xC4AC5665,
      0xF4292244, 0x432AFF97, 0xAB9423A7, 0xFC93A039,
      0x655B59C3, 0x8F0CCC92, 0xFFEFF47D, 0x85845DD1,
      0x6FA87E4F, 0xFE2CE6E0, 0xA3014314, 0x4E0811A1,
      0xF7537E82, 0xBD3AF235, 0x2AD7D2BB, 0xEB86D391]"

definition md5_s :: "nat list" where
  "md5_s = [7, 12, 17, 22, 5, 9, 14, 20, 4, 11, 16, 23, 6, 10, 15, 21]"

definition md5_f :: "nat \<Rightarrow> 32 word \<Rightarrow> 32 word \<Rightarrow> 32 word \<Rightarrow> 32 word" where
  "md5_f t x y z =
     (if t < 16 then (x AND y) OR (NOT x AND z)
      else if t < 32 then (x AND z) OR (y AND NOT z)
      else if t < 48 then x XOR y XOR z
      else y XOR (x OR NOT z))"

definition md5_k :: "nat \<Rightarrow> nat" where
  "md5_k t =
     (if t < 16 then t
      else if t < 32 then (5 * t + 1) mod 16
      else if t < 48 then (3 * t + 5) mod 16
      else (7 * t) mod 16)"

fun md5_step :: "32 word list \<Rightarrow> nat \<Rightarrow> md5_vars \<Rightarrow> md5_vars" where
  "md5_step X t (a, b, c, d) =
     (d, b + word_rotl (md5_s ! (4 * (t div 16) + t mod 4)) (a + md5_f t b c d + X ! md5_k t + md5_T ! t), b, c)"

definition md5_compress :: "32 word list \<Rightarrow> 32 word list \<Rightarrow> 32 word list" where
  "md5_compress h X =
     (case fold (md5_step X) [0..<64] (h ! 0, h ! 1, h ! 2, h ! 3) of
        (a, b, c, d) \<Rightarrow> [h ! 0 + a, h ! 1 + b, h ! 2 + c, h ! 3 + d])"

text \<open>The value a step computes, and the code's round macro that computes it.\<close>

definition md5_value :: "32 word list \<Rightarrow> nat \<Rightarrow> md5_round" where
  "md5_value X t a b c d =
     b + word_rotl (md5_s ! (4 * (t div 16) + t mod 4)) (a + md5_f t b c d + X ! md5_k t + md5_T ! t)"

definition md5_macro :: "32 word list \<Rightarrow> nat \<Rightarrow> md5_round" where
  "md5_macro X t =
     (if t < 16 then P_MD5_ROUND_0 else if t < 32 then P_MD5_ROUND_1 else if t < 48 then P_MD5_ROUND_2
      else P_MD5_ROUND_3) (X ! md5_k t) (md5_T ! t) (md5_s ! (4 * (t div 16) + t mod 4))"

lemma md5_step_value: "md5_step X t (a, b, c, d) = (d, md5_value X t a b c d, b, c)"
  by (simp add: md5_value_def)

lemma P_MD5_ROTL_rotl: "0 < s \<Longrightarrow> s < 32 \<Longrightarrow> P_MD5_ROTL v s = word_rotl s v"
  using rotl_macro[of s v] by (simp add: P_MD5_ROTL_def)

lemma md5_boolean:
  "P_MD5_F x y z = (x AND y) OR (NOT x AND z)" "P_MD5_G x y z = (x AND z) OR (y AND NOT z)"
  unfolding P_MD5_F_def P_MD5_G_def by (rule bit_word_eqI; auto simp: bit_simps)+

lemma md5_shift: "t < 64 \<Longrightarrow> 0 < md5_s ! (4 * (t div 16) + t mod 4) \<and> md5_s ! (4 * (t div 16) + t mod 4) < 32"
proof -
  assume "t < 64"
  then have "t div 16 < 4" by (simp add: less_mult_imp_div_less)
  moreover have "t mod 4 < 4" by simp
  moreover have "length md5_s = 16" by (simp add: md5_s_def)
  ultimately have "4 * (t div 16) + t mod 4 < length md5_s" by linarith
  moreover have "\<forall>s \<in> set md5_s. 0 < s \<and> s < 32" by (simp add: md5_s_def)
  ultimately show ?thesis by (meson nth_mem)
qed

lemma md5_macro_value: "t < 64 \<Longrightarrow> md5_macro X t = md5_value X t"
  using md5_shift[of t]
  by (auto simp: fun_eq_iff md5_macro_def md5_value_def P_MD5_ROUND_0_def P_MD5_ROUND_1_def P_MD5_ROUND_2_def
      P_MD5_ROUND_3_def P_MD5_ROTL_rotl md5_boolean P_MD5_H_def P_MD5_I_def md5_f_def ac_simps)

definition md5_four :: "32 word list \<Rightarrow> nat \<Rightarrow> (md5_vars \<Rightarrow> md5_vars) list" where
  "md5_four X t = [on_ABCD (md5_macro X t), on_DABC (md5_macro X (t + 1)), on_CDAB (md5_macro X (t + 2)),
     on_BCDA (md5_macro X (t + 3))]"

lemma md5_statements_four:
  "md5_statements X = concat (map (md5_four X) [0, 4, 8, 12, 16, 20, 24, 28, 32, 36, 40, 44, 48, 52, 56, 60])"
  by (simp add: md5_statements_def md5_four_def md5_macro_def md5_k_def md5_T_def md5_s_def) (simp add: numeral_2_eq_2)

lemma md5_four_steps:
  "t + 3 < 64 \<Longrightarrow> fold (\<lambda>stmt. stmt) (md5_four X t) st = fold (md5_step X) [t, t + 1, t + 2, t + 3] st"
  by (cases st) (simp add: md5_four_def md5_macro_value md5_step_value del: md5_step.simps)

lemma md5_process_compress: "pp_crypto_hash_md5_process h X = md5_compress h X"
proof -
  have "[0..<64] = concat (map (\<lambda>t. [t, t + 1, t + 2, t + 3]) [0, 4, 8, 12, 16, 20, 24, 28, 32, 36, 40, 44, 48, 52, 56, 60])"
    by code_simp
  then have "fold (md5_step X) [0..<64] st = fold (\<lambda>stmt. stmt) (md5_statements X) st" for st
    by (simp only: md5_statements_four list.map concat.simps fold_append comp_def) (simp add: md5_four_steps del: fold_simps)
  then show ?thesis by (simp add: pp_crypto_hash_md5_process_def md5_compress_def)
qed

end
