(* ===== verification/PSha1.thy ===== *)
theory PSha1
  imports PHashBlock
begin

text \<open>
  SHA-1 (\<open>pcryptohash-sha1.c\<close>): the unrolled transformation with its circular message schedule, the
  context functions, and the equivalence with the 80-step loop of FIPS 180.
\<close>

section \<open>The transformation\<close>

type_synonym PHashSHA1 = "32 hash_ctx"

definition P_SHA1_ROTL :: "32 word \<Rightarrow> nat \<Rightarrow> 32 word" where
  "P_SHA1_ROTL val shift = push_bit shift val OR drop_bit (32 - shift) val"

definition P_SHA1_F1 :: "32 word \<Rightarrow> 32 word \<Rightarrow> 32 word \<Rightarrow> 32 word" where
  "P_SHA1_F1 x y z = (x AND y) OR (NOT x AND z)"

definition P_SHA1_F2 :: "32 word \<Rightarrow> 32 word \<Rightarrow> 32 word \<Rightarrow> 32 word" where
  "P_SHA1_F2 x y z = (x XOR y XOR z)"

definition P_SHA1_F3 :: "32 word \<Rightarrow> 32 word \<Rightarrow> 32 word \<Rightarrow> 32 word" where
  "P_SHA1_F3 x y z = (x AND y) OR (x AND z) OR (y AND z)"

text \<open>
  The word a round uses: \<open>W[k]\<close>, or the expression \<open>P_SHA1_W (W, i)\<close>, which assigns a slot of the array and
  has the assigned value.  The index \<open>i & 0x0F\<close> is \<open>i mod 16\<close>.
\<close>

type_synonym sha1_word = "32 word list \<Rightarrow> 32 word list \<times> 32 word"

definition read_W :: "nat \<Rightarrow> sha1_word" where
  "read_W k W = (W, W ! k)"

definition P_SHA1_W :: "nat \<Rightarrow> sha1_word" where
  "P_SHA1_W i W =
     (let x = P_SHA1_ROTL
            (W ! ((i - 3) mod 16) XOR W ! ((i - 8) mod 16) XOR W ! ((i - 14) mod 16) XOR W ! ((i - 16) mod 16)) 1
      in (W[i mod 16 := x], x))"

text \<open>A round macro gives \<open>e\<close> and \<open>b\<close> new values.\<close>

type_synonym sha1_round =
  "32 word \<Rightarrow> 32 word \<Rightarrow> 32 word \<Rightarrow> 32 word \<Rightarrow> 32 word \<Rightarrow> 32 word \<Rightarrow> 32 word \<times> 32 word"

definition P_SHA1_ROUND_0 :: sha1_round where
  "P_SHA1_ROUND_0 a b c d e w =
     (e + (P_SHA1_ROTL a 5 + P_SHA1_F1 b c d + 0x5A827999 + w), P_SHA1_ROTL b 30)"

definition P_SHA1_ROUND_1 :: sha1_round where
  "P_SHA1_ROUND_1 a b c d e w =
     (e + (P_SHA1_ROTL a 5 + P_SHA1_F2 b c d + 0x6ED9EBA1 + w), P_SHA1_ROTL b 30)"

definition P_SHA1_ROUND_2 :: sha1_round where
  "P_SHA1_ROUND_2 a b c d e w =
     (e + (P_SHA1_ROTL a 5 + P_SHA1_F3 b c d + 0x8F1BBCDC + w), P_SHA1_ROTL b 30)"

definition P_SHA1_ROUND_3 :: sha1_round where
  "P_SHA1_ROUND_3 a b c d e w =
     (e + (P_SHA1_ROTL a 5 + P_SHA1_F2 b c d + 0xCA62C1D6 + w), P_SHA1_ROTL b 30)"

text \<open>The local variables, and a round macro applied to A to E in one of the five orders.\<close>

type_synonym sha1_vars = "32 word list \<times> 32 word \<times> 32 word \<times> 32 word \<times> 32 word \<times> 32 word"

fun on_ABCDE :: "sha1_round \<Rightarrow> sha1_word \<Rightarrow> sha1_vars \<Rightarrow> sha1_vars" where
  "on_ABCDE r w (W, A, B, C, D, E) =
     (let (W', x) = w W; (E', B') = r A B C D E x in (W', A, B', C, D, E'))"

fun on_EABCD :: "sha1_round \<Rightarrow> sha1_word \<Rightarrow> sha1_vars \<Rightarrow> sha1_vars" where
  "on_EABCD r w (W, A, B, C, D, E) =
     (let (W', x) = w W; (D', A') = r E A B C D x in (W', A', B, C, D', E))"

fun on_DEABC :: "sha1_round \<Rightarrow> sha1_word \<Rightarrow> sha1_vars \<Rightarrow> sha1_vars" where
  "on_DEABC r w (W, A, B, C, D, E) =
     (let (W', x) = w W; (C', E') = r D E A B C x in (W', A, B, C', D, E'))"

fun on_CDEAB :: "sha1_round \<Rightarrow> sha1_word \<Rightarrow> sha1_vars \<Rightarrow> sha1_vars" where
  "on_CDEAB r w (W, A, B, C, D, E) =
     (let (W', x) = w W; (B', D') = r C D E A B x in (W', A, B', C, D', E))"

fun on_BCDEA :: "sha1_round \<Rightarrow> sha1_word \<Rightarrow> sha1_vars \<Rightarrow> sha1_vars" where
  "on_BCDEA r w (W, A, B, C, D, E) =
     (let (W', x) = w W; (A', C') = r B C D E A x in (W', A', B, C', D, E))"

text \<open>The statements of \<open>pp_crypto_hash_sha1_process\<close>, in order.\<close>

definition sha1_statements :: "(sha1_vars \<Rightarrow> sha1_vars) list" where
  "sha1_statements =
     [on_ABCDE P_SHA1_ROUND_0 (read_W 0),
      on_EABCD P_SHA1_ROUND_0 (read_W 1),
      on_DEABC P_SHA1_ROUND_0 (read_W 2),
      on_CDEAB P_SHA1_ROUND_0 (read_W 3),
      on_BCDEA P_SHA1_ROUND_0 (read_W 4),
      on_ABCDE P_SHA1_ROUND_0 (read_W 5),
      on_EABCD P_SHA1_ROUND_0 (read_W 6),
      on_DEABC P_SHA1_ROUND_0 (read_W 7),
      on_CDEAB P_SHA1_ROUND_0 (read_W 8),
      on_BCDEA P_SHA1_ROUND_0 (read_W 9),
      on_ABCDE P_SHA1_ROUND_0 (read_W 10),
      on_EABCD P_SHA1_ROUND_0 (read_W 11),
      on_DEABC P_SHA1_ROUND_0 (read_W 12),
      on_CDEAB P_SHA1_ROUND_0 (read_W 13),
      on_BCDEA P_SHA1_ROUND_0 (read_W 14),
      on_ABCDE P_SHA1_ROUND_0 (read_W 15),
      on_EABCD P_SHA1_ROUND_0 (P_SHA1_W 16),
      on_DEABC P_SHA1_ROUND_0 (P_SHA1_W 17),
      on_CDEAB P_SHA1_ROUND_0 (P_SHA1_W 18),
      on_BCDEA P_SHA1_ROUND_0 (P_SHA1_W 19),
      on_ABCDE P_SHA1_ROUND_1 (P_SHA1_W 20),
      on_EABCD P_SHA1_ROUND_1 (P_SHA1_W 21),
      on_DEABC P_SHA1_ROUND_1 (P_SHA1_W 22),
      on_CDEAB P_SHA1_ROUND_1 (P_SHA1_W 23),
      on_BCDEA P_SHA1_ROUND_1 (P_SHA1_W 24),
      on_ABCDE P_SHA1_ROUND_1 (P_SHA1_W 25),
      on_EABCD P_SHA1_ROUND_1 (P_SHA1_W 26),
      on_DEABC P_SHA1_ROUND_1 (P_SHA1_W 27),
      on_CDEAB P_SHA1_ROUND_1 (P_SHA1_W 28),
      on_BCDEA P_SHA1_ROUND_1 (P_SHA1_W 29),
      on_ABCDE P_SHA1_ROUND_1 (P_SHA1_W 30),
      on_EABCD P_SHA1_ROUND_1 (P_SHA1_W 31),
      on_DEABC P_SHA1_ROUND_1 (P_SHA1_W 32),
      on_CDEAB P_SHA1_ROUND_1 (P_SHA1_W 33),
      on_BCDEA P_SHA1_ROUND_1 (P_SHA1_W 34),
      on_ABCDE P_SHA1_ROUND_1 (P_SHA1_W 35),
      on_EABCD P_SHA1_ROUND_1 (P_SHA1_W 36),
      on_DEABC P_SHA1_ROUND_1 (P_SHA1_W 37),
      on_CDEAB P_SHA1_ROUND_1 (P_SHA1_W 38),
      on_BCDEA P_SHA1_ROUND_1 (P_SHA1_W 39),
      on_ABCDE P_SHA1_ROUND_2 (P_SHA1_W 40),
      on_EABCD P_SHA1_ROUND_2 (P_SHA1_W 41),
      on_DEABC P_SHA1_ROUND_2 (P_SHA1_W 42),
      on_CDEAB P_SHA1_ROUND_2 (P_SHA1_W 43),
      on_BCDEA P_SHA1_ROUND_2 (P_SHA1_W 44),
      on_ABCDE P_SHA1_ROUND_2 (P_SHA1_W 45),
      on_EABCD P_SHA1_ROUND_2 (P_SHA1_W 46),
      on_DEABC P_SHA1_ROUND_2 (P_SHA1_W 47),
      on_CDEAB P_SHA1_ROUND_2 (P_SHA1_W 48),
      on_BCDEA P_SHA1_ROUND_2 (P_SHA1_W 49),
      on_ABCDE P_SHA1_ROUND_2 (P_SHA1_W 50),
      on_EABCD P_SHA1_ROUND_2 (P_SHA1_W 51),
      on_DEABC P_SHA1_ROUND_2 (P_SHA1_W 52),
      on_CDEAB P_SHA1_ROUND_2 (P_SHA1_W 53),
      on_BCDEA P_SHA1_ROUND_2 (P_SHA1_W 54),
      on_ABCDE P_SHA1_ROUND_2 (P_SHA1_W 55),
      on_EABCD P_SHA1_ROUND_2 (P_SHA1_W 56),
      on_DEABC P_SHA1_ROUND_2 (P_SHA1_W 57),
      on_CDEAB P_SHA1_ROUND_2 (P_SHA1_W 58),
      on_BCDEA P_SHA1_ROUND_2 (P_SHA1_W 59),
      on_ABCDE P_SHA1_ROUND_3 (P_SHA1_W 60),
      on_EABCD P_SHA1_ROUND_3 (P_SHA1_W 61),
      on_DEABC P_SHA1_ROUND_3 (P_SHA1_W 62),
      on_CDEAB P_SHA1_ROUND_3 (P_SHA1_W 63),
      on_BCDEA P_SHA1_ROUND_3 (P_SHA1_W 64),
      on_ABCDE P_SHA1_ROUND_3 (P_SHA1_W 65),
      on_EABCD P_SHA1_ROUND_3 (P_SHA1_W 66),
      on_DEABC P_SHA1_ROUND_3 (P_SHA1_W 67),
      on_CDEAB P_SHA1_ROUND_3 (P_SHA1_W 68),
      on_BCDEA P_SHA1_ROUND_3 (P_SHA1_W 69),
      on_ABCDE P_SHA1_ROUND_3 (P_SHA1_W 70),
      on_EABCD P_SHA1_ROUND_3 (P_SHA1_W 71),
      on_DEABC P_SHA1_ROUND_3 (P_SHA1_W 72),
      on_CDEAB P_SHA1_ROUND_3 (P_SHA1_W 73),
      on_BCDEA P_SHA1_ROUND_3 (P_SHA1_W 74),
      on_ABCDE P_SHA1_ROUND_3 (P_SHA1_W 75),
      on_EABCD P_SHA1_ROUND_3 (P_SHA1_W 76),
      on_DEABC P_SHA1_ROUND_3 (P_SHA1_W 77),
      on_CDEAB P_SHA1_ROUND_3 (P_SHA1_W 78),
      on_BCDEA P_SHA1_ROUND_3 (P_SHA1_W 79)]"

definition pp_crypto_hash_sha1_process :: "32 word list \<Rightarrow> 32 word list \<Rightarrow> 32 word list" where
  "pp_crypto_hash_sha1_process h data =
     (case fold (\<lambda>stmt. stmt) sha1_statements (data, h ! 0, h ! 1, h ! 2, h ! 3, h ! 4) of
        (W, A, B, C, D, E) \<Rightarrow> [h ! 0 + A, h ! 1 + B, h ! 2 + C, h ! 3 + D, h ! 4 + E])"

definition pp_crypto_hash_sha1_swap_bytes :: "bool \<Rightarrow> 32 word list \<Rightarrow> nat \<Rightarrow> 32 word list" where
  "pp_crypto_hash_sha1_swap_bytes big data words =
     (if big then data else swap_words (PUINT32_TO_BE big) data words)"

section \<open>The context\<close>

definition sha1_iv :: "32 word list" where
  "sha1_iv = [0x67452301, 0xEFCDAB89, 0x98BADCFE, 0x10325476, 0xC3D2E1F0]"

definition p_crypto_hash_sha1_reset :: "PHashSHA1 \<Rightarrow> PHashSHA1" where
  "p_crypto_hash_sha1_reset ctx =
     ctx\<lparr>buf := replicate 64 0, len_low := 0, len_high := 0, hash := sha1_iv\<rparr>"

definition p_crypto_hash_sha1_new :: "bool \<Rightarrow> PHashSHA1 option" where
  "p_crypto_hash_sha1_new mem =
     (if \<not> mem then None
      else Some (p_crypto_hash_sha1_reset \<lparr>buf = replicate 64 0, hash = replicate 5 0, len_high = 0, len_low = 0\<rparr>))"

definition p_crypto_hash_sha1_update :: "bool \<Rightarrow> PHashSHA1 \<Rightarrow> byte list \<Rightarrow> PHashSHA1" where
  "p_crypto_hash_sha1_update big =
     block_update 64 (process_buf big (pp_crypto_hash_sha1_swap_bytes big) pp_crypto_hash_sha1_process)"

definition p_crypto_hash_sha1_finish :: "bool \<Rightarrow> PHashSHA1 \<Rightarrow> PHashSHA1" where
  "p_crypto_hash_sha1_finish big =
     block_finish 64 big (p_crypto_hash_sha1_update big) (pp_crypto_hash_sha1_swap_bytes big)
       pp_crypto_hash_sha1_process (\<lambda>high low. (high, low)) 5"

definition p_crypto_hash_sha1_digest :: "bool \<Rightarrow> PHashSHA1 \<Rightarrow> byte list" where
  "p_crypto_hash_sha1_digest big ctx = block_digest big ctx"

interpretation sha1: block_hash PUINT32_TO_BE True pp_crypto_hash_sha1_process pp_crypto_hash_sha1_swap_bytes
    "\<lambda>high low. (high, low)" 64 5 5
proof unfold_locales
  fix big :: bool and ws :: "32 word list" and k :: nat
  have "map (PUINT32_TO_BE True) xs = xs" for xs by (induction xs) (simp_all add: PUINT32_TO_BE_def)
  then show "pp_crypto_hash_sha1_swap_bytes big ws k = swap_words (PUINT32_TO_BE big) ws k"
    by (simp add: pp_crypto_hash_sha1_swap_bytes_def swap_words_def)
next
  show "\<exists>m. (64::nat) = 2 ^ m" by (rule exI[of _ 6]) simp
next
  fix h ws :: "32 word list" assume "length h = 5"
  then show "length (pp_crypto_hash_sha1_process h ws) = 5"
    by (simp add: pp_crypto_hash_sha1_process_def split: prod.splits)
qed simp_all

section \<open>FIPS 180\<close>

text \<open>The reference: the message schedule of 80 words, and 80 steps on (a, b, c, d, e).\<close>

fun sha1_w :: "32 word list \<Rightarrow> nat \<Rightarrow> 32 word" where
  "sha1_w M t =
     (if t < 16 then M ! t
      else word_rotl 1 (sha1_w M (t - 3) XOR sha1_w M (t - 8) XOR sha1_w M (t - 14) XOR sha1_w M (t - 16)))"

declare sha1_w.simps [simp del]

definition sha1_f :: "nat \<Rightarrow> 32 word \<Rightarrow> 32 word \<Rightarrow> 32 word \<Rightarrow> 32 word" where
  "sha1_f t x y z =
     (if t < 20 then (x AND y) XOR (NOT x AND z)
      else if t < 40 then x XOR y XOR z
      else if t < 60 then (x AND y) XOR (x AND z) XOR (y AND z)
      else x XOR y XOR z)"

definition sha1_K :: "nat \<Rightarrow> 32 word" where
  "sha1_K t = (if t < 20 then 0x5A827999 else if t < 40 then 0x6ED9EBA1 else if t < 60 then 0x8F1BBCDC else 0xCA62C1D6)"

type_synonym sha1_state = "32 word \<times> 32 word \<times> 32 word \<times> 32 word \<times> 32 word"

fun sha1_step :: "32 word list \<Rightarrow> nat \<Rightarrow> sha1_state \<Rightarrow> sha1_state" where
  "sha1_step M t (a, b, c, d, e) =
     (word_rotl 5 a + sha1_f t b c d + e + sha1_K t + sha1_w M t, a, word_rotl 30 b, c, d)"

definition sha1_compress :: "32 word list \<Rightarrow> 32 word list \<Rightarrow> 32 word list" where
  "sha1_compress h M =
     (case fold (sha1_step M) [0..<80] (h ! 0, h ! 1, h ! 2, h ! 3, h ! 4) of
        (a, b, c, d, e) \<Rightarrow> [h ! 0 + a, h ! 1 + b, h ! 2 + c, h ! 3 + d, h ! 4 + e])"

text \<open>
  The code's statement number \<open>t\<close>: its macro, its word and its order of the variables.  \<open>sha1_view\<close> lists
  the variables in the order in which statement \<open>t\<close> takes them.
\<close>

definition sha1_macro :: "nat \<Rightarrow> sha1_round" where
  "sha1_macro t = (if t < 20 then P_SHA1_ROUND_0 else if t < 40 then P_SHA1_ROUND_1 else if t < 60 then P_SHA1_ROUND_2
     else P_SHA1_ROUND_3)"

definition sha1_order :: "nat \<Rightarrow> sha1_round \<Rightarrow> sha1_word \<Rightarrow> sha1_vars \<Rightarrow> sha1_vars" where
  "sha1_order k = (if k = 0 then on_ABCDE else if k = 1 then on_EABCD else if k = 2 then on_DEABC
     else if k = 3 then on_CDEAB else on_BCDEA)"

definition sha1_statement :: "nat \<Rightarrow> sha1_vars \<Rightarrow> sha1_vars" where
  "sha1_statement t = sha1_order (t mod 5) (sha1_macro t) (if t < 16 then read_W t else P_SHA1_W t)"

fun sha1_view :: "nat \<Rightarrow> sha1_vars \<Rightarrow> sha1_state" where
  "sha1_view k (W, A, B, C, D, E) =
     (if k = 0 then (A, B, C, D, E) else if k = 1 then (E, A, B, C, D) else if k = 2 then (D, E, A, B, C)
      else if k = 3 then (C, D, E, A, B) else (B, C, D, E, A))"

lemma sha1_statements_eq: "sha1_statements = map sha1_statement [0, 1, 2, 3, 4, 5, 6, 7, 8, 9, 10, 11, 12, 13, 14, 15, 16, 17, 18, 19, 20, 21, 22, 23, 24, 25, 26, 27, 28, 29, 30, 31, 32, 33, 34, 35, 36, 37, 38, 39, 40, 41, 42, 43, 44, 45, 46, 47, 48, 49, 50, 51, 52, 53, 54, 55, 56, 57, 58, 59, 60, 61, 62, 63, 64, 65, 66, 67, 68, 69, 70, 71, 72, 73, 74, 75, 76, 77, 78, 79]"
  by (simp add: sha1_statements_def sha1_statement_def sha1_order_def sha1_macro_def)

lemma P_SHA1_ROTL_rotl: "0 < s \<Longrightarrow> s < 32 \<Longrightarrow> P_SHA1_ROTL v s = word_rotl s v"
  using rotl_macro[of s v] by (simp add: P_SHA1_ROTL_def)

lemma sha1_boolean:
  "P_SHA1_F1 x y z = (x AND y) XOR (NOT x AND z)" "P_SHA1_F3 x y z = (x AND y) XOR (x AND z) XOR (y AND z)"
  unfolding P_SHA1_F1_def P_SHA1_F3_def by (rule bit_word_eqI; auto simp: bit_simps)+

lemma sha1_macro_value:
  "sha1_macro t a b c d e w = (word_rotl 5 a + sha1_f t b c d + e + sha1_K t + w, word_rotl 30 b)"
  by (auto simp: sha1_macro_def P_SHA1_ROUND_0_def P_SHA1_ROUND_1_def P_SHA1_ROUND_2_def P_SHA1_ROUND_3_def
      P_SHA1_ROTL_rotl sha1_boolean P_SHA1_F2_def sha1_f_def sha1_K_def ac_simps)

lemma sha1_order_view:
  assumes "k < 5" "w (fst vars) = (W', x)"
  shows "fst (sha1_order k (sha1_macro t) w vars) = W'"
    and "sha1_view (Suc k mod 5) (sha1_order k (sha1_macro t) w vars) =
      (case sha1_view k vars of (a, b, c, d, e) \<Rightarrow>
         (word_rotl 5 a + sha1_f t b c d + e + sha1_K t + x, a, word_rotl 30 b, c, d))"
proof -
  have k: "k = 0 \<or> k = 1 \<or> k = 2 \<or> k = 3 \<or> k = 4" using assms(1) by arith
  obtain W A B C D E where v: "vars = (W, A, B, C, D, E)" by (metis prod_cases6)
  show "fst (sha1_order k (sha1_macro t) w vars) = W'"
    using k assms(2) by (elim disjE) (simp_all add: v sha1_order_def sha1_macro_value)
  show "sha1_view (Suc k mod 5) (sha1_order k (sha1_macro t) w vars) =
      (case sha1_view k vars of (a, b, c, d, e) \<Rightarrow>
         (word_rotl 5 a + sha1_f t b c d + e + sha1_K t + x, a, word_rotl 30 b, c, d))"
    using k assms(2) by (elim disjE) (simp_all add: v sha1_order_def sha1_macro_value)
qed

text \<open>The circular array holds the last 16 words of the schedule.\<close>

definition circular :: "32 word list \<Rightarrow> nat \<Rightarrow> 32 word list \<Rightarrow> bool" where
  "circular M t W \<longleftrightarrow> length W = 16 \<and> (\<forall>i. max t 16 - 16 \<le> i \<and> i < max t 16 \<longrightarrow> W ! (i mod 16) = sha1_w M i)"

lemma circular_step:
  assumes "circular M t W"
  shows "\<exists>W'. (if t < 16 then read_W t else P_SHA1_W t) W = (W', sha1_w M t) \<and> circular M (Suc t) W'"
proof (cases "t < 16")
  case True
  then show ?thesis using assms by (auto simp: read_W_def circular_def)
next
  case False
  have W: "length W = 16" "\<And>i. t - 16 \<le> i \<Longrightarrow> i < t \<Longrightarrow> W ! (i mod 16) = sha1_w M i"
    using assms False by (simp_all add: circular_def max_def)
  have x: "P_SHA1_W t W = (W[t mod 16 := sha1_w M t], sha1_w M t)"
    using False W(2)[of "t - 3"] W(2)[of "t - 8"] W(2)[of "t - 14"] W(2)[of "t - 16"]
    by (simp add: P_SHA1_W_def Let_def P_SHA1_ROTL_rotl sha1_w.simps[of M t])
  have "W[t mod 16 := sha1_w M t] ! (i mod 16) = sha1_w M i" if "t - 15 \<le> i" "i < Suc t" for i
  proof (cases "i = t")
    case False
    then have "0 < t - i" "t - i < 16" "i \<le> t" using that by linarith+
    then have "i mod 16 \<noteq> t mod 16" using mod_eq_dvd_iff_nat[of i t 16] nat_dvd_not_less by auto
    then show ?thesis using W(2)[of i] that False by simp
  qed (use W(1) in simp)
  then have "circular M (Suc t) (W[t mod 16 := sha1_w M t])" using W(1) False by (simp add: circular_def max_def)
  with x False show ?thesis by simp
qed

lemma sha1_statement_step:
  assumes "circular M t (fst vars)"
  shows "circular M (Suc t) (fst (sha1_statement t vars))"
    and "sha1_view (Suc t mod 5) (sha1_statement t vars) = sha1_step M t (sha1_view (t mod 5) vars)"
proof -
  obtain W' where w: "(if t < 16 then read_W t else P_SHA1_W t) (fst vars) = (W', sha1_w M t)" "circular M (Suc t) W'"
    using circular_step[OF assms] by blast
  have k: "t mod 5 < 5" by simp
  note v = sha1_order_view[where w = "if t < 16 then read_W t else P_SHA1_W t" and vars = vars, OF k w(1)]
  show "circular M (Suc t) (fst (sha1_statement t vars))"
    unfolding sha1_statement_def v(1) by (rule w(2))
  have "Suc (t mod 5) mod 5 = Suc t mod 5" by (simp add: mod_Suc_eq)
  then show "sha1_view (Suc t mod 5) (sha1_statement t vars) = sha1_step M t (sha1_view (t mod 5) vars)"
    using v(2)[of t] unfolding sha1_statement_def by (cases "sha1_view (t mod 5) vars") simp
qed

interpretation sha1_rounds: unrolled sha1_statement "\<lambda>t vars. circular M t (fst vars)"
    "\<lambda>t vars. sha1_view (t mod 5) vars" "sha1_step M" 80 for M
  by unfold_locales (simp add: sha1_statement_step del: sha1_step.simps sha1_view.simps)

lemma sha1_process_compress:
  assumes "length M = 16"
  shows "pp_crypto_hash_sha1_process h M = sha1_compress h M"
proof -
  let ?init = "(M, h ! 0, h ! 1, h ! 2, h ! 3, h ! 4)"
  have "sha1_statements = map sha1_statement [0..<80]"
    unfolding sha1_statements_eq by (rule arg_cong[where f = "map sha1_statement"]) code_simp
  moreover have "circular M 0 (fst ?init)" using assms by (simp add: circular_def sha1_w.simps)
  ultimately have "sha1_view (80 mod 5) (fold (\<lambda>f. f) sha1_statements ?init) =
      fold (sha1_step M) [0..<80] (sha1_view (0 mod 5) ?init)"
    by (intro sha1_rounds.all_statements)
  then show ?thesis
    by (cases "fold (\<lambda>f. f) sha1_statements ?init")
      (simp add: pp_crypto_hash_sha1_process_def sha1_compress_def flip: mod_mult_self1_is_0)
qed

end
