(* ===== verification/PFips180.thy ===== *)
theory PFips180
  imports "HOL-Library.Word"
begin

text \<open>
  The constants of FIPS 180, as the standard describes them and independent of the tables of the code: the
  first bits of the fractional parts of the cube roots and of the square roots of the first primes.
\<close>

section \<open>Integer roots\<close>

text \<open>The largest \<open>r < 2 ^ b\<close> with \<open>r ^ k \<le> n\<close>, bit by bit.\<close>

fun root_search :: "nat \<Rightarrow> nat \<Rightarrow> nat \<Rightarrow> nat \<Rightarrow> nat" where
  "root_search k n 0 r = r"
| "root_search k n (Suc i) r = root_search k n i (if (r + 2 ^ i) ^ k \<le> n then r + 2 ^ i else r)"

definition int_root :: "nat \<Rightarrow> nat \<Rightarrow> nat \<Rightarrow> nat" where
  "int_root k b n = root_search k n b 0"

text \<open>The first \<open>b\<close> bits of the fractional part of the \<open>k\<close>-th root of \<open>p\<close>, for roots below 32.\<close>

definition frac_root :: "nat \<Rightarrow> nat \<Rightarrow> nat \<Rightarrow> nat" where
  "frac_root k b p = int_root k (b + 5) (p * 2 ^ (k * b)) mod 2 ^ b"

lemma root_search_ok:
  "r ^ k \<le> n \<Longrightarrow> n < (r + 2 ^ i) ^ k \<Longrightarrow> root_search k n i r ^ k \<le> n \<and> n < (root_search k n i r + 1) ^ k"
proof (induction i arbitrary: r)
  case (Suc i)
  have e: "r + 2 ^ Suc i = r + 2 ^ i + 2 ^ i" by simp
  show ?case using Suc.IH[of "r + 2 ^ i"] Suc.IH[of r] Suc.prems unfolding e by (cases "(r + 2 ^ i) ^ k \<le> n") simp_all
qed simp

lemma int_root_ok:
  assumes "0 < k" "n < (2 ^ b) ^ k"
  shows "int_root k b n ^ k \<le> n" "n < (int_root k b n + 1) ^ k"
  using root_search_ok[of 0 k n b] assms by (simp_all add: int_root_def zero_power)

lemma int_root_unique:
  assumes "0 < k" "n < (2 ^ b) ^ k" "r ^ k \<le> n" "n < (r + 1) ^ k"
  shows "int_root k b n = r"
proof (rule antisym)
  have "int_root k b n ^ k < (r + 1) ^ k" "r ^ k < (int_root k b n + 1) ^ k"
    using int_root_ok[OF assms(1,2)] assms(3,4) by linarith+
  then show "int_root k b n \<le> r" "r \<le> int_root k b n"
    using power_less_imp_less_base[of _ k] by force+
qed

lemma frac_rootI:
  assumes "0 < k" "p < 32 ^ k" "(t * 2 ^ b + w) ^ k \<le> p * 2 ^ (k * b)" "p * 2 ^ (k * b) < (t * 2 ^ b + w + 1) ^ k" "w < 2 ^ b"
  shows "frac_root k b p = w"
proof -
  have "p * 2 ^ (k * b) < 32 ^ k * 2 ^ (k * b)" using assms(2) by simp
  also have "\<dots> = (2 ^ (b + 5)) ^ k" by (simp add: power_add power_mult_distrib mult.commute flip: power_mult)
  finally show ?thesis unfolding frac_root_def
    using int_root_unique[OF assms(1) _ assms(3,4)] assms(5) by simp
qed

section \<open>The constants\<close>

text \<open>The first eighty primes.\<close>

definition first_primes :: "nat list" where
  "first_primes =
     [2, 3, 5, 7, 11, 13, 17, 19, 23, 29, 31, 37, 41, 43, 47, 53, 59, 61, 67, 71, 73, 79, 83, 89, 97, 101, 103, 107, 109,
      113, 127, 131, 137, 139, 149, 151, 157, 163, 167, 173, 179, 181, 191, 193, 197, 199, 211, 223, 227, 229, 233, 239,
      241, 251, 257, 263, 269, 271, 277, 281, 283, 293, 307, 311, 313, 317, 331, 337, 347, 349, 353, 359, 367, 373, 379,
      383, 389, 397, 401, 409]"

text \<open>Sections 4.2.2 and 4.2.3: the round constants.\<close>

definition fips_K256 :: "32 word list" where
  "fips_K256 = map (\<lambda>p. of_nat (frac_root 3 32 p)) (take 64 first_primes)"

definition fips_K512 :: "64 word list" where
  "fips_K512 = map (\<lambda>p. of_nat (frac_root 3 64 p)) first_primes"

text \<open>
  Section 5.3: the initial hash values.  Those of SHA-224 are the second 32 bits of the fractional parts
  that give those of SHA-384.
\<close>

definition fips_H0_256 :: "32 word list" where
  "fips_H0_256 = map (\<lambda>p. of_nat (frac_root 2 32 p)) (take 8 first_primes)"

definition fips_H0_224 :: "32 word list" where
  "fips_H0_224 = map (\<lambda>p. of_nat (frac_root 2 64 p mod 2 ^ 32)) (take 8 (drop 8 first_primes))"

definition fips_H0_512 :: "64 word list" where
  "fips_H0_512 = map (\<lambda>p. of_nat (frac_root 2 64 p)) (take 8 first_primes)"

definition fips_H0_384 :: "64 word list" where
  "fips_H0_384 = map (\<lambda>p. of_nat (frac_root 2 64 p)) (take 8 (drop 8 first_primes))"

definition fips_H0_1 :: "32 word list" where
  "fips_H0_1 = [0x67452301, 0xEFCDAB89, 0x98BADCFE, 0x10325476, 0xC3D2E1F0]"

text \<open>
  Lists of fractions are checked against the primes with the integer parts of the roots, which are below 8; the
  powers of \<open>r + 1\<close> are computed from those of \<open>r\<close>.
\<close>

definition square_roots_ok :: "nat \<Rightarrow> nat list \<Rightarrow> nat list \<Rightarrow> bool" where
  "square_roots_ok b ps ws =
     list_all2 (\<lambda>p w. let r = length (takeWhile (\<lambda>t. t * t \<le> p) [1, 2, 3, 4, 5, 6, 7]) * 2 ^ b + w; s = r * r; n = p * 2 ^ (2 * b)
       in s \<le> n \<and> n < s + 2 * r + 1 \<and> w < 2 ^ b \<and> p < 1024) ps ws"

definition cube_roots_ok :: "nat \<Rightarrow> nat list \<Rightarrow> nat list \<Rightarrow> bool" where
  "cube_roots_ok b ps ws =
     list_all2 (\<lambda>p w. let r = length (takeWhile (\<lambda>t. t * t * t \<le> p) [1, 2, 3, 4, 5, 6, 7]) * 2 ^ b + w; s = r * r; c = s * r;
         n = p * 2 ^ (3 * b)
       in c \<le> n \<and> n < c + 3 * s + 3 * r + 1 \<and> w < 2 ^ b \<and> p < 32768) ps ws"

lemma square_roots_ok_frac: "square_roots_ok b ps ws \<Longrightarrow> map (frac_root 2 b) ps = ws"
proof (induction ps arbitrary: ws)
  case (Cons p ps)
  obtain w ws' where w: "ws = w # ws'" using Cons.prems by (auto simp: square_roots_ok_def list_all2_Cons1)
  define r where "r = length (takeWhile (\<lambda>t. t * t \<le> p) [1, 2, 3, 4, 5, 6, 7]) * 2 ^ b + w"
  have "r * r \<le> p * 2 ^ (2 * b)" "p * 2 ^ (2 * b) < r * r + 2 * r + 1" "w < 2 ^ b" "p < 1024"
    using Cons.prems by (simp_all add: w square_roots_ok_def Let_def r_def)
  then have "r ^ 2 \<le> p * 2 ^ (2 * b)" "p * 2 ^ (2 * b) < (r + 1) ^ 2" "w < 2 ^ b" "p < 32 ^ 2"
    by (simp_all add: power2_eq_square)
  then have "frac_root 2 b p = w" unfolding r_def by (intro frac_rootI) simp_all
  moreover have "square_roots_ok b ps ws'" using Cons.prems by (simp add: w square_roots_ok_def)
  ultimately show ?case using Cons.IH by (simp add: w)
qed (simp add: square_roots_ok_def)

lemma cube_roots_ok_frac: "cube_roots_ok b ps ws \<Longrightarrow> map (frac_root 3 b) ps = ws"
proof (induction ps arbitrary: ws)
  case (Cons p ps)
  obtain w ws' where w: "ws = w # ws'" using Cons.prems by (auto simp: cube_roots_ok_def list_all2_Cons1)
  define r where "r = length (takeWhile (\<lambda>t. t * t * t \<le> p) [1, 2, 3, 4, 5, 6, 7]) * 2 ^ b + w"
  have "r * r * r \<le> p * 2 ^ (3 * b)" "p * 2 ^ (3 * b) < r * r * r + 3 * (r * r) + 3 * r + 1" "w < 2 ^ b" "p < 32768"
    using Cons.prems by (simp_all add: w cube_roots_ok_def Let_def r_def)
  moreover have "(r + 1) ^ 3 = r * r * r + 3 * (r * r) + 3 * r + 1" "r ^ 3 = r * r * r"
    by (simp_all add: power3_eq_cube algebra_simps)
  ultimately have "r ^ 3 \<le> p * 2 ^ (3 * b)" "p * 2 ^ (3 * b) < (r + 1) ^ 3" "w < 2 ^ b" "p < 32 ^ 3" by simp_all
  then have "frac_root 3 b p = w" unfolding r_def by (intro frac_rootI) simp_all
  moreover have "cube_roots_ok b ps ws'" using Cons.prems by (simp add: w cube_roots_ok_def)
  ultimately show ?case using Cons.IH by (simp add: w)
qed (simp add: cube_roots_ok_def)

end
