(* ===== verification/PSha2.thy ===== *)
theory PSha2
  imports PHashBlock PFips180
begin

text \<open>
  What \<open>pcryptohash-sha2-256.c\<close> and \<open>pcryptohash-sha2-512.c\<close> have in common: the context with the flag of
  the shorter variant, the macro of a round (\<open>P_SHA2_256_P\<close> and \<open>P_SHA2_512_P\<close>, equal but for the functions they
  call) on the array \<open>A\<close> of eight variables, and the round of FIPS 180 it implements.
\<close>

record (overloaded) ('w::len) sha2_ctx = "'w hash_ctx" +
  is_short :: bool

text \<open>The macro parameters a to h are indices into \<open>A\<close>.\<close>

type_synonym sha2_order = "nat \<times> nat \<times> nat \<times> nat \<times> nat \<times> nat \<times> nat \<times> nat"

fun sha2_P ::
  "('w::len word \<Rightarrow> 'w word) \<Rightarrow> ('w word \<Rightarrow> 'w word) \<Rightarrow> ('w word \<Rightarrow> 'w word \<Rightarrow> 'w word \<Rightarrow> 'w word) \<Rightarrow>
   ('w word \<Rightarrow> 'w word \<Rightarrow> 'w word \<Rightarrow> 'w word) \<Rightarrow> sha2_order \<Rightarrow> 'w word \<Rightarrow> 'w word \<Rightarrow> 'w word list \<Rightarrow> 'w word list" where
  "sha2_P S2 S3 F0 F1 (a, b, c, d, e, f, g, h) x K A =
     (let tmp_sum1 = A ! h + S3 (A ! e) + F1 (A ! e) (A ! f) (A ! g) + K + x;
          tmp_sum2 = S2 (A ! a) + F0 (A ! a) (A ! b) (A ! c);
          A1 = A[d := A ! d + tmp_sum1]
      in A1[h := tmp_sum1 + tmp_sum2])"

text \<open>The word a round uses: an element of \<open>W\<close>, or an expression that first assigns it.\<close>

type_synonym 'w sha2_word = "'w word list \<Rightarrow> 'w word list \<times> 'w word"

definition sha2_read :: "nat \<Rightarrow> ('w::len) sha2_word" where
  "sha2_read k W = (W, W ! k)"

type_synonym 'w sha2_vars = "'w word list \<times> 'w word list"

definition sha2_on ::
  "('w::len word \<Rightarrow> 'w word list \<Rightarrow> 'w word list) \<Rightarrow> 'w sha2_word \<Rightarrow> 'w sha2_vars \<Rightarrow> 'w sha2_vars" where
  "sha2_on P g = (\<lambda>(W, A). let (W', x) = g W in (W', P x A))"

text \<open>The eight lines of the loop bodies, for the loop counter \<open>i\<close>.\<close>

definition sha2_body ::
  "(sha2_order \<Rightarrow> 'w::len word \<Rightarrow> 'w word \<Rightarrow> 'w word list \<Rightarrow> 'w word list) \<Rightarrow> (nat \<Rightarrow> 'w sha2_word) \<Rightarrow> 'w word list \<Rightarrow>
   nat \<Rightarrow> ('w sha2_vars \<Rightarrow> 'w sha2_vars) list" where
  "sha2_body P x K i =
     [sha2_on (P (0, 1, 2, 3, 4, 5, 6, 7) (K ! (i + 0))) (x (i + 0)),
      sha2_on (P (7, 0, 1, 2, 3, 4, 5, 6) (K ! (i + 1))) (x (i + 1)),
      sha2_on (P (6, 7, 0, 1, 2, 3, 4, 5) (K ! (i + 2))) (x (i + 2)),
      sha2_on (P (5, 6, 7, 0, 1, 2, 3, 4) (K ! (i + 3))) (x (i + 3)),
      sha2_on (P (4, 5, 6, 7, 0, 1, 2, 3) (K ! (i + 4))) (x (i + 4)),
      sha2_on (P (3, 4, 5, 6, 7, 0, 1, 2) (K ! (i + 5))) (x (i + 5)),
      sha2_on (P (2, 3, 4, 5, 6, 7, 0, 1) (K ! (i + 6))) (x (i + 6)),
      sha2_on (P (1, 2, 3, 4, 5, 6, 7, 0) (K ! (i + 7))) (x (i + 7))]"

section \<open>The round of FIPS 180\<close>

type_synonym 'w sha2_state = "'w word \<times> 'w word \<times> 'w word \<times> 'w word \<times> 'w word \<times> 'w word \<times> 'w word \<times> 'w word"

fun sha2_step ::
  "('w::len word \<Rightarrow> 'w word) \<Rightarrow> ('w word \<Rightarrow> 'w word) \<Rightarrow> ('w word \<Rightarrow> 'w word \<Rightarrow> 'w word \<Rightarrow> 'w word) \<Rightarrow>
   ('w word \<Rightarrow> 'w word \<Rightarrow> 'w word \<Rightarrow> 'w word) \<Rightarrow> 'w word \<Rightarrow> 'w word \<Rightarrow> 'w sha2_state \<Rightarrow> 'w sha2_state" where
  "sha2_step Sigma0 Sigma1 Maj Ch x K (a, b, c, d, e, f, g, h) =
     (let T1 = h + Sigma1 e + Ch e f g + K + x; T2 = Sigma0 a + Maj a b c
      in (T1 + T2, a, b, c, d + T1, e, f, g))"

definition Ch :: "'w::len word \<Rightarrow> 'w word \<Rightarrow> 'w word \<Rightarrow> 'w word" where
  "Ch x y z = (x AND y) XOR (NOT x AND z)"

definition Maj :: "'w::len word \<Rightarrow> 'w word \<Rightarrow> 'w word \<Rightarrow> 'w word" where
  "Maj x y z = (x AND y) XOR (x AND z) XOR (y AND z)"

fun sha2_add :: "'w::len word list \<Rightarrow> 'w sha2_state \<Rightarrow> 'w word list" where
  "sha2_add H (a, b, c, d, e, f, g, h) =
     [H ! 0 + a, H ! 1 + b, H ! 2 + c, H ! 3 + d, H ! 4 + e, H ! 5 + f, H ! 6 + g, H ! 7 + h]"

text \<open>The order of the variables in line \<open>k\<close> of the loop body, and the array read in that order.\<close>

definition sha2_order_of :: "nat \<Rightarrow> sha2_order" where
  "sha2_order_of k =
     ((8 - k) mod 8, (9 - k) mod 8, (10 - k) mod 8, (11 - k) mod 8, (12 - k) mod 8, (13 - k) mod 8, (14 - k) mod 8,
      (15 - k) mod 8)"

definition sha2_view :: "nat \<Rightarrow> 'w::len word list \<Rightarrow> 'w sha2_state" where
  "sha2_view k A =
     (A ! ((8 - k) mod 8), A ! ((9 - k) mod 8), A ! ((10 - k) mod 8), A ! ((11 - k) mod 8), A ! ((12 - k) mod 8),
      A ! ((13 - k) mod 8), A ! ((14 - k) mod 8), A ! ((15 - k) mod 8))"

lemma sha2_body_map:
  "sha2_body P x K i = map (\<lambda>k. sha2_on (P (sha2_order_of k) (K ! (i + k))) (x (i + k))) [0, 1, 2, 3, 4, 5, 6, 7]"
  by (simp add: sha2_body_def sha2_order_of_def)

lemma length_sha2_P: "length (sha2_P S2 S3 F0 F1 ord x K A) = length A"
  by (induct S2 S3 F0 F1 ord x K A rule: sha2_P.induct) (simp add: Let_def)

lemma sha2_P_view:
  assumes "length A = 8" "k < 8"
  shows "sha2_view (Suc k mod 8) (sha2_P S2 S3 F0 F1 (sha2_order_of k) x K A) =
    sha2_step S2 S3 F0 F1 x K (sha2_view k A)"
proof -
  obtain A0 A1 A2 A3 A4 A5 A6 A7 where A: "A = [A0, A1, A2, A3, A4, A5, A6, A7]"
    using assms(1) by (auto simp: numeral_eq_Suc length_Suc_conv)
  have k: "k = 0 \<or> k = 1 \<or> k = 2 \<or> k = 3 \<or> k = 4 \<or> k = 5 \<or> k = 6 \<or> k = 7" using assms(2) by arith
  then show ?thesis
    by (elim disjE) (simp_all add: A sha2_view_def sha2_order_of_def Let_def)
qed

lemma sha2_F0_Maj: "(x AND y) OR (z AND (x OR y)) = Maj x y z"
  unfolding Maj_def by (rule bit_word_eqI) (auto simp: bit_simps)

lemma sha2_F1_Ch: "z XOR (x AND (y XOR z)) = Ch x y z"
  unfolding Ch_def by (rule bit_word_eqI) (auto simp: bit_simps)

lemma sha2_final: "length A = 8 \<Longrightarrow> length H = 8 \<Longrightarrow> map2 (+) H A = sha2_add H (sha2_view 0 A)"
proof -
  assume A: "length A = 8" and H: "length H = 8"
  have "\<exists>a b c d e f g h. xs = [a, b, c, d, e, f, g, h]" if "length xs = 8" for xs :: "'a::len word list"
    using that by (auto simp: numeral_eq_Suc length_Suc_conv)
  from this[OF A] this[OF H] show ?thesis by (auto simp: sha2_view_def)
qed

end
