(* ===== verification/PSha256.thy ===== *)
theory PSha256
  imports PSha2
begin

text \<open>
  SHA-256 and SHA-224 (\<open>pcryptohash-sha2-256.c\<close>): the transformation, the context functions, and the
  equivalence with the loop of FIPS 180.
\<close>

section \<open>The transformation\<close>

type_synonym PHashSHA2_256 = "32 sha2_ctx"

definition pp_crypto_hash_sha2_256_K :: "32 word list" where
  "pp_crypto_hash_sha2_256_K =
     [0x428A2F98, 0x71374491, 0xB5C0FBCF, 0xE9B5DBA5,
      0x3956C25B, 0x59F111F1, 0x923F82A4, 0xAB1C5ED5,
      0xD807AA98, 0x12835B01, 0x243185BE, 0x550C7DC3,
      0x72BE5D74, 0x80DEB1FE, 0x9BDC06A7, 0xC19BF174,
      0xE49B69C1, 0xEFBE4786, 0x0FC19DC6, 0x240CA1CC,
      0x2DE92C6F, 0x4A7484AA, 0x5CB0A9DC, 0x76F988DA,
      0x983E5152, 0xA831C66D, 0xB00327C8, 0xBF597FC7,
      0xC6E00BF3, 0xD5A79147, 0x06CA6351, 0x14292967,
      0x27B70A85, 0x2E1B2138, 0x4D2C6DFC, 0x53380D13,
      0x650A7354, 0x766A0ABB, 0x81C2C92E, 0x92722C85,
      0xA2BFE8A1, 0xA81A664B, 0xC24B8B70, 0xC76C51A3,
      0xD192E819, 0xD6990624, 0xF40E3585, 0x106AA070,
      0x19A4C116, 0x1E376C08, 0x2748774C, 0x34B0BCB5,
      0x391C0CB3, 0x4ED8AA4A, 0x5B9CCA4F, 0x682E6FF3,
      0x748F82EE, 0x78A5636F, 0x84C87814, 0x8CC70208,
      0x90BEFFFA, 0xA4506CEB, 0xBEF9A3F7, 0xC67178F2]"

definition P_SHA2_256_SHR :: "32 word \<Rightarrow> nat \<Rightarrow> 32 word" where
  "P_SHA2_256_SHR val shift = drop_bit shift (val AND 0xFFFFFFFF)"

definition P_SHA2_256_ROTR :: "32 word \<Rightarrow> nat \<Rightarrow> 32 word" where
  "P_SHA2_256_ROTR val shift = P_SHA2_256_SHR val shift OR push_bit (32 - shift) val"

definition P_SHA2_256_S0 :: "32 word \<Rightarrow> 32 word" where
  "P_SHA2_256_S0 x = (P_SHA2_256_ROTR x 7 XOR P_SHA2_256_ROTR x 18 XOR P_SHA2_256_SHR x 3)"

definition P_SHA2_256_S1 :: "32 word \<Rightarrow> 32 word" where
  "P_SHA2_256_S1 x = (P_SHA2_256_ROTR x 17 XOR P_SHA2_256_ROTR x 19 XOR P_SHA2_256_SHR x 10)"

definition P_SHA2_256_S2 :: "32 word \<Rightarrow> 32 word" where
  "P_SHA2_256_S2 x = (P_SHA2_256_ROTR x 2 XOR P_SHA2_256_ROTR x 13 XOR P_SHA2_256_ROTR x 22)"

definition P_SHA2_256_S3 :: "32 word \<Rightarrow> 32 word" where
  "P_SHA2_256_S3 x = (P_SHA2_256_ROTR x 6 XOR P_SHA2_256_ROTR x 11 XOR P_SHA2_256_ROTR x 25)"

definition P_SHA2_256_F0 :: "32 word \<Rightarrow> 32 word \<Rightarrow> 32 word \<Rightarrow> 32 word" where
  "P_SHA2_256_F0 x y z = (x AND y) OR (z AND (x OR y))"

definition P_SHA2_256_F1 :: "32 word \<Rightarrow> 32 word \<Rightarrow> 32 word \<Rightarrow> 32 word" where
  "P_SHA2_256_F1 x y z = (z XOR (x AND (y XOR z)))"

definition P_SHA2_256_P :: "sha2_order \<Rightarrow> 32 word \<Rightarrow> 32 word \<Rightarrow> 32 word list \<Rightarrow> 32 word list" where
  "P_SHA2_256_P ord K x A = sha2_P P_SHA2_256_S2 P_SHA2_256_S3 P_SHA2_256_F0 P_SHA2_256_F1 ord x K A"

text \<open>\<open>P_SHA2_256_R (t)\<close> assigns \<open>W[t]\<close> and has the assigned value.\<close>

definition P_SHA2_256_R :: "nat \<Rightarrow> 32 sha2_word" where
  "P_SHA2_256_R t W =
     (let x = P_SHA2_256_S1 (W ! (t - 2)) + W ! (t - 7) + P_SHA2_256_S0 (W ! (t - 15)) + W ! (t - 16)
      in (W[t := x], x))"

text \<open>
  Both loops, with their counters; the elements of \<open>W\<close> beyond the message block are written before they
  are read, so their first value (here 0) does not matter.
\<close>

definition sha2_256_statements :: "(32 sha2_vars \<Rightarrow> 32 sha2_vars) list" where
  "sha2_256_statements =
     concat (map (sha2_body P_SHA2_256_P sha2_read pp_crypto_hash_sha2_256_K) [0, 8]) @
     concat (map (sha2_body P_SHA2_256_P P_SHA2_256_R pp_crypto_hash_sha2_256_K) [16, 24, 32, 40, 48, 56])"

definition pp_crypto_hash_sha2_256_process :: "32 word list \<Rightarrow> 32 word list \<Rightarrow> 32 word list" where
  "pp_crypto_hash_sha2_256_process h data =
     (let A = map (\<lambda>i. h ! i) [0..<8];
          W = data @ replicate 48 0;
          (W', A') = fold (\<lambda>stmt. stmt) sha2_256_statements (W, A)
      in map (\<lambda>i. h ! i + A' ! i) [0..<8])"

definition pp_crypto_hash_sha2_256_swap_bytes :: "bool \<Rightarrow> 32 word list \<Rightarrow> nat \<Rightarrow> 32 word list" where
  "pp_crypto_hash_sha2_256_swap_bytes big data words =
     (if big then data else swap_words (PUINT32_TO_BE big) data words)"

section \<open>The context\<close>

definition sha256_iv :: "bool \<Rightarrow> 32 word list" where
  "sha256_iv is224 =
     (if \<not> is224 then
        [0x6A09E667, 0xBB67AE85, 0x3C6EF372, 0xA54FF53A,
         0x510E527F, 0x9B05688C, 0x1F83D9AB, 0x5BE0CD19]
      else
        [0xC1059ED8, 0x367CD507, 0x3070DD17, 0xF70E5939,
         0xFFC00B31, 0x68581511, 0x64F98FA7, 0xBEFA4FA4])"

definition p_crypto_hash_sha2_256_reset :: "PHashSHA2_256 \<Rightarrow> PHashSHA2_256" where
  "p_crypto_hash_sha2_256_reset ctx =
     ctx\<lparr>buf := replicate 64 0, len_low := 0, len_high := 0, hash := sha256_iv (is_short ctx)\<rparr>"

definition pp_crypto_hash_sha2_256_new_internal :: "bool \<Rightarrow> bool \<Rightarrow> PHashSHA2_256 option" where
  "pp_crypto_hash_sha2_256_new_internal is224 mem =
     (if \<not> mem then None
      else Some (p_crypto_hash_sha2_256_reset
        \<lparr>buf = replicate 64 0, hash = replicate 8 0, len_high = 0, len_low = 0, is_short = is224\<rparr>))"

definition p_crypto_hash_sha2_256_new :: "bool \<Rightarrow> PHashSHA2_256 option" where
  "p_crypto_hash_sha2_256_new mem = pp_crypto_hash_sha2_256_new_internal False mem"

definition p_crypto_hash_sha2_224_new :: "bool \<Rightarrow> PHashSHA2_256 option" where
  "p_crypto_hash_sha2_224_new mem = pp_crypto_hash_sha2_256_new_internal True mem"

definition p_crypto_hash_sha2_256_update :: "bool \<Rightarrow> PHashSHA2_256 \<Rightarrow> byte list \<Rightarrow> PHashSHA2_256" where
  "p_crypto_hash_sha2_256_update big =
     block_update 64 (process_buf big (pp_crypto_hash_sha2_256_swap_bytes big) pp_crypto_hash_sha2_256_process)"

definition p_crypto_hash_sha2_256_finish :: "bool \<Rightarrow> PHashSHA2_256 \<Rightarrow> PHashSHA2_256" where
  "p_crypto_hash_sha2_256_finish big ctx =
     block_finish 64 big (p_crypto_hash_sha2_256_update big) (pp_crypto_hash_sha2_256_swap_bytes big)
       pp_crypto_hash_sha2_256_process (\<lambda>high low. (high, low)) (if \<not> is_short ctx then 8 else 7) ctx"

definition p_crypto_hash_sha2_256_digest :: "bool \<Rightarrow> PHashSHA2_256 \<Rightarrow> byte list" where
  "p_crypto_hash_sha2_256_digest big ctx = block_digest big ctx"

lemma sha256_swap: "pp_crypto_hash_sha2_256_swap_bytes big ws k = swap_words (PUINT32_TO_BE big) ws k"
proof -
  have "map (PUINT32_TO_BE True) xs = xs" for xs by (induction xs) (simp_all add: PUINT32_TO_BE_def)
  then show ?thesis by (simp add: pp_crypto_hash_sha2_256_swap_bytes_def swap_words_def)
qed

interpretation sha256: block_hash PUINT32_TO_BE True pp_crypto_hash_sha2_256_process pp_crypto_hash_sha2_256_swap_bytes
    "\<lambda>high low. (high, low)" 64 8 8
proof unfold_locales
  show "\<exists>m. (64::nat) = 2 ^ m" by (rule exI[of _ 6]) simp
qed (simp_all add: sha256_swap pp_crypto_hash_sha2_256_process_def Let_def split_beta)

interpretation sha224: block_hash PUINT32_TO_BE True pp_crypto_hash_sha2_256_process pp_crypto_hash_sha2_256_swap_bytes
    "\<lambda>high low. (high, low)" 64 7 8
proof unfold_locales
  show "\<exists>m. (64::nat) = 2 ^ m" by (rule exI[of _ 6]) simp
qed (simp_all add: sha256_swap pp_crypto_hash_sha2_256_process_def Let_def split_beta)

section \<open>The constants are those of FIPS 180\<close>

lemma fips_K256_0:
  "map (frac_root 3 32)
     [2, 3, 5, 7, 11, 13, 17, 19, 23, 29, 31, 37, 41, 43, 47, 53] =
     [0x428A2F98, 0x71374491, 0xB5C0FBCF, 0xE9B5DBA5, 0x3956C25B, 0x59F111F1, 0x923F82A4, 0xAB1C5ED5,
      0xD807AA98, 0x12835B01, 0x243185BE, 0x550C7DC3, 0x72BE5D74, 0x80DEB1FE, 0x9BDC06A7, 0xC19BF174]"
  by (rule cube_roots_ok_frac) (simp add: cube_roots_ok_def)

lemma fips_K256_1:
  "map (frac_root 3 32)
     [59, 61, 67, 71, 73, 79, 83, 89, 97, 101, 103, 107, 109, 113, 127, 131] =
     [0xE49B69C1, 0xEFBE4786, 0x0FC19DC6, 0x240CA1CC, 0x2DE92C6F, 0x4A7484AA, 0x5CB0A9DC, 0x76F988DA,
      0x983E5152, 0xA831C66D, 0xB00327C8, 0xBF597FC7, 0xC6E00BF3, 0xD5A79147, 0x06CA6351, 0x14292967]"
  by (rule cube_roots_ok_frac) (simp add: cube_roots_ok_def)

lemma fips_K256_2:
  "map (frac_root 3 32)
     [137, 139, 149, 151, 157, 163, 167, 173, 179, 181, 191, 193, 197, 199, 211, 223] =
     [0x27B70A85, 0x2E1B2138, 0x4D2C6DFC, 0x53380D13, 0x650A7354, 0x766A0ABB, 0x81C2C92E, 0x92722C85,
      0xA2BFE8A1, 0xA81A664B, 0xC24B8B70, 0xC76C51A3, 0xD192E819, 0xD6990624, 0xF40E3585, 0x106AA070]"
  by (rule cube_roots_ok_frac) (simp add: cube_roots_ok_def)

lemma fips_K256_3:
  "map (frac_root 3 32)
     [227, 229, 233, 239, 241, 251, 257, 263, 269, 271, 277, 281, 283, 293, 307, 311] =
     [0x19A4C116, 0x1E376C08, 0x2748774C, 0x34B0BCB5, 0x391C0CB3, 0x4ED8AA4A, 0x5B9CCA4F, 0x682E6FF3,
      0x748F82EE, 0x78A5636F, 0x84C87814, 0x8CC70208, 0x90BEFFFA, 0xA4506CEB, 0xBEF9A3F7, 0xC67178F2]"
  by (rule cube_roots_ok_frac) (simp add: cube_roots_ok_def)

lemma fips_K256_eq: "fips_K256 = pp_crypto_hash_sha2_256_K"
proof -
  have p: "take 64 first_primes =
      [2, 3, 5, 7, 11, 13, 17, 19, 23, 29, 31, 37, 41, 43, 47, 53] @
      [59, 61, 67, 71, 73, 79, 83, 89, 97, 101, 103, 107, 109, 113, 127, 131] @
      [137, 139, 149, 151, 157, 163, 167, 173, 179, 181, 191, 193, 197, 199, 211, 223] @
      [227, 229, 233, 239, 241, 251, 257, 263, 269, 271, 277, 281, 283, 293, 307, 311]"
    by (simp add: first_primes_def)
  have k: "fips_K256 = map of_nat (map (frac_root 3 32) (take 64 first_primes))" by (simp add: fips_K256_def comp_def)
  show ?thesis unfolding k p map_append fips_K256_0 fips_K256_1 fips_K256_2 fips_K256_3 by (simp add: pp_crypto_hash_sha2_256_K_def)
qed

lemma square_roots_32:
  "map (frac_root 2 32)
     [2, 3, 5, 7, 11, 13, 17, 19] =
     [0x6A09E667, 0xBB67AE85, 0x3C6EF372, 0xA54FF53A, 0x510E527F, 0x9B05688C, 0x1F83D9AB, 0x5BE0CD19]"
  by (rule square_roots_ok_frac) (simp add: square_roots_ok_def)

lemma square_roots_224:
  "map (frac_root 2 64)
     [23, 29, 31, 37, 41, 43, 47, 53] =
     [0xCBBB9D5DC1059ED8, 0x629A292A367CD507, 0x9159015A3070DD17, 0x152FECD8F70E5939, 0x67332667FFC00B31,
      0x8EB44A8768581511, 0xDB0C2E0D64F98FA7, 0x47B5481DBEFA4FA4]"
  by (rule square_roots_ok_frac) (simp add: square_roots_ok_def)

lemma fips_H0_256_eq: "fips_H0_256 = sha256_iv False"
proof -
  have "fips_H0_256 = map of_nat (map (frac_root 2 32) [2, 3, 5, 7, 11, 13, 17, 19])"
    by (simp add: fips_H0_256_def first_primes_def)
  then show ?thesis by (simp only: square_roots_32) (simp add: sha256_iv_def)
qed

lemma fips_H0_224_eq: "fips_H0_224 = sha256_iv True"
proof -
  have "fips_H0_224 = map (\<lambda>n. of_nat (n mod 2 ^ 32)) (map (frac_root 2 64) [23, 29, 31, 37, 41, 43, 47, 53])"
    by (simp add: fips_H0_224_def first_primes_def)
  then show ?thesis by (simp only: square_roots_224) (simp add: sha256_iv_def)
qed

section \<open>FIPS 180\<close>

definition sha256_sigma0 :: "32 word \<Rightarrow> 32 word" where
  "sha256_sigma0 x = word_rotr 7 x XOR word_rotr 18 x XOR drop_bit 3 x"

definition sha256_sigma1 :: "32 word \<Rightarrow> 32 word" where
  "sha256_sigma1 x = word_rotr 17 x XOR word_rotr 19 x XOR drop_bit 10 x"

definition sha256_Sigma0 :: "32 word \<Rightarrow> 32 word" where
  "sha256_Sigma0 x = word_rotr 2 x XOR word_rotr 13 x XOR word_rotr 22 x"

definition sha256_Sigma1 :: "32 word \<Rightarrow> 32 word" where
  "sha256_Sigma1 x = word_rotr 6 x XOR word_rotr 11 x XOR word_rotr 25 x"

fun sha256_w :: "32 word list \<Rightarrow> nat \<Rightarrow> 32 word" where
  "sha256_w M t =
     (if t < 16 then M ! t
      else sha256_sigma1 (sha256_w M (t - 2)) + sha256_w M (t - 7) + sha256_sigma0 (sha256_w M (t - 15)) + sha256_w M (t - 16))"

declare sha256_w.simps [simp del]

definition sha256_step :: "32 word list \<Rightarrow> nat \<Rightarrow> 32 sha2_state \<Rightarrow> 32 sha2_state" where
  "sha256_step M t = sha2_step sha256_Sigma0 sha256_Sigma1 Maj Ch (sha256_w M t) (fips_K256 ! t)"

definition sha256_compress :: "32 word list \<Rightarrow> 32 word list \<Rightarrow> 32 word list" where
  "sha256_compress h M =
     sha2_add h (fold (sha256_step M) [0..<64] (h ! 0, h ! 1, h ! 2, h ! 3, h ! 4, h ! 5, h ! 6, h ! 7))"

lemma P_SHA2_256_SHR_drop: "P_SHA2_256_SHR v s = drop_bit s v"
proof -
  have "(0xFFFFFFFF :: 32 word) = - 1" by simp
  then show ?thesis by (simp only: P_SHA2_256_SHR_def) simp
qed

lemma P_SHA2_256_ROTR_rotr: "0 < s \<Longrightarrow> s < 32 \<Longrightarrow> P_SHA2_256_ROTR v s = word_rotr s v"
  using rotr_macro[of s v] by (simp add: P_SHA2_256_ROTR_def P_SHA2_256_SHR_drop)

lemma sha256_functions:
  "P_SHA2_256_S0 = sha256_sigma0" "P_SHA2_256_S1 = sha256_sigma1"
  "P_SHA2_256_S2 = sha256_Sigma0" "P_SHA2_256_S3 = sha256_Sigma1"
  "P_SHA2_256_F0 = Maj" "P_SHA2_256_F1 = Ch"
  by (simp_all add: fun_eq_iff P_SHA2_256_S0_def P_SHA2_256_S1_def P_SHA2_256_S2_def P_SHA2_256_S3_def P_SHA2_256_ROTR_rotr P_SHA2_256_SHR_drop
      sha256_sigma0_def sha256_sigma1_def sha256_Sigma0_def sha256_Sigma1_def P_SHA2_256_F0_def P_SHA2_256_F1_def
      sha2_F0_Maj sha2_F1_Ch)

text \<open>The array holds the schedule up to the word of the next statement.\<close>

definition sha256_holds :: "32 word list \<Rightarrow> nat \<Rightarrow> 32 word list \<Rightarrow> bool" where
  "sha256_holds M t W \<longleftrightarrow> length W = 64 \<and> (\<forall>i < max t 16. W ! i = sha256_w M i)"

lemma sha256_word:
  assumes "sha256_holds M t W" "t < 64"
  shows "\<exists>W'. (if t < 16 then sha2_read t else P_SHA2_256_R t) W = (W', sha256_w M t) \<and> sha256_holds M (Suc t) W'"
proof (cases "t < 16")
  case True
  then show ?thesis using assms(1) by (auto simp: sha2_read_def sha256_holds_def)
next
  case False
  then have "P_SHA2_256_R t W = (W[t := sha256_w M t], sha256_w M t)"
    using assms(1) by (simp add: P_SHA2_256_R_def Let_def sha256_functions sha256_w.simps[of M t] sha256_holds_def)
  moreover have "sha256_holds M (Suc t) (W[t := sha256_w M t])"
    using assms False by (auto simp: sha256_holds_def nth_list_update less_Suc_eq)
  ultimately show ?thesis using False by simp
qed

definition sha2_256_statement :: "nat \<Rightarrow> 32 sha2_vars \<Rightarrow> 32 sha2_vars" where
  "sha2_256_statement t =
     sha2_on (P_SHA2_256_P (sha2_order_of (t mod 8)) (pp_crypto_hash_sha2_256_K ! t)) (if t < 16 then sha2_read t else P_SHA2_256_R t)"

lemma sha2_256_statements_eq: "sha2_256_statements = map sha2_256_statement [0, 1, 2, 3, 4, 5, 6, 7, 8, 9, 10, 11, 12, 13, 14, 15, 16, 17, 18, 19, 20, 21, 22, 23, 24, 25, 26, 27, 28, 29, 30, 31, 32, 33, 34, 35, 36, 37, 38, 39, 40, 41, 42, 43, 44, 45, 46, 47, 48, 49, 50, 51, 52, 53, 54, 55, 56, 57, 58, 59, 60, 61, 62, 63]"
  by (simp add: sha2_256_statements_def sha2_body_map sha2_256_statement_def)

lemma sha2_256_statement_step:
  assumes "t < 64" "sha256_holds M t (fst vars) \<and> length (snd vars) = 8"
  shows "(sha256_holds M (Suc t) (fst (sha2_256_statement t vars)) \<and> length (snd (sha2_256_statement t vars)) = 8) \<and>
    sha2_view (Suc t mod 8) (snd (sha2_256_statement t vars)) = sha256_step M t (sha2_view (t mod 8) (snd vars))"
proof -
  obtain W A where v: "vars = (W, A)" by fastforce
  obtain W' where w: "(if t < 16 then sha2_read t else P_SHA2_256_R t) W = (W', sha256_w M t)" "sha256_holds M (Suc t) W'"
    using sha256_word[of M t W] assms by (auto simp: v)
  have "sha2_256_statement t vars =
      (W', P_SHA2_256_P (sha2_order_of (t mod 8)) (pp_crypto_hash_sha2_256_K ! t) (sha256_w M t) A)"
    unfolding sha2_256_statement_def sha2_on_def v by (simp only: w(1) prod.case Let_def)
  moreover have "Suc (t mod 8) mod 8 = Suc t mod 8" by (simp add: mod_Suc_eq)
  moreover have "length A = 8" using assms(2) by (simp add: v)
  ultimately show ?thesis
    using w(2) sha2_P_view[of A "t mod 8"]
    by (simp add: P_SHA2_256_P_def sha256_functions sha256_step_def fips_K256_eq length_sha2_P v)
qed

interpretation sha256_rounds: unrolled sha2_256_statement "\<lambda>t vars. sha256_holds M t (fst vars) \<and> length (snd vars) = 8"
    "\<lambda>t vars. sha2_view (t mod 8) (snd vars)" "sha256_step M" 64 for M
  by unfold_locales (rule sha2_256_statement_step)

lemma sha256_process_compress:
  assumes "length h = 8" "length M = 16"
  shows "pp_crypto_hash_sha2_256_process h M = sha256_compress h M"
proof -
  let ?init = "(M @ replicate 48 0, h)"
  have "sha2_256_statements = map sha2_256_statement [0..<64]"
    unfolding sha2_256_statements_eq by (rule arg_cong[where f = "map sha2_256_statement"]) code_simp
  moreover have inv0: "sha256_holds M 0 (M @ replicate 48 0)"
    using assms(2) by (simp add: sha256_holds_def nth_append sha256_w.simps)
  ultimately have view: "sha2_view (64 mod 8) (snd (fold (\<lambda>f. f) sha2_256_statements ?init)) =
      fold (sha256_step M) [0..<64] (sha2_view (0 mod 8) (snd ?init))"
    using assms(1) by (intro sha256_rounds.all_statements) simp_all
  have "length (snd (fold sha2_256_statement [0..<64] ?init)) = 8"
    using sha256_rounds.prefix[of 64 M ?init] assms(1) inv0 by simp
  then have A: "length (snd (fold (\<lambda>f. f) sha2_256_statements ?init)) = 8"
    by (simp only: \<open>sha2_256_statements = map sha2_256_statement [0..<64]\<close> fold_map comp_def)
  have h: "map (\<lambda>i. h ! i) [0..<8] = h" using assms(1) by (metis map_nth)
  have "map (\<lambda>i. h ! i + A' ! i) [0..<8] = map2 (+) h A'" if "length A' = 8" for A'
    using that assms(1) by (intro nth_equalityI) simp_all
  note add = this[OF A]
  let ?A = "snd (fold (\<lambda>f. f) sha2_256_statements ?init)"
  have "pp_crypto_hash_sha2_256_process h M = map (\<lambda>i. h ! i + ?A ! i) [0..<8]"
    by (simp only: pp_crypto_hash_sha2_256_process_def Let_def h split_beta)
  also note add
  also note sha2_final[OF A assms(1)]
  also have "sha2_view 0 ?A = fold (sha256_step M) [0..<64] (sha2_view 0 h)" using view by simp
  finally show ?thesis by (simp add: sha256_compress_def sha2_view_def)
qed

end
