(* ===== verification/PSha512.thy ===== *)
theory PSha512
  imports PSha2
begin

text \<open>
  SHA-512 and SHA-384 (\<open>pcryptohash-sha2-512.c\<close>): the transformation, the context functions, and the
  equivalence with the loop of FIPS 180.
\<close>

section \<open>The transformation\<close>

type_synonym PHashSHA2_512 = "64 sha2_ctx"

definition pp_crypto_hash_sha2_512_K :: "64 word list" where
  "pp_crypto_hash_sha2_512_K =
     [0x428A2F98D728AE22, 0x7137449123EF65CD, 0xB5C0FBCFEC4D3B2F,
      0xE9B5DBA58189DBBC, 0x3956C25BF348B538, 0x59F111F1B605D019,
      0x923F82A4AF194F9B, 0xAB1C5ED5DA6D8118, 0xD807AA98A3030242,
      0x12835B0145706FBE, 0x243185BE4EE4B28C, 0x550C7DC3D5FFB4E2,
      0x72BE5D74F27B896F, 0x80DEB1FE3B1696B1, 0x9BDC06A725C71235,
      0xC19BF174CF692694, 0xE49B69C19EF14AD2, 0xEFBE4786384F25E3,
      0x0FC19DC68B8CD5B5, 0x240CA1CC77AC9C65, 0x2DE92C6F592B0275,
      0x4A7484AA6EA6E483, 0x5CB0A9DCBD41FBD4, 0x76F988DA831153B5,
      0x983E5152EE66DFAB, 0xA831C66D2DB43210, 0xB00327C898FB213F,
      0xBF597FC7BEEF0EE4, 0xC6E00BF33DA88FC2, 0xD5A79147930AA725,
      0x06CA6351E003826F, 0x142929670A0E6E70, 0x27B70A8546D22FFC,
      0x2E1B21385C26C926, 0x4D2C6DFC5AC42AED, 0x53380D139D95B3DF,
      0x650A73548BAF63DE, 0x766A0ABB3C77B2A8, 0x81C2C92E47EDAEE6,
      0x92722C851482353B, 0xA2BFE8A14CF10364, 0xA81A664BBC423001,
      0xC24B8B70D0F89791, 0xC76C51A30654BE30, 0xD192E819D6EF5218,
      0xD69906245565A910, 0xF40E35855771202A, 0x106AA07032BBD1B8,
      0x19A4C116B8D2D0C8, 0x1E376C085141AB53, 0x2748774CDF8EEB99,
      0x34B0BCB5E19B48A8, 0x391C0CB3C5C95A63, 0x4ED8AA4AE3418ACB,
      0x5B9CCA4F7763E373, 0x682E6FF3D6B2B8A3, 0x748F82EE5DEFB2FC,
      0x78A5636F43172F60, 0x84C87814A1F0AB72, 0x8CC702081A6439EC,
      0x90BEFFFA23631E28, 0xA4506CEBDE82BDE9, 0xBEF9A3F7B2C67915,
      0xC67178F2E372532B, 0xCA273ECEEA26619C, 0xD186B8C721C0C207,
      0xEADA7DD6CDE0EB1E, 0xF57D4F7FEE6ED178, 0x06F067AA72176FBA,
      0x0A637DC5A2C898A6, 0x113F9804BEF90DAE, 0x1B710B35131C471B,
      0x28DB77F523047D84, 0x32CAAB7B40C72493, 0x3C9EBE0A15C9BEBC,
      0x431D67C49C100D4C, 0x4CC5D4BECB3E42B6, 0x597F299CFC657E2A,
      0x5FCB6FAB3AD6FAEC, 0x6C44198C4A475817]"

definition P_SHA2_512_SHR :: "64 word \<Rightarrow> nat \<Rightarrow> 64 word" where
  "P_SHA2_512_SHR val shift = drop_bit shift val"

definition P_SHA2_512_ROTR :: "64 word \<Rightarrow> nat \<Rightarrow> 64 word" where
  "P_SHA2_512_ROTR val shift = P_SHA2_512_SHR val shift OR push_bit (64 - shift) val"

definition P_SHA2_512_S0 :: "64 word \<Rightarrow> 64 word" where
  "P_SHA2_512_S0 x = (P_SHA2_512_ROTR x 1 XOR P_SHA2_512_ROTR x 8 XOR P_SHA2_512_SHR x 7)"

definition P_SHA2_512_S1 :: "64 word \<Rightarrow> 64 word" where
  "P_SHA2_512_S1 x = (P_SHA2_512_ROTR x 19 XOR P_SHA2_512_ROTR x 61 XOR P_SHA2_512_SHR x 6)"

definition P_SHA2_512_S2 :: "64 word \<Rightarrow> 64 word" where
  "P_SHA2_512_S2 x = (P_SHA2_512_ROTR x 28 XOR P_SHA2_512_ROTR x 34 XOR P_SHA2_512_ROTR x 39)"

definition P_SHA2_512_S3 :: "64 word \<Rightarrow> 64 word" where
  "P_SHA2_512_S3 x = (P_SHA2_512_ROTR x 14 XOR P_SHA2_512_ROTR x 18 XOR P_SHA2_512_ROTR x 41)"

definition P_SHA2_512_F0 :: "64 word \<Rightarrow> 64 word \<Rightarrow> 64 word \<Rightarrow> 64 word" where
  "P_SHA2_512_F0 x y z = (x AND y) OR (z AND (x OR y))"

definition P_SHA2_512_F1 :: "64 word \<Rightarrow> 64 word \<Rightarrow> 64 word \<Rightarrow> 64 word" where
  "P_SHA2_512_F1 x y z = (z XOR (x AND (y XOR z)))"

definition P_SHA2_512_P :: "sha2_order \<Rightarrow> 64 word \<Rightarrow> 64 word \<Rightarrow> 64 word list \<Rightarrow> 64 word list" where
  "P_SHA2_512_P ord K x A = sha2_P P_SHA2_512_S2 P_SHA2_512_S3 P_SHA2_512_F0 P_SHA2_512_F1 ord x K A"

text \<open>
  The loop that extends the message block to 80 words, and the main loop.  The elements of \<open>W\<close> beyond
  the block are written before they are read, so their first value (here 0) does not matter.
\<close>

definition sha2_512_schedule :: "64 word list \<Rightarrow> nat \<Rightarrow> 64 word list" where
  "sha2_512_schedule W i =
     W[i := P_SHA2_512_S1 (W ! (i - 2)) + W ! (i - 7) + P_SHA2_512_S0 (W ! (i - 15)) + W ! (i - 16)]"

definition sha2_512_statements :: "(64 sha2_vars \<Rightarrow> 64 sha2_vars) list" where
  "sha2_512_statements =
     concat (map (sha2_body P_SHA2_512_P sha2_read pp_crypto_hash_sha2_512_K)
       [0, 8, 16, 24, 32, 40, 48, 56, 64, 72])"

definition pp_crypto_hash_sha2_512_process :: "64 word list \<Rightarrow> 64 word list \<Rightarrow> 64 word list" where
  "pp_crypto_hash_sha2_512_process h data =
     (let A = map (\<lambda>i. h ! i) [0..<8];
          W = foldl sha2_512_schedule (data @ replicate 64 0) [16..<80];
          (W', A') = fold (\<lambda>stmt. stmt) sha2_512_statements (W, A)
      in map (\<lambda>i. h ! i + A' ! i) [0..<8])"

definition pp_crypto_hash_sha2_512_swap_bytes :: "bool \<Rightarrow> 64 word list \<Rightarrow> nat \<Rightarrow> 64 word list" where
  "pp_crypto_hash_sha2_512_swap_bytes big data words =
     (if big then data else swap_words (PUINT64_TO_BE big) data words)"

section \<open>The context\<close>

definition sha512_iv :: "bool \<Rightarrow> 64 word list" where
  "sha512_iv is384 =
     (if \<not> is384 then
        [0x6A09E667F3BCC908, 0xBB67AE8584CAA73B, 0x3C6EF372FE94F82B, 0xA54FF53A5F1D36F1,
         0x510E527FADE682D1, 0x9B05688C2B3E6C1F, 0x1F83D9ABFB41BD6B, 0x5BE0CD19137E2179]
      else
        [0xCBBB9D5DC1059ED8, 0x629A292A367CD507, 0x9159015A3070DD17, 0x152FECD8F70E5939,
         0x67332667FFC00B31, 0x8EB44A8768581511, 0xDB0C2E0D64F98FA7, 0x47B5481DBEFA4FA4])"

definition p_crypto_hash_sha2_512_reset :: "PHashSHA2_512 \<Rightarrow> PHashSHA2_512" where
  "p_crypto_hash_sha2_512_reset ctx =
     ctx\<lparr>buf := replicate 128 0, len_low := 0, len_high := 0, hash := sha512_iv (is_short ctx)\<rparr>"

definition pp_crypto_hash_sha2_512_new_internal :: "bool \<Rightarrow> bool \<Rightarrow> PHashSHA2_512 option" where
  "pp_crypto_hash_sha2_512_new_internal is384 mem =
     (if \<not> mem then None
      else Some (p_crypto_hash_sha2_512_reset
        \<lparr>buf = replicate 128 0, hash = replicate 8 0, len_high = 0, len_low = 0, is_short = is384\<rparr>))"

definition p_crypto_hash_sha2_512_new :: "bool \<Rightarrow> PHashSHA2_512 option" where
  "p_crypto_hash_sha2_512_new mem = pp_crypto_hash_sha2_512_new_internal False mem"

definition p_crypto_hash_sha2_384_new :: "bool \<Rightarrow> PHashSHA2_512 option" where
  "p_crypto_hash_sha2_384_new mem = pp_crypto_hash_sha2_512_new_internal True mem"

definition p_crypto_hash_sha2_512_update :: "bool \<Rightarrow> PHashSHA2_512 \<Rightarrow> byte list \<Rightarrow> PHashSHA2_512" where
  "p_crypto_hash_sha2_512_update big =
     block_update 128 (process_buf big (pp_crypto_hash_sha2_512_swap_bytes big) pp_crypto_hash_sha2_512_process)"

definition p_crypto_hash_sha2_512_finish :: "bool \<Rightarrow> PHashSHA2_512 \<Rightarrow> PHashSHA2_512" where
  "p_crypto_hash_sha2_512_finish big ctx =
     block_finish 128 big (p_crypto_hash_sha2_512_update big) (pp_crypto_hash_sha2_512_swap_bytes big)
       pp_crypto_hash_sha2_512_process (\<lambda>high low. (high, low)) (if \<not> is_short ctx then 8 else 6) ctx"

definition p_crypto_hash_sha2_512_digest :: "bool \<Rightarrow> PHashSHA2_512 \<Rightarrow> byte list" where
  "p_crypto_hash_sha2_512_digest big ctx = block_digest big ctx"

lemma sha512_swap: "pp_crypto_hash_sha2_512_swap_bytes big ws k = swap_words (PUINT64_TO_BE big) ws k"
proof -
  have "map (PUINT64_TO_BE True) xs = xs" for xs by (induction xs) (simp_all add: PUINT64_TO_BE_def)
  then show ?thesis by (simp add: pp_crypto_hash_sha2_512_swap_bytes_def swap_words_def)
qed

interpretation sha512: block_hash PUINT64_TO_BE True pp_crypto_hash_sha2_512_process pp_crypto_hash_sha2_512_swap_bytes
    "\<lambda>high low. (high, low)" 128 8 8
proof unfold_locales
  show "\<exists>m. (128::nat) = 2 ^ m" by (rule exI[of _ 7]) simp
qed (simp_all add: sha512_swap pp_crypto_hash_sha2_512_process_def Let_def split_beta)

interpretation sha384: block_hash PUINT64_TO_BE True pp_crypto_hash_sha2_512_process pp_crypto_hash_sha2_512_swap_bytes
    "\<lambda>high low. (high, low)" 128 6 8
proof unfold_locales
  show "\<exists>m. (128::nat) = 2 ^ m" by (rule exI[of _ 7]) simp
qed (simp_all add: sha512_swap pp_crypto_hash_sha2_512_process_def Let_def split_beta)

section \<open>The constants are those of FIPS 180\<close>

lemma fips_K512_0:
  "map (frac_root 3 64)
     [2, 3, 5, 7, 11, 13, 17, 19, 23, 29, 31, 37, 41, 43, 47, 53] =
     [0x428A2F98D728AE22, 0x7137449123EF65CD, 0xB5C0FBCFEC4D3B2F, 0xE9B5DBA58189DBBC, 0x3956C25BF348B538,
      0x59F111F1B605D019, 0x923F82A4AF194F9B, 0xAB1C5ED5DA6D8118, 0xD807AA98A3030242, 0x12835B0145706FBE,
      0x243185BE4EE4B28C, 0x550C7DC3D5FFB4E2, 0x72BE5D74F27B896F, 0x80DEB1FE3B1696B1, 0x9BDC06A725C71235,
      0xC19BF174CF692694]"
  by (rule cube_roots_ok_frac) (simp add: cube_roots_ok_def)

lemma fips_K512_1:
  "map (frac_root 3 64)
     [59, 61, 67, 71, 73, 79, 83, 89, 97, 101, 103, 107, 109, 113, 127, 131] =
     [0xE49B69C19EF14AD2, 0xEFBE4786384F25E3, 0x0FC19DC68B8CD5B5, 0x240CA1CC77AC9C65, 0x2DE92C6F592B0275,
      0x4A7484AA6EA6E483, 0x5CB0A9DCBD41FBD4, 0x76F988DA831153B5, 0x983E5152EE66DFAB, 0xA831C66D2DB43210,
      0xB00327C898FB213F, 0xBF597FC7BEEF0EE4, 0xC6E00BF33DA88FC2, 0xD5A79147930AA725, 0x06CA6351E003826F,
      0x142929670A0E6E70]"
  by (rule cube_roots_ok_frac) (simp add: cube_roots_ok_def)

lemma fips_K512_2:
  "map (frac_root 3 64)
     [137, 139, 149, 151, 157, 163, 167, 173, 179, 181, 191, 193, 197, 199, 211, 223] =
     [0x27B70A8546D22FFC, 0x2E1B21385C26C926, 0x4D2C6DFC5AC42AED, 0x53380D139D95B3DF, 0x650A73548BAF63DE,
      0x766A0ABB3C77B2A8, 0x81C2C92E47EDAEE6, 0x92722C851482353B, 0xA2BFE8A14CF10364, 0xA81A664BBC423001,
      0xC24B8B70D0F89791, 0xC76C51A30654BE30, 0xD192E819D6EF5218, 0xD69906245565A910, 0xF40E35855771202A,
      0x106AA07032BBD1B8]"
  by (rule cube_roots_ok_frac) (simp add: cube_roots_ok_def)

lemma fips_K512_3:
  "map (frac_root 3 64)
     [227, 229, 233, 239, 241, 251, 257, 263, 269, 271, 277, 281, 283, 293, 307, 311] =
     [0x19A4C116B8D2D0C8, 0x1E376C085141AB53, 0x2748774CDF8EEB99, 0x34B0BCB5E19B48A8, 0x391C0CB3C5C95A63,
      0x4ED8AA4AE3418ACB, 0x5B9CCA4F7763E373, 0x682E6FF3D6B2B8A3, 0x748F82EE5DEFB2FC, 0x78A5636F43172F60,
      0x84C87814A1F0AB72, 0x8CC702081A6439EC, 0x90BEFFFA23631E28, 0xA4506CEBDE82BDE9, 0xBEF9A3F7B2C67915,
      0xC67178F2E372532B]"
  by (rule cube_roots_ok_frac) (simp add: cube_roots_ok_def)

lemma fips_K512_4:
  "map (frac_root 3 64)
     [313, 317, 331, 337, 347, 349, 353, 359, 367, 373, 379, 383, 389, 397, 401, 409] =
     [0xCA273ECEEA26619C, 0xD186B8C721C0C207, 0xEADA7DD6CDE0EB1E, 0xF57D4F7FEE6ED178, 0x06F067AA72176FBA,
      0x0A637DC5A2C898A6, 0x113F9804BEF90DAE, 0x1B710B35131C471B, 0x28DB77F523047D84, 0x32CAAB7B40C72493,
      0x3C9EBE0A15C9BEBC, 0x431D67C49C100D4C, 0x4CC5D4BECB3E42B6, 0x597F299CFC657E2A, 0x5FCB6FAB3AD6FAEC,
      0x6C44198C4A475817]"
  by (rule cube_roots_ok_frac) (simp add: cube_roots_ok_def)

lemma fips_K512_eq: "fips_K512 = pp_crypto_hash_sha2_512_K"
proof -
  have p: "first_primes =
      [2, 3, 5, 7, 11, 13, 17, 19, 23, 29, 31, 37, 41, 43, 47, 53] @
      [59, 61, 67, 71, 73, 79, 83, 89, 97, 101, 103, 107, 109, 113, 127, 131] @
      [137, 139, 149, 151, 157, 163, 167, 173, 179, 181, 191, 193, 197, 199, 211, 223] @
      [227, 229, 233, 239, 241, 251, 257, 263, 269, 271, 277, 281, 283, 293, 307, 311] @
      [313, 317, 331, 337, 347, 349, 353, 359, 367, 373, 379, 383, 389, 397, 401, 409]"
    by (simp add: first_primes_def)
  have k: "fips_K512 = map of_nat (map (frac_root 3 64) (first_primes))" by (simp add: fips_K512_def comp_def)
  show ?thesis unfolding k p map_append fips_K512_0 fips_K512_1 fips_K512_2 fips_K512_3 fips_K512_4 by (simp add: pp_crypto_hash_sha2_512_K_def)
qed

lemma square_roots_first:
  "map (frac_root 2 64)
     [2, 3, 5, 7, 11, 13, 17, 19] =
     [0x6A09E667F3BCC908, 0xBB67AE8584CAA73B, 0x3C6EF372FE94F82B, 0xA54FF53A5F1D36F1, 0x510E527FADE682D1,
      0x9B05688C2B3E6C1F, 0x1F83D9ABFB41BD6B, 0x5BE0CD19137E2179]"
  by (rule square_roots_ok_frac) (simp add: square_roots_ok_def)

lemma square_roots_next:
  "map (frac_root 2 64)
     [23, 29, 31, 37, 41, 43, 47, 53] =
     [0xCBBB9D5DC1059ED8, 0x629A292A367CD507, 0x9159015A3070DD17, 0x152FECD8F70E5939, 0x67332667FFC00B31,
      0x8EB44A8768581511, 0xDB0C2E0D64F98FA7, 0x47B5481DBEFA4FA4]"
  by (rule square_roots_ok_frac) (simp add: square_roots_ok_def)

lemma fips_H0_512_eq: "fips_H0_512 = sha512_iv False"
proof -
  have "fips_H0_512 = map of_nat (map (frac_root 2 64) [2, 3, 5, 7, 11, 13, 17, 19])"
    by (simp add: fips_H0_512_def first_primes_def)
  then show ?thesis by (simp only: square_roots_first) (simp add: sha512_iv_def)
qed

lemma fips_H0_384_eq: "fips_H0_384 = sha512_iv True"
proof -
  have "fips_H0_384 = map of_nat (map (frac_root 2 64) [23, 29, 31, 37, 41, 43, 47, 53])"
    by (simp add: fips_H0_384_def first_primes_def)
  then show ?thesis by (simp only: square_roots_next) (simp add: sha512_iv_def)
qed

section \<open>FIPS 180\<close>

definition sha512_sigma0 :: "64 word \<Rightarrow> 64 word" where
  "sha512_sigma0 x = word_rotr 1 x XOR word_rotr 8 x XOR drop_bit 7 x"

definition sha512_sigma1 :: "64 word \<Rightarrow> 64 word" where
  "sha512_sigma1 x = word_rotr 19 x XOR word_rotr 61 x XOR drop_bit 6 x"

definition sha512_Sigma0 :: "64 word \<Rightarrow> 64 word" where
  "sha512_Sigma0 x = word_rotr 28 x XOR word_rotr 34 x XOR word_rotr 39 x"

definition sha512_Sigma1 :: "64 word \<Rightarrow> 64 word" where
  "sha512_Sigma1 x = word_rotr 14 x XOR word_rotr 18 x XOR word_rotr 41 x"

fun sha512_w :: "64 word list \<Rightarrow> nat \<Rightarrow> 64 word" where
  "sha512_w M t =
     (if t < 16 then M ! t
      else sha512_sigma1 (sha512_w M (t - 2)) + sha512_w M (t - 7) + sha512_sigma0 (sha512_w M (t - 15)) + sha512_w M (t - 16))"

declare sha512_w.simps [simp del]

definition sha512_step :: "64 word list \<Rightarrow> nat \<Rightarrow> 64 sha2_state \<Rightarrow> 64 sha2_state" where
  "sha512_step M t = sha2_step sha512_Sigma0 sha512_Sigma1 Maj Ch (sha512_w M t) (fips_K512 ! t)"

definition sha512_compress :: "64 word list \<Rightarrow> 64 word list \<Rightarrow> 64 word list" where
  "sha512_compress h M =
     sha2_add h (fold (sha512_step M) [0..<80] (h ! 0, h ! 1, h ! 2, h ! 3, h ! 4, h ! 5, h ! 6, h ! 7))"

lemma P_SHA2_512_SHR_drop: "P_SHA2_512_SHR v s = drop_bit s v"
  by (simp add: P_SHA2_512_SHR_def)

lemma P_SHA2_512_ROTR_rotr: "0 < s \<Longrightarrow> s < 64 \<Longrightarrow> P_SHA2_512_ROTR v s = word_rotr s v"
  using rotr_macro[of s v] by (simp add: P_SHA2_512_ROTR_def P_SHA2_512_SHR_drop)

lemma sha512_functions:
  "P_SHA2_512_S0 = sha512_sigma0" "P_SHA2_512_S1 = sha512_sigma1"
  "P_SHA2_512_S2 = sha512_Sigma0" "P_SHA2_512_S3 = sha512_Sigma1"
  "P_SHA2_512_F0 = Maj" "P_SHA2_512_F1 = Ch"
  by (simp_all add: fun_eq_iff P_SHA2_512_S0_def P_SHA2_512_S1_def P_SHA2_512_S2_def P_SHA2_512_S3_def P_SHA2_512_ROTR_rotr P_SHA2_512_SHR_drop
      sha512_sigma0_def sha512_sigma1_def sha512_Sigma0_def sha512_Sigma1_def P_SHA2_512_F0_def P_SHA2_512_F1_def
      sha2_F0_Maj sha2_F1_Ch)

text \<open>The array holds the schedule.\<close>

definition sha512_holds :: "64 word list \<Rightarrow> nat \<Rightarrow> 64 word list \<Rightarrow> bool" where
  "sha512_holds M t W \<longleftrightarrow> length W = 80 \<and> (\<forall>i < t. W ! i = sha512_w M i)"

lemma sha512_schedule_prefix:
  assumes "length M = 16"
  shows "16 \<le> t \<Longrightarrow> t \<le> 80 \<Longrightarrow> sha512_holds M t (foldl sha2_512_schedule (M @ replicate 64 0) [16..<t])"
proof (induction t rule: dec_induct)
  case base
  then show ?case using assms by (simp add: sha512_holds_def nth_append sha512_w.simps)
next
  case (step t)
  then show ?case
    by (auto simp: sha512_holds_def sha2_512_schedule_def sha512_functions sha512_w.simps[of M t] less_Suc_eq
        nth_list_update)
qed

lemma sha512_word:
  assumes "sha512_holds M 80 W" "t < 80"
  shows "\<exists>W'. sha2_read t W = (W', sha512_w M t) \<and> sha512_holds M 80 W'"
  using assms by (simp add: sha2_read_def sha512_holds_def)

definition sha2_512_statement :: "nat \<Rightarrow> 64 sha2_vars \<Rightarrow> 64 sha2_vars" where
  "sha2_512_statement t =
     sha2_on (P_SHA2_512_P (sha2_order_of (t mod 8)) (pp_crypto_hash_sha2_512_K ! t)) (sha2_read t)"

lemma sha2_512_statements_eq: "sha2_512_statements = map sha2_512_statement [0, 1, 2, 3, 4, 5, 6, 7, 8, 9, 10, 11, 12, 13, 14, 15, 16, 17, 18, 19, 20, 21, 22, 23, 24, 25, 26, 27, 28, 29, 30, 31, 32, 33, 34, 35, 36, 37, 38, 39, 40, 41, 42, 43, 44, 45, 46, 47, 48, 49, 50, 51, 52, 53, 54, 55, 56, 57, 58, 59, 60, 61, 62, 63, 64, 65, 66, 67, 68, 69, 70, 71, 72, 73, 74, 75, 76, 77, 78, 79]"
  by (simp add: sha2_512_statements_def sha2_body_map sha2_512_statement_def)

lemma sha2_512_statement_step:
  assumes "t < 80" "sha512_holds M 80 (fst vars) \<and> length (snd vars) = 8"
  shows "(sha512_holds M 80 (fst (sha2_512_statement t vars)) \<and> length (snd (sha2_512_statement t vars)) = 8) \<and>
    sha2_view (Suc t mod 8) (snd (sha2_512_statement t vars)) = sha512_step M t (sha2_view (t mod 8) (snd vars))"
proof -
  obtain W A where v: "vars = (W, A)" by fastforce
  obtain W' where w: "(sha2_read t) W = (W', sha512_w M t)" "sha512_holds M 80 W'"
    using sha512_word[of M W t] assms by (auto simp: v)
  have "sha2_512_statement t vars =
      (W', P_SHA2_512_P (sha2_order_of (t mod 8)) (pp_crypto_hash_sha2_512_K ! t) (sha512_w M t) A)"
    unfolding sha2_512_statement_def sha2_on_def v by (simp only: w(1) prod.case Let_def)
  moreover have "Suc (t mod 8) mod 8 = Suc t mod 8" by (simp add: mod_Suc_eq)
  moreover have "length A = 8" using assms(2) by (simp add: v)
  ultimately show ?thesis
    using w(2) sha2_P_view[of A "t mod 8"]
    by (simp add: P_SHA2_512_P_def sha512_functions sha512_step_def fips_K512_eq length_sha2_P v)
qed

interpretation sha512_rounds: unrolled sha2_512_statement "\<lambda>t vars. sha512_holds M 80 (fst vars) \<and> length (snd vars) = 8"
    "\<lambda>t vars. sha2_view (t mod 8) (snd vars)" "sha512_step M" 80 for M
  by unfold_locales (rule sha2_512_statement_step)

lemma sha512_process_compress:
  assumes "length h = 8" "length M = 16"
  shows "pp_crypto_hash_sha2_512_process h M = sha512_compress h M"
proof -
  let ?init = "(foldl sha2_512_schedule (M @ replicate 64 0) [16..<80], h)"
  have "sha2_512_statements = map sha2_512_statement [0..<80]"
    unfolding sha2_512_statements_eq by (rule arg_cong[where f = "map sha2_512_statement"]) code_simp
  moreover have inv0: "sha512_holds M 80 (foldl sha2_512_schedule (M @ replicate 64 0) [16..<80])"
    using sha512_schedule_prefix[OF assms(2), of 80] by simp
  ultimately have view: "sha2_view (80 mod 8) (snd (fold (\<lambda>f. f) sha2_512_statements ?init)) =
      fold (sha512_step M) [0..<80] (sha2_view (0 mod 8) (snd ?init))"
    using assms(1) by (intro sha512_rounds.all_statements) simp_all
  have "length (snd (fold sha2_512_statement [0..<80] ?init)) = 8"
    using sha512_rounds.prefix[of 80 M ?init] assms(1) inv0 by simp
  then have A: "length (snd (fold (\<lambda>f. f) sha2_512_statements ?init)) = 8"
    by (simp only: \<open>sha2_512_statements = map sha2_512_statement [0..<80]\<close> fold_map comp_def)
  have h: "map (\<lambda>i. h ! i) [0..<8] = h" using assms(1) by (metis map_nth)
  have "map (\<lambda>i. h ! i + A' ! i) [0..<8] = map2 (+) h A'" if "length A' = 8" for A'
    using that assms(1) by (intro nth_equalityI) simp_all
  note add = this[OF A]
  let ?A = "snd (fold (\<lambda>f. f) sha2_512_statements ?init)"
  have "pp_crypto_hash_sha2_512_process h M = map (\<lambda>i. h ! i + ?A ! i) [0..<8]"
    by (simp only: pp_crypto_hash_sha2_512_process_def Let_def h split_beta)
  also note add
  also note sha2_final[OF A assms(1)]
  also have "sha2_view 0 ?A = fold (sha512_step M) [0..<80] (sha2_view 0 h)" using view by simp
  finally show ?thesis by (simp add: sha512_compress_def sha2_view_def)
qed

end
