(* ===== verification/PGost3411.thy ===== *)
theory PGost3411
  imports PHashBlock
begin

text \<open>
  GOST R 34.11-94 (\<open>pcryptohash-gost3411.c\<close>).  Its context has no counter like the other hashes: it keeps
  the length in bits and the sum of all blocks as 256-bit numbers, in eight 32-bit words each, and
  hashes both at the end.
\<close>

section \<open>The context\<close>

record PHashGOST3411 =
  g_buf :: "byte list"
  g_hash :: "32 word list"
  g_len :: "32 word list"
  g_sum :: "32 word list"

section \<open>The block cipher\<close>

text \<open>Eight words, as the arrays \<open>U\<close>, \<open>V\<close>, \<open>W\<close>, \<open>S\<close> and \<open>K[i]\<close>.\<close>

type_synonym w8 =
  "32 word \<times> 32 word \<times> 32 word \<times> 32 word \<times> 32 word \<times> 32 word \<times> 32 word \<times> 32 word"

definition to_w8 :: "32 word list \<Rightarrow> w8" where
  "to_w8 x = (x ! 0, x ! 1, x ! 2, x ! 3, x ! 4, x ! 5, x ! 6, x ! 7)"

fun of_w8 :: "w8 \<Rightarrow> 32 word list" where
  "of_w8 (x0, x1, x2, x3, x4, x5, x6, x7) = [x0, x1, x2, x3, x4, x5, x6, x7]"

definition pp_crypto_hash_gost3411_K_block :: "32 word list list" where
  "pp_crypto_hash_gost3411_K_block =
     [[0x4, 0xA, 0x9, 0x2, 0xD, 0x8, 0x0, 0xE, 0x6, 0xB, 0x1, 0xC, 0x7, 0xF, 0x5, 0x3],
      [0xE, 0xB, 0x4, 0xC, 0x6, 0xD, 0xF, 0xA, 0x2, 0x3, 0x8, 0x1, 0x0, 0x7, 0x5, 0x9],
      [0x5, 0x8, 0x1, 0xD, 0xA, 0x3, 0x4, 0x2, 0xE, 0xF, 0xC, 0x7, 0x6, 0x0, 0x9, 0xB],
      [0x7, 0xD, 0xA, 0x1, 0x0, 0x8, 0x9, 0xF, 0xE, 0x4, 0x6, 0xC, 0xB, 0x2, 0x5, 0x3],
      [0x6, 0xC, 0x7, 0x1, 0x5, 0xF, 0xD, 0x8, 0x4, 0xA, 0x9, 0xE, 0x0, 0x3, 0xB, 0x2],
      [0x4, 0xB, 0xA, 0x0, 0x7, 0x2, 0x1, 0xD, 0x3, 0x6, 0x8, 0x5, 0x9, 0xC, 0xF, 0xE],
      [0xD, 0xB, 0x4, 0x1, 0x3, 0xF, 0x5, 0x9, 0x0, 0xA, 0xE, 0x7, 0x6, 0x8, 0x2, 0xC],
      [0x1, 0xF, 0xD, 0x0, 0x5, 0x7, 0xA, 0x4, 0x9, 0x2, 0x3, 0xE, 0x6, 0xB, 0x8, 0xC]]"

definition gost_substitute :: "32 word \<Rightarrow> nat \<Rightarrow> 32 word" where
  "gost_substitute CM1 i =
     push_bit (4 * i) (pp_crypto_hash_gost3411_K_block ! i ! unat (drop_bit (4 * i) CM1 AND 0xF))"

fun P_GOST_28147_ROUND :: "32 word \<Rightarrow> 32 word \<times> 32 word \<Rightarrow> 32 word \<times> 32 word" where
  "P_GOST_28147_ROUND key (N0, N1) =
     (let CM1 = N0 + key;
          CM1 = gost_substitute CM1 0 OR gost_substitute CM1 1 OR gost_substitute CM1 2 OR gost_substitute CM1 3 OR
            gost_substitute CM1 4 OR gost_substitute CM1 5 OR gost_substitute CM1 6 OR gost_substitute CM1 7;
          CM1 = (push_bit 11 CM1 OR drop_bit 21 CM1) XOR N1
      in (CM1, N0))"

text \<open>The 32 rounds use the key words from 0 to 7 three times and then from 7 to 0.\<close>

definition P_GOST_28147_E :: "32 word \<times> 32 word \<Rightarrow> w8 \<Rightarrow> 32 word \<times> 32 word" where
  "P_GOST_28147_E dat key =
     (let k = of_w8 key;
          (N0, N1) = fold P_GOST_28147_ROUND
            [k ! 0, k ! 1, k ! 2, k ! 3, k ! 4, k ! 5, k ! 6, k ! 7,
             k ! 0, k ! 1, k ! 2, k ! 3, k ! 4, k ! 5, k ! 6, k ! 7,
             k ! 0, k ! 1, k ! 2, k ! 3, k ! 4, k ! 5, k ! 6, k ! 7,
             k ! 7, k ! 6, k ! 5, k ! 4, k ! 3, k ! 2, k ! 1, k ! 0] dat
      in (N1, N0))"

section \<open>The step function\<close>

definition P_GOST_3411_P :: "w8 \<Rightarrow> w8" where
  "P_GOST_3411_P = (\<lambda>(d0, d1, d2, d3, d4, d5, d6, d7).
     (let o0 = (d0 AND 0x000000FF) OR
           ((push_bit 8 d2) AND 0x0000FF00) OR
           ((push_bit 16 d4) AND 0x00FF0000) OR
           ((push_bit 24 d6) AND 0xFF000000);
          o1 = ((drop_bit 8 d0) AND 0x000000FF) OR
           (d2 AND 0x0000FF00) OR
           ((push_bit 8 d4) AND 0x00FF0000) OR
           ((push_bit 16 d6) AND 0xFF000000);
          o2 = ((drop_bit 16 d0) AND 0x000000FF) OR
           ((drop_bit 8 d2) AND 0x0000FF00) OR
           (d4 AND 0x00FF0000) OR
           ((push_bit 8 d6) AND 0xFF000000);
          o3 = ((drop_bit 24 d0) AND 0x000000FF) OR
           ((drop_bit 16 d2) AND 0x0000FF00) OR
           ((drop_bit 8 d4) AND 0x00FF0000) OR
           (d6 AND 0xFF000000);
          o4 = (d1 AND 0x000000FF) OR
           ((push_bit 8 d3) AND 0x0000FF00) OR
           ((push_bit 16 d5) AND 0x00FF0000) OR
           ((push_bit 24 d7) AND 0xFF000000);
          o5 = ((drop_bit 8 d1) AND 0x000000FF) OR
           (d3 AND 0x0000FF00) OR
           ((push_bit 8 d5) AND 0x00FF0000) OR
           ((push_bit 16 d7) AND 0xFF000000);
          o6 = ((drop_bit 16 d1) AND 0x000000FF) OR
           ((drop_bit 8 d3) AND 0x0000FF00) OR
           (d5 AND 0x00FF0000) OR
           ((push_bit 8 d7) AND 0xFF000000);
          o7 = ((drop_bit 24 d1) AND 0x000000FF) OR
           ((drop_bit 16 d3) AND 0x0000FF00) OR
           ((drop_bit 8 d5) AND 0x00FF0000) OR
           (d7 AND 0xFF000000)
      in (o0, o1, o2, o3, o4, o5, o6, o7)))"

text \<open>
  The key material.  Each function takes \<open>U\<close> and \<open>V\<close> as they are before the code's paragraph and gives
  \<open>U\<close>, \<open>V\<close> and \<open>W\<close> after it; an assignment inside an expression is a binding of its own.
\<close>

definition gost_key_1 :: "w8 \<times> w8 \<Rightarrow> w8 \<times> w8 \<times> w8" where
  "gost_key_1 = (\<lambda>((u0, u1, u2, u3, u4, u5, u6, u7), (v0, v1, v2, v3, v4, v5, v6, v7)).
     (let w0 = u0 XOR v0;
          w1 = u1 XOR v1;
          w2 = u2 XOR v2;
          w3 = u3 XOR v3;
          w4 = u4 XOR v4;
          w5 = u5 XOR v5;
          w6 = u6 XOR v6;
          w7 = u7 XOR v7
      in ((u0, u1, u2, u3, u4, u5, u6, u7), (v0, v1, v2, v3, v4, v5, v6, v7), (w0, w1, w2, w3, w4, w5, w6, w7))))"

definition gost_key_2 :: "w8 \<times> w8 \<Rightarrow> w8 \<times> w8 \<times> w8" where
  "gost_key_2 = (\<lambda>((u0, u1, u2, u3, u4, u5, u6, u7), (v0, v1, v2, v3, v4, v5, v6, v7)).
     (let w0 = u2 XOR v4;
          w1 = u3 XOR v5;
          w2 = u4 XOR v6;
          w3 = u5 XOR v7;
          v0 = v0 XOR v2;
          w4 = u6 XOR v0;
          v1 = v1 XOR v3;
          w5 = u7 XOR v1;
          u0 = u0 XOR u2;
          v2 = v2 XOR v4;
          w6 = u0 XOR v2;
          u1 = u1 XOR u3;
          v3 = v3 XOR v5;
          w7 = u1 XOR v3
      in ((u0, u1, u2, u3, u4, u5, u6, u7), (v0, v1, v2, v3, v4, v5, v6, v7), (w0, w1, w2, w3, w4, w5, w6, w7))))"

definition gost_key_3 :: "w8 \<times> w8 \<Rightarrow> w8 \<times> w8 \<times> w8" where
  "gost_key_3 = (\<lambda>((u0, u1, u2, u3, u4, u5, u6, u7), (v0, v1, v2, v3, v4, v5, v6, v7)).
     (let u2 = u2 XOR u4 XOR 0x000000FF;
          u3 = u3 XOR u5 XOR 0xFF00FFFF;
          u4 = u4 XOR 0xFF00FF00;
          u5 = u5 XOR 0xFF00FF00;
          u6 = u6 XOR 0x00FF00FF;
          u7 = u7 XOR 0x00FF00FF;
          u0 = u0 XOR 0x00FFFF00;
          u1 = u1 XOR 0xFF0000FF;
          w0 = u4 XOR v0;
          w2 = u6 XOR v2;
          v4 = v4 XOR v6;
          w4 = u0 XOR v4;
          v6 = v6 XOR v0;
          w6 = u2 XOR v6;
          w1 = u5 XOR v1;
          w3 = u7 XOR v3;
          v5 = v5 XOR v7;
          w5 = u1 XOR v5;
          v7 = v7 XOR v1;
          w7 = u3 XOR v7
      in ((u0, u1, u2, u3, u4, u5, u6, u7), (v0, v1, v2, v3, v4, v5, v6, v7), (w0, w1, w2, w3, w4, w5, w6, w7))))"

definition gost_key_4 :: "w8 \<times> w8 \<Rightarrow> w8 \<times> w8 \<times> w8" where
  "gost_key_4 = (\<lambda>((u0, u1, u2, u3, u4, u5, u6, u7), (v0, v1, v2, v3, v4, v5, v6, v7)).
     (let w0 = u6 XOR v4;
          w1 = u7 XOR v5;
          w2 = u0 XOR v6;
          w3 = u1 XOR v7;
          v0 = v0 XOR v2;
          w4 = u2 XOR v0;
          v1 = v1 XOR v3;
          w5 = u3 XOR v1;
          u4 = u4 XOR u6;
          v2 = v2 XOR v4;
          w6 = u4 XOR v2;
          u5 = u5 XOR u7;
          v3 = v3 XOR v5;
          w7 = u5 XOR v3
      in ((u0, u1, u2, u3, u4, u5, u6, u7), (v0, v1, v2, v3, v4, v5, v6, v7), (w0, w1, w2, w3, w4, w5, w6, w7))))"

text \<open>The three closed forms of the linear mixing, on \<open>data\<close>, \<open>S\<close>, \<open>ctx->hash\<close> and the arrays \<open>U\<close> and \<open>V\<close>.\<close>

definition gost_lfsr_12 :: "w8 \<Rightarrow> w8 \<Rightarrow> w8" where
  "gost_lfsr_12 = (\<lambda>(d0, d1, d2, d3, d4, d5, d6, d7) (s0, s1, s2, s3, s4, s5, s6, s7).
     (let u0 = d0 XOR s6;
          u1 = d1 XOR s7;
          u2 = d2 XOR (s0 AND 0x0000FFFF) XOR (drop_bit 16 s0) XOR (push_bit 16 s0)
            XOR (s1 AND 0x0000FFFF) XOR (drop_bit 16 s1) XOR (push_bit 16 s2)
            XOR (s7 AND 0xFFFF0000) XOR (push_bit 16 s6) XOR (drop_bit 16 s7) XOR s6;
          u3 = d3 XOR (s0 AND 0x0000FFFF) XOR (push_bit 16 s0) XOR (push_bit 16 s2)
            XOR (s1 AND 0x0000FFFF) XOR (push_bit 16 s1) XOR (drop_bit 16 s1)
            XOR (s7 AND 0x0000FFFF) XOR (drop_bit 16 s2) XOR (push_bit 16 s3) XOR (push_bit 16 s6)
            XOR (drop_bit 16 s6) XOR (push_bit 16 s7) XOR (drop_bit 16 s7) XOR s6;
          u4 = d4 XOR (s0 AND 0xFFFF0000) XOR (push_bit 16 s0) XOR (drop_bit 16 s0)
            XOR (s1 AND 0xFFFF0000) XOR (drop_bit 16 s1) XOR (push_bit 16 s2)
            XOR (s7 AND 0x0000FFFF) XOR (push_bit 16 s3) XOR (drop_bit 16 s3) XOR (push_bit 16 s4)
            XOR (push_bit 16 s6) XOR (drop_bit 16 s6) XOR (drop_bit 16 s2) XOR (push_bit 16 s7)
            XOR (drop_bit 16 s7);
          u5 = d5 XOR (s0 AND 0xFFFF0000) XOR (drop_bit 16 s0) XOR (push_bit 16 s0)
            XOR (s1 AND 0x0000FFFF) XOR (drop_bit 16 s7) XOR (drop_bit 16 s2)
            XOR (s7 AND 0xFFFF0000) XOR (drop_bit 16 s3) XOR (push_bit 16 s4) XOR (drop_bit 16 s4)
            XOR (push_bit 16 s5) XOR (push_bit 16 s6) XOR (drop_bit 16 s6) XOR (push_bit 16 s3)
            XOR (push_bit 16 s7) XOR s2;
          u6 = d6 XOR (drop_bit 16 s4) XOR (drop_bit 16 s1) XOR (push_bit 16 s2) XOR (push_bit 16 s7)
            XOR (drop_bit 16 s3) XOR (push_bit 16 s4) XOR (push_bit 16 s5) XOR (drop_bit 16 s5)
            XOR (push_bit 16 s6) XOR (drop_bit 16 s6) XOR s6 XOR s0 XOR s3;
          u7 = d7 XOR (s0 AND 0xFFFF0000) XOR (push_bit 16 s0) XOR (push_bit 16 s1)
            XOR (s1 AND 0x0000FFFF) XOR (drop_bit 16 s2) XOR (push_bit 16 s3)
            XOR (s7 AND 0x0000FFFF) XOR (drop_bit 16 s4) XOR (push_bit 16 s5) XOR (drop_bit 16 s5)
            XOR (drop_bit 16 s6) XOR (push_bit 16 s7) XOR (drop_bit 16 s7) XOR s4
      in (u0, u1, u2, u3, u4, u5, u6, u7)))"

definition gost_lfsr_1 :: "w8 \<Rightarrow> w8 \<Rightarrow> w8" where
  "gost_lfsr_1 = (\<lambda>(h0, h1, h2, h3, h4, h5, h6, h7) (u0, u1, u2, u3, u4, u5, u6, u7).
     (let v0 = h0 XOR (push_bit 16 u1) XOR (drop_bit 16 u0);
          v1 = h1 XOR (push_bit 16 u2) XOR (drop_bit 16 u1);
          v2 = h2 XOR (push_bit 16 u3) XOR (drop_bit 16 u2);
          v3 = h3 XOR (push_bit 16 u4) XOR (drop_bit 16 u3);
          v4 = h4 XOR (push_bit 16 u5) XOR (drop_bit 16 u4);
          v5 = h5 XOR (push_bit 16 u6) XOR (drop_bit 16 u5);
          v6 = h6 XOR (push_bit 16 u7) XOR (drop_bit 16 u6);
          v7 = h7 XOR (drop_bit 16 u7) XOR (push_bit 16 u0) XOR (u1 AND 0xFFFF0000) XOR (push_bit 16 u1)
            XOR (u7 AND 0xFFFF0000) XOR (push_bit 16 u6) XOR (u0 AND 0xFFFF0000)
      in (v0, v1, v2, v3, v4, v5, v6, v7)))"

definition gost_lfsr_61 :: "w8 \<Rightarrow> w8" where
  "gost_lfsr_61 = (\<lambda>(v0, v1, v2, v3, v4, v5, v6, v7).
     (let o0 = (v0 AND 0xFFFF0000) XOR (push_bit 16 v0) XOR (drop_bit 16 v0) XOR (v1 AND 0xFFFF0000)
            XOR (drop_bit 16 v1) XOR (push_bit 16 v2) XOR (v7 AND 0x0000FFFF) XOR (drop_bit 16 v3)
            XOR (push_bit 16 v4) XOR (drop_bit 16 v5) XOR (drop_bit 16 v6) XOR (push_bit 16 v7)
            XOR (drop_bit 16 v7) XOR v5;
          o1 = (v0 AND 0xFFFF0000) XOR (push_bit 16 v0) XOR (drop_bit 16 v0) XOR (v1 AND 0x0000FFFF)
            XOR (drop_bit 16 v2) XOR (push_bit 16 v3) XOR (v7 AND 0xFFFF0000) XOR (drop_bit 16 v4)
            XOR (push_bit 16 v5) XOR (push_bit 16 v6) XOR (drop_bit 16 v7) XOR v6 XOR v2;
          o2 = (v0 AND 0x0000FFFF) XOR (push_bit 16 v0) XOR (push_bit 16 v1) XOR (v7 AND 0x0000FFFF)
            XOR (drop_bit 16 v1) XOR (push_bit 16 v2) XOR (v1 AND 0xFFFF0000) XOR (drop_bit 16 v3)
            XOR (push_bit 16 v4) XOR (drop_bit 16 v5) XOR (drop_bit 16 v6) XOR (push_bit 16 v7)
            XOR (drop_bit 16 v7) XOR v3 XOR v6;
          o3 = (v0 AND 0xFFFF0000) XOR (push_bit 16 v0) XOR (drop_bit 16 v0) XOR (v1 AND 0xFFFF0000)
            XOR (drop_bit 16 v1) XOR (push_bit 16 v2) XOR (v7 AND 0x0000FFFF) XOR (drop_bit 16 v2)
            XOR (push_bit 16 v3) XOR (drop_bit 16 v4) XOR (push_bit 16 v5) XOR (push_bit 16 v6)
            XOR (drop_bit 16 v7) XOR v2 XOR v4;
          o4 = (drop_bit 16 v0) XOR (push_bit 16 v1) XOR (drop_bit 16 v2) XOR (push_bit 16 v3)
            XOR (drop_bit 16 v3) XOR (push_bit 16 v4) XOR (drop_bit 16 v5) XOR (push_bit 16 v6)
            XOR (drop_bit 16 v6) XOR (push_bit 16 v7) XOR v1 XOR v2 XOR v3 XOR v5;
          o5 = (v0 AND 0xFFFF0000) XOR (push_bit 16 v0) XOR (push_bit 16 v1) XOR (v1 AND 0xFFFF0000)
            XOR (drop_bit 16 v1) XOR (push_bit 16 v2) XOR (v7 AND 0xFFFF0000) XOR (drop_bit 16 v3)
            XOR (push_bit 16 v4) XOR (drop_bit 16 v4) XOR (push_bit 16 v5) XOR (push_bit 16 v6)
            XOR (drop_bit 16 v6) XOR (push_bit 16 v7) XOR (drop_bit 16 v7) XOR v2 XOR v3 XOR v4
            XOR v6;
          o6 = (drop_bit 16 v2) XOR (push_bit 16 v3) XOR (drop_bit 16 v4) XOR (push_bit 16 v5)
            XOR (drop_bit 16 v5) XOR (push_bit 16 v6) XOR (drop_bit 16 v6) XOR (push_bit 16 v7)
            XOR v7 XOR v0 XOR v2 XOR v3 XOR v4 XOR v5 XOR v6;
          o7 = (drop_bit 16 v0) XOR (push_bit 16 v1) XOR (drop_bit 16 v1) XOR (push_bit 16 v2)
            XOR (drop_bit 16 v3) XOR (push_bit 16 v4) XOR (drop_bit 16 v5) XOR (push_bit 16 v6)
            XOR (drop_bit 16 v6) XOR (push_bit 16 v7) XOR v7 XOR v0 XOR v3 XOR v4 XOR v5
      in (o0, o1, o2, o3, o4, o5, o6, o7)))"

definition pp_crypto_hash_gost3411_process :: "32 word list \<Rightarrow> 32 word list \<Rightarrow> 32 word list" where
  "pp_crypto_hash_gost3411_process hh dat =
     (let H = to_w8 hh; M = to_w8 dat;
          (U, V, W) = gost_key_1 (H, M); K0 = P_GOST_3411_P W;
          (U, V, W) = gost_key_2 (U, V); K1 = P_GOST_3411_P W;
          (U, V, W) = gost_key_3 (U, V); K2 = P_GOST_3411_P W;
          (U, V, W) = gost_key_4 (U, V); K3 = P_GOST_3411_P W;
          (s0, s1) = P_GOST_28147_E (hh ! 0, hh ! 1) K0;
          (s2, s3) = P_GOST_28147_E (hh ! 2, hh ! 3) K1;
          (s4, s5) = P_GOST_28147_E (hh ! 4, hh ! 5) K2;
          (s6, s7) = P_GOST_28147_E (hh ! 6, hh ! 7) K3;
          U = gost_lfsr_12 M (s0, s1, s2, s3, s4, s5, s6, s7);
          V = gost_lfsr_1 H U
      in of_w8 (gost_lfsr_61 V))"

section \<open>The 256-bit sum\<close>

text \<open>\<open>a[i] += b[i]\<close> with a carry, which is read off the result of the addition.\<close>

fun sum_256_loop :: "bool \<Rightarrow> 32 word list \<Rightarrow> 32 word list \<Rightarrow> 32 word list" where
  "sum_256_loop carry (a # as) (b # bs) =
     (let a' = a + b + (if carry then 1 else 0)
      in a' # sum_256_loop (a' < a \<or> a' < b) as bs)"
| "sum_256_loop carry as bs = as"

definition pp_crypto_hash_gost3411_sum_256 :: "32 word list \<Rightarrow> 32 word list \<Rightarrow> 32 word list" where
  "pp_crypto_hash_gost3411_sum_256 a b = sum_256_loop False a b"

definition pp_crypto_hash_gost3411_swap_bytes :: "bool \<Rightarrow> 32 word list \<Rightarrow> nat \<Rightarrow> 32 word list" where
  "pp_crypto_hash_gost3411_swap_bytes big dat words =
     (if \<not> big then dat else swap_words (PUINT32_TO_LE big) dat words)"

section \<open>The operations\<close>

definition p_crypto_hash_gost3411_reset :: "PHashGOST3411 \<Rightarrow> PHashGOST3411" where
  "p_crypto_hash_gost3411_reset ctx =
     ctx\<lparr>g_buf := replicate 32 0, g_hash := replicate 8 0, g_len := replicate 8 0, g_sum := replicate 8 0\<rparr>"

definition p_crypto_hash_gost3411_new :: "bool \<Rightarrow> PHashGOST3411 option" where
  "p_crypto_hash_gost3411_new mem =
     (if \<not> mem then None
      else Some (p_crypto_hash_gost3411_reset
        \<lparr>g_buf = replicate 32 0, g_hash = replicate 8 0, g_len = replicate 8 0, g_sum = replicate 8 0\<rparr>))"

text \<open>\<open>swap_bytes (ctx->buf, 8); process (ctx, ctx->buf); sum_256 (ctx->sum, ctx->buf);\<close>\<close>

definition gost_block :: "bool \<Rightarrow> PHashGOST3411 \<Rightarrow> PHashGOST3411" where
  "gost_block big ctx =
     (let ws = pp_crypto_hash_gost3411_swap_bytes big (buf_w big (g_buf ctx)) 8
      in ctx\<lparr>g_buf := of_buf_w big ws,
             g_hash := pp_crypto_hash_gost3411_process (g_hash ctx) ws,
             g_sum := pp_crypto_hash_gost3411_sum_256 (g_sum ctx) ws\<rparr>)"

function gost_blocks :: "bool \<Rightarrow> PHashGOST3411 \<Rightarrow> byte list \<Rightarrow> PHashGOST3411 \<times> byte list" where
  "gost_blocks big ctx dat =
     (if length dat < 32 then (ctx, dat)
      else gost_blocks big (gost_block big (ctx\<lparr>g_buf := copy_at (g_buf ctx) 0 (take 32 dat)\<rparr>)) (drop 32 dat))"
  by pat_completeness auto
termination by (relation "measure (\<lambda>(big, ctx, dat). length dat)") auto

declare gost_blocks.simps [simp del]

text \<open>\<open>len256\<close>, from the 64-bit \<open>psize\<close> length.\<close>

definition gost_length :: "64 word \<Rightarrow> 32 word list" where
  "gost_length len = [ucast (push_bit 3 len), ucast (drop_bit 29 len), 0, 0, 0, 0, 0, 0]"

definition p_crypto_hash_gost3411_update :: "bool \<Rightarrow> PHashGOST3411 \<Rightarrow> byte list \<Rightarrow> PHashGOST3411" where
  "p_crypto_hash_gost3411_update big ctx dat =
     (let left = unat (drop_bit 3 (g_len ctx ! 0 AND 0xFF));
          to_fill = 32 - left;
          ctx1 = ctx\<lparr>g_len := pp_crypto_hash_gost3411_sum_256 (g_len ctx) (gost_length (of_nat (length dat)))\<rparr>;
          (ctx2, dat2, left2) =
            (if left \<noteq> 0 \<and> (of_nat to_fill :: 32 word) \<le> of_nat (length dat)
             then (gost_block big (ctx1\<lparr>g_buf := copy_at (g_buf ctx1) left (take to_fill dat)\<rparr>), drop to_fill dat, 0)
             else (ctx1, dat, left));
          (ctx3, dat3) = gost_blocks big ctx2 dat2
      in if dat3 \<noteq> [] then ctx3\<lparr>g_buf := copy_at (g_buf ctx3) left2 dat3\<rparr> else ctx3)"

definition p_crypto_hash_gost3411_finish :: "bool \<Rightarrow> PHashGOST3411 \<Rightarrow> PHashGOST3411" where
  "p_crypto_hash_gost3411_finish big ctx =
     (let left = unat (g_len ctx ! 0 AND 0xFF);
          lst = 32 - left div 8;
          ctx1 = (if lst mod 32 \<noteq> 0
                  then gost_block big (ctx\<lparr>g_buf := copy_at (g_buf ctx) (left div 8) (replicate lst 0)\<rparr>)
                  else ctx);
          h1 = pp_crypto_hash_gost3411_process (g_hash ctx1) (g_len ctx1);
          h2 = pp_crypto_hash_gost3411_process h1 (g_sum ctx1)
      in ctx1\<lparr>g_hash := pp_crypto_hash_gost3411_swap_bytes big h2 8\<rparr>)"

definition p_crypto_hash_gost3411_digest :: "bool \<Rightarrow> PHashGOST3411 \<Rightarrow> byte list" where
  "p_crypto_hash_gost3411_digest big ctx = of_buf_w big (g_hash ctx)"

section \<open>The sum is the sum modulo \<open>2 ^ 256\<close>, as long as the carry is seen\<close>

fun words_val :: "32 word list \<Rightarrow> nat" where
  "words_val [] = 0"
| "words_val (w # ws) = unat w + 2 ^ 32 * words_val ws"

fun words_of :: "nat \<Rightarrow> nat \<Rightarrow> 32 word list" where
  "words_of 0 v = []"
| "words_of (Suc n) v = of_nat v # words_of n (v div 2 ^ 32)"

lemma length_words_of [simp]: "length (words_of n v) = n"
  by (induction n arbitrary: v) auto

lemma words_val_bound: "words_val ws < 2 ^ (32 * length ws)"
proof (induction ws)
  case (Cons w ws)
  have "unat w < 2 ^ 32" using unsigned_less[of w] by simp
  moreover have "words_val ws + 1 \<le> 2 ^ (32 * length ws)" using Cons by simp
  then have "2 ^ 32 * (words_val ws + 1) \<le> 2 ^ 32 * 2 ^ (32 * length ws)" by (rule mult_le_mono2)
  ultimately show ?case by (simp add: power_add)
qed simp

lemma words_val_inj: "length xs = length ys \<Longrightarrow> words_val xs = words_val ys \<Longrightarrow> xs = ys"
proof (induction xs ys rule: list_induct2)
  case (Cons x xs y ys)
  have "unat x < 2 ^ 32" "unat y < 2 ^ 32" using unsigned_less[of x] unsigned_less[of y] by simp_all
  then have "unat x = words_val (x # xs) mod 2 ^ 32" "unat y = words_val (y # ys) mod 2 ^ 32"
    "words_val xs = words_val (x # xs) div 2 ^ 32" "words_val ys = words_val (y # ys) div 2 ^ 32"
    by simp_all
  then have "unat x = unat y" and "words_val xs = words_val ys" using Cons.prems by metis+
  then show ?case using Cons.IH unsigned_word_eqI[of x y] by simp
qed simp

lemma words_val_of: "words_val (words_of n v) = v mod 2 ^ (32 * n)"
proof (induction n arbitrary: v)
  case (Suc n)
  have "unat (of_nat v :: 32 word) = v mod 2 ^ 32" by (simp add: unsigned_of_nat take_bit_eq_mod)
  moreover have "v mod (2 ^ 32 * 2 ^ (32 * n)) = 2 ^ 32 * (v div 2 ^ 32 mod 2 ^ (32 * n)) + v mod 2 ^ 32"
    by (rule mod_mult2_eq)
  ultimately show ?case using Suc[of "v div 2 ^ 32"] by (simp add: power_add)
qed simp

lemma carry_seen:
  fixes a b :: "32 word"
  assumes "\<not> (c \<and> a = - 1 \<and> b = - 1)" and r: "r = a + b + (if c then 1 else 0)"
  shows "unat r + 2 ^ 32 * of_bool (r < a \<or> r < b) = unat a + unat b + of_bool c"
proof -
  let ?s = "unat a + unat b + of_bool c"
  have ab: "unat a < 2 ^ 32" "unat b < 2 ^ 32" using unsigned_less[of a] unsigned_less[of b] by simp_all
  have "r = of_nat ?s" by (simp add: r)
  then have "unat r = unat (of_nat ?s :: 32 word)" by (rule arg_cong)
  then have ur: "unat r = ?s mod 2 ^ 32" by (simp only: unsigned_of_nat take_bit_eq_mod) simp
  show ?thesis
  proof (cases "?s < 2 ^ 32")
    case True
    then have "unat r = ?s" using ur by simp
    then show ?thesis by (simp add: word_less_nat_alt)
  next
    case False
    have "?s < 2 * 2 ^ 32" using ab by (cases c) simp_all
    then have e: "unat r = ?s - 2 ^ 32" using False by (simp only: ur) (simp add: le_mod_geq)
    have e': "unat r + 2 ^ 32 = ?s" using e False by linarith
    have "unat r < unat a \<or> unat r < unat b"
    proof (rule ccontr)
      assume n: "\<not> ?thesis"
      then have "unat b + of_bool c \<ge> 2 ^ 32" "unat a + of_bool c \<ge> 2 ^ 32" using e' by linarith+
      then have "c" "unat b = 2 ^ 32 - 1" "unat a = 2 ^ 32 - 1" using ab by (cases c; simp)+
      moreover have "unat (- 1 :: 32 word) = 2 ^ 32 - 1" by (simp add: unsigned_minus_1_eq_mask mask_eq_exp_minus_1)
      ultimately show False using assms(1) by (metis unsigned_word_eqI)
    qed
    then show ?thesis using e False by (simp add: word_less_nat_alt)
  qed
qed

lemma sum_256_loop_val:
  assumes "length as = length bs" "\<forall>(a, b) \<in> set (zip as bs). \<not> (a = - 1 \<and> b = - 1)"
  shows "length (sum_256_loop c as bs) = length as \<and>
    (\<exists>k. words_val (sum_256_loop c as bs) + 2 ^ (32 * length as) * k = words_val as + words_val bs + of_bool c)"
  using assms
proof (induction as bs arbitrary: c rule: list_induct2)
  case (Cons a as b bs)
  define r where "r = a + b + (if c then 1 else 0)"
  define c' where "c' \<longleftrightarrow> r < a \<or> r < b"
  have "\<not> (c \<and> a = - 1 \<and> b = - 1)" using Cons.prems by simp
  note v = carry_seen[OF this r_def]
  obtain k where k: "words_val (sum_256_loop c' as bs) + 2 ^ (32 * length as) * k = words_val as + words_val bs + of_bool c'"
    and l: "length (sum_256_loop c' as bs) = length as" using Cons by auto
  have "words_val (sum_256_loop c (a # as) (b # bs)) + 2 ^ (32 * length (a # as)) * k =
      unat r + 2 ^ 32 * (words_val (sum_256_loop c' as bs) + 2 ^ (32 * length as) * k)"
    by (simp add: Let_def r_def c'_def power_add distrib_left)
  also have "\<dots> = words_val (a # as) + words_val (b # bs) + of_bool c"
    using v unfolding k c'_def[symmetric] by (simp add: distrib_left)
  finally show ?case using l by (auto simp: Let_def r_def c'_def)
qed simp

lemma sum_256_val:
  assumes "length a = 8" "length b = 8" "\<forall>(x, y) \<in> set (zip a b). \<not> (x = - 1 \<and> y = - 1)"
  shows "words_val (pp_crypto_hash_gost3411_sum_256 a b) = (words_val a + words_val b) mod 2 ^ 256"
    and "length (pp_crypto_hash_gost3411_sum_256 a b) = 8"
proof -
  obtain k where k: "words_val (pp_crypto_hash_gost3411_sum_256 a b) + 2 ^ 256 * k = words_val a + words_val b"
    and l: "length (pp_crypto_hash_gost3411_sum_256 a b) = 8"
    using sum_256_loop_val[of a b False] assms by (auto simp: pp_crypto_hash_gost3411_sum_256_def)
  have "words_val (pp_crypto_hash_gost3411_sum_256 a b) < 2 ^ 256"
    using words_val_bound[of "pp_crypto_hash_gost3411_sum_256 a b"] by (simp add: l)
  then show "words_val (pp_crypto_hash_gost3411_sum_256 a b) = (words_val a + words_val b) mod 2 ^ 256"
    using k by (metis mod_less mod_mult_self2)
  show "length (pp_crypto_hash_gost3411_sum_256 a b) = 8" by (rule l)
qed

end
