(* ===== verification/PGostStream.thy ===== *)
theory PGostStream
  imports PGost3411
begin

text \<open>
  What the context of \<open>pcryptohash-gost3411.c\<close> has absorbed after a sequence of updates, and the digest it
  finishes with: the fold of the step function and of the 256-bit sum over the blocks of the zero-padded
  message, then over the length and the sum.
\<close>

section \<open>The reference\<close>

definition gost_words :: "byte list \<Rightarrow> 32 word list" where
  "gost_words block = map (word_of False) (groups 4 block)"

fun gost_step :: "32 word list \<times> 32 word list \<Rightarrow> byte list \<Rightarrow> 32 word list \<times> 32 word list" where
  "gost_step (h, s) block =
     (pp_crypto_hash_gost3411_process h (gost_words block), pp_crypto_hash_gost3411_sum_256 s (gost_words block))"

definition gost_absorb :: "byte list \<Rightarrow> 32 word list \<times> 32 word list" where
  "gost_absorb msg = foldl gost_step (replicate 8 0, replicate 8 0) (groups 32 msg)"

definition gost_padding :: "nat \<Rightarrow> byte list" where
  "gost_padding n = replicate ((32 - n mod 32) mod 32) 0"

definition gost_reference :: "byte list \<Rightarrow> byte list" where
  "gost_reference msg =
     (let (h, s) = gost_absorb (msg @ gost_padding (length msg));
          h1 = pp_crypto_hash_gost3411_process h (words_of 8 (8 * length msg));
          h2 = pp_crypto_hash_gost3411_process h1 s
      in concat (map (bytes_of False) h2))"

definition gost_absorbed :: "byte list \<Rightarrow> PHashGOST3411 \<Rightarrow> bool" where
  "gost_absorbed msg ctx \<longleftrightarrow>
     length (g_buf ctx) = 32 \<and> take (length msg mod 32) (g_buf ctx) = rest 32 msg \<and>
     (g_hash ctx, g_sum ctx) = gost_absorb msg \<and> g_len ctx = words_of 8 (8 * length msg)"

section \<open>Blocks\<close>

lemma gost_swap: "pp_crypto_hash_gost3411_swap_bytes big ws k = swap_words (PUINT32_TO_LE big) ws k"
proof -
  have "map (PUINT32_TO_LE False) xs = xs" for xs by (induction xs) (simp_all add: PUINT32_TO_LE_def)
  then show ?thesis by (simp add: pp_crypto_hash_gost3411_swap_bytes_def swap_words_def)
qed

lemma length_of_w8 [simp]: "length (of_w8 x) = 8"
  by (cases x rule: of_w8.cases) simp

lemma length_gost_process [simp]: "length (pp_crypto_hash_gost3411_process h d) = 8"
  by (simp add: pp_crypto_hash_gost3411_process_def Let_def split_beta)

lemma gost_block_ok:
  assumes "length (g_buf ctx) = 32"
  shows "(g_hash (gost_block big ctx), g_sum (gost_block big ctx)) = gost_step (g_hash ctx, g_sum ctx) (g_buf ctx)"
    and "length (g_buf (gost_block big ctx)) = 32" "g_len (gost_block big ctx) = g_len ctx"
proof -
  let ?ws = "buf_w big (g_buf ctx) :: 32 word list"
  have len: "length ?ws = 8" using assms by (simp add: buf_w_def length_groups)
  have "pp_crypto_hash_gost3411_swap_bytes big ?ws 8 = map (PUINT32_TO_LE big) ?ws"
    using len by (simp add: gost_swap swap_words_def)
  also have "\<dots> = gost_words (g_buf ctx)"
    using in_groups[of _ 4 "g_buf ctx"] by (simp add: buf_w_def gost_words_def le32.conv_read)
  finally have ws: "pp_crypto_hash_gost3411_swap_bytes big ?ws 8 = gost_words (g_buf ctx)" .
  show "(g_hash (gost_block big ctx), g_sum (gost_block big ctx)) = gost_step (g_hash ctx, g_sum ctx) (g_buf ctx)"
    by (simp add: gost_block_def Let_def ws)
  have "length (gost_words (g_buf ctx)) = 8" using len by (simp add: buf_w_def gost_words_def)
  then show "length (g_buf (gost_block big ctx)) = 32"
    by (simp add: gost_block_def Let_def ws length_of_buf_w)
qed (simp add: gost_block_def Let_def)

lemma gost_blocks_ok:
  "length (g_buf ctx) = 32 \<Longrightarrow> \<exists>ctx'. gost_blocks big ctx dat = (ctx', rest 32 dat) \<and>
     (g_hash ctx', g_sum ctx') = foldl gost_step (g_hash ctx, g_sum ctx) (groups 32 dat) \<and>
     length (g_buf ctx') = 32 \<and> g_len ctx' = g_len ctx"
proof (induction "length dat" arbitrary: ctx dat rule: less_induct)
  case less
  show ?case
  proof (cases "length dat < 32")
    case True
    then show ?thesis using less.prems
      by (subst gost_blocks.simps) (simp add: groups_short rest_def)
  next
    case False
    let ?c = "ctx\<lparr>g_buf := copy_at (g_buf ctx) 0 (take 32 dat)\<rparr>"
    have b: "g_buf ?c = take 32 dat" using False less.prems by (simp add: copy_at_all)
    then have c: "length (g_buf ?c) = 32" using False by simp
    have "length (drop 32 dat) < length dat" using False by simp
    from less.hyps[OF this gost_block_ok(2)[OF c, of big]] obtain ctx' where ctx':
      "gost_blocks big (gost_block big ?c) (drop 32 dat) = (ctx', rest 32 (drop 32 dat))"
      "(g_hash ctx', g_sum ctx') =
         foldl gost_step (g_hash (gost_block big ?c), g_sum (gost_block big ?c)) (groups 32 (drop 32 dat))"
      "length (g_buf ctx') = 32" "g_len ctx' = g_len (gost_block big ?c)"
      by blast
    have "rest 32 dat = rest 32 (drop 32 dat)" "groups 32 dat = take 32 dat # groups 32 (drop 32 dat)"
      using rest_append[of 32 "take 32 dat" "drop 32 dat"] groups_append1[of 32 "take 32 dat" "drop 32 dat"] False
      by simp_all
    moreover have "gost_blocks big ctx dat = gost_blocks big (gost_block big ?c) (drop 32 dat)"
      using False by (subst gost_blocks.simps) simp
    ultimately show ?thesis using ctx' gost_block_ok(1,3)[OF c, of big] b by simp
  qed
qed

section \<open>The length\<close>

lemma words_of_zero: "words_of n 0 = replicate n 0"
  by (induction n) simp_all

lemma words_of_word: "x < 2 ^ 64 \<Longrightarrow> words_of (Suc (Suc n)) x = of_nat x # of_nat (x div 2 ^ 32) # replicate n 0"
proof -
  assume "x < 2 ^ 64"
  then have "x div 2 ^ 32 div 2 ^ 32 = 0" by (simp only: flip: div_mult2_eq) simp
  then show ?thesis by (simp only: words_of.simps words_of_zero)
qed

lemma gost_length_words: "d < 2 ^ 61 \<Longrightarrow> gost_length (of_nat d) = words_of 8 (8 * d)"
proof -
  assume d: "d < 2 ^ 61"
  have a: "ucast (push_bit 3 (of_nat d :: 64 word)) = (of_nat (8 * d) :: 32 word)"
  proof -
    have "push_bit 3 (of_nat d :: 64 word) = of_nat (8 * d)" by (simp add: push_bit_eq_mult mult.commute)
    moreover have "unat (ucast (of_nat n :: 64 word) :: 32 word) = unat (of_nat n :: 32 word)" for n
      by (simp only: unsigned_ucast_eq unsigned_of_nat) (simp add: take_bit_take_bit)
    ultimately show ?thesis by (metis unsigned_word_eqI)
  qed
  have "unat (drop_bit 29 (of_nat d :: 64 word)) = d div 2 ^ 29"
    using d by (subst unsigned_drop_bit_eq) (simp add: unsigned_of_nat take_bit_nat_eq_self drop_bit_eq_div)
  also have "\<dots> = 8 * d div 2 ^ 32" by simp
  finally have b: "ucast (drop_bit 29 (of_nat d :: 64 word)) = (of_nat (8 * d div 2 ^ 32) :: 32 word)"
    by (metis of_nat_unat)
  have "8 * d < 2 ^ 64" using d by simp
  from words_of_word[OF this, of 6]
  have w: "words_of 8 (8 * d) = of_nat (8 * d) # of_nat (8 * d div 2 ^ 32) # replicate 6 0" by simp
  have r: "replicate 6 (0 :: 32 word) = [0, 0, 0, 0, 0, 0]" by (simp add: eval_nat_numeral)
  show ?thesis by (simp only: gost_length_def a b w r)
qed

lemma gost_length_seen:
  assumes "d < 2 ^ 32" "y \<in> set (words_of 8 (8 * d))"
  shows "y \<noteq> - 1"
proof
  assume y: "y = - 1"
  have "8 * d < 2 ^ 64" using assms(1) by simp
  from words_of_word[OF this, of 6] assms(2)
  consider "y = of_nat (8 * d)" | "y = of_nat (8 * d div 2 ^ 32)" | "y = 0" by auto
  then show False
  proof cases
    case 1
    have "even y" unfolding 1 by simp
    moreover have "odd y" unfolding y by simp
    ultimately show False by simp
  next
    case 2
    have "8 * d div 2 ^ 32 < 8" using assms(1) by simp
    then have "unat y < 8" using 2 by (simp add: unsigned_of_nat take_bit_nat_eq_self)
    then show False using y by (simp add: unsigned_minus_1_eq_mask mask_eq_exp_minus_1)
  qed (use y in simp)
qed

lemma gost_length_sum:
  assumes "d < 2 ^ 32"
  shows "pp_crypto_hash_gost3411_sum_256 (words_of 8 (8 * k)) (gost_length (of_nat d)) = words_of 8 (8 * (k + d))"
proof -
  have "d < 2 ^ 61" using assms by simp
  note gl = gost_length_words[OF this]
  have seen: "\<forall>(x, y) \<in> set (zip (words_of 8 (8 * k)) (words_of 8 (8 * d))). \<not> (x = - 1 \<and> y = - 1)"
    using gost_length_seen[OF assms] by (auto dest: set_zip_rightD)
  have "words_val (pp_crypto_hash_gost3411_sum_256 (words_of 8 (8 * k)) (words_of 8 (8 * d)))
      = words_val (words_of 8 (8 * (k + d)))"
    unfolding sum_256_val(1)[OF length_words_of length_words_of seen] words_val_of
    by (simp add: mod_add_eq distrib_left)
  then show ?thesis unfolding gl
    by (intro words_val_inj) (simp_all add: sum_256_val(2)[OF length_words_of length_words_of seen])
qed

lemma gost_low_bits: "unat ((words_of 8 (8 * k)) ! 0 AND 0xFF) = 8 * (k mod 32)"
proof -
  have "words_of 8 (8 * k) ! 0 = of_nat (8 * k)"
    by (simp only: eval_nat_numeral words_of.simps nth_Cons_0)
  moreover have "(of_nat (8 * k) :: 32 word) AND 0xFF = take_bit 8 (of_nat (8 * k))"
    by (simp add: take_bit_eq_mask mask_eq_exp_minus_1)
  ultimately have "unat ((words_of 8 (8 * k)) ! 0 AND 0xFF) = 8 * k mod 256"
    by (simp add: unsigned_take_bit_eq unsigned_of_nat take_bit_take_bit del: of_nat_mult) (simp add: take_bit_eq_mod)
  then show ?thesis by (simp add: mult_mod_right)
qed

lemma gost_left: "unat (drop_bit 3 (words_of 8 (8 * k) ! 0 AND 0xFF)) = k mod 32"
proof -
  have "k mod 32 < 32" by simp
  then have "8 * (k mod 32) < 256" by linarith
  then have "8 * (k mod 32) < 2 ^ 32" by simp
  then have "take_bit 32 (8 * (k mod 32)) = 8 * (k mod 32)" by (rule take_bit_nat_eq_self)
  then show ?thesis by (simp only: unsigned_drop_bit_eq gost_low_bits) (simp add: drop_bit_eq_div)
qed

section \<open>Updates\<close>

lemma gost_absorb_append:
  "gost_absorb (xs @ ys) = foldl gost_step (gost_absorb xs) (groups 32 (rest 32 xs @ ys))"
  unfolding gost_absorb_def by (subst groups_rest_append) simp_all

lemma gost_tail_ok:
  assumes "length (g_buf ctx) = 32" "gost_blocks big ctx dat = (ctx', xs)"
  shows "xs = rest 32 dat"
    and "length (copy_at (g_buf ctx') 0 xs) = 32" "take (length xs) (copy_at (g_buf ctx') 0 xs) = xs"
    and "length (g_buf ctx') = 32" "g_len ctx' = g_len ctx"
    and "(g_hash ctx', g_sum ctx') = foldl gost_step (g_hash ctx, g_sum ctx) (groups 32 dat)"
proof -
  from gost_blocks_ok[OF assms(1), of big dat] assms(2) show xs: "xs = rest 32 dat"
    and b: "length (g_buf ctx') = 32" and "g_len ctx' = g_len ctx"
      "(g_hash ctx', g_sum ctx') = foldl gost_step (g_hash ctx, g_sum ctx) (groups 32 dat)" by auto
  have "length xs < 32" by (simp add: xs length_rest)
  then show "length (copy_at (g_buf ctx') 0 xs) = 32" "take (length xs) (copy_at (g_buf ctx') 0 xs) = xs"
    using b by (simp_all add: copy_at_def)
qed

lemma gost_update_left:
  assumes "unat (drop_bit 3 (g_len ctx ! 0 AND 0xFF)) = left"
    and "(of_nat (32 - left) :: 32 word) \<le> of_nat (length dat) \<longleftrightarrow> 32 - left \<le> length dat"
    and "ctx1 = ctx\<lparr>g_len := pp_crypto_hash_gost3411_sum_256 (g_len ctx) (gost_length (of_nat (length dat)))\<rparr>"
  shows "p_crypto_hash_gost3411_update big ctx dat =
    (case (if left \<noteq> 0 \<and> 32 - left \<le> length dat
           then (gost_block big (ctx1\<lparr>g_buf := copy_at (g_buf ctx1) left (take (32 - left) dat)\<rparr>), drop (32 - left) dat, 0)
           else (ctx1, dat, left)) of
       (ctx2, dat2, left2) \<Rightarrow>
         (case gost_blocks big ctx2 dat2 of
            (ctx3, dat3) \<Rightarrow> if dat3 \<noteq> [] then ctx3\<lparr>g_buf := copy_at (g_buf ctx3) left2 dat3\<rparr> else ctx3))"
  by (simp only: p_crypto_hash_gost3411_update_def Let_def assms(1,2) assms(3)[symmetric])

lemma gost_update_ok:
  assumes abs: "gost_absorbed msg ctx" and d: "length dat < 2 ^ 32"
  shows "gost_absorbed (msg @ dat) (p_crypto_hash_gost3411_update big ctx dat)"
proof -
  let ?d = "length dat" and ?left = "length msg mod 32"
  have ctx: "length (g_buf ctx) = 32" "take ?left (g_buf ctx) = rest 32 msg"
    "(g_hash ctx, g_sum ctx) = gost_absorb msg" "g_len ctx = words_of 8 (8 * length msg)"
    using abs by (simp_all add: gost_absorbed_def)
  define c1 where "c1 = ctx\<lparr>g_len := pp_crypto_hash_gost3411_sum_256 (g_len ctx) (gost_length (of_nat ?d))\<rparr>"
  have c1: "g_len c1 = words_of 8 (8 * length (msg @ dat))" "g_buf c1 = g_buf ctx"
    "(g_hash c1, g_sum c1) = gost_absorb msg"
    using gost_length_sum[OF d, of "length msg"] ctx(3) by (simp_all add: c1_def ctx(4))
  have left: "unat (drop_bit 3 (g_len ctx ! 0 AND 0xFF)) = ?left" unfolding ctx(4) by (rule gost_left)
  have le: "(of_nat k :: 32 word) \<le> of_nat ?d \<longleftrightarrow> k \<le> ?d" if "k < 2 ^ 32" for k
    using that d by (simp add: word_le_nat_alt unsigned_of_nat take_bit_nat_eq_self)
  have fill: "(of_nat (32 - ?left) :: 32 word) \<le> of_nat ?d \<longleftrightarrow> 32 - ?left \<le> ?d"
    by (rule le) simp
  note upd = gost_update_left[OF left fill c1_def, of big]
  have hash': "gost_absorb (msg @ dat) = foldl gost_step (g_hash c1, g_sum c1) (groups 32 (rest 32 msg @ dat))"
    unfolding c1(3) by (rule gost_absorb_append)
  have rest': "rest 32 (msg @ dat) = rest 32 (rest 32 msg @ dat)" by (rule rest_rest_append) simp
  have len': "length (msg @ dat) mod 32 = length (rest 32 (msg @ dat))" by (simp add: length_rest)
  have lr: "length (rest 32 msg) = ?left" by (simp add: length_rest)
  consider (filled) "?left \<noteq> 0" "32 - ?left \<le> ?d" | (aligned) "?left = 0" | (short) "?left \<noteq> 0" "?d < 32 - ?left"
    by linarith
  then show ?thesis
  proof cases
    case filled
    let ?tf = "32 - ?left"
    let ?c2 = "c1\<lparr>g_buf := copy_at (g_buf c1) ?left (take ?tf dat)\<rparr>"
    have b: "g_buf ?c2 = rest 32 msg @ take ?tf dat"
      using ctx(1,2) c1(2) filled(2) by (simp add: copy_at_def)
    have b': "length (g_buf ?c2) = 32" using b lr filled(2) by simp
    obtain c3 xs where c3: "gost_blocks big (gost_block big ?c2) (drop ?tf dat) = (c3, xs)" by fastforce
    note t = gost_tail_ok[OF gost_block_ok(2)[OF b', of big] c3]
    have u: "p_crypto_hash_gost3411_update big ctx dat = (if xs \<noteq> [] then c3\<lparr>g_buf := copy_at (g_buf c3) 0 xs\<rparr> else c3)"
      using filled c3 by (simp add: upd)
    have g: "groups 32 (rest 32 msg @ dat) = (rest 32 msg @ take ?tf dat) # groups 32 (drop ?tf dat)"
      using groups_append1[of 32 "rest 32 msg @ take ?tf dat" "drop ?tf dat"] b b' by simp
    have r: "rest 32 (rest 32 msg @ dat) = xs"
      using rest_append[of 32 "rest 32 msg @ take ?tf dat" "drop ?tf dat"] b b' t(1) by simp
    show ?thesis unfolding gost_absorbed_def len' rest' hash' r g u
      using t gost_block_ok(1,3)[OF b', of big] b c1 by simp
  next
    case aligned
    then have r: "rest 32 msg = []" using lr by simp
    obtain c3 xs where c3: "gost_blocks big c1 dat = (c3, xs)" by fastforce
    have b': "length (g_buf c1) = 32" using ctx(1) c1(2) by simp
    note t = gost_tail_ok[OF b' c3]
    have u: "p_crypto_hash_gost3411_update big ctx dat = (if xs \<noteq> [] then c3\<lparr>g_buf := copy_at (g_buf c3) 0 xs\<rparr> else c3)"
      using aligned c3 by (simp add: upd)
    show ?thesis unfolding gost_absorbed_def len' rest' hash' u
      using t c1 r by simp
  next
    case short
    have "gost_blocks big c1 dat = (c1, dat)"
      using short(2) by (subst gost_blocks.simps) (simp add: less_diff_conv)
    then have u: "p_crypto_hash_gost3411_update big ctx dat =
        (if dat \<noteq> [] then c1\<lparr>g_buf := copy_at (g_buf ctx) ?left dat\<rparr> else c1)"
      using short c1(2) by (simp add: upd)
    have "length (rest 32 msg @ dat) < 32" using short lr by simp
    then have r: "rest 32 (rest 32 msg @ dat) = rest 32 msg @ dat" "groups 32 (rest 32 msg @ dat) = []"
      by (simp_all add: rest_short groups_short)
    show ?thesis unfolding gost_absorbed_def len' rest' hash' r u
      using c1 ctx(1,2) short lr by (auto simp: copy_at_def)
  qed
qed

section \<open>The digest\<close>

lemma gost_reset_ok: "gost_absorbed [] (p_crypto_hash_gost3411_reset ctx)"
  using words_of_zero[of 8]
  by (simp add: gost_absorbed_def p_crypto_hash_gost3411_reset_def gost_absorb_def groups_short rest_def)

lemma gost_finish_ok:
  assumes "gost_absorbed msg ctx"
  shows "p_crypto_hash_gost3411_digest big (p_crypto_hash_gost3411_finish big ctx) = gost_reference msg"
proof -
  let ?left = "length msg mod 32" and ?pad = "gost_padding (length msg)"
  have ctx: "length (g_buf ctx) = 32" "take ?left (g_buf ctx) = rest 32 msg"
    "(g_hash ctx, g_sum ctx) = gost_absorb msg" "g_len ctx = words_of 8 (8 * length msg)"
    using assms by (simp_all add: gost_absorbed_def)
  have left: "unat (g_len ctx ! 0 AND 0xFF) = 8 * ?left" unfolding ctx(4) by (rule gost_low_bits)
  let ?b = "ctx\<lparr>g_buf := copy_at (g_buf ctx) ?left (replicate (32 - ?left) 0)\<rparr>"
  define c1 where "c1 = (if (32 - ?left) mod 32 \<noteq> 0 then gost_block big ?b else ctx)"
  have c1: "(g_hash c1, g_sum c1) = gost_absorb (msg @ ?pad) \<and> g_len c1 = g_len ctx"
  proof (cases "?left = 0")
    case True
    then show ?thesis using ctx(3) by (simp add: c1_def gost_padding_def)
  next
    case False
    then have n: "(32 - ?left) mod 32 = 32 - ?left" by simp
    have p: "?pad = replicate (32 - ?left) 0" using n by (simp add: gost_padding_def)
    have b: "g_buf ?b = rest 32 msg @ ?pad" using ctx(1,2) p by (simp add: copy_at_def)
    have b': "length (g_buf ?b) = 32" unfolding b by (simp add: length_rest p)
    have "32 - ?left \<noteq> 0" by (simp add: not_le)
    then have "c1 = gost_block big ?b" by (simp add: c1_def n)
    moreover have "gost_absorb (msg @ ?pad) = gost_step (gost_absorb msg) (rest 32 msg @ ?pad)"
      using groups_append1[of 32 "rest 32 msg @ ?pad" "[]"] b b' by (simp add: gost_absorb_append groups_short)
    ultimately show ?thesis using gost_block_ok[OF b', of big] b ctx(3) by simp
  qed
  have "p_crypto_hash_gost3411_finish big ctx =
      c1\<lparr>g_hash := pp_crypto_hash_gost3411_swap_bytes big
        (pp_crypto_hash_gost3411_process (pp_crypto_hash_gost3411_process (g_hash c1) (g_len c1)) (g_sum c1)) 8\<rparr>"
    by (simp add: p_crypto_hash_gost3411_finish_def Let_def left c1_def)
  moreover have "of_buf_w big (pp_crypto_hash_gost3411_swap_bytes big (pp_crypto_hash_gost3411_process h s) 8) =
      concat (map (bytes_of False) (pp_crypto_hash_gost3411_process h s))" for h s
    by (simp add: gost_swap swap_words_def of_buf_w_def comp_def le32.conv_write)
  moreover from c1 have "gost_absorb (msg @ ?pad) = (g_hash c1, g_sum c1)" "g_len c1 = words_of 8 (8 * length msg)"
    using ctx(4) by simp_all
  ultimately show ?thesis by (simp add: p_crypto_hash_gost3411_digest_def gost_reference_def)
qed

end
