(* ===== verification/PGostStandard.thy ===== *)
theory PGostStandard
  imports PHashBlock
begin

text \<open>
  The step function of GOST R 34.11-94 as RFC 5831 describes it, with the block cipher of RFC 5830, written
  from the standard and independent of the tables and the closed forms of \<open>pcryptohash-gost3411.c\<close>.  A number of
  256 bits is a list of eight 32-bit words, of sixteen 16-bit words or of 32 bytes, the least significant first.
\<close>

section \<open>The block cipher\<close>

text \<open>
  The substitution of the test parameters: row \<open>x\<close> lists the images of \<open>x\<close> under the substitutions 8 to 1, the
  last of which works on the lowest four bits.
\<close>

definition r28147_pi :: "nat list list" where
  "r28147_pi =
     [[1, 13, 4, 6, 7, 5, 14, 4],
      [15, 11, 11, 12, 13, 8, 11, 10],
      [13, 4, 10, 7, 10, 1, 4, 9],
      [0, 1, 0, 1, 1, 13, 12, 2],
      [5, 3, 7, 5, 0, 10, 6, 13],
      [7, 15, 2, 15, 8, 3, 13, 8],
      [10, 5, 1, 13, 9, 4, 15, 0],
      [4, 9, 13, 8, 15, 2, 10, 14],
      [9, 0, 3, 4, 14, 14, 2, 6],
      [2, 10, 6, 10, 4, 15, 3, 11],
      [3, 14, 8, 9, 6, 12, 8, 1],
      [14, 7, 5, 14, 12, 7, 1, 12],
      [6, 6, 9, 0, 11, 6, 0, 7],
      [11, 8, 12, 3, 2, 0, 7, 15],
      [8, 2, 15, 11, 5, 9, 5, 5],
      [12, 12, 14, 2, 3, 11, 9, 3]]"

text \<open>The number whose four-bit digits, the lowest first, are those of \<open>x\<close> after the substitution.\<close>

fun r28147_substitute :: "nat \<Rightarrow> nat \<Rightarrow> nat" where
  "r28147_substitute 0 x = 0"
| "r28147_substitute (Suc k) x = r28147_pi ! (x mod 16) ! k + 16 * r28147_substitute k (x div 16)"

fun r28147_round :: "32 word \<Rightarrow> 32 word \<times> 32 word \<Rightarrow> 32 word \<times> 32 word" where
  "r28147_round key (n1, n2) =
     (n2 XOR word_rotl 11 (of_nat (r28147_substitute 8 (unat (n1 + key)))), n1)"

text \<open>The keys in the order of the 32 rounds; the halves are not exchanged after the last one.\<close>

definition r28147_E :: "32 word list \<Rightarrow> 32 word \<times> 32 word \<Rightarrow> 32 word \<times> 32 word" where
  "r28147_E ks block = prod.swap (fold r28147_round (ks @ ks @ ks @ rev ks) block)"

section \<open>The keys\<close>

definition xor_lists :: "'w::len word list \<Rightarrow> 'w word list \<Rightarrow> 'w word list" where
  "xor_lists = map2 (XOR)"

text \<open>\<open>A (y4 || y3 || y2 || y1) = (y1 XOR y2) || y4 || y3 || y2\<close>, on words of 64 bits.\<close>

definition r3411_A :: "32 word list \<Rightarrow> 32 word list" where
  "r3411_A y = drop 2 y @ [y ! 0 XOR y ! 2, y ! 1 XOR y ! 3]"

text \<open>The permutation of bytes \<open>\<phi> (i + 1 + 4 (k - 1)) = 8 i + k\<close>, for \<open>i\<close> from 0 to 3 and \<open>k\<close> from 1 to 8.\<close>

definition r3411_P :: "32 word list \<Rightarrow> 32 word list" where
  "r3411_P ws =
     (let y = concat (map (bytes_of False) ws)
      in map (word_of False) (groups 4 (concat (map (\<lambda>k. map (\<lambda>i. y ! (8 * i + k)) [0, 1, 2, 3]) [0, 1, 2, 3, 4, 5, 6, 7]))))"

text \<open>The constant C3; C2 and C4 are zero.\<close>

definition r3411_C3 :: "32 word list" where
  "r3411_C3 =
     [0xFF00FF00, 0xFF00FF00, 0x00FF00FF, 0x00FF00FF, 0x00FFFF00, 0xFF0000FF, 0x000000FF, 0xFF00FFFF]"

definition r3411_keys :: "32 word list \<Rightarrow> 32 word list \<Rightarrow> 32 word list list" where
  "r3411_keys h m =
     (let u1 = h; v1 = m;
          u2 = r3411_A u1; v2 = r3411_A (r3411_A v1);
          u3 = xor_lists (r3411_A u2) r3411_C3; v3 = r3411_A (r3411_A v2);
          u4 = r3411_A u3; v4 = r3411_A (r3411_A v3)
      in map r3411_P [xor_lists u1 v1, xor_lists u2 v2, xor_lists u3 v3, xor_lists u4 v4])"

section \<open>The mixing\<close>

text \<open>\<open>\<psi> (y16 || ... || y1) = (y1 XOR y2 XOR y3 XOR y4 XOR y13 XOR y16) || y16 || ... || y2\<close>, on words of 16 bits.\<close>

definition r3411_psi :: "'w::len word list \<Rightarrow> 'w word list" where
  "r3411_psi y = tl y @ [y ! 0 XOR y ! 1 XOR y ! 2 XOR y ! 3 XOR y ! 12 XOR y ! 15]"

definition halves :: "32 word list \<Rightarrow> 16 word list" where
  "halves ws = concat (map (\<lambda>w. [ucast w, ucast (drop_bit 16 w)]) ws)"

fun unhalves :: "16 word list \<Rightarrow> 32 word list" where
  "unhalves (l # h # ys) = (ucast l OR push_bit 16 (ucast h)) # unhalves ys"
| "unhalves ys = []"

definition r3411_mix :: "32 word list \<Rightarrow> 32 word list \<Rightarrow> 32 word list \<Rightarrow> 32 word list" where
  "r3411_mix h m s =
     unhalves ((r3411_psi ^^ 61) (xor_lists (halves h)
       (r3411_psi (xor_lists (halves m) ((r3411_psi ^^ 12) (halves s))))))"

section \<open>The step function\<close>

definition r3411_step :: "32 word list \<Rightarrow> 32 word list \<Rightarrow> 32 word list" where
  "r3411_step h m =
     (let ks = r3411_keys h m;
          s = concat (map (\<lambda>i. case r28147_E (ks ! i) (h ! (2 * i), h ! (2 * i + 1)) of (s0, s1) \<Rightarrow> [s0, s1]) [0, 1, 2, 3])
      in r3411_mix h m s)"

end
