(* ===== verification/PGostEquiv.thy ===== *)
theory PGostEquiv
  imports PGostStream PGostStandard
begin

text \<open>
  The closed forms of \<open>pcryptohash-gost3411.c\<close> against RFC 5831: its three unrolled groups of exclusive ORs are 12,
  1 and 61 applications of the shift register, and its keys, permutation and cipher are those of the standard.
\<close>

section \<open>Powers of the shift register\<close>

text \<open>
  The exclusive OR of the elements of a list that a mask of 16 bits selects; the shift register works on the
  masks as on the elements, so its powers are computed on the masks.
\<close>

definition xsum :: "'w::len word list \<Rightarrow> 16 word \<Rightarrow> 'w word" where
  "xsum y m = foldr (\<lambda>i acc. (if bit m i then y ! i else 0) XOR acc) [0..<16] 0"

lemma xsum_xor: "xsum y (a XOR b) = xsum y a XOR xsum y b"
proof -
  have "foldr (\<lambda>i acc. (if bit (a XOR b) i then y ! i else 0) XOR acc) is 0 =
      foldr (\<lambda>i acc. (if bit a i then y ! i else 0) XOR acc) is 0 XOR foldr (\<lambda>i acc. (if bit b i then y ! i else 0) XOR acc) is 0"
    for "is"
    by (induction "is") (auto simp: bit_xor_iff xor.assoc xor.left_commute)
  then show ?thesis by (simp add: xsum_def)
qed

lemma psi_xsum: "length ms = 16 \<Longrightarrow> r3411_psi (map (xsum y) ms) = map (xsum y) (r3411_psi ms)"
  by (simp add: r3411_psi_def xsum_xor map_tl)

lemma length_psi: "length y = 16 \<Longrightarrow> length (r3411_psi y) = 16"
  by (simp add: r3411_psi_def)

lemma length_psi_power: "length ms = 16 \<Longrightarrow> length ((r3411_psi ^^ n) ms) = 16"
  by (induction n) (simp_all add: length_psi)

lemma psi_power_xsum: "length ms = 16 \<Longrightarrow> (r3411_psi ^^ n) (map (xsum y) ms) = map (xsum y) ((r3411_psi ^^ n) ms)"
  by (induction n) (simp_all add: psi_xsum length_psi_power)

definition unit_masks :: "16 word list" where
  "unit_masks = [0x1, 0x2, 0x4, 0x8, 0x10, 0x20, 0x40, 0x80, 0x100, 0x200, 0x400, 0x800, 0x1000, 0x2000, 0x4000, 0x8000]"

lemma list16:
  assumes "length y = 16"
  obtains a b c d e f g h i j k l m n p q where "y = [a, b, c, d, e, f, g, h, i, j, k, l, m, n, p, q]"
  using assms by (auto simp: numeral_eq_Suc length_Suc_conv)

lemma upt16: "[0..<16] = [0, 1, 2, 3, 4, 5, 6, 7, 8, 9, 10, 11, 12, 13, 14, 15]"
  by (simp add: upt_rec)

lemma xsum_units: "length y = 16 \<Longrightarrow> map (xsum y) unit_masks = y"
  by (erule list16) (simp add: unit_masks_def xsum_def upt16)

lemma psi_power: "length y = 16 \<Longrightarrow> (r3411_psi ^^ n) y = map (xsum y) ((r3411_psi ^^ n) unit_masks)"
  using psi_power_xsum[of unit_masks n y] xsum_units[of y] by (simp add: unit_masks_def)

lemma psi_list:
  "r3411_psi [a, b, c, d, e, f, g, h, i, j, k, l, m, n, p, q] =
     [b, c, d, e, f, g, h, i, j, k, l, m, n, p, q, a XOR b XOR c XOR d XOR m XOR q]"
  by (simp add: r3411_psi_def)

lemma psi_twelve:
  "(r3411_psi ^^ 12) unit_masks =
     [0x1000, 0x2000, 0x4000, 0x8000, 0x900F, 0xB011, 0xF02D, 0x7055, 0xE0AA, 0x515B, 0xA2B6, 0xD563, 0x3AC9, 0x7592,
      0xEB24, 0x4647]"
  by (simp add: unit_masks_def psi_list eval_nat_numeral)

lemma psi_sixty_one:
  "(r3411_psi ^^ 61) unit_masks =
     [0xEC8A, 0x491B, 0x9236, 0xB463, 0xF8C9, 0x619D, 0xC33A, 0x167B, 0x2CF6, 0x59EC, 0xB3D8, 0xF7BF, 0x7F71, 0xFEE2,
      0x6DCB, 0xDB96]"
  by (simp add: unit_masks_def psi_list eval_nat_numeral)

section \<open>Halves\<close>

definition lo :: "32 word \<Rightarrow> 16 word" where
  "lo w = ucast w"

definition hi :: "32 word \<Rightarrow> 16 word" where
  "hi w = ucast (drop_bit 16 w)"

lemma mask_halves: "(0x0000FFFF :: 32 word) = mask 16" "(0xFFFF0000 :: 32 word) = push_bit 16 (mask 16)"
  by (simp_all add: mask_eq_exp_minus_1 push_bit_eq_mult)

lemma lo_simps:
  "lo (a XOR b) = lo a XOR lo b" "lo (push_bit 16 a) = 0" "lo (drop_bit 16 a) = hi a"
  "lo (a AND 0x0000FFFF) = lo a" "lo (a AND 0xFFFF0000) = 0"
  unfolding lo_def hi_def mask_halves by (rule bit_word_eqI; auto simp: bit_simps)+

lemma hi_simps:
  "hi (a XOR b) = hi a XOR hi b" "hi (push_bit 16 a) = lo a" "hi (drop_bit 16 a) = 0"
  "hi (a AND 0x0000FFFF) = 0" "hi (a AND 0xFFFF0000) = hi a"
  unfolding lo_def hi_def mask_halves by (rule bit_word_eqI; auto simp: bit_simps dest: bit_imp_le_length)+

lemma halves_simps: "halves [] = []" "halves (w # ws) = lo w # hi w # halves ws"
  by (simp_all add: halves_def lo_def hi_def)

lemma join_halves: "ucast (lo w) OR push_bit 16 (ucast (hi w)) = w"
  unfolding lo_def hi_def
proof (rule bit_word_eqI)
  fix n assume "n < LENGTH(32)"
  then show "bit (ucast (ucast w :: 16 word) OR push_bit 16 (ucast (ucast (drop_bit 16 w) :: 16 word)) :: 32 word) n \<longleftrightarrow> bit w n"
    by (cases "n < 16") (auto simp: bit_simps)
qed

lemma unhalves_halves: "unhalves (halves ws) = ws"
  by (induction ws) (simp_all add: halves_simps join_halves)

section \<open>The three groups of exclusive ORs\<close>

lemma list8:
  assumes "length y = 8"
  obtains a b c d e f g h where "y = [a, b, c, d, e, f, g, h]"
  using assms by (auto simp: numeral_eq_Suc length_Suc_conv)

lemma w8_cases:
  obtains a b c d e f g h where "(x :: w8) = (a, b, c, d, e, f, g, h)"
  using of_w8.cases[of x] by blast

lemma length_halves: "length (halves ws) = 2 * length ws"
  by (induction ws) (simp_all add: halves_simps)

lemma length_halves_w8: "length (halves (of_w8 x)) = 16"
  by (simp add: length_halves)

lemmas lfsr_simps = halves_simps lo_simps hi_simps xor_lists_def xor.assoc xor.commute xor.left_commute

lemma lfsr_61: "halves (of_w8 (gost_lfsr_61 v)) = (r3411_psi ^^ 61) (halves (of_w8 v))"
  unfolding psi_power[OF length_halves_w8] psi_sixty_one
  by (rule w8_cases[of v]) (simp add: gost_lfsr_61_def xsum_def upt16 Let_def lfsr_simps)

lemma lfsr_12: "halves (of_w8 (gost_lfsr_12 m s)) = xor_lists (halves (of_w8 m)) ((r3411_psi ^^ 12) (halves (of_w8 s)))"
  unfolding psi_power[OF length_halves_w8] psi_twelve
  by (rule w8_cases[of m], rule w8_cases[of s]) (simp add: gost_lfsr_12_def xsum_def upt16 Let_def lfsr_simps)

lemma lfsr_1: "halves (of_w8 (gost_lfsr_1 h u)) = xor_lists (halves (of_w8 h)) (r3411_psi (halves (of_w8 u)))"
  by (rule w8_cases[of h], rule w8_cases[of u]) (simp add: gost_lfsr_1_def psi_list Let_def lfsr_simps)

lemma mix_ok: "of_w8 (gost_lfsr_61 (gost_lfsr_1 h (gost_lfsr_12 m s))) = r3411_mix (of_w8 h) (of_w8 m) (of_w8 s)"
proof -
  have "of_w8 (gost_lfsr_61 (gost_lfsr_1 h (gost_lfsr_12 m s))) =
      unhalves (halves (of_w8 (gost_lfsr_61 (gost_lfsr_1 h (gost_lfsr_12 m s)))))"
    by (rule unhalves_halves[symmetric])
  then show ?thesis unfolding lfsr_61 lfsr_1 lfsr_12 r3411_mix_def .
qed

section \<open>The permutation of the bytes\<close>

definition byte_at :: "nat \<Rightarrow> 32 word \<Rightarrow> byte" where
  "byte_at k w = ucast (drop_bit (8 * k) w)"

lemma bytes_of_word: "bytes_of False (w :: 32 word) = [byte_at 0 w, byte_at 1 w, byte_at 2 w, byte_at 3 w]"
  by (simp add: bytes_of_def bytes_le_def byte_at_def upt_rec)

lemma mask_bytes:
  "(0x000000FF :: 32 word) = mask 8" "(0x0000FF00 :: 32 word) = push_bit 8 (mask 8)"
  "(0x00FF0000 :: 32 word) = push_bit 16 (mask 8)" "(0xFF000000 :: 32 word) = push_bit 24 (mask 8)"
  by (simp_all add: mask_eq_exp_minus_1 push_bit_eq_mult)

text \<open>The terms of the macro: a byte of a word that is shifted, left in its place.\<close>

lemma keep_byte:
  "w AND mask 8 = ucast (byte_at 0 w)"
  "w AND push_bit 8 (mask 8) = push_bit 8 (ucast (byte_at 1 w))"
  "w AND push_bit 16 (mask 8) = push_bit 16 (ucast (byte_at 2 w))"
  "w AND push_bit 24 (mask 8) = push_bit 24 (ucast (byte_at 3 (w :: 32 word)))"
  unfolding byte_at_def by (rule bit_word_eqI; auto simp: bit_simps)+

lemma byte_at_shift:
  "byte_at 0 (drop_bit 8 w) = byte_at 1 w" "byte_at 1 (drop_bit 8 w) = byte_at 2 w" "byte_at 2 (drop_bit 8 w) = byte_at 3 w"
  "byte_at 0 (drop_bit 16 w) = byte_at 2 w" "byte_at 1 (drop_bit 16 w) = byte_at 3 w" "byte_at 0 (drop_bit 24 w) = byte_at 3 w"
  "byte_at 1 (push_bit 8 w) = byte_at 0 w" "byte_at 2 (push_bit 8 w) = byte_at 1 w" "byte_at 3 (push_bit 8 w) = byte_at 2 w"
  "byte_at 2 (push_bit 16 w) = byte_at 0 w" "byte_at 3 (push_bit 16 w) = byte_at 1 w" "byte_at 3 (push_bit 24 w) = byte_at 0 w"
  unfolding byte_at_def by (rule bit_word_eqI; auto simp: bit_simps)+

lemma word_of_bytes:
  "(word_of False [a, b, c, d] :: 32 word) = ucast a OR push_bit 8 (ucast b) OR push_bit 16 (ucast c) OR push_bit 24 (ucast d)"
  by (simp add: word_of_def push_bit_or or.assoc)

lemma P_ok: "of_w8 (P_GOST_3411_P x) = r3411_P (of_w8 x)"
proof -
  have g: "groups 4 (a # b # c # d # xs) = [a, b, c, d] # groups 4 xs" for a b c d :: byte and xs
    by (subst groups.simps) simp
  show ?thesis
    by (rule w8_cases[of x])
      (simp add: P_GOST_3411_P_def r3411_P_def bytes_of_word Let_def g groups_short word_of_bytes mask_bytes keep_byte byte_at_shift
        byte_at_shift[unfolded One_nat_def])
qed

section \<open>The keys\<close>

text \<open>The fourth word of each paragraph of the code, the keys before the permutation.\<close>

definition gost_key_words :: "w8 \<Rightarrow> w8 \<Rightarrow> w8 list" where
  "gost_key_words h m =
     (let (u, v, w0) = gost_key_1 (h, m); (u, v, w1) = gost_key_2 (u, v); (u, v, w2) = gost_key_3 (u, v);
          (u, v, w3) = gost_key_4 (u, v) in [w0, w1, w2, w3])"

lemmas key_simps = xor_lists_def r3411_A_def r3411_C3_def xor.assoc xor.commute xor.left_commute

text \<open>
  The code does not move the words of \<open>U\<close> and \<open>V\<close> but renames them: the standard's list is the array from some place
  on, and then its beginning.
\<close>

definition from_place :: "nat \<Rightarrow> w8 \<Rightarrow> 32 word list" where
  "from_place n x = drop n (of_w8 x) @ take n (of_w8 x)"

lemma key_1_ok:
  assumes "gost_key_1 (u, v) = (u', v', w)"
  shows "u' = u" "v' = v" "of_w8 w = xor_lists (of_w8 u) (of_w8 v)"
  using assms by (rule_tac [!] w8_cases[of u], rule_tac [!] w8_cases[of v])
    (auto simp: gost_key_1_def Let_def xor_lists_def)

lemma key_2_ok:
  assumes "gost_key_2 (u, v) = (u', v', w)"
  shows "from_place 2 u' = r3411_A (of_w8 u) \<and> from_place 4 v' = r3411_A (r3411_A (of_w8 v)) \<and>
    of_w8 w = xor_lists (from_place 2 u') (from_place 4 v')"
  using assms by (rule_tac w8_cases[of u], rule_tac w8_cases[of v])
    (auto simp: gost_key_2_def Let_def from_place_def xor_lists_def r3411_A_def)

lemma key_3_ok:
  assumes "gost_key_3 (u, v) = (u', v', w)"
  shows "from_place 4 u' = xor_lists (r3411_A (from_place 2 u)) r3411_C3 \<and> of_w8 v' = r3411_A (r3411_A (from_place 4 v)) \<and>
    of_w8 w = xor_lists (from_place 4 u') (of_w8 v')"
  using assms by (rule_tac w8_cases[of u], rule_tac w8_cases[of v])
    (auto simp: gost_key_3_def Let_def from_place_def key_simps)

lemma key_4_ok:
  assumes "gost_key_4 (u, v) = (u', v', w)"
  shows "from_place 6 u' = r3411_A (from_place 4 u) \<and> from_place 4 v' = r3411_A (r3411_A (of_w8 v)) \<and>
    of_w8 w = xor_lists (from_place 6 u') (from_place 4 v')"
  using assms by (rule_tac w8_cases[of u], rule_tac w8_cases[of v])
    (auto simp: gost_key_4_def Let_def from_place_def xor_lists_def r3411_A_def)

lemma key_words_ok:
  "map of_w8 (gost_key_words h m) =
     (let u1 = of_w8 h; v1 = of_w8 m;
          u2 = r3411_A u1; v2 = r3411_A (r3411_A v1);
          u3 = xor_lists (r3411_A u2) r3411_C3; v3 = r3411_A (r3411_A v2);
          u4 = r3411_A u3; v4 = r3411_A (r3411_A v3)
      in [xor_lists u1 v1, xor_lists u2 v2, xor_lists u3 v3, xor_lists u4 v4])"
proof -
  obtain u1 v1 w1 where k1: "gost_key_1 (h, m) = (u1, v1, w1)" by (metis prod_cases3)
  obtain u2 v2 w2 where k2: "gost_key_2 (u1, v1) = (u2, v2, w2)" by (metis prod_cases3)
  obtain u3 v3 w3 where k3: "gost_key_3 (u2, v2) = (u3, v3, w3)" by (metis prod_cases3)
  obtain u4 v4 w4 where k4: "gost_key_4 (u3, v3) = (u4, v4, w4)" by (metis prod_cases3)
  have "gost_key_words h m = [w1, w2, w3, w4]" by (simp add: gost_key_words_def k1 k2 k3 k4)
  then show ?thesis using key_1_ok[OF k1] key_2_ok[OF k2] key_3_ok[OF k3] key_4_ok[OF k4] by (simp add: Let_def)
qed

lemma keys_ok: "map (\<lambda>w. of_w8 (P_GOST_3411_P w)) (gost_key_words h m) = r3411_keys (of_w8 h) (of_w8 m)"
proof -
  have "map (\<lambda>w. of_w8 (P_GOST_3411_P w)) (gost_key_words h m) = map r3411_P (map of_w8 (gost_key_words h m))"
    by (simp add: P_ok comp_def)
  then show ?thesis unfolding key_words_ok r3411_keys_def Let_def .
qed

section \<open>The cipher\<close>

lemma K_block_pi: "i < 8 \<Longrightarrow> x < 16 \<Longrightarrow> pp_crypto_hash_gost3411_K_block ! i ! x = of_nat (r28147_pi ! x ! (7 - i))"
proof -
  have "\<forall>i \<in> set [0, 1, 2, 3, 4, 5, 6, 7]. \<forall>x \<in> set [0, 1, 2, 3, 4, 5, 6, 7, 8, 9, 10, 11, 12, 13, 14, 15].
      pp_crypto_hash_gost3411_K_block ! i ! x = of_nat (r28147_pi ! x ! (7 - i))"
    by (simp add: pp_crypto_hash_gost3411_K_block_def r28147_pi_def)
  moreover assume "i < 8" "x < 16"
  then have "i \<in> set [0, 1, 2, 3, 4, 5, 6, 7]" "x \<in> set [0, 1, 2, 3, 4, 5, 6, 7, 8, 9, 10, 11, 12, 13, 14, 15]"
    by (simp; arith)+
  ultimately show ?thesis by blast
qed

lemma pi_bound: "i < 8 \<Longrightarrow> x < 16 \<Longrightarrow> r28147_pi ! x ! i < 16"
proof -
  assume i: "i < 8" and x: "x < 16"
  have "\<forall>r \<in> set r28147_pi. length r = 8 \<and> (\<forall>v \<in> set r. v < 16)" "length r28147_pi = 16" by (simp_all add: r28147_pi_def)
  then show ?thesis using i x by (metis nth_mem)
qed

lemma nibble: "unat (drop_bit (4 * i) w AND 0xF) = unat (w :: 32 word) div 16 ^ i mod 16"
proof -
  have "drop_bit (4 * i) w AND 0xF = take_bit 4 (drop_bit (4 * i) w)" by (simp add: take_bit_eq_mask mask_eq_exp_minus_1)
  moreover have "take_bit 32 (unat w) = unat w" using unsigned_less[of w] by (intro take_bit_nat_eq_self) simp
  ultimately have "unat (drop_bit (4 * i) w AND 0xF) = take_bit 4 (drop_bit (4 * i) (unat w))"
    by (simp only: unsigned_take_bit_eq unsigned_drop_bit_eq) simp
  then show ?thesis by (simp add: take_bit_eq_mod drop_bit_eq_div power_mult)
qed

lemma substitute_code:
  assumes "i < 8"
  shows "gost_substitute w i = push_bit (4 * i) (of_nat (r28147_pi ! (unat w div 16 ^ i mod 16) ! (7 - i)))"
  unfolding gost_substitute_def nibble using K_block_pi[OF assms] by simp

lemma or_nibble:
  assumes "x < 16"
  shows "(of_nat (x + 16 * y) :: 32 word) = of_nat x OR push_bit 4 (of_nat y)"
proof -
  have "(of_nat x :: 32 word) = take_bit 4 (of_nat x)"
    by (rule word_unat_eq_iff[THEN iffD2]) (use assms in \<open>simp add: unsigned_take_bit_eq unsigned_of_nat take_bit_nat_eq_self\<close>)
  then have "(of_nat x :: 32 word) AND push_bit 4 (of_nat y) = take_bit 4 (of_nat x) AND push_bit 4 (of_nat y)" by simp
  also have "\<dots> = 0" by (rule bit_word_eqI) (auto simp: bit_simps)
  finally have "(of_nat x :: 32 word) + push_bit 4 (of_nat y) = of_nat x OR push_bit 4 (of_nat y)"
    by (rule disjunctive_add_eq_or)
  then show ?thesis by (simp add: push_bit_eq_mult mult.commute)
qed

lemma substitute_step:
  "k < 8 \<Longrightarrow> (of_nat (r28147_substitute (Suc k) x) :: 32 word) =
     of_nat (r28147_pi ! (x mod 16) ! k) OR push_bit 4 (of_nat (r28147_substitute k (x div 16)))"
  unfolding r28147_substitute.simps by (rule or_nibble) (simp add: pi_bound)

lemma substitute_steps:
  "(of_nat (r28147_substitute 8 x) :: 32 word) =
     of_nat (r28147_pi ! (x mod 16) ! 7) OR push_bit 4 (of_nat (r28147_substitute 7 (x div 16)))"
  "(of_nat (r28147_substitute 7 x) :: 32 word) =
     of_nat (r28147_pi ! (x mod 16) ! 6) OR push_bit 4 (of_nat (r28147_substitute 6 (x div 16)))"
  "(of_nat (r28147_substitute 6 x) :: 32 word) =
     of_nat (r28147_pi ! (x mod 16) ! 5) OR push_bit 4 (of_nat (r28147_substitute 5 (x div 16)))"
  "(of_nat (r28147_substitute 5 x) :: 32 word) =
     of_nat (r28147_pi ! (x mod 16) ! 4) OR push_bit 4 (of_nat (r28147_substitute 4 (x div 16)))"
  "(of_nat (r28147_substitute 4 x) :: 32 word) =
     of_nat (r28147_pi ! (x mod 16) ! 3) OR push_bit 4 (of_nat (r28147_substitute 3 (x div 16)))"
  "(of_nat (r28147_substitute 3 x) :: 32 word) =
     of_nat (r28147_pi ! (x mod 16) ! 2) OR push_bit 4 (of_nat (r28147_substitute 2 (x div 16)))"
  "(of_nat (r28147_substitute 2 x) :: 32 word) =
     of_nat (r28147_pi ! (x mod 16) ! 1) OR push_bit 4 (of_nat (r28147_substitute 1 (x div 16)))"
  "(of_nat (r28147_substitute 1 x) :: 32 word) =
     of_nat (r28147_pi ! (x mod 16) ! 0) OR push_bit 4 (of_nat (r28147_substitute 0 (x div 16)))"
proof -
  have e: "r28147_substitute 8 = r28147_substitute (Suc 7)"
    "r28147_substitute 7 = r28147_substitute (Suc 6)"
    "r28147_substitute 6 = r28147_substitute (Suc 5)"
    "r28147_substitute 5 = r28147_substitute (Suc 4)"
    "r28147_substitute 4 = r28147_substitute (Suc 3)"
    "r28147_substitute 3 = r28147_substitute (Suc 2)"
    "r28147_substitute 2 = r28147_substitute (Suc 1)"
    "r28147_substitute 1 = r28147_substitute (Suc 0)"
    by (rule arg_cong[where f = r28147_substitute], simp)+
  show "(of_nat (r28147_substitute 8 x) :: 32 word) =
      of_nat (r28147_pi ! (x mod 16) ! 7) OR push_bit 4 (of_nat (r28147_substitute 7 (x div 16)))"
    unfolding e(1) by (rule substitute_step) simp
  show "(of_nat (r28147_substitute 7 x) :: 32 word) =
      of_nat (r28147_pi ! (x mod 16) ! 6) OR push_bit 4 (of_nat (r28147_substitute 6 (x div 16)))"
    unfolding e(2) by (rule substitute_step) simp
  show "(of_nat (r28147_substitute 6 x) :: 32 word) =
      of_nat (r28147_pi ! (x mod 16) ! 5) OR push_bit 4 (of_nat (r28147_substitute 5 (x div 16)))"
    unfolding e(3) by (rule substitute_step) simp
  show "(of_nat (r28147_substitute 5 x) :: 32 word) =
      of_nat (r28147_pi ! (x mod 16) ! 4) OR push_bit 4 (of_nat (r28147_substitute 4 (x div 16)))"
    unfolding e(4) by (rule substitute_step) simp
  show "(of_nat (r28147_substitute 4 x) :: 32 word) =
      of_nat (r28147_pi ! (x mod 16) ! 3) OR push_bit 4 (of_nat (r28147_substitute 3 (x div 16)))"
    unfolding e(5) by (rule substitute_step) simp
  show "(of_nat (r28147_substitute 3 x) :: 32 word) =
      of_nat (r28147_pi ! (x mod 16) ! 2) OR push_bit 4 (of_nat (r28147_substitute 2 (x div 16)))"
    unfolding e(6) by (rule substitute_step) simp
  show "(of_nat (r28147_substitute 2 x) :: 32 word) =
      of_nat (r28147_pi ! (x mod 16) ! 1) OR push_bit 4 (of_nat (r28147_substitute 1 (x div 16)))"
    unfolding e(7) by (rule substitute_step) simp
  show "(of_nat (r28147_substitute 1 x) :: 32 word) =
      of_nat (r28147_pi ! (x mod 16) ! 0) OR push_bit 4 (of_nat (r28147_substitute 0 (x div 16)))"
    unfolding e(8) by (rule substitute_step) simp
qed

lemma code_nibbles:
  "gost_substitute w 0 = of_nat (r28147_pi ! (unat w mod 16) ! 7)"
  "gost_substitute w 1 = push_bit 4 (of_nat (r28147_pi ! (unat w div 16 mod 16) ! 6))"
  "gost_substitute w 2 = push_bit 8 (of_nat (r28147_pi ! (unat w div 256 mod 16) ! 5))"
  "gost_substitute w 3 = push_bit 12 (of_nat (r28147_pi ! (unat w div 4096 mod 16) ! 4))"
  "gost_substitute w 4 = push_bit 16 (of_nat (r28147_pi ! (unat w div 65536 mod 16) ! 3))"
  "gost_substitute w 5 = push_bit 20 (of_nat (r28147_pi ! (unat w div 1048576 mod 16) ! 2))"
  "gost_substitute w 6 = push_bit 24 (of_nat (r28147_pi ! (unat w div 16777216 mod 16) ! 1))"
  "gost_substitute w 7 = push_bit 28 (of_nat (r28147_pi ! (unat w div 268435456 mod 16) ! 0))"
  using substitute_code[of 0 w] substitute_code[of 1 w] substitute_code[of 2 w] substitute_code[of 3 w] substitute_code[of 4 w] substitute_code[of 5 w] substitute_code[of 6 w] substitute_code[of 7 w]
  by simp_all

lemma substitute_ok:
  "gost_substitute w 0 OR gost_substitute w 1 OR gost_substitute w 2 OR gost_substitute w 3 OR
     gost_substitute w 4 OR gost_substitute w 5 OR gost_substitute w 6 OR gost_substitute w 7 =
   of_nat (r28147_substitute 8 (unat w))"
  unfolding code_nibbles substitute_steps
  by (simp add: push_bit_or push_bit_push_bit div_mult2_eq[symmetric] or.assoc)

lemma round_ok: "P_GOST_28147_ROUND key b = r28147_round key b"
proof -
  obtain n0 n1 where b: "b = (n0, n1)" by fastforce
  have "push_bit 11 x OR drop_bit 21 x = word_rotl 11 (x :: 32 word)" for x using rotl_macro[of 11 x] by simp
  then show ?thesis by (simp only: b P_GOST_28147_ROUND.simps Let_def substitute_ok r28147_round.simps xor.commute)
qed

lemma cipher_ok: "P_GOST_28147_E block key = r28147_E (of_w8 key) block"
proof -
  have r: "P_GOST_28147_ROUND = r28147_round" by (simp add: fun_eq_iff round_ok del: r28147_round.simps)
  show ?thesis
    by (rule w8_cases[of key])
      (simp add: r P_GOST_28147_E_def r28147_E_def Let_def split_beta prod.swap_def del: r28147_round.simps)
qed

section \<open>The step function\<close>

lemma of_to_w8: "length x = 8 \<Longrightarrow> of_w8 (to_w8 x) = x"
  by (erule list8) (simp add: to_w8_def)

theorem gost_process_standard:
  assumes "length h = 8" "length m = 8"
  shows "pp_crypto_hash_gost3411_process h m = r3411_step h m"
proof -
  let ?h = "to_w8 h" and ?m = "to_w8 m"
  note of_to = of_to_w8[OF assms(1)] of_to_w8[OF assms(2)]
  obtain w0 w1 w2 w3 where w: "gost_key_words ?h ?m = [w0, w1, w2, w3]"
    by (simp add: gost_key_words_def split_beta Let_def)
  let ?E = "\<lambda>w i. P_GOST_28147_E (h ! i, h ! (i + 1)) (P_GOST_3411_P w)"
  let ?s = "(fst (?E w0 0), snd (?E w0 0), fst (?E w1 2), snd (?E w1 2), fst (?E w2 4), snd (?E w2 4), fst (?E w3 6), snd (?E w3 6))"
  have ks: "r3411_keys h m = map (\<lambda>w. of_w8 (P_GOST_3411_P w)) [w0, w1, w2, w3]"
    using keys_ok[of ?h ?m] by (simp only: w of_to)
  have "pp_crypto_hash_gost3411_process h m = of_w8 (gost_lfsr_61 (gost_lfsr_1 ?h (gost_lfsr_12 ?m ?s)))"
    using w by (auto simp: pp_crypto_hash_gost3411_process_def gost_key_words_def Let_def split_beta)
  also have "\<dots> = r3411_mix h m (of_w8 ?s)" unfolding mix_ok of_to ..
  also have "of_w8 ?s = concat (map (\<lambda>i. case r28147_E (r3411_keys h m ! i) (h ! (2 * i), h ! (2 * i + 1)) of (s0, s1) \<Rightarrow> [s0, s1]) [0, 1, 2, 3])"
    by (simp add: ks cipher_ok split_beta del: prod.collapse)
  finally show ?thesis unfolding r3411_step_def Let_def .
qed

section \<open>The digest\<close>

text \<open>
  The blocks of the zero-padded message, then the length in bits, then the sum of the blocks modulo \<open>2 ^ 256\<close>.
\<close>

definition gost_standard_step :: "32 word list \<times> nat \<Rightarrow> byte list \<Rightarrow> 32 word list \<times> nat" where
  "gost_standard_step st block =
     (r3411_step (fst st) (gost_words block), (snd st + words_val (gost_words block)) mod 2 ^ 256)"

definition gost_standard :: "byte list \<Rightarrow> byte list" where
  "gost_standard msg =
     (let (h, s) = foldl gost_standard_step (replicate 8 0, 0) (groups 32 (msg @ gost_padding (length msg)));
          h1 = r3411_step h (words_of 8 (8 * length msg));
          h2 = r3411_step h1 (words_of 8 s)
      in concat (map (bytes_of False) h2))"

text \<open>
  No addition of a block to the sum has two words 0xFFFFFFFF in the same position, the case whose carry the code
  cannot see.
\<close>

fun carries_seen :: "nat \<Rightarrow> byte list list \<Rightarrow> bool" where
  "carries_seen s [] = True"
| "carries_seen s (b # bs) =
     (list_all (\<lambda>(x, y). \<not> (x = - 1 \<and> y = - 1)) (zip (words_of 8 s) (gost_words b)) \<and>
      carries_seen ((s + words_val (gost_words b)) mod 2 ^ 256) bs)"

definition gost_carries_seen :: "byte list \<Rightarrow> bool" where
  "gost_carries_seen msg = carries_seen 0 (groups 32 (msg @ gost_padding (length msg)))"

lemma length_gost_words: "length b = 32 \<Longrightarrow> length (gost_words b) = 8"
  by (simp add: gost_words_def length_groups)

lemma words_of_val: "length ws = n \<Longrightarrow> words_of n (words_val ws) = ws"
  using words_val_bound[of ws] by (intro words_val_inj) (simp_all add: words_val_of)

lemma gost_steps_standard:
  assumes "carries_seen (words_val s) bs" "\<forall>b \<in> set bs. length b = 32" "length s = 8" "length h = 8"
  shows "foldl gost_standard_step (h, words_val s) bs = (fst (foldl gost_step (h, s) bs), words_val (snd (foldl gost_step (h, s) bs))) \<and>
    length (snd (foldl gost_step (h, s) bs)) = 8 \<and> length (fst (foldl gost_step (h, s) bs)) = 8"
  using assms
proof (induction bs arbitrary: h s)
  case (Cons b bs)
  let ?w = "gost_words b" and ?s = "pp_crypto_hash_gost3411_sum_256 s (gost_words b)"
  have len: "length ?w = 8" using Cons.prems by (simp add: length_gost_words)
  have "\<forall>(x, y) \<in> set (zip s ?w). \<not> (x = - 1 \<and> y = - 1)"
    using Cons.prems by (simp add: list_all_iff words_of_val)
  note v = sum_256_val[OF Cons.prems(3) len this]
  have "gost_standard_step (h, words_val s) b = (pp_crypto_hash_gost3411_process h ?w, words_val ?s)"
    unfolding gost_standard_step_def v(1) by (simp add: gost_process_standard len Cons.prems(4))
  then show ?case using Cons.IH[of ?s "pp_crypto_hash_gost3411_process h ?w"] Cons.prems v by simp
qed simp

lemma gost_reference_standard:
  assumes "gost_carries_seen msg"
  shows "gost_reference msg = gost_standard msg"
proof -
  let ?bs = "groups 32 (msg @ gost_padding (length msg))"
  obtain h s where hs: "foldl gost_step (replicate 8 0, replicate 8 0) ?bs = (h, s)" by fastforce
  have z: "words_val (replicate k 0) = 0" for k by (induction k) simp_all
  have "carries_seen (words_val (replicate 8 0)) ?bs" using assms by (simp add: gost_carries_seen_def z)
  from gost_steps_standard[OF this, of "replicate 8 0"] hs in_groups
  have std: "foldl gost_standard_step (replicate 8 0, 0) ?bs = (h, words_val s)" and l: "length s = 8" "length h = 8"
    by (auto simp: z)
  show ?thesis
    unfolding gost_reference_def gost_standard_def gost_absorb_def hs std
    by (simp only: Let_def prod.case words_of_val[OF l(1)] gost_process_standard[OF l(2) length_words_of]
        gost_process_standard[OF _ l(1)] length_gost_process flip: gost_process_standard[OF l(2) length_words_of])
qed

text \<open>A message of at most one block has nothing to carry.\<close>

lemma gost_carries_short: "length msg \<le> 32 \<Longrightarrow> gost_carries_seen msg"
proof -
  assume len: "length msg \<le> 32"
  let ?m = "msg @ gost_padding (length msg)"
  have "groups 32 ?m = [] \<or> groups 32 ?m = [?m]"
  proof (cases "msg = []")
    case False
    then have "length ?m = 32" using len by (cases "length msg = 32") (simp_all add: gost_padding_def)
    then show ?thesis using groups_append1[of 32 ?m "[]"] by (simp add: groups_short)
  qed (simp add: gost_padding_def groups_short)
  moreover have "carries_seen 0 [b]" for b
    by (auto simp: words_of_zero list_all_iff simp del: replicate.simps dest!: set_zip_leftD)
  ultimately show ?thesis unfolding gost_carries_seen_def by (metis carries_seen.simps(1))
qed

end
