(* ===== verification/PCryptoHash.thy ===== *)
theory PCryptoHash
  imports PMd5 PSha1 PSha256 PSha512 PGostEquiv
begin

text \<open>
  The front end of the hash modules (\<open>pcryptohash.c\<close>): an object with a context and the functions of the
  chosen algorithm.  The object is polymorphic in the type of its context; \<open>any_hash\<close> is the pointer
  that \<open>p_crypto_hash_new\<close> returns.  \<open>big\<close> is the byte order of the host.
\<close>

section \<open>The object and its operations\<close>

datatype PCryptoHashType =
    P_CRYPTO_HASH_TYPE_MD5 | P_CRYPTO_HASH_TYPE_SHA1 | P_CRYPTO_HASH_TYPE_SHA2_224 | P_CRYPTO_HASH_TYPE_SHA2_256
  | P_CRYPTO_HASH_TYPE_SHA2_384 | P_CRYPTO_HASH_TYPE_SHA2_512 | P_CRYPTO_HASH_TYPE_GOST

fun hash_type_of_int :: "int \<Rightarrow> PCryptoHashType option" where
  "hash_type_of_int t =
     (if t = 0 then Some P_CRYPTO_HASH_TYPE_MD5
      else if t = 1 then Some P_CRYPTO_HASH_TYPE_SHA1
      else if t = 2 then Some P_CRYPTO_HASH_TYPE_SHA2_224
      else if t = 3 then Some P_CRYPTO_HASH_TYPE_SHA2_256
      else if t = 4 then Some P_CRYPTO_HASH_TYPE_SHA2_384
      else if t = 5 then Some P_CRYPTO_HASH_TYPE_SHA2_512
      else if t = 6 then Some P_CRYPTO_HASH_TYPE_GOST
      else None)"

record 'c PCryptoHash =
  hash_type :: PCryptoHashType
  ctx :: 'c
  hash_len :: nat
  closed :: bool
  reseted :: bool
  upd :: "'c \<Rightarrow> byte list \<Rightarrow> 'c"
  fin :: "'c \<Rightarrow> 'c"
  dig :: "'c \<Rightarrow> byte list option"
  rst :: "'c \<Rightarrow> 'c"

datatype any_hash =
    MD5_hash "PHashMD5 PCryptoHash"
  | SHA1_hash "PHashSHA1 PCryptoHash"
  | SHA256_hash "PHashSHA2_256 PCryptoHash"
  | SHA512_hash "PHashSHA2_512 PCryptoHash"
  | GOST_hash "PHashGOST3411 PCryptoHash"

definition pp_crypto_hash_hex_str :: string where
  "pp_crypto_hash_hex_str = ''0123456789abcdef''"

definition pp_crypto_hash_digest_to_hex :: "byte list \<Rightarrow> nat \<Rightarrow> string" where
  "pp_crypto_hash_digest_to_hex digest len =
     concat (map (\<lambda>i. [pp_crypto_hash_hex_str ! unat (drop_bit 4 (digest ! i) AND 0x0F),
                       pp_crypto_hash_hex_str ! unat (digest ! i AND 0x0F)]) [0..<len])"

text \<open>
  \<open>P_HASH_FUNCS\<close> and the fields set after the \<open>switch\<close>; \<open>context\<close> is what \<open>create\<close> returned.
\<close>

definition P_HASH_FUNCS ::
  "PCryptoHashType \<Rightarrow> nat \<Rightarrow> ('c \<Rightarrow> byte list \<Rightarrow> 'c) \<Rightarrow> ('c \<Rightarrow> 'c) \<Rightarrow> ('c \<Rightarrow> byte list) \<Rightarrow> ('c \<Rightarrow> 'c) \<Rightarrow>
   'c option \<Rightarrow> 'c PCryptoHash option" where
  "P_HASH_FUNCS type len update finish digest reset context =
     map_option (\<lambda>c. \<lparr>hash_type = type, ctx = c, hash_len = len, closed = False, reseted = True,
       upd = update, fin = finish, dig = (\<lambda>c. Some (digest c)), rst = reset\<rparr>) context"

text \<open>\<open>mem\<close> and \<open>mem_ctx\<close> say whether the allocations of the object and of the context succeed.\<close>

definition p_crypto_hash_new :: "bool \<Rightarrow> bool \<Rightarrow> bool \<Rightarrow> int \<Rightarrow> any_hash option" where
  "p_crypto_hash_new big mem mem_ctx type =
     (case hash_type_of_int type of
        None \<Rightarrow> None
      | Some t \<Rightarrow>
          if \<not> mem then None
          else (case t of
              P_CRYPTO_HASH_TYPE_MD5 \<Rightarrow>
                map_option MD5_hash (P_HASH_FUNCS t 16 (p_crypto_hash_md5_update big) (p_crypto_hash_md5_finish big)
                  (p_crypto_hash_md5_digest big) p_crypto_hash_md5_reset (p_crypto_hash_md5_new mem_ctx))
            | P_CRYPTO_HASH_TYPE_SHA1 \<Rightarrow>
                map_option SHA1_hash (P_HASH_FUNCS t 20 (p_crypto_hash_sha1_update big) (p_crypto_hash_sha1_finish big)
                  (p_crypto_hash_sha1_digest big) p_crypto_hash_sha1_reset (p_crypto_hash_sha1_new mem_ctx))
            | P_CRYPTO_HASH_TYPE_SHA2_224 \<Rightarrow>
                map_option SHA256_hash (P_HASH_FUNCS t 28 (p_crypto_hash_sha2_256_update big)
                  (p_crypto_hash_sha2_256_finish big) (p_crypto_hash_sha2_256_digest big)
                  p_crypto_hash_sha2_256_reset (p_crypto_hash_sha2_224_new mem_ctx))
            | P_CRYPTO_HASH_TYPE_SHA2_256 \<Rightarrow>
                map_option SHA256_hash (P_HASH_FUNCS t 32 (p_crypto_hash_sha2_256_update big)
                  (p_crypto_hash_sha2_256_finish big) (p_crypto_hash_sha2_256_digest big)
                  p_crypto_hash_sha2_256_reset (p_crypto_hash_sha2_256_new mem_ctx))
            | P_CRYPTO_HASH_TYPE_SHA2_384 \<Rightarrow>
                map_option SHA512_hash (P_HASH_FUNCS t 48 (p_crypto_hash_sha2_512_update big)
                  (p_crypto_hash_sha2_512_finish big) (p_crypto_hash_sha2_512_digest big)
                  p_crypto_hash_sha2_512_reset (p_crypto_hash_sha2_384_new mem_ctx))
            | P_CRYPTO_HASH_TYPE_SHA2_512 \<Rightarrow>
                map_option SHA512_hash (P_HASH_FUNCS t 64 (p_crypto_hash_sha2_512_update big)
                  (p_crypto_hash_sha2_512_finish big) (p_crypto_hash_sha2_512_digest big)
                  p_crypto_hash_sha2_512_reset (p_crypto_hash_sha2_512_new mem_ctx))
            | P_CRYPTO_HASH_TYPE_GOST \<Rightarrow>
                map_option GOST_hash (P_HASH_FUNCS t 32 (p_crypto_hash_gost3411_update big)
                  (p_crypto_hash_gost3411_finish big) (p_crypto_hash_gost3411_digest big)
                  p_crypto_hash_gost3411_reset (p_crypto_hash_gost3411_new mem_ctx))))"

text \<open>The pointers \<open>hash\<close> (\<open>obj\<close> here), \<open>data\<close>, \<open>buf\<close> (\<open>out\<close>) and \<open>len\<close> may be NULL.  \<open>len\<close> bytes are readable at \<open>data\<close>.\<close>

definition p_crypto_hash_update :: "'c PCryptoHash option \<Rightarrow> byte list option \<Rightarrow> 'c PCryptoHash option" where
  "p_crypto_hash_update obj data =
     (case (obj, data) of
        (Some h, Some bytes) \<Rightarrow>
          if length bytes = 0 then Some h
          else if closed h then Some h
          else Some (h\<lparr>ctx := upd h (ctx h) bytes, reseted := False\<rparr>)
      | _ \<Rightarrow> obj)"

definition p_crypto_hash_reset :: "'c PCryptoHash option \<Rightarrow> 'c PCryptoHash option" where
  "p_crypto_hash_reset obj =
     (case obj of None \<Rightarrow> None | Some h \<Rightarrow> Some (h\<lparr>ctx := rst h (ctx h), closed := False, reseted := True\<rparr>))"

text \<open>\<open>if (!hash->closed) { hash->finish (hash->context); hash->closed = TRUE; }\<close>\<close>

definition hash_close :: "'c PCryptoHash \<Rightarrow> 'c PCryptoHash" where
  "hash_close h = (if \<not> closed h then h\<lparr>ctx := fin h (ctx h), closed := True\<rparr> else h)"

definition p_crypto_hash_get_string :: "bool \<Rightarrow> 'c PCryptoHash option \<Rightarrow> 'c PCryptoHash option \<times> string option" where
  "p_crypto_hash_get_string mem obj =
     (case obj of
        None \<Rightarrow> (None, None)
      | Some h \<Rightarrow>
          if reseted h then (Some h, None)
          else (let h = hash_close h in
            case dig h (ctx h) of
              None \<Rightarrow> (Some h, None)
            | Some digest \<Rightarrow>
                if \<not> mem then (Some h, None)
                else (Some h, Some (pp_crypto_hash_digest_to_hex digest (hash_len h)))))"

text \<open>The result is the object, the bytes at \<open>buf\<close> and the number at \<open>len\<close>.\<close>

definition p_crypto_hash_get_digest ::
  "'c PCryptoHash option \<Rightarrow> byte list option \<Rightarrow> nat option \<Rightarrow> 'c PCryptoHash option \<times> byte list option \<times> nat option" where
  "p_crypto_hash_get_digest obj out len =
     (case len of
        None \<Rightarrow> (obj, out, None)
      | Some l \<Rightarrow>
          (case (obj, out) of
             (Some h, Some b) \<Rightarrow>
               if reseted h then (obj, out, Some 0)
               else if hash_len h > l then (obj, out, Some 0)
               else (let h = hash_close h in
                 case dig h (ctx h) of
                   None \<Rightarrow> (Some h, out, Some 0)
                 | Some digest \<Rightarrow> (Some h, Some (copy_at b 0 (take (hash_len h) digest)), Some (hash_len h)))
           | _ \<Rightarrow> (obj, out, Some 0)))"

definition p_crypto_hash_get_length :: "'c PCryptoHash option \<Rightarrow> nat" where
  "p_crypto_hash_get_length obj = (case obj of None \<Rightarrow> 0 | Some h \<Rightarrow> hash_len h)"

text \<open>\<open>None\<close> is the value -1.\<close>

definition p_crypto_hash_get_type :: "'c PCryptoHash option \<Rightarrow> PCryptoHashType option" where
  "p_crypto_hash_get_type obj = (case obj of None \<Rightarrow> None | Some h \<Rightarrow> Some (hash_type h))"

section \<open>Programs\<close>

datatype hash_op =
    Update "byte list option"
  | Reset
  | GetString bool
  | GetDigest "byte list option" "nat option"
  | GetLength
  | GetType

datatype hash_out =
    Nothing
  | String "string option"
  | Digest "byte list option" "nat option"
  | Length nat
  | Type "PCryptoHashType option"

fun hash_step :: "'c PCryptoHash option \<Rightarrow> hash_op \<Rightarrow> 'c PCryptoHash option \<times> hash_out" where
  "hash_step h (Update d) = (p_crypto_hash_update h d, Nothing)"
| "hash_step h Reset = (p_crypto_hash_reset h, Nothing)"
| "hash_step h (GetString mem) = (case p_crypto_hash_get_string mem h of (h', s) \<Rightarrow> (h', String s))"
| "hash_step h (GetDigest b l) = (case p_crypto_hash_get_digest h b l of (h', b', l') \<Rightarrow> (h', Digest b' l'))"
| "hash_step h GetLength = (h, Length (p_crypto_hash_get_length h))"
| "hash_step h GetType = (h, Type (p_crypto_hash_get_type h))"

fun hash_run :: "'c PCryptoHash option \<Rightarrow> hash_op list \<Rightarrow> hash_out list" where
  "hash_run h [] = []"
| "hash_run h (p # ps) = (case hash_step h p of (h', r) \<Rightarrow> r # hash_run h' ps)"

fun any_run :: "any_hash option \<Rightarrow> hash_op list \<Rightarrow> hash_out list" where
  "any_run None ps = hash_run (None :: PHashMD5 PCryptoHash option) ps"
| "any_run (Some (MD5_hash h)) ps = hash_run (Some h) ps"
| "any_run (Some (SHA1_hash h)) ps = hash_run (Some h) ps"
| "any_run (Some (SHA256_hash h)) ps = hash_run (Some h) ps"
| "any_run (Some (SHA512_hash h)) ps = hash_run (Some h) ps"
| "any_run (Some (GOST_hash h)) ps = hash_run (Some h) ps"

section \<open>The contract\<close>

text \<open>
  The abstract object is the message so far and whether it was finished.  \<open>D\<close> is the algorithm as a
  function on messages.  Nothing can be read before the first byte, and after a digest was read, data
  is ignored until the next reset.
\<close>

fun hex_digit :: "byte \<Rightarrow> char" where
  "hex_digit b = ''0123456789abcdef'' ! unat b"

definition hex_of :: "byte list \<Rightarrow> string" where
  "hex_of bs = concat (map (\<lambda>b. [hex_digit (drop_bit 4 b), hex_digit (b AND 0xF)]) bs)"

fun spec_step ::
  "(byte list \<Rightarrow> byte list) \<Rightarrow> nat \<Rightarrow> PCryptoHashType \<Rightarrow> byte list \<times> bool \<Rightarrow> hash_op \<Rightarrow> (byte list \<times> bool) \<times> hash_out" where
  "spec_step D n t (msg, finished) (Update d) =
     ((case d of Some bytes \<Rightarrow> if finished then msg else msg @ bytes | None \<Rightarrow> msg, finished), Nothing)"
| "spec_step D n t (msg, finished) Reset = (([], False), Nothing)"
| "spec_step D n t (msg, finished) (GetString mem) =
     (if msg = [] then ((msg, finished), String None)
      else ((msg, True), String (if mem then Some (hex_of (D msg)) else None)))"
| "spec_step D n t (msg, finished) (GetDigest out len) =
     (case (out, len) of
        (Some b, Some l) \<Rightarrow>
          if msg = [] \<or> l < n then ((msg, finished), Digest out (Some 0))
          else ((msg, True), Digest (Some (D msg @ drop n b)) (Some n))
      | _ \<Rightarrow> ((msg, finished), Digest out (map_option (\<lambda>l. 0) len)))"
| "spec_step D n t st GetLength = (st, Length n)"
| "spec_step D n t st GetType = (st, Type (Some t))"

fun spec_run ::
  "(byte list \<Rightarrow> byte list) \<Rightarrow> nat \<Rightarrow> PCryptoHashType \<Rightarrow> byte list \<times> bool \<Rightarrow> hash_op list \<Rightarrow> hash_out list" where
  "spec_run D n t st [] = []"
| "spec_run D n t st (p # ps) = (case spec_step D n t st p of (st', r) \<Rightarrow> r # spec_run D n t st' ps)"

text \<open>The chunks of a program are shorter than \<open>lim\<close> bytes.\<close>

fun chunk_below :: "nat \<Rightarrow> hash_op \<Rightarrow> bool" where
  "chunk_below lim (Update (Some bytes)) = (length bytes < lim)"
| "chunk_below lim p = True"

section \<open>Hexadecimal\<close>

lemma high_nibble: "drop_bit 4 (b :: byte) AND 0xF = drop_bit 4 b"
proof -
  have "(0xF :: byte) = mask 4" by (simp add: mask_eq_exp_minus_1)
  then have "drop_bit 4 b AND 0xF = take_bit 4 (drop_bit 4 b)" by (simp only: take_bit_eq_mask)
  also have "\<dots> = drop_bit 4 b" by (rule bit_word_eqI) (auto simp: bit_simps dest: bit_imp_le_length)
  finally show ?thesis .
qed

lemma digest_to_hex: "n \<le> length digest \<Longrightarrow> pp_crypto_hash_digest_to_hex digest n = hex_of (take n digest)"
proof -
  assume "n \<le> length digest"
  then have "take n digest = map (\<lambda>i. digest ! i) [0..<n]" by (intro nth_equalityI) simp_all
  then show ?thesis
    by (simp add: pp_crypto_hash_digest_to_hex_def hex_of_def pp_crypto_hash_hex_str_def comp_def high_nibble)
qed

section \<open>The interface to the algorithms\<close>

text \<open>
  \<open>ok msg c\<close>: the context has absorbed \<open>msg\<close>; \<open>shape c\<close>: it belongs to this algorithm.
\<close>

locale hash_backend =
  fixes U :: "'c \<Rightarrow> byte list \<Rightarrow> 'c" and F :: "'c \<Rightarrow> 'c" and G :: "'c \<Rightarrow> byte list" and R :: "'c \<Rightarrow> 'c"
    and ok :: "byte list \<Rightarrow> 'c \<Rightarrow> bool" and shape :: "'c \<Rightarrow> bool"
    and D :: "byte list \<Rightarrow> byte list" and n :: nat and lim :: nat
  assumes ok_shape: "ok msg c \<Longrightarrow> shape c"
    and finish_shape: "ok msg c \<Longrightarrow> shape (F c)"
    and reset_law: "shape c \<Longrightarrow> ok [] (R c)"
    and update_law: "ok msg c \<Longrightarrow> length bytes < lim \<Longrightarrow> ok (msg @ bytes) (U c bytes)"
    and finish_law: "ok msg c \<Longrightarrow> take n (G (F c)) = D msg"
    and digest_length: "length (D msg) = n"

context hash_backend
begin

definition represents :: "PCryptoHashType \<Rightarrow> byte list \<times> bool \<Rightarrow> 'c PCryptoHash \<Rightarrow> bool" where
  "represents t st h \<longleftrightarrow>
     upd h = U \<and> fin h = F \<and> dig h = (\<lambda>c. Some (G c)) \<and> rst h = R \<and> hash_len h = n \<and> hash_type h = t \<and>
     closed h = snd st \<and> reseted h = (fst st = []) \<and> shape (ctx h) \<and>
     (if snd st then fst st \<noteq> [] \<and> take n (G (ctx h)) = D (fst st) else ok (fst st) (ctx h))"

lemma close_ok:
  assumes "represents t (msg, f) h" "msg \<noteq> []"
  shows "represents t (msg, True) (hash_close h)" "take n (G (ctx (hash_close h))) = D msg"
  using assms finish_shape[of msg "ctx h"] finish_law[of msg "ctx h"]
  by (auto simp: represents_def hash_close_def)

lemma digest_long: "take n (G c) = D msg \<Longrightarrow> n \<le> length (G c)"
  using digest_length[of msg] by (metis length_take min.absorb_iff2 min.cobounded1 min_def)

lemma step_ok:
  assumes r: "represents t st h" and p: "chunk_below lim p"
  shows "\<exists>h'. hash_step (Some h) p = (Some h', snd (spec_step D n t st p)) \<and>
    represents t (fst (spec_step D n t st p)) h'"
proof -
  obtain msg f where st: "st = (msg, f)" by fastforce
  note r = r[unfolded st]
  note close = close_ok[OF r]
  have h: "hash_len (hash_close h) = n" "dig (hash_close h) = (\<lambda>c. Some (G c))" "reseted h = (msg = [])" "hash_len h = n"
    using r by (auto simp: represents_def hash_close_def)
  show ?thesis
  proof (cases p)
    case (Update d)
    show ?thesis
    proof (cases d)
      case (Some bytes)
      then have "\<not> f \<Longrightarrow> ok (msg @ bytes) (U (ctx h) bytes)"
        using r p Update update_law[of msg "ctx h" bytes] by (simp add: represents_def)
      then show ?thesis using r Update Some ok_shape
        by (auto simp: st p_crypto_hash_update_def represents_def)
    qed (use r Update in \<open>simp add: st p_crypto_hash_update_def\<close>)
  next
    case Reset
    have "shape (ctx h)" using r by (simp add: represents_def)
    from reset_law[OF this] show ?thesis using r Reset ok_shape
      by (auto simp: st p_crypto_hash_reset_def represents_def)
  next
    case (GetString mem)
    show ?thesis
    proof (cases "msg = []")
      case False
      from close[OF False] have "G (ctx (hash_close h)) = G (ctx (hash_close h))" by simp
      then show ?thesis using close[OF False] digest_long[OF close(2)[OF False]] GetString False h
        by (simp add: st p_crypto_hash_get_string_def Let_def digest_to_hex)
    qed (use r GetString h in \<open>simp add: st p_crypto_hash_get_string_def\<close>)
  next
    case (GetDigest b l)
    consider "b = None \<or> l = None" | b' l' where "b = Some b'" "l = Some l'" "msg = [] \<or> l' < n"
      | b' l' where "b = Some b'" "l = Some l'" "msg \<noteq> []" "n \<le> l'"
      by (metis not_less option.exhaust)
    then show ?thesis
    proof cases
      case 3
      then show ?thesis using close[OF 3(3)] h GetDigest digest_length[of msg]
        by (simp add: st p_crypto_hash_get_digest_def Let_def copy_at_def)
    qed (use r h GetDigest in \<open>auto simp: st p_crypto_hash_get_digest_def split: option.splits\<close>)
  next
    case GetLength
    then show ?thesis using r h by (simp add: st p_crypto_hash_get_length_def)
  next
    case GetType
    then show ?thesis using r by (auto simp: st p_crypto_hash_get_type_def represents_def)
  qed
qed

lemma run_ok:
  "represents t st h \<Longrightarrow> list_all (chunk_below lim) ps \<Longrightarrow> hash_run (Some h) ps = spec_run D n t st ps"
proof (induction ps arbitrary: st h)
  case (Cons p ps)
  from step_ok[OF Cons.prems(1), of p] Cons.prems(2) obtain h' where
    "hash_step (Some h) p = (Some h', snd (spec_step D n t st p))"
    "represents t (fst (spec_step D n t st p)) h'" by auto
  then show ?case using Cons by (simp add: split_beta)
qed simp

lemma new_ok:
  "ok [] c \<Longrightarrow> \<exists>h. P_HASH_FUNCS t n U F G R (Some c) = Some h \<and>
     (\<forall>ps. list_all (chunk_below lim) ps \<longrightarrow> hash_run (Some h) ps = spec_run D n t ([], False) ps)"
proof -
  assume c: "ok [] c"
  obtain h where h: "P_HASH_FUNCS t n U F G R (Some c) = Some h" by (simp add: P_HASH_FUNCS_def)
  then have "represents t ([], False) h" using c ok_shape by (auto simp: P_HASH_FUNCS_def represents_def)
  from run_ok[OF this] h show ?thesis by blast
qed

end

end
