(* ===== verification/PCryptoBackends.thy ===== *)
theory PCryptoBackends
  imports PCryptoHash
begin

text \<open>
  The seven algorithms as functions on messages, from the standards' own compression functions, and the
  proof that the modules keep the contract of \<open>hash_backend\<close> for them, on hosts of both byte orders.
\<close>

section \<open>The algorithms\<close>

text \<open>RFC 1321: the initial words A to D as hexadecimal bytes, low-order bytes first.\<close>

definition rfc1321_iv :: "32 word list" where
  "rfc1321_iv =
     map (word_of False)
       [[0x01, 0x23, 0x45, 0x67], [0x89, 0xAB, 0xCD, 0xEF], [0xFE, 0xDC, 0xBA, 0x98], [0x76, 0x54, 0x32, 0x10]]"

definition MD5 :: "byte list \<Rightarrow> byte list" where
  "MD5 = reference_digest 64 False md5_compress 4 rfc1321_iv"

definition SHA1 :: "byte list \<Rightarrow> byte list" where
  "SHA1 = reference_digest 64 True sha1_compress 5 fips_H0_1"

definition SHA224 :: "byte list \<Rightarrow> byte list" where
  "SHA224 = reference_digest 64 True sha256_compress 7 fips_H0_224"

definition SHA256 :: "byte list \<Rightarrow> byte list" where
  "SHA256 = reference_digest 64 True sha256_compress 8 fips_H0_256"

definition SHA384 :: "byte list \<Rightarrow> byte list" where
  "SHA384 = reference_digest 128 True sha512_compress 6 fips_H0_384"

definition SHA512 :: "byte list \<Rightarrow> byte list" where
  "SHA512 = reference_digest 128 True sha512_compress 8 fips_H0_512"

fun standard_digest :: "PCryptoHashType \<Rightarrow> byte list \<Rightarrow> byte list" where
  "standard_digest P_CRYPTO_HASH_TYPE_MD5 = MD5"
| "standard_digest P_CRYPTO_HASH_TYPE_SHA1 = SHA1"
| "standard_digest P_CRYPTO_HASH_TYPE_SHA2_224 = SHA224"
| "standard_digest P_CRYPTO_HASH_TYPE_SHA2_256 = SHA256"
| "standard_digest P_CRYPTO_HASH_TYPE_SHA2_384 = SHA384"
| "standard_digest P_CRYPTO_HASH_TYPE_SHA2_512 = SHA512"
| "standard_digest P_CRYPTO_HASH_TYPE_GOST = gost_standard"

text \<open>What the module computes: for GOST with the checksum of the code.\<close>

definition module_digest :: "PCryptoHashType \<Rightarrow> byte list \<Rightarrow> byte list" where
  "module_digest t = (if t = P_CRYPTO_HASH_TYPE_GOST then gost_reference else standard_digest t)"

fun standard_length :: "PCryptoHashType \<Rightarrow> nat" where
  "standard_length P_CRYPTO_HASH_TYPE_MD5 = 16"
| "standard_length P_CRYPTO_HASH_TYPE_SHA1 = 20"
| "standard_length P_CRYPTO_HASH_TYPE_SHA2_224 = 28"
| "standard_length P_CRYPTO_HASH_TYPE_SHA2_256 = 32"
| "standard_length P_CRYPTO_HASH_TYPE_SHA2_384 = 48"
| "standard_length P_CRYPTO_HASH_TYPE_SHA2_512 = 64"
| "standard_length P_CRYPTO_HASH_TYPE_GOST = 32"

section \<open>The references agree with the code's transformations\<close>

lemma length_md5_iv [simp]: "length md5_iv = 4" by (simp add: md5_iv_def)
lemma length_sha1_iv [simp]: "length sha1_iv = 5" by (simp add: sha1_iv_def)
lemma length_sha256_iv [simp]: "length (sha256_iv s) = 8" by (simp add: sha256_iv_def)
lemma length_sha512_iv [simp]: "length (sha512_iv s) = 8" by (simp add: sha512_iv_def)

lemma rfc1321_iv_eq: "rfc1321_iv = md5_iv"
proof -
  have "rfc1321_iv = [0x67452301, 0xEFCDAB89, 0x98BADCFE, 0x10325476]" by code_simp
  then show ?thesis by (simp add: md5_iv_def)
qed

lemma fips_H0_1_eq: "fips_H0_1 = sha1_iv"
  by (simp add: fips_H0_1_def sha1_iv_def)

lemma MD5_code: "MD5 = reference_digest 64 False pp_crypto_hash_md5_process 4 md5_iv"
  using md5_process_compress by (simp add: MD5_def rfc1321_iv_eq fun_eq_iff md5.reference_digest_cong[where f = md5_compress])

lemma SHA1_code: "SHA1 = reference_digest 64 True pp_crypto_hash_sha1_process 5 sha1_iv"
  using sha1_process_compress by (simp add: SHA1_def fips_H0_1_eq fun_eq_iff sha1.reference_digest_cong[where f = sha1_compress])

lemma SHA224_code: "SHA224 = reference_digest 64 True pp_crypto_hash_sha2_256_process 7 (sha256_iv True)"
  using sha256_process_compress
  by (simp add: SHA224_def fips_H0_224_eq fun_eq_iff sha224.reference_digest_cong[where f = sha256_compress])

lemma SHA256_code: "SHA256 = reference_digest 64 True pp_crypto_hash_sha2_256_process 8 (sha256_iv False)"
  using sha256_process_compress
  by (simp add: SHA256_def fips_H0_256_eq fun_eq_iff sha256.reference_digest_cong[where f = sha256_compress])

lemma SHA384_code: "SHA384 = reference_digest 128 True pp_crypto_hash_sha2_512_process 6 (sha512_iv True)"
  using sha512_process_compress
  by (simp add: SHA384_def fips_H0_384_eq fun_eq_iff sha384.reference_digest_cong[where f = sha512_compress])

lemma SHA512_code: "SHA512 = reference_digest 128 True pp_crypto_hash_sha2_512_process 8 (sha512_iv False)"
  using sha512_process_compress
  by (simp add: SHA512_def fips_H0_512_eq fun_eq_iff sha512.reference_digest_cong[where f = sha512_compress])

section \<open>The modules keep the contract\<close>

interpretation md5_module: hash_backend "p_crypto_hash_md5_update big" "p_crypto_hash_md5_finish big"
    "p_crypto_hash_md5_digest big" p_crypto_hash_md5_reset
    "absorbed 64 False pp_crypto_hash_md5_process md5_iv" "\<lambda>_. True" MD5 16 "2 ^ 32" for big
proof unfold_locales
  fix msg bytes :: "byte list" and c :: PHashMD5
  assume c: "absorbed 64 False pp_crypto_hash_md5_process md5_iv msg c"
  show "length bytes < 2 ^ 32 \<Longrightarrow> absorbed 64 False pp_crypto_hash_md5_process md5_iv (msg @ bytes) (p_crypto_hash_md5_update big c bytes)"
    using md5.update_ok[OF c, of bytes] by (simp add: p_crypto_hash_md5_update_def)
  show "take 16 (p_crypto_hash_md5_digest big (p_crypto_hash_md5_finish big c)) = MD5 msg"
    using md5.finish_ok[OF c, of big] by (simp add: p_crypto_hash_md5_finish_def p_crypto_hash_md5_update_def p_crypto_hash_md5_digest_def MD5_code)
qed (simp_all add: p_crypto_hash_md5_reset_def absorbed_empty MD5_code md5.length_reference_digest)

interpretation sha1_module: hash_backend "p_crypto_hash_sha1_update big" "p_crypto_hash_sha1_finish big"
    "p_crypto_hash_sha1_digest big" p_crypto_hash_sha1_reset
    "absorbed 64 True pp_crypto_hash_sha1_process sha1_iv" "\<lambda>_. True" SHA1 20 "2 ^ 32" for big
proof unfold_locales
  fix msg bytes :: "byte list" and c :: PHashSHA1
  assume c: "absorbed 64 True pp_crypto_hash_sha1_process sha1_iv msg c"
  show "length bytes < 2 ^ 32 \<Longrightarrow> absorbed 64 True pp_crypto_hash_sha1_process sha1_iv (msg @ bytes) (p_crypto_hash_sha1_update big c bytes)"
    using sha1.update_ok[OF c, of bytes] by (simp add: p_crypto_hash_sha1_update_def)
  show "take 20 (p_crypto_hash_sha1_digest big (p_crypto_hash_sha1_finish big c)) = SHA1 msg"
    using sha1.finish_ok[OF c, of big] by (simp add: p_crypto_hash_sha1_finish_def p_crypto_hash_sha1_update_def p_crypto_hash_sha1_digest_def SHA1_code)
qed (simp_all add: p_crypto_hash_sha1_reset_def absorbed_empty SHA1_code sha1.length_reference_digest)

lemma is_short_more: "hash_ctx.more c = hash_ctx.more d \<Longrightarrow> is_short c = is_short d"
  by (cases c, cases d) simp

lemma short_update_256 [simp]: "is_short (p_crypto_hash_sha2_256_update big c bytes) = is_short c"
  unfolding p_crypto_hash_sha2_256_update_def by (intro is_short_more more_block_update) simp

lemma short_finish_256 [simp]: "is_short (p_crypto_hash_sha2_256_finish big c) = is_short c"
  unfolding p_crypto_hash_sha2_256_finish_def p_crypto_hash_sha2_256_update_def
  by (intro is_short_more more_block_finish more_block_update) simp

lemma short_update_512 [simp]: "is_short (p_crypto_hash_sha2_512_update big c bytes) = is_short c"
  unfolding p_crypto_hash_sha2_512_update_def by (intro is_short_more more_block_update) simp

lemma short_finish_512 [simp]: "is_short (p_crypto_hash_sha2_512_finish big c) = is_short c"
  unfolding p_crypto_hash_sha2_512_finish_def p_crypto_hash_sha2_512_update_def
  by (intro is_short_more more_block_finish more_block_update) simp

text \<open>\<open>s\<close> selects the shorter variant.\<close>

definition sha2_256_ok :: "bool \<Rightarrow> byte list \<Rightarrow> PHashSHA2_256 \<Rightarrow> bool" where
  "sha2_256_ok s msg c \<longleftrightarrow>
     is_short c = s \<and> absorbed 64 True pp_crypto_hash_sha2_256_process (sha256_iv s) msg c"

definition sha2_512_ok :: "bool \<Rightarrow> byte list \<Rightarrow> PHashSHA2_512 \<Rightarrow> bool" where
  "sha2_512_ok s msg c \<longleftrightarrow>
     is_short c = s \<and> absorbed 128 True pp_crypto_hash_sha2_512_process (sha512_iv s) msg c"

lemma sha2_256_reset_ok: "is_short c = s \<Longrightarrow> sha2_256_ok s [] (p_crypto_hash_sha2_256_reset c)"
  by (simp add: sha2_256_ok_def p_crypto_hash_sha2_256_reset_def absorbed_empty)

lemma sha2_512_reset_ok: "is_short c = s \<Longrightarrow> sha2_512_ok s [] (p_crypto_hash_sha2_512_reset c)"
  by (simp add: sha2_512_ok_def p_crypto_hash_sha2_512_reset_def absorbed_empty)

interpretation sha224_module: hash_backend "p_crypto_hash_sha2_256_update big" "p_crypto_hash_sha2_256_finish big"
    "p_crypto_hash_sha2_256_digest big" p_crypto_hash_sha2_256_reset "sha2_256_ok True" "\<lambda>c. is_short c = True" SHA224 28 "2 ^ 32" for big
proof unfold_locales
  fix msg bytes :: "byte list" and c :: PHashSHA2_256
  assume "sha2_256_ok True msg c"
  then have s: "is_short c = True"
    and c: "absorbed 64 True pp_crypto_hash_sha2_256_process (sha256_iv True) msg c"
    by (simp_all add: sha2_256_ok_def)
  show "length bytes < 2 ^ 32 \<Longrightarrow> sha2_256_ok True (msg @ bytes) (p_crypto_hash_sha2_256_update big c bytes)"
    using sha224.update_ok[OF c, of bytes] s by (simp add: sha2_256_ok_def) (simp add: p_crypto_hash_sha2_256_update_def)
  show "take 28 (p_crypto_hash_sha2_256_digest big (p_crypto_hash_sha2_256_finish big c)) = SHA224 msg"
    using sha224.finish_ok[OF c, of big] s
    by (simp add: p_crypto_hash_sha2_256_finish_def p_crypto_hash_sha2_256_update_def p_crypto_hash_sha2_256_digest_def SHA224_code)
  show "is_short c = True" by (rule s)
  show "is_short (p_crypto_hash_sha2_256_finish big c) = True" using s by simp
qed (simp_all add: sha2_256_reset_ok SHA224_code sha224.length_reference_digest)

interpretation sha256_module: hash_backend "p_crypto_hash_sha2_256_update big" "p_crypto_hash_sha2_256_finish big"
    "p_crypto_hash_sha2_256_digest big" p_crypto_hash_sha2_256_reset "sha2_256_ok False" "\<lambda>c. is_short c = False" SHA256 32 "2 ^ 32" for big
proof unfold_locales
  fix msg bytes :: "byte list" and c :: PHashSHA2_256
  assume "sha2_256_ok False msg c"
  then have s: "is_short c = False"
    and c: "absorbed 64 True pp_crypto_hash_sha2_256_process (sha256_iv False) msg c"
    by (simp_all add: sha2_256_ok_def)
  show "length bytes < 2 ^ 32 \<Longrightarrow> sha2_256_ok False (msg @ bytes) (p_crypto_hash_sha2_256_update big c bytes)"
    using sha256.update_ok[OF c, of bytes] s by (simp add: sha2_256_ok_def) (simp add: p_crypto_hash_sha2_256_update_def)
  show "take 32 (p_crypto_hash_sha2_256_digest big (p_crypto_hash_sha2_256_finish big c)) = SHA256 msg"
    using sha256.finish_ok[OF c, of big] s
    by (simp add: p_crypto_hash_sha2_256_finish_def p_crypto_hash_sha2_256_update_def p_crypto_hash_sha2_256_digest_def SHA256_code)
  show "is_short c = False" by (rule s)
  show "is_short (p_crypto_hash_sha2_256_finish big c) = False" using s by simp
qed (simp_all add: sha2_256_reset_ok SHA256_code sha256.length_reference_digest)

interpretation sha384_module: hash_backend "p_crypto_hash_sha2_512_update big" "p_crypto_hash_sha2_512_finish big"
    "p_crypto_hash_sha2_512_digest big" p_crypto_hash_sha2_512_reset "sha2_512_ok True" "\<lambda>c. is_short c = True" SHA384 48 "2 ^ 64" for big
proof unfold_locales
  fix msg bytes :: "byte list" and c :: PHashSHA2_512
  assume "sha2_512_ok True msg c"
  then have s: "is_short c = True"
    and c: "absorbed 128 True pp_crypto_hash_sha2_512_process (sha512_iv True) msg c"
    by (simp_all add: sha2_512_ok_def)
  show "length bytes < 2 ^ 64 \<Longrightarrow> sha2_512_ok True (msg @ bytes) (p_crypto_hash_sha2_512_update big c bytes)"
    using sha384.update_ok[OF c, of bytes] s by (simp add: sha2_512_ok_def) (simp add: p_crypto_hash_sha2_512_update_def)
  show "take 48 (p_crypto_hash_sha2_512_digest big (p_crypto_hash_sha2_512_finish big c)) = SHA384 msg"
    using sha384.finish_ok[OF c, of big] s
    by (simp add: p_crypto_hash_sha2_512_finish_def p_crypto_hash_sha2_512_update_def p_crypto_hash_sha2_512_digest_def SHA384_code)
  show "is_short c = True" by (rule s)
  show "is_short (p_crypto_hash_sha2_512_finish big c) = True" using s by simp
qed (simp_all add: sha2_512_reset_ok SHA384_code sha384.length_reference_digest)

interpretation sha512_module: hash_backend "p_crypto_hash_sha2_512_update big" "p_crypto_hash_sha2_512_finish big"
    "p_crypto_hash_sha2_512_digest big" p_crypto_hash_sha2_512_reset "sha2_512_ok False" "\<lambda>c. is_short c = False" SHA512 64 "2 ^ 64" for big
proof unfold_locales
  fix msg bytes :: "byte list" and c :: PHashSHA2_512
  assume "sha2_512_ok False msg c"
  then have s: "is_short c = False"
    and c: "absorbed 128 True pp_crypto_hash_sha2_512_process (sha512_iv False) msg c"
    by (simp_all add: sha2_512_ok_def)
  show "length bytes < 2 ^ 64 \<Longrightarrow> sha2_512_ok False (msg @ bytes) (p_crypto_hash_sha2_512_update big c bytes)"
    using sha512.update_ok[OF c, of bytes] s by (simp add: sha2_512_ok_def) (simp add: p_crypto_hash_sha2_512_update_def)
  show "take 64 (p_crypto_hash_sha2_512_digest big (p_crypto_hash_sha2_512_finish big c)) = SHA512 msg"
    using sha512.finish_ok[OF c, of big] s
    by (simp add: p_crypto_hash_sha2_512_finish_def p_crypto_hash_sha2_512_update_def p_crypto_hash_sha2_512_digest_def SHA512_code)
  show "is_short c = False" by (rule s)
  show "is_short (p_crypto_hash_sha2_512_finish big c) = False" using s by simp
qed (simp_all add: sha2_512_reset_ok SHA512_code sha512.length_reference_digest)

lemma length_gost_reference: "length (gost_reference msg) = 32"
proof -
  have "length (concat (map (bytes_of False) h)) = 4 * length h" for h :: "32 word list" by (induction h) simp_all
  then show ?thesis by (simp add: gost_reference_def split_beta)
qed

lemma length_gost_digest: "length (p_crypto_hash_gost3411_digest big c) = length (g_hash c) * 4"
  by (simp add: p_crypto_hash_gost3411_digest_def length_of_buf_w)

interpretation gost_module: hash_backend "p_crypto_hash_gost3411_update big" "p_crypto_hash_gost3411_finish big"
    "p_crypto_hash_gost3411_digest big" p_crypto_hash_gost3411_reset gost_absorbed "\<lambda>_. True" gost_reference 32 "2 ^ 32"
    for big
  by unfold_locales (simp_all add: gost_update_ok gost_finish_ok gost_reset_ok length_gost_reference)

section \<open>Every program\<close>

text \<open>What the pointer that \<open>p_crypto_hash_new\<close> returns computes.\<close>

lemma new_contexts:
  "\<exists>c. p_crypto_hash_md5_new True = Some c \<and> absorbed 64 False pp_crypto_hash_md5_process md5_iv [] c"
  "\<exists>c. p_crypto_hash_sha1_new True = Some c \<and> absorbed 64 True pp_crypto_hash_sha1_process sha1_iv [] c"
  "\<exists>c. p_crypto_hash_sha2_224_new True = Some c \<and> sha2_256_ok True [] c"
  "\<exists>c. p_crypto_hash_sha2_256_new True = Some c \<and> sha2_256_ok False [] c"
  "\<exists>c. p_crypto_hash_sha2_384_new True = Some c \<and> sha2_512_ok True [] c"
  "\<exists>c. p_crypto_hash_sha2_512_new True = Some c \<and> sha2_512_ok False [] c"
  "\<exists>c. p_crypto_hash_gost3411_new True = Some c \<and> gost_absorbed [] c"
  by (simp_all add: p_crypto_hash_md5_new_def p_crypto_hash_sha1_new_def p_crypto_hash_sha2_224_new_def
      p_crypto_hash_sha2_256_new_def p_crypto_hash_sha2_384_new_def p_crypto_hash_sha2_512_new_def
      p_crypto_hash_gost3411_new_def pp_crypto_hash_sha2_256_new_internal_def pp_crypto_hash_sha2_512_new_internal_def
      md5_module.reset_law sha1_module.reset_law sha224_module.reset_law sha256_module.reset_law
      sha384_module.reset_law sha512_module.reset_law gost_module.reset_law)

lemma chunks_64: "list_all (chunk_below (2 ^ 32)) ps \<Longrightarrow> list_all (chunk_below (2 ^ 64)) ps"
proof (erule list.pred_mono_strong)
  fix p assume "chunk_below (2 ^ 32) p"
  then show "chunk_below (2 ^ 64) p" by (cases "(2 ^ 64 :: nat, p)" rule: chunk_below.cases) simp_all
qed

text \<open>What the pointer that \<open>p_crypto_hash_new\<close> returns computes.\<close>

lemma new_represents:
  assumes "hash_type_of_int i = Some t"
  shows "\<exists>h. p_crypto_hash_new big True True i = Some h \<and>
    (\<forall>ps. list_all (chunk_below (2 ^ 32)) ps \<longrightarrow>
      any_run (Some h) ps = spec_run (module_digest t) (standard_length t) t ([], False) ps)"
proof (cases t)
  case P_CRYPTO_HASH_TYPE_MD5
  obtain c where "p_crypto_hash_md5_new True = Some c" and c: "absorbed 64 False pp_crypto_hash_md5_process md5_iv [] c"
    using new_contexts(1) by blast
  then show ?thesis using assms md5_module.new_ok[OF c, of t big] P_CRYPTO_HASH_TYPE_MD5
    by (auto simp: p_crypto_hash_new_def module_digest_def simp del: hash_type_of_int.simps)
next
  case P_CRYPTO_HASH_TYPE_SHA1
  obtain c where "p_crypto_hash_sha1_new True = Some c" and c: "absorbed 64 True pp_crypto_hash_sha1_process sha1_iv [] c"
    using new_contexts(2) by blast
  then show ?thesis using assms sha1_module.new_ok[OF c, of t big] P_CRYPTO_HASH_TYPE_SHA1
    by (auto simp: p_crypto_hash_new_def module_digest_def simp del: hash_type_of_int.simps)
next
  case P_CRYPTO_HASH_TYPE_SHA2_224
  obtain c where "p_crypto_hash_sha2_224_new True = Some c" and c: "sha2_256_ok True [] c"
    using new_contexts(3) by blast
  then show ?thesis using assms sha224_module.new_ok[OF c, of t big] P_CRYPTO_HASH_TYPE_SHA2_224
    by (auto simp: p_crypto_hash_new_def module_digest_def simp del: hash_type_of_int.simps)
next
  case P_CRYPTO_HASH_TYPE_SHA2_256
  obtain c where "p_crypto_hash_sha2_256_new True = Some c" and c: "sha2_256_ok False [] c"
    using new_contexts(4) by blast
  then show ?thesis using assms sha256_module.new_ok[OF c, of t big] P_CRYPTO_HASH_TYPE_SHA2_256
    by (auto simp: p_crypto_hash_new_def module_digest_def simp del: hash_type_of_int.simps)
next
  case P_CRYPTO_HASH_TYPE_SHA2_384
  obtain c where "p_crypto_hash_sha2_384_new True = Some c" and c: "sha2_512_ok True [] c"
    using new_contexts(5) by blast
  then show ?thesis using assms sha384_module.new_ok[OF c, of t big] P_CRYPTO_HASH_TYPE_SHA2_384 chunks_64
    by (auto simp: p_crypto_hash_new_def module_digest_def simp del: hash_type_of_int.simps)
next
  case P_CRYPTO_HASH_TYPE_SHA2_512
  obtain c where "p_crypto_hash_sha2_512_new True = Some c" and c: "sha2_512_ok False [] c"
    using new_contexts(6) by blast
  then show ?thesis using assms sha512_module.new_ok[OF c, of t big] P_CRYPTO_HASH_TYPE_SHA2_512 chunks_64
    by (auto simp: p_crypto_hash_new_def module_digest_def simp del: hash_type_of_int.simps)
next
  case P_CRYPTO_HASH_TYPE_GOST
  obtain c where "p_crypto_hash_gost3411_new True = Some c" and c: "gost_absorbed [] c"
    using new_contexts(7) by blast
  then show ?thesis using assms gost_module.new_ok[OF c, of t big] P_CRYPTO_HASH_TYPE_GOST
    by (auto simp: p_crypto_hash_new_def module_digest_def simp del: hash_type_of_int.simps)
qed

end
