(* ===== verification/PCryptoProps.thy ===== *)
theory PCryptoProps
  imports PCryptoBackends
begin

text \<open>
  The properties of the hash modules: programs over the front end, the transformations against the
  standards, the hexadecimal form, and where the code departs from the standards (the carry of the
  GOST checksum, the byte counters for updates of 2 ^ 32 bytes and more).
\<close>

section \<open>Auxiliary functions\<close>

text \<open>The digest object fed with the chunks of a message.\<close>

definition feed :: "byte list list \<Rightarrow> hash_op list" where
  "feed chunks = map (\<lambda>c. Update (Some c)) chunks @ [GetString True]"

lemma feed_below: "(\<forall>c \<in> set chunks. length c < lim) \<Longrightarrow> list_all (chunk_below lim) (feed chunks)"
  by (simp add: feed_def list_all_iff)

lemma spec_feed:
  "last (spec_run D n t (msg, False) (feed chunks)) =
   String (if msg @ concat chunks = [] then None else Some (hex_of (D (msg @ concat chunks))))"
proof (induction chunks arbitrary: msg)
  case (Cons c chunks)
  have "spec_run D n t st (feed chunks) \<noteq> []" for st by (cases chunks) (simp_all add: feed_def split_beta)
  then show ?case using Cons[of "msg @ c"] by (simp add: feed_def)
qed (simp add: feed_def)

text \<open>Reading a hexadecimal string.\<close>

definition unhex_digit :: "char \<Rightarrow> byte" where
  "unhex_digit c = of_nat (length (takeWhile (\<lambda>d. d \<noteq> c) ''0123456789abcdef''))"

fun unhex :: "string \<Rightarrow> byte list" where
  "unhex (a # b # cs) = (push_bit 4 (unhex_digit a) OR unhex_digit b) # unhex cs"
| "unhex cs = []"

lemma unhex_hex_digit:
  assumes "unat b < 16"
  shows "unhex_digit (hex_digit b) = b"
proof -
  have "\<forall>i < 16. unhex_digit (''0123456789abcdef'' ! i) = of_nat i" by code_simp
  then show ?thesis using assms by simp
qed

lemma unhex_hex_of: "unhex (hex_of bs) = bs"
proof (induction bs)
  case (Cons b bs)
  have "unat b < 2 ^ LENGTH(8)" by (rule unsigned_less)
  then have "unat b < 256" by simp
  then have "unat b div 16 < 16" by (simp add: less_mult_imp_div_less)
  then have "unat (drop_bit 4 b) < 16" by (simp add: drop_bit_eq_div unat_div)
  moreover have "unat (b AND 0xF) < 16"
  proof -
    have "b AND 0xF \<le> 0xF" by (rule word_and_le1)
    then show ?thesis by (simp add: word_le_nat_alt)
  qed
  moreover have "push_bit 4 (drop_bit 4 b) OR (b AND 0xF) = b"
  proof -
    have "(0xF :: byte) = mask 4" by (simp add: mask_eq_exp_minus_1)
    then have "b AND 0xF = take_bit 4 b" by (simp only: take_bit_eq_mask)
    then show ?thesis by (simp only:) (rule bit_word_eqI, auto simp: bit_simps)
  qed
  ultimately show ?case using Cons by (simp add: hex_of_def unhex_hex_digit del: hex_digit.simps)
qed (simp add: hex_of_def)

lemma spec_run_nonempty: "ps \<noteq> [] \<Longrightarrow> spec_run D n t st ps \<noteq> []"
  by (cases ps) (simp_all add: split_beta)

text \<open>The messages a program goes through, and the digest as far as it matters to them.\<close>

fun spec_messages :: "nat \<Rightarrow> PCryptoHashType \<Rightarrow> byte list \<times> bool \<Rightarrow> hash_op list \<Rightarrow> byte list list" where
  "spec_messages n t st [] = []"
| "spec_messages n t st (p # ps) = fst st # spec_messages n t (fst (spec_step (\<lambda>m. m) n t st p)) ps"

lemma spec_step_state: "fst (spec_step D n t st p) = fst (spec_step (\<lambda>m. m) n t st p)"
  by (cases p; cases st) (auto split: option.split)

lemma spec_step_cong: "D (fst st) = D' (fst st) \<Longrightarrow> spec_step D n t st p = spec_step D' n t st p"
  by (cases p; cases st) (auto split: option.split)

lemma spec_run_cong:
  "\<forall>m \<in> set (spec_messages n t st ps). D m = D' m \<Longrightarrow> spec_run D n t st ps = spec_run D' n t st ps"
proof (induction ps arbitrary: st)
  case (Cons p ps)
  then have "spec_step D n t st p = spec_step D' n t st p" by (intro spec_step_cong) simp
  moreover have "spec_run D n t (fst (spec_step D' n t st p)) ps = spec_run D' n t (fst (spec_step D' n t st p)) ps"
    using Cons by (simp add: spec_step_state[of D'])
  ultimately show ?case by (simp add: split_beta)
qed simp

section \<open>Properties\<close>

text \<open>
  C10.  Every program over a hash object gives what the contract says, for each of the seven
  algorithms: the digests are those of RFC 1321, FIPS 180 and GOST R 34.11-94, with the constants of the
  standards, on the bytes given since the object was made or reset, independent of how they were cut into
  chunks, of the byte order of the host and of how often a digest is read; nothing is returned before the first
  byte, and data after a digest is ignored until a reset.  For GOST the checksums of the messages must not lose
  a carry.
\<close>

theorem crypto_hash_programs:
  assumes "hash_type_of_int i = Some t" and "list_all (chunk_below (2 ^ 32)) ps"
    and "t = P_CRYPTO_HASH_TYPE_GOST \<Longrightarrow> list_all gost_carries_seen (spec_messages (standard_length t) t ([], False) ps)"
  shows "any_run (p_crypto_hash_new big True True i) ps =
    spec_run (standard_digest t) (standard_length t) t ([], False) ps"
proof -
  have "spec_run (module_digest t) (standard_length t) t ([], False) ps =
      spec_run (standard_digest t) (standard_length t) t ([], False) ps"
    using assms(3) by (intro spec_run_cong) (auto simp: module_digest_def list_all_iff gost_reference_standard)
  then show ?thesis using new_represents[OF assms(1), of big] assms(2) by auto
qed

theorem crypto_hash_programs_witness:
  "any_run (p_crypto_hash_new True True True 1) [Update (Some [97]), GetLength, GetString True, Update (Some [98]), GetString True] =
    [Nothing, Length 20, String (Some (hex_of (SHA1 [97]))), Nothing, String (Some (hex_of (SHA1 [97])))] \<and>
   any_run (p_crypto_hash_new True True True 6) [Update (Some [97]), GetString True] =
    [Nothing, String (Some (hex_of (gost_standard [97])))]"
proof
  show "any_run (p_crypto_hash_new True True True 1) [Update (Some [97]), GetLength, GetString True, Update (Some [98]), GetString True] =
    [Nothing, Length 20, String (Some (hex_of (SHA1 [97]))), Nothing, String (Some (hex_of (SHA1 [97])))]"
    by (subst crypto_hash_programs[where t = P_CRYPTO_HASH_TYPE_SHA1]) simp_all
  have "gost_carries_seen []" "gost_carries_seen [97]" by (simp_all add: gost_carries_short)
  then show "any_run (p_crypto_hash_new True True True 6) [Update (Some [97]), GetString True] =
    [Nothing, String (Some (hex_of (gost_standard [97])))]"
    by (subst crypto_hash_programs[where t = P_CRYPTO_HASH_TYPE_GOST]) simp_all
qed

text \<open>
  C11.  The string read at the end does not depend on the chunks: two sequences of chunks with the same
  concatenation give the same string, on hosts of either byte order.
\<close>

theorem crypto_hash_chunks:
  assumes "hash_type_of_int i \<noteq> None" and "concat xs = concat ys"
    and "\<forall>c \<in> set xs \<union> set ys. length c < 2 ^ 32"
  shows "last (any_run (p_crypto_hash_new True True True i) (feed xs)) =
    last (any_run (p_crypto_hash_new False True True i) (feed ys))"
proof -
  obtain t where t: "hash_type_of_int i = Some t" using assms(1) by blast
  have "list_all (chunk_below (2 ^ 32)) (feed xs)" "list_all (chunk_below (2 ^ 32)) (feed ys)"
    using assms(3) by (simp_all add: feed_below)
  then show ?thesis
    using new_represents[OF t, of True] new_represents[OF t, of False] assms(2)
    by (auto simp: spec_feed)
qed

theorem crypto_hash_chunks_witness:
  "last (any_run (p_crypto_hash_new True True True 0) (feed [[1], [2, 3]])) =
    last (any_run (p_crypto_hash_new False True True 0) (feed [[1, 2], [3]]))"
  by (rule crypto_hash_chunks) simp_all

text \<open>
  An unknown type, or memory that cannot be had, gives NULL, and a NULL object answers every call
  with no string, length 0 and no type, whatever the program.
\<close>

theorem crypto_hash_null:
  assumes "hash_type_of_int i = None \<or> \<not> mem \<or> \<not> mem_ctx"
  shows "any_run (p_crypto_hash_new big mem mem_ctx i) ps =
    map (\<lambda>p. case p of Update d \<Rightarrow> Nothing | Reset \<Rightarrow> Nothing | GetString m \<Rightarrow> String None
        | GetDigest b l \<Rightarrow> Digest b (map_option (\<lambda>l. 0) l) | GetLength \<Rightarrow> Length 0 | GetType \<Rightarrow> Type None) ps"
proof -
  have "p_crypto_hash_new big mem mem_ctx i = None"
    using assms
    by (auto simp: p_crypto_hash_new_def p_crypto_hash_md5_new_def p_crypto_hash_sha1_new_def
        p_crypto_hash_sha2_224_new_def p_crypto_hash_sha2_256_new_def p_crypto_hash_sha2_384_new_def
        p_crypto_hash_sha2_512_new_def p_crypto_hash_gost3411_new_def pp_crypto_hash_sha2_256_new_internal_def
        pp_crypto_hash_sha2_512_new_internal_def P_HASH_FUNCS_def split: option.split PCryptoHashType.split)
  moreover have "hash_step (None :: PHashMD5 PCryptoHash option) p = (None, case p of Update d \<Rightarrow> Nothing | Reset \<Rightarrow> Nothing
        | GetString m \<Rightarrow> String None | GetDigest b l \<Rightarrow> Digest b (map_option (\<lambda>l. 0) l) | GetLength \<Rightarrow> Length 0
        | GetType \<Rightarrow> Type None)" for p
    by (cases p) (simp_all add: p_crypto_hash_update_def p_crypto_hash_reset_def p_crypto_hash_get_string_def
        p_crypto_hash_get_digest_def p_crypto_hash_get_length_def p_crypto_hash_get_type_def split: option.split)
  ultimately show ?thesis by (induction ps) simp_all
qed

theorem crypto_hash_null_witness:
  "any_run (p_crypto_hash_new False True True 7) [Update (Some [1]), GetString True, GetLength] =
    [Nothing, String None, Length 0]"
  by (subst crypto_hash_null) simp_all

text \<open>
  C12.  The unrolled transformations are the compression functions of RFC 1321 (\<open>pcryptohash-md5.c\<close>) and FIPS 180,
  with the round constants the standards define: \<open>pcryptohash-sha1.c\<close>, which keeps the message schedule in a
  circular buffer of 16 words, \<open>pcryptohash-sha2-256.c\<close> and \<open>pcryptohash-sha2-512.c\<close>, whose tables are the first
  bits of the fractional parts of the cube roots of the primes.
\<close>

theorem digest_transformations:
  assumes "length X = 16" "length M = 16" "length h = 8" "length M' = 16" "length h' = 8"
  shows "pp_crypto_hash_md5_process g Y = md5_compress g Y \<and>
    pp_crypto_hash_sha1_process k X = sha1_compress k X \<and>
    pp_crypto_hash_sha2_256_process h M = sha256_compress h M \<and>
    pp_crypto_hash_sha2_512_process h' M' = sha512_compress h' M'"
  using assms by (simp add: md5_process_compress sha1_process_compress sha256_process_compress sha512_process_compress)

theorem digest_transformations_witness:
  "pp_crypto_hash_sha1_process sha1_iv [0, 1, 2, 3, 4, 5, 6, 7, 8, 9, 10, 11, 12, 13, 14, 15] =
     sha1_compress sha1_iv [0, 1, 2, 3, 4, 5, 6, 7, 8, 9, 10, 11, 12, 13, 14, 15] \<and>
   pp_crypto_hash_sha2_256_process (sha256_iv False) [0, 1, 2, 3, 4, 5, 6, 7, 8, 9, 10, 11, 12, 13, 14, 15] =
     sha256_compress (sha256_iv False) [0, 1, 2, 3, 4, 5, 6, 7, 8, 9, 10, 11, 12, 13, 14, 15] \<and>
   pp_crypto_hash_sha2_512_process (sha512_iv False) [0, 1, 2, 3, 4, 5, 6, 7, 8, 9, 10, 11, 12, 13, 14, 15] =
     sha512_compress (sha512_iv False) [0, 1, 2, 3, 4, 5, 6, 7, 8, 9, 10, 11, 12, 13, 14, 15]"
  using digest_transformations
    [of "[0, 1, 2, 3, 4, 5, 6, 7, 8, 9, 10, 11, 12, 13, 14, 15]" "[0, 1, 2, 3, 4, 5, 6, 7, 8, 9, 10, 11, 12, 13, 14, 15]"
        "sha256_iv False" "[0, 1, 2, 3, 4, 5, 6, 7, 8, 9, 10, 11, 12, 13, 14, 15]" "sha512_iv False" _ _ sha1_iv]
  by simp

text \<open>
  The hexadecimal string of a digest determines it: reading the string back gives the first \<open>n\<close> bytes.
\<close>

theorem hex_string_roundtrip:
  "n \<le> length digest \<Longrightarrow>
    unhex (pp_crypto_hash_digest_to_hex digest n) = take n digest \<and>
    length (pp_crypto_hash_digest_to_hex digest n) = 2 * n"
proof -
  assume n: "n \<le> length digest"
  have "length (hex_of bs) = 2 * length bs" for bs by (induction bs) (simp_all add: hex_of_def)
  then show ?thesis using n by (simp add: digest_to_hex unhex_hex_of)
qed

theorem hex_string_roundtrip_witness:
  "unhex (pp_crypto_hash_digest_to_hex [0xAB, 0x01, 0xFF] 2) = [0xAB, 0x01]"
  using hex_string_roundtrip[of 2 "[0xAB, 0x01, 0xFF]"] by simp

text \<open>
  C13.  The step function of \<open>pcryptohash-gost3411.c\<close>, with its S-boxes, its unrolled keys and the closed forms of
  the shift register, is the one of GOST R 34.11-94 (RFC 5831 and RFC 5830), and its 256-bit sum is the sum
  modulo 2 ^ 256 unless both words of a position are 0xFFFFFFFF, the case in which it cannot see a carry; so the
  digest that a context finishes with after a message is the one of the standard if no carry of the checksum is lost.
\<close>

theorem gost_digest_standard:
  assumes "length h = 8" "length m = 8" "list_all (\<lambda>(x, y). \<not> (x = - 1 \<and> y = - 1)) (zip h m)"
    and "gost_absorbed msg c" "gost_carries_seen msg"
  shows "pp_crypto_hash_gost3411_process h m = r3411_step h m \<and>
    words_val (pp_crypto_hash_gost3411_sum_256 h m) = (words_val h + words_val m) mod 2 ^ 256 \<and>
    p_crypto_hash_gost3411_digest big (p_crypto_hash_gost3411_finish big c) = gost_standard msg"
  using gost_process_standard[OF assms(1,2)] sum_256_val(1)[OF assms(1,2)] assms(3)
    gost_finish_ok[OF assms(4)] gost_reference_standard[OF assms(5)] by (simp add: list_all_iff)

theorem gost_digest_standard_witness:
  "pp_crypto_hash_gost3411_process [1, 2, 3, 4, 5, 6, 7, 8] [9, 10, 11, 12, 13, 14, 15, 0xFFFFFFFF] =
     r3411_step [1, 2, 3, 4, 5, 6, 7, 8] [9, 10, 11, 12, 13, 14, 15, 0xFFFFFFFF] \<and>
   p_crypto_hash_gost3411_digest True (p_crypto_hash_gost3411_finish True
     (p_crypto_hash_gost3411_update False (p_crypto_hash_gost3411_reset \<lparr>g_buf = [], g_hash = [], g_len = [], g_sum = []\<rparr>) [97])) =
   gost_standard [97]"
proof -
  have "gost_carries_seen [97]" by (simp add: gost_carries_short)
  moreover have "gost_absorbed [97] (p_crypto_hash_gost3411_update False
      (p_crypto_hash_gost3411_reset \<lparr>g_buf = [], g_hash = [], g_len = [], g_sum = []\<rparr>) [97])"
    using gost_update_ok[OF gost_reset_ok, of "[97]"] by simp
  ultimately show ?thesis
    using gost_digest_standard[of "[1, 2, 3, 4, 5, 6, 7, 8]" "[9, 10, 11, 12, 13, 14, 15, 0xFFFFFFFF]" "[97]"] by simp
qed

text \<open>
  The 256-bit sum loses a carry when both words of a position are 0xFFFFFFFF and a carry comes in:
  the checksum of two blocks of 0xFF bytes is not their sum modulo 2 ^ 256.
\<close>

theorem gost_sum_loses_carry:
  "let block = gost_words (replicate 32 0xFF);
       s = pp_crypto_hash_gost3411_sum_256 (pp_crypto_hash_gost3411_sum_256 (replicate 8 0) block) block
   in words_val s \<noteq> (words_val block + words_val block) mod 2 ^ 256"
proof -
  have block: "gost_words (replicate 32 0xFF) = replicate 8 0xFFFFFFFF"
  proof -
    have "replicate 32 (0xFF :: byte) = concat (replicate 8 (replicate 4 0xFF))" by (simp add: numeral_eq_Suc)
    then have "groups 4 (replicate 32 (0xFF :: byte)) = replicate 8 (replicate 4 0xFF)"
      by (simp only:) (rule groups_concat, simp_all)
    moreover have "word_of False (replicate 4 0xFF) = (0xFFFFFFFF :: 32 word)" by code_simp
    ultimately show ?thesis by (simp add: gost_words_def map_replicate)
  qed
  have r: "replicate 8 (w :: 32 word) = [w, w, w, w, w, w, w, w]" for w by (simp add: numeral_eq_Suc)
  have sum: "pp_crypto_hash_gost3411_sum_256 (pp_crypto_hash_gost3411_sum_256 (replicate 8 0) (replicate 8 0xFFFFFFFF))
      (replicate 8 0xFFFFFFFF) = [0xFFFFFFFE, 0xFFFFFFFF, 0xFFFFFFFE, 0xFFFFFFFF, 0xFFFFFFFE, 0xFFFFFFFF, 0xFFFFFFFE, 0xFFFFFFFF]"
    by (simp add: pp_crypto_hash_gost3411_sum_256_def r)
  show ?thesis unfolding Let_def block sum by (simp add: r)
qed

text \<open>
  An update of 2 ^ 32 bytes leaves the byte counters of the MD5, SHA-1 and SHA-256 contexts as they
  were, so the length in the padding is not the length of the message.
\<close>

theorem length_truncated:
  assumes "length bytes = 2 ^ 32"
  shows "(len_low (p_crypto_hash_md5_update big c1 bytes) = len_low c1 \<and>
      len_high (p_crypto_hash_md5_update big c1 bytes) = len_high c1) \<and>
    (len_low (p_crypto_hash_sha1_update big c2 bytes) = len_low c2 \<and>
      len_high (p_crypto_hash_sha1_update big c2 bytes) = len_high c2) \<and>
    (len_low (p_crypto_hash_sha2_256_update big c3 bytes) = len_low c3 \<and>
      len_high (p_crypto_hash_sha2_256_update big c3 bytes) = len_high c3)"
proof -
  have "(of_nat (length bytes) :: 32 word) = 0" using assms by simp
  then show ?thesis
    by (simp add: p_crypto_hash_md5_update_def p_crypto_hash_sha1_update_def p_crypto_hash_sha2_256_update_def
        counters_block_update process_buf_def Let_def)
qed

theorem length_truncated_witness:
  "len_low (p_crypto_hash_md5_update True (p_crypto_hash_md5_reset \<lparr>buf = [], hash = [], len_high = 5, len_low = 7\<rparr>)
     (replicate (2 ^ 32) 0)) = 0"
  using length_truncated[OF length_replicate[of "2 ^ 32" 0], of True
      "p_crypto_hash_md5_reset \<lparr>buf = [], hash = [], len_high = 5, len_low = 7\<rparr>"]
  by (simp add: p_crypto_hash_md5_reset_def)

end
