(* ===== verification/PShmBuffer.thy ===== *)
theory PShmBuffer
  imports PBytes
begin

text \<open>
  The ring buffer in shared memory (\<open>pshmbuffer.c\<close>): two \<open>psize\<close> positions and the data, in one segment of
  bytes.  The segment itself (\<open>pshm-*.c\<close>) is the platform's: its address and size are fields here, and
  whether locking and unlocking succeed are parameters.  \<open>psize\<close> has 64 bits and \<open>puint\<close> 32.
\<close>

section \<open>The segment\<close>

type_synonym psize = "64 word"
type_synonym puint = "32 word"

definition P_SHM_BUFFER_READ_OFFSET :: nat where "P_SHM_BUFFER_READ_OFFSET = 0"
definition P_SHM_BUFFER_WRITE_OFFSET :: nat where "P_SHM_BUFFER_WRITE_OFFSET = 8"
definition P_SHM_BUFFER_DATA_OFFSET :: nat where "P_SHM_BUFFER_DATA_OFFSET = 8 * 2"

text \<open>\<open>memcpy\<close> of a \<open>psize\<close> from and to the segment, in the host's byte order \<open>big\<close>.\<close>

definition read_word :: "bool \<Rightarrow> byte list \<Rightarrow> nat \<Rightarrow> psize" where
  "read_word big mem off = word_of big (take 8 (drop off mem))"

definition write_word :: "bool \<Rightarrow> byte list \<Rightarrow> nat \<Rightarrow> psize \<Rightarrow> byte list" where
  "write_word big mem off w = copy_at mem off (bytes_of big w)"

text \<open>\<open>addr\<close> is what \<open>p_shm_get_address\<close> gives (NULL or the mapped bytes), \<open>shm_len\<close> what \<open>p_shm_get_size\<close> gives.\<close>

record PShmBuffer =
  addr :: "byte list option"
  shm_len :: psize
  buf_size :: psize

datatype ipc_error = P_ERROR_IPC_INVALID_ARGUMENT | P_ERROR_IPC_NO_RESOURCES | Shm_error

section \<open>The operations\<close>

definition used_of :: "psize \<Rightarrow> psize \<Rightarrow> psize \<Rightarrow> psize" where
  "used_of sz read_pos write_pos =
     (if write_pos > read_pos then write_pos - read_pos
      else if write_pos < read_pos then sz - (read_pos - write_pos)
      else 0)"

definition free_of :: "psize \<Rightarrow> psize \<Rightarrow> psize \<Rightarrow> psize" where
  "free_of sz read_pos write_pos =
     (if write_pos < read_pos then read_pos - write_pos
      else if write_pos > read_pos then sz - (write_pos - read_pos) - 1
      else sz - 1)"

text \<open>\<open>None\<close>: the address is dereferenced although it is NULL.\<close>

definition pp_shm_buffer_get_free_space :: "bool \<Rightarrow> PShmBuffer \<Rightarrow> psize option" where
  "pp_shm_buffer_get_free_space big buf =
     map_option (\<lambda>mem. free_of (buf_size buf) (read_word big mem P_SHM_BUFFER_READ_OFFSET)
       (read_word big mem P_SHM_BUFFER_WRITE_OFFSET)) (addr buf)"

definition pp_shm_buffer_get_used_space :: "bool \<Rightarrow> PShmBuffer \<Rightarrow> psize option" where
  "pp_shm_buffer_get_used_space big buf =
     map_option (\<lambda>mem. used_of (buf_size buf) (read_word big mem P_SHM_BUFFER_READ_OFFSET)
       (read_word big mem P_SHM_BUFFER_WRITE_OFFSET)) (addr buf)"

text \<open>
  \<open>shm_new\<close> is \<open>p_shm_new\<close> as a function of the requested size: the segment it opens, whose bytes may be
  those of an existing one, and its size, or its failure.
\<close>

definition p_shm_buffer_new ::
  "(psize \<Rightarrow> (byte list option \<times> psize) option) \<Rightarrow> bool \<Rightarrow> string option \<Rightarrow> psize \<Rightarrow> ipc_error + PShmBuffer" where
  "p_shm_buffer_new shm_new mem name sz =
     (case name of
        None \<Rightarrow> Inl P_ERROR_IPC_INVALID_ARGUMENT
      | Some _ \<Rightarrow>
          (case shm_new (if sz \<noteq> 0 then sz + of_nat P_SHM_BUFFER_DATA_OFFSET + 1 else 0) of
             None \<Rightarrow> Inl Shm_error
           | Some (address, len) \<Rightarrow>
               if len \<le> of_nat P_SHM_BUFFER_DATA_OFFSET + 1 then Inl P_ERROR_IPC_INVALID_ARGUMENT
               else if \<not> mem then Inl P_ERROR_IPC_NO_RESOURCES
               else Inr \<lparr>addr = address, shm_len = len, buf_size = len - of_nat P_SHM_BUFFER_DATA_OFFSET\<rparr>))"

text \<open>
  The two copying loops.  Their counter is a \<open>puint\<close> and is compared with a \<open>psize\<close>; the value \<open>None\<close> is a
  loop that does not end.
\<close>

partial_function (option) copy_out ::
  "byte list \<Rightarrow> psize \<Rightarrow> psize \<Rightarrow> psize \<Rightarrow> puint \<Rightarrow> byte list \<Rightarrow> byte list option" where
  "copy_out mem sz read_pos to_copy i storage =
     (if ucast i < to_copy
      then copy_out mem sz read_pos to_copy (i + 1)
        (storage[unat i := mem ! (P_SHM_BUFFER_DATA_OFFSET + unat ((read_pos + ucast i) mod sz))])
      else Some storage)"

partial_function (option) copy_in ::
  "psize \<Rightarrow> psize \<Rightarrow> byte list \<Rightarrow> psize \<Rightarrow> puint \<Rightarrow> byte list \<Rightarrow> byte list option" where
  "copy_in sz write_pos dat len i mem =
     (if ucast i < len
      then copy_in sz write_pos dat len (i + 1)
        (mem[P_SHM_BUFFER_DATA_OFFSET + unat ((write_pos + ucast i) mod sz) := dat ! unat i])
      else Some mem)"

text \<open>
  \<open>lk\<close> and \<open>ul\<close> say whether \<open>p_shm_lock\<close> and \<open>p_shm_unlock\<close> succeed.  The result is the returned value, or the
  error for -1, with the buffer and the caller's memory afterwards; \<open>None\<close> if the call does not return.
\<close>

definition p_shm_buffer_read ::
  "bool \<Rightarrow> bool \<Rightarrow> bool \<Rightarrow> PShmBuffer option \<Rightarrow> byte list option \<Rightarrow> psize \<Rightarrow>
   ((ipc_error + int) \<times> PShmBuffer option \<times> byte list option) option" where
  "p_shm_buffer_read big lk ul self storage len =
     (case (self, storage) of
        (Some buf, Some st) \<Rightarrow>
          if len = 0 then Some (Inl P_ERROR_IPC_INVALID_ARGUMENT, self, storage)
          else (case addr buf of
              None \<Rightarrow> Some (Inl P_ERROR_IPC_INVALID_ARGUMENT, self, storage)
            | Some mem \<Rightarrow>
                if \<not> lk then Some (Inl Shm_error, self, storage)
                else let read_pos = read_word big mem P_SHM_BUFFER_READ_OFFSET;
                         write_pos = read_word big mem P_SHM_BUFFER_WRITE_OFFSET
                  in if read_pos = write_pos
                     then Some (if \<not> ul then Inl Shm_error else Inr 0, self, storage)
                     else (case pp_shm_buffer_get_used_space big buf of
                         None \<Rightarrow> None
                       | Some data_aval \<Rightarrow>
                           let to_copy = (if data_aval \<le> len then data_aval else len)
                           in (case copy_out mem (buf_size buf) read_pos to_copy 0 st of
                               None \<Rightarrow> None
                             | Some st' \<Rightarrow>
                                 let mem' = write_word big mem P_SHM_BUFFER_READ_OFFSET ((read_pos + to_copy) mod buf_size buf)
                                 in Some (if \<not> ul then Inl Shm_error else Inr (sint (ucast to_copy :: 32 word)),
                                      Some (buf\<lparr>addr := Some mem'\<rparr>), Some st'))))
      | _ \<Rightarrow> Some (Inl P_ERROR_IPC_INVALID_ARGUMENT, self, storage))"

definition p_shm_buffer_write ::
  "bool \<Rightarrow> bool \<Rightarrow> bool \<Rightarrow> PShmBuffer option \<Rightarrow> byte list option \<Rightarrow> psize \<Rightarrow>
   ((ipc_error + int) \<times> PShmBuffer option) option" where
  "p_shm_buffer_write big lk ul self dat len =
     (case (self, dat) of
        (Some buf, Some bytes) \<Rightarrow>
          if len = 0 then Some (Inl P_ERROR_IPC_INVALID_ARGUMENT, self)
          else (case addr buf of
              None \<Rightarrow> Some (Inl P_ERROR_IPC_INVALID_ARGUMENT, self)
            | Some mem \<Rightarrow>
                if \<not> lk then Some (Inl Shm_error, self)
                else let write_pos = read_word big mem P_SHM_BUFFER_WRITE_OFFSET
                  in (case pp_shm_buffer_get_free_space big buf of
                      None \<Rightarrow> None
                    | Some space \<Rightarrow>
                        if space < len then Some (if \<not> ul then Inl Shm_error else Inr 0, self)
                        else (case copy_in (buf_size buf) write_pos bytes len 0 mem of
                            None \<Rightarrow> None
                          | Some mem1 \<Rightarrow>
                              let mem' = write_word big mem1 P_SHM_BUFFER_WRITE_OFFSET ((write_pos + len) mod buf_size buf)
                              in Some (if \<not> ul then Inl Shm_error else Inr (sint len),
                                   Some (buf\<lparr>addr := Some mem'\<rparr>)))))
      | _ \<Rightarrow> Some (Inl P_ERROR_IPC_INVALID_ARGUMENT, self))"

definition p_shm_buffer_get_free_space :: "bool \<Rightarrow> bool \<Rightarrow> bool \<Rightarrow> PShmBuffer option \<Rightarrow> (ipc_error + int) option" where
  "p_shm_buffer_get_free_space big lk ul self =
     (case self of
        None \<Rightarrow> Some (Inl P_ERROR_IPC_INVALID_ARGUMENT)
      | Some buf \<Rightarrow>
          if \<not> lk then Some (Inl Shm_error)
          else map_option (\<lambda>space. if \<not> ul then Inl Shm_error else Inr (sint space)) (pp_shm_buffer_get_free_space big buf))"

definition p_shm_buffer_get_used_space :: "bool \<Rightarrow> bool \<Rightarrow> bool \<Rightarrow> PShmBuffer option \<Rightarrow> (ipc_error + int) option" where
  "p_shm_buffer_get_used_space big lk ul self =
     (case self of
        None \<Rightarrow> Some (Inl P_ERROR_IPC_INVALID_ARGUMENT)
      | Some buf \<Rightarrow>
          if \<not> lk then Some (Inl Shm_error)
          else map_option (\<lambda>space. if \<not> ul then Inl Shm_error else Inr (sint space)) (pp_shm_buffer_get_used_space big buf))"

definition p_shm_buffer_clear :: "bool \<Rightarrow> PShmBuffer option \<Rightarrow> PShmBuffer option" where
  "p_shm_buffer_clear lk self =
     (case self of
        None \<Rightarrow> None
      | Some buf \<Rightarrow>
          (case addr buf of
             None \<Rightarrow> self
           | Some mem \<Rightarrow>
               if \<not> lk then self
               else Some (buf\<lparr>addr := Some (copy_at mem 0 (replicate (unat (shm_len buf)) 0))\<rparr>)))"

end
