(* ===== verification/PShmProps.thy ===== *)
theory PShmProps
  imports PShmBuffer
begin

text \<open>
  The shared ring buffer is a bounded first-in-first-out queue of bytes: the invariant of the segment,
  the queue it stands for, what each operation does to that queue, and when a call does not return.
\<close>

section \<open>The two positions\<close>

text \<open>Bytes in use, in natural numbers.\<close>

definition ring_used :: "nat \<Rightarrow> nat \<Rightarrow> nat \<Rightarrow> nat" where
  "ring_used S r w = (if r \<le> w then w - r else S - (r - w))"

lemma ring_used_less: "r < S \<Longrightarrow> w < S \<Longrightarrow> ring_used S r w < S"
  by (auto simp: ring_used_def)

lemma ring_used_end: "r < S \<Longrightarrow> w < S \<Longrightarrow> (r + ring_used S r w) mod S = w"
  by (auto simp: ring_used_def)

lemma ring_used_push: "r < S \<Longrightarrow> w < S \<Longrightarrow> ring_used S r w + n < S \<Longrightarrow>
  ring_used S r ((w + n) mod S) = ring_used S r w + n"
  by (cases "w + n < S") (auto simp: ring_used_def le_mod_geq)

lemma ring_used_pop: "r < S \<Longrightarrow> w < S \<Longrightarrow> n \<le> ring_used S r w \<Longrightarrow>
  ring_used S ((r + n) mod S) w = ring_used S r w - n"
  by (cases "r + n < S") (auto simp: ring_used_def le_mod_geq split: if_splits)

lemma used_of_nat:
  "rp < sz \<Longrightarrow> wp < sz \<Longrightarrow> unat (used_of sz rp wp) = ring_used (unat sz) (unat rp) (unat wp)"
  by (auto simp: used_of_def ring_used_def word_less_nat_alt word_le_nat_alt unat_sub_if')

lemma free_of_nat:
  "rp < sz \<Longrightarrow> wp < sz \<Longrightarrow> unat (free_of sz rp wp) =
    (if wp < rp then unat sz - ring_used (unat sz) (unat rp) (unat wp)
     else unat sz - 1 - ring_used (unat sz) (unat rp) (unat wp))"
  by (auto simp: free_of_def ring_used_def word_less_nat_alt word_le_nat_alt unat_sub_if' unat_eq_0)

lemma mod_inj:
  assumes "i < S" "j < S" "(w + i) mod S = (w + j) mod S"
  shows "i = (j :: nat)"
proof -
  have "i = j" if "i \<le> j" "i < S" "j < S" "(w + i) mod S = (w + j) mod S" for i j :: nat
  proof -
    from that(4) have "(w + j) mod S = (w + i) mod S" by simp
    then have "S dvd (w + j) - (w + i)" using that(1) mod_eq_dvd_iff_nat[of "w + i" "w + j" S] by simp
    then have "S dvd j - i" by simp
    moreover have "j - i < S" using that(3) by simp
    ultimately have "j - i = 0" using nat_dvd_not_less[of "j - i" S] by blast
    then show ?thesis using that(1) by simp
  qed
  from this[of i j] this[of j i] show ?thesis using assms by (cases "i \<le> j") auto
qed

section \<open>The words in the segment\<close>

lemma length_write_word: "off + 8 \<le> length mem \<Longrightarrow> length (write_word big mem off w) = length mem"
  by (simp add: write_word_def copy_at_def)

lemma read_write_word:
  assumes "off + 8 \<le> length mem"
  shows "read_word big (write_word big mem off w) off = w"
  using assms by (simp add: read_word_def write_word_def copy_at_def word_of_bytes_of)

lemma read_write_other:
  assumes "off + 8 \<le> length mem" "off' + 8 \<le> off \<or> off + 8 \<le> off'"
  shows "read_word big (write_word big mem off w) off' = read_word big mem off'"
proof -
  have "take 8 (drop off' (write_word big mem off w)) = take 8 (drop off' mem)"
    using assms by (intro nth_equalityI) (auto simp: write_word_def copy_at_def nth_append)
  then show ?thesis by (simp add: read_word_def)
qed

lemma write_word_data: "off + 8 \<le> 16 \<Longrightarrow> 16 \<le> length mem \<Longrightarrow> write_word big mem off w ! (16 + k) = mem ! (16 + k)"
  by (auto simp: write_word_def copy_at_def nth_append)

section \<open>The loops\<close>

lemma puint_less: "n < 2 ^ 32 \<Longrightarrow> k < 2 ^ 32 \<Longrightarrow> (ucast (of_nat k :: puint) :: psize) < of_nat n \<longleftrightarrow> k < n"
  by (simp add: word_less_nat_alt unsigned_ucast_eq unsigned_of_nat take_bit_nat_eq_self)

lemma position_nat:
  fixes rp sz :: psize
  assumes "rp < sz" "unat sz < 2 ^ 63" "k < unat sz" "k < 2 ^ 32"
  shows "unat ((rp + ucast (of_nat k :: puint)) mod sz) = (unat rp + k) mod unat sz"
proof -
  have u: "unat (ucast (of_nat k :: puint) :: psize) = k"
    using assms(4) by (simp add: unsigned_ucast_eq unsigned_of_nat take_bit_nat_eq_self)
  have "unat rp + k < 2 ^ LENGTH(64)" using assms by (simp add: word_less_nat_alt)
  then have "unat (rp + ucast (of_nat k :: puint)) = unat rp + k"
    using unat_plus_if'[of rp "ucast (of_nat k :: puint)"] by (simp only: u if_True)
  then show ?thesis by (simp only: unat_mod)
qed

text \<open>The loops for fewer than 2 ^ 32 bytes, from the byte \<open>k\<close> on.\<close>

lemma of_nat_Suc_puint: "(of_nat k :: puint) + 1 = of_nat (Suc k)"
  by simp

lemma unat_puint: "k < 2 ^ 32 \<Longrightarrow> unat (of_nat k :: puint) = k"
  by (simp add: unsigned_of_nat take_bit_nat_eq_self)

lemma copy_out_value:
  assumes "k \<le> n" "n < 2 ^ 32" "n \<le> unat sz" "rp < sz" "unat sz < 2 ^ 63" "n \<le> length st"
  shows "copy_out mem sz rp (of_nat n) (of_nat k) st =
    Some (take k st @ map (\<lambda>i. mem ! (16 + (unat rp + i) mod unat sz)) [k..<n] @ drop n st)"
  using assms(1,6)
proof (induction "n - k" arbitrary: k st)
  case 0
  then have "k = n" by simp
  moreover have "copy_out mem sz rp (of_nat n) (of_nat n) st = Some st"
    using assms(2) puint_less[of n n] by (subst copy_out.simps) simp
  ultimately show ?case by simp
next
  case (Suc d)
  then have kn: "k < n" by simp
  let ?b = "mem ! (16 + (unat rp + k) mod unat sz)"
  have "copy_out mem sz rp (of_nat n) (of_nat k) st = copy_out mem sz rp (of_nat n) (of_nat (Suc k)) (st[k := ?b])"
    using kn assms puint_less[of n k] position_nat[of rp sz k]
    by (subst copy_out.simps) (simp add: of_nat_Suc_puint unat_puint P_SHM_BUFFER_DATA_OFFSET_def del: of_nat_Suc)
  also have "\<dots> = Some (take (Suc k) (st[k := ?b]) @ map (\<lambda>i. mem ! (16 + (unat rp + i) mod unat sz)) [Suc k..<n] @ drop n (st[k := ?b]))"
    using Suc kn by (intro Suc.hyps(1)) simp_all
  also have "take (Suc k) (st[k := ?b]) = take k st @ [?b]"
    using kn Suc.prems by (simp add: take_Suc_conv_app_nth)
  finally show ?case using kn by (simp add: upt_conv_Cons)
qed

lemma copy_in_value:
  assumes "k \<le> n" "n < 2 ^ 32" "n \<le> unat sz" "wp < sz" "unat sz < 2 ^ 63" "length mem = 16 + unat sz"
  shows "\<exists>mem'. copy_in sz wp dat (of_nat n) (of_nat k) mem = Some mem' \<and> length mem' = length mem \<and>
    take 16 mem' = take 16 mem \<and>
    (\<forall>i < unat sz. mem' ! (16 + (unat wp + i) mod unat sz) =
      (if k \<le> i \<and> i < n then dat ! i else mem ! (16 + (unat wp + i) mod unat sz)))"
  using assms(1,6)
proof (induction "n - k" arbitrary: k mem)
  case 0
  then have "k = n" by simp
  moreover have "copy_in sz wp dat (of_nat n) (of_nat n) mem = Some mem"
    using assms(2) puint_less[of n n] by (subst copy_in.simps) simp
  ultimately show ?case by auto
next
  case (Suc d)
  then have kn: "k < n" and d: "d = n - Suc k" by simp_all
  let ?p = "16 + (unat wp + k) mod unat sz"
  let ?m = "mem[?p := dat ! k]"
  have "copy_in sz wp dat (of_nat n) (of_nat k) mem = copy_in sz wp dat (of_nat n) (of_nat (Suc k)) ?m"
    using kn assms puint_less[of n k] position_nat[of wp sz k]
    by (subst copy_in.simps) (simp add: of_nat_Suc_puint unat_puint P_SHM_BUFFER_DATA_OFFSET_def del: of_nat_Suc)
  moreover obtain mem' where "copy_in sz wp dat (of_nat n) (of_nat (Suc k)) ?m = Some mem'"
    and len: "length mem' = length ?m" and hd: "take 16 mem' = take 16 ?m"
    and val: "\<forall>i < unat sz. mem' ! (16 + (unat wp + i) mod unat sz) =
      (if Suc k \<le> i \<and> i < n then dat ! i else ?m ! (16 + (unat wp + i) mod unat sz))"
    using Suc.hyps(1)[of "Suc k" ?m] d Suc.prems kn by (auto simp del: of_nat_Suc)
  moreover have "?m ! (16 + (unat wp + i) mod unat sz) = (if i = k then dat ! k else mem ! (16 + (unat wp + i) mod unat sz))"
    if "i < unat sz" for i
    using that kn assms(3) Suc.prems(2) mod_inj[of i "unat sz" k "unat wp"] by (auto simp: nth_list_update)
  moreover have "take 16 ?m = take 16 mem" by simp
  ultimately show ?case using kn by (intro exI[of _ mem']) auto
qed

section \<open>Invariant and contents\<close>

definition segment :: "PShmBuffer \<Rightarrow> byte list" where
  "segment buf = (case addr buf of None \<Rightarrow> [] | Some mem \<Rightarrow> mem)"

definition read_at :: "bool \<Rightarrow> PShmBuffer \<Rightarrow> psize" where
  "read_at big buf = read_word big (segment buf) P_SHM_BUFFER_READ_OFFSET"

definition write_at :: "bool \<Rightarrow> PShmBuffer \<Rightarrow> psize" where
  "write_at big buf = read_word big (segment buf) P_SHM_BUFFER_WRITE_OFFSET"

definition shm_ok :: "bool \<Rightarrow> PShmBuffer \<Rightarrow> bool" where
  "shm_ok big buf \<longleftrightarrow>
     addr buf \<noteq> None \<and> length (segment buf) = 16 + unat (buf_size buf) \<and> unat (shm_len buf) = 16 + unat (buf_size buf) \<and>
     2 \<le> unat (buf_size buf) \<and> unat (buf_size buf) \<le> 2 ^ 31 \<and>
     read_at big buf < buf_size buf \<and> write_at big buf < buf_size buf"

definition shm_contents :: "bool \<Rightarrow> PShmBuffer \<Rightarrow> byte list" where
  "shm_contents big buf =
     (let S = unat (buf_size buf); r = unat (read_at big buf); w = unat (write_at big buf)
      in map (\<lambda>i. segment buf ! (16 + (r + i) mod S)) [0..<ring_used S r w])"

lemma segment_update [simp]: "segment (buf\<lparr>addr := Some mem\<rparr>) = mem"
  by (simp add: segment_def)

text \<open>What the invariant says of one buffer, for the proofs of the operations.\<close>

lemma shm_okE:
  assumes "shm_ok big buf"
  obtains mem where "addr buf = Some mem" "segment buf = mem" "length mem = 16 + unat (buf_size buf)"
    "2 \<le> unat (buf_size buf)" "unat (buf_size buf) \<le> 2 ^ 31" "read_word big mem 0 = read_at big buf"
    "read_word big mem 8 = write_at big buf" "read_at big buf < buf_size buf" "write_at big buf < buf_size buf"
    "unat (read_at big buf) < unat (buf_size buf)" "unat (write_at big buf) < unat (buf_size buf)"
  using assms that
  by (auto simp: shm_ok_def segment_def read_at_def write_at_def word_less_nat_alt P_SHM_BUFFER_READ_OFFSET_def
      P_SHM_BUFFER_WRITE_OFFSET_def)

lemma length_shm_contents:
  "length (shm_contents big buf) = ring_used (unat (buf_size buf)) (unat (read_at big buf)) (unat (write_at big buf))"
  by (simp add: shm_contents_def Let_def)

lemma shm_contents_bound: "shm_ok big buf \<Longrightarrow> length (shm_contents big buf) < unat (buf_size buf)"
  by (erule shm_okE) (simp add: length_shm_contents ring_used_less)

lemma used_space_ok:
  "shm_ok big buf \<Longrightarrow> \<exists>u. pp_shm_buffer_get_used_space big buf = Some u \<and> unat u = length (shm_contents big buf)"
  by (erule shm_okE) (simp add: pp_shm_buffer_get_used_space_def length_shm_contents used_of_nat
      P_SHM_BUFFER_READ_OFFSET_def P_SHM_BUFFER_WRITE_OFFSET_def)

lemma free_space_ok:
  "shm_ok big buf \<Longrightarrow> \<exists>u. pp_shm_buffer_get_free_space big buf = Some u \<and>
     unat u = (if write_at big buf < read_at big buf then unat (buf_size buf) - length (shm_contents big buf)
               else unat (buf_size buf) - 1 - length (shm_contents big buf))"
  by (erule shm_okE) (simp add: pp_shm_buffer_get_free_space_def length_shm_contents free_of_nat
      P_SHM_BUFFER_READ_OFFSET_def P_SHM_BUFFER_WRITE_OFFSET_def)

lemma advance_nat:
  fixes p sz :: psize
  assumes "p < sz" "unat sz \<le> 2 ^ 31" "n \<le> unat sz"
  shows "unat ((p + of_nat n) mod sz) = (unat p + n) mod unat sz" "(p + of_nat n) mod sz < sz"
proof -
  have n: "unat (of_nat n :: psize) = n" using assms by (simp add: unsigned_of_nat take_bit_nat_eq_self)
  have "unat p + n < 2 ^ LENGTH(64)" using assms by (simp add: word_less_nat_alt)
  then have "unat (p + of_nat n) = unat p + n"
    using unat_plus_if'[of p "of_nat n"] by (simp only: n if_True)
  then show a: "unat ((p + of_nat n) mod sz) = (unat p + n) mod unat sz" by (simp only: unat_mod)
  show "(p + of_nat n) mod sz < sz" unfolding word_less_nat_alt a using assms(1) by (simp add: word_less_nat_alt)
qed

lemma read_result: "n < 2 ^ 31 \<Longrightarrow> sint (ucast (of_nat n :: psize) :: 32 word) = int n"
proof -
  assume n: "n < 2 ^ 31"
  have "(ucast (of_nat n :: psize) :: 32 word) = of_nat n"
    by (rule unsigned_word_eqI) (simp add: unsigned_ucast_eq unsigned_of_nat take_bit_take_bit)
  moreover have "sint (of_nat n :: 32 word) = int n"
    using n by (simp add: signed_of_nat signed_take_bit_int_eq_self)
  ultimately show ?thesis by simp
qed

lemma read_ok:
  assumes ok: "shm_ok big buf" and n: "0 < n" "n < 2 ^ 64" "n \<le> length st"
  defines "q \<equiv> shm_contents big buf" and "m \<equiv> min n (length (shm_contents big buf))"
  shows "\<exists>buf'. p_shm_buffer_read big True True (Some buf) (Some st) (of_nat n) =
      Some (Inr (int m), Some buf', Some (take m q @ drop m st)) \<and>
    shm_ok big buf' \<and> buf_size buf' = buf_size buf \<and> shm_contents big buf' = drop m q"
proof -
  obtain mem where mem: "addr buf = Some mem" "segment buf = mem" "length mem = 16 + unat (buf_size buf)"
    "2 \<le> unat (buf_size buf)" "unat (buf_size buf) \<le> 2 ^ 31" "read_word big mem 0 = read_at big buf"
    "read_word big mem 8 = write_at big buf" "read_at big buf < buf_size buf" "write_at big buf < buf_size buf"
    "unat (read_at big buf) < unat (buf_size buf)" "unat (write_at big buf) < unat (buf_size buf)"
    by (rule shm_okE[OF ok])
  let ?S = "unat (buf_size buf)" and ?r = "read_at big buf" and ?w = "write_at big buf"
  have un: "unat (of_nat n :: psize) = n" using n by (simp add: unsigned_of_nat take_bit_nat_eq_self)
  then have nz: "(of_nat n :: psize) \<noteq> 0" using n(1) by (metis unat_0 less_irrefl)
  obtain u where u: "pp_shm_buffer_get_used_space big buf = Some u" "unat u = length q"
    using used_space_ok[OF ok] q_def by blast
  have uq: "u = of_nat (length q)" using u(2) by (metis of_nat_unat ucast_id)
  show ?thesis
  proof (cases "?r = ?w")
    case True
    then have "q = []" by (simp add: q_def shm_contents_def ring_used_def)
    then show ?thesis using True mem ok nz
      by (simp add: p_shm_buffer_read_def Let_def P_SHM_BUFFER_READ_OFFSET_def P_SHM_BUFFER_WRITE_OFFSET_def m_def q_def)
  next
    case False
    have mq: "m < ?S" "m \<le> length q" "m \<le> n" using shm_contents_bound[OF ok] by (simp_all add: m_def q_def)
    have m: "(if u \<le> of_nat n then u else of_nat n) = of_nat m"
      using u(2) un by (auto simp: word_le_nat_alt m_def uq q_def)
    have f: "take m q = map (\<lambda>i. mem ! (16 + (unat ?r + i) mod ?S)) [0..<m]"
      using mq(2) by (simp add: q_def shm_contents_def Let_def take_map mem(2))
    have loop: "copy_out mem (buf_size buf) ?r (of_nat m) 0 st = Some (take m q @ drop m st)"
      using copy_out_value[of 0 m "buf_size buf" ?r st mem] mq mem n by (simp add: f)
    let ?mem = "write_word big mem 0 ((?r + of_nat m) mod buf_size buf)"
    let ?buf = "buf\<lparr>addr := Some ?mem\<rparr>"
    have call: "p_shm_buffer_read big True True (Some buf) (Some st) (of_nat n) =
        Some (Inr (int m), Some ?buf, Some (take m q @ drop m st))"
      using False mem mq nz u loop m read_result[of m]
      by (simp add: p_shm_buffer_read_def Let_def P_SHM_BUFFER_READ_OFFSET_def P_SHM_BUFFER_WRITE_OFFSET_def)
    note adv = advance_nat[OF mem(8,5) less_imp_le[OF mq(1)]]
    have pos: "read_at big ?buf = (?r + of_nat m) mod buf_size buf" "write_at big ?buf = ?w"
      using mem read_write_word[of 0 mem] read_write_other[of 0 mem 8]
      by (simp_all add: read_at_def write_at_def P_SHM_BUFFER_READ_OFFSET_def P_SHM_BUFFER_WRITE_OFFSET_def)
    have len: "length ?mem = length mem" using mem by (simp add: length_write_word)
    have "shm_ok big ?buf"
      using ok mem pos adv len by (auto simp: shm_ok_def)
    moreover have "ring_used ?S (unat (read_at big ?buf)) (unat ?w) = length q - m"
      unfolding pos adv(1) using mem mq(2) by (subst ring_used_pop) (simp_all add: q_def length_shm_contents)
    then have "shm_contents big ?buf = drop m q"
      unfolding shm_contents_def Let_def pos(2) q_def
      using mem(2,3) mq(2) adv(1)
      by (intro nth_equalityI)
        (simp_all add: pos(1) write_word_data length_shm_contents q_def mod_add_left_eq add.assoc less_diff_conv
          flip: shm_contents_def)
    ultimately show ?thesis using call by (intro exI[of _ ?buf]) simp
  qed
qed

lemma write_result: "n < 2 ^ 32 \<Longrightarrow> sint (of_nat n :: psize) = int n"
  by (simp add: signed_of_nat signed_take_bit_int_eq_self)

text \<open>
  A write that leaves one byte free appends; a larger one is refused, unless it fills the ring exactly
  while the write position is behind the read position: then the positions meet and the ring is empty.
\<close>

lemma write_ok:
  assumes ok: "shm_ok big buf" and n: "0 < length bs" "length bs < 2 ^ 32"
  defines "q \<equiv> shm_contents big buf" and "S \<equiv> unat (buf_size buf)"
  shows "length q + length bs < S \<Longrightarrow>
      \<exists>buf'. p_shm_buffer_write big True True (Some buf) (Some bs) (of_nat (length bs)) =
        Some (Inr (int (length bs)), Some buf') \<and>
      shm_ok big buf' \<and> buf_size buf' = buf_size buf \<and> shm_contents big buf' = q @ bs"
    and "S < length q + length bs \<or> length q + length bs = S \<and> \<not> write_at big buf < read_at big buf \<Longrightarrow>
      p_shm_buffer_write big True True (Some buf) (Some bs) (of_nat (length bs)) = Some (Inr 0, Some buf)"
    and "length q + length bs = S \<Longrightarrow> write_at big buf < read_at big buf \<Longrightarrow>
      \<exists>buf'. p_shm_buffer_write big True True (Some buf) (Some bs) (of_nat (length bs)) =
        Some (Inr (int (length bs)), Some buf') \<and>
      shm_ok big buf' \<and> buf_size buf' = buf_size buf \<and> shm_contents big buf' = []"
proof -
  obtain mem where mem: "addr buf = Some mem" "segment buf = mem" "length mem = 16 + S"
    "2 \<le> S" "S \<le> 2 ^ 31" "read_word big mem 0 = read_at big buf"
    "read_word big mem 8 = write_at big buf" "read_at big buf < buf_size buf" "write_at big buf < buf_size buf"
    "unat (read_at big buf) < S" "unat (write_at big buf) < S"
    unfolding S_def by (rule shm_okE[OF ok])
  let ?n = "length bs" and ?r = "read_at big buf" and ?w = "write_at big buf"
  have un: "unat (of_nat ?n :: psize) = ?n" using n by (simp add: unsigned_of_nat take_bit_nat_eq_self)
  then have nz: "(of_nat ?n :: psize) \<noteq> 0" using n(1) by (metis unat_0 less_irrefl)
  obtain u where u: "pp_shm_buffer_get_free_space big buf = Some u"
    "unat u = (if ?w < ?r then S - length q else S - 1 - length q)"
    using free_space_ok[OF ok] q_def S_def by blast
  have qS: "length q < S" using shm_contents_bound[OF ok] by (simp add: q_def S_def)
  have cmp: "u < of_nat ?n \<longleftrightarrow> (if ?w < ?r then S < length q + ?n else S \<le> length q + ?n)"
    unfolding word_less_nat_alt un u(2) using qS by auto
  have refused: "p_shm_buffer_write big True True (Some buf) (Some bs) (of_nat ?n) = Some (Inr 0, Some buf)" if "u < of_nat ?n"
    using that mem nz u(1) by (simp add: p_shm_buffer_write_def Let_def)
  then show "S < length q + length bs \<or> length q + length bs = S \<and> \<not> ?w < ?r \<Longrightarrow>
      p_shm_buffer_write big True True (Some buf) (Some bs) (of_nat (length bs)) = Some (Inr 0, Some buf)"
    using cmp by (auto split: if_splits)
  have accepted: "\<exists>buf'. p_shm_buffer_write big True True (Some buf) (Some bs) (of_nat ?n) =
        Some (Inr (int ?n), Some buf') \<and> shm_ok big buf' \<and> buf_size buf' = buf_size buf \<and>
        unat (read_at big buf') = unat ?r \<and> unat (write_at big buf') = (unat ?w + ?n) mod S \<and>
        (\<forall>i < S. segment buf' ! (16 + (unat ?w + i) mod S) = (if i < ?n then bs ! i else mem ! (16 + (unat ?w + i) mod S)))"
    if fits: "\<not> u < of_nat ?n" "length q + ?n \<le> S"
  proof -
    have "?n \<le> S" using fits(2) by simp
    obtain mem1 where mem1: "copy_in (buf_size buf) ?w bs (of_nat ?n) 0 mem = Some mem1" "length mem1 = 16 + S"
      "take 16 mem1 = take 16 mem"
      "\<forall>i < S. mem1 ! (16 + (unat ?w + i) mod S) = (if i < ?n then bs ! i else mem ! (16 + (unat ?w + i) mod S))"
      using copy_in_value[of 0 ?n "buf_size buf" ?w mem bs] mem n(2) \<open>?n \<le> S\<close> by (auto simp: S_def)
    let ?mem = "write_word big mem1 8 ((?w + of_nat ?n) mod buf_size buf)"
    let ?buf = "buf\<lparr>addr := Some ?mem\<rparr>"
    have "read_word big mem1 0 = read_word big (take 16 mem1) 0" by (simp add: read_word_def)
    also have "\<dots> = ?r" unfolding mem1(3) mem(6)[symmetric] by (simp add: read_word_def)
    finally have rd: "read_word big mem1 0 = ?r" .
    have call: "p_shm_buffer_write big True True (Some buf) (Some bs) (of_nat ?n) = Some (Inr (int ?n), Some ?buf)"
      using fits mem mem1(1) nz u(1) write_result[OF n(2)]
      by (simp add: p_shm_buffer_write_def Let_def P_SHM_BUFFER_READ_OFFSET_def P_SHM_BUFFER_WRITE_OFFSET_def)
    have pos: "read_at big ?buf = ?r" "write_at big ?buf = (?w + of_nat ?n) mod buf_size buf"
      using mem1(2) read_write_word[of 8 mem1] read_write_other[of 8 mem1 0] rd
      by (simp_all add: read_at_def write_at_def P_SHM_BUFFER_READ_OFFSET_def P_SHM_BUFFER_WRITE_OFFSET_def)
    have len: "length ?mem = 16 + S" using mem1(2) by (simp add: length_write_word)
    have data: "?mem ! (16 + k) = mem1 ! (16 + k)" for k using mem1(2) by (intro write_word_data) simp_all
    have adv: "unat ((?w + of_nat ?n) mod buf_size buf) = (unat ?w + ?n) mod S \<and>
        (?w + of_nat ?n) mod buf_size buf < buf_size buf"
      using advance_nat[OF mem(9), of ?n] mem(5) \<open>?n \<le> S\<close> by (simp add: S_def)
    show ?thesis using call ok pos adv len mem mem1(4) data
      by (intro exI[of _ ?buf]) (auto simp: shm_ok_def S_def)
  qed
  have size: "unat (buf_size b) = S" if "buf_size b = buf_size buf" for b using that by (simp add: S_def)
  show "\<exists>buf'. p_shm_buffer_write big True True (Some buf) (Some bs) (of_nat (length bs)) =
        Some (Inr (int (length bs)), Some buf') \<and>
      shm_ok big buf' \<and> buf_size buf' = buf_size buf \<and> shm_contents big buf' = []"
    if full: "length q + ?n = S" "?w < ?r"
  proof -
    have acc: "\<not> u < of_nat ?n" using cmp full by simp
    obtain buf' where buf': "p_shm_buffer_write big True True (Some buf) (Some bs) (of_nat ?n) =
        Some (Inr (int ?n), Some buf')" "shm_ok big buf'" "buf_size buf' = buf_size buf"
        "unat (read_at big buf') = unat ?r" "unat (write_at big buf') = (unat ?w + ?n) mod S"
      using accepted[OF acc] full(1) by auto
    have "?n = unat ?r - unat ?w" "unat ?w < unat ?r"
      using full mem(10) by (auto simp: q_def length_shm_contents ring_used_def S_def word_less_nat_alt)
    then have "unat (write_at big buf') = unat ?r" using buf'(5) mem(10) by simp
    then have "shm_contents big buf' = []" using buf'(4) by (simp add: shm_contents_def ring_used_def)
    then show ?thesis using buf' by blast
  qed
  show "\<exists>buf'. p_shm_buffer_write big True True (Some buf) (Some bs) (of_nat (length bs)) =
        Some (Inr (int (length bs)), Some buf') \<and>
      shm_ok big buf' \<and> buf_size buf' = buf_size buf \<and> shm_contents big buf' = q @ bs"
    if fits: "length q + ?n < S"
  proof -
    have acc: "\<not> u < of_nat ?n" using cmp fits by simp
    obtain buf' where buf': "p_shm_buffer_write big True True (Some buf) (Some bs) (of_nat ?n) =
        Some (Inr (int ?n), Some buf')" "shm_ok big buf'" "buf_size buf' = buf_size buf"
        "unat (read_at big buf') = unat ?r" "unat (write_at big buf') = (unat ?w + ?n) mod S"
        "\<forall>i < S. segment buf' ! (16 + (unat ?w + i) mod S) = (if i < ?n then bs ! i else mem ! (16 + (unat ?w + i) mod S))"
      using accepted[OF acc less_imp_le[OF fits]] by blast
    let ?u = "ring_used S (unat ?r) (unat ?w)"
    have lq: "length q = ?u" by (simp add: q_def S_def length_shm_contents)
    have used: "ring_used S (unat ?r) ((unat ?w + ?n) mod S) = ?u + ?n"
      using fits mem(10,11) by (intro ring_used_push) (simp_all add: lq)
    have e: "(unat ?r + ?u) mod S = unat ?w" using mem(10,11) by (rule ring_used_end)
    have "segment buf' ! (16 + (unat ?r + i) mod S) = (q @ bs) ! i" if i: "i < ?u + ?n" for i
    proof (cases "i < ?u")
      case True
      let ?j = "S - ?u + i"
      have "?j < S" using True ring_used_less[OF mem(10,11)] by simp
      moreover have "(unat ?w + ?j) mod S = (unat ?r + i) mod S"
      proof -
        have "(unat ?w + ?j) mod S = ((unat ?r + ?u) mod S + ?j) mod S" by (simp only: e)
        also have "\<dots> = (unat ?r + ?u + ?j) mod S" by (rule mod_add_left_eq)
        also have "unat ?r + ?u + ?j = unat ?r + i + S" using ring_used_less[OF mem(10,11)] by simp
        finally show ?thesis by simp
      qed
      moreover have "\<not> ?j < ?n" using fits lq by simp
      ultimately have "segment buf' ! (16 + (unat ?r + i) mod S) = mem ! (16 + (unat ?r + i) mod S)"
        using buf'(6) by metis
      then show ?thesis using True by (simp add: nth_append lq) (simp add: q_def shm_contents_def Let_def mem(2) S_def[symmetric])
    next
      case False
      then obtain k where k: "i = ?u + k" using le_Suc_ex by (metis not_less)
      have "(unat ?r + i) mod S = ((unat ?r + ?u) mod S + k) mod S" by (simp add: k mod_add_left_eq add.assoc)
      also have "\<dots> = (unat ?w + k) mod S" by (simp only: e)
      finally have "(unat ?r + i) mod S = (unat ?w + k) mod S" .
      moreover have "k < S" "k < ?n" using i k fits by simp_all
      ultimately show ?thesis using buf'(6) by (simp add: nth_append lq k)
    qed
    then have "shm_contents big buf' = q @ bs"
      by (intro nth_equalityI) (simp_all add: shm_contents_def Let_def size[OF buf'(3)] buf'(4,5) used lq)
    then show ?thesis using buf' by blast
  qed
qed

lemma word_of_zeros: "word_of big (replicate n 0) = 0"
proof -
  have "word_le (replicate n 0) = 0" by (induction n) simp_all
  then show ?thesis by (simp add: word_of_def)
qed

lemma zero_segment_ok:
  assumes "addr buf = Some (replicate k 0)" "k = 16 + unat (buf_size buf)" "unat (shm_len buf) = k"
    "2 \<le> unat (buf_size buf)" "unat (buf_size buf) \<le> 2 ^ 31"
  shows "shm_ok big buf" "shm_contents big buf = []"
proof -
  have seg: "segment buf = replicate k 0" using assms(1) by (simp add: segment_def)
  have pos: "read_at big buf = 0" "write_at big buf = 0"
    using assms(2) by (simp_all add: read_at_def write_at_def seg read_word_def word_of_zeros
        P_SHM_BUFFER_READ_OFFSET_def P_SHM_BUFFER_WRITE_OFFSET_def min_def)
  moreover have "0 < buf_size buf" using assms(4) by (simp add: word_less_nat_alt)
  ultimately show "shm_ok big buf" using assms by (simp add: shm_ok_def seg)
  show "shm_contents big buf = []" by (simp add: shm_contents_def pos ring_used_def)
qed

lemma clear_ok:
  assumes "shm_ok big buf"
  shows "\<exists>buf'. p_shm_buffer_clear True (Some buf) = Some buf' \<and> shm_ok big buf' \<and>
    buf_size buf' = buf_size buf \<and> shm_contents big buf' = []"
proof -
  obtain mem where mem: "addr buf = Some mem" "length mem = 16 + unat (buf_size buf)"
    "2 \<le> unat (buf_size buf)" "unat (buf_size buf) \<le> 2 ^ 31" "unat (shm_len buf) = length mem"
    using assms by (auto simp: shm_ok_def segment_def)
  let ?buf = "buf\<lparr>addr := Some (replicate (length mem) 0)\<rparr>"
  have "p_shm_buffer_clear True (Some buf) = Some ?buf"
    using mem by (simp add: p_shm_buffer_clear_def copy_at_def)
  then show ?thesis using zero_segment_ok[of ?buf "length mem" big] mem by auto
qed

section \<open>Programs\<close>

datatype shm_op = Write "byte list" | Read nat | Used | Clear

datatype shm_out = Count "ipc_error + int" | Got "ipc_error + int" "byte list" | Cleared

text \<open>\<open>None\<close>: a call that does not return, or a NULL result.\<close>

fun shm_run :: "bool \<Rightarrow> PShmBuffer \<Rightarrow> shm_op list \<Rightarrow> shm_out list option" where
  "shm_run big buf [] = Some []"
| "shm_run big buf (Write bs # ps) =
     (case p_shm_buffer_write big True True (Some buf) (Some bs) (of_nat (length bs)) of
        Some (r, Some buf') \<Rightarrow> map_option (\<lambda>out. Count r # out) (shm_run big buf' ps)
      | _ \<Rightarrow> None)"
| "shm_run big buf (Read n # ps) =
     (case p_shm_buffer_read big True True (Some buf) (Some (replicate n 0)) (of_nat n) of
        Some (r, Some buf', Some st) \<Rightarrow> map_option (\<lambda>out. Got r st # out) (shm_run big buf' ps)
      | _ \<Rightarrow> None)"
| "shm_run big buf (Used # ps) =
     (case p_shm_buffer_get_used_space big True True (Some buf) of
        Some r \<Rightarrow> map_option (\<lambda>out. Count r # out) (shm_run big buf ps)
      | _ \<Rightarrow> None)"
| "shm_run big buf (Clear # ps) =
     (case p_shm_buffer_clear True (Some buf) of
        Some buf' \<Rightarrow> map_option (\<lambda>out. Cleared # out) (shm_run big buf' ps)
      | _ \<Rightarrow> None)"

text \<open>The queue of bytes with room for \<open>cap\<close>: a write is taken whole or not at all.\<close>

fun fifo_run :: "nat \<Rightarrow> byte list \<Rightarrow> shm_op list \<Rightarrow> shm_out list" where
  "fifo_run cap q [] = []"
| "fifo_run cap q (Write bs # ps) =
     (if bs = [] then Count (Inl P_ERROR_IPC_INVALID_ARGUMENT) # fifo_run cap q ps
      else if length q + length bs \<le> cap then Count (Inr (int (length bs))) # fifo_run cap (q @ bs) ps
      else Count (Inr 0) # fifo_run cap q ps)"
| "fifo_run cap q (Read n # ps) =
     (if n = 0 then Got (Inl P_ERROR_IPC_INVALID_ARGUMENT) [] # fifo_run cap q ps
      else let m = min n (length q)
        in Got (Inr (int m)) (take m q @ replicate (n - m) 0) # fifo_run cap (drop m q) ps)"
| "fifo_run cap q (Used # ps) = Count (Inr (int (length q))) # fifo_run cap q ps"
| "fifo_run cap q (Clear # ps) = Cleared # fifo_run cap [] ps"

text \<open>No write exceeds the free bytes by exactly one; chunks are shorter than 2 ^ 32 bytes.\<close>

fun no_overfill :: "nat \<Rightarrow> byte list \<Rightarrow> shm_op list \<Rightarrow> bool" where
  "no_overfill cap q [] = True"
| "no_overfill cap q (Write bs # ps) =
     (length bs < 2 ^ 32 \<and> length q + length bs \<noteq> cap + 1 \<and>
      no_overfill cap (if length q + length bs \<le> cap then q @ bs else q) ps)"
| "no_overfill cap q (Read n # ps) = (n < 2 ^ 32 \<and> no_overfill cap (drop (min n (length q)) q) ps)"
| "no_overfill cap q (Used # ps) = no_overfill cap q ps"
| "no_overfill cap q (Clear # ps) = no_overfill cap [] ps"

lemma get_used_ok:
  assumes "shm_ok big buf"
  shows "p_shm_buffer_get_used_space big True True (Some buf) = Some (Inr (int (length (shm_contents big buf))))"
proof -
  obtain u where u: "pp_shm_buffer_get_used_space big buf = Some u" "unat u = length (shm_contents big buf)"
    using used_space_ok[OF assms] by blast
  have "length (shm_contents big buf) < 2 ^ 32"
    using shm_contents_bound[OF assms] assms by (simp add: shm_ok_def)
  moreover have "u = of_nat (length (shm_contents big buf))" using u(2) by (metis of_nat_unat ucast_id)
  ultimately have "sint u = int (length (shm_contents big buf))" by (simp only: write_result)
  then show ?thesis using u(1) by (simp add: p_shm_buffer_get_used_space_def)
qed

lemma run_fifo:
  "shm_ok big buf \<Longrightarrow> unat (buf_size buf) = cap + 1 \<Longrightarrow> no_overfill cap (shm_contents big buf) ps \<Longrightarrow>
    shm_run big buf ps = Some (fifo_run cap (shm_contents big buf) ps)"
proof (induction ps arbitrary: buf)
  case (Cons p ps)
  let ?q = "shm_contents big buf"
  show ?case
  proof (cases p)
    case (Write bs)
    show ?thesis
    proof (cases "bs = []")
      case True
      then have "p_shm_buffer_write big True True (Some buf) (Some bs) (of_nat (length bs)) =
          Some (Inl P_ERROR_IPC_INVALID_ARGUMENT, Some buf)" by (simp add: p_shm_buffer_write_def)
      moreover have "length ?q \<le> cap" using shm_contents_bound[OF Cons.prems(1)] Cons.prems(2) by simp
      ultimately show ?thesis using Cons Write True by simp
    next
      case False
      then have n: "0 < length bs" "length bs < 2 ^ 32" using Cons.prems Write by simp_all
      note w = write_ok[OF Cons.prems(1) n]
      show ?thesis
      proof (cases "length ?q + length bs \<le> cap")
        case True
        then have "length ?q + length bs < unat (buf_size buf)" using Cons.prems(2) by simp
        from w(1)[OF this] obtain buf' where buf': "p_shm_buffer_write big True True (Some buf) (Some bs) (of_nat (length bs)) =
            Some (Inr (int (length bs)), Some buf')" "shm_ok big buf'" "buf_size buf' = buf_size buf"
            "shm_contents big buf' = ?q @ bs" by blast
        show ?thesis using Cons.IH[OF buf'(2)] buf' Cons.prems Write False True by simp
      next
        case big': False
        then have "unat (buf_size buf) < length ?q + length bs" using Cons.prems Write by simp
        with w(2) have "p_shm_buffer_write big True True (Some buf) (Some bs) (of_nat (length bs)) = Some (Inr 0, Some buf)"
          by blast
        then show ?thesis using Cons Write False big' by simp
      qed
    qed
  next
    case (Read n)
    show ?thesis
    proof (cases "n = 0")
      case True
      then have "p_shm_buffer_read big True True (Some buf) (Some (replicate n 0)) (of_nat n) =
          Some (Inl P_ERROR_IPC_INVALID_ARGUMENT, Some buf, Some [])" by (simp add: p_shm_buffer_read_def)
      then show ?thesis using Cons Read True by simp
    next
      case False
      from read_ok[OF Cons.prems(1), of n "replicate n 0"] False Cons.prems(3) Read
      obtain buf' where buf': "p_shm_buffer_read big True True (Some buf) (Some (replicate n 0)) (of_nat n) =
          Some (Inr (int (min n (length ?q))), Some buf', Some (take (min n (length ?q)) ?q @ drop (min n (length ?q)) (replicate n 0)))"
          "shm_ok big buf'" "buf_size buf' = buf_size buf" "shm_contents big buf' = drop (min n (length ?q)) ?q"
        by auto
      show ?thesis using Cons.IH[OF buf'(2)] buf' Cons.prems Read False by (simp add: Let_def)
    qed
  next
    case Used
    then show ?thesis using Cons get_used_ok[OF Cons.prems(1)] by simp
  next
    case Clear
    from clear_ok[OF Cons.prems(1)] Cons Clear show ?thesis by auto
  qed
qed simp

section \<open>Loops that do not end\<close>

lemma copy_in_diverges: "2 ^ 32 \<le> unat len \<Longrightarrow> copy_in sz wp dat len i mem = None"
proof -
  have "\<not> 2 ^ 32 \<le> unat len" if "copy_in sz wp dat len i mem = Some y" for y
  proof (rule copy_in.raw_induct[where P = "\<lambda>sz wp dat len i mem y. \<not> 2 ^ 32 \<le> unat len", OF _ that], goal_cases)
    case (1 f sz wp dat len i mem y)
    have "unat i < 2 ^ LENGTH(32)" by (rule unsigned_less)
    then have "2 ^ 32 \<le> unat len \<Longrightarrow> ucast i < len"
      by (simp add: word_less_nat_alt unsigned_ucast_eq take_bit_nat_eq_self)
    then show ?case using 1 by (auto split: if_splits)
  qed
  then show "2 ^ 32 \<le> unat len \<Longrightarrow> copy_in sz wp dat len i mem = None" by (cases "copy_in sz wp dat len i mem") auto
qed

lemma copy_out_diverges: "2 ^ 32 \<le> unat n \<Longrightarrow> copy_out mem sz rp n i st = None"
proof -
  have "\<not> 2 ^ 32 \<le> unat n" if "copy_out mem sz rp n i st = Some y" for y
  proof (rule copy_out.raw_induct[where P = "\<lambda>mem sz rp n i st y. \<not> 2 ^ 32 \<le> unat n", OF _ that], goal_cases)
    case (1 f mem sz rp n i st y)
    have "unat i < 2 ^ LENGTH(32)" by (rule unsigned_less)
    then have "2 ^ 32 \<le> unat n \<Longrightarrow> ucast i < n"
      by (simp add: word_less_nat_alt unsigned_ucast_eq take_bit_nat_eq_self)
    then show ?case using 1 by (auto split: if_splits)
  qed
  then show "2 ^ 32 \<le> unat n \<Longrightarrow> copy_out mem sz rp n i st = None" by (cases "copy_out mem sz rp n i st") auto
qed

section \<open>Properties\<close>

text \<open>
  C14.  A ring buffer opened on a fresh segment is a first-in-first-out queue of bytes with room for
  \<open>size\<close> bytes: every program of writes, reads, size queries and clears returns, with the results of the
  queue, as long as no write exceeds the free space by exactly one byte (see the next property).
\<close>

theorem shm_buffer_is_fifo:
  assumes "0 < n" "n < 2 ^ 31" "no_overfill n [] ps"
    and "p_shm_buffer_new (\<lambda>len. Some (Some (replicate (unat len) 0), len)) True (Some name) (of_nat n) = Inr buf"
  shows "shm_run big buf ps = Some (fifo_run n [] ps)"
proof -
  have u: "unat (of_nat k :: psize) = k" if "k < 2 ^ 32" for k
    using that by (simp add: unsigned_of_nat take_bit_nat_eq_self)
  have n: "unat (of_nat n :: psize) = n" "unat (of_nat (n + 17) :: psize) = n + 17" "unat (of_nat (n + 1) :: psize) = n + 1"
    using assms(2) by (intro u; simp)+
  then have nz: "(of_nat n :: psize) \<noteq> 0" using assms(1) by (metis unat_0 less_irrefl)
  have req: "(of_nat n :: psize) + of_nat P_SHM_BUFFER_DATA_OFFSET + 1 = of_nat (n + 17)"
    by (simp add: P_SHM_BUFFER_DATA_OFFSET_def)
  have lt: "\<not> of_nat (n + 17) \<le> (of_nat P_SHM_BUFFER_DATA_OFFSET + 1 :: psize)"
    unfolding word_le_nat_alt n(2) using assms(1) by (simp add: P_SHM_BUFFER_DATA_OFFSET_def)
  have size: "(of_nat (n + 17) :: psize) - of_nat P_SHM_BUFFER_DATA_OFFSET = of_nat (n + 1)"
    by (simp add: P_SHM_BUFFER_DATA_OFFSET_def)
  have buf: "buf = \<lparr>addr = Some (replicate (n + 17) 0), shm_len = of_nat (n + 17), buf_size = of_nat (n + 1)\<rparr>"
    using assms(4) unfolding p_shm_buffer_new_def if_P[OF nz] req option.case prod.case if_not_P[OF lt] size n(2)
    by simp
  then have f: "addr buf = Some (replicate (n + 17) 0)" "unat (shm_len buf) = n + 17" "unat (buf_size buf) = n + 1"
    by (simp_all only: PShmBuffer.select_convs n(2,3))
  have "n + 17 = 16 + unat (buf_size buf)" "2 \<le> unat (buf_size buf)" "unat (buf_size buf) \<le> 2 ^ 31"
    unfolding f(3) using assms(1,2) by simp_all
  note z = zero_segment_ok[OF f(1) this(1) f(2) this(2,3), of big]
  have "no_overfill n (shm_contents big buf) ps" unfolding z(2) by (rule assms(3))
  from run_fifo[OF z(1) f(3) this] show ?thesis unfolding z(2) .
qed

theorem shm_buffer_is_fifo_witness:
  "\<exists>buf. p_shm_buffer_new (\<lambda>len. Some (Some (replicate (unat len) 0), len)) True (Some ''shm'') 4 = Inr buf \<and>
    shm_run True buf [Write [1, 2, 3], Read 2, Write [4, 5, 6], Used, Read 9] =
      Some [Count (Inr 3), Got (Inr 2) [1, 2], Count (Inr 3), Count (Inr 4), Got (Inr 4) [3, 4, 5, 6, 0, 0, 0, 0, 0]]"
proof -
  let ?new = "p_shm_buffer_new (\<lambda>len. Some (Some (replicate (unat len) 0), len)) True (Some ''shm'')"
  obtain buf where buf: "?new (of_nat 4) = Inr buf"
    by (simp add: p_shm_buffer_new_def P_SHM_BUFFER_DATA_OFFSET_def)
  have "shm_run True buf [Write [1, 2, 3], Read 2, Write [4, 5, 6], Used, Read 9] =
      Some (fifo_run 4 [] [Write [1, 2, 3], Read 2, Write [4, 5, 6], Used, Read 9])"
    using buf by (intro shm_buffer_is_fifo) simp_all
  then show ?thesis using buf by (auto simp: numeral_eq_Suc)
qed

text \<open>
  C15.  A write that fills the ring exactly while the write position is behind the read position is
  accepted, and the ring is empty afterwards: everything in it is lost.
\<close>

theorem shm_buffer_overfill:
  assumes "shm_ok big buf" "write_at big buf < read_at big buf"
    and "length (shm_contents big buf) + length bs = unat (buf_size buf)" "length bs < 2 ^ 32"
  shows "\<exists>buf'. p_shm_buffer_write big True True (Some buf) (Some bs) (of_nat (length bs)) =
      Some (Inr (int (length bs)), Some buf') \<and>
    shm_contents big buf' = [] \<and> p_shm_buffer_get_used_space big True True (Some buf') = Some (Inr 0)"
proof -
  have "0 < length bs" using shm_contents_bound[OF assms(1)] assms(3) by linarith
  from write_ok(3)[OF assms(1) this assms(4,3,2)] get_used_ok show ?thesis by fastforce
qed

definition full_ring :: PShmBuffer where
  "full_ring = \<lparr>addr = Some [2, 0, 0, 0, 0, 0, 0, 0, 1, 0, 0, 0, 0, 0, 0, 0, 40, 50, 10, 20, 30], shm_len = 21, buf_size = 5\<rparr>"

lemma full_ring_ok:
  "read_at False full_ring = 2" "write_at False full_ring = 1" "shm_ok False full_ring"
  "shm_contents False full_ring = [10, 20, 30, 40]"
proof -
  show rd: "read_at False full_ring = 2" "write_at False full_ring = 1"
    by (simp_all add: read_at_def write_at_def segment_def full_ring_def read_word_def word_of_def
        P_SHM_BUFFER_READ_OFFSET_def P_SHM_BUFFER_WRITE_OFFSET_def)
  show "shm_ok False full_ring" using rd by (simp add: shm_ok_def) (simp add: segment_def full_ring_def)
  show "shm_contents False full_ring = [10, 20, 30, 40]"
    unfolding shm_contents_def Let_def rd by (simp add: segment_def full_ring_def ring_used_def upt_rec)
qed

theorem shm_buffer_overfill_witness:
  "\<exists>buf'. p_shm_buffer_write False True True (Some full_ring) (Some [50]) 1 = Some (Inr 1, Some buf') \<and>
    shm_contents False buf' = []"
  using shm_buffer_overfill[of False full_ring "[50]"] full_ring_ok by (auto simp: full_ring_def)

text \<open>
  The free space that is reported, and that a write is checked against, is one byte too large when
  the write position is behind the read position; the used space is right.
\<close>

theorem shm_buffer_sizes:
  assumes "shm_ok big buf"
  shows "p_shm_buffer_get_used_space big True True (Some buf) = Some (Inr (int (length (shm_contents big buf)))) \<and>
    p_shm_buffer_get_free_space big True True (Some buf) =
      Some (Inr (int (unat (buf_size buf) - 1 - length (shm_contents big buf)) +
        (if write_at big buf < read_at big buf then 1 else 0)))"
proof -
  obtain u where u: "pp_shm_buffer_get_free_space big buf = Some u"
    "unat u = (if write_at big buf < read_at big buf then unat (buf_size buf) - length (shm_contents big buf)
               else unat (buf_size buf) - 1 - length (shm_contents big buf))"
    using free_space_ok[OF assms] by blast
  have "unat (buf_size buf) \<le> 2 ^ 31" using assms by (simp add: shm_ok_def)
  then have "unat u < 2 ^ 32" using u(2) by (auto split: if_splits)
  then have "sint u = int (unat u)" using write_result[of "unat u"] by simp
  then show ?thesis
    using get_used_ok[OF assms] shm_contents_bound[OF assms] u
    by (auto simp: p_shm_buffer_get_free_space_def)
qed

theorem shm_buffer_sizes_witness:
  "p_shm_buffer_get_used_space False True True (Some full_ring) = Some (Inr 4) \<and>
    p_shm_buffer_get_free_space False True True (Some full_ring) = Some (Inr 1)"
  using shm_buffer_sizes[OF full_ring_ok(3)] full_ring_ok by (simp add: full_ring_def)

text \<open>
  Errors: without a buffer, memory or length the call is refused; when the lock cannot be taken
  nothing changes; when only the unlocking fails the error is reported but the bytes have moved.
\<close>

theorem shm_buffer_errors:
  "p_shm_buffer_write big lk ul None dat len = Some (Inl P_ERROR_IPC_INVALID_ARGUMENT, None) \<and>
   p_shm_buffer_write big lk ul self dat 0 = Some (Inl P_ERROR_IPC_INVALID_ARGUMENT, self) \<and>
   p_shm_buffer_read big lk ul None storage len = Some (Inl P_ERROR_IPC_INVALID_ARGUMENT, None, storage) \<and>
   p_shm_buffer_read big lk ul self storage 0 = Some (Inl P_ERROR_IPC_INVALID_ARGUMENT, self, storage) \<and>
   (\<exists>e. p_shm_buffer_write big False ul self dat len = Some (Inl e, self)) \<and>
   (\<exists>e. p_shm_buffer_read big False ul self storage len = Some (Inl e, self, storage)) \<and>
   map_option snd (p_shm_buffer_write big True False self dat len) = map_option snd (p_shm_buffer_write big True True self dat len) \<and>
   map_option snd (p_shm_buffer_read big True False self storage len) =
     map_option snd (p_shm_buffer_read big True True self storage len) \<and>
   (\<exists>r. map_option fst (p_shm_buffer_write big True False self dat len) \<in> {None, Some (Inl r)})"
  by (auto simp: p_shm_buffer_write_def p_shm_buffer_read_def Let_def split: option.splits if_splits)

text \<open>
  The copying loops count with a 32-bit integer: a write or a read of 2 ^ 32 bytes or more, where the
  ring is large enough for it, does not return.
\<close>

theorem shm_buffer_diverges:
  assumes "addr buf = Some mem" "2 ^ 32 \<le> unat len"
  shows "(\<forall>space. pp_shm_buffer_get_free_space big buf = Some space \<and> len \<le> space \<longrightarrow>
      p_shm_buffer_write big True ul (Some buf) (Some bs) len = None) \<and>
    (\<forall>used. pp_shm_buffer_get_used_space big buf = Some used \<and> 2 ^ 32 \<le> unat used \<longrightarrow>
      p_shm_buffer_read big True ul (Some buf) (Some st) len = None)"
proof -
  have nz: "len \<noteq> 0" using assms(2) by auto
  have wr: "p_shm_buffer_write big True ul (Some buf) (Some bs) len = None"
    if "pp_shm_buffer_get_free_space big buf = Some space" "len \<le> space" for space
    using that assms nz copy_in_diverges[OF assms(2)]
    by (simp add: p_shm_buffer_write_def Let_def not_less)
  have "p_shm_buffer_read big True ul (Some buf) (Some st) len = None"
    if u: "pp_shm_buffer_get_used_space big buf = Some used" "2 ^ 32 \<le> unat used" for used
  proof -
    have "2 ^ 32 \<le> unat (if used \<le> len then used else len)" using assms(2) u(2) by simp
    note loop = copy_out_diverges[OF this]
    have "read_word big mem P_SHM_BUFFER_READ_OFFSET \<noteq> read_word big mem P_SHM_BUFFER_WRITE_OFFSET"
      using u assms(1) by (auto simp: pp_shm_buffer_get_used_space_def used_of_def)
    then show ?thesis using u assms(1) nz loop by (simp add: p_shm_buffer_read_def Let_def)
  qed
  with wr show ?thesis by blast
qed

theorem shm_buffer_diverges_witness:
  "p_shm_buffer_write True True True (Some \<lparr>addr = Some (replicate (2 ^ 33 + 16) 0), shm_len = 2 ^ 33 + 16, buf_size = 2 ^ 33\<rparr>)
    (Some (replicate (2 ^ 32) 1)) (2 ^ 32) = None"
proof -
  let ?buf = "\<lparr>addr = Some (replicate (2 ^ 33 + 16) 0), shm_len = 2 ^ 33 + 16, buf_size = 2 ^ 33\<rparr> :: PShmBuffer"
  have "read_word True (replicate (2 ^ 33 + 16) 0) off = 0" for off
    unfolding read_word_def drop_replicate take_replicate by (rule word_of_zeros)
  then have "pp_shm_buffer_get_free_space True ?buf = Some (2 ^ 33 - 1)"
    by (simp only: pp_shm_buffer_get_free_space_def PShmBuffer.select_convs option.map) (simp add: free_of_def)
  moreover have "addr ?buf = Some (replicate (2 ^ 33 + 16) 0)" by (simp only: PShmBuffer.select_convs)
  ultimately have "p_shm_buffer_write True True True (Some ?buf) (Some bs) (2 ^ 32) = None" for bs
    using shm_buffer_diverges[of ?buf "replicate (2 ^ 33 + 16) 0" "2 ^ 32" True True bs] by simp
  then show ?thesis .
qed

end
