(* ===== verification/PThreads.thy ===== *)
theory PThreads
  imports Prelude
begin

text \<open>
  What the models of several threads share: how many of the threads below \<open>n\<close> are in a state that satisfies a
  predicate, and when such a number fits the fields of 15 bits in the words of the locks.
\<close>

section \<open>Counting threads\<close>

definition cnt :: "nat \<Rightarrow> ('p \<Rightarrow> bool) \<Rightarrow> (nat \<Rightarrow> 'p) \<Rightarrow> nat" where
  "cnt n P f = card {t. t < n \<and> P (f t)}"

lemma cnt_update: "t < n \<Longrightarrow> cnt n P (f(t := x)) + of_bool (P (f t)) = cnt n P f + of_bool (P x)"
proof -
  assume t: "t < n"
  let ?R = "{i. i < n \<and> i \<noteq> t \<and> P (f i)}"
  have "cnt n P g = card ?R + of_bool (P (g t))" if "\<And>i. i \<noteq> t \<Longrightarrow> g i = f i" for g
  proof -
    have "{i. i < n \<and> P (g i)} = (if P (g t) then insert t ?R else ?R)" using t that by auto metis+
    then show ?thesis by (simp add: cnt_def)
  qed
  from this[of f] this[of "f(t := x)"] show ?thesis by simp
qed

lemma cnt_le: "cnt n P f \<le> n"
  using card_mono[of "{..<n}" "{t. t < n \<and> P (f t)}"] by (auto simp: cnt_def)

lemma cnt_zero: "cnt n P f = 0 \<longleftrightarrow> (\<forall>t < n. \<not> P (f t))"
  by (auto simp: cnt_def)

lemma cnt_cong: "(\<And>t. t < n \<Longrightarrow> P (f t) = P (g t)) \<Longrightarrow> cnt n P f = cnt n P g"
  by (auto simp: cnt_def intro!: arg_cong[where f = card])

lemma cnt_room: "t < n \<Longrightarrow> \<not> P (f t) \<Longrightarrow> cnt n P f < n"
proof -
  assume t: "t < n" "\<not> P (f t)"
  then have "{i. i < n \<and> P (f i)} \<subset> {..<n}" by auto
  from psubset_card_mono[OF _ this] show ?thesis by (simp add: cnt_def)
qed

lemma cnt_pos: "t < n \<Longrightarrow> P (f t) \<Longrightarrow> 0 < cnt n P f"
  using cnt_zero[of n P f] by auto

section \<open>Counters of 15 bits\<close>

lemma bit_small: "bit (r :: nat) i \<Longrightarrow> r < 2 ^ 15 \<Longrightarrow> i < 15"
proof (rule ccontr)
  assume r: "bit r i" "r < 2 ^ 15" and "\<not> i < 15"
  then have "(2 :: nat) ^ 15 \<le> 2 ^ i" by (intro power_increasing) simp_all
  then have "r div 2 ^ i = 0" using r by simp
  then show False using r by (simp add: bit_iff_odd)
qed

lemma counter_zero: "k \<le> n \<Longrightarrow> n < 2 ^ 15 \<Longrightarrow> (of_nat k :: 32 word) = 0 \<longleftrightarrow> k = 0"
  by (simp add: word_of_nat_eq_0_iff dvd_eq_mod_eq_0)

lemma counter_one: "k \<le> n \<Longrightarrow> n < 2 ^ 15 \<Longrightarrow> (of_nat k :: 32 word) = 1 \<longleftrightarrow> k = 1"
proof -
  assume k: "k \<le> n" "n < 2 ^ 15"
  then have "unat (of_nat k :: 32 word) = k" by (simp add: unsigned_of_nat take_bit_nat_eq_self)
  then show ?thesis by (metis unat_1 of_nat_1)
qed

end
