(* ===== verification/PRWLock.thy ===== *)
theory PRWLock
  imports PThreads
begin

text \<open>
  The read-write lock built from a mutex and two condition variables (\<open>prwlock-general.c\<close>).  Two 32-bit words
  hold the numbers of active and of waiting readers (15 bits) and writers (15 bits).  Every function body
  runs under the mutex, except where it waits on a condition variable, so that it is one atomic section,
  or two with a wait between them; the sections are the definitions below.  The mutex and the condition
  variables are the platform's: whether a call of theirs succeeds is a parameter.
\<close>

unbundle bit_operations_syntax

section \<open>The packed counters\<close>

definition P_RWLOCK_SET_READERS :: "32 word \<Rightarrow> 32 word \<Rightarrow> 32 word" where
  "P_RWLOCK_SET_READERS lock readers = (lock AND (NOT 0x00007FFF)) OR readers"

definition P_RWLOCK_READER_COUNT :: "32 word \<Rightarrow> 32 word" where
  "P_RWLOCK_READER_COUNT lock = lock AND 0x00007FFF"

definition P_RWLOCK_SET_WRITERS :: "32 word \<Rightarrow> 32 word \<Rightarrow> 32 word" where
  "P_RWLOCK_SET_WRITERS lock writers = (lock AND (NOT 0x3FFF8000)) OR push_bit 15 writers"

definition P_RWLOCK_WRITER_COUNT :: "32 word \<Rightarrow> 32 word" where
  "P_RWLOCK_WRITER_COUNT lock = drop_bit 15 (lock AND 0x3FFF8000)"

record PRWLock =
  active_threads :: "32 word"
  waiting_threads :: "32 word"

section \<open>Creation\<close>

text \<open>
  What \<open>p_rwlock_new\<close> does with its block of memory, in order.  The parameters say which of the four
  allocations succeed; the first component of the result is whether a pointer is returned.
\<close>

datatype block_use = Malloc | Store string | Load string | Free

definition p_rwlock_new :: "bool \<Rightarrow> bool \<Rightarrow> bool \<Rightarrow> bool \<Rightarrow> bool \<times> block_use list" where
  "p_rwlock_new mem mutex_ok read_cv_ok write_cv_ok =
     (if \<not> mem then (False, [])
      else (True,
        [Malloc, Store ''mutex''] @ (if \<not> mutex_ok then [Free] else []) @
        [Store ''read_cv''] @ (if \<not> read_cv_ok then [Load ''mutex'', Free] else []) @
        [Store ''write_cv''] @ (if \<not> write_cv_ok then [Load ''read_cv'', Load ''mutex'', Free] else [])))"

section \<open>The sections of the lock functions\<close>

text \<open>
  A locking function either gets the lock, or registers as waiting and calls \<open>p_cond_variable_wait\<close>; the
  second section runs when that call returns, with its result.
\<close>

datatype verdict = Locked | Waits | Failed

definition reader_lock_enter :: "PRWLock \<Rightarrow> PRWLock \<times> verdict" where
  "reader_lock_enter lk =
     (if P_RWLOCK_WRITER_COUNT (active_threads lk) \<noteq> 0
      then (lk\<lparr>waiting_threads := P_RWLOCK_SET_READERS (waiting_threads lk) (P_RWLOCK_READER_COUNT (waiting_threads lk) + 1)\<rparr>, Waits)
      else (lk\<lparr>active_threads := P_RWLOCK_SET_READERS (active_threads lk) (P_RWLOCK_READER_COUNT (active_threads lk) + 1)\<rparr>, Locked))"

definition reader_lock_woken :: "bool \<Rightarrow> PRWLock \<Rightarrow> PRWLock \<times> verdict" where
  "reader_lock_woken wait_ok lk =
     (if wait_ok \<and> P_RWLOCK_WRITER_COUNT (active_threads lk) \<noteq> 0 then (lk, Waits)
      else
        let lk1 = lk\<lparr>waiting_threads := P_RWLOCK_SET_READERS (waiting_threads lk) (P_RWLOCK_READER_COUNT (waiting_threads lk) - 1)\<rparr>
        in if wait_ok
           then (lk1\<lparr>active_threads := P_RWLOCK_SET_READERS (active_threads lk1) (P_RWLOCK_READER_COUNT (active_threads lk1) + 1)\<rparr>, Locked)
           else (lk1, Failed))"

definition p_rwlock_reader_trylock :: "PRWLock \<Rightarrow> PRWLock \<times> bool" where
  "p_rwlock_reader_trylock lk =
     (if P_RWLOCK_WRITER_COUNT (active_threads lk) \<noteq> 0 then (lk, False)
      else (lk\<lparr>active_threads := P_RWLOCK_SET_READERS (active_threads lk) (P_RWLOCK_READER_COUNT (active_threads lk) + 1)\<rparr>, True))"

text \<open>What an unlocking function asks of the condition variables.\<close>

datatype wake = No_one | Signal_write_cv | Broadcast_read_cv

definition p_rwlock_reader_unlock :: "PRWLock \<Rightarrow> PRWLock \<times> wake" where
  "p_rwlock_reader_unlock lk =
     (let reader_count = P_RWLOCK_READER_COUNT (active_threads lk)
      in if reader_count = 0 then (lk, No_one)
         else
           (lk\<lparr>active_threads := P_RWLOCK_SET_READERS (active_threads lk) (reader_count - 1)\<rparr>,
            if reader_count = 1 \<and> P_RWLOCK_WRITER_COUNT (waiting_threads lk) \<noteq> 0 then Signal_write_cv else No_one))"

definition writer_lock_enter :: "PRWLock \<Rightarrow> PRWLock \<times> verdict" where
  "writer_lock_enter lk =
     (if active_threads lk \<noteq> 0
      then (lk\<lparr>waiting_threads := P_RWLOCK_SET_WRITERS (waiting_threads lk) (P_RWLOCK_WRITER_COUNT (waiting_threads lk) + 1)\<rparr>, Waits)
      else (lk\<lparr>active_threads := P_RWLOCK_SET_WRITERS (active_threads lk) 1\<rparr>, Locked))"

definition writer_lock_woken :: "bool \<Rightarrow> PRWLock \<Rightarrow> PRWLock \<times> verdict" where
  "writer_lock_woken wait_ok lk =
     (if wait_ok \<and> active_threads lk \<noteq> 0 then (lk, Waits)
      else
        let lk1 = lk\<lparr>waiting_threads := P_RWLOCK_SET_WRITERS (waiting_threads lk) (P_RWLOCK_WRITER_COUNT (waiting_threads lk) - 1)\<rparr>
        in if wait_ok then (lk1\<lparr>active_threads := P_RWLOCK_SET_WRITERS (active_threads lk1) 1\<rparr>, Locked) else (lk1, Failed))"

definition p_rwlock_writer_trylock :: "PRWLock \<Rightarrow> PRWLock \<times> bool" where
  "p_rwlock_writer_trylock lk =
     (if active_threads lk \<noteq> 0 then (lk, False)
      else (lk\<lparr>active_threads := P_RWLOCK_SET_WRITERS (active_threads lk) 1\<rparr>, True))"

definition p_rwlock_writer_unlock :: "PRWLock \<Rightarrow> PRWLock \<times> wake" where
  "p_rwlock_writer_unlock lk =
     (lk\<lparr>active_threads := P_RWLOCK_SET_WRITERS (active_threads lk) 0\<rparr>,
      if P_RWLOCK_WRITER_COUNT (waiting_threads lk) \<noteq> 0 then Signal_write_cv
      else if P_RWLOCK_READER_COUNT (waiting_threads lk) \<noteq> 0 then Broadcast_read_cv
      else No_one)"

section \<open>Threads\<close>

text \<open>
  A thread is outside, waits for the lock (woken or not), or holds it.  Threads only unlock what they
  hold.  A wake-up may come without a signal; with \<open>fail\<close> waiting and signalling may also fail.
\<close>

datatype pc = Idle | Wait_read bool | Wait_write bool | Reading | Writing

record rw_sys =
  lock :: PRWLock
  pcs :: "nat \<Rightarrow> pc"

definition rw_init :: rw_sys where
  "rw_init = \<lparr>lock = \<lparr>active_threads = 0, waiting_threads = 0\<rparr>, pcs = (\<lambda>_. Idle)\<rparr>"

text \<open>\<open>wakes n w f f'\<close>: the wake-up \<open>w\<close> may turn the states \<open>f\<close> of \<open>n\<close> threads into \<open>f'\<close>.\<close>

inductive wakes :: "nat \<Rightarrow> wake \<Rightarrow> (nat \<Rightarrow> pc) \<Rightarrow> (nat \<Rightarrow> pc) \<Rightarrow> bool" for n where
  no_one: "wakes n No_one f f"
| signal: "t < n \<Longrightarrow> f t = Wait_write False \<Longrightarrow> wakes n Signal_write_cv f (f(t := Wait_write True))"
| signal_none: "(\<forall>t < n. f t \<noteq> Wait_write False) \<Longrightarrow> wakes n Signal_write_cv f f"
| broadcast: "wakes n Broadcast_read_cv f (\<lambda>t. case f t of Wait_read b \<Rightarrow> Wait_read True | p \<Rightarrow> p)"

fun read_pc :: "verdict \<Rightarrow> pc" where
  "read_pc Locked = Reading"
| "read_pc Waits = Wait_read False"
| "read_pc Failed = Idle"

fun write_pc :: "verdict \<Rightarrow> pc" where
  "write_pc Locked = Writing"
| "write_pc Waits = Wait_write False"
| "write_pc Failed = Idle"

inductive rw_step :: "bool \<Rightarrow> nat \<Rightarrow> rw_sys \<Rightarrow> rw_sys \<Rightarrow> bool" for fail n where
  reader_lock: "t < n \<Longrightarrow> pcs s t = Idle \<Longrightarrow> reader_lock_enter (lock s) = (lk, v) \<Longrightarrow>
    rw_step fail n s \<lparr>lock = lk, pcs = (pcs s)(t := read_pc v)\<rparr>"
| reader_woken: "t < n \<Longrightarrow> pcs s t = Wait_read True \<Longrightarrow> ok \<or> fail \<Longrightarrow> reader_lock_woken ok (lock s) = (lk, v) \<Longrightarrow>
    rw_step fail n s \<lparr>lock = lk, pcs = (pcs s)(t := read_pc v)\<rparr>"
| reader_try: "t < n \<Longrightarrow> pcs s t = Idle \<Longrightarrow> p_rwlock_reader_trylock (lock s) = (lk, b) \<Longrightarrow>
    rw_step fail n s \<lparr>lock = lk, pcs = (pcs s)(t := (if b then Reading else Idle))\<rparr>"
| reader_unlock: "t < n \<Longrightarrow> pcs s t = Reading \<Longrightarrow> p_rwlock_reader_unlock (lock s) = (lk, w) \<Longrightarrow>
    wakes n (if ok then w else No_one) ((pcs s)(t := Idle)) f \<Longrightarrow> ok \<or> fail \<Longrightarrow>
    rw_step fail n s \<lparr>lock = lk, pcs = f\<rparr>"
| writer_lock: "t < n \<Longrightarrow> pcs s t = Idle \<Longrightarrow> writer_lock_enter (lock s) = (lk, v) \<Longrightarrow>
    rw_step fail n s \<lparr>lock = lk, pcs = (pcs s)(t := write_pc v)\<rparr>"
| writer_woken: "t < n \<Longrightarrow> pcs s t = Wait_write True \<Longrightarrow> ok \<or> fail \<Longrightarrow> writer_lock_woken ok (lock s) = (lk, v) \<Longrightarrow>
    rw_step fail n s \<lparr>lock = lk, pcs = (pcs s)(t := write_pc v)\<rparr>"
| writer_try: "t < n \<Longrightarrow> pcs s t = Idle \<Longrightarrow> p_rwlock_writer_trylock (lock s) = (lk, b) \<Longrightarrow>
    rw_step fail n s \<lparr>lock = lk, pcs = (pcs s)(t := (if b then Writing else Idle))\<rparr>"
| writer_unlock: "t < n \<Longrightarrow> pcs s t = Writing \<Longrightarrow> p_rwlock_writer_unlock (lock s) = (lk, w) \<Longrightarrow>
    wakes n (if ok then w else No_one) ((pcs s)(t := Idle)) f \<Longrightarrow> ok \<or> fail \<Longrightarrow>
    rw_step fail n s \<lparr>lock = lk, pcs = f\<rparr>"
| spurious_read: "t < n \<Longrightarrow> pcs s t = Wait_read False \<Longrightarrow> rw_step fail n s (s\<lparr>pcs := (pcs s)(t := Wait_read True)\<rparr>)"
| spurious_write: "t < n \<Longrightarrow> pcs s t = Wait_write False \<Longrightarrow> rw_step fail n s (s\<lparr>pcs := (pcs s)(t := Wait_write True)\<rparr>)"

inductive rw_reachable :: "bool \<Rightarrow> nat \<Rightarrow> rw_sys \<Rightarrow> bool" for fail n where
  start: "rw_reachable fail n rw_init"
| step: "rw_reachable fail n s \<Longrightarrow> rw_step fail n s s' \<Longrightarrow> rw_reachable fail n s'"

inductive_cases wakes_cases: "wakes n w f f'"

section \<open>The packed counters hold two numbers\<close>

definition pack :: "nat \<Rightarrow> nat \<Rightarrow> 32 word" where
  "pack r w = of_nat r OR push_bit 15 (of_nat w)"

lemma masks: "0x00007FFF = (mask 15 :: 32 word)" "0x3FFF8000 = push_bit 15 (mask 15 :: 32 word)"
  by (simp_all add: mask_eq_exp_minus_1)

lemma pack_simps:
  assumes "r < 2 ^ 15" "w < 2 ^ 15"
  shows "P_RWLOCK_READER_COUNT (pack r w) = of_nat r" "P_RWLOCK_WRITER_COUNT (pack r w) = of_nat w"
    and "r' < 2 ^ 15 \<Longrightarrow> P_RWLOCK_SET_READERS (pack r w) (of_nat r') = pack r' w"
    and "w' < 2 ^ 15 \<Longrightarrow> P_RWLOCK_SET_WRITERS (pack r w) (of_nat w') = pack r w'"
  unfolding P_RWLOCK_READER_COUNT_def P_RWLOCK_WRITER_COUNT_def P_RWLOCK_SET_READERS_def P_RWLOCK_SET_WRITERS_def
    pack_def masks
proof -
  note b = bit_small[OF _ assms(1)] bit_small[OF _ assms(2)]
  show "(of_nat r OR push_bit 15 (of_nat w)) AND mask 15 = (of_nat r :: 32 word)"
    by (rule bit_word_eqI) (auto simp: bit_simps dest: b)
  show "drop_bit 15 ((of_nat r OR push_bit 15 (of_nat w)) AND push_bit 15 (mask 15)) = (of_nat w :: 32 word)"
    by (rule bit_word_eqI) (auto simp: bit_simps dest: b)
  show "(of_nat r OR push_bit 15 (of_nat w)) AND NOT (mask 15) OR of_nat r' = (of_nat r' OR push_bit 15 (of_nat w) :: 32 word)"
    if "r' < 2 ^ 15"
    by (rule bit_word_eqI) (auto simp: bit_simps dest: b bit_small[OF _ that])
  show "(of_nat r OR push_bit 15 (of_nat w)) AND NOT (push_bit 15 (mask 15)) OR push_bit 15 (of_nat w') =
      (of_nat r OR push_bit 15 (of_nat w') :: 32 word)"
    if "w' < 2 ^ 15"
    by (rule bit_word_eqI) (auto simp: bit_simps dest: b bit_small[OF _ that])
qed

lemma pack_zero: "r < 2 ^ 15 \<Longrightarrow> w < 2 ^ 15 \<Longrightarrow> pack r w = 0 \<longleftrightarrow> r = 0 \<and> w = 0"
proof -
  assume rw: "r < 2 ^ 15" "w < 2 ^ 15"
  have nz: "(of_nat k :: 32 word) = 0 \<longleftrightarrow> k = 0" if "k < 2 ^ 15" for k
    using that by (simp add: word_of_nat_eq_0_iff dvd_eq_mod_eq_0)
  show ?thesis
  proof
    assume "pack r w = 0"
    then have "P_RWLOCK_READER_COUNT (pack r w) = 0" "P_RWLOCK_WRITER_COUNT (pack r w) = 0"
      by (simp_all add: P_RWLOCK_READER_COUNT_def P_RWLOCK_WRITER_COUNT_def)
    then show "r = 0 \<and> w = 0" using pack_simps[OF rw] nz rw by simp
  qed (simp add: pack_def)
qed

end
