(* ===== verification/PRWLockProps.thy ===== *)
theory PRWLockProps
  imports PRWLock PThreads
begin

text \<open>
  The invariant of the read-write lock: the two words count the threads in each state, and a writer is
  alone.  Without failing condition variables no wake-up is lost.
\<close>

section \<open>Threads in each state\<close>

definition is_reading :: "pc \<Rightarrow> bool" where "is_reading p = (case p of Reading \<Rightarrow> True | _ \<Rightarrow> False)"
definition is_writing :: "pc \<Rightarrow> bool" where "is_writing p = (case p of Writing \<Rightarrow> True | _ \<Rightarrow> False)"
definition waits_read :: "pc \<Rightarrow> bool" where "waits_read p = (case p of Wait_read _ \<Rightarrow> True | _ \<Rightarrow> False)"
definition waits_write :: "pc \<Rightarrow> bool" where "waits_write p = (case p of Wait_write _ \<Rightarrow> True | _ \<Rightarrow> False)"

lemmas pc_tests = is_reading_def is_writing_def waits_read_def waits_write_def

definition counters :: "nat \<Rightarrow> (nat \<Rightarrow> pc) \<Rightarrow> PRWLock" where
  "counters n f = \<lparr>active_threads = pack (cnt n is_reading f) (cnt n is_writing f),
     waiting_threads = pack (cnt n waits_read f) (cnt n waits_write f)\<rparr>"

definition exclusive :: "nat \<Rightarrow> (nat \<Rightarrow> pc) \<Rightarrow> bool" where
  "exclusive n f \<longleftrightarrow> cnt n is_writing f = 0 \<or> cnt n is_writing f = 1 \<and> cnt n is_reading f = 0"

section \<open>The sections on counters\<close>

lemma counter_add: "r < n \<Longrightarrow> n < 2 ^ 15 \<Longrightarrow> w \<le> n \<Longrightarrow>
    P_RWLOCK_SET_READERS (pack r w) (of_nat r + 1) = pack (Suc r) w"
  "w < n \<Longrightarrow> n < 2 ^ 15 \<Longrightarrow> r \<le> n \<Longrightarrow>
    P_RWLOCK_SET_WRITERS (pack r w) (of_nat w + 1) = pack r (Suc w)"
  using pack_simps(3)[of r w "Suc r"] pack_simps(4)[of r w "Suc w"] by (simp_all add: add.commute)

lemma counter_sub: "0 < r \<Longrightarrow> r \<le> n \<Longrightarrow> n < 2 ^ 15 \<Longrightarrow> w \<le> n \<Longrightarrow>
    P_RWLOCK_SET_READERS (pack r w) (of_nat r - 1) = pack (r - 1) w"
  "0 < w \<Longrightarrow> w \<le> n \<Longrightarrow> n < 2 ^ 15 \<Longrightarrow> r \<le> n \<Longrightarrow>
    P_RWLOCK_SET_WRITERS (pack r w) (of_nat w - 1) = pack r (w - 1)"
  using pack_simps(3)[of r w "r - 1"] pack_simps(4)[of r w "w - 1"] by (simp_all add: of_nat_diff)

lemma set_writers:
  "r < 2 ^ 15 \<Longrightarrow> w < 2 ^ 15 \<Longrightarrow> P_RWLOCK_SET_WRITERS (pack r w) 1 = pack r 1"
  "r < 2 ^ 15 \<Longrightarrow> w < 2 ^ 15 \<Longrightarrow> P_RWLOCK_SET_WRITERS (pack r w) 0 = pack r 0"
  using pack_simps(4)[of r w 1] pack_simps(4)[of r w 0] by simp_all

lemma wakes_counts:
  "wakes n w f f' \<Longrightarrow> cnt n is_reading f' = cnt n is_reading f \<and> cnt n is_writing f' = cnt n is_writing f \<and>
    cnt n waits_read f' = cnt n waits_read f \<and> cnt n waits_write f' = cnt n waits_write f"
  by (erule wakes.cases) (auto intro!: cnt_cong simp: pc_tests split: pc.splits if_splits)

text \<open>Each section, on a lock that counts \<open>r\<close> active and \<open>wr\<close> waiting readers, \<open>w\<close> and \<open>ww\<close> writers.\<close>

lemmas counter_lemmas = pack_simps(1,2) counter_add counter_sub counter_zero counter_one set_writers pack_zero

lemma reader_sections:
  assumes "n < 2 ^ 15" "r \<le> n" "w \<le> n" "wr \<le> n" "ww \<le> n"
  defines "lk \<equiv> \<lparr>active_threads = pack r w, waiting_threads = pack wr ww\<rparr>"
  shows "r < n \<Longrightarrow> wr < n \<Longrightarrow> reader_lock_enter lk =
      (if w \<noteq> 0 then (\<lparr>active_threads = pack r w, waiting_threads = pack (Suc wr) ww\<rparr>, Waits)
       else (\<lparr>active_threads = pack (Suc r) w, waiting_threads = pack wr ww\<rparr>, Locked))"
    and "r < n \<Longrightarrow> 0 < wr \<Longrightarrow> reader_lock_woken ok lk =
      (if ok \<and> w \<noteq> 0 then (lk, Waits)
       else if ok then (\<lparr>active_threads = pack (Suc r) w, waiting_threads = pack (wr - 1) ww\<rparr>, Locked)
       else (\<lparr>active_threads = pack r w, waiting_threads = pack (wr - 1) ww\<rparr>, Failed))"
    and "r < n \<Longrightarrow> p_rwlock_reader_trylock lk =
      (if w \<noteq> 0 then (lk, False) else (\<lparr>active_threads = pack (Suc r) w, waiting_threads = pack wr ww\<rparr>, True))"
    and "0 < r \<Longrightarrow> p_rwlock_reader_unlock lk =
      (\<lparr>active_threads = pack (r - 1) w, waiting_threads = pack wr ww\<rparr>,
       if r = 1 \<and> ww \<noteq> 0 then Signal_write_cv else No_one)"
  using assms(1-5) pack_simps(1,2)[of r w] pack_simps(1,2)[of wr ww] counter_add(1)[of r n w] counter_add(1)[of wr n ww]
    counter_sub(1)[of r n w] counter_sub(1)[of wr n ww] counter_zero[of w n] counter_zero[of ww n] counter_zero[of r n]
    counter_one[of r n] pack_simps(1,2)[of r 0] counter_add(1)[of r n 0]
  by (simp_all add: lk_def reader_lock_enter_def reader_lock_woken_def p_rwlock_reader_trylock_def
      p_rwlock_reader_unlock_def Let_def)

lemma writer_sections:
  assumes "n < 2 ^ 15" "r \<le> n" "w \<le> n" "wr \<le> n" "ww \<le> n"
  defines "lk \<equiv> \<lparr>active_threads = pack r w, waiting_threads = pack wr ww\<rparr>"
  shows "ww < n \<Longrightarrow> writer_lock_enter lk =
      (if r \<noteq> 0 \<or> w \<noteq> 0 then (\<lparr>active_threads = pack r w, waiting_threads = pack wr (Suc ww)\<rparr>, Waits)
       else (\<lparr>active_threads = pack 0 1, waiting_threads = pack wr ww\<rparr>, Locked))"
    and "0 < ww \<Longrightarrow> writer_lock_woken ok lk =
      (if ok \<and> (r \<noteq> 0 \<or> w \<noteq> 0) then (lk, Waits)
       else if ok then (\<lparr>active_threads = pack 0 1, waiting_threads = pack wr (ww - 1)\<rparr>, Locked)
       else (\<lparr>active_threads = pack r w, waiting_threads = pack wr (ww - 1)\<rparr>, Failed))"
    and "p_rwlock_writer_trylock lk =
      (if r \<noteq> 0 \<or> w \<noteq> 0 then (lk, False) else (\<lparr>active_threads = pack 0 1, waiting_threads = pack wr ww\<rparr>, True))"
    and "p_rwlock_writer_unlock lk =
      (\<lparr>active_threads = pack r 0, waiting_threads = pack wr ww\<rparr>,
       if ww \<noteq> 0 then Signal_write_cv else if wr \<noteq> 0 then Broadcast_read_cv else No_one)"
  using assms(1-5) pack_simps(1,2)[of wr ww] counter_add(2)[of ww n wr] counter_sub(2)[of ww n wr]
    counter_zero[of wr n] counter_zero[of ww n] set_writers[of r w] pack_zero[of r w]
  by (auto simp: lk_def writer_lock_enter_def writer_lock_woken_def p_rwlock_writer_trylock_def
      p_rwlock_writer_unlock_def Let_def)

section \<open>The invariant\<close>

definition rw_inv :: "nat \<Rightarrow> rw_sys \<Rightarrow> bool" where
  "rw_inv n s \<longleftrightarrow> lock s = counters n (pcs s) \<and> exclusive n (pcs s)"

text \<open>A thread that changes its state changes the four counts.\<close>

lemma counts_update:
  assumes "t < n" "f t = p"
  shows "cnt n is_reading (f(t := q)) = cnt n is_reading f - of_bool (is_reading p) + of_bool (is_reading q)"
    "cnt n is_writing (f(t := q)) = cnt n is_writing f - of_bool (is_writing p) + of_bool (is_writing q)"
    "cnt n waits_read (f(t := q)) = cnt n waits_read f - of_bool (waits_read p) + of_bool (waits_read q)"
    "cnt n waits_write (f(t := q)) = cnt n waits_write f - of_bool (waits_write p) + of_bool (waits_write q)"
    "of_bool (is_reading p) \<le> cnt n is_reading f" "of_bool (is_writing p) \<le> cnt n is_writing f"
    "of_bool (waits_read p) \<le> cnt n waits_read f" "of_bool (waits_write p) \<le> cnt n waits_write f"
proof -
  have pos: "of_bool (P p) \<le> cnt n P f" for P using cnt_zero[of n P f] assms by (cases "P p") auto
  show "of_bool (is_reading p) \<le> cnt n is_reading f" "of_bool (is_writing p) \<le> cnt n is_writing f"
    "of_bool (waits_read p) \<le> cnt n waits_read f" "of_bool (waits_write p) \<le> cnt n waits_write f" by (rule pos)+
  have *: "cnt n P (f(t := q)) = cnt n P f - of_bool (P p) + of_bool (P q)" for P
    using cnt_update[OF assms(1), of P f q] pos[of P] assms(2) by simp
  show "cnt n is_reading (f(t := q)) = cnt n is_reading f - of_bool (is_reading p) + of_bool (is_reading q)"
    "cnt n is_writing (f(t := q)) = cnt n is_writing f - of_bool (is_writing p) + of_bool (is_writing q)"
    "cnt n waits_read (f(t := q)) = cnt n waits_read f - of_bool (waits_read p) + of_bool (waits_read q)"
    "cnt n waits_write (f(t := q)) = cnt n waits_write f - of_bool (waits_write p) + of_bool (waits_write q)" by (rule *)+
qed

lemma rw_step_inv:
  assumes "rw_step fail n s s'" "rw_inv n s" "n < 2 ^ 15"
  shows "rw_inv n s'"
proof -
  let ?f = "pcs s"
  let ?r = "cnt n is_reading ?f" and ?w = "cnt n is_writing ?f" and ?wr = "cnt n waits_read ?f" and ?ww = "cnt n waits_write ?f"
  have lk: "lock s = \<lparr>active_threads = pack ?r ?w, waiting_threads = pack ?wr ?ww\<rparr>"
    using assms(2) by (simp add: rw_inv_def counters_def)
  have ex: "?w = 0 \<or> ?w = 1 \<and> ?r = 0" using assms(2) by (simp add: rw_inv_def exclusive_def)
  note le = assms(3) cnt_le[of n is_reading] cnt_le[of n is_writing] cnt_le[of n waits_read] cnt_le[of n waits_write]
  note rs = reader_sections[OF assms(3) le(2,3,4,5)] and ws = writer_sections[OF assms(3) le(2,3,4,5)]
  from assms(1) show ?thesis
  proof cases
    case (reader_lock t lk' v)
    note u = counts_update[where f = ?f, OF reader_lock(2,3)]
    have "?r < n" "?wr < n" using u(1,3)[of Reading] u(3)[of "Wait_read False"] le(2,4)[of "?f(t := Reading)"] le(4)[of "?f(t := Wait_read False)"]
      by (simp_all add: pc_tests)
    then show ?thesis using reader_lock(1,4) rs(1) u ex
      by (auto simp: lk rw_inv_def counters_def exclusive_def pc_tests split: if_splits)
  next
    case (reader_woken t ok lk' v)
    note u = counts_update[where f = ?f, OF reader_woken(2,3)]
    have "?r < n" "0 < ?wr" using u(1)[of Reading] u(7) le(2)[of "?f(t := Reading)"] by (simp_all add: pc_tests)
    then show ?thesis using reader_woken(1,5) rs(2)[where ok = ok] u ex
      by (auto simp: lk rw_inv_def counters_def exclusive_def pc_tests split: if_splits)
  next
    case (reader_try t lk' b)
    note u = counts_update[where f = ?f, OF reader_try(2,3)]
    have "?r < n" using u(1)[of Reading] le(2)[of "?f(t := Reading)"] by (simp_all add: pc_tests)
    then show ?thesis using reader_try(1,4) rs(3) u ex
      by (auto simp: lk rw_inv_def counters_def exclusive_def pc_tests split: if_splits)
  next
    case (reader_unlock t lk' w ok f)
    note u = counts_update[where f = ?f, OF reader_unlock(2,3)]
    have "0 < ?r" using u(5) by (simp add: pc_tests)
    then show ?thesis using reader_unlock(1,4) rs(4) u ex wakes_counts[OF reader_unlock(5)]
      by (auto simp: lk rw_inv_def counters_def exclusive_def pc_tests)
  next
    case (writer_lock t lk' v)
    note u = counts_update[where f = ?f, OF writer_lock(2,3)]
    have "?ww < n" using u(4)[of "Wait_write False"] le(5)[of "?f(t := Wait_write False)"]
      by (simp_all add: pc_tests)
    then show ?thesis using writer_lock(1,4) ws(1) u ex
      by (auto simp: lk rw_inv_def counters_def exclusive_def pc_tests split: if_splits)
  next
    case (writer_woken t ok lk' v)
    note u = counts_update[where f = ?f, OF writer_woken(2,3)]
    have "0 < ?ww" using u(8) by (simp_all add: pc_tests)
    then show ?thesis using writer_woken(1,5) ws(2)[where ok = ok] u ex
      by (auto simp: lk rw_inv_def counters_def exclusive_def pc_tests split: if_splits)
  next
    case (writer_try t lk' b)
    note u = counts_update[where f = ?f, OF writer_try(2,3)]
    then show ?thesis using writer_try(1,4) ws(3) ex
      by (auto simp: lk rw_inv_def counters_def exclusive_def pc_tests split: if_splits)
  next
    case (writer_unlock t lk' w ok f)
    note u = counts_update[where f = ?f, OF writer_unlock(2,3)]
    have "0 < ?w" using u(6) by (simp add: pc_tests)
    then show ?thesis using writer_unlock(1,4) ws(4) u ex wakes_counts[OF writer_unlock(5)]
      by (auto simp: lk rw_inv_def counters_def exclusive_def pc_tests)
  next
    case (spurious_read t)
    then show ?thesis using counts_update[where f = ?f, OF spurious_read(2,3)] lk ex
      by (simp add: rw_inv_def counters_def exclusive_def pc_tests)
  next
    case (spurious_write t)
    then show ?thesis using counts_update[where f = ?f, OF spurious_write(2,3)] lk ex
      by (simp add: rw_inv_def counters_def exclusive_def pc_tests)
  qed
qed

lemma rw_reachable_inv: "rw_reachable fail n s \<Longrightarrow> n < 2 ^ 15 \<Longrightarrow> rw_inv n s"
proof (induction rule: rw_reachable.induct)
  case start
  have "cnt n is_reading (\<lambda>_. Idle) = 0" "cnt n is_writing (\<lambda>_. Idle) = 0" "cnt n waits_read (\<lambda>_. Idle) = 0"
    "cnt n waits_write (\<lambda>_. Idle) = 0" by (simp_all add: cnt_zero pc_tests)
  then show ?case by (simp add: rw_inv_def rw_init_def counters_def exclusive_def pack_def)
qed (rule rw_step_inv)

section \<open>No wake-up is lost\<close>

text \<open>
  While a reader sleeps, a writer is active or waiting; while the lock is free and writers wait, one of
  them is awake.
\<close>

definition readers_watched :: "nat \<Rightarrow> (nat \<Rightarrow> pc) \<Rightarrow> bool" where
  "readers_watched n f \<longleftrightarrow>
     (\<forall>t < n. f t = Wait_read False \<longrightarrow> cnt n is_writing f \<noteq> 0 \<or> cnt n waits_write f \<noteq> 0)"

definition writers_watched :: "nat \<Rightarrow> (nat \<Rightarrow> pc) \<Rightarrow> bool" where
  "writers_watched n f \<longleftrightarrow>
     (cnt n is_reading f = 0 \<and> cnt n is_writing f = 0 \<and> cnt n waits_write f \<noteq> 0 \<longrightarrow> (\<exists>t < n. f t = Wait_write True))"

lemma readers_watched_update:
  "readers_watched n f \<Longrightarrow> t < n \<Longrightarrow> q \<noteq> Wait_read False \<Longrightarrow>
    (cnt n is_writing f \<noteq> 0 \<longrightarrow> cnt n is_writing (f(t := q)) \<noteq> 0 \<or> cnt n waits_write (f(t := q)) \<noteq> 0) \<Longrightarrow>
    (cnt n waits_write f \<noteq> 0 \<longrightarrow> cnt n is_writing (f(t := q)) \<noteq> 0 \<or> cnt n waits_write (f(t := q)) \<noteq> 0) \<Longrightarrow>
    readers_watched n (f(t := q))"
  by (auto simp: readers_watched_def)

lemma writers_watched_keep:
  "writers_watched n f \<Longrightarrow> t < n \<Longrightarrow> f t \<noteq> Wait_write True \<Longrightarrow>
    cnt n is_reading (f(t := q)) = cnt n is_reading f \<Longrightarrow> cnt n is_writing (f(t := q)) = cnt n is_writing f \<Longrightarrow>
    cnt n waits_write (f(t := q)) = cnt n waits_write f \<Longrightarrow> writers_watched n (f(t := q))"
  unfolding writers_watched_def by (metis fun_upd_other)

lemma signal_watches:
  assumes "wakes n Signal_write_cv f f'" "cnt n waits_write f \<noteq> 0"
  shows "\<exists>t < n. f' t = Wait_write True"
  using assms(1)
proof cases
  case signal_none
  obtain t where t: "t < n" "waits_write (f t)" using assms(2) by (auto simp: cnt_zero)
  then obtain b where "t < n" "f t = Wait_write b" by (cases "f t") (auto simp: pc_tests)
  then show ?thesis using signal_none by (cases b) auto
qed auto

lemma wakes_sleeping:
  "wakes n w f f' \<Longrightarrow> f' t = Wait_read False \<Longrightarrow> f t = Wait_read False \<and> w \<noteq> Broadcast_read_cv"
  by (erule wakes.cases) (auto split: if_splits pc.splits)

lemma rw_step_watched:
  assumes "rw_step False n s s'" "rw_inv n s" "n < 2 ^ 15" "readers_watched n (pcs s)" "writers_watched n (pcs s)"
  shows "readers_watched n (pcs s') \<and> writers_watched n (pcs s')"
proof -
  let ?f = "pcs s"
  let ?r = "cnt n is_reading ?f" and ?w = "cnt n is_writing ?f" and ?wr = "cnt n waits_read ?f" and ?ww = "cnt n waits_write ?f"
  have lk: "lock s = \<lparr>active_threads = pack ?r ?w, waiting_threads = pack ?wr ?ww\<rparr>"
    using assms(2) by (simp add: rw_inv_def counters_def)
  have ex: "?w = 0 \<or> ?w = 1 \<and> ?r = 0" using assms(2) by (simp add: rw_inv_def exclusive_def)
  note le = assms(3) cnt_le[of n is_reading] cnt_le[of n is_writing] cnt_le[of n waits_read] cnt_le[of n waits_write]
  note rs = reader_sections[OF assms(3) le(2,3,4,5)] and ws = writer_sections[OF assms(3) le(2,3,4,5)]
  note watched = assms(4,5)
  from assms(1) show ?thesis
  proof cases
    case (reader_lock t lk' v)
    note u = counts_update[where f = ?f, OF reader_lock(2,3)]
    have "?r < n" "?wr < n" using u(1,3)[of Reading] u(3)[of "Wait_read False"] le(2,4)[of "?f(t := Reading)"] le(4)[of "?f(t := Wait_read False)"]
      by (simp_all add: pc_tests)
    then show ?thesis using reader_lock rs(1) u watched
      by (auto simp: lk readers_watched_def writers_watched_def pc_tests split: if_splits)
  next
    case (reader_woken t ok lk' v)
    note u = counts_update[where f = ?f, OF reader_woken(2,3)]
    have "?r < n" "0 < ?wr" using u(1)[of Reading] u(7) le(2)[of "?f(t := Reading)"] by (simp_all add: pc_tests)
    then show ?thesis using reader_woken rs(2)[where ok = ok] u watched
      by (auto simp: lk readers_watched_def writers_watched_def pc_tests split: if_splits)
  next
    case (reader_try t lk' b)
    note u = counts_update[where f = ?f, OF reader_try(2,3)]
    have "?r < n" using u(1)[of Reading] le(2)[of "?f(t := Reading)"] by (simp_all add: pc_tests)
    then show ?thesis using reader_try rs(3) u watched
      by (auto simp: lk readers_watched_def writers_watched_def pc_tests split: if_splits)
  next
    case (reader_unlock t lk' w ok f)
    note u = counts_update[where f = ?f, OF reader_unlock(2,3)]
    note wk = wakes_counts[OF reader_unlock(5)]
    have r: "0 < ?r" using u(5) by (simp add: pc_tests)
    have w: "w = (if ?r = 1 \<and> ?ww \<noteq> 0 then Signal_write_cv else No_one)" and ok: "ok"
      using reader_unlock(4,6) rs(4)[OF r] by (simp_all add: lk)
    have "?f i = Wait_read False" if "f i = Wait_read False" for i
      using wakes_sleeping[OF reader_unlock(5) that] by (auto split: if_splits)
    then have "readers_watched n f"
      using watched(1) r ex wk u by (auto simp: readers_watched_def pc_tests)
    moreover have "writers_watched n f"
      using signal_watches[of n "?f(t := Idle)" f] reader_unlock(5) wk u r ex
      by (auto simp: writers_watched_def w ok pc_tests split: if_splits)
    ultimately show ?thesis using reader_unlock(1) by simp
  next
    case (writer_lock t lk' v)
    note u = counts_update[where f = ?f, OF writer_lock(2,3)]
    have "?ww < n" using u(4)[of "Wait_write False"] le(5)[of "?f(t := Wait_write False)"]
      by (simp_all add: pc_tests)
    then show ?thesis using writer_lock ws(1) u watched
      by (auto simp: lk readers_watched_def writers_watched_def pc_tests split: if_splits)
  next
    case (writer_woken t ok lk' v)
    note u = counts_update[where f = ?f, OF writer_woken(2,3)]
    have "0 < ?ww" using u(8) by (simp_all add: pc_tests)
    then show ?thesis using writer_woken ws(2)[where ok = ok] u watched
      by (auto simp: lk readers_watched_def writers_watched_def pc_tests split: if_splits)
  next
    case (writer_try t lk' b)
    note u = counts_update[where f = ?f, OF writer_try(2,3)]
    then show ?thesis using writer_try ws(3) watched
      by (auto simp: lk readers_watched_def writers_watched_def pc_tests split: if_splits)
  next
    case (writer_unlock t lk' w ok f)
    note u = counts_update[where f = ?f, OF writer_unlock(2,3)]
    note wk = wakes_counts[OF writer_unlock(5)]
    have r: "0 < ?w" using u(6) by (simp add: pc_tests)
    have w: "w = (if ?ww \<noteq> 0 then Signal_write_cv else if ?wr \<noteq> 0 then Broadcast_read_cv else No_one)" and ok: "ok"
      using writer_unlock(4,6) ws(4) by (simp_all add: lk)
    have "?ww = 0 \<Longrightarrow> f i \<noteq> Wait_read False" if "i < n" for i
    proof
      assume ww: "?ww = 0" and i: "f i = Wait_read False"
      with wakes_sleeping[OF writer_unlock(5) i] have "(?f(t := Idle)) i = Wait_read False" "?wr = 0"
        by (auto simp: w ok split: if_splits)
      then show False using that cnt_zero[of n waits_read ?f] by (auto simp: pc_tests split: if_splits)
    qed
    then have "readers_watched n f"
      using wk u by (auto simp: readers_watched_def pc_tests)
    moreover have "writers_watched n f"
      using signal_watches[of n "?f(t := Idle)" f] writer_unlock(5) wk u
      by (auto simp: writers_watched_def w ok pc_tests split: if_splits)
    ultimately show ?thesis using writer_unlock(1) by simp
  next
    case (spurious_read t)
    note u = counts_update[where f = ?f, OF spurious_read(2,3)]
    have "readers_watched n (pcs s')"
      using spurious_read u watched(1) by (auto simp: readers_watched_def pc_tests split: if_splits)
    moreover have "writers_watched n (pcs s')"
      using spurious_read u writers_watched_keep[OF watched(2) spurious_read(2), of "Wait_read True"] by (simp add: pc_tests)
    ultimately show ?thesis by blast
  next
    case (spurious_write t)
    then show ?thesis using counts_update[where f = ?f, OF spurious_write(2,3)] watched
      by (auto simp: readers_watched_def writers_watched_def pc_tests split: if_splits)
  qed
qed

lemma rw_reachable_watched:
  "rw_reachable False n s \<Longrightarrow> n < 2 ^ 15 \<Longrightarrow> readers_watched n (pcs s) \<and> writers_watched n (pcs s)"
proof (induction rule: rw_reachable.induct)
  case start
  then show ?case by (simp add: readers_watched_def writers_watched_def rw_init_def cnt_zero pc_tests)
next
  case (step s s')
  then show ?case using rw_step_watched rw_reachable_inv by blast
qed

section \<open>A run\<close>

text \<open>Thread 0 takes the write lock, thread 1 waits to read, thread 0 unlocks.\<close>

definition run_locked :: rw_sys where
  "run_locked = \<lparr>lock = \<lparr>active_threads = 0x8000, waiting_threads = 0\<rparr>, pcs = (\<lambda>_. Idle)(0 := Writing)\<rparr>"

definition run_waiting :: rw_sys where
  "run_waiting = \<lparr>lock = \<lparr>active_threads = 0x8000, waiting_threads = 1\<rparr>,
     pcs = (\<lambda>_. Idle)(0 := Writing, 1 := Wait_read False)\<rparr>"

definition run_free :: rw_sys where
  "run_free = \<lparr>lock = \<lparr>active_threads = 0, waiting_threads = 1\<rparr>, pcs = (\<lambda>_. Idle)(1 := Wait_read True)\<rparr>"

lemmas word_ops = P_RWLOCK_WRITER_COUNT_def P_RWLOCK_READER_COUNT_def P_RWLOCK_SET_READERS_def P_RWLOCK_SET_WRITERS_def

lemma run_reachable:
  "rw_reachable fail 2 run_locked" "rw_reachable fail 2 run_waiting" "rw_reachable fail 2 run_free"
proof -
  have "writer_lock_enter (lock rw_init) = (lock run_locked, Locked)"
    by (simp add: writer_lock_enter_def rw_init_def run_locked_def word_ops)
  from rw_step.writer_lock[OF _ _ this, of 0 2 fail] have "rw_step fail 2 rw_init run_locked"
    by (simp add: rw_init_def run_locked_def)
  with rw_reachable.start show l: "rw_reachable fail 2 run_locked" by (rule rw_reachable.step)
  have "reader_lock_enter (lock run_locked) = (lock run_waiting, Waits)"
    by (simp add: reader_lock_enter_def run_locked_def run_waiting_def word_ops)
  from rw_step.reader_lock[OF _ _ this, of 1 2 fail] have "rw_step fail 2 run_locked run_waiting"
    by (simp add: run_locked_def run_waiting_def)
  with l show w: "rw_reachable fail 2 run_waiting" by (rule rw_reachable.step)
  have "p_rwlock_writer_unlock (lock run_waiting) = (lock run_free, Broadcast_read_cv)"
    by (simp add: p_rwlock_writer_unlock_def run_waiting_def run_free_def word_ops)
  moreover have "(\<lambda>t. case ((pcs run_waiting)(0 := Idle)) t of Wait_read b \<Rightarrow> Wait_read True | p \<Rightarrow> p) = pcs run_free"
    by (auto simp: run_waiting_def run_free_def)
  then have "wakes 2 (if True then Broadcast_read_cv else No_one) ((pcs run_waiting)(0 := Idle)) (pcs run_free)"
    by (metis (full_types) wakes.broadcast)
  ultimately have "rw_step fail 2 run_waiting \<lparr>lock = lock run_free, pcs = pcs run_free\<rparr>"
    by (intro rw_step.writer_unlock[of 0 2 run_waiting "lock run_free" Broadcast_read_cv True]) (simp_all add: run_waiting_def)
  then have "rw_step fail 2 run_waiting run_free" by (simp add: run_free_def)
  with w show "rw_reachable fail 2 run_free" by (rule rw_reachable.step)
qed

section \<open>Properties\<close>

text \<open>
  C16.  Mutual exclusion: in every reachable state of fewer than 2 ^ 15 threads a thread that holds the
  write lock is the only one that holds the lock, even if waits and signals may fail or come spuriously.
\<close>

theorem rwlock_mutual_exclusion:
  assumes "rw_reachable fail n s" "n < 2 ^ 15" "t < n" "u < n" "pcs s t = Writing" "pcs s u \<in> {Reading, Writing}"
  shows "t = u"
proof (rule ccontr)
  assume tu: "t \<noteq> u"
  have ex: "exclusive n (pcs s)" using rw_reachable_inv[OF assms(1,2)] by (simp add: rw_inv_def)
  have "{t} \<subseteq> {i. i < n \<and> is_writing (pcs s i)}" using assms(3,5) by (simp add: pc_tests)
  then have "cnt n is_writing (pcs s) \<noteq> 0" using cnt_zero[of n is_writing "pcs s"] by auto
  then have w: "cnt n is_writing (pcs s) = 1" and r: "cnt n is_reading (pcs s) = 0" using ex by (auto simp: exclusive_def)
  show False
  proof (cases "pcs s u = Writing")
    case True
    then have "{t, u} \<subseteq> {i. i < n \<and> is_writing (pcs s i)}" using assms(3,4,5) by (simp add: pc_tests)
    then have "card {t, u} \<le> cnt n is_writing (pcs s)" unfolding cnt_def by (intro card_mono) auto
    then show False using tu w by simp
  next
    case False
    then show False using assms(4,6) r cnt_zero[of n is_reading "pcs s"] by (auto simp: pc_tests)
  qed
qed

theorem rwlock_mutual_exclusion_witness:
  "rw_reachable True 2 run_waiting \<and> pcs run_waiting 0 = Writing \<and> pcs run_waiting 1 \<noteq> Reading"
  using rwlock_mutual_exclusion[OF run_reachable(2), of 0 1] run_reachable(2) by (auto simp: run_waiting_def)

text \<open>
  C17.  The packed words count the threads in every reachable state of fewer than 2 ^ 15 threads.
\<close>

theorem rwlock_counters:
  assumes "rw_reachable fail n s" "n < 2 ^ 15"
  shows "unat (P_RWLOCK_READER_COUNT (active_threads (lock s))) = card {t. t < n \<and> pcs s t = Reading} \<and>
    unat (P_RWLOCK_WRITER_COUNT (active_threads (lock s))) = card {t. t < n \<and> pcs s t = Writing} \<and>
    unat (P_RWLOCK_READER_COUNT (waiting_threads (lock s))) = card {t. t < n \<and> (\<exists>b. pcs s t = Wait_read b)} \<and>
    unat (P_RWLOCK_WRITER_COUNT (waiting_threads (lock s))) = card {t. t < n \<and> (\<exists>b. pcs s t = Wait_write b)}"
proof -
  have small: "cnt n P f < 2 ^ 15" for P f using cnt_le[of n P f] assms(2) by simp
  have unat_k: "unat (of_nat k :: 32 word) = k" if "k < 2 ^ 15" for k
    using that by (simp add: unsigned_of_nat take_bit_nat_eq_self)
  have tests: "is_reading p \<longleftrightarrow> p = Reading" "is_writing p \<longleftrightarrow> p = Writing"
    "waits_read p \<longleftrightarrow> (\<exists>b. p = Wait_read b)" "waits_write p \<longleftrightarrow> (\<exists>b. p = Wait_write b)" for p
    by (simp_all add: pc_tests split: pc.split)
  have cards: "card {t. t < n \<and> pcs s t = Reading} = cnt n is_reading (pcs s)"
    "card {t. t < n \<and> pcs s t = Writing} = cnt n is_writing (pcs s)"
    "card {t. t < n \<and> (\<exists>b. pcs s t = Wait_read b)} = cnt n waits_read (pcs s)"
    "card {t. t < n \<and> (\<exists>b. pcs s t = Wait_write b)} = cnt n waits_write (pcs s)"
    by (simp_all add: cnt_def tests)
  have "lock s = counters n (pcs s)" using rw_reachable_inv[OF assms] by (simp add: rw_inv_def)
  then show ?thesis unfolding cards
    by (simp add: counters_def pack_simps(1,2)[OF small small] unat_k[OF small])
qed

theorem rwlock_counters_witness:
  "unat (P_RWLOCK_READER_COUNT (waiting_threads (lock run_waiting))) = card {t. t < 2 \<and> (\<exists>b. pcs run_waiting t = Wait_read b)}"
  using rwlock_counters[OF run_reachable(2)] by simp

text \<open>
  C18.  No deadlock: when condition variables do not fail, in every reachable state in which the lock is
  free and threads wait for it, some waiting thread is awake and its next step takes the lock.
\<close>

theorem rwlock_no_lost_wakeup:
  assumes "rw_reachable False n s" "n < 2 ^ 15"
    and "\<forall>t < n. pcs s t \<notin> {Reading, Writing}" "t < n" "pcs s t \<noteq> Idle"
  shows "\<exists>u < n. \<exists>s'. pcs s u \<in> {Wait_read True, Wait_write True} \<and> rw_step False n s s' \<and> pcs s' u \<in> {Reading, Writing}"
proof -
  let ?f = "pcs s"
  note inv = rw_reachable_inv[OF assms(1,2)] and wat = rw_reachable_watched[OF assms(1,2)]
  have zero: "cnt n is_reading ?f = 0" "cnt n is_writing ?f = 0"
    using assms(3) by (auto simp: cnt_zero pc_tests split: pc.splits)
  have lk: "lock s = \<lparr>active_threads = pack 0 0, waiting_threads = pack (cnt n waits_read ?f) (cnt n waits_write ?f)\<rparr>"
    using inv zero by (simp add: rw_inv_def counters_def)
  have reader_takes: "\<exists>s'. rw_step False n s s' \<and> pcs s' u \<in> {Reading, Writing}" if u: "u < n" "?f u = Wait_read True" for u
  proof -
    have "0 < cnt n waits_read ?f" using u cnt_zero[of n waits_read ?f] by (auto simp: pc_tests)
    then obtain lk' where "reader_lock_woken True (lock s) = (lk', Locked)"
      using reader_sections(2)[of n 0 0 "cnt n waits_read ?f" "cnt n waits_write ?f" True] assms(2) u(1) cnt_le[of n waits_read ?f] cnt_le[of n waits_write ?f] by (simp add: lk)
    from rw_step.reader_woken[OF u _ this, where fail = False] show ?thesis by (intro exI) auto
  qed
  have writer_takes: "\<exists>s'. rw_step False n s s' \<and> pcs s' u \<in> {Reading, Writing}" if u: "u < n" "?f u = Wait_write True" for u
  proof -
    have "0 < cnt n waits_write ?f" using u cnt_zero[of n waits_write ?f] by (auto simp: pc_tests)
    then obtain lk' where "writer_lock_woken True (lock s) = (lk', Locked)"
      using writer_sections(2)[of n 0 0 "cnt n waits_read ?f" "cnt n waits_write ?f" True] assms(2) cnt_le[of n waits_read ?f] cnt_le[of n waits_write ?f] by (simp add: lk)
    from rw_step.writer_woken[OF u _ this, where fail = False] show ?thesis by (intro exI) auto
  qed
  show ?thesis
  proof (cases "cnt n waits_write ?f = 0")
    case False
    then obtain u where "u < n" "?f u = Wait_write True" using wat zero by (auto simp: writers_watched_def)
    then show ?thesis using writer_takes by blast
  next
    case True
    then have "\<not> waits_write (?f t)" using assms(4) by (simp add: cnt_zero)
    then obtain b where b: "?f t = Wait_read b" using assms(3-5) by (cases "?f t") (auto simp: pc_tests)
    have "b" using wat b True zero assms(4) by (cases b) (auto simp: readers_watched_def)
    then show ?thesis using reader_takes[OF assms(4)] b assms(4) by auto
  qed
qed

theorem rwlock_no_lost_wakeup_witness:
  "\<exists>u < 2. \<exists>s'. rw_step False 2 run_free s' \<and> pcs s' u \<in> {Reading, Writing}"
proof -
  have "\<forall>t < 2. pcs run_free t \<notin> {Reading, Writing}" "pcs run_free 1 \<noteq> Idle" by (simp_all add: run_free_def)
  with rwlock_no_lost_wakeup[OF run_reachable(3), of 1] show ?thesis by auto
qed

text \<open>
  The limit of 2 ^ 15 threads is real: with 32767 active readers, one more reader turns the word into
  one active writer and no reader.
\<close>

theorem rwlock_reader_overflow:
  "reader_lock_enter \<lparr>active_threads = pack 32767 0, waiting_threads = wt\<rparr> =
    (\<lparr>active_threads = pack 0 1, waiting_threads = wt\<rparr>, Locked)"
  by (simp add: reader_lock_enter_def pack_def P_RWLOCK_WRITER_COUNT_def P_RWLOCK_READER_COUNT_def
      P_RWLOCK_SET_READERS_def)

text \<open>
  When the mutex or a condition variable cannot be made, \<open>p_rwlock_new\<close> frees the object, goes on
  writing to it, and returns it.
\<close>

theorem rwlock_new_dangling:
  assumes "\<not> (mutex_ok \<and> read_cv_ok \<and> write_cv_ok)"
  shows "fst (p_rwlock_new True mutex_ok read_cv_ok write_cv_ok) \<and>
    Free \<in> set (snd (p_rwlock_new True mutex_ok read_cv_ok write_cv_ok))"
  using assms by (auto simp: p_rwlock_new_def)

theorem rwlock_new_dangling_witness:
  "p_rwlock_new True False True True = (True, [Malloc, Store ''mutex'', Free, Store ''read_cv'', Store ''write_cv'']) \<and>
    Free \<in> set (snd (p_rwlock_new True False True True))"
  using rwlock_new_dangling[of False True True] by (simp add: p_rwlock_new_def)

end
