(* ===== verification/PAtomic.thy ===== *)
theory PAtomic
  imports Prelude
begin

text \<open>
  The atomic operations as \<open>patomic-sim.c\<close> simulates them.  Every operation is one section under the global
  mutex, so it is a function from the value of the cell to its new value and the result.  \<open>int\<close> and pointer
  operations work on 32 and 64 bits.
\<close>

type_synonym pint = "32 word"
type_synonym pword = "64 word"

section \<open>32-bit cells\<close>

definition p_atomic_int_get :: "pint \<Rightarrow> pint \<times> pint" where
  "p_atomic_int_get cell = (cell, cell)"

definition p_atomic_int_set :: "pint \<Rightarrow> pint \<Rightarrow> pint" where
  "p_atomic_int_set cell val = val"

definition p_atomic_int_inc :: "pint \<Rightarrow> pint" where
  "p_atomic_int_inc cell = cell + 1"

definition p_atomic_int_dec_and_test :: "pint \<Rightarrow> pint \<times> bool" where
  "p_atomic_int_dec_and_test cell = (cell - 1, cell - 1 = 0)"

definition p_atomic_int_compare_and_exchange :: "pint \<Rightarrow> pint \<Rightarrow> pint \<Rightarrow> pint \<times> bool" where
  "p_atomic_int_compare_and_exchange cell oldval newval =
     (let success = (cell = oldval) in (if success then newval else cell, success))"

definition p_atomic_int_add :: "pint \<Rightarrow> pint \<Rightarrow> pint \<times> pint" where
  "p_atomic_int_add cell val = (cell + val, cell)"

definition p_atomic_int_and :: "pint \<Rightarrow> pint \<Rightarrow> pint \<times> pint" where
  "p_atomic_int_and cell val = (and cell val, cell)"

definition p_atomic_int_or :: "pint \<Rightarrow> pint \<Rightarrow> pint \<times> pint" where
  "p_atomic_int_or cell val = (or cell val, cell)"

definition p_atomic_int_xor :: "pint \<Rightarrow> pint \<Rightarrow> pint \<times> pint" where
  "p_atomic_int_xor cell val = (xor cell val, cell)"

section \<open>Pointer-sized cells\<close>

definition p_atomic_pointer_get :: "pword \<Rightarrow> pword \<times> pword" where
  "p_atomic_pointer_get cell = (cell, cell)"

definition p_atomic_pointer_set :: "pword \<Rightarrow> pword \<Rightarrow> pword" where
  "p_atomic_pointer_set cell val = val"

definition p_atomic_pointer_compare_and_exchange :: "pword \<Rightarrow> pword \<Rightarrow> pword \<Rightarrow> pword \<times> bool" where
  "p_atomic_pointer_compare_and_exchange cell oldval newval =
     (let success = (cell = oldval) in (if success then newval else cell, success))"

definition p_atomic_pointer_add :: "pword \<Rightarrow> pword \<Rightarrow> pword \<times> pword" where
  "p_atomic_pointer_add cell val = (cell + val, cell)"

definition p_atomic_pointer_and :: "pword \<Rightarrow> pword \<Rightarrow> pword \<times> pword" where
  "p_atomic_pointer_and cell val = (and cell val, cell)"

definition p_atomic_pointer_or :: "pword \<Rightarrow> pword \<Rightarrow> pword \<times> pword" where
  "p_atomic_pointer_or cell val = (or cell val, cell)"

definition p_atomic_pointer_xor :: "pword \<Rightarrow> pword \<Rightarrow> pword \<times> pword" where
  "p_atomic_pointer_xor cell val = (xor cell val, cell)"

definition p_atomic_is_lock_free :: bool where
  "p_atomic_is_lock_free = False"

section \<open>Compare and exchange\<close>

lemma compare_and_exchange_simps [simp]:
  "p_atomic_int_compare_and_exchange cell oldval newval = (if cell = oldval then (newval, True) else (cell, False))"
  "p_atomic_pointer_compare_and_exchange c o' n = (if c = o' then (n, True) else (c, False))"
  by (simp_all add: p_atomic_int_compare_and_exchange_def p_atomic_pointer_compare_and_exchange_def)

lemma atomic_get_simps [simp]: "p_atomic_int_get cell = (cell, cell)" "p_atomic_pointer_get c = (c, c)"
  by (simp_all add: p_atomic_int_get_def p_atomic_pointer_get_def)

end
