(* ===== verification/PRWLockXp.thy ===== *)
theory PRWLockXp
  imports PAtomic PThreads
begin

unbundle bit_operations_syntax

text \<open>
  The read-write lock for Windows XP (\<open>prwlock-win.c\<close>): one word that holds a writer bit, the number of readers
  and the number of waiting threads, changed by compare-and-exchange, and an event on which threads wait.  Each
  function is a transition function over its control points; one transition is one access to shared memory
  with the local computation after it.  \<open>None\<close> means that the thread is blocked.
\<close>

section \<open>The word\<close>

definition P_RWLOCK_XP_MAX_SPIN :: int where "P_RWLOCK_XP_MAX_SPIN = 4000"

definition P_RWLOCK_XP_IS_CLEAR :: "32 word \<Rightarrow> bool" where
  "P_RWLOCK_XP_IS_CLEAR lck \<longleftrightarrow> lck AND 0x40007FFF = 0"

definition P_RWLOCK_XP_IS_WRITER :: "32 word \<Rightarrow> bool" where
  "P_RWLOCK_XP_IS_WRITER lck \<longleftrightarrow> lck AND 0x40000000 \<noteq> 0"

definition P_RWLOCK_XP_SET_WRITER :: "32 word \<Rightarrow> 32 word" where
  "P_RWLOCK_XP_SET_WRITER lck = lck OR 0x40000000"

definition P_RWLOCK_XP_UNSET_WRITER :: "32 word \<Rightarrow> 32 word" where
  "P_RWLOCK_XP_UNSET_WRITER lck = lck AND NOT 0x40000000"

definition P_RWLOCK_XP_SET_READERS :: "32 word \<Rightarrow> 32 word \<Rightarrow> 32 word" where
  "P_RWLOCK_XP_SET_READERS lck readers = (lck AND NOT 0x00007FFF) OR readers"

definition P_RWLOCK_XP_READER_COUNT :: "32 word \<Rightarrow> 32 word" where
  "P_RWLOCK_XP_READER_COUNT lck = lck AND 0x00007FFF"

definition P_RWLOCK_XP_SET_WAITING :: "32 word \<Rightarrow> 32 word \<Rightarrow> 32 word" where
  "P_RWLOCK_XP_SET_WAITING lck waiting = (lck AND NOT 0x3FFF8000) OR push_bit 15 waiting"

definition P_RWLOCK_XP_WAITING_COUNT :: "32 word \<Rightarrow> 32 word" where
  "P_RWLOCK_XP_WAITING_COUNT lck = drop_bit 15 (lck AND 0x3FFF8000)"

text \<open>The event resets itself when a thread has waited for it.\<close>

record PRWLockXP =
  xp_lock :: "32 word"
  xp_event :: bool

definition cas :: "PRWLockXP \<Rightarrow> 32 word \<Rightarrow> 32 word \<Rightarrow> PRWLockXP \<times> bool" where
  "cas lk oldval newval =
     (case p_atomic_int_compare_and_exchange (xp_lock lk) oldval newval of
        (w, success) \<Rightarrow> (lk\<lparr>xp_lock := w\<rparr>, success))"

text \<open>The object; the flags say whether memory and the event can be had.\<close>

definition pp_rwlock_init_xp :: "bool \<Rightarrow> bool \<Rightarrow> PRWLockXP option" where
  "pp_rwlock_init_xp mem event_ok =
     (if \<not> mem then None
      else if \<not> event_ok then None
      else Some \<lparr>xp_lock = 0, xp_event = False\<rparr>)"

section \<open>Locking\<close>

text \<open>
  The loops of \<open>pp_rwlock_start_read_xp\<close> and \<open>pp_rwlock_start_write_xp\<close>: before the word is read in round \<open>i\<close> (a 32-bit
  \<open>int\<close>), with the word read, waiting for the event, and the inner loop that takes the thread out of the waiting count.
  \<open>ok\<close> says whether the system call of a transition succeeds; \<open>WaitForSingleObject\<close> and \<open>SetEvent\<close> may fail,
  which the code ignores.
\<close>

datatype lock_point = Loop "32 word" | Seen "32 word" "32 word" | Wait | Unregister | Unregister_seen "32 word" | Got

definition register_waiting :: "PRWLockXP \<Rightarrow> 32 word \<Rightarrow> 32 word \<Rightarrow> PRWLockXP \<times> lock_point" where
  "register_waiting lk i tmp_lock =
     (if sint i < P_RWLOCK_XP_MAX_SPIN then (lk, Loop (i + 1))
      else
        (let counter = P_RWLOCK_XP_SET_WAITING tmp_lock (P_RWLOCK_XP_WAITING_COUNT tmp_lock + 1)
         in case cas lk tmp_lock counter of (lk', success) \<Rightarrow> (lk', if success then Wait else Loop (i + 1))))"

fun wait_and_unregister :: "bool \<Rightarrow> PRWLockXP \<Rightarrow> lock_point \<Rightarrow> (PRWLockXP \<times> lock_point) option" where
  "wait_and_unregister ok lk Wait =
     (if \<not> ok then Some (lk, Unregister)
      else if xp_event lk then Some (lk\<lparr>xp_event := False\<rparr>, Unregister)
      else None)"
| "wait_and_unregister ok lk Unregister =
     Some (lk, Unregister_seen (snd (p_atomic_int_get (xp_lock lk))))"
| "wait_and_unregister ok lk (Unregister_seen tmp_lock) =
     (let counter = P_RWLOCK_XP_SET_WAITING tmp_lock (P_RWLOCK_XP_WAITING_COUNT tmp_lock - 1)
      in case cas lk tmp_lock counter of (lk', success) \<Rightarrow> Some (lk', if success then Loop 1 else Unregister))"
| "wait_and_unregister ok lk p = None"

fun pp_rwlock_start_read_xp :: "bool \<Rightarrow> PRWLockXP \<Rightarrow> lock_point \<Rightarrow> (PRWLockXP \<times> lock_point) option" where
  "pp_rwlock_start_read_xp ok lk (Loop i) = Some (lk, Seen i (snd (p_atomic_int_get (xp_lock lk))))"
| "pp_rwlock_start_read_xp ok lk (Seen i tmp_lock) =
     Some (if \<not> P_RWLOCK_XP_IS_WRITER tmp_lock
       then (let counter = P_RWLOCK_XP_SET_READERS tmp_lock (P_RWLOCK_XP_READER_COUNT tmp_lock + 1)
         in case cas lk tmp_lock counter of (lk', success) \<Rightarrow> (lk', if success then Got else Loop (i + 1)))
       else register_waiting lk i tmp_lock)"
| "pp_rwlock_start_read_xp ok lk p = wait_and_unregister ok lk p"

fun pp_rwlock_start_write_xp :: "bool \<Rightarrow> PRWLockXP \<Rightarrow> lock_point \<Rightarrow> (PRWLockXP \<times> lock_point) option" where
  "pp_rwlock_start_write_xp ok lk (Loop i) = Some (lk, Seen i (snd (p_atomic_int_get (xp_lock lk))))"
| "pp_rwlock_start_write_xp ok lk (Seen i tmp_lock) =
     Some (if P_RWLOCK_XP_IS_CLEAR tmp_lock
       then (case cas lk tmp_lock (P_RWLOCK_XP_SET_WRITER tmp_lock) of
           (lk', success) \<Rightarrow> (lk', if success then Got else Loop (i + 1)))
       else register_waiting lk i tmp_lock)"
| "pp_rwlock_start_write_xp ok lk p = wait_and_unregister ok lk p"

text \<open>The \<open>try\<close> functions: before the word is read, with the word read, and the result.\<close>

datatype try_point = Try | Try_seen "32 word" | Tried bool

fun pp_rwlock_start_read_try_xp :: "PRWLockXP \<Rightarrow> try_point \<Rightarrow> PRWLockXP \<times> try_point" where
  "pp_rwlock_start_read_try_xp lk Try =
     (let tmp_lock = snd (p_atomic_int_get (xp_lock lk))
      in (lk, if P_RWLOCK_XP_IS_WRITER tmp_lock then Tried False else Try_seen tmp_lock))"
| "pp_rwlock_start_read_try_xp lk (Try_seen tmp_lock) =
     (let counter = P_RWLOCK_XP_SET_READERS tmp_lock (P_RWLOCK_XP_READER_COUNT tmp_lock + 1)
      in case cas lk tmp_lock counter of (lk', success) \<Rightarrow> (lk', Tried success))"
| "pp_rwlock_start_read_try_xp lk (Tried b) = (lk, Tried b)"

fun pp_rwlock_start_write_try_xp :: "PRWLockXP \<Rightarrow> try_point \<Rightarrow> PRWLockXP \<times> try_point" where
  "pp_rwlock_start_write_try_xp lk Try =
     (let tmp_lock = snd (p_atomic_int_get (xp_lock lk))
      in (lk, if P_RWLOCK_XP_IS_CLEAR tmp_lock then Try_seen tmp_lock else Tried False))"
| "pp_rwlock_start_write_try_xp lk (Try_seen tmp_lock) =
     (case cas lk tmp_lock (P_RWLOCK_XP_SET_WRITER tmp_lock) of (lk', success) \<Rightarrow> (lk', Tried success))"
| "pp_rwlock_start_write_try_xp lk (Tried b) = (lk, Tried b)"

section \<open>Unlocking\<close>

text \<open>Before the word is read, before \<open>SetEvent\<close>, before the exchange, and returned.\<close>

datatype unlock_point = Top | Signal "32 word" | Exchange "32 word" | Done

fun pp_rwlock_end_read_xp :: "bool \<Rightarrow> PRWLockXP \<Rightarrow> unlock_point \<Rightarrow> PRWLockXP \<times> unlock_point" where
  "pp_rwlock_end_read_xp ok lk Top =
     (let tmp_lock = snd (p_atomic_int_get (xp_lock lk));
          counter = P_RWLOCK_XP_READER_COUNT tmp_lock
      in (lk, if counter = 0 then Done
              else if counter = 1 \<and> P_RWLOCK_XP_WAITING_COUNT tmp_lock \<noteq> 0 then Signal tmp_lock
              else Exchange tmp_lock))"
| "pp_rwlock_end_read_xp ok lk (Signal tmp_lock) = (if ok then lk\<lparr>xp_event := True\<rparr> else lk, Exchange tmp_lock)"
| "pp_rwlock_end_read_xp ok lk (Exchange tmp_lock) =
     (let counter = P_RWLOCK_XP_SET_READERS tmp_lock (P_RWLOCK_XP_READER_COUNT tmp_lock - 1)
      in case cas lk tmp_lock counter of (lk', success) \<Rightarrow> (lk', if success then Done else Top))"
| "pp_rwlock_end_read_xp ok lk Done = (lk, Done)"

fun pp_rwlock_end_write_xp :: "bool \<Rightarrow> PRWLockXP \<Rightarrow> unlock_point \<Rightarrow> PRWLockXP \<times> unlock_point" where
  "pp_rwlock_end_write_xp ok lk Top =
     (let tmp_lock = snd (p_atomic_int_get (xp_lock lk))
      in (lk, if \<not> P_RWLOCK_XP_IS_WRITER tmp_lock then Done
              else if P_RWLOCK_XP_WAITING_COUNT tmp_lock = 0 then Exchange tmp_lock
              else Signal tmp_lock))"
| "pp_rwlock_end_write_xp ok lk (Signal tmp_lock) = (if ok then lk\<lparr>xp_event := True\<rparr> else lk, Top)"
| "pp_rwlock_end_write_xp ok lk (Exchange tmp_lock) =
     (case cas lk tmp_lock (P_RWLOCK_XP_UNSET_WRITER tmp_lock) of (lk', success) \<Rightarrow> (lk', if success then Done else Top))"
| "pp_rwlock_end_write_xp ok lk Done = (lk, Done)"

section \<open>Threads\<close>

text \<open>
  A thread is outside, in one of the six functions, or holds the lock.  Threads unlock what they hold.
\<close>

datatype xp_pc =
    Outside
  | Read_lock lock_point
  | Write_lock lock_point
  | Read_try try_point
  | Write_try try_point
  | Holds_read
  | Holds_write
  | Read_unlock unlock_point
  | Write_unlock unlock_point

record xp_sys =
  rwl :: PRWLockXP
  xpcs :: "nat \<Rightarrow> xp_pc"

fun after_lock :: "bool \<Rightarrow> lock_point \<Rightarrow> xp_pc" where
  "after_lock wr Got = (if wr then Holds_write else Holds_read)"
| "after_lock wr p = (if wr then Write_lock p else Read_lock p)"

fun after_try :: "bool \<Rightarrow> try_point \<Rightarrow> xp_pc" where
  "after_try wr (Tried b) = (if \<not> b then Outside else if wr then Holds_write else Holds_read)"
| "after_try wr p = (if wr then Write_try p else Read_try p)"

fun after_unlock :: "bool \<Rightarrow> unlock_point \<Rightarrow> xp_pc" where
  "after_unlock wr Done = Outside"
| "after_unlock wr p = (if wr then Write_unlock p else Read_unlock p)"

text \<open>What a thread does next in the function it is in.\<close>

fun xp_run :: "bool \<Rightarrow> PRWLockXP \<Rightarrow> xp_pc \<Rightarrow> (PRWLockXP \<times> xp_pc) option" where
  "xp_run ok lk (Read_lock p) = map_option (map_prod id (after_lock False)) (pp_rwlock_start_read_xp ok lk p)"
| "xp_run ok lk (Write_lock p) = map_option (map_prod id (after_lock True)) (pp_rwlock_start_write_xp ok lk p)"
| "xp_run ok lk (Read_try p) = Some (map_prod id (after_try False) (pp_rwlock_start_read_try_xp lk p))"
| "xp_run ok lk (Write_try p) = Some (map_prod id (after_try True) (pp_rwlock_start_write_try_xp lk p))"
| "xp_run ok lk (Read_unlock p) = Some (map_prod id (after_unlock False) (pp_rwlock_end_read_xp ok lk p))"
| "xp_run ok lk (Write_unlock p) = Some (map_prod id (after_unlock True) (pp_rwlock_end_write_xp ok lk p))"
| "xp_run ok lk p = None"

text \<open>The functions a thread can call.\<close>

fun xp_call :: "xp_pc \<Rightarrow> xp_pc set" where
  "xp_call Outside = {Read_lock (Loop 0), Write_lock (Loop 0), Read_try Try, Write_try Try}"
| "xp_call Holds_read = {Read_unlock Top}"
| "xp_call Holds_write = {Write_unlock Top}"
| "xp_call _ = {}"

inductive xp_step :: "bool \<Rightarrow> nat \<Rightarrow> xp_sys \<Rightarrow> xp_sys \<Rightarrow> bool" for faults n where
  call: "t < n \<Longrightarrow> p \<in> xp_call (xpcs s t) \<Longrightarrow> xp_step faults n s (s\<lparr>xpcs := (xpcs s)(t := p)\<rparr>)"
| run: "t < n \<Longrightarrow> ok \<or> faults \<Longrightarrow> xp_run ok (rwl s) (xpcs s t) = Some (lk, p) \<Longrightarrow>
    xp_step faults n s \<lparr>rwl = lk, xpcs = (xpcs s)(t := p)\<rparr>"

definition xp_init :: xp_sys where
  "xp_init = \<lparr>rwl = \<lparr>xp_lock = 0, xp_event = False\<rparr>, xpcs = (\<lambda>_. Outside)\<rparr>"

inductive xp_reachable :: "bool \<Rightarrow> nat \<Rightarrow> xp_sys \<Rightarrow> bool" for faults n where
  start: "xp_reachable faults n xp_init"
| step: "xp_reachable faults n s \<Longrightarrow> xp_step faults n s s' \<Longrightarrow> xp_reachable faults n s'"

end
