(* ===== verification/PRWLockXpProps.thy ===== *)
theory PRWLockXpProps
  imports PRWLockXp
begin

unbundle bit_operations_syntax

text \<open>
  The word of the Windows XP lock counts the threads in every reachable state, and a writer is alone.  A writer
  that releases leaves no thread registered as waiting; a reader that releases can leave a thread asleep.
\<close>

section \<open>The word holds two numbers and a bit\<close>

definition xpack :: "nat \<Rightarrow> nat \<Rightarrow> bool \<Rightarrow> 32 word" where
  "xpack r w b = of_nat r OR push_bit 15 (of_nat w) OR push_bit 30 (of_bool b)"

lemma xp_masks: "0x00007FFF = (mask 15 :: 32 word)" "0x3FFF8000 = push_bit 15 (mask 15 :: 32 word)"
  "0x40000000 = push_bit 30 (1 :: 32 word)" "0x40007FFF = (mask 15 OR push_bit 30 1 :: 32 word)"
  by (simp_all add: mask_eq_exp_minus_1)

lemma bit_writer: "bit (0x40000000 :: 32 word) n \<longleftrightarrow> n = 30" "bit (0x40000000 :: int) n \<longleftrightarrow> n = 30"
proof -
  have "(0x40000000 :: 32 word) = 2 ^ 30" "(0x40000000 :: int) = 2 ^ 30" by simp_all
  then show "bit (0x40000000 :: 32 word) n \<longleftrightarrow> n = 30" "bit (0x40000000 :: int) n \<longleftrightarrow> n = 30"
    by (simp_all only: bit_exp_iff) auto
qed

lemma of_nat_word_zero: "k < 2 ^ 15 \<Longrightarrow> (of_nat k :: 32 word) = 0 \<longleftrightarrow> k = 0"
  by (rule counter_zero[of k k]) simp_all

lemma xpack_fields:
  assumes "r < 2 ^ 15" "w < 2 ^ 15"
  shows "P_RWLOCK_XP_READER_COUNT (xpack r w b) = of_nat r"
    and "P_RWLOCK_XP_WAITING_COUNT (xpack r w b) = of_nat w"
    and "xpack r w b AND 0x40000000 = push_bit 30 (of_bool b)"
    and "P_RWLOCK_XP_SET_WRITER (xpack r w b) = xpack r w True"
    and "P_RWLOCK_XP_UNSET_WRITER (xpack r w b) = xpack r w False"
    and "r' < 2 ^ 15 \<Longrightarrow> P_RWLOCK_XP_SET_READERS (xpack r w b) (of_nat r') = xpack r' w b"
    and "w' < 2 ^ 15 \<Longrightarrow> P_RWLOCK_XP_SET_WAITING (xpack r w b) (of_nat w') = xpack r w' b"
  unfolding P_RWLOCK_XP_READER_COUNT_def P_RWLOCK_XP_WAITING_COUNT_def P_RWLOCK_XP_SET_WRITER_def
    P_RWLOCK_XP_UNSET_WRITER_def P_RWLOCK_XP_SET_READERS_def P_RWLOCK_XP_SET_WAITING_def xpack_def xp_masks
proof -
  note b = bit_small[OF _ assms(1)] bit_small[OF _ assms(2)]
  show "(of_nat r OR push_bit 15 (of_nat w) OR push_bit 30 (of_bool b)) AND mask 15 = (of_nat r :: 32 word)"
    by (rule bit_word_eqI) (auto simp: bit_simps bit_writer dest: b)
  show "drop_bit 15 ((of_nat r OR push_bit 15 (of_nat w) OR push_bit 30 (of_bool b)) AND push_bit 15 (mask 15)) = (of_nat w :: 32 word)"
    by (rule bit_word_eqI) (auto simp: bit_simps bit_writer dest: b)
  show "(of_nat r OR push_bit 15 (of_nat w) OR push_bit 30 (of_bool b)) AND push_bit 30 1 = (push_bit 30 (of_bool b) :: 32 word)"
    by (rule bit_word_eqI) (auto simp: bit_simps bit_writer dest: b)
  show "(of_nat r OR push_bit 15 (of_nat w) OR push_bit 30 (of_bool b)) OR push_bit 30 1 =
      (of_nat r OR push_bit 15 (of_nat w) OR push_bit 30 (of_bool True) :: 32 word)"
    by (rule bit_word_eqI) (auto simp: bit_simps bit_writer dest: b)
  show "(of_nat r OR push_bit 15 (of_nat w) OR push_bit 30 (of_bool b)) AND NOT (push_bit 30 1) =
      (of_nat r OR push_bit 15 (of_nat w) OR push_bit 30 (of_bool False) :: 32 word)"
    by (rule bit_word_eqI) (auto simp: bit_simps bit_writer dest: b)
  show "(of_nat r OR push_bit 15 (of_nat w) OR push_bit 30 (of_bool b)) AND NOT (mask 15) OR of_nat r' =
      (of_nat r' OR push_bit 15 (of_nat w) OR push_bit 30 (of_bool b) :: 32 word)" if "r' < 2 ^ 15"
    by (rule bit_word_eqI) (auto simp: bit_simps bit_writer dest: b bit_small[OF _ that])
  show "(of_nat r OR push_bit 15 (of_nat w) OR push_bit 30 (of_bool b)) AND NOT (push_bit 15 (mask 15)) OR push_bit 15 (of_nat w') =
      (of_nat r OR push_bit 15 (of_nat w') OR push_bit 30 (of_bool b) :: 32 word)" if "w' < 2 ^ 15"
    by (rule bit_word_eqI) (auto simp: bit_simps bit_writer dest: b bit_small[OF _ that])
qed

lemma xpack_writer: "r < 2 ^ 15 \<Longrightarrow> w < 2 ^ 15 \<Longrightarrow> P_RWLOCK_XP_IS_WRITER (xpack r w b) \<longleftrightarrow> b"
  by (simp add: P_RWLOCK_XP_IS_WRITER_def xpack_fields(3))

lemma xpack_clear:
  assumes "r < 2 ^ 15" "w < 2 ^ 15"
  shows "P_RWLOCK_XP_IS_CLEAR (xpack r w b) \<longleftrightarrow> r = 0 \<and> \<not> b"
proof -
  have "xpack r w b AND 0x40007FFF = P_RWLOCK_XP_READER_COUNT (xpack r w b) OR (xpack r w b AND 0x40000000)"
    unfolding P_RWLOCK_XP_READER_COUNT_def xp_masks by (rule bit_word_eqI) (auto simp: bit_simps bit_writer)
  then show ?thesis using assms
    by (simp add: P_RWLOCK_XP_IS_CLEAR_def xpack_fields or_eq_0_iff of_nat_word_zero)
qed

lemma xpack_steps:
  assumes "r < 2 ^ 15" "w < 2 ^ 15"
  shows "Suc r < 2 ^ 15 \<Longrightarrow> P_RWLOCK_XP_SET_READERS (xpack r w b) (of_nat r + 1) = xpack (Suc r) w b"
    and "Suc w < 2 ^ 15 \<Longrightarrow> P_RWLOCK_XP_SET_WAITING (xpack r w b) (of_nat w + 1) = xpack r (Suc w) b"
    and "0 < r \<Longrightarrow> P_RWLOCK_XP_SET_READERS (xpack r w b) (of_nat r - 1) = xpack (r - 1) w b"
    and "0 < w \<Longrightarrow> P_RWLOCK_XP_SET_WAITING (xpack r w b) (of_nat w - 1) = xpack r (w - 1) b"
  using assms xpack_fields(6)[OF assms, of "Suc r" b] xpack_fields(7)[OF assms, of "Suc w" b]
    xpack_fields(6)[OF assms, of "r - 1" b] xpack_fields(7)[OF assms, of "w - 1" b]
  by (simp_all add: add.commute of_nat_diff)

lemmas xpack_lemmas = xpack_fields(1,2,4,5) xpack_writer xpack_clear xpack_steps of_nat_word_zero

section \<open>What one transition does to the counters\<close>

fun registered :: "lock_point \<Rightarrow> bool" where
  "registered Wait = True"
| "registered Unregister = True"
| "registered (Unregister_seen w) = True"
| "registered p = False"

text \<open>
  The three kinds of transition of a locking function: the counters stay, or a thread registers as waiting or
  takes itself out again.
\<close>

definition waits_or_stays :: "nat \<Rightarrow> nat \<Rightarrow> bool \<Rightarrow> lock_point \<Rightarrow> PRWLockXP \<Rightarrow> lock_point \<Rightarrow> bool" where
  "waits_or_stays r w b p lk' p' \<longleftrightarrow> p' \<noteq> Got \<and>
     (registered p' = registered p \<and> xp_lock lk' = xpack r w b \<or>
      registered p' \<and> \<not> registered p \<and> xp_lock lk' = xpack r (Suc w) b \<or>
      \<not> registered p' \<and> registered p \<and> xp_lock lk' = xpack r (w - 1) b)"

lemma cas_cases:
  "cas lk v v' = (lk', ok) \<Longrightarrow> if ok then xp_lock lk = v \<and> lk' = lk\<lparr>xp_lock := v'\<rparr> else lk' = lk"
  by (auto simp: cas_def split: if_splits)

lemma register_effect:
  assumes "xp_lock lk = xpack r w b" "r < 2 ^ 15" "Suc w < 2 ^ 15" "register_waiting lk i v = (lk', p')"
  shows "waits_or_stays r w b (Seen i v) lk' p'"
  using assms
  by (auto simp: register_waiting_def waits_or_stays_def xpack_lemmas split: prod.splits if_splits dest!: cas_cases)

lemma wait_effect:
  assumes "xp_lock lk = xpack r w b" "r < 2 ^ 15" "w < 2 ^ 15" "registered p \<longrightarrow> 0 < w"
    "wait_and_unregister ok lk p = Some (lk', p')"
  shows "waits_or_stays r w b p lk' p'"
  using assms
  by (cases p) (auto simp: waits_or_stays_def xpack_lemmas Let_def split: prod.splits if_splits dest!: cas_cases)

lemma start_read_effect:
  assumes "xp_lock lk = xpack r w b" "Suc r < 2 ^ 15" "w < 2 ^ 15" "registered p \<longrightarrow> 0 < w"
    "\<not> registered p \<longrightarrow> Suc w < 2 ^ 15" "pp_rwlock_start_read_xp ok lk p = Some (lk', p')"
  shows "waits_or_stays r w b p lk' p' \<or>
    \<not> b \<and> \<not> registered p \<and> p' = Got \<and> xp_lock lk' = xpack (Suc r) w False"
proof (cases p)
  case (Seen i v)
  show ?thesis
  proof (cases "P_RWLOCK_XP_IS_WRITER v")
    case True
    then show ?thesis using assms Seen register_effect[of lk r w b i v lk' p'] by simp
  next
    case False
    then show ?thesis using assms Seen
      by (auto simp: waits_or_stays_def xpack_lemmas Let_def split: prod.splits if_splits dest!: cas_cases)
  qed
next
  case (Loop i)
  then show ?thesis using assms by (auto simp: waits_or_stays_def)
qed (use assms wait_effect[of lk r w b p ok lk' p'] in simp_all)

lemma start_write_effect:
  assumes "xp_lock lk = xpack r w b" "r < 2 ^ 15" "w < 2 ^ 15" "registered p \<longrightarrow> 0 < w"
    "\<not> registered p \<longrightarrow> Suc w < 2 ^ 15" "pp_rwlock_start_write_xp ok lk p = Some (lk', p')"
  shows "waits_or_stays r w b p lk' p' \<or>
    \<not> b \<and> r = 0 \<and> \<not> registered p \<and> p' = Got \<and> xp_lock lk' = xpack 0 w True"
proof (cases p)
  case (Seen i v)
  show ?thesis
  proof (cases "P_RWLOCK_XP_IS_CLEAR v")
    case False
    then show ?thesis using assms Seen register_effect[of lk r w b i v lk' p'] by simp
  next
    case True
    then show ?thesis using assms Seen
      by (auto simp: waits_or_stays_def xpack_lemmas Let_def split: prod.splits if_splits dest!: cas_cases)
  qed
next
  case (Loop i)
  then show ?thesis using assms by (auto simp: waits_or_stays_def)
qed (use assms wait_effect[of lk r w b p ok lk' p'] in simp_all)

lemma read_try_effect:
  assumes "xp_lock lk = xpack r w b" "Suc r < 2 ^ 15" "w < 2 ^ 15" "\<forall>x. p \<noteq> Tried x"
    "pp_rwlock_start_read_try_xp lk p = (lk', p')" "\<forall>v. p = Try_seen v \<longrightarrow> \<not> P_RWLOCK_XP_IS_WRITER v"
  shows "p' \<noteq> Tried True \<and> xp_lock lk' = xpack r w b \<and> (\<forall>v. p' = Try_seen v \<longrightarrow> \<not> P_RWLOCK_XP_IS_WRITER v) \<or>
    p' = Tried True \<and> \<not> b \<and> xp_lock lk' = xpack (Suc r) w False"
  using assms by (cases p) (auto simp: xpack_lemmas Let_def split: prod.splits if_splits dest!: cas_cases)

lemma write_try_effect:
  assumes "xp_lock lk = xpack r w b" "r < 2 ^ 15" "w < 2 ^ 15" "\<forall>x. p \<noteq> Tried x"
    "pp_rwlock_start_write_try_xp lk p = (lk', p')" "\<forall>v. p = Try_seen v \<longrightarrow> P_RWLOCK_XP_IS_CLEAR v"
  shows "p' \<noteq> Tried True \<and> xp_lock lk' = xpack r w b \<and> (\<forall>v. p' = Try_seen v \<longrightarrow> P_RWLOCK_XP_IS_CLEAR v) \<or>
    p' = Tried True \<and> \<not> b \<and> r = 0 \<and> xp_lock lk' = xpack 0 w True"
  using assms by (cases p) (auto simp: xpack_lemmas Let_def split: prod.splits if_splits dest!: cas_cases)

lemma end_read_effect:
  assumes "xp_lock lk = xpack r w b" "r < 2 ^ 15" "w < 2 ^ 15" "0 < r" "p \<noteq> Done"
    "pp_rwlock_end_read_xp ok lk p = (lk', p')"
  shows "p' \<noteq> Done \<and> xp_lock lk' = xpack r w b \<or> p' = Done \<and> xp_lock lk' = xpack (r - 1) w b"
  using assms by (cases p) (auto simp: xpack_lemmas Let_def split: prod.splits if_splits dest!: cas_cases)

lemma end_write_effect:
  assumes "xp_lock lk = xpack r w True" "r < 2 ^ 15" "w < 2 ^ 15" "p \<noteq> Done"
    "pp_rwlock_end_write_xp ok lk p = (lk', p')" "\<forall>v. p = Exchange v \<longrightarrow> P_RWLOCK_XP_WAITING_COUNT v = 0"
  shows "p' \<noteq> Done \<and> xp_lock lk' = xpack r w True \<and> (\<forall>v. p' = Exchange v \<longrightarrow> P_RWLOCK_XP_WAITING_COUNT v = 0) \<or>
    p' = Done \<and> w = 0 \<and> xp_lock lk' = xpack r w False"
  using assms by (cases p) (auto simp: xpack_lemmas Let_def split: prod.splits if_splits dest!: cas_cases)

section \<open>The invariant\<close>

fun xp_reads :: "xp_pc \<Rightarrow> bool" where
  "xp_reads Holds_read = True"
| "xp_reads (Read_unlock p) = True"
| "xp_reads _ = False"

fun xp_writes :: "xp_pc \<Rightarrow> bool" where
  "xp_writes Holds_write = True"
| "xp_writes (Write_unlock p) = True"
| "xp_writes _ = False"

fun xp_waits :: "xp_pc \<Rightarrow> bool" where
  "xp_waits (Read_lock p) = registered p"
| "xp_waits (Write_lock p) = registered p"
| "xp_waits _ = False"

text \<open>Control points that threads keep, and what they know about the word they have read.\<close>

fun sound :: "xp_pc \<Rightarrow> bool" where
  "sound (Read_lock p) = (p \<noteq> Got)"
| "sound (Write_lock p) = (p \<noteq> Got)"
| "sound (Read_try p) = ((\<forall>x. p \<noteq> Tried x) \<and> (\<forall>v. p = Try_seen v \<longrightarrow> \<not> P_RWLOCK_XP_IS_WRITER v))"
| "sound (Write_try p) = ((\<forall>x. p \<noteq> Tried x) \<and> (\<forall>v. p = Try_seen v \<longrightarrow> P_RWLOCK_XP_IS_CLEAR v))"
| "sound (Read_unlock p) = (p \<noteq> Done)"
| "sound (Write_unlock p) = (p \<noteq> Done \<and> (\<forall>v. p = Exchange v \<longrightarrow> P_RWLOCK_XP_WAITING_COUNT v = 0))"
| "sound p = True"

definition xp_counts :: "PRWLockXP \<Rightarrow> nat \<Rightarrow> nat \<Rightarrow> nat \<Rightarrow> bool" where
  "xp_counts lk r w x \<longleftrightarrow> xp_lock lk = xpack r w (x = 1) \<and> x \<le> 1 \<and> (x = 1 \<longrightarrow> r = 0)"

definition xp_inv :: "nat \<Rightarrow> xp_sys \<Rightarrow> bool" where
  "xp_inv n s \<longleftrightarrow> (\<forall>t. sound (xpcs s t)) \<and>
     xp_counts (rwl s) (cnt n xp_reads (xpcs s)) (cnt n xp_waits (xpcs s)) (cnt n xp_writes (xpcs s))"

lemma after_lock_tests:
  "p \<noteq> Got \<Longrightarrow> after_lock wr p = (if wr then Write_lock p else Read_lock p)"
  by (cases p) simp_all

lemma after_try_tests:
  "p \<noteq> Tried True \<Longrightarrow> after_try wr p = (if \<exists>b. p = Tried b then Outside else if wr then Write_try p else Read_try p)"
  by (cases p) auto

lemma after_unlock_tests:
  "p \<noteq> Done \<Longrightarrow> after_unlock wr p = (if wr then Write_unlock p else Read_unlock p)"
  by (cases p) simp_all

lemma xp_run_counts:
  assumes "xp_counts lk r w x" "sound p" "r < 2 ^ 15" "w < 2 ^ 15" "xp_run ok lk p = Some (lk', p')"
    and "if xp_reads p then 0 < r else Suc r < 2 ^ 15" "if xp_waits p then 0 < w else Suc w < 2 ^ 15"
    and "xp_writes p \<longrightarrow> 0 < x"
  shows "sound p' \<and> (\<exists>r' w' x'. xp_counts lk' r' w' x' \<and> r' + of_bool (xp_reads p) = r + of_bool (xp_reads p') \<and>
    w' + of_bool (xp_waits p) = w + of_bool (xp_waits p') \<and> x' + of_bool (xp_writes p) = x + of_bool (xp_writes p'))"
proof (cases p)
  case (Read_lock q)
  then obtain q' where q: "pp_rwlock_start_read_xp ok lk q = Some (lk', q')" "p' = after_lock False q'"
    using assms(5) by auto
  then have "waits_or_stays r w (x = 1) q lk' q' \<or>
      \<not> (x = 1) \<and> \<not> registered q \<and> q' = Got \<and> xp_lock lk' = xpack (Suc r) w False"
    using assms Read_lock by (intro start_read_effect) (auto simp: xp_counts_def split: if_splits)
  then show ?thesis
  proof
    assume "waits_or_stays r w (x = 1) q lk' q'"
    then show ?thesis using assms Read_lock q
      by (auto simp: waits_or_stays_def xp_counts_def after_lock_tests)
  next
    assume g: "\<not> (x = 1) \<and> \<not> registered q \<and> q' = Got \<and> xp_lock lk' = xpack (Suc r) w False"
    then have "xp_counts lk' (Suc r) w x" using assms(1) by (simp add: xp_counts_def)
    then show ?thesis using g Read_lock q by auto
  qed
next
  case (Write_lock q)
  then obtain q' where q: "pp_rwlock_start_write_xp ok lk q = Some (lk', q')" "p' = after_lock True q'"
    using assms(5) by auto
  then have "waits_or_stays r w (x = 1) q lk' q' \<or>
      \<not> (x = 1) \<and> r = 0 \<and> \<not> registered q \<and> q' = Got \<and> xp_lock lk' = xpack 0 w True"
    using assms Write_lock by (intro start_write_effect) (auto simp: xp_counts_def split: if_splits)
  then show ?thesis
  proof
    assume "waits_or_stays r w (x = 1) q lk' q'"
    then show ?thesis using assms Write_lock q
      by (auto simp: waits_or_stays_def xp_counts_def after_lock_tests)
  next
    assume g: "\<not> (x = 1) \<and> r = 0 \<and> \<not> registered q \<and> q' = Got \<and> xp_lock lk' = xpack 0 w True"
    then have "xp_counts lk' r w 1" "x = 0" using assms(1) by (auto simp: xp_counts_def)
    then show ?thesis using g Write_lock q by auto
  qed
next
  case (Read_try q)
  then obtain q' where q: "pp_rwlock_start_read_try_xp lk q = (lk', q')" "p' = after_try False q'"
    using assms(5) by (cases "pp_rwlock_start_read_try_xp lk q") auto
  then have "q' \<noteq> Tried True \<and> xp_lock lk' = xpack r w (x = 1) \<and> (\<forall>v. q' = Try_seen v \<longrightarrow> \<not> P_RWLOCK_XP_IS_WRITER v) \<or>
      q' = Tried True \<and> \<not> (x = 1) \<and> xp_lock lk' = xpack (Suc r) w False"
    using assms Read_try by (intro read_try_effect) (auto simp: xp_counts_def)
  then show ?thesis
  proof
    assume "q' \<noteq> Tried True \<and> xp_lock lk' = xpack r w (x = 1) \<and> (\<forall>v. q' = Try_seen v \<longrightarrow> \<not> P_RWLOCK_XP_IS_WRITER v)"
    then show ?thesis using assms(1) Read_try q by (auto simp: xp_counts_def after_try_tests)
  next
    assume g: "q' = Tried True \<and> \<not> (x = 1) \<and> xp_lock lk' = xpack (Suc r) w False"
    then have "xp_counts lk' (Suc r) w x" using assms(1) by (simp add: xp_counts_def)
    then show ?thesis using g Read_try q by auto
  qed
next
  case (Write_try q)
  then obtain q' where q: "pp_rwlock_start_write_try_xp lk q = (lk', q')" "p' = after_try True q'"
    using assms(5) by (cases "pp_rwlock_start_write_try_xp lk q") auto
  then have "q' \<noteq> Tried True \<and> xp_lock lk' = xpack r w (x = 1) \<and> (\<forall>v. q' = Try_seen v \<longrightarrow> P_RWLOCK_XP_IS_CLEAR v) \<or>
      q' = Tried True \<and> \<not> (x = 1) \<and> r = 0 \<and> xp_lock lk' = xpack 0 w True"
    using assms Write_try by (intro write_try_effect) (auto simp: xp_counts_def)
  then show ?thesis
  proof
    assume "q' \<noteq> Tried True \<and> xp_lock lk' = xpack r w (x = 1) \<and> (\<forall>v. q' = Try_seen v \<longrightarrow> P_RWLOCK_XP_IS_CLEAR v)"
    then show ?thesis using assms(1) Write_try q by (auto simp: xp_counts_def after_try_tests)
  next
    assume g: "q' = Tried True \<and> \<not> (x = 1) \<and> r = 0 \<and> xp_lock lk' = xpack 0 w True"
    then have "xp_counts lk' r w 1" "x = 0" using assms(1) by (auto simp: xp_counts_def)
    then show ?thesis using g Write_try q by auto
  qed
next
  case (Read_unlock q)
  then obtain q' where q: "pp_rwlock_end_read_xp ok lk q = (lk', q')" "p' = after_unlock False q'"
    using assms(5) by (cases "pp_rwlock_end_read_xp ok lk q") auto
  then have "q' \<noteq> Done \<and> xp_lock lk' = xpack r w (x = 1) \<or> q' = Done \<and> xp_lock lk' = xpack (r - 1) w (x = 1)"
    using assms Read_unlock by (intro end_read_effect) (auto simp: xp_counts_def)
  moreover have "x = 0" "0 < r" using assms(1,6) Read_unlock by (auto simp: xp_counts_def)
  ultimately show ?thesis using assms(1) Read_unlock q by (auto simp: xp_counts_def after_unlock_tests)
next
  case (Write_unlock q)
  then obtain q' where q: "pp_rwlock_end_write_xp ok lk q = (lk', q')" "p' = after_unlock True q'"
    using assms(5) by (cases "pp_rwlock_end_write_xp ok lk q") auto
  have x: "x = 1" "r = 0" using assms(1,8) Write_unlock by (auto simp: xp_counts_def)
  then have "q' \<noteq> Done \<and> xp_lock lk' = xpack r w True \<and> (\<forall>v. q' = Exchange v \<longrightarrow> P_RWLOCK_XP_WAITING_COUNT v = 0) \<or>
      q' = Done \<and> w = 0 \<and> xp_lock lk' = xpack r w False"
    using assms Write_unlock q by (intro end_write_effect) (auto simp: xp_counts_def)
  then show ?thesis using x Write_unlock q by (auto simp: xp_counts_def after_unlock_tests)
qed (use assms(5) in simp_all)

lemma xp_step_inv:
  assumes "xp_step faults n s s'" "xp_inv n s" "n < 2 ^ 15"
  shows "xp_inv n s'"
  using assms(1)
proof cases
  case (call t p)
  have "xp_reads p = xp_reads (xpcs s t)" "xp_waits p = xp_waits (xpcs s t)" "xp_writes p = xp_writes (xpcs s t)" "sound p"
    using call by (cases "xpcs s t"; auto)+
  then have "cnt n xp_reads ((xpcs s)(t := p)) = cnt n xp_reads (xpcs s)"
    "cnt n xp_waits ((xpcs s)(t := p)) = cnt n xp_waits (xpcs s)"
    "cnt n xp_writes ((xpcs s)(t := p)) = cnt n xp_writes (xpcs s)" "sound p"
    by (auto intro!: cnt_cong split: if_splits)
  then show ?thesis using call assms(2) by (simp add: xp_inv_def)
next
  case (run t ok lk p)
  let ?f = "xpcs s"
  let ?r = "cnt n xp_reads ?f" and ?w = "cnt n xp_waits ?f" and ?x = "cnt n xp_writes ?f"
  have b: "?r \<le> n" "?w \<le> n" using cnt_le by auto
  have inv: "xp_counts (rwl s) ?r ?w ?x" "sound (?f t)" using assms(2) by (auto simp: xp_inv_def)
  have "if xp_reads (?f t) then 0 < ?r else Suc ?r < 2 ^ 15"
    using cnt_pos[of t n xp_reads ?f] cnt_room[of t n xp_reads ?f] run(2) assms(3) by auto
  moreover have "if xp_waits (?f t) then 0 < ?w else Suc ?w < 2 ^ 15"
    using cnt_pos[of t n xp_waits ?f] cnt_room[of t n xp_waits ?f] run(2) assms(3) by auto
  moreover have "xp_writes (?f t) \<longrightarrow> 0 < ?x" using cnt_pos[of t n xp_writes ?f] run(2) by auto
  ultimately obtain r' w' x' where e: "sound p" "xp_counts lk r' w' x'" "r' + of_bool (xp_reads (?f t)) = ?r + of_bool (xp_reads p)"
      "w' + of_bool (xp_waits (?f t)) = ?w + of_bool (xp_waits p)" "x' + of_bool (xp_writes (?f t)) = ?x + of_bool (xp_writes p)"
    using xp_run_counts[OF inv _ _ run(4)] b assms(3) by fastforce
  have "r' = cnt n xp_reads (?f(t := p))" "w' = cnt n xp_waits (?f(t := p))" "x' = cnt n xp_writes (?f(t := p))"
    using e(3-5) cnt_update[OF run(2), of xp_reads ?f p] cnt_update[OF run(2), of xp_waits ?f p]
      cnt_update[OF run(2), of xp_writes ?f p] by linarith+
  then show ?thesis using e(1,2) run(1) assms(2) by (simp add: xp_inv_def)
qed

lemma xp_reachable_inv: "xp_reachable faults n s \<Longrightarrow> n < 2 ^ 15 \<Longrightarrow> xp_inv n s"
proof (induction rule: xp_reachable.induct)
  case start
  then show ?case by (simp add: xp_inv_def xp_init_def xp_counts_def cnt_def xpack_def)
next
  case (step s s')
  then show ?case using xp_step_inv by blast
qed

section \<open>A run of two threads\<close>

definition two :: "32 word \<Rightarrow> bool \<Rightarrow> xp_pc \<Rightarrow> xp_pc \<Rightarrow> xp_sys" where
  "two w e p q = \<lparr>rwl = \<lparr>xp_lock = w, xp_event = e\<rparr>, xpcs = (\<lambda>_. Outside)(0 := p, 1 := q)\<rparr>"

lemma two_step:
  assumes "xp_reachable False 2 (two w e p q)"
  shows "p' \<in> xp_call p \<Longrightarrow> xp_reachable False 2 (two w e p' q)"
    and "q' \<in> xp_call q \<Longrightarrow> xp_reachable False 2 (two w e p q')"
    and "xp_run True \<lparr>xp_lock = w, xp_event = e\<rparr> p = Some (\<lparr>xp_lock = w', xp_event = e'\<rparr>, p') \<Longrightarrow>
      xp_reachable False 2 (two w' e' p' q)"
    and "xp_run True \<lparr>xp_lock = w, xp_event = e\<rparr> q = Some (\<lparr>xp_lock = w', xp_event = e'\<rparr>, q') \<Longrightarrow>
      xp_reachable False 2 (two w' e' p q')"
proof -
  have t: "(0 :: nat) < 2" "(1 :: nat) < 2" by simp_all
  note steps = xp_reachable.step[OF assms xp_step.call[OF t(1)]] xp_reachable.step[OF assms xp_step.call[OF t(2)]]
    xp_reachable.step[OF assms xp_step.run[OF t(1)], where ok1 = True] xp_reachable.step[OF assms xp_step.run[OF t(2)], where ok1 = True]
  show "p' \<in> xp_call p \<Longrightarrow> xp_reachable False 2 (two w e p' q)"
    using steps(1)[of p'] by (simp add: two_def fun_upd_twist)
  show "q' \<in> xp_call q \<Longrightarrow> xp_reachable False 2 (two w e p q')"
    using steps(2)[of q'] by (simp add: two_def)
  show "xp_run True \<lparr>xp_lock = w, xp_event = e\<rparr> p = Some (\<lparr>xp_lock = w', xp_event = e'\<rparr>, p') \<Longrightarrow>
      xp_reachable False 2 (two w' e' p' q)"
    using steps(3) by (simp add: two_def fun_upd_twist)
  show "xp_run True \<lparr>xp_lock = w, xp_event = e\<rparr> q = Some (\<lparr>xp_lock = w', xp_event = e'\<rparr>, q') \<Longrightarrow>
      xp_reachable False 2 (two w' e' p q')"
    using steps(4) by (simp add: two_def)
qed

text \<open>A writer that finds the lock taken spins to the end of its rounds and registers as waiting.\<close>

lemma two_spin:
  assumes "\<not> P_RWLOCK_XP_IS_CLEAR w"
  shows "k \<le> 4000 \<Longrightarrow> xp_reachable False 2 (two w e p (Write_lock (Loop (of_nat (4000 - k))))) \<Longrightarrow>
    xp_reachable False 2 (two w e p (Write_lock (Loop 4000)))"
proof (induction k)
  case (Suc k)
  let ?i = "of_nat (4000 - Suc k) :: 32 word"
  have "4000 - Suc k < 2 ^ 31" by simp
  from sint_of_small[OF this] have i: "sint ?i < 4000" using Suc.prems(1) by linarith
  have n: "?i + 1 = of_nat (4000 - k)"
  proof -
    have "4000 - k = Suc (4000 - Suc k)" using Suc.prems(1) by simp
    then show ?thesis by (simp only: of_nat_Suc add.commute)
  qed
  have "xp_reachable False 2 (two w e p (Write_lock (Seen ?i w)))"
    by (rule two_step(4)[OF Suc.prems(2)]) simp
  moreover have "xp_run True \<lparr>xp_lock = w, xp_event = e\<rparr> (Write_lock (Seen ?i w)) =
      Some (\<lparr>xp_lock = w, xp_event = e\<rparr>, Write_lock (Loop (of_nat (4000 - k))))"
    using assms i n by (simp only: xp_run.simps pp_rwlock_start_write_xp.simps) (simp add: register_waiting_def P_RWLOCK_XP_MAX_SPIN_def)
  ultimately have "xp_reachable False 2 (two w e p (Write_lock (Loop (of_nat (4000 - k)))))"
    by (rule two_step(4))
  then show ?case using Suc by simp
qed simp

lemma two_register:
  assumes "xp_reachable False 2 (two w e p (Write_lock (Loop i)))" "\<not> P_RWLOCK_XP_IS_CLEAR w" "unat i \<le> 4000"
  shows "xp_reachable False 2 (two (P_RWLOCK_XP_SET_WAITING w (P_RWLOCK_XP_WAITING_COUNT w + 1)) e p (Write_lock Wait))"
proof -
  have "of_nat (4000 - (4000 - unat i)) = i" using assms(3) by simp
  then have "xp_reachable False 2 (two w e p (Write_lock (Loop 4000)))"
    using two_spin[OF assms(2), of "4000 - unat i" e p] assms by simp
  then have "xp_reachable False 2 (two w e p (Write_lock (Seen 4000 w)))"
    by (rule two_step(4)) simp
  then show ?thesis
    by (rule two_step(4)) (use assms(2) in \<open>simp add: register_waiting_def P_RWLOCK_XP_MAX_SPIN_def cas_def Let_def\<close>)
qed

lemmas xp_word_defs = P_RWLOCK_XP_IS_CLEAR_def P_RWLOCK_XP_IS_WRITER_def P_RWLOCK_XP_SET_READERS_def
  P_RWLOCK_XP_READER_COUNT_def P_RWLOCK_XP_SET_WAITING_def P_RWLOCK_XP_WAITING_COUNT_def P_RWLOCK_XP_SET_WRITER_def
  P_RWLOCK_XP_UNSET_WRITER_def cas_def Let_def

lemma two_outside: "xp_reachable False 2 (two 0 False Outside Outside)"
proof -
  have "xp_init = two 0 False Outside Outside" by (simp add: xp_init_def two_def fun_eq_iff)
  then show ?thesis using xp_reachable.start[of False 2] by simp
qed

lemma two_reader: "xp_reachable False 2 (two 1 False Holds_read Outside)"
proof -
  have "xp_reachable False 2 (two 0 False (Read_try Try) Outside)" by (rule two_step(1)[OF two_outside]) simp
  then have "xp_reachable False 2 (two 0 False (Read_try (Try_seen 0)) Outside)"
    by (rule two_step(3)) (simp add: xp_word_defs)
  then show ?thesis by (rule two_step(3)) (simp add: xp_word_defs)
qed

lemma two_writer: "xp_reachable False 2 (two 0x40000000 False (Write_unlock (Exchange 0x40000000)) Outside)"
proof -
  have "xp_reachable False 2 (two 0 False (Write_try Try) Outside)" by (rule two_step(1)[OF two_outside]) simp
  then have "xp_reachable False 2 (two 0 False (Write_try (Try_seen 0)) Outside)"
    by (rule two_step(3)) (simp add: xp_word_defs)
  then have "xp_reachable False 2 (two 0x40000000 False Holds_write Outside)"
    by (rule two_step(3)) (simp add: xp_word_defs)
  then have "xp_reachable False 2 (two 0x40000000 False (Write_unlock Top) Outside)" by (rule two_step(1)) simp
  then show ?thesis by (rule two_step(3)) (simp add: xp_word_defs)
qed

section \<open>Properties\<close>

text \<open>
  C20.  With fewer than 2 ^ 15 threads, in every reachable state, also when system calls fail, a thread that
  holds the Windows XP lock for writing is its only holder, and the word counts the threads that hold it for
  reading and those that wait.
\<close>

theorem rwlock_xp_mutual_exclusion:
  assumes "xp_reachable faults n s" "n < 2 ^ 15"
  shows "(\<forall>t < n. xp_writes (xpcs s t) \<longrightarrow> (\<forall>u < n. u \<noteq> t \<longrightarrow> \<not> xp_writes (xpcs s u) \<and> \<not> xp_reads (xpcs s u))) \<and>
    P_RWLOCK_XP_READER_COUNT (xp_lock (rwl s)) = of_nat (card {t. t < n \<and> xp_reads (xpcs s t)}) \<and>
    P_RWLOCK_XP_WAITING_COUNT (xp_lock (rwl s)) = of_nat (card {t. t < n \<and> xp_waits (xpcs s t)}) \<and>
    (P_RWLOCK_XP_IS_WRITER (xp_lock (rwl s)) \<longleftrightarrow> (\<exists>t < n. xp_writes (xpcs s t)))"
proof -
  let ?f = "xpcs s"
  have inv: "xp_counts (rwl s) (cnt n xp_reads ?f) (cnt n xp_waits ?f) (cnt n xp_writes ?f)"
    using xp_reachable_inv[OF assms] by (simp add: xp_inv_def)
  have small: "cnt n P ?f < 2 ^ 15" for P using cnt_le[of n P ?f] assms(2) by simp
  have alone: "\<not> xp_writes (?f u) \<and> \<not> xp_reads (?f u)" if t: "t < n" "xp_writes (?f t)" and u: "u < n" "u \<noteq> t" for t u
  proof -
    have "0 < cnt n xp_writes ?f" by (rule cnt_pos[of t]) (rule t)+
    then have x: "cnt n xp_writes ?f = 1" "cnt n xp_reads ?f = 0" using inv by (auto simp: xp_counts_def)
    have "cnt n xp_writes (?f(t := Outside)) = 0" using cnt_update[OF t(1), of xp_writes ?f Outside] t(2) x(1) by simp
    then show ?thesis using x(2) u by (auto simp: cnt_zero)
  qed
  have "cnt n xp_writes ?f = 1 \<longleftrightarrow> (\<exists>t < n. xp_writes (?f t))"
    using inv cnt_zero[of n xp_writes ?f] by (auto simp: xp_counts_def)
  then show ?thesis using alone inv xpack_fields(1,2)[OF small small] xpack_writer[OF small small]
    by (auto simp: xp_counts_def simp flip: cnt_def)
qed

theorem rwlock_xp_mutual_exclusion_witness:
  "P_RWLOCK_XP_READER_COUNT (xp_lock (rwl (two 1 False Holds_read Outside))) =
    of_nat (card {t. t < 2 \<and> xp_reads (xpcs (two 1 False Holds_read Outside) t)})"
  using rwlock_xp_mutual_exclusion[OF two_reader] by simp

text \<open>
  When a writer has given the Windows XP lock up, no thread is registered as waiting: none is left
  asleep.
\<close>

theorem rwlock_xp_writer_release:
  assumes "xp_reachable faults n s" "n < 2 ^ 15" "t < n" "xpcs s t = Write_unlock p"
    "xp_run ok (rwl s) (xpcs s t) = Some (lk, Outside)"
  shows "\<forall>u < n. \<not> xp_waits (xpcs s u)"
proof -
  let ?f = "xpcs s"
  have inv: "xp_counts (rwl s) (cnt n xp_reads ?f) (cnt n xp_waits ?f) (cnt n xp_writes ?f)" "sound (?f t)"
    using xp_reachable_inv[OF assms(1,2)] by (simp_all add: xp_inv_def)
  have small: "cnt n P ?f < 2 ^ 15" for P using cnt_le[of n P ?f] assms(2) by simp
  have "0 < cnt n xp_writes ?f" using assms(3,4) cnt_pos[of t n xp_writes ?f] by simp
  then have "xp_lock (rwl s) = xpack (cnt n xp_reads ?f) (cnt n xp_waits ?f) True" using inv(1) by (auto simp: xp_counts_def)
  moreover obtain p' where "pp_rwlock_end_write_xp ok (rwl s) p = (lk, p')" "after_unlock True p' = Outside"
    using assms(4,5) by (cases "pp_rwlock_end_write_xp ok (rwl s) p") auto
  moreover have "p' = Done" if "after_unlock True p' = Outside" for p' using that by (cases p') simp_all
  ultimately have "cnt n xp_waits ?f = 0"
    using end_write_effect[OF _ small small, of "rwl s" xp_reads xp_waits p ok lk] inv(2) assms(4) by fastforce
  then show ?thesis by (simp add: cnt_zero)
qed

theorem rwlock_xp_writer_release_witness:
  "xp_run True (rwl (two 0x40000000 False (Write_unlock (Exchange 0x40000000)) Outside)) (Write_unlock (Exchange 0x40000000)) =
     Some (\<lparr>xp_lock = 0, xp_event = False\<rparr>, Outside) \<and>
   (\<forall>u \<in> {0, 1}. \<not> xp_waits (xpcs (two 0x40000000 False (Write_unlock (Exchange 0x40000000)) Outside) u))"
  using rwlock_xp_writer_release[OF two_writer, of 0 "Exchange 0x40000000" True "\<lparr>xp_lock = 0, xp_event = False\<rparr>"]
  by (simp add: two_def xp_word_defs)

text \<open>
  C21.  A reader that releases the Windows XP lock can leave a thread asleep for good.  The reader reads the
  word and sets the event; the writer wakes up, leaves the waiting count, finds the reader still there and
  registers again; the exchange of the reader then succeeds, since the word is the one it has read.  The lock
  is free, the event is not set, and the writer waits for it.
\<close>

theorem rwlock_xp_lost_wakeup:
  "\<exists>s. xp_reachable False 2 s \<and> P_RWLOCK_XP_IS_CLEAR (xp_lock (rwl s)) \<and> xpcs s 0 = Outside \<and>
    xpcs s 1 = Write_lock Wait \<and> xp_run True (rwl s) (xpcs s 1) = None"
proof -
  note defs = xp_word_defs
  have "xp_reachable False 2 (two 1 False Holds_read (Write_lock (Loop 0)))" by (rule two_step(2)[OF two_reader]) simp
  from two_register[OF this] have "xp_reachable False 2 (two 0x8001 False Holds_read (Write_lock Wait))" by (simp add: defs)
  then have "xp_reachable False 2 (two 0x8001 False (Read_unlock Top) (Write_lock Wait))" by (rule two_step(1)) simp
  then have "xp_reachable False 2 (two 0x8001 False (Read_unlock (Signal 0x8001)) (Write_lock Wait))"
    by (rule two_step(3)) (simp add: defs)
  then have "xp_reachable False 2 (two 0x8001 True (Read_unlock (Exchange 0x8001)) (Write_lock Wait))"
    by (rule two_step(3)) (simp add: defs)
  then have "xp_reachable False 2 (two 0x8001 False (Read_unlock (Exchange 0x8001)) (Write_lock Unregister))"
    by (rule two_step(4)) (simp add: defs)
  then have "xp_reachable False 2 (two 0x8001 False (Read_unlock (Exchange 0x8001)) (Write_lock (Unregister_seen 0x8001)))"
    by (rule two_step(4)) (simp add: defs)
  then have "xp_reachable False 2 (two 1 False (Read_unlock (Exchange 0x8001)) (Write_lock (Loop 1)))"
    by (rule two_step(4)) (simp add: defs)
  from two_register[OF this]
  have "xp_reachable False 2 (two 0x8001 False (Read_unlock (Exchange 0x8001)) (Write_lock Wait))" by (simp add: defs)
  then have "xp_reachable False 2 (two 0x8000 False Outside (Write_lock Wait))" by (rule two_step(3)) (simp add: defs)
  then show ?thesis by (intro exI[of _ "two 0x8000 False Outside (Write_lock Wait)"]) (simp add: two_def defs)
qed

end
