(* ===== verification/PString.thy ===== *)
theory PString
  imports Prelude
begin

text \<open>
  The string functions of \<open>pstring.c\<close>: copying and stripping.  A C string is the list of its characters
  before the terminating NUL; \<open>None\<close> is NULL.  \<open>mem\<close> says whether memory can be allocated.  \<open>p_strtok\<close> only
  calls the C library, and \<open>p_strtod\<close> computes in floating point.
\<close>

text \<open>\<open>isspace\<close> in the C locale.\<close>

definition isspace :: "char \<Rightarrow> bool" where
  "isspace c \<longleftrightarrow> of_char c = (32 :: nat) \<or> 9 \<le> (of_char c :: nat) \<and> (of_char c :: nat) \<le> 13"

definition p_strdup :: "bool \<Rightarrow> string option \<Rightarrow> string option" where
  "p_strdup mem str = (case str of None \<Rightarrow> None | Some s \<Rightarrow> if \<not> mem then None else Some s)"

text \<open>The two loops of \<open>p_strchomp\<close>; the positions are signed.\<close>

function chomp_start :: "string \<Rightarrow> int \<Rightarrow> int \<Rightarrow> int" where
  "chomp_start str pos_start pos_end =
     (if pos_start < pos_end \<and> isspace (str ! nat pos_start) then chomp_start str (pos_start + 1) pos_end else pos_start)"
  by pat_completeness auto
termination by (relation "measure (\<lambda>(str, s, e). nat (e - s))") auto

function chomp_end :: "string \<Rightarrow> int \<Rightarrow> int" where
  "chomp_end str pos_end =
     (if pos_end > 0 \<and> isspace (str ! nat pos_end) then chomp_end str (pos_end - 1) else pos_end)"
  by pat_completeness auto
termination by (relation "measure (\<lambda>(str, e). nat e)") auto

declare chomp_start.simps [simp del] chomp_end.simps [simp del]

definition p_strchomp :: "bool \<Rightarrow> string option \<Rightarrow> string option" where
  "p_strchomp mem str =
     (case str of
        None \<Rightarrow> None
      | Some s \<Rightarrow>
          (let pos_start = chomp_start s 0 (int (length s) - 1);
               pos_end = chomp_end s (int (length s) - 1)
           in if pos_end < pos_start then p_strdup mem (Some [])
              else if pos_end = pos_start \<and> isspace (s ! nat pos_end) then p_strdup mem (Some [])
              else if \<not> mem then None
              else Some (take (nat (pos_end - pos_start + 1)) (drop (nat pos_start) s))))"

section \<open>Stripping\<close>

definition strip :: "string \<Rightarrow> string" where
  "strip s = rev (dropWhile isspace (rev (dropWhile isspace s)))"

lemma chomp_start_run:
  "k \<le> length s \<Longrightarrow> \<forall>i < k. isspace (s ! i) \<Longrightarrow> i \<le> k \<Longrightarrow> int k \<le> e \<Longrightarrow>
    chomp_start s (int i) e = chomp_start s (int k) e"
proof (induction "k - i" arbitrary: i)
  case (Suc d)
  then have "i < k" "int i < e" "isspace (s ! i)" by simp_all
  then have "chomp_start s (int i) e = chomp_start s (int (Suc i)) e"
    by (subst chomp_start.simps) (simp add: add.commute)
  also have "\<dots> = chomp_start s (int k) e" using Suc by (intro Suc.hyps(1)) simp_all
  finally show ?case .
qed simp

lemma chomp_end_run:
  "j \<le> e \<Longrightarrow> \<forall>i. j < i \<and> i \<le> e \<longrightarrow> isspace (s ! i) \<Longrightarrow> chomp_end s (int e) = chomp_end s (int j)"
proof (induction "e - j" arbitrary: e)
  case (Suc d)
  then obtain e' where e: "e = Suc e'" by (cases e) auto
  have "chomp_end s (int e) = chomp_end s (int e')"
    using Suc e by (subst chomp_end.simps) (simp add: nat_add_distrib)
  also have "\<dots> = chomp_end s (int j)" using Suc e by (intro Suc.hyps(1)) simp_all
  finally show ?case .
qed simp

lemma strchomp_core:
  assumes "ws1 @ body @ ws2 = s" "\<forall>c \<in> set ws1 \<union> set ws2. isspace c" "body \<noteq> []"
    "\<not> isspace (hd body)" "\<not> isspace (last body)"
  shows "p_strchomp True (Some s) = Some body"
proof -
  let ?a = "length ws1" and ?b = "length body" and ?e = "length s - 1"
  have len: "length s = ?a + ?b + length ws2" and b: "0 < ?b" using assms(1,3) by auto
  have ae: "?a \<le> ?e" using len b by linarith
  have at: "i < ?b \<Longrightarrow> s ! (?a + i) = body ! i" for i by (simp add: nth_append flip: assms(1))
  have hd: "\<not> isspace (s ! ?a)" using at[of 0] b assms(3,4) by (simp add: hd_conv_nth)
  have lst: "\<not> isspace (s ! (?a + ?b - 1))" using at[of "?b - 1"] b assms(3,5) by (simp add: last_conv_nth)
  have "isspace (s ! i)" if "i < ?a" for i using that assms(2) by (simp add: nth_append flip: assms(1))
  then have "chomp_start s (int 0) (int ?e) = chomp_start s (int ?a) (int ?e)"
    using ae len by (intro chomp_start_run) simp_all
  also have "\<dots> = int ?a" using hd by (subst chomp_start.simps) simp
  finally have st: "chomp_start s 0 (int ?e) = int ?a" by simp
  have "isspace (s ! i)" if "?a + ?b - 1 < i" "i \<le> ?e" for i
  proof -
    have "i - ?a - ?b < length ws2" using that len b by simp
    moreover have "s ! i = ws2 ! (i - ?a - ?b)" using that by (auto simp: nth_append simp flip: assms(1))
    ultimately show ?thesis using assms(2) by simp
  qed
  then have "chomp_end s (int ?e) = chomp_end s (int (?a + ?b - 1))"
    using len by (intro chomp_end_run) auto
  also have "\<dots> = int (?a + ?b - 1)" using lst by (subst chomp_end.simps) simp
  finally have en: "chomp_end s (int ?e) = int (?a + ?b - 1)" .
  have l: "int (length s) - 1 = int ?e" using len b by linarith
  have "nat (int (?a + ?b - 1) - int ?a + 1) = ?b" using b by linarith
  moreover have "take ?b (drop ?a s) = body" by (simp flip: assms(1))
  moreover have "\<not> int (?a + ?b - 1) < int ?a" using b by linarith
  moreover have "\<not> isspace (s ! nat (int (?a + ?b - 1)))" using lst by simp
  ultimately show ?thesis unfolding p_strchomp_def option.case l st en Let_def by simp
qed

lemma strchomp_blank:
  assumes "\<forall>c \<in> set s. isspace c"
  shows "p_strchomp True (Some s) = Some []"
proof (cases "s = []")
  case True
  then show ?thesis by (simp add: p_strchomp_def p_strdup_def chomp_start.simps chomp_end.simps)
next
  case False
  let ?e = "length s - 1"
  have l: "int (length s) - 1 = int ?e" using False by (simp add: of_nat_diff Suc_leI)
  have sp: "isspace (s ! i)" if "i < length s" for i using assms that by simp
  have "chomp_start s (int 0) (int ?e) = chomp_start s (int ?e) (int ?e)"
    using sp by (intro chomp_start_run) auto
  also have "\<dots> = int ?e" by (subst chomp_start.simps) simp
  finally have st: "chomp_start s 0 (int ?e) = int ?e" by simp
  have "chomp_end s (int ?e) = chomp_end s (int 0)" using sp False by (intro chomp_end_run) auto
  also have "\<dots> = 0" by (subst chomp_end.simps) simp
  finally have en: "chomp_end s (int ?e) = 0" .
  have "length s = 1 \<or> 0 < ?e" using False by (cases s) auto
  then show ?thesis using sp[of 0] False
    unfolding p_strchomp_def option.case l st en Let_def by (auto simp: p_strdup_def)
qed

lemma strchomp_strip: "p_strchomp True (Some s) = Some (strip s)"
proof (cases "\<forall>c \<in> set s. isspace c")
  case True
  then show ?thesis by (auto simp: strchomp_blank strip_def dest: set_dropWhileD)
next
  case False
  let ?r = "dropWhile isspace s"
  have r: "?r \<noteq> []" using False by simp
  have hd: "\<not> isspace (hd ?r)" using r by (rule hd_dropWhile)
  have "\<exists>c \<in> set (rev ?r). \<not> isspace c" using r hd by (metis hd_in_set set_rev)
  then have b: "strip s \<noteq> []" by (auto simp: strip_def)
  have last: "\<not> isspace (last (strip s))"
    using b hd_dropWhile[of isspace "rev ?r"] by (simp add: strip_def last_rev)
  have "rev ?r = takeWhile isspace (rev ?r) @ dropWhile isspace (rev ?r)" by simp
  then have parts: "?r = strip s @ rev (takeWhile isspace (rev ?r))" by (metis rev_append rev_rev_ident strip_def)
  have "\<not> isspace (hd (strip s))" using hd b parts by (metis hd_append2)
  moreover have "takeWhile isspace s @ strip s @ rev (takeWhile isspace (rev ?r)) = s"
    using parts by (metis takeWhile_dropWhile_id)
  ultimately show ?thesis using b last by (intro strchomp_core) (auto dest: set_takeWhileD)
qed

end
