(* ===== verification/PIniFile.thy ===== *)
theory PIniFile
  imports PString
begin

text \<open>
  The ini-file parser and its queries (\<open>pinifile.c\<close>).  The lists of sections and parameters are HOL lists
  with \<open>#\<close> for \<open>p_list_prepend\<close> and \<open>@\<close> for \<open>p_list_append\<close>; the parser runs with
  memory for every allocation.  The file system is a
  parameter: a function from paths to contents.  The scan patterns of \<open>sscanf\<close> and the line reads of \<open>fgets\<close>
  are written out.
\<close>

section \<open>The data\<close>

definition P_INI_FILE_MAX_LINE :: nat where "P_INI_FILE_MAX_LINE = 1024"

record PIniParameter =
  par_name :: string
  par_value :: string

record PIniSection =
  sec_name :: string
  sec_keys :: "PIniParameter list"

record PIniFile =
  path :: string
  sections :: "PIniSection list"
  is_parsed :: bool

datatype io_error = P_ERROR_IO_INVALID_ARGUMENT | Open_failed

text \<open>The flags say which allocations succeed, in the order of the code.\<close>

definition pp_ini_file_parameter_new :: "bool \<Rightarrow> bool \<Rightarrow> bool \<Rightarrow> string \<Rightarrow> string \<Rightarrow> PIniParameter option" where
  "pp_ini_file_parameter_new mem mem_name mem_val name val =
     (if \<not> mem then None
      else (case p_strdup mem_name (Some name) of
          None \<Rightarrow> None
        | Some n \<Rightarrow>
            (case p_strdup mem_val (Some val) of
               None \<Rightarrow> None
             | Some v \<Rightarrow> Some \<lparr>par_name = n, par_value = v\<rparr>)))"

definition pp_ini_file_section_new :: "bool \<Rightarrow> bool \<Rightarrow> string \<Rightarrow> PIniSection option" where
  "pp_ini_file_section_new mem mem_name name =
     (if \<not> mem then None
      else (case p_strdup mem_name (Some name) of
          None \<Rightarrow> None
        | Some n \<Rightarrow> Some \<lparr>sec_name = n, sec_keys = []\<rparr>))"

definition p_ini_file_new :: "bool \<Rightarrow> bool \<Rightarrow> string option \<Rightarrow> PIniFile option" where
  "p_ini_file_new mem mem_path p =
     (case p of
        None \<Rightarrow> None
      | Some _ \<Rightarrow>
          if \<not> mem then None
          else (case p_strdup mem_path p of
              None \<Rightarrow> None
            | Some q \<Rightarrow> Some \<lparr>path = q, sections = [], is_parsed = False\<rparr>))"

lemma pp_ini_file_parameter_new_ok [simp]:
  "pp_ini_file_parameter_new True True True name val = Some \<lparr>par_name = name, par_value = val\<rparr>"
  by (simp add: pp_ini_file_parameter_new_def p_strdup_def)

lemma pp_ini_file_section_new_ok [simp]: "pp_ini_file_section_new True True name = Some \<lparr>sec_name = name, sec_keys = []\<rparr>"
  by (simp add: pp_ini_file_section_new_def p_strdup_def)

lemma p_ini_file_new_ok [simp]:
  "p_ini_file_new True True (Some q) = Some \<lparr>path = q, sections = [], is_parsed = False\<rparr>"
  by (simp add: p_ini_file_new_def p_strdup_def)

section \<open>Lines\<close>

abbreviation NUL :: char where "NUL \<equiv> CHR 0x00"

definition newline :: char where "newline = CHR 0x0A"

text \<open>The C string that starts a buffer.\<close>

definition c_string :: "string \<Rightarrow> string" where
  "c_string bytes = takeWhile (\<lambda>c. c \<noteq> NUL) bytes"

text \<open>\<open>fgets (src_line, n + 1, in_file)\<close>: the line read, and the rest of the file.\<close>

fun fgets :: "nat \<Rightarrow> string \<Rightarrow> string \<times> string" where
  "fgets 0 s = ([], s)"
| "fgets (Suc n) [] = ([], [])"
| "fgets (Suc n) (c # cs) = (if c = newline then ([c], cs) else (case fgets n cs of (l, r) \<Rightarrow> (c # l, r)))"

text \<open>The bytes of the zero-filled line buffer as numbers.\<close>

definition src_byte :: "string \<Rightarrow> nat \<Rightarrow> nat" where
  "src_byte src_line i = (if i < length src_line then of_char (src_line ! i) else 0)"

definition bom_shift :: "string \<Rightarrow> nat" where
  "bom_shift src_line =
     (if src_byte src_line 0 = 0xEF \<and> src_byte src_line 1 = 0xBB \<and> src_byte src_line 2 = 0xBF then 3
      else if src_byte src_line 0 = 0xFE \<and> src_byte src_line 1 = 0xFF \<or>
              src_byte src_line 0 = 0xFF \<and> src_byte src_line 1 = 0xFE then 2
      else if src_byte src_line 0 = 0x00 \<and> src_byte src_line 1 = 0x00 \<and>
              src_byte src_line 2 = 0xFE \<and> src_byte src_line 3 = 0xFF then 4
      else if src_byte src_line 0 = 0xFF \<and> src_byte src_line 1 = 0xFE \<and>
              src_byte src_line 2 = 0x00 \<and> src_byte src_line 3 = 0x00 then 4
      else 0)"

text \<open>Stripping, and the cut to the maximal length (\<open>the\<close>: memory can be allocated).\<close>

definition chomp :: "string \<Rightarrow> string" where
  "chomp s = take P_INI_FILE_MAX_LINE (the (p_strchomp True (Some s)))"

section \<open>The scan patterns\<close>

text \<open>\<open>%[\<dots>]\<close>: a non-empty run of accepted characters.\<close>

definition scan_set :: "(char \<Rightarrow> bool) \<Rightarrow> string \<Rightarrow> (string \<times> string) option" where
  "scan_set P s = (if takeWhile P s = [] then None else Some (takeWhile P s, dropWhile P s))"

text \<open>A blank in the pattern skips white space, any other character must be there.\<close>

definition scan_space :: "string \<Rightarrow> string" where
  "scan_space s = dropWhile isspace s"

fun scan_char :: "char \<Rightarrow> string \<Rightarrow> string option" where
  "scan_char c (d # s) = (if d = c then Some s else None)"
| "scan_char c [] = None"

text \<open>\<open>"[%[^]]"\<close>\<close>

definition scan_section :: "string \<Rightarrow> string option" where
  "scan_section s =
     (case scan_char (CHR ''['') s of
        None \<Rightarrow> None
      | Some r \<Rightarrow> map_option fst (scan_set (\<lambda>c. c \<noteq> CHR '']'') r))"

text \<open>\<open>"%[^=] = "\<close>\<close>

definition scan_key :: "string \<Rightarrow> (string \<times> string) option" where
  "scan_key s =
     (case scan_set (\<lambda>c. c \<noteq> CHR ''='') s of
        None \<Rightarrow> None
      | Some (key, r) \<Rightarrow>
          (case scan_char (CHR ''='') (scan_space r) of
             None \<Rightarrow> None
           | Some r \<Rightarrow> Some (key, scan_space r)))"

text \<open>\<open>"%[^=] = \"%[^\"]\""\<close> and \<open>"%[^=] = '%[^\']'"\<close>; the closing quote does not count.\<close>

definition scan_quoted :: "char \<Rightarrow> string \<Rightarrow> (string \<times> string) option" where
  "scan_quoted q s =
     (case scan_key s of
        None \<Rightarrow> None
      | Some (key, r) \<Rightarrow>
          (case scan_char q r of
             None \<Rightarrow> None
           | Some r \<Rightarrow> map_option (\<lambda>(val, _). (key, val)) (scan_set (\<lambda>c. c \<noteq> q) r)))"

text \<open>\<open>"%[^=] = %[^;#]"\<close>\<close>

definition scan_plain :: "string \<Rightarrow> (string \<times> string) option" where
  "scan_plain s =
     (case scan_key s of
        None \<Rightarrow> None
      | Some (key, r) \<Rightarrow> map_option (\<lambda>(val, _). (key, val)) (scan_set (\<lambda>c. c \<noteq> CHR '';'' \<and> c \<noteq> CHR ''#'') r))"

definition scan_parameter :: "string \<Rightarrow> (string \<times> string) option" where
  "scan_parameter s =
     (case scan_quoted (CHR 0x22) s of
        Some kv \<Rightarrow> Some kv
      | None \<Rightarrow>
          (case scan_quoted (CHR 0x27) s of
             Some kv \<Rightarrow> Some kv
           | None \<Rightarrow> scan_plain s))"

section \<open>Parsing\<close>

text \<open>\<open>section\<close>, the one being filled, and \<open>file->sections\<close>.\<close>

type_synonym parse_state = "PIniSection option \<times> PIniSection list"

definition open_section :: "string \<Rightarrow> parse_state \<Rightarrow> parse_state" where
  "open_section key st =
     (let secs = (case st of
            (None, secs) \<Rightarrow> secs
          | (Some sec, secs) \<Rightarrow> if sec_keys sec = [] then secs else sec # secs)
      in (pp_ini_file_section_new True True (chomp key), secs))"

definition add_parameter :: "string \<Rightarrow> string \<Rightarrow> parse_state \<Rightarrow> parse_state" where
  "add_parameter key val st =
     (let val1 = chomp val;
          val2 = (if val1 = [CHR 0x22, CHR 0x22] \<or> val1 = [CHR 0x27, CHR 0x27] then [] else val1)
      in case st of
           (None, secs) \<Rightarrow> (None, secs)
         | (Some sec, secs) \<Rightarrow>
             (case pp_ini_file_parameter_new True True True (chomp key) val2 of
                None \<Rightarrow> (Some sec, secs)
              | Some param \<Rightarrow> (Some (sec\<lparr>sec_keys := param # sec_keys sec\<rparr>), secs)))"

definition parse_line :: "string \<Rightarrow> parse_state \<Rightarrow> parse_state" where
  "parse_line src_line st =
     (let dst_line = chomp (c_string (drop (bom_shift src_line) src_line))
      in case (if dst_line \<noteq> [] \<and> hd dst_line = CHR ''['' \<and> last dst_line = CHR '']'' then scan_section dst_line else None) of
           Some key \<Rightarrow> open_section key st
         | None \<Rightarrow>
             (case scan_parameter dst_line of
                Some (key, val) \<Rightarrow> add_parameter key val st
              | None \<Rightarrow> st))"

lemma fgets_shorter: "s \<noteq> [] \<Longrightarrow> length (snd (fgets (Suc n) s)) < length s"
proof (induction n arbitrary: s)
  case 0
  then show ?case by (cases s) simp_all
next
  case (Suc n)
  then obtain c cs where "s = c # cs" by (cases s) auto
  then show ?case using Suc.IH[of cs] by (cases "cs = []") (auto simp: split_beta less_SucI)
qed

lemma fgets_rest: "s \<noteq> [] \<Longrightarrow> (l, r) = fgets P_INI_FILE_MAX_LINE s \<Longrightarrow> length r < length s"
proof -
  assume "s \<noteq> []" and r: "(l, r) = fgets P_INI_FILE_MAX_LINE s"
  have "P_INI_FILE_MAX_LINE = Suc 1023" by (simp add: P_INI_FILE_MAX_LINE_def)
  then have "length (snd (fgets P_INI_FILE_MAX_LINE s)) < length s" using fgets_shorter[OF \<open>s \<noteq> []\<close>, of 1023] by simp
  then show ?thesis by (simp flip: r)
qed

function parse_lines :: "string \<Rightarrow> parse_state \<Rightarrow> parse_state" where
  "parse_lines content st =
     (if content = [] then st
      else (case fgets P_INI_FILE_MAX_LINE content of (line, rest) \<Rightarrow> parse_lines rest (parse_line line st)))"
  by pat_completeness auto
termination
  by (relation "measure (\<lambda>(content, st). length content)") (auto dest: fgets_rest)

declare parse_lines.simps [simp del]

definition close_file :: "parse_state \<Rightarrow> PIniSection list" where
  "close_file st =
     (case st of
        (None, secs) \<Rightarrow> secs
      | (Some sec, secs) \<Rightarrow> if sec_keys sec = [] then secs else secs @ [sec])"

text \<open>The result is the boolean of the C function with the error for FALSE, and the object.\<close>

definition p_ini_file_parse ::
  "(string \<Rightarrow> string option) \<Rightarrow> PIniFile option \<Rightarrow> (io_error + unit) \<times> PIniFile option" where
  "p_ini_file_parse fopen file =
     (case file of
        None \<Rightarrow> (Inl P_ERROR_IO_INVALID_ARGUMENT, None)
      | Some f \<Rightarrow>
          if is_parsed f then (Inr (), Some f)
          else (case fopen (path f) of
              None \<Rightarrow> (Inl Open_failed, Some f)
            | Some content \<Rightarrow>
                (Inr (), Some (f\<lparr>sections := close_file (parse_lines content (None, sections f)), is_parsed := True\<rparr>))))"

section \<open>Queries\<close>

definition p_ini_file_is_parsed :: "PIniFile option \<Rightarrow> bool" where
  "p_ini_file_is_parsed file = (case file of None \<Rightarrow> False | Some f \<Rightarrow> is_parsed f)"

definition p_ini_file_sections :: "PIniFile option \<Rightarrow> string list" where
  "p_ini_file_sections file =
     (case file of
        None \<Rightarrow> []
      | Some f \<Rightarrow> if \<not> is_parsed f then [] else fold (\<lambda>sec ret. sec_name sec # ret) (sections f) [])"

definition find_section :: "PIniFile \<Rightarrow> string \<Rightarrow> PIniSection option" where
  "find_section f name = find (\<lambda>sec. sec_name sec = name) (sections f)"

definition p_ini_file_keys :: "PIniFile option \<Rightarrow> string option \<Rightarrow> string list" where
  "p_ini_file_keys file name =
     (case (file, name) of
        (Some f, Some n) \<Rightarrow>
          if \<not> is_parsed f then []
          else (case find_section f n of
              None \<Rightarrow> []
            | Some sec \<Rightarrow> fold (\<lambda>par ret. par_name par # ret) (sec_keys sec) [])
      | _ \<Rightarrow> [])"

definition pp_ini_file_find_parameter :: "PIniFile option \<Rightarrow> string option \<Rightarrow> string option \<Rightarrow> string option" where
  "pp_ini_file_find_parameter file name key =
     (case (file, name, key) of
        (Some f, Some n, Some k) \<Rightarrow>
          if \<not> is_parsed f then None
          else (case find_section f n of
              None \<Rightarrow> None
            | Some sec \<Rightarrow> map_option par_value (find (\<lambda>par. par_name par = k) (sec_keys sec)))
      | _ \<Rightarrow> None)"

definition p_ini_file_is_key_exists :: "PIniFile option \<Rightarrow> string option \<Rightarrow> string option \<Rightarrow> bool" where
  "p_ini_file_is_key_exists file name key =
     (case (file, name, key) of
        (Some f, Some n, Some k) \<Rightarrow>
          if \<not> is_parsed f then False
          else (case find_section f n of
              None \<Rightarrow> False
            | Some sec \<Rightarrow> find (\<lambda>par. par_name par = k) (sec_keys sec) \<noteq> None)
      | _ \<Rightarrow> False)"

definition p_ini_file_parameter_string ::
  "PIniFile option \<Rightarrow> string option \<Rightarrow> string option \<Rightarrow> string option \<Rightarrow> string option" where
  "p_ini_file_parameter_string file name key default_val =
     (case pp_ini_file_find_parameter file name key of
        None \<Rightarrow> p_strdup True default_val
      | Some val \<Rightarrow> Some val)"

text \<open>
  \<open>atoi\<close> as the C libraries have it, \<open>(int) strtol (s, NULL, 10)\<close>: white space, a sign, digits; a value outside the
  64 bits of \<open>long\<close> becomes the nearest \<open>long\<close>, and the low 32 bits are the result.
\<close>

definition digit_value :: "char \<Rightarrow> int" where
  "digit_value c = int (of_char c) - 48"

definition isdigit :: "char \<Rightarrow> bool" where
  "isdigit c \<longleftrightarrow> 48 \<le> (of_char c :: nat) \<and> (of_char c :: nat) \<le> 57"

definition digits_value :: "string \<Rightarrow> int" where
  "digits_value s = foldl (\<lambda>v c. v * 10 + digit_value c) 0 (takeWhile isdigit s)"

definition strtol :: "string \<Rightarrow> int" where
  "strtol s =
     (let val = case dropWhile isspace s of
        [] \<Rightarrow> 0
      | c # cs \<Rightarrow>
          if c = CHR ''-'' then - digits_value cs
          else if c = CHR ''+'' then digits_value cs
          else digits_value (c # cs)
      in max (- (2 ^ 63)) (min (2 ^ 63 - 1) val))"

definition atoi :: "string \<Rightarrow> 32 word" where
  "atoi s = word_of_int (strtol s)"

definition p_ini_file_parameter_int :: "PIniFile option \<Rightarrow> string option \<Rightarrow> string option \<Rightarrow> 32 word \<Rightarrow> 32 word" where
  "p_ini_file_parameter_int file name key default_val =
     (case pp_ini_file_find_parameter file name key of None \<Rightarrow> default_val | Some val \<Rightarrow> atoi val)"

definition p_ini_file_parameter_boolean :: "PIniFile option \<Rightarrow> string option \<Rightarrow> string option \<Rightarrow> bool \<Rightarrow> bool" where
  "p_ini_file_parameter_boolean file name key default_val =
     (case pp_ini_file_find_parameter file name key of
        None \<Rightarrow> default_val
      | Some val \<Rightarrow>
          if val = ''true'' \<or> val = ''TRUE'' then True
          else if val = ''false'' \<or> val = ''FALSE'' then False
          else sint (atoi val) > 0)"

text \<open>
  The loop of \<open>p_ini_file_parameter_list\<close>; \<open>buf\<close> holds the first \<open>buf_cnt\<close> characters of the array.
\<close>

fun list_loop :: "string \<Rightarrow> string \<Rightarrow> string list \<Rightarrow> string list \<times> string" where
  "list_loop [] buf ret = (ret, buf)"
| "list_loop (c # str) buf ret =
     (if c = CHR ''}'' then (ret, buf)
      else if \<not> isspace c then list_loop str (buf @ [c]) ret
      else list_loop str [] (if length buf > 0 then ret @ [buf] else ret))"

definition p_ini_file_parameter_list :: "PIniFile option \<Rightarrow> string option \<Rightarrow> string option \<Rightarrow> string list" where
  "p_ini_file_parameter_list file name key =
     (case pp_ini_file_find_parameter file name key of
        None \<Rightarrow> []
      | Some val \<Rightarrow>
          if length val < 3 \<or> val ! 0 \<noteq> CHR ''{'' \<or> val ! (length val - 1) \<noteq> CHR ''}'' then []
          else (case list_loop (tl val) [] [] of
              (ret, buf) \<Rightarrow> if length buf > 0 then ret @ [buf] else ret))"

end
