(* ===== verification/PIniProps.thy ===== *)
theory PIniProps
  imports PIniFile
begin

text \<open>
  The ini-file parser reads back what a simple printer writes, the queries give the values written, and
  the special cases: duplicate sections, byte-order marks, files that cannot be opened, lists.
\<close>

section \<open>Documents and their text\<close>

type_synonym document = "(string \<times> (string \<times> string) list) list"

definition print_parameter :: "string \<times> string \<Rightarrow> string" where
  "print_parameter kv = fst kv @ CHR ''='' # snd kv @ [newline]"

definition print_section :: "string \<times> (string \<times> string) list \<Rightarrow> string" where
  "print_section sec = CHR ''['' # fst sec @ CHR '']'' # newline # concat (map print_parameter (snd sec))"

definition print_document :: "document \<Rightarrow> string" where
  "print_document doc = concat (map print_section doc)"

text \<open>Words that survive stripping, with the characters of their place left out.\<close>

definition printable :: "char \<Rightarrow> bool" where
  "printable c \<longleftrightarrow> 32 \<le> (of_char c :: nat) \<and> (of_char c :: nat) \<le> 126"

definition plain_word :: "string \<Rightarrow> bool" where
  "plain_word s \<longleftrightarrow> s \<noteq> [] \<and> list_all printable s \<and> \<not> isspace (hd s) \<and> \<not> isspace (last s)"

definition plain_parameter :: "string \<times> string \<Rightarrow> bool" where
  "plain_parameter kv \<longleftrightarrow>
     plain_word (fst kv) \<and> plain_word (snd kv) \<and> CHR ''='' \<notin> set (fst kv) \<and> hd (fst kv) \<noteq> CHR ''['' \<and>
     CHR '';'' \<notin> set (snd kv) \<and> CHR ''#'' \<notin> set (snd kv) \<and> hd (snd kv) \<noteq> CHR 0x22 \<and> hd (snd kv) \<noteq> CHR 0x27 \<and>
     length (fst kv) + length (snd kv) + 2 \<le> P_INI_FILE_MAX_LINE"

definition plain_section :: "string \<times> (string \<times> string) list \<Rightarrow> bool" where
  "plain_section sec \<longleftrightarrow>
     plain_word (fst sec) \<and> CHR '']'' \<notin> set (fst sec) \<and> length (fst sec) + 3 \<le> P_INI_FILE_MAX_LINE \<and>
     snd sec \<noteq> [] \<and> list_all plain_parameter (snd sec)"

section \<open>Reading one line\<close>

lemma fgets_line: "newline \<notin> set l \<Longrightarrow> length l < n \<Longrightarrow> fgets n (l @ newline # r) = (l @ [newline], r)"
proof (induction l arbitrary: n)
  case Nil
  then show ?case by (cases n) simp_all
next
  case (Cons c l)
  then show ?case by (cases n) (auto simp: split_beta)
qed

lemma isspace_newline: "isspace newline"
  by (simp add: isspace_def newline_def)

lemma printable_not: "printable c \<Longrightarrow> c \<noteq> NUL" "printable c \<Longrightarrow> c \<noteq> newline"
  by (auto simp: printable_def newline_def)

lemma bom_printable: "s \<noteq> [] \<Longrightarrow> printable (hd s) \<Longrightarrow> bom_shift s = 0"
  by (cases s) (auto simp: bom_shift_def src_byte_def printable_def)

lemma chomp_word:
  "s \<noteq> [] \<Longrightarrow> \<not> isspace (hd s) \<Longrightarrow> \<not> isspace (last s) \<Longrightarrow> length s \<le> P_INI_FILE_MAX_LINE \<Longrightarrow>
    chomp s = s \<and> chomp (s @ [newline]) = s"
  using strchomp_core[of "[]" s "[]"] strchomp_core[of "[]" s "[newline]"] isspace_newline
  by (simp add: chomp_def)

lemma dst_line_word:
  assumes "list_all printable s" "s \<noteq> []" "\<not> isspace (hd s)" "\<not> isspace (last s)" "length s \<le> P_INI_FILE_MAX_LINE"
  shows "chomp (c_string (drop (bom_shift (s @ [newline])) (s @ [newline]))) = s"
proof -
  have "\<forall>c \<in> set (s @ [newline]). c \<noteq> NUL" using assms(1) printable_not by (auto simp: list_all_iff newline_def)
  then have "c_string (s @ [newline]) = s @ [newline]" unfolding c_string_def by (rule takeWhile_eq_all_conv[THEN iffD2])
  moreover have "bom_shift (s @ [newline]) = 0"
    using assms(1,2) by (intro bom_printable) (auto simp: list_all_iff hd_append)
  ultimately show ?thesis using chomp_word[OF assms(2-5)] by simp
qed

lemma scan_set_run: "\<forall>c \<in> set xs. P c \<Longrightarrow> xs \<noteq> [] \<Longrightarrow> \<not> P y \<Longrightarrow> scan_set P (xs @ y # ys) = Some (xs, y # ys)"
  by (simp add: scan_set_def takeWhile_append2 dropWhile_append2)

lemma scan_set_all: "\<forall>c \<in> set xs. P c \<Longrightarrow> xs \<noteq> [] \<Longrightarrow> scan_set P xs = Some (xs, [])"
  by (simp add: scan_set_def takeWhile_eq_all_conv[THEN iffD2] dropWhile_eq_Nil_conv[THEN iffD2])

lemma parse_section_line:
  assumes "plain_section sec"
  shows "parse_line (CHR ''['' # fst sec @ [CHR '']'', newline]) st = open_section (fst sec) st"
proof -
  let ?s = "CHR ''['' # fst sec @ [CHR '']'']"
  have "chomp (c_string (drop (bom_shift (?s @ [newline])) (?s @ [newline]))) = ?s"
    using assms by (intro dst_line_word) (auto simp: plain_section_def plain_word_def printable_def isspace_def)
  moreover have "scan_section ?s = Some (fst sec)"
    using assms scan_set_run[of "fst sec" "\<lambda>c. c \<noteq> CHR '']''" "CHR '']''" "[]"]
    by (auto simp: scan_section_def plain_section_def plain_word_def)
  ultimately show ?thesis by (simp add: parse_line_def)
qed

lemma parse_parameter_line:
  assumes "plain_parameter kv"
  shows "parse_line (print_parameter kv) st = add_parameter (fst kv) (snd kv) st"
proof -
  obtain k v where kv: "kv = (k, v)" by fastforce
  let ?s = "k @ CHR ''='' # v"
  have w: "plain_word k" "plain_word v" "CHR ''='' \<notin> set k" "hd k \<noteq> CHR ''[''" "CHR '';'' \<notin> set v" "CHR ''#'' \<notin> set v"
    "hd v \<noteq> CHR 0x22" "hd v \<noteq> CHR 0x27" "length k + length v + 2 \<le> P_INI_FILE_MAX_LINE"
    using assms by (simp_all add: plain_parameter_def kv)
  have "chomp (c_string (drop (bom_shift (?s @ [newline])) (?s @ [newline]))) = ?s"
    using w by (intro dst_line_word) (auto simp: plain_word_def printable_def hd_append)
  moreover have "hd ?s \<noteq> CHR ''[''" using w by (simp add: plain_word_def hd_append)
  moreover have "scan_key ?s = Some (k, v)"
  proof -
    have "scan_set (\<lambda>c. c \<noteq> CHR ''='') ?s = Some (k, CHR ''='' # v)"
      using w by (intro scan_set_run) (auto simp: plain_word_def)
    moreover have "scan_space v = v" using w(2) by (cases v) (simp_all add: scan_space_def plain_word_def)
    moreover have "scan_space (CHR ''='' # v) = CHR ''='' # v" by (simp add: scan_space_def isspace_def)
    ultimately show ?thesis by (simp add: scan_key_def)
  qed
  moreover have "scan_char (CHR 0x22) v = None" "scan_char (CHR 0x27) v = None"
    using w(2,7,8) by (cases v; simp add: plain_word_def)+
  moreover have "scan_set (\<lambda>c. c \<noteq> CHR '';'' \<and> c \<noteq> CHR ''#'') v = Some (v, [])"
    using w by (intro scan_set_all) (auto simp: plain_word_def)
  ultimately have "parse_line (?s @ [newline]) st = add_parameter k v st"
    by (simp add: parse_line_def scan_parameter_def scan_quoted_def scan_plain_def)
  then show ?thesis by (simp add: print_parameter_def kv)
qed

section \<open>Reading a document\<close>

lemma parse_lines_Nil [simp]: "parse_lines [] st = st"
  by (subst parse_lines.simps) simp

lemma parse_lines_line:
  "newline \<notin> set l \<Longrightarrow> length l < P_INI_FILE_MAX_LINE \<Longrightarrow>
    parse_lines (l @ newline # r) st = parse_lines r (parse_line (l @ [newline]) st)"
  by (subst parse_lines.simps) (simp add: fgets_line)

definition parameter_of :: "string \<times> string \<Rightarrow> PIniParameter" where
  "parameter_of kv = \<lparr>par_name = fst kv, par_value = snd kv\<rparr>"

definition section_of :: "string \<times> (string \<times> string) list \<Rightarrow> PIniSection" where
  "section_of sec = \<lparr>sec_name = fst sec, sec_keys = rev (map parameter_of (snd sec))\<rparr>"

lemma section_of_fields [simp]: "sec_name (section_of sec) = fst sec" "sec_keys (section_of sec) = rev (map parameter_of (snd sec))"
  by (simp_all add: section_of_def)

lemma plain_no_newline: "list_all printable s \<Longrightarrow> newline \<notin> set s"
  using printable_not(2) by (auto simp: list_all_iff)

lemma add_plain_parameter:
  assumes "plain_parameter kv"
  shows "add_parameter (fst kv) (snd kv) (Some sec, secs) = (Some (sec\<lparr>sec_keys := parameter_of kv # sec_keys sec\<rparr>), secs)"
proof -
  have "chomp (fst kv) = fst kv" "chomp (snd kv) = snd kv"
    using assms chomp_word[of "fst kv"] chomp_word[of "snd kv"] by (auto simp: plain_parameter_def plain_word_def)
  moreover have "snd kv \<noteq> [CHR 0x22, CHR 0x22]" "snd kv \<noteq> [CHR 0x27, CHR 0x27]"
    using assms by (auto simp: plain_parameter_def)
  ultimately show ?thesis
    by (simp add: add_parameter_def parameter_of_def)
qed

lemma parse_parameters:
  "list_all plain_parameter kvs \<Longrightarrow> parse_lines (concat (map print_parameter kvs) @ rest) (Some sec, secs) =
    parse_lines rest (Some (sec\<lparr>sec_keys := rev (map parameter_of kvs) @ sec_keys sec\<rparr>), secs)"
proof (induction kvs arbitrary: sec)
  case (Cons kv kvs)
  then have kv: "plain_parameter kv" by simp
  let ?l = "fst kv @ CHR ''='' # snd kv"
  have "newline \<notin> set ?l" "length ?l < P_INI_FILE_MAX_LINE"
    using kv plain_no_newline by (auto simp: plain_parameter_def plain_word_def newline_def)
  from parse_lines_line[OF this, of "concat (map print_parameter kvs) @ rest" "(Some sec, secs)"]
  have "parse_lines (print_parameter kv @ concat (map print_parameter kvs) @ rest) (Some sec, secs) =
      parse_lines (concat (map print_parameter kvs) @ rest) (Some (sec\<lparr>sec_keys := parameter_of kv # sec_keys sec\<rparr>), secs)"
    using parse_parameter_line[OF kv] add_plain_parameter[OF kv] by (simp add: print_parameter_def)
  then show ?case using Cons by simp
qed simp

lemma parse_one_section:
  assumes "plain_section sec"
  shows "parse_lines (print_section sec @ rest) (cur, secs) =
    parse_lines rest (Some (section_of sec), case cur of None \<Rightarrow> secs | Some c \<Rightarrow> if sec_keys c = [] then secs else c # secs)"
proof -
  let ?l = "CHR ''['' # fst sec @ [CHR '']'']"
  have p: "list_all plain_parameter (snd sec)" and n: "chomp (fst sec) = fst sec"
    using assms chomp_word[of "fst sec"] by (auto simp: plain_section_def plain_word_def)
  have "newline \<notin> set ?l" "length ?l < P_INI_FILE_MAX_LINE"
    using assms plain_no_newline by (auto simp: plain_section_def plain_word_def newline_def)
  from parse_lines_line[OF this, of "concat (map print_parameter (snd sec)) @ rest" "(cur, secs)"]
  have "parse_lines (print_section sec @ rest) (cur, secs) =
      parse_lines (concat (map print_parameter (snd sec)) @ rest) (open_section (fst sec) (cur, secs))"
    using parse_section_line[OF assms] by (simp add: print_section_def)
  also have "open_section (fst sec) (cur, secs) = (Some \<lparr>sec_name = fst sec, sec_keys = []\<rparr>,
      case cur of None \<Rightarrow> secs | Some c \<Rightarrow> if sec_keys c = [] then secs else c # secs)"
    by (simp add: open_section_def n split: option.split)
  finally show ?thesis using parse_parameters[OF p]
    by (simp add: section_of_def)
qed

lemma parse_document:
  "list_all plain_section doc \<Longrightarrow> sec_keys cur \<noteq> [] \<Longrightarrow>
    parse_lines (print_document doc) (Some cur, secs) =
      (Some (last (cur # map section_of doc)), rev (butlast (cur # map section_of doc)) @ secs)"
proof (induction doc arbitrary: cur secs)
  case (Cons sec doc)
  then have "sec_keys (section_of sec) \<noteq> []" by (simp add: section_of_def plain_section_def)
  then show ?case using Cons parse_one_section[of sec "print_document doc" "Some cur" secs]
    by (simp add: print_document_def)
qed (simp add: print_document_def)

lemma parse_printed:
  assumes "list_all plain_section doc" "doc \<noteq> []"
  shows "p_ini_file_parse (\<lambda>_. Some (print_document doc)) (p_ini_file_new True True (Some q)) =
    (Inr (), Some \<lparr>path = q, sections = rev (map section_of (butlast doc)) @ [section_of (last doc)], is_parsed = True\<rparr>)"
proof -
  obtain sec doc' where doc: "doc = sec # doc'" using assms(2) by (cases doc) auto
  have k: "sec_keys (section_of d) \<noteq> []" if "d \<in> set doc" for d
    using assms(1) that by (auto simp: list_all_iff plain_section_def section_of_def)
  have "parse_lines (print_document doc) (None, []) =
      (Some (last (map section_of doc)), rev (butlast (map section_of doc)))"
    using assms(1) parse_one_section[of sec "print_document doc'" None "[]"] parse_document[of doc' "section_of sec" "[]"] k
    by (simp add: doc print_document_def)
  moreover have "last (map section_of doc) = section_of (last doc)" "butlast (map section_of doc) = map section_of (butlast doc)"
    using assms(2) by (simp_all add: last_map map_butlast)
  ultimately show ?thesis using k[of "last doc"] assms(2)
    by (simp add: p_ini_file_parse_def close_file_def)
qed

lemma find_by_name:
  "distinct (map f xs) \<Longrightarrow> x \<in> set xs \<Longrightarrow> find (\<lambda>y. f y = f x) xs = Some x"
  by (induction xs) (auto simp: image_iff)

lemma fold_names: "fold (\<lambda>x ret. f x # ret) xs ys = rev (map f xs) @ ys"
  by (induction xs arbitrary: ys) simp_all

lemma find_parameter_rev:
  "map_option par_value (find (\<lambda>par. par_name par = k) (map parameter_of kvs)) = map_of kvs k"
  by (induction kvs) (auto simp: parameter_of_def)

section \<open>Lists of words\<close>

function words :: "string \<Rightarrow> string list" where
  "words s = (if \<forall>c \<in> set s. isspace c then []
     else takeWhile (\<lambda>c. \<not> isspace c) (scan_space s) # words (dropWhile (\<lambda>c. \<not> isspace c) (scan_space s)))"
  by pat_completeness auto
termination
proof (relation "measure length")
  fix s assume "\<not> (\<forall>c \<in> set s. isspace c)"
  then obtain c t where ct: "scan_space s = c # t" by (cases "scan_space s") (auto simp: scan_space_def)
  then have "\<not> isspace c" using hd_dropWhile[of isspace s] by (simp add: scan_space_def)
  then have "length (dropWhile (\<lambda>c. \<not> isspace c) (scan_space s)) < length (scan_space s)"
    using ct by (simp add: length_dropWhile_le le_imp_less_Suc)
  then show "(dropWhile (\<lambda>c. \<not> isspace c) (scan_space s), s) \<in> measure length"
    using length_dropWhile_le[of isspace s] by (simp add: scan_space_def)
qed simp

declare words.simps [simp del]

lemma words_space: "isspace c \<Longrightarrow> words (c # t) = words t"
  by (subst (1 2) words.simps) (simp add: scan_space_def)

lemma words_split:
  assumes "\<forall>c \<in> set w. \<not> isspace c" "w \<noteq> []"
  shows "words w = [w]" "isspace c \<Longrightarrow> words (w @ c # t) = w # words t"
proof -
  have w: "scan_space (w @ x) = w @ x" for x
    using assms by (cases w) (simp_all add: scan_space_def)
  have ns: "\<not> (\<forall>c \<in> set (w @ x). isspace c)" for x using assms by (cases w) simp_all
  have "words [] = []" by (subst words.simps) simp
  then show "words w = [w]" using w[of "[]"] ns[of "[]"] assms(1)
    by (subst words.simps) (simp add: takeWhile_eq_all_conv[THEN iffD2] dropWhile_eq_Nil_conv[THEN iffD2])
  assume "isspace c"
  then show "words (w @ c # t) = w # words t"
    using w[of "c # t"] ns[of "c # t"] assms(1) words_space[of c t]
    by (subst words.simps) (simp add: takeWhile_append2 dropWhile_append2)
qed

lemma list_loop_words:
  "\<forall>c \<in> set w. \<not> isspace c \<Longrightarrow>
    (case list_loop str w ret of (ret', w') \<Rightarrow> if length w' > 0 then ret' @ [w'] else ret') =
      ret @ words (w @ takeWhile (\<lambda>c. c \<noteq> CHR ''}'') str)"
proof (induction str w ret rule: list_loop.induct)
  case (1 w ret)
  then show ?case using words_split(1)[of w] by (simp add: words.simps)
next
  case (2 c str w ret)
  show ?case
  proof (cases "c = CHR ''}''")
    case True
    then show ?thesis using 2(3) words_split(1)[of w] by (simp add: words.simps)
  next
    case other: False
    show ?thesis
    proof (cases "isspace c")
      case True
      then show ?thesis using 2(2)[OF other] 2(3) other words_split(2)[of w c] words_space[of c]
        by (cases "w = []") simp_all
    next
      case False
      then show ?thesis using 2(1)[OF other] 2(3) other by simp
    qed
  qed
qed

lemma words_bound: "w \<in> set (words s) \<Longrightarrow> w \<noteq> [] \<and> (\<forall>c \<in> set w. \<not> isspace c) \<and> length w \<le> length s"
proof (induction s rule: words.induct)
  case (1 s)
  then show ?case
  proof (cases "\<forall>c \<in> set s. isspace c")
    case True
    then have "words s = []" by (subst words.simps) simp
    then show ?thesis using 1(2) by simp
  next
    case False
    let ?t = "scan_space s"
    have t: "?t \<noteq> []" "\<not> isspace (hd ?t)" using False hd_dropWhile[of isspace s] by (auto simp: scan_space_def)
    have le: "length ?t \<le> length s" by (simp add: scan_space_def length_dropWhile_le)
    have "w = takeWhile (\<lambda>c. \<not> isspace c) ?t \<or> w \<in> set (words (dropWhile (\<lambda>c. \<not> isspace c) ?t))"
      using 1(2) False by (subst (asm) words.simps) auto
    then show ?thesis
    proof
      assume w: "w = takeWhile (\<lambda>c. \<not> isspace c) ?t"
      then show ?thesis using t le length_takeWhile_le[of "\<lambda>c. \<not> isspace c" ?t]
        by (cases ?t) (simp_all, fastforce dest: set_takeWhileD)
    next
      assume "w \<in> set (words (dropWhile (\<lambda>c. \<not> isspace c) ?t))"
      then show ?thesis using 1(1)[OF False] le length_dropWhile_le[of "\<lambda>c. \<not> isspace c" ?t]
        by (metis le_trans)
    qed
  qed
qed

section \<open>Values fit the line buffer\<close>

definition values_fit :: "PIniSection \<Rightarrow> bool" where
  "values_fit sec \<longleftrightarrow> list_all (\<lambda>par. length (par_value par) \<le> P_INI_FILE_MAX_LINE) (sec_keys sec)"

definition state_fits :: "parse_state \<Rightarrow> bool" where
  "state_fits st \<longleftrightarrow> pred_option values_fit (fst st) \<and> list_all values_fit (snd st)"

lemma chomp_fits: "length (chomp s) \<le> P_INI_FILE_MAX_LINE"
  by (simp add: chomp_def)

lemma parse_line_fits: "state_fits st \<Longrightarrow> state_fits (parse_line l st)"
proof -
  assume st: "state_fits st"
  have "state_fits (open_section key st)" for key
    using st by (auto simp: open_section_def state_fits_def values_fit_def split: prod.split option.split)
  moreover have "state_fits (add_parameter key val st)" for key val
    using st chomp_fits[of val] by (auto simp: add_parameter_def Let_def state_fits_def values_fit_def
        split: prod.split option.split)
  ultimately show ?thesis using st by (auto simp: parse_line_def Let_def split: option.split)
qed

lemma parse_lines_fit: "state_fits st \<Longrightarrow> state_fits (parse_lines content st)"
proof (induction content st rule: parse_lines.induct)
  case (1 content st)
  obtain l r where lr: "fgets P_INI_FILE_MAX_LINE content = (l, r)" by fastforce
  show ?case
  proof (cases "content = []")
    case True
    then show ?thesis using 1(2) by simp
  next
    case False
    then have "state_fits (parse_lines r (parse_line l st))"
      using 1(1)[OF False lr[symmetric]] parse_line_fits[OF 1(2)] by simp
    then show ?thesis using False lr by (subst parse_lines.simps) simp
  qed
qed

lemma find_in: "find P xs = Some x \<Longrightarrow> x \<in> set xs"
  by (metis find_Some_iff nth_mem)

lemma parsed_value_fits:
  assumes "p_ini_file_parse fopen (p_ini_file_new True True p) = (r, f)" "pp_ini_file_find_parameter f name key = Some val"
  shows "length val \<le> P_INI_FILE_MAX_LINE"
proof -
  have "state_fits (None, [])" by (simp add: state_fits_def)
  then have fits: "list_all values_fit (close_file (parse_lines content (None, [])))" for content
    using parse_lines_fit[of "(None, [])" content] by (auto simp: state_fits_def close_file_def split: prod.split option.split)
  obtain g n k where g: "f = Some g" "name = Some n" "key = Some k" "is_parsed g"
    using assms(2) by (auto simp: pp_ini_file_find_parameter_def split: option.splits if_splits)
  then have "list_all values_fit (sections g)"
    using assms(1) fits by (auto simp: p_ini_file_parse_def p_ini_file_new_def split: option.splits if_splits)
  moreover obtain sec par where "sec \<in> set (sections g)" "par \<in> set (sec_keys sec)" "val = par_value par"
    using assms(2) g by (auto simp: pp_ini_file_find_parameter_def find_section_def split: option.splits
        dest!: find_in)
  ultimately show ?thesis by (auto simp: list_all_iff values_fit_def)
qed

section \<open>Properties\<close>

text \<open>
  \<open>p_strchomp\<close> gives the string without the white space at both ends, for every string.
\<close>

theorem strchomp_strips: "p_strchomp True (Some s) = Some (strip s)"
  by (rule strchomp_strip)

text \<open>
  C19.  Parsing the text of a document gives the document back: the section names (the last section
  comes first), the keys of each section in order, and for every key the last value given to it.
\<close>

theorem ini_roundtrip:
  assumes "list_all plain_section doc" "doc \<noteq> []" "distinct (map fst doc)"
    and "p_ini_file_parse (\<lambda>_. Some (print_document doc)) (p_ini_file_new True True (Some q)) = (r, f)"
  shows "r = Inr () \<and> p_ini_file_sections f = fst (last doc) # map fst (butlast doc) \<and>
    (\<forall>(name, kvs) \<in> set doc. p_ini_file_keys f (Some name) = map fst kvs \<and>
      (\<forall>k d. p_ini_file_parameter_string f (Some name) (Some k) d =
        (case map_of (rev kvs) k of Some v \<Rightarrow> Some v | None \<Rightarrow> d)))"
proof -
  let ?secs = "rev (map section_of (butlast doc)) @ [section_of (last doc)]"
  have f: "r = Inr ()" "f = Some \<lparr>path = q, sections = ?secs, is_parsed = True\<rparr>"
    using parse_printed[OF assms(1,2), of q] assms(4) by simp_all
  have perm: "mset ?secs = mset (map section_of doc)"
    using assms(2) by (cases doc rule: rev_cases) simp_all
  have names: "map sec_name (map section_of doc) = map fst doc" by simp
  have "distinct (map sec_name ?secs)"
    using perm assms(3) names by (metis mset_eq_imp_distinct_iff mset_map)
  moreover have "set ?secs = section_of ` set doc" using perm by (metis set_mset_mset list.set_map)
  ultimately have sec: "find (\<lambda>sec. sec_name sec = name) ?secs = Some (section_of (name, kvs))" if "(name, kvs) \<in> set doc" for name kvs
    using find_by_name[of sec_name ?secs "section_of (name, kvs)"] that by (auto simp del: set_append set_rev)
  have "p_ini_file_sections f = fst (last doc) # map fst (butlast doc)"
    by (simp add: f p_ini_file_sections_def fold_names comp_def rev_map)
  moreover have "p_ini_file_keys f (Some name) = map fst kvs" if "(name, kvs) \<in> set doc" for name kvs
    using sec[OF that]
    by (simp add: f p_ini_file_keys_def find_section_def fold_names) (simp add: rev_map parameter_of_def comp_def)
  moreover have "p_ini_file_parameter_string f (Some name) (Some k) d = (case map_of (rev kvs) k of Some v \<Rightarrow> Some v | None \<Rightarrow> d)"
    if "(name, kvs) \<in> set doc" for name kvs k d
  proof -
    have "pp_ini_file_find_parameter f (Some name) (Some k) = map_of (rev kvs) k"
      using sec[OF that] find_parameter_rev[of k "rev kvs"]
      by (simp add: f pp_ini_file_find_parameter_def find_section_def) (simp add: rev_map)
    moreover have "p_strdup True d = d" by (simp add: p_strdup_def split: option.split)
    ultimately show ?thesis by (simp add: p_ini_file_parameter_string_def split: option.split)
  qed
  ultimately show ?thesis using f by auto
qed

definition sample_doc :: document where
  "sample_doc = [(''net'', [(''host'', ''a b''), (''port'', ''80''), (''port'', ''81'')]), (''log'', [(''level'', ''3'')])]"

lemma sample_plain: "list_all plain_section sample_doc" "sample_doc \<noteq> []" "distinct (map fst sample_doc)"
  by (simp_all add: sample_doc_def plain_section_def plain_parameter_def plain_word_def printable_def isspace_def
      P_INI_FILE_MAX_LINE_def)

theorem ini_roundtrip_witness:
  "\<exists>f. p_ini_file_parse (\<lambda>_. Some (print_document sample_doc)) (p_ini_file_new True True (Some ''x'')) = (Inr (), f) \<and>
    p_ini_file_sections f = [''log'', ''net''] \<and>
    p_ini_file_parameter_string f (Some ''net'') (Some ''port'') None = Some ''81''"
proof -
  obtain r f where rf: "p_ini_file_parse (\<lambda>_. Some (print_document sample_doc)) (p_ini_file_new True True (Some ''x'')) = (r, f)"
    by fastforce
  from ini_roundtrip[OF sample_plain rf] rf show ?thesis by (auto simp: sample_doc_def)
qed

definition parse_text :: "string \<Rightarrow> PIniFile option" where
  "parse_text t = snd (p_ini_file_parse (\<lambda>_. Some t) (p_ini_file_new True True (Some ''f'')))"

text \<open>
  Of several sections with one name, the queries use the last one but one, or the first of two: the
  last section of a file is appended to the list, all others are prepended.
\<close>

theorem ini_duplicate_sections:
  assumes "plain_section (n, [(k, v1)])" "plain_section (n, [(k, v2)])" "plain_section (n, [(k, v3)])"
  shows "p_ini_file_parameter_string (parse_text (print_document [(n, [(k, v1)]), (n, [(k, v2)])])) (Some n) (Some k) None =
      Some v1 \<and>
    p_ini_file_parameter_string (parse_text (print_document [(n, [(k, v1)]), (n, [(k, v2)]), (n, [(k, v3)])]))
      (Some n) (Some k) None = Some v2"
  using assms parse_printed[of "[(n, [(k, v1)]), (n, [(k, v2)])]" "''f''"]
    parse_printed[of "[(n, [(k, v1)]), (n, [(k, v2)]), (n, [(k, v3)])]" "''f''"]
  by (simp add: parse_text_def p_ini_file_parameter_string_def pp_ini_file_find_parameter_def find_section_def section_of_def
      parameter_of_def p_strdup_def)

theorem ini_duplicate_sections_witness:
  "p_ini_file_parameter_string (parse_text (print_document [(''a'', [(''k'', ''1'')]), (''a'', [(''k'', ''2'')])]))
    (Some ''a'') (Some ''k'') None = Some ''1''"
  using ini_duplicate_sections[of "''a''" "''k''" "''1''" "''2''" "''3''"]
  by (simp add: plain_section_def plain_parameter_def plain_word_def printable_def isspace_def P_INI_FILE_MAX_LINE_def)

text \<open>
  A byte-order mark of UTF-8 or UTF-16 before a line is skipped, but the one of little-endian UTF-32
  is taken for UTF-16, so that the line is lost.
\<close>

theorem ini_byte_order_marks:
  assumes "plain_section sec"
  defines "line \<equiv> CHR ''['' # fst sec @ [CHR '']'', newline]"
  shows "parse_line (CHR 0xEF # CHR 0xBB # CHR 0xBF # line) st = open_section (fst sec) st \<and>
    parse_line (CHR 0xFE # CHR 0xFF # line) st = open_section (fst sec) st \<and>
    parse_line (CHR 0x00 # CHR 0x00 # CHR 0xFE # CHR 0xFF # line) st = open_section (fst sec) st \<and>
    parse_line (CHR 0xFF # CHR 0xFE # CHR 0x00 # CHR 0x00 # line) st = st"
proof -
  have "bom_shift line = 0" by (simp add: line_def bom_shift_def src_byte_def)
  then have same: "parse_line (b @ line) st = parse_line line st" if "bom_shift (b @ line) = length b" for b
    using that by (simp add: parse_line_def)
  have "chomp [] = []" by (simp add: chomp_def strchomp_strip strip_def)
  then have "parse_line (CHR 0xFF # CHR 0xFE # CHR 0x00 # CHR 0x00 # line) st = st"
    by (simp add: parse_line_def bom_shift_def src_byte_def c_string_def scan_parameter_def scan_quoted_def scan_plain_def
        scan_key_def scan_set_def)
  moreover have "parse_line line st = open_section (fst sec) st"
    unfolding line_def by (rule parse_section_line[OF assms(1)])
  moreover have "bom_shift ([CHR 0xEF, CHR 0xBB, CHR 0xBF] @ line) = 3" "bom_shift ([CHR 0xFE, CHR 0xFF] @ line) = 2"
    "bom_shift ([CHR 0x00, CHR 0x00, CHR 0xFE, CHR 0xFF] @ line) = 4"
    by (simp_all add: bom_shift_def src_byte_def)
  ultimately show ?thesis
    using same[of "[CHR 0xEF, CHR 0xBB, CHR 0xBF]"] same[of "[CHR 0xFE, CHR 0xFF]"]
      same[of "[CHR 0x00, CHR 0x00, CHR 0xFE, CHR 0xFF]"] by simp
qed

theorem ini_byte_order_marks_witness:
  "parse_line (CHR 0xEF # CHR 0xBB # CHR 0xBF # ''[net]'' @ [newline]) (None, []) = open_section ''net'' (None, []) \<and>
   parse_line (CHR 0xFF # CHR 0xFE # CHR 0x00 # CHR 0x00 # ''[net]'' @ [newline]) (None, []) = (None, [])"
  using ini_byte_order_marks[of "hd sample_doc" "(None, [])"] sample_plain(1) by (simp add: sample_doc_def)

text \<open>
  A missing object and a file that cannot be opened are errors that change nothing; a file is parsed
  once; before it is parsed, or with NULL arguments, every query gives its default.
\<close>

theorem ini_errors:
  "p_ini_file_parse fopen None = (Inl P_ERROR_IO_INVALID_ARGUMENT, None) \<and>
   (\<not> is_parsed f \<and> fopen (path f) = None \<longrightarrow> p_ini_file_parse fopen (Some f) = (Inl Open_failed, Some f)) \<and>
   (\<forall>f'. p_ini_file_parse fopen (Some f) = (Inr (), f') \<longrightarrow> p_ini_file_is_parsed f' \<and> p_ini_file_parse fopen f' = (Inr (), f')) \<and>
   (\<not> p_ini_file_is_parsed file \<or> name = None \<or> key = None \<longrightarrow>
      p_ini_file_parameter_string file name key d = d \<and> p_ini_file_parameter_int file name key i = i \<and>
      p_ini_file_parameter_boolean file name key b = b \<and> p_ini_file_parameter_list file name key = [] \<and>
      \<not> p_ini_file_is_key_exists file name key) \<and>
   (\<not> p_ini_file_is_parsed file \<longrightarrow> p_ini_file_sections file = [] \<and> p_ini_file_keys file name = [])"
  by (auto simp: p_ini_file_parse_def p_ini_file_is_parsed_def p_ini_file_parameter_string_def p_strdup_def
      p_ini_file_parameter_int_def p_ini_file_parameter_boolean_def p_ini_file_parameter_list_def
      pp_ini_file_find_parameter_def p_ini_file_is_key_exists_def p_ini_file_sections_def p_ini_file_keys_def
      split: option.splits)

theorem ini_errors_witness:
  "p_ini_file_parse (\<lambda>_. None) (p_ini_file_new True True (Some ''x'')) = (Inl Open_failed, p_ini_file_new True True (Some ''x'')) \<and>
   p_ini_file_parameter_int (p_ini_file_new True True (Some ''x'')) (Some ''a'') (Some ''b'') 7 = 7 \<and>
   p_ini_file_is_parsed (snd (p_ini_file_parse (\<lambda>_. Some []) (p_ini_file_new True True (Some ''x''))))"
  using ini_errors[of "\<lambda>_. None" "\<lparr>path = ''x'', sections = [], is_parsed = False\<rparr>"
      "p_ini_file_new True True (Some ''x'')" "Some ''a''" "Some ''b''" None 7 False]
    ini_errors[of "\<lambda>_. Some []" "\<lparr>path = ''x'', sections = [], is_parsed = False\<rparr>"
      None None None None 0 False]
  by (simp add: p_ini_file_is_parsed_def p_ini_file_parse_def)

text \<open>
  In a parsed file the list read from a value \<open>{\<dots>}\<close> is the words of the text up to the first closing
  brace, and every word, with its terminator, fits the buffer of \<open>P_INI_FILE_MAX_LINE + 1\<close> bytes on the stack.
  Any other value gives the empty list.
\<close>

theorem ini_parameter_list_words:
  assumes "p_ini_file_parse fopen (p_ini_file_new True True p) = (r, f)" "pp_ini_file_find_parameter f name key = Some val"
  shows "p_ini_file_parameter_list f name key =
      (if 3 \<le> length val \<and> hd val = CHR ''{'' \<and> last val = CHR ''}''
       then words (takeWhile (\<lambda>c. c \<noteq> CHR ''}'') (tl val)) else []) \<and>
    (\<forall>w \<in> set (p_ini_file_parameter_list f name key). length w < P_INI_FILE_MAX_LINE)"
proof -
  have nth: "val ! 0 = hd val" "val ! (length val - 1) = last val" if "3 \<le> length val"
    using that by (cases "val = []"; simp add: hd_conv_nth last_conv_nth)+
  have eq: "p_ini_file_parameter_list f name key =
      (if 3 \<le> length val \<and> hd val = CHR ''{'' \<and> last val = CHR ''}''
       then words (takeWhile (\<lambda>c. c \<noteq> CHR ''}'') (tl val)) else [])"
    using nth list_loop_words[of "[]" "tl val" "[]"]
    by (auto simp: p_ini_file_parameter_list_def assms(2) not_less)
  have "length w < P_INI_FILE_MAX_LINE" if w: "w \<in> set (words (takeWhile (\<lambda>c. c \<noteq> CHR ''}'') (tl val)))" "3 \<le> length val" for w
    using words_bound[OF w(1)] w(2) length_takeWhile_le[of "\<lambda>c. c \<noteq> CHR ''}''" "tl val"] parsed_value_fits[OF assms] unfolding length_tl by linarith
  then show ?thesis using eq by auto
qed

theorem ini_parameter_list_words_witness:
  "p_ini_file_parameter_list (parse_text (print_document [(''a'', [(''k'', ''{1  two 3}'')])])) (Some ''a'') (Some ''k'') =
     words ''1  two 3''"
proof -
  let ?f = "Some \<lparr>path = ''f'', sections = [section_of (''a'', [(''k'', ''{1  two 3}'')])], is_parsed = True\<rparr>"
  have f: "p_ini_file_parse (\<lambda>_. Some (print_document [(''a'', [(''k'', ''{1  two 3}'')])])) (p_ini_file_new True True (Some ''f'')) = (Inr (), ?f)"
    using parse_printed[of "[(''a'', [(''k'', ''{1  two 3}'')])]" "''f''"]
    by (simp add: plain_section_def plain_parameter_def plain_word_def printable_def isspace_def P_INI_FILE_MAX_LINE_def)
  have "pp_ini_file_find_parameter ?f (Some ''a'') (Some ''k'') = Some ''{1  two 3}''"
    by (simp add: pp_ini_file_find_parameter_def find_section_def parameter_of_def)
  from ini_parameter_list_words[OF f this] show ?thesis by (simp add: parse_text_def f del: p_ini_file_new_ok)
qed

end
