(* ===== verification/PError.thy ===== *)
theory PError
  imports PString
begin

text \<open>
  Errors (\<open>perror.c\<close>, \<open>perrortypes.h\<close>): the tables from the error codes of the system to those of the library,
  and the error object.  The numbers of the system's error macros are a parameter \<open>E\<close>, with \<open>None\<close> for a macro
  that is not defined; a \<open>switch\<close> is the search for the first label with the given number.
\<close>

section \<open>Codes\<close>

datatype PErrorDomain =
    P_ERROR_DOMAIN_NONE
  | P_ERROR_DOMAIN_IO
  | P_ERROR_DOMAIN_IPC

fun domain_code :: "PErrorDomain \<Rightarrow> int" where
  "domain_code P_ERROR_DOMAIN_NONE = 0"
| "domain_code P_ERROR_DOMAIN_IO = 500"
| "domain_code P_ERROR_DOMAIN_IPC = 600"

datatype PErrorIO =
    P_ERROR_IO_NONE
  | P_ERROR_IO_NO_RESOURCES
  | P_ERROR_IO_NOT_AVAILABLE
  | P_ERROR_IO_ACCESS_DENIED
  | P_ERROR_IO_CONNECTED
  | P_ERROR_IO_IN_PROGRESS
  | P_ERROR_IO_ABORTED
  | P_ERROR_IO_INVALID_ARGUMENT
  | P_ERROR_IO_NOT_SUPPORTED
  | P_ERROR_IO_TIMED_OUT
  | P_ERROR_IO_WOULD_BLOCK
  | P_ERROR_IO_ADDRESS_IN_USE
  | P_ERROR_IO_CONNECTION_REFUSED
  | P_ERROR_IO_NOT_CONNECTED
  | P_ERROR_IO_QUOTA
  | P_ERROR_IO_IS_DIRECTORY
  | P_ERROR_IO_NOT_DIRECTORY
  | P_ERROR_IO_NAMETOOLONG
  | P_ERROR_IO_EXISTS
  | P_ERROR_IO_NOT_EXISTS
  | P_ERROR_IO_NO_MORE
  | P_ERROR_IO_NOT_IMPLEMENTED
  | P_ERROR_IO_FAILED

fun io_code :: "PErrorIO \<Rightarrow> int" where
  "io_code P_ERROR_IO_NONE = 500"
| "io_code P_ERROR_IO_NO_RESOURCES = 501"
| "io_code P_ERROR_IO_NOT_AVAILABLE = 502"
| "io_code P_ERROR_IO_ACCESS_DENIED = 503"
| "io_code P_ERROR_IO_CONNECTED = 504"
| "io_code P_ERROR_IO_IN_PROGRESS = 505"
| "io_code P_ERROR_IO_ABORTED = 506"
| "io_code P_ERROR_IO_INVALID_ARGUMENT = 507"
| "io_code P_ERROR_IO_NOT_SUPPORTED = 508"
| "io_code P_ERROR_IO_TIMED_OUT = 509"
| "io_code P_ERROR_IO_WOULD_BLOCK = 510"
| "io_code P_ERROR_IO_ADDRESS_IN_USE = 511"
| "io_code P_ERROR_IO_CONNECTION_REFUSED = 512"
| "io_code P_ERROR_IO_NOT_CONNECTED = 513"
| "io_code P_ERROR_IO_QUOTA = 514"
| "io_code P_ERROR_IO_IS_DIRECTORY = 515"
| "io_code P_ERROR_IO_NOT_DIRECTORY = 516"
| "io_code P_ERROR_IO_NAMETOOLONG = 517"
| "io_code P_ERROR_IO_EXISTS = 518"
| "io_code P_ERROR_IO_NOT_EXISTS = 519"
| "io_code P_ERROR_IO_NO_MORE = 520"
| "io_code P_ERROR_IO_NOT_IMPLEMENTED = 521"
| "io_code P_ERROR_IO_FAILED = 522"

datatype PErrorIPC =
    P_ERROR_IPC_NONE
  | P_ERROR_IPC_ACCESS
  | P_ERROR_IPC_EXISTS
  | P_ERROR_IPC_NOT_EXISTS
  | P_ERROR_IPC_NO_RESOURCES
  | P_ERROR_IPC_OVERFLOW
  | P_ERROR_IPC_NAMETOOLONG
  | P_ERROR_IPC_INVALID_ARGUMENT
  | P_ERROR_IPC_NOT_IMPLEMENTED
  | P_ERROR_IPC_DEADLOCK
  | P_ERROR_IPC_FAILED

fun ipc_code :: "PErrorIPC \<Rightarrow> int" where
  "ipc_code P_ERROR_IPC_NONE = 600"
| "ipc_code P_ERROR_IPC_ACCESS = 601"
| "ipc_code P_ERROR_IPC_EXISTS = 602"
| "ipc_code P_ERROR_IPC_NOT_EXISTS = 603"
| "ipc_code P_ERROR_IPC_NO_RESOURCES = 604"
| "ipc_code P_ERROR_IPC_OVERFLOW = 605"
| "ipc_code P_ERROR_IPC_NAMETOOLONG = 606"
| "ipc_code P_ERROR_IPC_INVALID_ARGUMENT = 607"
| "ipc_code P_ERROR_IPC_NOT_IMPLEMENTED = 608"
| "ipc_code P_ERROR_IPC_DEADLOCK = 609"
| "ipc_code P_ERROR_IPC_FAILED = 610"

section \<open>From the system\<close>

text \<open>The labels of the two \<open>switch\<close> statements, on Windows and elsewhere.\<close>

definition io_cases_win :: "(string \<times> PErrorIO) list" where
  "io_cases_win =
    [(''WSAEADDRINUSE'', P_ERROR_IO_ADDRESS_IN_USE),
     (''WSAEWOULDBLOCK'', P_ERROR_IO_WOULD_BLOCK),
     (''WSAEACCES'', P_ERROR_IO_ACCESS_DENIED),
     (''WSA_INVALID_HANDLE'', P_ERROR_IO_INVALID_ARGUMENT),
     (''WSA_INVALID_PARAMETER'', P_ERROR_IO_INVALID_ARGUMENT),
     (''WSAEBADF'', P_ERROR_IO_INVALID_ARGUMENT),
     (''WSAENOTSOCK'', P_ERROR_IO_INVALID_ARGUMENT),
     (''WSAEINVAL'', P_ERROR_IO_INVALID_ARGUMENT),
     (''WSAESOCKTNOSUPPORT'', P_ERROR_IO_NOT_SUPPORTED),
     (''WSAEOPNOTSUPP'', P_ERROR_IO_NOT_SUPPORTED),
     (''WSAEPFNOSUPPORT'', P_ERROR_IO_NOT_SUPPORTED),
     (''WSAEAFNOSUPPORT'', P_ERROR_IO_NOT_SUPPORTED),
     (''WSAEPROTONOSUPPORT'', P_ERROR_IO_NOT_SUPPORTED),
     (''WSAECANCELLED'', P_ERROR_IO_ABORTED),
     (''ERROR_ALREADY_EXISTS'', P_ERROR_IO_EXISTS),
     (''ERROR_FILE_NOT_FOUND'', P_ERROR_IO_NOT_EXISTS),
     (''ERROR_NO_MORE_FILES'', P_ERROR_IO_NO_MORE),
     (''ERROR_ACCESS_DENIED'', P_ERROR_IO_ACCESS_DENIED),
     (''ERROR_OUTOFMEMORY'', P_ERROR_IO_NO_RESOURCES),
     (''ERROR_NOT_ENOUGH_MEMORY'', P_ERROR_IO_NO_RESOURCES),
     (''ERROR_INVALID_HANDLE'', P_ERROR_IO_INVALID_ARGUMENT),
     (''ERROR_INVALID_PARAMETER'', P_ERROR_IO_INVALID_ARGUMENT),
     (''ERROR_NOT_SUPPORTED'', P_ERROR_IO_NOT_SUPPORTED)]"

definition io_cases_posix :: "(string \<times> PErrorIO) list" where
  "io_cases_posix =
    [(''EACCES'', P_ERROR_IO_ACCESS_DENIED),
     (''EPERM'', P_ERROR_IO_ACCESS_DENIED),
     (''ENOMEM'', P_ERROR_IO_NO_RESOURCES),
     (''ENOSR'', P_ERROR_IO_NO_RESOURCES),
     (''ENOBUFS'', P_ERROR_IO_NO_RESOURCES),
     (''ENFILE'', P_ERROR_IO_NO_RESOURCES),
     (''ENOSPC'', P_ERROR_IO_NO_RESOURCES),
     (''EMFILE'', P_ERROR_IO_NO_RESOURCES),
     (''EINVAL'', P_ERROR_IO_INVALID_ARGUMENT),
     (''EBADF'', P_ERROR_IO_INVALID_ARGUMENT),
     (''ENOTSOCK'', P_ERROR_IO_INVALID_ARGUMENT),
     (''EFAULT'', P_ERROR_IO_INVALID_ARGUMENT),
     (''EPROTOTYPE'', P_ERROR_IO_INVALID_ARGUMENT),
     (''ENOTSUP'', P_ERROR_IO_NOT_SUPPORTED),
     (''ENOPROTOOPT'', P_ERROR_IO_NOT_SUPPORTED),
     (''EPROTONOSUPPORT'', P_ERROR_IO_NOT_SUPPORTED),
     (''EAFNOSUPPORT'', P_ERROR_IO_NOT_SUPPORTED),
     (''EOPNOTSUPP'', P_ERROR_IO_NOT_SUPPORTED),
     (''EADDRNOTAVAIL'', P_ERROR_IO_NOT_AVAILABLE),
     (''ENETUNREACH'', P_ERROR_IO_NOT_AVAILABLE),
     (''ENETDOWN'', P_ERROR_IO_NOT_AVAILABLE),
     (''EHOSTDOWN'', P_ERROR_IO_NOT_AVAILABLE),
     (''ENONET'', P_ERROR_IO_NOT_AVAILABLE),
     (''EHOSTUNREACH'', P_ERROR_IO_NOT_AVAILABLE),
     (''EINPROGRESS'', P_ERROR_IO_IN_PROGRESS),
     (''EALREADY'', P_ERROR_IO_IN_PROGRESS),
     (''EISCONN'', P_ERROR_IO_CONNECTED),
     (''ECONNREFUSED'', P_ERROR_IO_CONNECTION_REFUSED),
     (''ENOTCONN'', P_ERROR_IO_NOT_CONNECTED),
     (''ECONNABORTED'', P_ERROR_IO_ABORTED),
     (''EADDRINUSE'', P_ERROR_IO_ADDRESS_IN_USE),
     (''ETIMEDOUT'', P_ERROR_IO_TIMED_OUT),
     (''EDQUOT'', P_ERROR_IO_QUOTA),
     (''EISDIR'', P_ERROR_IO_IS_DIRECTORY),
     (''ENOTDIR'', P_ERROR_IO_NOT_DIRECTORY),
     (''EEXIST'', P_ERROR_IO_EXISTS),
     (''ENOENT'', P_ERROR_IO_NOT_EXISTS),
     (''ENAMETOOLONG'', P_ERROR_IO_NAMETOOLONG),
     (''ENOSYS'', P_ERROR_IO_NOT_IMPLEMENTED),
     (''EAGAIN'', P_ERROR_IO_WOULD_BLOCK),
     (''EWOULDBLOCK'', P_ERROR_IO_WOULD_BLOCK)]"

definition ipc_cases_win :: "(string \<times> PErrorIPC) list" where
  "ipc_cases_win =
    [(''ERROR_ALREADY_EXISTS'', P_ERROR_IPC_EXISTS),
     (''ERROR_SEM_OWNER_DIED'', P_ERROR_IPC_NOT_EXISTS),
     (''ERROR_SEM_NOT_FOUND'', P_ERROR_IPC_NOT_EXISTS),
     (''ERROR_SEM_USER_LIMIT'', P_ERROR_IPC_NO_RESOURCES),
     (''ERROR_TOO_MANY_SEMAPHORES'', P_ERROR_IPC_NO_RESOURCES),
     (''ERROR_ACCESS_DENIED'', P_ERROR_IPC_ACCESS),
     (''ERROR_EXCL_SEM_ALREADY_OWNED'', P_ERROR_IPC_ACCESS),
     (''ERROR_TOO_MANY_SEM_REQUESTS'', P_ERROR_IPC_NO_RESOURCES),
     (''ERROR_TOO_MANY_POSTS'', P_ERROR_IPC_NO_RESOURCES),
     (''ERROR_OUTOFMEMORY'', P_ERROR_IPC_NO_RESOURCES),
     (''ERROR_NOT_ENOUGH_MEMORY'', P_ERROR_IPC_NO_RESOURCES),
     (''ERROR_INVALID_HANDLE'', P_ERROR_IPC_INVALID_ARGUMENT),
     (''ERROR_INVALID_PARAMETER'', P_ERROR_IPC_INVALID_ARGUMENT),
     (''ERROR_NOT_SUPPORTED'', P_ERROR_IPC_NOT_IMPLEMENTED)]"

definition ipc_cases_posix :: "(string \<times> PErrorIPC) list" where
  "ipc_cases_posix =
    [(''EACCES'', P_ERROR_IPC_ACCESS),
     (''EPERM'', P_ERROR_IPC_ACCESS),
     (''EEXIST'', P_ERROR_IPC_EXISTS),
     (''E2BIG'', P_ERROR_IPC_INVALID_ARGUMENT),
     (''EFAULT'', P_ERROR_IPC_INVALID_ARGUMENT),
     (''EFBIG'', P_ERROR_IPC_INVALID_ARGUMENT),
     (''EINVAL'', P_ERROR_IPC_INVALID_ARGUMENT),
     (''ELOOP'', P_ERROR_IPC_INVALID_ARGUMENT),
     (''ERANGE'', P_ERROR_IPC_INVALID_ARGUMENT),
     (''ENOMEM'', P_ERROR_IPC_NO_RESOURCES),
     (''EMFILE'', P_ERROR_IPC_NO_RESOURCES),
     (''ENFILE'', P_ERROR_IPC_NO_RESOURCES),
     (''ENOSPC'', P_ERROR_IPC_NO_RESOURCES),
     (''EIDRM'', P_ERROR_IPC_NOT_EXISTS),
     (''ENOENT'', P_ERROR_IPC_NOT_EXISTS),
     (''EOVERFLOW'', P_ERROR_IPC_OVERFLOW),
     (''ENOSYS'', P_ERROR_IPC_NOT_IMPLEMENTED),
     (''EDEADLK'', P_ERROR_IPC_DEADLOCK),
     (''ENAMETOOLONG'', P_ERROR_IPC_NAMETOOLONG)]"

definition switch_code :: "(string \<Rightarrow> int option) \<Rightarrow> (string \<times> 'c) list \<Rightarrow> int \<Rightarrow> 'c \<Rightarrow> 'c" where
  "switch_code E cases err_code dflt =
     (case find (\<lambda>(name, _). E name = Some err_code) cases of None \<Rightarrow> dflt | Some (_, c) \<Rightarrow> c)"

definition p_error_get_io_from_system :: "bool \<Rightarrow> (string \<Rightarrow> int option) \<Rightarrow> int \<Rightarrow> PErrorIO" where
  "p_error_get_io_from_system win E err_code =
     (if err_code = 0 then P_ERROR_IO_NONE
      else switch_code E (if win then io_cases_win else io_cases_posix) err_code P_ERROR_IO_FAILED)"

definition p_error_get_ipc_from_system :: "bool \<Rightarrow> (string \<Rightarrow> int option) \<Rightarrow> int \<Rightarrow> PErrorIPC" where
  "p_error_get_ipc_from_system win E err_code =
     (if err_code = 0 then P_ERROR_IPC_NONE
      else switch_code E (if win then ipc_cases_win else ipc_cases_posix) err_code P_ERROR_IPC_FAILED)"

text \<open>\<open>last_error\<close> is the error number of the last system call.\<close>

definition p_error_get_last_io :: "bool \<Rightarrow> (string \<Rightarrow> int option) \<Rightarrow> int \<Rightarrow> PErrorIO" where
  "p_error_get_last_io win E last_error = p_error_get_io_from_system win E last_error"

definition p_error_get_last_ipc :: "bool \<Rightarrow> (string \<Rightarrow> int option) \<Rightarrow> int \<Rightarrow> PErrorIPC" where
  "p_error_get_last_ipc win E last_error = p_error_get_ipc_from_system win E last_error"

section \<open>The error object\<close>

record PError =
  code :: int
  native_code :: int
  message :: "string option"

text \<open>\<open>mem\<close> and \<open>mem_str\<close>: the object and the copy of the message can be allocated.\<close>

definition p_error_new :: "bool \<Rightarrow> PError option" where
  "p_error_new mem = (if \<not> mem then None else Some \<lparr>code = 0, native_code = 0, message = None\<rparr>)"

definition p_error_new_literal :: "bool \<Rightarrow> bool \<Rightarrow> int \<Rightarrow> int \<Rightarrow> string option \<Rightarrow> PError option" where
  "p_error_new_literal mem mem_str c native msg =
     (case p_error_new mem of
        None \<Rightarrow> None
      | Some e \<Rightarrow> Some (e\<lparr>code := c, native_code := native, message := p_strdup mem_str msg\<rparr>))"

definition p_error_get_message :: "PError option \<Rightarrow> string option" where
  "p_error_get_message err = (case err of None \<Rightarrow> None | Some e \<Rightarrow> message e)"

definition p_error_get_code :: "PError option \<Rightarrow> int" where
  "p_error_get_code err = (case err of None \<Rightarrow> 0 | Some e \<Rightarrow> code e)"

definition p_error_get_native_code :: "PError option \<Rightarrow> int" where
  "p_error_get_native_code err = (case err of None \<Rightarrow> 0 | Some e \<Rightarrow> native_code e)"

definition p_error_get_domain :: "PError option \<Rightarrow> PErrorDomain" where
  "p_error_get_domain err =
     (case err of
        None \<Rightarrow> P_ERROR_DOMAIN_NONE
      | Some e \<Rightarrow>
          if code e \<ge> domain_code P_ERROR_DOMAIN_IPC then P_ERROR_DOMAIN_IPC
          else if code e \<ge> domain_code P_ERROR_DOMAIN_IO then P_ERROR_DOMAIN_IO
          else P_ERROR_DOMAIN_NONE)"

definition p_error_copy :: "bool \<Rightarrow> bool \<Rightarrow> PError option \<Rightarrow> PError option" where
  "p_error_copy mem mem_str err =
     (case err of
        None \<Rightarrow> None
      | Some e \<Rightarrow>
          (case p_error_new_literal mem mem_str (code e) (native_code e) (message e) of
             None \<Rightarrow> None
           | Some ret \<Rightarrow> Some ret))"

definition p_error_set_error :: "bool \<Rightarrow> PError option \<Rightarrow> int \<Rightarrow> int \<Rightarrow> string option \<Rightarrow> PError option" where
  "p_error_set_error mem_str err c native msg =
     (case err of
        None \<Rightarrow> None
      | Some e \<Rightarrow> Some (e\<lparr>code := c, native_code := native, message := p_strdup mem_str msg\<rparr>))"

text \<open>The argument \<open>error\<close> is the address of the caller's pointer: \<open>None\<close> if it is NULL.\<close>

definition p_error_set_error_p ::
  "bool \<Rightarrow> bool \<Rightarrow> PError option option \<Rightarrow> int \<Rightarrow> int \<Rightarrow> string option \<Rightarrow> PError option option" where
  "p_error_set_error_p mem mem_str error c native msg =
     (case error of
        None \<Rightarrow> None
      | Some (Some e) \<Rightarrow> Some (Some e)
      | Some None \<Rightarrow> Some (p_error_new_literal mem mem_str c native msg))"

definition p_error_set_code :: "PError option \<Rightarrow> int \<Rightarrow> PError option" where
  "p_error_set_code err c = (case err of None \<Rightarrow> None | Some e \<Rightarrow> Some (e\<lparr>code := c\<rparr>))"

definition p_error_set_native_code :: "PError option \<Rightarrow> int \<Rightarrow> PError option" where
  "p_error_set_native_code err native = (case err of None \<Rightarrow> None | Some e \<Rightarrow> Some (e\<lparr>native_code := native\<rparr>))"

definition p_error_set_message :: "bool \<Rightarrow> PError option \<Rightarrow> string option \<Rightarrow> PError option" where
  "p_error_set_message mem_str err msg =
     (case err of None \<Rightarrow> None | Some e \<Rightarrow> Some (e\<lparr>message := p_strdup mem_str msg\<rparr>))"

definition p_error_clear :: "PError option \<Rightarrow> PError option" where
  "p_error_clear err =
     (case err of None \<Rightarrow> None | Some e \<Rightarrow> Some (e\<lparr>message := None, code := 0, native_code := 0\<rparr>))"

section \<open>Lemmas\<close>

text \<open>A label with its own number, or with aliases of the same code only, selects its code.\<close>

lemma switch_code_label:
  assumes "(name, c) \<in> set cases" "E name = Some v"
    and "\<And>name' c'. (name', c') \<in> set cases \<Longrightarrow> E name' = Some v \<Longrightarrow> c' = c"
  shows "switch_code E cases v d = c"
proof -
  have "find (\<lambda>(name, _). E name = Some v) cases \<noteq> None"
    using assms(1,2) by (auto simp: find_None_iff)
  then obtain name' c' where x: "find (\<lambda>(name, _). E name = Some v) cases = Some (name', c')" by fastforce
  then have "(name', c') \<in> set cases" "E name' = Some v" by (auto simp: find_Some_iff split_beta in_set_conv_nth) (metis fst_conv)
  then show ?thesis using assms(3)[of name' c'] x by (simp add: switch_code_def)
qed

lemma switch_code_other: "\<forall>name \<in> fst ` set cases. E name \<noteq> Some v \<Longrightarrow> switch_code E cases v d = d"
proof -
  assume "\<forall>name \<in> fst ` set cases. E name \<noteq> Some v"
  then have "find (\<lambda>(name, _). E name = Some v) cases = None" by (force simp: find_None_iff)
  then show ?thesis by (simp add: switch_code_def)
qed

lemma io_code_range: "500 \<le> io_code c \<and> io_code c \<le> 522" by (cases c) simp_all

lemma ipc_code_range: "600 \<le> ipc_code c \<and> ipc_code c \<le> 610" by (cases c) simp_all

end
