(* ===== verification/PErrorProps.thy ===== *)
theory PErrorProps
  imports PError
begin

text \<open>
  Errors of the system become codes of the right domain, and of several errors reported through one pointer
  the first is kept.
\<close>

definition set_errors :: "(int \<times> int \<times> string option) list \<Rightarrow> PError option option \<Rightarrow> PError option option" where
  "set_errors errs = fold (\<lambda>(c, n, msg) error. p_error_set_error_p True True error c n msg) errs"

lemma set_errors_kept: "set_errors errs (Some (Some e)) = Some (Some e)" "set_errors errs None = None"
  by (induction errs) (auto simp: set_errors_def p_error_set_error_p_def)

lemma p_strdup_mem [simp]: "p_strdup True s = s"
  by (simp add: p_strdup_def split: option.split)

section \<open>The meaning of the error numbers\<close>

text \<open>
  The numbers of the macros on Linux and on Windows, as the headers of the systems define them.
\<close>

definition linux_errno :: "string \<Rightarrow> int option" where
  "linux_errno = map_of
     [(''EPERM'', 1), (''ENOENT'', 2), (''E2BIG'', 7), (''EBADF'', 9), (''EAGAIN'', 11),
      (''EWOULDBLOCK'', 11), (''ENOMEM'', 12), (''EACCES'', 13), (''EFAULT'', 14), (''EEXIST'', 17),
      (''ENOTDIR'', 20), (''EISDIR'', 21), (''EINVAL'', 22), (''ENFILE'', 23), (''EMFILE'', 24),
      (''EFBIG'', 27), (''ENOSPC'', 28), (''ERANGE'', 34), (''EDEADLK'', 35), (''ENAMETOOLONG'', 36),
      (''ENOSYS'', 38), (''ELOOP'', 40), (''EIDRM'', 43), (''ENOSR'', 63), (''ENONET'', 64),
      (''EOVERFLOW'', 75), (''ENOTSOCK'', 88), (''EPROTOTYPE'', 91), (''ENOPROTOOPT'', 92),
      (''EPROTONOSUPPORT'', 93), (''ENOTSUP'', 95), (''EOPNOTSUPP'', 95), (''EAFNOSUPPORT'', 97),
      (''EADDRINUSE'', 98), (''EADDRNOTAVAIL'', 99), (''ENETDOWN'', 100), (''ENETUNREACH'', 101),
      (''ECONNABORTED'', 103), (''ENOBUFS'', 105), (''EISCONN'', 106), (''ENOTCONN'', 107),
      (''ETIMEDOUT'', 110), (''ECONNREFUSED'', 111), (''EHOSTDOWN'', 112), (''EHOSTUNREACH'', 113),
      (''EALREADY'', 114), (''EINPROGRESS'', 115), (''EDQUOT'', 122)]"

definition windows_errors :: "string \<Rightarrow> int option" where
  "windows_errors = map_of
     [(''ERROR_FILE_NOT_FOUND'', 2), (''ERROR_ACCESS_DENIED'', 5), (''ERROR_INVALID_HANDLE'', 6),
      (''WSA_INVALID_HANDLE'', 6), (''ERROR_NOT_ENOUGH_MEMORY'', 8), (''ERROR_OUTOFMEMORY'', 14),
      (''ERROR_NO_MORE_FILES'', 18), (''ERROR_NOT_SUPPORTED'', 50), (''ERROR_INVALID_PARAMETER'', 87),
      (''WSA_INVALID_PARAMETER'', 87), (''ERROR_TOO_MANY_SEMAPHORES'', 100),
      (''ERROR_EXCL_SEM_ALREADY_OWNED'', 101), (''ERROR_TOO_MANY_SEM_REQUESTS'', 103),
      (''ERROR_SEM_OWNER_DIED'', 105), (''ERROR_SEM_USER_LIMIT'', 106), (''ERROR_ALREADY_EXISTS'', 183),
      (''ERROR_SEM_NOT_FOUND'', 187), (''ERROR_TOO_MANY_POSTS'', 298), (''WSAEBADF'', 10009),
      (''WSAEACCES'', 10013), (''WSAEINVAL'', 10022), (''WSAEWOULDBLOCK'', 10035), (''WSAENOTSOCK'', 10038),
      (''WSAEPROTONOSUPPORT'', 10043), (''WSAESOCKTNOSUPPORT'', 10044), (''WSAEOPNOTSUPP'', 10045),
      (''WSAEPFNOSUPPORT'', 10046), (''WSAEAFNOSUPPORT'', 10047), (''WSAEADDRINUSE'', 10048),
      (''WSAECANCELLED'', 10103)]"

text \<open>
  The code of the library that stands for each number, grouped by meaning and independent of the tables of the
  code: the numbers of one line are the errors of one kind, and any other number is a general failure.
\<close>

definition linux_io :: "int \<Rightarrow> PErrorIO" where
  "linux_io err =
     (if err = 0 then P_ERROR_IO_NONE
      else if err \<in> {1, 13} then P_ERROR_IO_ACCESS_DENIED
      else if err \<in> {12, 23, 24, 28, 63, 105} then P_ERROR_IO_NO_RESOURCES
      else if err \<in> {9, 14, 22, 88, 91} then P_ERROR_IO_INVALID_ARGUMENT
      else if err \<in> {92, 93, 95, 97} then P_ERROR_IO_NOT_SUPPORTED
      else if err \<in> {64, 99, 100, 101, 112, 113} then P_ERROR_IO_NOT_AVAILABLE
      else if err \<in> {114, 115} then P_ERROR_IO_IN_PROGRESS
      else if err = 106 then P_ERROR_IO_CONNECTED
      else if err = 111 then P_ERROR_IO_CONNECTION_REFUSED
      else if err = 107 then P_ERROR_IO_NOT_CONNECTED
      else if err = 103 then P_ERROR_IO_ABORTED
      else if err = 98 then P_ERROR_IO_ADDRESS_IN_USE
      else if err = 110 then P_ERROR_IO_TIMED_OUT
      else if err = 122 then P_ERROR_IO_QUOTA
      else if err = 21 then P_ERROR_IO_IS_DIRECTORY
      else if err = 20 then P_ERROR_IO_NOT_DIRECTORY
      else if err = 17 then P_ERROR_IO_EXISTS
      else if err = 2 then P_ERROR_IO_NOT_EXISTS
      else if err = 36 then P_ERROR_IO_NAMETOOLONG
      else if err = 38 then P_ERROR_IO_NOT_IMPLEMENTED
      else if err = 11 then P_ERROR_IO_WOULD_BLOCK
      else P_ERROR_IO_FAILED)"

definition linux_ipc :: "int \<Rightarrow> PErrorIPC" where
  "linux_ipc err =
     (if err = 0 then P_ERROR_IPC_NONE
      else if err \<in> {1, 13} then P_ERROR_IPC_ACCESS
      else if err = 17 then P_ERROR_IPC_EXISTS
      else if err \<in> {2, 43} then P_ERROR_IPC_NOT_EXISTS
      else if err \<in> {12, 23, 24, 28} then P_ERROR_IPC_NO_RESOURCES
      else if err = 75 then P_ERROR_IPC_OVERFLOW
      else if err = 36 then P_ERROR_IPC_NAMETOOLONG
      else if err \<in> {7, 14, 22, 27, 34, 40} then P_ERROR_IPC_INVALID_ARGUMENT
      else if err = 38 then P_ERROR_IPC_NOT_IMPLEMENTED
      else if err = 35 then P_ERROR_IPC_DEADLOCK
      else P_ERROR_IPC_FAILED)"

definition windows_io :: "int \<Rightarrow> PErrorIO" where
  "windows_io err =
     (if err = 0 then P_ERROR_IO_NONE
      else if err \<in> {5, 10013} then P_ERROR_IO_ACCESS_DENIED
      else if err \<in> {8, 14} then P_ERROR_IO_NO_RESOURCES
      else if err \<in> {6, 87, 10009, 10022, 10038} then P_ERROR_IO_INVALID_ARGUMENT
      else if err \<in> {50, 10043, 10044, 10045, 10046, 10047} then P_ERROR_IO_NOT_SUPPORTED
      else if err = 10103 then P_ERROR_IO_ABORTED
      else if err = 10048 then P_ERROR_IO_ADDRESS_IN_USE
      else if err = 10035 then P_ERROR_IO_WOULD_BLOCK
      else if err = 183 then P_ERROR_IO_EXISTS
      else if err = 2 then P_ERROR_IO_NOT_EXISTS
      else if err = 18 then P_ERROR_IO_NO_MORE
      else P_ERROR_IO_FAILED)"

definition windows_ipc :: "int \<Rightarrow> PErrorIPC" where
  "windows_ipc err =
     (if err = 0 then P_ERROR_IPC_NONE
      else if err \<in> {5, 101} then P_ERROR_IPC_ACCESS
      else if err = 183 then P_ERROR_IPC_EXISTS
      else if err \<in> {105, 187} then P_ERROR_IPC_NOT_EXISTS
      else if err \<in> {8, 14, 100, 103, 106, 298} then P_ERROR_IPC_NO_RESOURCES
      else if err \<in> {6, 87} then P_ERROR_IPC_INVALID_ARGUMENT
      else if err = 50 then P_ERROR_IPC_NOT_IMPLEMENTED
      else P_ERROR_IPC_FAILED)"

text \<open>The search by name as a search by number.\<close>

lemma switch_code_numbers:
  "switch_code E cases err d =
     (case find (\<lambda>(v, c). v = Some err) (map (\<lambda>(name, c). (E name, c)) cases) of None \<Rightarrow> d | Some (_, c) \<Rightarrow> c)"
  by (induction cases) (auto simp: switch_code_def)

lemma linux_io_numbers:
  "map (\<lambda>(name, c). (linux_errno name, c)) io_cases_posix =
     [(Some 13, P_ERROR_IO_ACCESS_DENIED), (Some 1, P_ERROR_IO_ACCESS_DENIED),
      (Some 12, P_ERROR_IO_NO_RESOURCES), (Some 63, P_ERROR_IO_NO_RESOURCES),
      (Some 105, P_ERROR_IO_NO_RESOURCES), (Some 23, P_ERROR_IO_NO_RESOURCES),
      (Some 28, P_ERROR_IO_NO_RESOURCES), (Some 24, P_ERROR_IO_NO_RESOURCES),
      (Some 22, P_ERROR_IO_INVALID_ARGUMENT), (Some 9, P_ERROR_IO_INVALID_ARGUMENT),
      (Some 88, P_ERROR_IO_INVALID_ARGUMENT), (Some 14, P_ERROR_IO_INVALID_ARGUMENT),
      (Some 91, P_ERROR_IO_INVALID_ARGUMENT), (Some 95, P_ERROR_IO_NOT_SUPPORTED),
      (Some 92, P_ERROR_IO_NOT_SUPPORTED), (Some 93, P_ERROR_IO_NOT_SUPPORTED),
      (Some 97, P_ERROR_IO_NOT_SUPPORTED), (Some 95, P_ERROR_IO_NOT_SUPPORTED),
      (Some 99, P_ERROR_IO_NOT_AVAILABLE), (Some 101, P_ERROR_IO_NOT_AVAILABLE),
      (Some 100, P_ERROR_IO_NOT_AVAILABLE), (Some 112, P_ERROR_IO_NOT_AVAILABLE),
      (Some 64, P_ERROR_IO_NOT_AVAILABLE), (Some 113, P_ERROR_IO_NOT_AVAILABLE),
      (Some 115, P_ERROR_IO_IN_PROGRESS), (Some 114, P_ERROR_IO_IN_PROGRESS),
      (Some 106, P_ERROR_IO_CONNECTED), (Some 111, P_ERROR_IO_CONNECTION_REFUSED),
      (Some 107, P_ERROR_IO_NOT_CONNECTED), (Some 103, P_ERROR_IO_ABORTED),
      (Some 98, P_ERROR_IO_ADDRESS_IN_USE), (Some 110, P_ERROR_IO_TIMED_OUT), (Some 122, P_ERROR_IO_QUOTA),
      (Some 21, P_ERROR_IO_IS_DIRECTORY), (Some 20, P_ERROR_IO_NOT_DIRECTORY), (Some 17, P_ERROR_IO_EXISTS),
      (Some 2, P_ERROR_IO_NOT_EXISTS), (Some 36, P_ERROR_IO_NAMETOOLONG),
      (Some 38, P_ERROR_IO_NOT_IMPLEMENTED), (Some 11, P_ERROR_IO_WOULD_BLOCK),
      (Some 11, P_ERROR_IO_WOULD_BLOCK)]"
  by (simp add: io_cases_posix_def linux_errno_def)

lemma linux_ipc_numbers:
  "map (\<lambda>(name, c). (linux_errno name, c)) ipc_cases_posix =
     [(Some 13, P_ERROR_IPC_ACCESS), (Some 1, P_ERROR_IPC_ACCESS), (Some 17, P_ERROR_IPC_EXISTS),
      (Some 7, P_ERROR_IPC_INVALID_ARGUMENT), (Some 14, P_ERROR_IPC_INVALID_ARGUMENT),
      (Some 27, P_ERROR_IPC_INVALID_ARGUMENT), (Some 22, P_ERROR_IPC_INVALID_ARGUMENT),
      (Some 40, P_ERROR_IPC_INVALID_ARGUMENT), (Some 34, P_ERROR_IPC_INVALID_ARGUMENT),
      (Some 12, P_ERROR_IPC_NO_RESOURCES), (Some 24, P_ERROR_IPC_NO_RESOURCES),
      (Some 23, P_ERROR_IPC_NO_RESOURCES), (Some 28, P_ERROR_IPC_NO_RESOURCES),
      (Some 43, P_ERROR_IPC_NOT_EXISTS), (Some 2, P_ERROR_IPC_NOT_EXISTS), (Some 75, P_ERROR_IPC_OVERFLOW),
      (Some 38, P_ERROR_IPC_NOT_IMPLEMENTED), (Some 35, P_ERROR_IPC_DEADLOCK),
      (Some 36, P_ERROR_IPC_NAMETOOLONG)]"
  by (simp add: ipc_cases_posix_def linux_errno_def)

lemma windows_io_numbers:
  "map (\<lambda>(name, c). (windows_errors name, c)) io_cases_win =
     [(Some 10048, P_ERROR_IO_ADDRESS_IN_USE), (Some 10035, P_ERROR_IO_WOULD_BLOCK),
      (Some 10013, P_ERROR_IO_ACCESS_DENIED), (Some 6, P_ERROR_IO_INVALID_ARGUMENT),
      (Some 87, P_ERROR_IO_INVALID_ARGUMENT), (Some 10009, P_ERROR_IO_INVALID_ARGUMENT),
      (Some 10038, P_ERROR_IO_INVALID_ARGUMENT), (Some 10022, P_ERROR_IO_INVALID_ARGUMENT),
      (Some 10044, P_ERROR_IO_NOT_SUPPORTED), (Some 10045, P_ERROR_IO_NOT_SUPPORTED),
      (Some 10046, P_ERROR_IO_NOT_SUPPORTED), (Some 10047, P_ERROR_IO_NOT_SUPPORTED),
      (Some 10043, P_ERROR_IO_NOT_SUPPORTED), (Some 10103, P_ERROR_IO_ABORTED),
      (Some 183, P_ERROR_IO_EXISTS), (Some 2, P_ERROR_IO_NOT_EXISTS), (Some 18, P_ERROR_IO_NO_MORE),
      (Some 5, P_ERROR_IO_ACCESS_DENIED), (Some 14, P_ERROR_IO_NO_RESOURCES),
      (Some 8, P_ERROR_IO_NO_RESOURCES), (Some 6, P_ERROR_IO_INVALID_ARGUMENT),
      (Some 87, P_ERROR_IO_INVALID_ARGUMENT), (Some 50, P_ERROR_IO_NOT_SUPPORTED)]"
  by (simp add: io_cases_win_def windows_errors_def)

lemma windows_ipc_numbers:
  "map (\<lambda>(name, c). (windows_errors name, c)) ipc_cases_win =
     [(Some 183, P_ERROR_IPC_EXISTS), (Some 105, P_ERROR_IPC_NOT_EXISTS), (Some 187, P_ERROR_IPC_NOT_EXISTS),
      (Some 106, P_ERROR_IPC_NO_RESOURCES), (Some 100, P_ERROR_IPC_NO_RESOURCES),
      (Some 5, P_ERROR_IPC_ACCESS), (Some 101, P_ERROR_IPC_ACCESS), (Some 103, P_ERROR_IPC_NO_RESOURCES),
      (Some 298, P_ERROR_IPC_NO_RESOURCES), (Some 14, P_ERROR_IPC_NO_RESOURCES),
      (Some 8, P_ERROR_IPC_NO_RESOURCES), (Some 6, P_ERROR_IPC_INVALID_ARGUMENT),
      (Some 87, P_ERROR_IPC_INVALID_ARGUMENT), (Some 50, P_ERROR_IPC_NOT_IMPLEMENTED)]"
  by (simp add: ipc_cases_win_def windows_errors_def)

lemma linux_io_meaning: "p_error_get_io_from_system False linux_errno err = linux_io err"
proof (cases "err \<in> {1, 2, 9, 11, 12, 13, 14, 17, 20, 21, 22, 23, 24, 28, 36, 38, 63, 64, 88, 91, 92, 93, 95, 97, 98, 99, 100, 101, 103, 105, 106, 107, 110, 111, 112, 113, 114, 115, 122}")
  case True
  then show ?thesis unfolding insert_iff empty_iff
    by (elim disjE) (simp_all add: p_error_get_io_from_system_def switch_code_numbers linux_io_numbers linux_io_def)
next
  case False
  then show ?thesis by (simp add: p_error_get_io_from_system_def switch_code_numbers linux_io_numbers linux_io_def)
qed

lemma linux_ipc_meaning: "p_error_get_ipc_from_system False linux_errno err = linux_ipc err"
proof (cases "err \<in> {1, 2, 7, 12, 13, 14, 17, 22, 23, 24, 27, 28, 34, 35, 36, 38, 40, 43, 75}")
  case True
  then show ?thesis unfolding insert_iff empty_iff
    by (elim disjE) (simp_all add: p_error_get_ipc_from_system_def switch_code_numbers linux_ipc_numbers linux_ipc_def)
next
  case False
  then show ?thesis by (simp add: p_error_get_ipc_from_system_def switch_code_numbers linux_ipc_numbers linux_ipc_def)
qed

lemma windows_io_meaning: "p_error_get_io_from_system True windows_errors err = windows_io err"
proof (cases "err \<in> {2, 5, 6, 8, 14, 18, 50, 87, 183, 10009, 10013, 10022, 10035, 10038, 10043, 10044, 10045, 10046, 10047, 10048, 10103}")
  case True
  then show ?thesis unfolding insert_iff empty_iff
    by (elim disjE) (simp_all add: p_error_get_io_from_system_def switch_code_numbers windows_io_numbers windows_io_def)
next
  case False
  then show ?thesis by (simp add: p_error_get_io_from_system_def switch_code_numbers windows_io_numbers windows_io_def)
qed

lemma windows_ipc_meaning: "p_error_get_ipc_from_system True windows_errors err = windows_ipc err"
proof (cases "err \<in> {5, 6, 8, 14, 50, 87, 100, 101, 103, 105, 106, 183, 187, 298}")
  case True
  then show ?thesis unfolding insert_iff empty_iff
    by (elim disjE) (simp_all add: p_error_get_ipc_from_system_def switch_code_numbers windows_ipc_numbers windows_ipc_def)
next
  case False
  then show ?thesis by (simp add: p_error_get_ipc_from_system_def switch_code_numbers windows_ipc_numbers windows_ipc_def)
qed

section \<open>Properties\<close>

text \<open>
  C22.  On Linux and on Windows every error number of the system, for files and sockets and for interprocess
  communication, becomes the code of its meaning; the first error reported through an empty pointer is kept with this
  code, the number of the system and its message, whatever is reported after it, and answers with its domain.
\<close>

theorem error_reporting:
  "p_error_get_last_io False linux_errno err = linux_io err \<and>
   p_error_get_last_ipc False linux_errno err = linux_ipc err \<and>
   p_error_get_last_io True windows_errors err = windows_io err \<and>
   p_error_get_last_ipc True windows_errors err = windows_ipc err \<and>
   (let kept = set_errors ((io_code (p_error_get_last_io False linux_errno err), err, msg) # later) (Some None)
    in kept = Some (Some \<lparr>code = io_code (linux_io err), native_code = err, message = msg\<rparr>) \<and>
       p_error_get_domain (the kept) = P_ERROR_DOMAIN_IO) \<and>
   (let kept = set_errors ((ipc_code (p_error_get_last_ipc False linux_errno err), err, msg) # later) (Some None)
    in kept = Some (Some \<lparr>code = ipc_code (linux_ipc err), native_code = err, message = msg\<rparr>) \<and>
       p_error_get_domain (the kept) = P_ERROR_DOMAIN_IPC)"
proof -
  have first: "set_errors ((c, n, msg) # later) (Some None) = Some (Some \<lparr>code = c, native_code = n, message = msg\<rparr>)" for c n
  proof -
    have "set_errors ((c, n, msg) # later) (Some None) = set_errors later (Some (Some \<lparr>code = c, native_code = n, message = msg\<rparr>))"
      by (simp add: set_errors_def p_error_set_error_p_def p_error_new_literal_def p_error_new_def)
    then show ?thesis by (simp add: set_errors_kept)
  qed
  show ?thesis
    unfolding p_error_get_last_io_def p_error_get_last_ipc_def linux_io_meaning linux_ipc_meaning windows_io_meaning
      windows_ipc_meaning first Let_def
    using io_code_range[of "linux_io err"] ipc_code_range[of "linux_ipc err"] by (simp add: p_error_get_domain_def)
qed

text \<open>
  Of several errors reported through one pointer the first is kept, a NULL pointer ignores them all; a
  copy is equal to its original; setting an error overwrites it; clearing gives a new error.
\<close>

theorem error_first_wins:
  "set_errors ((c, n, msg) # errs) (Some None) = Some (Some \<lparr>code = c, native_code = n, message = msg\<rparr>) \<and>
   set_errors errs None = None \<and>
   p_error_copy True True (Some e) = Some e \<and>
   p_error_set_error True (Some e) c n msg = p_error_new_literal True True c n msg \<and>
   p_error_clear (Some e) = p_error_new True"
proof -
  have "set_errors ((c, n, msg) # errs) (Some None) = set_errors errs (Some (Some \<lparr>code = c, native_code = n, message = msg\<rparr>))"
    by (simp add: set_errors_def p_error_set_error_p_def p_error_new_literal_def p_error_new_def)
  then show ?thesis
    by (simp add: set_errors_kept p_error_copy_def p_error_new_literal_def p_error_new_def p_error_set_error_def p_error_clear_def)
qed

end
