(* ===== verification/PPosix.thy ===== *)
theory PPosix
  imports Prelude
begin

text \<open>
  The system calls on POSIX semaphores and shared memory that the library uses, as their manual pages describe
  them.  Names refer to objects; an object lives on when its name is removed.  Each call gives the new state of
  the system and its result, with the error number on the left.  Signals interrupt the calls that can be interrupted:
  \<open>interrupts\<close> lists how often each of the next of them is interrupted before it goes through, so that every call
  of a program can be interrupted any number of times.
\<close>

datatype errno = EINTR | EEXIST | ENOENT | EACCES | EOVERFLOW | ENOMEM | EINVAL | ERANGE

text \<open>A list of interruptions: those of the next call, one of them used, all of them over.\<close>

fun due :: "nat list \<Rightarrow> nat" where
  "due [] = 0"
| "due (n # ns) = n"

fun used :: "nat list \<Rightarrow> nat list" where
  "used [] = []"
| "used (n # ns) = (n - 1) # ns"

fun over :: "nat list \<Rightarrow> nat list" where
  "over [] = []"
| "over (n # ns) = 0 # ns"

lemma schedule_simps [simp]:
  "due (used ns) = due ns - 1" "over (used ns) = over ns" "due (over ns) = 0" "tl (over ns) = tl ns" "tl (used ns) = tl ns"
  by (cases ns; simp)+

lemma over_same: "due ns = 0 \<Longrightarrow> over ns = ns"
  by (cases ns) simp_all

lemma used_less: "0 < due ns \<Longrightarrow> sum_list (used ns) < sum_list ns"
  by (cases ns) simp_all

record posix =
  interrupts :: "nat list"
  denied :: "string \<Rightarrow> bool"
  sem_names :: "string \<Rightarrow> nat option"
  sem_vals :: "nat \<Rightarrow> nat"
  shm_names :: "string \<Rightarrow> nat option"
  shm_sizes :: "nat \<Rightarrow> nat"
  shm_limit :: nat
  next_id :: nat

type_synonym 'a call = "posix \<Rightarrow> posix \<times> (errno + 'a)"

definition interruptible :: "'a call \<Rightarrow> 'a call" where
  "interruptible f os =
     (if due (interrupts os) > 0 then (os\<lparr>interrupts := used (interrupts os)\<rparr>, Inl EINTR)
      else f (os\<lparr>interrupts := tl (interrupts os)\<rparr>))"

section \<open>Semaphores\<close>

text \<open>\<open>sem_open\<close> with \<open>O_CREAT | O_EXCL\<close> and an initial value, and without flags.\<close>

definition sem_open_excl :: "string \<Rightarrow> nat \<Rightarrow> nat call" where
  "sem_open_excl name val = interruptible (\<lambda>os.
     if denied os name then (os, Inl EACCES)
     else (case sem_names os name of
         Some _ \<Rightarrow> (os, Inl EEXIST)
       | None \<Rightarrow>
           (os\<lparr>sem_names := (sem_names os)(name \<mapsto> next_id os), sem_vals := (sem_vals os)(next_id os := val),
              next_id := Suc (next_id os)\<rparr>, Inr (next_id os))))"

definition sem_open :: "string \<Rightarrow> nat call" where
  "sem_open name = interruptible (\<lambda>os.
     if denied os name then (os, Inl EACCES)
     else (case sem_names os name of None \<Rightarrow> (os, Inl ENOENT) | Some i \<Rightarrow> (os, Inr i)))"

definition sem_unlink :: "string \<Rightarrow> unit call" where
  "sem_unlink name os =
     (if denied os name then (os, Inl EACCES)
      else (case sem_names os name of
          None \<Rightarrow> (os, Inl ENOENT)
        | Some _ \<Rightarrow> (os\<lparr>sem_names := (sem_names os)(name := None)\<rparr>, Inr ())))"

text \<open>\<open>sem_wait\<close>; \<open>None\<close> if the caller has to wait for another one.\<close>

definition sem_wait :: "nat \<Rightarrow> posix \<Rightarrow> (posix \<times> (errno + unit)) option" where
  "sem_wait i os =
     (if due (interrupts os) > 0 then Some (os\<lparr>interrupts := used (interrupts os)\<rparr>, Inl EINTR)
      else if sem_vals os i = 0 then None
      else Some (os\<lparr>interrupts := tl (interrupts os), sem_vals := (sem_vals os)(i := sem_vals os i - 1)\<rparr>, Inr ()))"

definition SEM_VALUE_MAX :: nat where "SEM_VALUE_MAX = 2147483647"

definition sem_post :: "nat \<Rightarrow> unit call" where
  "sem_post i os =
     (if sem_vals os i \<ge> SEM_VALUE_MAX then (os, Inl EOVERFLOW)
      else (os\<lparr>sem_vals := (sem_vals os)(i := Suc (sem_vals os i))\<rparr>, Inr ()))"

section \<open>Shared memory\<close>

definition shm_open_excl :: "string \<Rightarrow> nat call" where
  "shm_open_excl name = interruptible (\<lambda>os.
     if denied os name then (os, Inl EACCES)
     else (case shm_names os name of
         Some _ \<Rightarrow> (os, Inl EEXIST)
       | None \<Rightarrow>
           (os\<lparr>shm_names := (shm_names os)(name \<mapsto> next_id os), shm_sizes := (shm_sizes os)(next_id os := 0),
              next_id := Suc (next_id os)\<rparr>, Inr (next_id os))))"

definition shm_open :: "string \<Rightarrow> nat call" where
  "shm_open name = interruptible (\<lambda>os.
     if denied os name then (os, Inl EACCES)
     else (case shm_names os name of None \<Rightarrow> (os, Inl ENOENT) | Some i \<Rightarrow> (os, Inr i)))"

definition shm_unlink :: "string \<Rightarrow> unit call" where
  "shm_unlink name os =
     (if denied os name then (os, Inl EACCES)
      else (case shm_names os name of
          None \<Rightarrow> (os, Inl ENOENT)
        | Some _ \<Rightarrow> (os\<lparr>shm_names := (shm_names os)(name := None)\<rparr>, Inr ())))"

text \<open>\<open>fstat\<close> gives the size; \<open>ftruncate\<close> sets it; \<open>mmap\<close> of no bytes or of too many fails.\<close>

definition fstat_size :: "nat \<Rightarrow> posix \<Rightarrow> nat" where
  "fstat_size i os = shm_sizes os i"

definition ftruncate :: "nat \<Rightarrow> nat \<Rightarrow> unit call" where
  "ftruncate i len os =
     (if len > shm_limit os then (os, Inl EINVAL) else (os\<lparr>shm_sizes := (shm_sizes os)(i := len)\<rparr>, Inr ()))"

definition mmap :: "nat \<Rightarrow> nat \<Rightarrow> nat call" where
  "mmap i len os = (if len = 0 then (os, Inl EINVAL) else if len > shm_limit os then (os, Inl ENOMEM) else (os, Inr i))"

section \<open>Interrupted calls are tried again\<close>

text \<open>The state with the interruptions of the next call behind it, and the state in which that call takes effect.\<close>

definition calm :: "posix \<Rightarrow> posix" where
  "calm os = os\<lparr>interrupts := over (interrupts os)\<rparr>"

definition quiet :: "posix \<Rightarrow> posix" where
  "quiet os = os\<lparr>interrupts := tl (interrupts os)\<rparr>"

lemma quiet_simps [simp]:
  "interrupts (quiet os) = tl (interrupts os)" "denied (quiet os) = denied os" "sem_names (quiet os) = sem_names os"
  "sem_vals (quiet os) = sem_vals os" "shm_names (quiet os) = shm_names os" "shm_sizes (quiet os) = shm_sizes os"
  "shm_limit (quiet os) = shm_limit os" "next_id (quiet os) = next_id os"
  by (simp_all add: quiet_def)

lemma quiet_updates [simp]:
  "quiet (os\<lparr>sem_names := a\<rparr>) = (quiet os)\<lparr>sem_names := a\<rparr>" "quiet (os\<lparr>sem_vals := b\<rparr>) = (quiet os)\<lparr>sem_vals := b\<rparr>"
  "quiet (os\<lparr>shm_names := a\<rparr>) = (quiet os)\<lparr>shm_names := a\<rparr>" "quiet (os\<lparr>shm_sizes := b\<rparr>) = (quiet os)\<lparr>shm_sizes := b\<rparr>"
  "quiet (os\<lparr>next_id := c\<rparr>) = (quiet os)\<lparr>next_id := c\<rparr>"
  by (simp_all add: quiet_def)

lemma interruptible_calm [simp]: "interruptible f (calm os) = f (quiet os)"
  by (simp add: interruptible_def calm_def quiet_def)

text \<open>
  A loop that repeats a call while it is interrupted gives what the call gives when it goes through.  \<open>pending\<close>
  is the number of interruptions that the next call meets, \<open>drop_one\<close> takes one away and \<open>still\<close> all.
\<close>

locale retried_call =
  fixes call loop :: "'s \<Rightarrow> 's \<times> (errno + 'a)" and pending :: "'s \<Rightarrow> nat" and drop_one still :: "'s \<Rightarrow> 's"
  assumes loop_step: "loop os = (case call os of
      (os', Inl e) \<Rightarrow> if e = EINTR then loop os' else (os', Inl e) | (os', Inr i) \<Rightarrow> (os', Inr i))"
    and interrupted: "pending os > 0 \<Longrightarrow> call os = (drop_one os, Inl EINTR)"
    and undisturbed: "pending os = 0 \<Longrightarrow> call os \<noteq> (os', Inl EINTR)"
    and still_drop: "still (drop_one os) = still os"
    and pending_drop: "pending (drop_one os) = pending os - 1"
    and still_same: "pending os = 0 \<Longrightarrow> still os = os"
begin

lemma loop_quiet: "loop os = call (still os)"
proof (induction "pending os" arbitrary: os)
  case 0
  then show ?case using undisturbed[of os] by (subst loop_step) (auto simp: still_same split: prod.splits sum.splits)
next
  case (Suc k)
  then have "loop os = loop (drop_one os)" by (subst loop_step) (simp add: interrupted)
  also have "\<dots> = call (still os)" using Suc(1)[of "drop_one os"] Suc(2) by (simp add: still_drop pending_drop)
  finally show ?case .
qed

end

definition drop_interrupt :: "posix \<Rightarrow> posix" where
  "drop_interrupt os = os\<lparr>interrupts := used (interrupts os)\<rparr>"

lemma drop_interrupt_simps:
  "calm (drop_interrupt os) = calm os" "due (interrupts (drop_interrupt os)) = due (interrupts os) - 1"
  by (simp_all add: drop_interrupt_def calm_def)

lemma calm_same: "due (interrupts os) = 0 \<Longrightarrow> calm os = os"
  by (simp add: calm_def over_same)

end
