(* ===== verification/PIpc.thy ===== *)
theory PIpc
  imports PCryptoBackends PString
begin

text \<open>
  The names of system objects (\<open>pipc.c\<close>): the hash of the name the user gave, as a POSIX name or as the path of
  a key file.  The outer option of the path functions is \<open>None\<close> where the behaviour is undefined: a NULL pointer
  or a byte before the string is read.
\<close>

section \<open>The directory for key files\<close>

text \<open>
  The loop \<open>while (*(str + --len) == '/')\<close>: the index of the last character that is not a slash.  \<open>len\<close> is
  unsigned; at 0 the byte before the string is read.
\<close>

fun last_not_slash :: "string \<Rightarrow> nat \<Rightarrow> nat option" where
  "last_not_slash str 0 = None"
| "last_not_slash str (Suc len) = (if str ! len = CHR ''/'' then last_not_slash str len else Some len)"

text \<open>
  \<open>tmp\<close> is \<open>P_tmpdir\<close> or the environment variable \<open>TMPDIR\<close>, with \<open>None\<close> for an empty constant or a variable
  that is not set; the flags are the allocations of the copy and of the result.
\<close>

definition p_ipc_unix_get_temp_dir :: "bool \<Rightarrow> bool \<Rightarrow> string option \<Rightarrow> string option option" where
  "p_ipc_unix_get_temp_dir mem_str mem_ret tmp =
     (case tmp of
        None \<Rightarrow> Some (p_strdup mem_str (Some ''/tmp/''))
      | Some dir \<Rightarrow>
          (case p_strdup mem_str (Some dir) of
             None \<Rightarrow> None
           | Some str \<Rightarrow>
               (case last_not_slash str (length str) of
                  None \<Rightarrow> None
                | Some len \<Rightarrow>
                    if \<not> mem_ret then Some None
                    else Some (Some (take (len + 1) str @ ''/'')))))"

section \<open>Keys\<close>

text \<open>\<open>p_crypto_hash_update\<close> and \<open>p_crypto_hash_get_string\<close> on the object that \<open>p_crypto_hash_new\<close> gave.\<close>

fun hash_text :: "bool \<Rightarrow> any_hash \<Rightarrow> byte list \<Rightarrow> string option" where
  "hash_text mem (MD5_hash h) bytes = snd (p_crypto_hash_get_string mem (p_crypto_hash_update (Some h) (Some bytes)))"
| "hash_text mem (SHA1_hash h) bytes = snd (p_crypto_hash_get_string mem (p_crypto_hash_update (Some h) (Some bytes)))"
| "hash_text mem (SHA256_hash h) bytes = snd (p_crypto_hash_get_string mem (p_crypto_hash_update (Some h) (Some bytes)))"
| "hash_text mem (SHA512_hash h) bytes = snd (p_crypto_hash_get_string mem (p_crypto_hash_update (Some h) (Some bytes)))"
| "hash_text mem (GOST_hash h) bytes = snd (p_crypto_hash_get_string mem (p_crypto_hash_update (Some h) (Some bytes)))"

definition bytes_of_string :: "string \<Rightarrow> byte list" where
  "bytes_of_string s = map of_char s"

text \<open>
  The flags are the allocations of the hash object, its context, its string and of the path.  \<open>tmp\<close> is the
  result of \<open>p_ipc_unix_get_temp_dir\<close>, whose NULL is passed to \<open>strlen\<close>.
\<close>

definition p_ipc_get_platform_key ::
  "bool \<Rightarrow> bool \<Rightarrow> bool \<Rightarrow> bool \<Rightarrow> bool \<Rightarrow> string option option \<Rightarrow> string option \<Rightarrow> bool \<Rightarrow> string option option" where
  "p_ipc_get_platform_key big mem mem_ctx mem_str mem_path tmp name posix =
     (case name of
        None \<Rightarrow> Some None
      | Some n \<Rightarrow>
          (case p_crypto_hash_new big mem mem_ctx 1 of
             None \<Rightarrow> Some None
           | Some sha1 \<Rightarrow>
               (case hash_text mem_str sha1 (bytes_of_string n) of
                  None \<Rightarrow> Some None
                | Some hash_str \<Rightarrow>
                    if posix then
                      (if \<not> mem_path then Some None else Some (Some (''/'' @ take 13 hash_str)))
                    else
                      (case tmp of
                         None \<Rightarrow> None
                       | Some None \<Rightarrow> None
                       | Some (Some tmp_path) \<Rightarrow>
                           if \<not> mem_path then Some None else Some (Some (tmp_path @ hash_str))))))"

section \<open>Lemmas\<close>

lemma last_not_slash_trailing:
  "dir \<noteq> [] \<Longrightarrow> last dir \<noteq> CHR ''/'' \<Longrightarrow>
    last_not_slash (dir @ replicate k (CHR ''/'')) (length dir + k) = Some (length dir - 1)"
proof (induction k)
  case 0
  then show ?case by (cases dir rule: rev_cases) (simp_all add: nth_append)
next
  case (Suc k)
  have "last_not_slash (dir @ replicate (Suc k) (CHR ''/'')) i = last_not_slash (dir @ replicate k (CHR ''/'')) i"
    if "i \<le> length dir + k" for i
    using that
  proof (induction i)
    case (Suc i)
    then have "(dir @ replicate (Suc k) (CHR ''/'')) ! i = (dir @ replicate k (CHR ''/'')) ! i"
      by (auto simp: nth_append simp del: replicate_Suc)
    then show ?case using Suc by simp
  qed simp
  then show ?case using Suc by (simp add: nth_append nth_Cons')
qed

lemma last_not_slash_all: "last_not_slash (replicate k (CHR ''/'')) i = None" if "i \<le> k"
  using that by (induction i) auto

lemma temp_dir_slashes:
  assumes "dir \<noteq> []" "last dir \<noteq> CHR ''/''"
  shows "p_ipc_unix_get_temp_dir True True (Some (dir @ replicate k (CHR ''/''))) = Some (Some (dir @ ''/''))"
  using last_not_slash_trailing[OF assms, of k] assms(1)
  by (simp add: p_ipc_unix_get_temp_dir_def p_strdup_def Suc_diff_Suc)

lemma hash_text_sha1:
  assumes "bytes \<noteq> []" "length bytes < 2 ^ 32"
  shows "\<exists>h. p_crypto_hash_new big True True 1 = Some (SHA1_hash h) \<and>
    hash_text True (SHA1_hash h) bytes = Some (hex_of (SHA1 bytes))"
proof -
  have "any_run (p_crypto_hash_new big True True 1) [Update (Some bytes), GetString True] =
      spec_run SHA1 20 P_CRYPTO_HASH_TYPE_SHA1 ([], False) [Update (Some bytes), GetString True]"
    using new_represents[of 1 P_CRYPTO_HASH_TYPE_SHA1 big] assms by (auto simp: module_digest_def)
  moreover obtain h where h: "p_crypto_hash_new big True True 1 = Some (SHA1_hash h)"
    by (simp add: p_crypto_hash_new_def P_HASH_FUNCS_def p_crypto_hash_sha1_new_def)
  ultimately show ?thesis using assms(1) by (auto simp: Let_def split: prod.splits)
qed

end
