(* ===== verification/PSemaphore.thy ===== *)
theory PSemaphore
  imports PPosix PIpc PError
begin

text \<open>
  Semaphores on POSIX systems (\<open>psemaphore-posix.c\<close>).  An object is a record; the state of the system is passed
  along.  Errors carry the library's own code or the error number of the system.
\<close>

definition P_SEM_SUFFIX :: string where "P_SEM_SUFFIX = ''_p_sem_object''"

datatype PSemaphoreAccessMode = P_SEM_ACCESS_OPEN | P_SEM_ACCESS_CREATE

record PSemaphore =
  sem_created :: bool
  platform_key :: "string option"
  sem_hdl :: "nat option"
  mode :: PSemaphoreAccessMode
  init_val :: int

datatype ipc_failure = Library PErrorIPC | System errno

section \<open>Interrupted calls\<close>

text \<open>The loops \<open>while (\<dots> == P_SEM_INVALID_HDL && errno == EINTR)\<close>; every interruption is one of finitely many.\<close>

function sem_open_excl_loop :: "string \<Rightarrow> nat \<Rightarrow> nat call" where
  "sem_open_excl_loop name val os =
     (case sem_open_excl name val os of
        (os', Inl e) \<Rightarrow> if e = EINTR then sem_open_excl_loop name val os' else (os', Inl e)
      | (os', Inr i) \<Rightarrow> (os', Inr i))"
  by pat_completeness auto
termination
  by (relation "measure (\<lambda>(name, val, os). sum_list (interrupts os))")
     (auto simp: sem_open_excl_def interruptible_def used_less split: if_splits option.splits)

function sem_open_loop :: "string \<Rightarrow> nat call" where
  "sem_open_loop name os =
     (case sem_open name os of
        (os', Inl e) \<Rightarrow> if e = EINTR then sem_open_loop name os' else (os', Inl e)
      | (os', Inr i) \<Rightarrow> (os', Inr i))"
  by pat_completeness auto
termination
  by (relation "measure (\<lambda>(name, os). sum_list (interrupts os))")
     (auto simp: sem_open_def interruptible_def used_less split: if_splits option.splits)

function sem_wait_loop :: "nat \<Rightarrow> posix \<Rightarrow> (posix \<times> (errno + unit)) option" where
  "sem_wait_loop i os =
     (case sem_wait i os of
        None \<Rightarrow> None
      | Some (os', Inl e) \<Rightarrow> if e = EINTR then sem_wait_loop i os' else Some (os', Inl e)
      | Some (os', Inr u) \<Rightarrow> Some (os', Inr u))"
  by pat_completeness auto
termination
  by (relation "measure (\<lambda>(i, os). sum_list (interrupts os))") (auto simp: sem_wait_def used_less split: if_splits)

declare sem_open_excl_loop.simps [simp del] sem_open_loop.simps [simp del] sem_wait_loop.simps [simp del]

section \<open>The handle\<close>

text \<open>\<open>sem_close\<close> has no effect on names and values; a failure of \<open>sem_unlink\<close> is only reported.\<close>

definition pp_semaphore_clean_handle :: "posix \<Rightarrow> PSemaphore \<Rightarrow> posix \<times> PSemaphore" where
  "pp_semaphore_clean_handle os sem =
     (let os1 = (case (sem_hdl sem, platform_key sem) of
            (Some _, Some key) \<Rightarrow> if sem_created sem then fst (sem_unlink key os) else os
          | _ \<Rightarrow> os)
      in (os1, sem\<lparr>sem_created := False, sem_hdl := None\<rparr>))"

definition pp_semaphore_create_handle :: "posix \<Rightarrow> PSemaphore \<Rightarrow> posix \<times> PSemaphore \<times> (ipc_failure + unit)" where
  "pp_semaphore_create_handle os sem =
     (case platform_key sem of
        None \<Rightarrow> (os, sem, Inl (Library P_ERROR_IPC_INVALID_ARGUMENT))
      | Some key \<Rightarrow>
          (case sem_open_excl_loop key (nat (init_val sem)) os of
             (os1, Inr h) \<Rightarrow> (os1, sem\<lparr>sem_hdl := Some h, sem_created := True\<rparr>, Inr ())
           | (os1, Inl e) \<Rightarrow>
               (let (os2, r) =
                  (if e = EEXIST
                   then sem_open_loop key (if mode sem = P_SEM_ACCESS_CREATE then fst (sem_unlink key os1) else os1)
                   else (os1, Inl e))
                in case r of
                     Inr h \<Rightarrow> (os2, sem\<lparr>sem_hdl := Some h\<rparr>, Inr ())
                   | Inl e2 \<Rightarrow>
                       (case pp_semaphore_clean_handle os2 (sem\<lparr>sem_hdl := None\<rparr>) of
                          (os3, sem3) \<Rightarrow> (os3, sem3, Inl (System e2))))))"

section \<open>The operations\<close>

definition p_semaphore_free :: "posix \<Rightarrow> PSemaphore option \<Rightarrow> posix" where
  "p_semaphore_free os sem = (case sem of None \<Rightarrow> os | Some s \<Rightarrow> fst (pp_semaphore_clean_handle os s))"

text \<open>
  \<open>ipc_key\<close> is \<open>p_ipc_get_platform_key\<close> with its last argument TRUE, as a function of the name; the flags are
  the allocations of the object and of the name with the suffix.
\<close>

definition p_semaphore_new ::
  "(string \<Rightarrow> string option) \<Rightarrow> bool \<Rightarrow> bool \<Rightarrow> posix \<Rightarrow> string option \<Rightarrow> int \<Rightarrow> PSemaphoreAccessMode \<Rightarrow>
   posix \<times> (ipc_failure + PSemaphore)" where
  "p_semaphore_new ipc_key mem mem_name os name init md =
     (case name of
        None \<Rightarrow> (os, Inl (Library P_ERROR_IPC_INVALID_ARGUMENT))
      | Some n \<Rightarrow>
          if init < 0 then (os, Inl (Library P_ERROR_IPC_INVALID_ARGUMENT))
          else if \<not> mem then (os, Inl (Library P_ERROR_IPC_NO_RESOURCES))
          else if \<not> mem_name then (os, Inl (Library P_ERROR_IPC_NO_RESOURCES))
          else
            (let ret = \<lparr>sem_created = False, platform_key = ipc_key (n @ P_SEM_SUFFIX), sem_hdl = None, mode = md,
                        init_val = init\<rparr>
             in case pp_semaphore_create_handle os ret of
                  (os1, ret1, Inl err) \<Rightarrow> (p_semaphore_free os1 (Some ret1), Inl err)
                | (os1, ret1, Inr _) \<Rightarrow> (os1, Inr ret1)))"

definition p_semaphore_take_ownership :: "PSemaphore option \<Rightarrow> PSemaphore option" where
  "p_semaphore_take_ownership sem = (case sem of None \<Rightarrow> None | Some s \<Rightarrow> Some (s\<lparr>sem_created := True\<rparr>))"

text \<open>The handle of an object that was made is valid; \<open>None\<close> if the caller has to wait.\<close>

definition p_semaphore_acquire :: "posix \<Rightarrow> PSemaphore option \<Rightarrow> (posix \<times> (ipc_failure + unit)) option" where
  "p_semaphore_acquire os sem =
     (case sem of
        None \<Rightarrow> Some (os, Inl (Library P_ERROR_IPC_INVALID_ARGUMENT))
      | Some s \<Rightarrow>
          (case sem_hdl s of
             None \<Rightarrow> Some (os, Inl (System EINVAL))
           | Some h \<Rightarrow>
               (case sem_wait_loop h os of
                  None \<Rightarrow> None
                | Some (os1, Inl e) \<Rightarrow> Some (os1, Inl (System e))
                | Some (os1, Inr u) \<Rightarrow> Some (os1, Inr u))))"

definition p_semaphore_release :: "posix \<Rightarrow> PSemaphore option \<Rightarrow> posix \<times> (ipc_failure + unit)" where
  "p_semaphore_release os sem =
     (case sem of
        None \<Rightarrow> (os, Inl (Library P_ERROR_IPC_INVALID_ARGUMENT))
      | Some s \<Rightarrow>
          (case sem_hdl s of
             None \<Rightarrow> (os, Inl (System EINVAL))
           | Some h \<Rightarrow>
               (case sem_post h os of
                  (os1, Inl e) \<Rightarrow> (os1, Inl (System e))
                | (os1, Inr u) \<Rightarrow> (os1, Inr u))))"

section \<open>The loops end\<close>

interpretation sem_open_excl_retry: retried_call "sem_open_excl name val" "sem_open_excl_loop name val" "\<lambda>os. due (interrupts os)" drop_interrupt calm for name val
  by unfold_locales
    (rule sem_open_excl_loop.simps, auto simp: sem_open_excl_def interruptible_def drop_interrupt_def calm_def over_same split: if_splits option.splits)

interpretation sem_open_retry: retried_call "sem_open name" "sem_open_loop name" "\<lambda>os. due (interrupts os)" drop_interrupt calm for name
  by unfold_locales
    (rule sem_open_loop.simps, auto simp: sem_open_def interruptible_def drop_interrupt_def calm_def over_same split: if_splits option.splits)

lemma sem_wait_loop_calm: "sem_wait_loop i os = sem_wait i (calm os)"
proof (induction i os rule: sem_wait_loop.induct)
  case (1 i os)
  show ?case
  proof (cases "due (interrupts os) = 0")
    case True
    then show ?thesis
      by (subst sem_wait_loop.simps) (auto simp: sem_wait_def calm_same)
  next
    case False
    then have e: "sem_wait i os = Some (drop_interrupt os, Inl EINTR)"
      by (simp add: sem_wait_def drop_interrupt_def)
    then show ?thesis using 1[OF e refl refl refl] by (subst sem_wait_loop.simps) (simp add: drop_interrupt_simps)
  qed
qed

lemma sem_wait_calm:
  "sem_wait i (calm os) =
     (if sem_vals os i = 0 then None else Some ((quiet os)\<lparr>sem_vals := (sem_vals os)(i := sem_vals os i - 1)\<rparr>, Inr ()))"
  by (simp add: sem_wait_def calm_def quiet_def)

lemmas sem_loops = sem_open_excl_retry.loop_quiet sem_open_retry.loop_quiet sem_wait_loop_calm

end
