(* ===== verification/PShm.thy ===== *)
theory PShm
  imports PSemaphore
begin

text \<open>
  Shared memory on POSIX systems (\<open>pshm-posix.c\<close>): a segment with the semaphore that locks it.  \<open>addr\<close> is the
  object that is mapped; its bytes are not part of the model.  Access permissions only choose the flags of
  \<open>mmap\<close>.
\<close>

definition P_SHM_SUFFIX :: string where "P_SHM_SUFFIX = ''_p_shm_object''"

datatype PShmAccessPerms = P_SHM_ACCESS_READONLY | P_SHM_ACCESS_READWRITE

record PShm =
  shm_created :: bool
  shm_key :: "string option"
  shm_addr :: "nat option"
  shm_size :: nat
  shm_sem :: "PSemaphore option"
  perms :: PShmAccessPerms

section \<open>Interrupted calls\<close>

function shm_open_excl_loop :: "string \<Rightarrow> nat call" where
  "shm_open_excl_loop name os =
     (case shm_open_excl name os of
        (os', Inl e) \<Rightarrow> if e = EINTR then shm_open_excl_loop name os' else (os', Inl e)
      | (os', Inr i) \<Rightarrow> (os', Inr i))"
  by pat_completeness auto
termination
  by (relation "measure (\<lambda>(name, os). sum_list (interrupts os))")
     (auto simp: shm_open_excl_def interruptible_def used_less split: if_splits option.splits)

function shm_open_loop :: "string \<Rightarrow> nat call" where
  "shm_open_loop name os =
     (case shm_open name os of
        (os', Inl e) \<Rightarrow> if e = EINTR then shm_open_loop name os' else (os', Inl e)
      | (os', Inr i) \<Rightarrow> (os', Inr i))"
  by pat_completeness auto
termination
  by (relation "measure (\<lambda>(name, os). sum_list (interrupts os))")
     (auto simp: shm_open_def interruptible_def used_less split: if_splits option.splits)

declare shm_open_excl_loop.simps [simp del] shm_open_loop.simps [simp del]

section \<open>The handle\<close>

definition pp_shm_clean_handle :: "posix \<Rightarrow> PShm \<Rightarrow> posix \<times> PShm" where
  "pp_shm_clean_handle os shm =
     (let os1 = (case (shm_created shm, shm_key shm) of (True, Some key) \<Rightarrow> fst (shm_unlink key os) | _ \<Rightarrow> os);
          os2 = (case shm_sem shm of None \<Rightarrow> os1 | Some s \<Rightarrow> p_semaphore_free os1 (Some s))
      in (os2, shm\<lparr>shm_sem := None, shm_created := False, shm_addr := None, shm_size := 0\<rparr>))"

definition shm_fail :: "posix \<Rightarrow> PShm \<Rightarrow> ipc_failure \<Rightarrow> posix \<times> PShm \<times> (ipc_failure + unit)" where
  "shm_fail os shm err = (case pp_shm_clean_handle os shm of (os', shm') \<Rightarrow> (os', shm', Inl err))"

text \<open>From \<open>mmap\<close> on.\<close>

definition shm_map ::
  "(string \<Rightarrow> string option) \<Rightarrow> posix \<Rightarrow> PShm \<Rightarrow> string \<Rightarrow> nat \<Rightarrow> bool \<Rightarrow> posix \<times> PShm \<times> (ipc_failure + unit)" where
  "shm_map ipc_key os shm key fd is_exists =
     (case mmap fd (shm_size shm) os of
        (os1, Inl e) \<Rightarrow> shm_fail os1 (shm\<lparr>shm_addr := None\<rparr>) (System e)
      | (os1, Inr a) \<Rightarrow>
          (case p_semaphore_new ipc_key True True os1 (Some key) 1
                  (if is_exists then P_SEM_ACCESS_OPEN else P_SEM_ACCESS_CREATE) of
             (os2, Inl err) \<Rightarrow> shm_fail os2 (shm\<lparr>shm_addr := Some a, shm_sem := None\<rparr>) err
           | (os2, Inr s) \<Rightarrow> (os2, shm\<lparr>shm_addr := Some a, shm_sem := Some s\<rparr>, Inr ())))"

definition pp_shm_create_handle ::
  "(string \<Rightarrow> string option) \<Rightarrow> posix \<Rightarrow> PShm \<Rightarrow> posix \<times> PShm \<times> (ipc_failure + unit)" where
  "pp_shm_create_handle ipc_key os shm =
     (case shm_key shm of
        None \<Rightarrow> (os, shm, Inl (Library P_ERROR_IPC_INVALID_ARGUMENT))
      | Some key \<Rightarrow>
          (case shm_open_excl_loop key os of
             (os1, Inr fd) \<Rightarrow>
               (let shm1 = shm\<lparr>shm_created := True\<rparr>
                in case ftruncate fd (shm_size shm1) os1 of
                     (os2, Inl e) \<Rightarrow> shm_fail os2 shm1 (System e)
                   | (os2, Inr _) \<Rightarrow> shm_map ipc_key os2 shm1 key fd False)
           | (os1, Inl e) \<Rightarrow>
               (case (if e = EEXIST then shm_open_loop key os1 else (os1, Inl e)) of
                  (os2, Inl e2) \<Rightarrow> shm_fail os2 shm (System e2)
                | (os2, Inr fd) \<Rightarrow>
                    shm_map ipc_key os2 (shm\<lparr>shm_size := fstat_size fd os2\<rparr>) key fd True)))"

section \<open>The operations\<close>

definition p_shm_free :: "posix \<Rightarrow> PShm option \<Rightarrow> posix" where
  "p_shm_free os shm = (case shm of None \<Rightarrow> os | Some s \<Rightarrow> fst (pp_shm_clean_handle os s))"

definition p_shm_new ::
  "(string \<Rightarrow> string option) \<Rightarrow> bool \<Rightarrow> bool \<Rightarrow> posix \<Rightarrow> string option \<Rightarrow> nat \<Rightarrow> PShmAccessPerms \<Rightarrow>
   posix \<times> (ipc_failure + PShm)" where
  "p_shm_new ipc_key mem mem_name os name sz p =
     (case name of
        None \<Rightarrow> (os, Inl (Library P_ERROR_IPC_INVALID_ARGUMENT))
      | Some n \<Rightarrow>
          if \<not> mem then (os, Inl (Library P_ERROR_IPC_NO_RESOURCES))
          else if \<not> mem_name then (os, Inl (Library P_ERROR_IPC_NO_RESOURCES))
          else
            (let ret = \<lparr>shm_created = False, shm_key = ipc_key (n @ P_SHM_SUFFIX), shm_addr = None, shm_size = sz,
                        shm_sem = None, perms = p\<rparr>
             in case pp_shm_create_handle ipc_key os ret of
                  (os1, ret1, Inl err) \<Rightarrow> (p_shm_free os1 (Some ret1), Inl err)
                | (os1, ret1, Inr _) \<Rightarrow>
                    (os1, Inr (if shm_size ret1 > sz \<and> sz \<noteq> 0 then ret1\<lparr>shm_size := sz\<rparr> else ret1))))"

definition p_shm_take_ownership :: "PShm option \<Rightarrow> PShm option" where
  "p_shm_take_ownership shm =
     (case shm of
        None \<Rightarrow> None
      | Some s \<Rightarrow> Some (s\<lparr>shm_created := True, shm_sem := p_semaphore_take_ownership (shm_sem s)\<rparr>))"

definition p_shm_lock :: "posix \<Rightarrow> PShm option \<Rightarrow> (posix \<times> (ipc_failure + unit)) option" where
  "p_shm_lock os shm =
     (case shm of
        None \<Rightarrow> Some (os, Inl (Library P_ERROR_IPC_INVALID_ARGUMENT))
      | Some s \<Rightarrow> p_semaphore_acquire os (shm_sem s))"

definition p_shm_unlock :: "posix \<Rightarrow> PShm option \<Rightarrow> posix \<times> (ipc_failure + unit)" where
  "p_shm_unlock os shm =
     (case shm of
        None \<Rightarrow> (os, Inl (Library P_ERROR_IPC_INVALID_ARGUMENT))
      | Some s \<Rightarrow> p_semaphore_release os (shm_sem s))"

definition p_shm_get_address :: "PShm option \<Rightarrow> nat option" where
  "p_shm_get_address shm = (case shm of None \<Rightarrow> None | Some s \<Rightarrow> shm_addr s)"

definition p_shm_get_size :: "PShm option \<Rightarrow> nat" where
  "p_shm_get_size shm = (case shm of None \<Rightarrow> 0 | Some s \<Rightarrow> shm_size s)"

section \<open>The loops end\<close>

interpretation shm_open_excl_retry: retried_call "shm_open_excl name" "shm_open_excl_loop name" "\<lambda>os. due (interrupts os)" drop_interrupt calm for name
  by unfold_locales
    (rule shm_open_excl_loop.simps, auto simp: shm_open_excl_def interruptible_def drop_interrupt_def calm_def over_same split: if_splits option.splits)

interpretation shm_open_retry: retried_call "shm_open name" "shm_open_loop name" "\<lambda>os. due (interrupts os)" drop_interrupt calm for name
  by unfold_locales
    (rule shm_open_loop.simps, auto simp: shm_open_def interruptible_def drop_interrupt_def calm_def over_same split: if_splits option.splits)

lemmas shm_loops = shm_open_excl_retry.loop_quiet shm_open_retry.loop_quiet

end
