(* ===== verification/PIpcProps.thy ===== *)
theory PIpcProps
  imports PShm
begin

text \<open>
  Names of system objects, POSIX semaphores and shared memory: the life of names and values, what
  \<open>P_SEM_ACCESS_CREATE\<close> does to an existing semaphore, and the lock of a segment.
\<close>

section \<open>Keys\<close>

lemma length_hex_of: "length (hex_of bs) = 2 * length bs"
  by (induction bs) (simp_all add: hex_of_def)

text \<open>
  The POSIX name of an object is a slash and the first 13 digits of the SHA-1 hash of the name given, on
  every system; the key file is the whole hash in the temporary directory, with one slash whatever slashes the
  directory ends with.  A directory of slashes only makes the loop read the byte before the string.
\<close>

theorem ipc_platform_key:
  assumes "n \<noteq> []" "length n < 2 ^ 32" "dir \<noteq> []" "last dir \<noteq> CHR ''/''"
  shows "p_ipc_get_platform_key big True True True True tmp (Some n) True =
      Some (Some (''/'' @ take 13 (hex_of (SHA1 (bytes_of_string n))))) \<and>
    p_ipc_get_platform_key big True True True True
        (p_ipc_unix_get_temp_dir True True (Some (dir @ replicate k (CHR ''/'')))) (Some n) False =
      Some (Some (dir @ ''/'' @ hex_of (SHA1 (bytes_of_string n)))) \<and>
    p_ipc_unix_get_temp_dir True True (Some (replicate k (CHR ''/''))) = None"
proof -
  have "bytes_of_string n \<noteq> []" "length (bytes_of_string n) < 2 ^ 32" using assms(1,2) by (simp_all add: bytes_of_string_def)
  from hash_text_sha1[OF this, of big] obtain h where
    "p_crypto_hash_new big True True 1 = Some (SHA1_hash h)"
    "hash_text True (SHA1_hash h) (bytes_of_string n) = Some (hex_of (SHA1 (bytes_of_string n)))" by blast
  moreover have "p_ipc_unix_get_temp_dir True True (Some (replicate k (CHR ''/''))) = None"
    by (simp add: p_ipc_unix_get_temp_dir_def p_strdup_def last_not_slash_all)
  ultimately show ?thesis
    by (simp add: p_ipc_get_platform_key_def temp_dir_slashes[OF assms(3,4)] del: hash_text.simps)
qed

theorem ipc_platform_key_witness:
  "p_ipc_get_platform_key True True True True True None (Some ''a'') True =
    Some (Some (''/'' @ take 13 (hex_of (SHA1 [0x61]))))"
  using ipc_platform_key[of "''a''" "''/tmp''" True None 2] by (simp add: bytes_of_string_def)

section \<open>Semaphores\<close>

lemmas sem_defs = p_semaphore_new_def pp_semaphore_create_handle_def sem_loops sem_open_excl_def sem_open_def
  sem_unlink_def p_semaphore_free_def pp_semaphore_clean_handle_def p_semaphore_take_ownership_def

lemma sem_new_fresh:
  assumes "ipc_key (n @ P_SEM_SUFFIX) = Some k" "\<not> denied os k" "0 \<le> init" "sem_names os k = None"
  shows "p_semaphore_new ipc_key True True os (Some n) init md =
    ((quiet os)\<lparr>sem_names := (sem_names os)(k \<mapsto> next_id os), sem_vals := (sem_vals os)(next_id os := nat init),
       next_id := Suc (next_id os)\<rparr>,
     Inr \<lparr>sem_created = True, platform_key = Some k, sem_hdl = Some (next_id os), mode = md, init_val = init\<rparr>)"
  using assms by (simp add: sem_defs Let_def)

lemma sem_new_open:
  assumes "ipc_key (n @ P_SEM_SUFFIX) = Some k" "\<not> denied os k" "0 \<le> init" "sem_names os k = Some i"
  shows "p_semaphore_new ipc_key True True os (Some n) init P_SEM_ACCESS_OPEN =
    (quiet (quiet os), Inr \<lparr>sem_created = False, platform_key = Some k, sem_hdl = Some i, mode = P_SEM_ACCESS_OPEN, init_val = init\<rparr>)"
  using assms by (simp add: sem_defs Let_def)

lemma sem_new_create:
  assumes "ipc_key (n @ P_SEM_SUFFIX) = Some k" "\<not> denied os k" "0 \<le> init" "sem_names os k = Some i"
  shows "p_semaphore_new ipc_key True True os (Some n) init P_SEM_ACCESS_CREATE =
    ((quiet (quiet os))\<lparr>sem_names := (sem_names os)(k := None)\<rparr>, Inl (System ENOENT))"
  using assms by (simp add: sem_defs Let_def)

text \<open>
  Making a semaphore of a new name creates it with the initial value and leaves all others alone, however
  often the calls are interrupted, and freeing the object removes the name again.  Opening an existing one
  changes nothing and keeps its value, and freeing that object leaves the name, unless ownership was taken.
\<close>

theorem semaphore_names:
  assumes "ipc_key (n @ P_SEM_SUFFIX) = Some k" "\<not> denied os k" "0 \<le> init"
  shows "(sem_names os k = None \<longrightarrow> (\<exists>s os'. p_semaphore_new ipc_key True True os (Some n) init md = (os', Inr s) \<and>
      (\<exists>i. sem_names os' = (sem_names os)(k \<mapsto> i) \<and> sem_vals os' = (sem_vals os)(i := nat init) \<and> sem_hdl s = Some i) \<and>
      sem_names (p_semaphore_free os' (Some s)) = sem_names os)) \<and>
    (\<forall>i. sem_names os k = Some i \<longrightarrow> (\<exists>s os'. p_semaphore_new ipc_key True True os (Some n) init P_SEM_ACCESS_OPEN = (os', Inr s) \<and>
      sem_names os' = sem_names os \<and> sem_vals os' = sem_vals os \<and> sem_hdl s = Some i \<and>
      sem_names (p_semaphore_free os' (Some s)) = sem_names os \<and>
      sem_names (p_semaphore_free os' (p_semaphore_take_ownership (Some s))) = (sem_names os)(k := None)))"
  using sem_new_fresh[of ipc_key n k os init md] sem_new_open[of ipc_key n k os init] assms
  by (auto simp: p_semaphore_free_def pp_semaphore_clean_handle_def sem_unlink_def p_semaphore_take_ownership_def)

definition sample_os :: posix where
  "sample_os = \<lparr>interrupts = [3, 0, 2, 1, 0, 4], denied = (\<lambda>_. False), sem_names = [''/k'' \<mapsto> 0], sem_vals = (\<lambda>_. 1), shm_names = Map.empty,
     shm_sizes = (\<lambda>_. 0), shm_limit = 4096, next_id = 1\<rparr>"

theorem semaphore_names_witness:
  "\<exists>s os'. p_semaphore_new Some True True sample_os (Some ''a'') 5 P_SEM_ACCESS_CREATE = (os', Inr s) \<and>
    sem_names (p_semaphore_free os' (Some s)) = [''/k'' \<mapsto> 0]"
  using semaphore_names[of Some "''a''" "''a_p_sem_object''" sample_os 5 P_SEM_ACCESS_CREATE]
  by (auto simp: sample_os_def P_SEM_SUFFIX_def)

text \<open>
  \<open>P_SEM_ACCESS_CREATE\<close> on an existing name does not reset the semaphore: the name is removed, and the
  object is then opened without the flag that would create it, so the call fails and the semaphore of the other
  processes has lost its name.
\<close>

theorem semaphore_create_existing:
  assumes "ipc_key (n @ P_SEM_SUFFIX) = Some k" "\<not> denied os k" "0 \<le> init" "sem_names os k = Some i"
  shows "\<exists>os'. p_semaphore_new ipc_key True True os (Some n) init P_SEM_ACCESS_CREATE = (os', Inl (System ENOENT)) \<and>
    sem_names os' = (sem_names os)(k := None)"
  using sem_new_create[of ipc_key n k os init i] assms by simp

theorem semaphore_create_existing_witness:
  "\<exists>os'. p_semaphore_new (\<lambda>_. Some ''/k'') True True sample_os (Some ''a'') 5 P_SEM_ACCESS_CREATE = (os', Inl (System ENOENT)) \<and>
    sem_names os' = Map.empty"
  using semaphore_create_existing[of "\<lambda>_. Some ''/k''" "''a''" "''/k''" sample_os 5 0] by (auto simp: sample_os_def)

section \<open>Values\<close>

datatype sem_op = Acquire | Release

text \<open>The calls in order; \<open>None\<close> if one has to wait.\<close>

fun run_sem :: "posix \<Rightarrow> PSemaphore \<Rightarrow> sem_op list \<Rightarrow> posix option" where
  "run_sem os s [] = Some os"
| "run_sem os s (Acquire # ops) =
     (case p_semaphore_acquire os (Some s) of None \<Rightarrow> None | Some (os', _) \<Rightarrow> run_sem os' s ops)"
| "run_sem os s (Release # ops) = run_sem (fst (p_semaphore_release os (Some s))) s ops"

fun balance :: "nat \<Rightarrow> sem_op list \<Rightarrow> int" where
  "balance v [] = int v"
| "balance v (Acquire # ops) = balance v ops - 1"
| "balance v (Release # ops) = balance v ops + 1"

lemma balance_Suc: "balance (Suc v) ops = balance v ops + 1"
  by (induction ops rule: balance.induct[of _ v]) simp_all

text \<open>No beginning of the calls takes more than there is.\<close>

definition covered :: "nat \<Rightarrow> sem_op list \<Rightarrow> bool" where
  "covered v ops \<longleftrightarrow> (\<forall>k \<le> length ops. 0 \<le> balance v (take k ops))"

lemma covered_simps:
  "covered v []" "covered v (Release # ops) = covered (Suc v) ops" "\<not> covered 0 (Acquire # ops)"
  "covered (Suc v) (Acquire # ops) = covered v ops"
proof -
  have split: "(\<forall>k \<le> Suc n. P k) \<longleftrightarrow> P 0 \<and> (\<forall>k \<le> n. P (Suc k))" for n and P :: "nat \<Rightarrow> bool"
    by (metis Suc_le_mono le0 not0_implies_Suc)
  show "covered v []" by (simp add: covered_def)
  show "covered v (Release # ops) = covered (Suc v) ops" "covered (Suc v) (Acquire # ops) = covered v ops"
    unfolding covered_def length_Cons split by (simp_all add: balance_Suc)
  show "\<not> covered 0 (Acquire # ops)" unfolding covered_def length_Cons split by auto
qed

lemma run_sem_value:
  assumes "sem_hdl s = Some h"
  shows "sem_vals os h + length ops \<le> SEM_VALUE_MAX \<Longrightarrow>
    (if covered (sem_vals os h) ops
     then \<exists>os'. run_sem os s ops = Some os' \<and> int (sem_vals os' h) = balance (sem_vals os h) ops
     else run_sem os s ops = None)"
proof (induction ops arbitrary: os)
  case (Cons p ops)
  let ?v = "sem_vals os h"
  show ?case
  proof (cases p)
    case Acquire
    show ?thesis
    proof (cases ?v)
      case 0
      then show ?thesis
        using assms by (simp add: Acquire p_semaphore_acquire_def sem_loops sem_wait_calm covered_simps)
    next
      case (Suc v)
      let ?os = "(quiet os)\<lparr>sem_vals := (sem_vals os)(h := v)\<rparr>"
      have "run_sem os s (p # ops) = run_sem ?os s ops"
        using assms Suc by (simp add: Acquire p_semaphore_acquire_def sem_loops sem_wait_calm)
      then show ?thesis using Cons.IH[of ?os] Cons.prems Suc
        by (simp add: Acquire covered_simps balance_Suc del: run_sem.simps cong: if_cong)
    qed
  next
    case Release
    let ?os = "os\<lparr>sem_vals := (sem_vals os)(h := Suc ?v)\<rparr>"
    have "run_sem os s (p # ops) = run_sem ?os s ops"
      using assms Cons.prems by (simp add: Release p_semaphore_release_def sem_post_def)
    then show ?thesis using Cons.IH[of ?os] Cons.prems
      by (simp add: Release covered_simps balance_Suc del: run_sem.simps cong: if_cong)
  qed
qed (simp add: covered_simps)

text \<open>
  C24.  A semaphore made with value \<open>v\<close> counts: after any calls on it the value is \<open>v\<close> plus the releases minus
  the acquisitions, however often they are interrupted, and a call has to wait exactly if some beginning of the
  calls acquires more than it released and \<open>v\<close> together.
\<close>

theorem semaphore_counts:
  assumes "p_semaphore_new ipc_key mem mem_name os (Some n) (int v) md = (os1, Inr s)" "sem_created s"
    and "v + length ops \<le> SEM_VALUE_MAX"
  shows "\<exists>h. sem_hdl s = Some h \<and> sem_vals os1 h = v \<and>
    (run_sem os1 s ops = None \<longleftrightarrow> (\<exists>k \<le> length ops. balance v (take k ops) < 0)) \<and>
    (\<forall>os2. run_sem os1 s ops = Some os2 \<longrightarrow> int (sem_vals os2 h) = balance v ops)"
proof -
  obtain k where k: "ipc_key (n @ P_SEM_SUFFIX) = Some k"
    using assms(1) by (auto simp: sem_defs Let_def split: option.splits if_splits)
  then have "\<not> denied os k \<and> sem_names os k = None"
    using assms(1,2) by (auto simp: sem_defs Let_def split: option.splits if_splits)
  then have new: "s = \<lparr>sem_created = True, platform_key = Some k, sem_hdl = Some (next_id os), mode = md, init_val = int v\<rparr>"
    "sem_vals os1 (next_id os) = v"
    using assms(1) sem_new_fresh[of ipc_key n k os "int v" md] k
    by (auto simp: p_semaphore_new_def split: if_splits)
  then show ?thesis using run_sem_value[of s "next_id os" os1 ops] assms(3)
    by (auto simp: covered_def not_le split: if_splits)
qed

theorem semaphore_counts_witness:
  "\<exists>s os1 os2. p_semaphore_new Some True True sample_os (Some ''a'') 1 P_SEM_ACCESS_OPEN = (os1, Inr s) \<and>
    run_sem os1 s [Acquire, Acquire] = None \<and> run_sem os1 s [Acquire, Release, Release] = Some os2 \<and>
    sem_vals os2 (the (sem_hdl s)) = 2"
proof -
  have "sem_names sample_os (''a'' @ P_SEM_SUFFIX) = None" "\<not> denied sample_os k" for k
    by (simp_all add: sample_os_def P_SEM_SUFFIX_def)
  then obtain s os1 where new: "p_semaphore_new Some True True sample_os (Some ''a'') (int 1) P_SEM_ACCESS_OPEN = (os1, Inr s)" "sem_created s"
    using sem_new_fresh[of Some "''a''" "''a'' @ P_SEM_SUFFIX" sample_os 1 P_SEM_ACCESS_OPEN] by auto
  have "run_sem os1 s [Acquire, Acquire] = None"
    using semaphore_counts[OF new, of "[Acquire, Acquire]"] by (auto simp: SEM_VALUE_MAX_def intro!: exI[of _ 2])
  moreover have "\<exists>os2. run_sem os1 s [Acquire, Release, Release] = Some os2 \<and> sem_vals os2 (the (sem_hdl s)) = 2"
  proof -
    have "covered (Suc 0) [Acquire, Release, Release]" by (simp add: covered_simps)
    then have "\<not> (\<exists>k \<le> length [Acquire, Release, Release]. balance 1 (take k [Acquire, Release, Release]) < 0)"
      by (auto simp: covered_def)
    then show ?thesis using semaphore_counts[OF new, of "[Acquire, Release, Release]"]
      by (cases "run_sem os1 s [Acquire, Release, Release]") (auto simp: SEM_VALUE_MAX_def)
  qed
  ultimately show ?thesis using new by auto
qed

section \<open>Shared memory\<close>

lemmas shm_defs = p_shm_new_def pp_shm_create_handle_def shm_loops shm_open_excl_def shm_open_def shm_unlink_def
  shm_map_def mmap_def ftruncate_def fstat_size_def shm_fail_def pp_shm_clean_handle_def p_shm_free_def

text \<open>What the proofs below know about the two names of a segment and its size.\<close>

definition shm_ready :: "(string \<Rightarrow> string option) \<Rightarrow> string \<Rightarrow> string \<Rightarrow> string \<Rightarrow> nat \<Rightarrow> posix \<Rightarrow> bool" where
  "shm_ready ipc_key n k ks sz os \<longleftrightarrow> ipc_key (n @ P_SHM_SUFFIX) = Some k \<and> ipc_key (k @ P_SEM_SUFFIX) = Some ks \<and>
     \<not> denied os k \<and> \<not> denied os ks \<and> 0 < sz \<and> sz \<le> shm_limit os"

lemma shm_new_fresh:
  assumes "shm_ready ipc_key n k ks sz os" "shm_names os k = None" "sem_names os ks = None"
  shows "\<exists>os' s se. p_shm_new ipc_key True True os (Some n) sz p = (os', Inr s) \<and>
    s = \<lparr>shm_created = True, shm_key = Some k, shm_addr = Some (next_id os), shm_size = sz, shm_sem = Some se, perms = p\<rparr> \<and>
    sem_hdl se = Some (Suc (next_id os)) \<and> denied os' = denied os \<and> shm_limit os' = shm_limit os \<and>
    shm_names os' = (shm_names os)(k \<mapsto> next_id os) \<and> sem_names os' = (sem_names os)(ks \<mapsto> Suc (next_id os)) \<and>
    shm_sizes os' (next_id os) = sz \<and> sem_vals os' (Suc (next_id os)) = 1"
  using assms sem_new_fresh[of ipc_key k ks
      "(quiet os)\<lparr>shm_names := (shm_names os)(k \<mapsto> next_id os), next_id := Suc (next_id os),
         shm_sizes := (shm_sizes os)(next_id os := sz)\<rparr>" 1 P_SEM_ACCESS_CREATE]
  by (simp add: shm_defs shm_ready_def Let_def)

lemma shm_new_open:
  assumes "shm_ready ipc_key n k ks sz os" "shm_names os k = Some i" "sem_names os ks = Some j"
    "0 < shm_sizes os i" "shm_sizes os i \<le> shm_limit os"
  shows "\<exists>s se. p_shm_new ipc_key True True os (Some n) sz p = (quiet (quiet (quiet (quiet os))), Inr s) \<and>
    s = \<lparr>shm_created = False, shm_key = Some k, shm_addr = Some i, shm_size = min sz (shm_sizes os i), shm_sem = Some se,
         perms = p\<rparr> \<and> sem_hdl se = Some j"
  using assms sem_new_open[of ipc_key k ks "quiet (quiet os)" 1 j]
  by (auto simp: shm_defs shm_ready_def Let_def min_def)

text \<open>
  C25.  Two processes that open one segment get the same memory, the second the size of the first unless it
  asks for less, and the lock of the segment excludes them: while one holds it the other has to wait, and when it
  is given up the other gets it.
\<close>

theorem shm_lock_excludes:
  assumes "shm_ready ipc_key n k ks sz os" "shm_ready ipc_key n k ks sz2 os"
    and "shm_names os k = None" "sem_names os ks = None"
  shows "\<exists>os1 s1 os2 s2. p_shm_new ipc_key True True os (Some n) sz p = (os1, Inr s1) \<and>
    p_shm_new ipc_key True True os1 (Some n) sz2 p2 = (os2, Inr s2) \<and>
    p_shm_get_address (Some s2) = p_shm_get_address (Some s1) \<and>
    p_shm_get_size (Some s1) = sz \<and> p_shm_get_size (Some s2) = min sz2 sz \<and>
    (\<exists>os3. p_shm_lock os2 (Some s1) = Some (os3, Inr ()) \<and> p_shm_lock os3 (Some s2) = None \<and>
      (\<exists>os4. p_shm_unlock os3 (Some s1) = (os4, Inr ()) \<and> (\<exists>os5. p_shm_lock os4 (Some s2) = Some (os5, Inr ()))))"
proof -
  obtain os1 s1 se1 where new1: "p_shm_new ipc_key True True os (Some n) sz p = (os1, Inr s1)"
      "s1 = \<lparr>shm_created = True, shm_key = Some k, shm_addr = Some (next_id os), shm_size = sz, shm_sem = Some se1, perms = p\<rparr>"
      "sem_hdl se1 = Some (Suc (next_id os))" "denied os1 = denied os" "shm_limit os1 = shm_limit os"
      "shm_names os1 = (shm_names os)(k \<mapsto> next_id os)" "sem_names os1 = (sem_names os)(ks \<mapsto> Suc (next_id os))"
      "shm_sizes os1 (next_id os) = sz" "sem_vals os1 (Suc (next_id os)) = 1"
    using shm_new_fresh[OF assms(1,3,4), of p] by metis
  have "shm_ready ipc_key n k ks sz2 os1" using assms(2) new1 by (simp add: shm_ready_def)
  then obtain s2 se2 where new2: "p_shm_new ipc_key True True os1 (Some n) sz2 p2 = (quiet (quiet (quiet (quiet os1))), Inr s2)"
      "s2 = \<lparr>shm_created = False, shm_key = Some k, shm_addr = Some (next_id os), shm_size = min sz2 sz, shm_sem = Some se2,
         perms = p2\<rparr>" "sem_hdl se2 = Some (Suc (next_id os))"
    using shm_new_open[of ipc_key n k ks sz2 os1 "next_id os" "Suc (next_id os)" p2] new1 assms(1)
    by (auto simp: shm_ready_def)
  then show ?thesis using new1
    by (simp add: p_shm_get_address_def p_shm_get_size_def p_shm_lock_def p_shm_unlock_def p_semaphore_acquire_def
        p_semaphore_release_def sem_loops sem_wait_calm sem_post_def SEM_VALUE_MAX_def)
qed

theorem shm_lock_excludes_witness:
  "\<exists>os1 s1. p_shm_new Some True True sample_os (Some ''m'') 64 P_SHM_ACCESS_READWRITE = (os1, Inr s1) \<and>
    p_shm_get_size (Some s1) = 64"
  using shm_lock_excludes[of Some "''m''" "''m_p_shm_object''" "''m_p_shm_object_p_sem_object''" 64 sample_os 16
      P_SHM_ACCESS_READWRITE P_SHM_ACCESS_READONLY]
  by (auto simp: shm_ready_def sample_os_def P_SHM_SUFFIX_def P_SEM_SUFFIX_def)

text \<open>
  After a crash that left the semaphore of a segment behind but not the segment, opening the segment fails
  once and takes the semaphore's name away; the second attempt succeeds.
\<close>

theorem shm_after_crash:
  assumes "shm_ready ipc_key n k ks sz os" "shm_names os k = None" "sem_names os ks = Some j"
  shows "\<exists>os1. p_shm_new ipc_key True True os (Some n) sz p = (os1, Inl (System ENOENT)) \<and>
    shm_names os1 = shm_names os \<and> sem_names os1 = (sem_names os)(ks := None) \<and>
    (\<exists>os2 s. p_shm_new ipc_key True True os1 (Some n) sz p = (os2, Inr s))"
proof -
  have "sem_names os ks = Some j" "\<not> denied os k" by (use assms in \<open>simp_all add: shm_ready_def\<close>)
  then obtain os1 where fail: "p_shm_new ipc_key True True os (Some n) sz p = (os1, Inl (System ENOENT))"
      "shm_names os1 = shm_names os" "sem_names os1 = (sem_names os)(ks := None)" "denied os1 = denied os" "shm_limit os1 = shm_limit os"
    using assms sem_new_create[of ipc_key k ks
      "(quiet os)\<lparr>shm_names := (shm_names os)(k \<mapsto> next_id os), next_id := Suc (next_id os),
         shm_sizes := (shm_sizes os)(next_id os := sz)\<rparr>" 1 j]
    by (simp add: shm_defs shm_ready_def Let_def fun_upd_idem_iff)
  then have "shm_ready ipc_key n k ks sz os1" using assms(1) by (simp add: shm_ready_def)
  from shm_new_fresh[OF this, of p] fail assms(2) show ?thesis by auto
qed

theorem shm_after_crash_witness:
  "\<exists>os1. p_shm_new (\<lambda>n. Some (if n = ''m_p_shm_object'' then ''/m'' else ''/k'')) True True sample_os (Some ''m'') 64
      P_SHM_ACCESS_READWRITE = (os1, Inl (System ENOENT)) \<and> sem_names os1 = Map.empty"
  using shm_after_crash[of "\<lambda>n. Some (if n = ''m_p_shm_object'' then ''/m'' else ''/k'')" "''m''" "''/m''" "''/k''" 64 sample_os 0
      P_SHM_ACCESS_READWRITE]
  by (auto simp: shm_ready_def sample_os_def P_SHM_SUFFIX_def P_SEM_SUFFIX_def)

end
