(* ===== verification/PSemSysV.thy ===== *)
theory PSemSysV
  imports PSemaphore
begin

text \<open>
  Semaphores on System V systems (\<open>psemaphore-sysv.c\<close>, with the key files of \<open>pipc.c\<close>).  A set of one semaphore
  is found by a key, which \<open>ftok\<close> computes from the inode of a file; the file is made for that purpose.
\<close>

section \<open>The system\<close>

record sysv =
  sv_interrupts :: "nat list"
  sv_denied :: "string \<Rightarrow> bool"
  files :: "string \<Rightarrow> nat option"
  next_inode :: nat
  sem_ids :: "int \<Rightarrow> int option"
  sem_sets :: "int \<Rightarrow> nat option"
  next_sem :: int

text \<open>\<open>open\<close> with \<open>O_CREAT | O_EXCL\<close>, and \<open>unlink\<close>.\<close>

definition open_excl :: "string \<Rightarrow> sysv \<Rightarrow> sysv \<times> (errno + unit)" where
  "open_excl name os =
     (if sv_denied os name then (os, Inl EACCES)
      else (case files os name of
          Some _ \<Rightarrow> (os, Inl EEXIST)
        | None \<Rightarrow> (os\<lparr>files := (files os)(name \<mapsto> next_inode os), next_inode := Suc (next_inode os)\<rparr>, Inr ())))"

definition unlink_file :: "string \<Rightarrow> sysv \<Rightarrow> sysv" where
  "unlink_file name os = os\<lparr>files := (files os)(name := None)\<rparr>"

text \<open>\<open>semget\<close> with \<open>IPC_CREAT | IPC_EXCL\<close> and without; \<open>semctl\<close> with \<open>SETVAL\<close> and \<open>IPC_RMID\<close>.\<close>

definition semget_excl :: "int \<Rightarrow> sysv \<Rightarrow> sysv \<times> (errno + int)" where
  "semget_excl key os =
     (case sem_ids os key of
        Some _ \<Rightarrow> (os, Inl EEXIST)
      | None \<Rightarrow>
          (os\<lparr>sem_ids := (sem_ids os)(key \<mapsto> next_sem os), sem_sets := (sem_sets os)(next_sem os \<mapsto> 0),
             next_sem := next_sem os + 1\<rparr>, Inr (next_sem os)))"

definition semget :: "int \<Rightarrow> sysv \<Rightarrow> errno + int" where
  "semget key os = (case sem_ids os key of None \<Rightarrow> Inl ENOENT | Some i \<Rightarrow> Inr i)"

text \<open>The largest value of a semaphore.\<close>

definition SEMVMX :: nat where "SEMVMX = 32767"

definition semctl_setval :: "int \<Rightarrow> int \<Rightarrow> sysv \<Rightarrow> sysv \<times> (errno + unit)" where
  "semctl_setval i val os =
     (case sem_sets os i of
        None \<Rightarrow> (os, Inl EINVAL)
      | Some _ \<Rightarrow>
          if val < 0 \<or> int SEMVMX < val then (os, Inl ERANGE)
          else (os\<lparr>sem_sets := (sem_sets os)(i \<mapsto> nat val)\<rparr>, Inr ()))"

definition semctl_rmid :: "int \<Rightarrow> sysv \<Rightarrow> sysv" where
  "semctl_rmid i os =
     os\<lparr>sem_sets := (sem_sets os)(i := None), sem_ids := (\<lambda>key. if sem_ids os key = Some i then None else sem_ids os key)\<rparr>"

text \<open>
  \<open>semop\<close> with -1 and +1, each of which a signal can interrupt; \<open>None\<close> if the caller has to wait.  A set that was
  removed gives \<open>EINVAL\<close>, a value that would grow too large \<open>ERANGE\<close>.  The flag \<open>SEM_UNDO\<close> takes effect when a
  process ends, which is not part of the model.
\<close>

definition semop_lock :: "int \<Rightarrow> sysv \<Rightarrow> (sysv \<times> (errno + unit)) option" where
  "semop_lock i os =
     (if due (sv_interrupts os) > 0 then Some (os\<lparr>sv_interrupts := used (sv_interrupts os)\<rparr>, Inl EINTR)
      else (case sem_sets os i of
          None \<Rightarrow> Some (os\<lparr>sv_interrupts := tl (sv_interrupts os)\<rparr>, Inl EINVAL)
        | Some v \<Rightarrow>
            if v = 0 then None
            else Some (os\<lparr>sv_interrupts := tl (sv_interrupts os), sem_sets := (sem_sets os)(i \<mapsto> v - 1)\<rparr>, Inr ())))"

definition semop_unlock :: "int \<Rightarrow> sysv \<Rightarrow> sysv \<times> (errno + unit)" where
  "semop_unlock i os =
     (if due (sv_interrupts os) > 0 then (os\<lparr>sv_interrupts := used (sv_interrupts os)\<rparr>, Inl EINTR)
      else (case sem_sets os i of
          None \<Rightarrow> (os\<lparr>sv_interrupts := tl (sv_interrupts os)\<rparr>, Inl EINVAL)
        | Some v \<Rightarrow>
            if v \<ge> SEMVMX then (os\<lparr>sv_interrupts := tl (sv_interrupts os)\<rparr>, Inl ERANGE)
            else (os\<lparr>sv_interrupts := tl (sv_interrupts os), sem_sets := (sem_sets os)(i \<mapsto> Suc v)\<rparr>, Inr ())))"

section \<open>Key files\<close>

definition p_ipc_unix_create_key_file :: "sysv \<Rightarrow> string option \<Rightarrow> sysv \<times> int" where
  "p_ipc_unix_create_key_file os file_name =
     (case file_name of
        None \<Rightarrow> (os, -1)
      | Some name \<Rightarrow>
          (case open_excl name os of
             (os', Inl e) \<Rightarrow> (os', if e = EEXIST then 1 else -1)
           | (os', Inr _) \<Rightarrow> (os', 0)))"

text \<open>\<open>ftok\<close> is a function of the inode.\<close>

definition p_ipc_unix_get_ftok_key :: "(nat \<Rightarrow> int) \<Rightarrow> sysv \<Rightarrow> string option \<Rightarrow> int" where
  "p_ipc_unix_get_ftok_key ftok os file_name =
     (case file_name of
        None \<Rightarrow> -1
      | Some name \<Rightarrow> (case files os name of None \<Rightarrow> -1 | Some inode \<Rightarrow> ftok inode))"

section \<open>The handle\<close>

record PSemaphoreSysV =
  file_created :: bool
  sv_created :: bool
  unix_key :: int
  sv_key :: "string option"
  sv_hdl :: int
  sv_mode :: PSemaphoreAccessMode
  sv_init :: int

definition pp_semaphore_clean_handle_sysv :: "sysv \<Rightarrow> PSemaphoreSysV \<Rightarrow> sysv \<times> PSemaphoreSysV" where
  "pp_semaphore_clean_handle_sysv os sem =
     (let os1 = (if sv_hdl sem \<noteq> -1 \<and> sv_created sem then semctl_rmid (sv_hdl sem) os else os);
          os2 = (case (file_created sem, sv_key sem) of (True, Some key) \<Rightarrow> unlink_file key os1 | _ \<Rightarrow> os1)
      in (os2, sem\<lparr>file_created := False, sv_created := False, unix_key := -1, sv_hdl := -1\<rparr>))"

definition sysv_fail ::
  "sysv \<Rightarrow> PSemaphoreSysV \<Rightarrow> ipc_failure \<Rightarrow> sysv \<times> PSemaphoreSysV \<times> (ipc_failure + unit)" where
  "sysv_fail os sem err = (case pp_semaphore_clean_handle_sysv os sem of (os', sem') \<Rightarrow> (os', sem', Inl err))"

text \<open>
  The error number reported after a failed \<open>ftok\<close> is that of the last call and left open here (\<open>ENOENT\<close>).
\<close>

definition pp_semaphore_create_handle_sysv ::
  "(nat \<Rightarrow> int) \<Rightarrow> sysv \<Rightarrow> PSemaphoreSysV \<Rightarrow> sysv \<times> PSemaphoreSysV \<times> (ipc_failure + unit)" where
  "pp_semaphore_create_handle_sysv ftok os sem =
     (case sv_key sem of
        None \<Rightarrow> (os, sem, Inl (Library P_ERROR_IPC_INVALID_ARGUMENT))
      | Some key \<Rightarrow>
          (let (os1, built) = p_ipc_unix_create_key_file os (Some key)
           in if built = -1 then sysv_fail os1 sem (System EACCES)
              else
                (let sem1 = (if built = 0 then sem\<lparr>file_created := True\<rparr> else sem);
                     ukey = p_ipc_unix_get_ftok_key ftok os1 (Some key);
                     sem2 = sem1\<lparr>unix_key := ukey\<rparr>
                 in if ukey = -1 then sysv_fail os1 sem2 (System ENOENT)
                    else
                      (let (os2, r) = semget_excl ukey os1;
                           r' = (case r of Inl e \<Rightarrow> if e = EEXIST then semget ukey os2 else Inl e | Inr i \<Rightarrow> Inr i);
                           sem3 = (case r of
                               Inr _ \<Rightarrow> sem2\<lparr>sv_created := True, file_created := (built = 1)\<rparr>
                             | Inl _ \<Rightarrow> sem2)
                       in case r' of
                            Inl e \<Rightarrow> sysv_fail os2 (sem3\<lparr>sv_hdl := -1\<rparr>) (System e)
                          | Inr i \<Rightarrow>
                              (let sem4 = sem3\<lparr>sv_hdl := i\<rparr>
                               in if sv_created sem4 \<or> sv_mode sem4 = P_SEM_ACCESS_CREATE
                                  then (case semctl_setval i (sv_init sem4) os2 of
                                      (os3, Inl e) \<Rightarrow> sysv_fail os3 sem4 (System e)
                                    | (os3, Inr _) \<Rightarrow> (os3, sem4, Inr ()))
                                  else (os2, sem4, Inr ()))))))"

section \<open>The operations\<close>

definition p_semaphore_free_sysv :: "sysv \<Rightarrow> PSemaphoreSysV option \<Rightarrow> sysv" where
  "p_semaphore_free_sysv os sem =
     (case sem of None \<Rightarrow> os | Some s \<Rightarrow> fst (pp_semaphore_clean_handle_sysv os s))"

definition p_semaphore_new_sysv ::
  "(nat \<Rightarrow> int) \<Rightarrow> (string \<Rightarrow> string option) \<Rightarrow> bool \<Rightarrow> bool \<Rightarrow> sysv \<Rightarrow> string option \<Rightarrow> int \<Rightarrow>
   PSemaphoreAccessMode \<Rightarrow> sysv \<times> (ipc_failure + PSemaphoreSysV)" where
  "p_semaphore_new_sysv ftok ipc_key mem mem_name os name init md =
     (case name of
        None \<Rightarrow> (os, Inl (Library P_ERROR_IPC_INVALID_ARGUMENT))
      | Some n \<Rightarrow>
          if init < 0 then (os, Inl (Library P_ERROR_IPC_INVALID_ARGUMENT))
          else if \<not> mem then (os, Inl (Library P_ERROR_IPC_NO_RESOURCES))
          else if \<not> mem_name then (os, Inl (Library P_ERROR_IPC_NO_RESOURCES))
          else
            (let ret = \<lparr>file_created = False, sv_created = False, unix_key = 0, sv_key = ipc_key (n @ P_SEM_SUFFIX),
                        sv_hdl = 0, sv_mode = md, sv_init = init\<rparr>
             in case pp_semaphore_create_handle_sysv ftok os ret of
                  (os1, ret1, Inl err) \<Rightarrow> (p_semaphore_free_sysv os1 (Some ret1), Inl err)
                | (os1, ret1, Inr _) \<Rightarrow> (os1, Inr ret1)))"

definition p_semaphore_take_ownership_sysv :: "PSemaphoreSysV option \<Rightarrow> PSemaphoreSysV option" where
  "p_semaphore_take_ownership_sysv sem = (case sem of None \<Rightarrow> None | Some s \<Rightarrow> Some (s\<lparr>sv_created := True\<rparr>))"

text \<open>The loops around \<open>semop\<close>.\<close>

function semop_lock_loop :: "int \<Rightarrow> sysv \<Rightarrow> (sysv \<times> (errno + unit)) option" where
  "semop_lock_loop i os =
     (case semop_lock i os of
        None \<Rightarrow> None
      | Some (os', Inl e) \<Rightarrow> if e = EINTR then semop_lock_loop i os' else Some (os', Inl e)
      | Some (os', Inr u) \<Rightarrow> Some (os', Inr u))"
  by pat_completeness auto
termination
  by (relation "measure (\<lambda>(i, os). sum_list (sv_interrupts os))") (auto simp: semop_lock_def used_less split: if_splits option.splits)

function semop_unlock_loop :: "int \<Rightarrow> sysv \<Rightarrow> sysv \<times> (errno + unit)" where
  "semop_unlock_loop i os =
     (case semop_unlock i os of
        (os', Inl e) \<Rightarrow> if e = EINTR then semop_unlock_loop i os' else (os', Inl e)
      | (os', Inr u) \<Rightarrow> (os', Inr u))"
  by pat_completeness auto
termination
  by (relation "measure (\<lambda>(i, os). sum_list (sv_interrupts os))") (auto simp: semop_unlock_def used_less split: if_splits option.splits)

declare semop_lock_loop.simps [simp del] semop_unlock_loop.simps [simp del]

text \<open>The result is the system, the object and the error or success; \<open>None\<close> if the caller has to wait.\<close>

definition p_semaphore_acquire_sysv ::
  "(nat \<Rightarrow> int) \<Rightarrow> sysv \<Rightarrow> PSemaphoreSysV option \<Rightarrow> (sysv \<times> PSemaphoreSysV option \<times> (ipc_failure + unit)) option" where
  "p_semaphore_acquire_sysv ftok os sem =
     (case sem of
        None \<Rightarrow> Some (os, None, Inl (Library P_ERROR_IPC_INVALID_ARGUMENT))
      | Some s \<Rightarrow>
          (case semop_lock_loop (sv_hdl s) os of
             None \<Rightarrow> None
           | Some (os1, Inr _) \<Rightarrow> Some (os1, Some s, Inr ())
           | Some (os1, Inl e) \<Rightarrow>
               if e = EINVAL then
                 (let (os2, s2) = pp_semaphore_clean_handle_sysv os1 s
                  in case pp_semaphore_create_handle_sysv ftok os2 s2 of
                       (os3, s3, Inl err) \<Rightarrow> Some (os3, Some s3, Inl err)
                     | (os3, s3, Inr _) \<Rightarrow>
                         (case semop_lock_loop (sv_hdl s3) os3 of
                            None \<Rightarrow> None
                          | Some (os4, Inr _) \<Rightarrow> Some (os4, Some s3, Inr ())
                          | Some (os4, Inl e4) \<Rightarrow> Some (os4, Some s3, Inl (System e4))))
               else Some (os1, Some s, Inl (System e))))"

definition p_semaphore_release_sysv ::
  "(nat \<Rightarrow> int) \<Rightarrow> sysv \<Rightarrow> PSemaphoreSysV option \<Rightarrow> sysv \<times> PSemaphoreSysV option \<times> (ipc_failure + unit)" where
  "p_semaphore_release_sysv ftok os sem =
     (case sem of
        None \<Rightarrow> (os, None, Inl (Library P_ERROR_IPC_INVALID_ARGUMENT))
      | Some s \<Rightarrow>
          (case semop_unlock_loop (sv_hdl s) os of
             (os1, Inr _) \<Rightarrow> (os1, Some s, Inr ())
           | (os1, Inl e) \<Rightarrow>
               if e = EINVAL then
                 (let (os2, s2) = pp_semaphore_clean_handle_sysv os1 s
                  in case pp_semaphore_create_handle_sysv ftok os2 s2 of
                       (os3, s3, Inl err) \<Rightarrow> (os3, Some s3, Inl err)
                     | (os3, s3, Inr _) \<Rightarrow> (os3, Some s3, Inr ()))
               else (os1, Some s, Inl (System e))))"

section \<open>The loops end\<close>

definition calm_sysv :: "sysv \<Rightarrow> sysv" where
  "calm_sysv os = os\<lparr>sv_interrupts := over (sv_interrupts os)\<rparr>"

definition quiet_sysv :: "sysv \<Rightarrow> sysv" where
  "quiet_sysv os = os\<lparr>sv_interrupts := tl (sv_interrupts os)\<rparr>"

lemma quiet_sysv_simps [simp]:
  "sv_denied (quiet_sysv os) = sv_denied os" "files (quiet_sysv os) = files os"
  "next_inode (quiet_sysv os) = next_inode os" "sem_ids (quiet_sysv os) = sem_ids os" "sem_sets (quiet_sysv os) = sem_sets os"
  "next_sem (quiet_sysv os) = next_sem os"
  by (simp_all add: quiet_sysv_def)

interpretation semop_unlock_retry: retried_call "semop_unlock i" "semop_unlock_loop i" "\<lambda>os. due (sv_interrupts os)"
  "\<lambda>os. os\<lparr>sv_interrupts := used (sv_interrupts os)\<rparr>" calm_sysv for i
  by unfold_locales
    (rule semop_unlock_loop.simps, auto simp: semop_unlock_def calm_sysv_def over_same split: if_splits option.splits)

lemma semop_lock_loop_calm: "semop_lock_loop i os = semop_lock i (calm_sysv os)"
proof (induction i os rule: semop_lock_loop.induct)
  case (1 i os)
  show ?case
  proof (cases "due (sv_interrupts os) = 0")
    case True
    then show ?thesis
      by (subst semop_lock_loop.simps) (auto simp: semop_lock_def calm_sysv_def over_same split: option.splits)
  next
    case False
    then have e: "semop_lock i os = Some (os\<lparr>sv_interrupts := used (sv_interrupts os)\<rparr>, Inl EINTR)"
      by (simp add: semop_lock_def)
    then show ?thesis using 1[OF e refl refl refl] by (subst semop_lock_loop.simps) (simp add: calm_sysv_def)
  qed
qed

lemma semop_lock_loop_result:
  "semop_lock_loop i os =
     (case sem_sets os i of
        None \<Rightarrow> Some (quiet_sysv os, Inl EINVAL)
      | Some v \<Rightarrow> if v = 0 then None else Some ((quiet_sysv os)\<lparr>sem_sets := (sem_sets os)(i \<mapsto> v - 1)\<rparr>, Inr ()))"
  by (simp add: semop_lock_loop_calm semop_lock_def calm_sysv_def quiet_sysv_def split: option.split)

lemma semop_unlock_loop_result:
  "semop_unlock_loop i os =
     (case sem_sets os i of
        None \<Rightarrow> (quiet_sysv os, Inl EINVAL)
      | Some v \<Rightarrow>
          if v \<ge> SEMVMX then (quiet_sysv os, Inl ERANGE)
          else ((quiet_sysv os)\<lparr>sem_sets := (sem_sets os)(i \<mapsto> Suc v)\<rparr>, Inr ()))"
  by (simp add: semop_unlock_retry.loop_quiet semop_unlock_def calm_sysv_def quiet_sysv_def split: option.split)

lemmas semop_results = semop_lock_loop_result semop_unlock_loop_result

section \<open>New semaphores\<close>

lemmas sysv_defs = p_semaphore_new_sysv_def pp_semaphore_create_handle_sysv_def p_ipc_unix_create_key_file_def
  p_ipc_unix_get_ftok_key_def open_excl_def semget_excl_def semget_def semctl_setval_def

text \<open>
  A semaphore of a new key: \<open>inode\<close> is that of the key file, which may exist already.
\<close>

lemma sysv_create_new:
  assumes "sv_key s = Some k" "\<not> sv_denied os k" "case files os k of None \<Rightarrow> inode = next_inode os | Some i \<Rightarrow> i = inode"
    and "ftok inode \<noteq> -1" "sem_ids os (ftok inode) = None" "next_sem os \<noteq> -1" "0 \<le> sv_init s" "sv_init s \<le> int SEMVMX"
  shows "\<exists>os'. pp_semaphore_create_handle_sysv ftok os s =
      (os', s\<lparr>file_created := (files os k \<noteq> None), sv_created := True, unix_key := ftok inode, sv_hdl := next_sem os\<rparr>, Inr ()) \<and>
    files os' = (files os)(k \<mapsto> inode) \<and> sem_ids os' = (sem_ids os)(ftok inode \<mapsto> next_sem os) \<and>
    sem_sets os' = (sem_sets os)(next_sem os \<mapsto> nat (sv_init s)) \<and> sv_denied os' = sv_denied os \<and>
    next_sem os' = next_sem os + 1 \<and> sv_interrupts os' = sv_interrupts os"
  using assms
  by (cases "files os k") (simp_all add: sysv_defs Let_def fun_upd_idem)

end
