(* ===== verification/PSemSysVProps.thy ===== *)
theory PSemSysVProps
  imports PSemSysV
begin

text \<open>
  System V semaphores: what happens to the key file, and to a semaphore that another process has removed.
\<close>

lemma sysv_new_new:
  assumes "ipc_key (n @ P_SEM_SUFFIX) = Some k" "0 \<le> init" "init \<le> int SEMVMX" "\<not> sv_denied os k"
    and "case files os k of None \<Rightarrow> inode = next_inode os | Some i \<Rightarrow> i = inode"
    and "ftok inode \<noteq> -1" "sem_ids os (ftok inode) = None" "next_sem os \<noteq> -1"
  shows "\<exists>os' s. p_semaphore_new_sysv ftok ipc_key True True os (Some n) init md = (os', Inr s) \<and>
    s = \<lparr>file_created = (files os k \<noteq> None), sv_created = True, unix_key = ftok inode, sv_key = Some k, sv_hdl = next_sem os,
         sv_mode = md, sv_init = init\<rparr> \<and>
    files os' = (files os)(k \<mapsto> inode) \<and> sem_ids os' = (sem_ids os)(ftok inode \<mapsto> next_sem os) \<and>
    sem_sets os' = (sem_sets os)(next_sem os \<mapsto> nat init) \<and> sv_denied os' = sv_denied os \<and>
    next_sem os' = next_sem os + 1 \<and> sv_interrupts os' = sv_interrupts os"
proof -
  let ?s = "\<lparr>file_created = False, sv_created = False, unix_key = 0, sv_key = Some k, sv_hdl = 0, sv_mode = md, sv_init = init\<rparr>"
  show ?thesis
    using sysv_create_new[of ?s k os inode ftok] assms(1-8)
    by (auto simp: p_semaphore_new_sysv_def)
qed

lemma sysv_free_own:
  assumes "sv_hdl s \<noteq> -1" "sv_created s" "sv_key s = Some k"
  shows "sem_sets (p_semaphore_free_sysv os (Some s)) = (sem_sets os)(sv_hdl s := None) \<and>
    sem_ids (p_semaphore_free_sysv os (Some s)) = (\<lambda>key. if sem_ids os key = Some (sv_hdl s) then None else sem_ids os key) \<and>
    files (p_semaphore_free_sysv os (Some s)) = (if file_created s then (files os)(k := None) else files os) \<and>
    sv_denied (p_semaphore_free_sysv os (Some s)) = sv_denied os \<and> next_sem (p_semaphore_free_sysv os (Some s)) = next_sem os"
  using assms by (simp add: p_semaphore_free_sysv_def pp_semaphore_clean_handle_sysv_def semctl_rmid_def unlink_file_def)

text \<open>
  A process that makes a semaphore of a new name and frees it removes the semaphore, but leaves the key
  file it has made: the flag that says so is cleared when the semaphore is new.  If it does the same again, the
  file is found, taken for a leftover and removed.
\<close>

theorem sysv_key_file_leak:
  assumes "ipc_key (n @ P_SEM_SUFFIX) = Some k" "0 \<le> init" "\<not> sv_denied os k" "files os k = None"
    and "ftok (next_inode os) \<noteq> -1" "sem_ids os (ftok (next_inode os)) = None" "0 \<le> next_sem os" "init \<le> int SEMVMX"
    and "\<forall>key i. sem_ids os key = Some i \<longrightarrow> i < next_sem os"
  shows "\<exists>os1 s1. p_semaphore_new_sysv ftok ipc_key True True os (Some n) init md = (os1, Inr s1) \<and>
    sem_sets os1 (sv_hdl s1) = Some (nat init) \<and>
    (let os2 = p_semaphore_free_sysv os1 (Some s1)
     in sem_ids os2 = sem_ids os \<and> files os2 = (files os)(k \<mapsto> next_inode os) \<and>
       (\<exists>os3 s3. p_semaphore_new_sysv ftok ipc_key True True os2 (Some n) init md = (os3, Inr s3) \<and>
         files (p_semaphore_free_sysv os3 (Some s3)) = files os))"
proof -
  let ?key = "ftok (next_inode os)"
  obtain os1 s1 where new1: "p_semaphore_new_sysv ftok ipc_key True True os (Some n) init md = (os1, Inr s1)"
      "s1 = \<lparr>file_created = False, sv_created = True, unix_key = ?key, sv_key = Some k, sv_hdl = next_sem os, sv_mode = md,
         sv_init = init\<rparr>"
      "files os1 = (files os)(k \<mapsto> next_inode os)" "sem_ids os1 = (sem_ids os)(?key \<mapsto> next_sem os)"
      "sem_sets os1 = (sem_sets os)(next_sem os \<mapsto> nat init)" "sv_denied os1 = sv_denied os" "next_sem os1 = next_sem os + 1"
    using sysv_new_new[of ipc_key n k init os "next_inode os" ftok md] assms(1-8) by auto
  let ?os2 = "p_semaphore_free_sysv os1 (Some s1)"
  have "sv_hdl s1 \<noteq> -1" "sv_created s1" "sv_key s1 = Some k" using new1(2) assms(7) by simp_all
  note free1 = sysv_free_own[OF this, of os1]
  have ids: "sem_ids ?os2 = sem_ids os"
    using free1 new1(2,4) assms(6,9) by (fastforce simp: fun_eq_iff)
  have files2: "files ?os2 = (files os)(k \<mapsto> next_inode os)" using free1 new1(2,3) by simp
  have "sem_ids ?os2 ?key = None" "next_sem ?os2 \<noteq> -1" "\<not> sv_denied ?os2 k"
    using ids assms(3,6,7) free1 new1(6,7) by simp_all
  then obtain os3 s3 where new3: "p_semaphore_new_sysv ftok ipc_key True True ?os2 (Some n) init md = (os3, Inr s3)"
      "file_created s3" "sv_created s3" "sv_key s3 = Some k" "sv_hdl s3 = next_sem ?os2" "files os3 = (files os)(k \<mapsto> next_inode os)"
    using sysv_new_new[of ipc_key n k init ?os2 "next_inode os" ftok md] assms(1,2,5,8) files2 by auto
  have "files (p_semaphore_free_sysv os3 (Some s3)) = files os"
    using sysv_free_own[of s3 k os3] new3 assms(4,7) free1 new1(7) by (simp add: fun_upd_idem)
  moreover have "sem_sets os1 (sv_hdl s1) = Some (nat init)" using new1(2,5) by simp
  ultimately show ?thesis using new1(1) ids files2 new3(1) by (auto simp: Let_def)
qed

definition sample_sysv :: sysv where
  "sample_sysv = \<lparr>sv_interrupts = [2, 0, 1], sv_denied = (\<lambda>_. False), files = Map.empty, next_inode = 7, sem_ids = Map.empty,
     sem_sets = Map.empty, next_sem = 0\<rparr>"

theorem sysv_key_file_leak_witness:
  "\<exists>os1 s1. p_semaphore_new_sysv int Some True True sample_sysv (Some ''a'') 1 P_SEM_ACCESS_OPEN = (os1, Inr s1) \<and>
    files (p_semaphore_free_sysv os1 (Some s1)) = [''a_p_sem_object'' \<mapsto> 7]"
  using sysv_key_file_leak[of Some "''a''" "''a_p_sem_object''" 1 sample_sysv int P_SEM_ACCESS_OPEN]
  by (auto simp: sample_sysv_def P_SEM_SUFFIX_def Let_def SEMVMX_def)

text \<open>
  When another process has removed the set, releasing makes a new one with the initial value and reports
  success, but the release itself is not counted; acquiring makes a new one too and then takes from it.
\<close>

theorem sysv_removed_set:
  assumes "sv_key s = Some k" "\<not> sv_created s" "\<not> file_created s" "sem_sets os (sv_hdl s) = None"
    and "\<not> sv_denied os k" "files os k = Some inode" "ftok inode \<noteq> -1" "sem_ids os (ftok inode) = None" "next_sem os \<noteq> -1"
    and "0 < sv_init s" "sv_init s \<le> int SEMVMX"
  shows "\<exists>os1 s1. p_semaphore_release_sysv ftok os (Some s) = (os1, Some s1, Inr ()) \<and>
      sem_sets os1 (sv_hdl s1) = Some (nat (sv_init s)) \<and> sem_ids os1 (ftok inode) = Some (sv_hdl s1) \<and>
    (\<exists>os2 s2. p_semaphore_acquire_sysv ftok os (Some s) = Some (os2, Some s2, Inr ()) \<and>
      sem_sets os2 (sv_hdl s2) = Some (nat (sv_init s) - 1))"
proof -
  let ?os = "quiet_sysv os"
  let ?s = "s\<lparr>file_created := False, sv_created := False, unix_key := -1, sv_hdl := -1\<rparr>"
  have clean: "pp_semaphore_clean_handle_sysv ?os s = (?os, ?s)"
    using assms(2,3) by (simp add: pp_semaphore_clean_handle_sysv_def)
  obtain os' where new: "pp_semaphore_create_handle_sysv ftok ?os ?s =
      (os', ?s\<lparr>file_created := True, sv_created := True, unix_key := ftok inode, sv_hdl := next_sem os\<rparr>, Inr ())"
      "sem_ids os' = (sem_ids os)(ftok inode \<mapsto> next_sem os)" "sem_sets os' = (sem_sets os)(next_sem os \<mapsto> nat (sv_init s))"
    using sysv_create_new[of ?s k ?os inode ftok] assms(1,5-11) by auto
  have "semop_unlock_loop (sv_hdl s) os = (?os, Inl EINVAL)" "semop_lock_loop (sv_hdl s) os = Some (?os, Inl EINVAL)"
    using assms(4) by (simp_all add: semop_results)
  moreover have "semop_lock_loop (next_sem os) os' =
      Some ((quiet_sysv os')\<lparr>sem_sets := (sem_sets os')(next_sem os \<mapsto> nat (sv_init s) - 1)\<rparr>, Inr ())"
    using new(3) assms(10) by (simp add: semop_results)
  ultimately show ?thesis using new
    by (simp add: p_semaphore_release_sysv_def p_semaphore_acquire_sysv_def clean)
qed

theorem sysv_removed_set_witness:
  "\<exists>os1 s1. p_semaphore_release_sysv int (sample_sysv\<lparr>files := [''k'' \<mapsto> 5]\<rparr>)
      (Some \<lparr>file_created = False, sv_created = False, unix_key = 5, sv_key = Some ''k'', sv_hdl = 3,
         sv_mode = P_SEM_ACCESS_OPEN, sv_init = 2\<rparr>) = (os1, Some s1, Inr ()) \<and> sem_sets os1 (sv_hdl s1) = Some 2"
  using sysv_removed_set[of "\<lparr>file_created = False, sv_created = False, unix_key = 5, sv_key = Some ''k'', sv_hdl = 3,
         sv_mode = P_SEM_ACCESS_OPEN, sv_init = 2\<rparr>" "''k''" "sample_sysv\<lparr>files := [''k'' \<mapsto> 5]\<rparr>" 5 int]
  by (auto simp: sample_sysv_def SEMVMX_def)

end
