(* ===== verification/PSocketAddress.thy ===== *)
theory PSocketAddress
  imports PBytes
begin

unbundle bit_operations_syntax

text \<open>
  Socket addresses, \<open>psocketaddress.c\<close>, with \<open>AF_INET6\<close> defined.  A native address is what the system keeps in
  a \<open>struct sockaddr_in\<close> or \<open>struct sockaddr_in6\<close>; what a configuration fixes (byte order, sizes of the two
  structures, whether the IPv6 one has the flow label and the scope) is a record that the operations take.
  Conversion of text to an address and back is done by the system (\<open>inet_pton\<close>, \<open>getaddrinfo\<close>, \<open>inet_ntop\<close>)
  and is an argument.
\<close>

section \<open>Types\<close>

datatype PSocketFamily = P_SOCKET_FAMILY_UNKNOWN | P_SOCKET_FAMILY_INET | P_SOCKET_FAMILY_INET6

record socket_system =
  big_endian :: bool
  sizeof_sockaddr_in :: nat
  sizeof_sockaddr_in6 :: nat
  has_flowinfo :: bool
  has_scopeid :: bool
  has_getaddrinfo :: bool

text \<open>The port is the 16-bit number the host reads from the two bytes of the structure.\<close>

datatype sockaddr =
    sockaddr_in "16 word" "byte list"
  | sockaddr_in6 "16 word" "32 word" "byte list" "32 word"
  | sockaddr_other "16 word"

record PSocketAddress =
  family :: PSocketFamily
  addr :: "byte list"
  port :: "16 word"
  flowinfo :: "32 word"
  scope_id :: "32 word"

text \<open>What \<open>p_malloc0\<close> gives: 16 bytes of the union, all zero.\<close>

definition zero_address :: PSocketAddress where
  "zero_address = \<lparr>family = P_SOCKET_FAMILY_UNKNOWN, addr = replicate 16 0, port = 0, flowinfo = 0, scope_id = 0\<rparr>"

section \<open>Byte order\<close>

definition PUINT16_SWAP_BYTES :: "16 word \<Rightarrow> 16 word" where
  "PUINT16_SWAP_BYTES val = drop_bit 8 val OR push_bit 8 val"

definition PUINT16_TO_BE :: "bool \<Rightarrow> 16 word \<Rightarrow> 16 word" where
  "PUINT16_TO_BE big val = (if big then val else PUINT16_SWAP_BYTES val)"

definition p_htons :: "bool \<Rightarrow> 16 word \<Rightarrow> 16 word" where
  "p_htons big val = PUINT16_TO_BE big val"

definition p_ntohs :: "bool \<Rightarrow> 16 word \<Rightarrow> 16 word" where
  "p_ntohs big val = PUINT16_TO_BE big val"

definition p_ntohl :: "bool \<Rightarrow> 32 word \<Rightarrow> 32 word" where
  "p_ntohl big val = PUINT32_TO_BE big val"

section \<open>Conversion from and to native addresses\<close>

definition p_socket_address_new_from_native ::
  "socket_system \<Rightarrow> bool \<Rightarrow> sockaddr option \<Rightarrow> nat \<Rightarrow> PSocketAddress option" where
  "p_socket_address_new_from_native sys alloc native len =
     (case native of
        None \<Rightarrow> None
      | Some sa \<Rightarrow>
          if len = 0 then None
          else if \<not> alloc then None
          else (case sa of
              sockaddr_in sin_port sin_addr \<Rightarrow>
                if len < sizeof_sockaddr_in sys then None
                else Some (zero_address\<lparr>addr := copy_at (addr zero_address) 0 sin_addr,
                                        family := P_SOCKET_FAMILY_INET,
                                        port := p_ntohs (big_endian sys) sin_port\<rparr>)
            | sockaddr_in6 sin_port sin6_flowinfo sin6_addr sin6_scope_id \<Rightarrow>
                if len < sizeof_sockaddr_in6 sys then None
                else Some (zero_address\<lparr>addr := copy_at (addr zero_address) 0 sin6_addr,
                                        family := P_SOCKET_FAMILY_INET6,
                                        port := p_ntohs (big_endian sys) sin_port,
                                        flowinfo := (if has_flowinfo sys then sin6_flowinfo else 0),
                                        scope_id := (if has_scopeid sys then sin6_scope_id else 0)\<rparr>)
            | sockaddr_other _ \<Rightarrow> None))"

definition p_socket_address_to_native ::
  "socket_system \<Rightarrow> PSocketAddress option \<Rightarrow> bool \<Rightarrow> nat \<Rightarrow> sockaddr option" where
  "p_socket_address_to_native sys address dest destlen =
     (case address of
        None \<Rightarrow> None
      | Some a \<Rightarrow>
          if \<not> dest \<or> destlen = 0 then None
          else if family a = P_SOCKET_FAMILY_INET then
            (if destlen < sizeof_sockaddr_in sys then None
             else Some (sockaddr_in (p_htons (big_endian sys) (port a)) (take 4 (addr a))))
          else if family a = P_SOCKET_FAMILY_INET6 then
            (if destlen < sizeof_sockaddr_in6 sys then None
             else Some (sockaddr_in6 (p_htons (big_endian sys) (port a))
                          (if has_flowinfo sys then flowinfo a else 0)
                          (take 16 (addr a))
                          (if has_scopeid sys then scope_id a else 0)))
          else None)"

definition p_socket_address_get_native_size :: "socket_system \<Rightarrow> PSocketAddress option \<Rightarrow> nat" where
  "p_socket_address_get_native_size sys address =
     (case address of
        None \<Rightarrow> 0
      | Some a \<Rightarrow>
          if family a = P_SOCKET_FAMILY_INET then sizeof_sockaddr_in sys
          else if family a = P_SOCKET_FAMILY_INET6 then sizeof_sockaddr_in6 sys
          else 0)"

section \<open>Constructors\<close>

text \<open>The system's answer to \<open>getaddrinfo\<close>: the family and the length it names, and the address.\<close>

record addrinfo =
  ai_inet6 :: bool
  ai_addrlen :: nat
  ai_addr :: sockaddr

fun set_sin6_port :: "16 word \<Rightarrow> sockaddr \<Rightarrow> sockaddr" where
  "set_sin6_port p (sockaddr_in6 _ f a s) = sockaddr_in6 p f a s"
| "set_sin6_port p (sockaddr_in _ a) = sockaddr_in p a"
| "set_sin6_port p (sockaddr_other f) = sockaddr_other f"

definition p_socket_address_new ::
  "socket_system \<Rightarrow> bool \<Rightarrow> (string \<Rightarrow> addrinfo option) \<Rightarrow> (PSocketFamily \<Rightarrow> string \<Rightarrow> byte list option) \<Rightarrow>
   string option \<Rightarrow> 16 word \<Rightarrow> PSocketAddress option" where
  "p_socket_address_new sys alloc getaddrinfo inet_pton address prt =
     (case address of
        None \<Rightarrow> None
      | Some text \<Rightarrow>
          if has_getaddrinfo sys \<and> CHR '':'' \<in> set text then
            (case getaddrinfo text of
               None \<Rightarrow> None
             | Some res \<Rightarrow>
                 if ai_inet6 res \<and> ai_addrlen res = sizeof_sockaddr_in6 sys then
                   p_socket_address_new_from_native sys alloc
                     (Some (set_sin6_port (p_htons (big_endian sys) prt) (ai_addr res))) (ai_addrlen res)
                 else None)
          else if \<not> alloc then None
          else (let ret = zero_address\<lparr>port := prt\<rparr> in
            case inet_pton P_SOCKET_FAMILY_INET text of
              Some bs \<Rightarrow> Some (ret\<lparr>addr := copy_at (addr ret) 0 bs, family := P_SOCKET_FAMILY_INET\<rparr>)
            | None \<Rightarrow>
                (case inet_pton P_SOCKET_FAMILY_INET6 text of
                   Some bs \<Rightarrow> Some (ret\<lparr>addr := copy_at (addr ret) 0 bs, family := P_SOCKET_FAMILY_INET6\<rparr>)
                 | None \<Rightarrow> None)))"

definition IN6ADDR_LOOPBACK_INIT :: "byte list" where
  "IN6ADDR_LOOPBACK_INIT = replicate 15 0 @ [1]"

definition p_socket_address_new_any :: "bool \<Rightarrow> PSocketFamily \<Rightarrow> 16 word \<Rightarrow> PSocketAddress option" where
  "p_socket_address_new_any alloc fam prt =
     (if \<not> alloc then None
      else if fam = P_SOCKET_FAMILY_INET then
        Some (zero_address\<lparr>addr := copy_at (addr zero_address) 0 [0, 0, 0, 0], family := fam, port := prt\<rparr>)
      else if fam = P_SOCKET_FAMILY_INET6 then
        Some (zero_address\<lparr>addr := copy_at (addr zero_address) 0 (replicate 16 0), family := fam, port := prt\<rparr>)
      else None)"

definition p_socket_address_new_loopback :: "bool \<Rightarrow> PSocketFamily \<Rightarrow> 16 word \<Rightarrow> PSocketAddress option" where
  "p_socket_address_new_loopback alloc fam prt =
     (if \<not> alloc then None
      else if fam = P_SOCKET_FAMILY_INET then
        Some (zero_address\<lparr>addr := copy_at (addr zero_address) 0 [127, 0, 0, 0], family := fam, port := prt\<rparr>)
      else if fam = P_SOCKET_FAMILY_INET6 then
        Some (zero_address\<lparr>addr := copy_at (addr zero_address) 0 IN6ADDR_LOOPBACK_INIT, family := fam, port := prt\<rparr>)
      else None)"

section \<open>Queries and updates\<close>

definition p_socket_address_get_family :: "PSocketAddress option \<Rightarrow> PSocketFamily" where
  "p_socket_address_get_family address =
     (case address of None \<Rightarrow> P_SOCKET_FAMILY_UNKNOWN | Some a \<Rightarrow> family a)"

definition p_socket_address_get_address ::
  "(PSocketFamily \<Rightarrow> byte list \<Rightarrow> string) \<Rightarrow> PSocketAddress option \<Rightarrow> string option" where
  "p_socket_address_get_address inet_ntop address =
     (case address of
        None \<Rightarrow> None
      | Some a \<Rightarrow>
          if family a = P_SOCKET_FAMILY_UNKNOWN then None
          else if family a = P_SOCKET_FAMILY_INET then Some (inet_ntop P_SOCKET_FAMILY_INET (take 4 (addr a)))
          else Some (inet_ntop P_SOCKET_FAMILY_INET6 (take 16 (addr a))))"

definition p_socket_address_get_port :: "PSocketAddress option \<Rightarrow> 16 word" where
  "p_socket_address_get_port address = (case address of None \<Rightarrow> 0 | Some a \<Rightarrow> port a)"

definition p_socket_address_get_flow_info :: "socket_system \<Rightarrow> PSocketAddress option \<Rightarrow> 32 word" where
  "p_socket_address_get_flow_info sys address =
     (case address of
        None \<Rightarrow> 0
      | Some a \<Rightarrow>
          if \<not> has_flowinfo sys then 0
          else if family a \<noteq> P_SOCKET_FAMILY_INET6 then 0
          else flowinfo a)"

definition p_socket_address_get_scope_id :: "socket_system \<Rightarrow> PSocketAddress option \<Rightarrow> 32 word" where
  "p_socket_address_get_scope_id sys address =
     (case address of
        None \<Rightarrow> 0
      | Some a \<Rightarrow>
          if \<not> has_scopeid sys then 0
          else if family a \<noteq> P_SOCKET_FAMILY_INET6 then 0
          else scope_id a)"

definition p_socket_address_set_flow_info ::
  "socket_system \<Rightarrow> 32 word \<Rightarrow> PSocketAddress option \<Rightarrow> PSocketAddress option" where
  "p_socket_address_set_flow_info sys v address =
     (case address of
        None \<Rightarrow> None
      | Some a \<Rightarrow>
          if \<not> has_flowinfo sys then Some a
          else if family a \<noteq> P_SOCKET_FAMILY_INET6 then Some a
          else Some (a\<lparr>flowinfo := v\<rparr>))"

definition p_socket_address_set_scope_id ::
  "socket_system \<Rightarrow> 32 word \<Rightarrow> PSocketAddress option \<Rightarrow> PSocketAddress option" where
  "p_socket_address_set_scope_id sys v address =
     (case address of
        None \<Rightarrow> None
      | Some a \<Rightarrow>
          if \<not> has_scopeid sys then Some a
          else if family a \<noteq> P_SOCKET_FAMILY_INET6 then Some a
          else Some (a\<lparr>scope_id := v\<rparr>))"

definition p_socket_address_is_flow_info_supported :: "socket_system \<Rightarrow> bool" where
  "p_socket_address_is_flow_info_supported sys = has_flowinfo sys"

definition p_socket_address_is_scope_id_supported :: "socket_system \<Rightarrow> bool" where
  "p_socket_address_is_scope_id_supported sys = has_scopeid sys"

definition IN6_IS_ADDR_UNSPECIFIED :: "byte list \<Rightarrow> bool" where
  "IN6_IS_ADDR_UNSPECIFIED bs \<longleftrightarrow> take 16 bs = replicate 16 0"

definition IN6_IS_ADDR_LOOPBACK :: "byte list \<Rightarrow> bool" where
  "IN6_IS_ADDR_LOOPBACK bs \<longleftrightarrow> take 16 bs = IN6ADDR_LOOPBACK_INIT"

text \<open>The four bytes of an IPv4 address, read as a 32-bit number.\<close>

definition addr4 :: "socket_system \<Rightarrow> PSocketAddress \<Rightarrow> 32 word" where
  "addr4 sys a = p_ntohl (big_endian sys) (word_of (big_endian sys) (take 4 (addr a)))"

definition p_socket_address_is_any :: "socket_system \<Rightarrow> PSocketAddress option \<Rightarrow> bool" where
  "p_socket_address_is_any sys address =
     (case address of
        None \<Rightarrow> False
      | Some a \<Rightarrow>
          if family a = P_SOCKET_FAMILY_UNKNOWN then False
          else if family a = P_SOCKET_FAMILY_INET then addr4 sys a = 0
          else IN6_IS_ADDR_UNSPECIFIED (addr a))"

definition p_socket_address_is_loopback :: "socket_system \<Rightarrow> PSocketAddress option \<Rightarrow> bool" where
  "p_socket_address_is_loopback sys address =
     (case address of
        None \<Rightarrow> False
      | Some a \<Rightarrow>
          if family a = P_SOCKET_FAMILY_UNKNOWN then False
          else if family a = P_SOCKET_FAMILY_INET then addr4 sys a AND 0xff000000 = 0x7f000000
          else IN6_IS_ADDR_LOOPBACK (addr a))"

end
