(* ===== verification/PSocketAddressProps.thy ===== *)
theory PSocketAddressProps
  imports PSocketAddress
begin

unbundle bit_operations_syntax

text \<open>
  Properties of socket addresses: every address the constructors give, and every update of it, is well formed;
  well-formed addresses survive the trip through the system's structures; the tests for the two special
  addresses look at the right bytes.
\<close>

section \<open>Byte order of ports and IPv4 addresses\<close>

lemma swap16_bits:
  assumes "q < 2" "j < 8"
  shows "bit (PUINT16_SWAP_BYTES v) (8 * q + j) \<longleftrightarrow> bit v (8 * (2 - 1 - q) + j)"
proof -
  have "q = 0 \<or> q = 1" using assms(1) by arith
  then show ?thesis using assms(2) unfolding PUINT16_SWAP_BYTES_def
    by (elim disjE; simp add: bit_simps bit_beyond)
qed

lemma PUINT16_SWAP_reverses: "bytes_le (PUINT16_SWAP_BYTES w) = rev (bytes_le w)"
  using byte_reversal(2)[of 2 PUINT16_SWAP_BYTES] swap16_bits by simp

lemma PUINT16_SWAP_twice [simp]: "PUINT16_SWAP_BYTES (PUINT16_SWAP_BYTES w) = w"
proof (rule bit_word_eqI)
  fix n assume "n < LENGTH(16)"
  then have n: "n < 16" by simp
  let ?q = "n div 8" and ?j = "n mod 8"
  have q: "?q < 2" and j: "?j < 8" using n by auto
  have q': "2 - 1 - ?q < 2" by arith
  have "bit (PUINT16_SWAP_BYTES (PUINT16_SWAP_BYTES w)) (8 * ?q + ?j) \<longleftrightarrow> bit w (8 * (2 - 1 - (2 - 1 - ?q)) + ?j)"
    using swap16_bits[OF q j] swap16_bits[OF q' j] by simp
  moreover have "2 - 1 - (2 - 1 - ?q) = ?q" using q by arith
  ultimately show "bit (PUINT16_SWAP_BYTES (PUINT16_SWAP_BYTES w)) n \<longleftrightarrow> bit w n" by simp
qed

lemma ntohs_htons [simp]: "p_ntohs big (p_htons big p) = p"
  by (simp add: p_ntohs_def p_htons_def PUINT16_TO_BE_def)

lemma bytes_le_16: "bytes_le (w :: 16 word) = [ucast w, ucast (drop_bit 8 w)]"
  by (simp add: bytes_le_def upt_conv_Cons)

text \<open>The bytes of a port in the structure are in network order, whatever the byte order of the host.\<close>

lemma bytes_htons: "bytes_of big (p_htons big p) = [ucast (drop_bit 8 p), ucast p]"
  by (simp add: bytes_of_def p_htons_def PUINT16_TO_BE_def PUINT16_SWAP_reverses bytes_le_16 [of p])

lemma ntohl_bytes:
  "length bs = 4 \<Longrightarrow> p_ntohl big (word_of big bs) = word_le (rev bs)"
  by (simp add: p_ntohl_def PUINT32_TO_BE_def word_of_def PUINT32_SWAP_reverses)

lemma word_le_zero_iff:
  assumes "length bs = 4"
  shows "(word_le bs :: 32 word) = 0 \<longleftrightarrow> bs = replicate 4 0"
proof
  assume z: "(word_le bs :: 32 word) = 0"
  show "bs = replicate 4 0"
  proof (rule nth_equalityI)
    fix i assume "i < length bs"
    then have i: "i < 4" using assms by simp
    have "bs ! i = 0"
    proof (rule bit_word_eqI)
      fix j assume "j < LENGTH(8)"
      then have j: "j < 8" by simp
      have "bit (word_le bs :: 32 word) (8 * i + j) \<longleftrightarrow> bit (bs ! i) j"
        using i j assms by (simp add: bit_word_le)
      then show "bit (bs ! i) j \<longleftrightarrow> bit (0 :: byte) j" using z by simp
    qed
    then show "bs ! i = replicate 4 0 ! i" using i by simp
  qed (simp add: assms)
qed (simp add: numeral_eq_Suc)

lemma top_byte:
  assumes "length bs = 4"
  shows "(word_le (rev bs) :: 32 word) AND 0xff000000 = 0x7f000000 \<longleftrightarrow> hd bs = 127"
proof -
  have mask: "(0xff000000 :: 32 word) = push_bit 24 (mask 8)" by (simp add: mask_eq_exp_minus_1)
  have val: "(0x7f000000 :: 32 word) = push_bit 24 (ucast (127 :: byte))" by simp
  have b: "bit (word_le (rev bs) :: 32 word) (24 + j) \<longleftrightarrow> bit (hd bs) j" if "j < 8" for j
  proof -
    have "(24 + j) div 8 = 3" "(24 + j) mod 8 = j" using that by presburger+
    then show ?thesis using that assms by (cases bs) (auto simp: bit_word_le nth_append)
  qed
  have "(word_le (rev bs) :: 32 word) AND push_bit 24 (mask 8) = push_bit 24 (ucast (hd bs))"
  proof (rule bit_word_eqI)
    fix n assume "n < LENGTH(32)"
    then have n: "n < 32" by simp
    show "bit ((word_le (rev bs) :: 32 word) AND push_bit 24 (mask 8)) n \<longleftrightarrow> bit (push_bit 24 (ucast (hd bs)) :: 32 word) n"
    proof (cases "24 \<le> n")
      case True
      then obtain j where "n = 24 + j" using le_Suc_ex by blast
      then show ?thesis using n b[of j] by (simp add: bit_simps)
    next
      case False
      then show ?thesis by (simp add: bit_simps)
    qed
  qed
  moreover have "(push_bit 24 (ucast (hd bs)) :: 32 word) = push_bit 24 (ucast (127 :: byte)) \<longleftrightarrow> hd bs = 127"
  proof
    assume e: "(push_bit 24 (ucast (hd bs)) :: 32 word) = push_bit 24 (ucast (127 :: byte))"
    show "hd bs = 127"
    proof (rule bit_word_eqI)
      fix j assume "j < LENGTH(8)"
      then have sh: "bit (push_bit 24 (ucast v) :: 32 word) (24 + j) \<longleftrightarrow> bit v j" for v :: byte
        by (simp add: bit_simps)
      show "bit (hd bs) j \<longleftrightarrow> bit (127 :: byte) j" by (metis sh e)
    qed
  qed simp
  ultimately show ?thesis unfolding mask val by simp
qed

section \<open>Well-formed addresses\<close>

text \<open>
  What the operations keep: 16 bytes, a known family, no bytes behind an IPv4 address, and no flow label or
  scope where the family or the system has none.
\<close>

definition wf_address :: "socket_system \<Rightarrow> PSocketAddress \<Rightarrow> bool" where
  "wf_address sys a \<longleftrightarrow>
     length (addr a) = 16 \<and> family a \<noteq> P_SOCKET_FAMILY_UNKNOWN \<and>
     (family a = P_SOCKET_FAMILY_INET \<longrightarrow> drop 4 (addr a) = replicate 12 0 \<and> flowinfo a = 0 \<and> scope_id a = 0) \<and>
     (\<not> has_flowinfo sys \<longrightarrow> flowinfo a = 0) \<and> (\<not> has_scopeid sys \<longrightarrow> scope_id a = 0)"

text \<open>What the system promises of an address it gives: as many bytes as its structure has.\<close>

fun wf_native :: "sockaddr \<Rightarrow> bool" where
  "wf_native (sockaddr_in p a) \<longleftrightarrow> length a = 4"
| "wf_native (sockaddr_in6 p f a s) \<longleftrightarrow> length a = 16"
| "wf_native (sockaddr_other f) \<longleftrightarrow> True"

lemma wf_zero [simp]:
  "addr zero_address = replicate 16 0" "flowinfo zero_address = 0" "scope_id zero_address = 0"
  by (simp_all add: zero_address_def)

lemma copy_zero:
  "length bs = 4 \<Longrightarrow> copy_at (replicate 16 (0 :: byte)) 0 bs = bs @ replicate 12 0"
  "length bs = 16 \<Longrightarrow> copy_at (replicate 16 (0 :: byte)) 0 bs = bs"
  by (simp_all add: copy_at_def)

lemma from_native_wf:
  assumes "p_socket_address_new_from_native sys alloc (Some sa) len = Some a" "wf_native sa"
  shows "wf_address sys a"
  using assms
  by (cases sa) (auto simp: p_socket_address_new_from_native_def wf_address_def copy_zero split: if_splits)

lemma set_port_wf: "wf_native (set_sin6_port p sa) \<longleftrightarrow> wf_native sa"
  by (cases sa) auto

lemma new_wf:
  assumes a: "p_socket_address_new sys alloc gai pton address prt = Some a"
    and gai: "\<And>t r. gai t = Some r \<Longrightarrow> wf_native (ai_addr r)"
    and p4: "\<And>t bs. pton P_SOCKET_FAMILY_INET t = Some bs \<Longrightarrow> length bs = 4"
    and p6: "\<And>t bs. pton P_SOCKET_FAMILY_INET6 t = Some bs \<Longrightarrow> length bs = 16"
  shows "wf_address sys a"
proof (cases address)
  case None
  then show ?thesis using a by (simp add: p_socket_address_new_def)
next
  case (Some t)
  show ?thesis
  proof (cases "has_getaddrinfo sys \<and> CHR '':'' \<in> set t")
    case True
    then show ?thesis using a Some gai
      by (auto simp: p_socket_address_new_def set_port_wf split: option.splits if_splits intro: from_native_wf)
  next
    case False
    then have "(\<exists>bs. pton P_SOCKET_FAMILY_INET t = Some bs \<and>
                  a = zero_address\<lparr>port := prt, addr := copy_at (replicate 16 0) 0 bs, family := P_SOCKET_FAMILY_INET\<rparr>) \<or>
               (\<exists>bs. pton P_SOCKET_FAMILY_INET6 t = Some bs \<and>
                  a = zero_address\<lparr>port := prt, addr := copy_at (replicate 16 0) 0 bs, family := P_SOCKET_FAMILY_INET6\<rparr>)"
      using a Some
      by (auto simp: p_socket_address_new_def Let_def simp del: replicate.simps split: if_splits option.splits)
    then show ?thesis
      by (elim disjE exE conjE) (auto simp: wf_address_def copy_zero dest: p4 p6)
  qed
qed

lemma any_wf: "p_socket_address_new_any alloc fam prt = Some a \<Longrightarrow> wf_address sys a"
  by (auto simp: p_socket_address_new_any_def wf_address_def copy_at_def numeral_eq_Suc split: if_splits)

lemma loopback_wf: "p_socket_address_new_loopback alloc fam prt = Some a \<Longrightarrow> wf_address sys a"
  by (auto simp: p_socket_address_new_loopback_def wf_address_def copy_at_def IN6ADDR_LOOPBACK_INIT_def
      numeral_eq_Suc split: if_splits)

lemma set_wf:
  "wf_address sys a \<Longrightarrow> p_socket_address_set_flow_info sys v (Some a) = Some b \<Longrightarrow> wf_address sys b"
  "wf_address sys a \<Longrightarrow> p_socket_address_set_scope_id sys v (Some a) = Some b \<Longrightarrow> wf_address sys b"
  by (auto simp: p_socket_address_set_flow_info_def p_socket_address_set_scope_id_def wf_address_def split: if_splits)

lemma wf_addr4:
  assumes "wf_address sys a"
  shows "addr4 sys a = word_le (rev (take 4 (addr a)))"
  using assms by (simp add: addr4_def ntohl_bytes wf_address_def)

section \<open>The addresses a program can make\<close>

inductive made :: "socket_system \<Rightarrow> PSocketAddress \<Rightarrow> bool" for sys where
  native: "wf_native sa \<Longrightarrow> p_socket_address_new_from_native sys alloc (Some sa) len = Some a \<Longrightarrow> made sys a"
| of_text: "(\<And>t r. gai t = Some r \<Longrightarrow> wf_native (ai_addr r)) \<Longrightarrow>
    (\<And>t bs. pton P_SOCKET_FAMILY_INET t = Some bs \<Longrightarrow> length bs = 4) \<Longrightarrow>
    (\<And>t bs. pton P_SOCKET_FAMILY_INET6 t = Some bs \<Longrightarrow> length bs = 16) \<Longrightarrow>
    p_socket_address_new sys alloc gai pton address prt = Some a \<Longrightarrow> made sys a"
| any: "p_socket_address_new_any alloc fam prt = Some a \<Longrightarrow> made sys a"
| loopback: "p_socket_address_new_loopback alloc fam prt = Some a \<Longrightarrow> made sys a"
| flow_info: "made sys a \<Longrightarrow> p_socket_address_set_flow_info sys v (Some a) = Some b \<Longrightarrow> made sys b"
| scope_id: "made sys a \<Longrightarrow> p_socket_address_set_scope_id sys v (Some a) = Some b \<Longrightarrow> made sys b"

lemma made_wf: "made sys a \<Longrightarrow> wf_address sys a"
proof (induction rule: made.induct)
  case (native sa alloc len a)
  then show ?case by (blast intro: from_native_wf)
next
  case (of_text gai pton alloc address prt a)
  then show ?case by (blast intro: new_wf)
qed (blast intro: any_wf loopback_wf set_wf)+

lemma wf_cases:
  assumes "wf_address sys a"
  obtains (inet) bs where "family a = P_SOCKET_FAMILY_INET" "length bs = 4" "addr a = bs @ replicate 12 0"
      "flowinfo a = 0" "scope_id a = 0"
    | (inet6) "family a = P_SOCKET_FAMILY_INET6" "length (addr a) = 16"
proof (cases "family a")
  case P_SOCKET_FAMILY_UNKNOWN
  then show ?thesis using assms by (simp add: wf_address_def)
next
  case P_SOCKET_FAMILY_INET
  then show ?thesis using assms inet[of "take 4 (addr a)"]
    by (simp add: wf_address_def del: replicate.simps) (metis append_take_drop_id)
next
  case P_SOCKET_FAMILY_INET6
  then show ?thesis using assms inet6 by (simp add: wf_address_def)
qed

definition ip_bytes :: "PSocketAddress \<Rightarrow> byte list" where
  "ip_bytes a = (if family a = P_SOCKET_FAMILY_INET then take 4 (addr a) else addr a)"

lemma set_singleton_replicate: "0 < n \<Longrightarrow> length xs = n \<Longrightarrow> set xs = {x} \<longleftrightarrow> xs = replicate n x"
  by (metis replicate_eqI set_replicate singletonD not_less0)

lemma any_iff:
  assumes wf: "wf_address sys a"
  shows "p_socket_address_is_any sys (Some a) \<longleftrightarrow> set (ip_bytes a) = {0}"
  using wf
proof (cases rule: wf_cases)
  case (inet bs)
  have "rev bs = replicate 4 0 \<longleftrightarrow> bs = replicate 4 0" by (metis rev_replicate rev_rev_ident)
  then show ?thesis using inet
    by (simp add: p_socket_address_is_any_def ip_bytes_def wf_addr4[OF wf] word_le_zero_iff
        set_singleton_replicate[of 4 bs 0] del: replicate.simps)
next
  case inet6
  then show ?thesis
    by (simp add: p_socket_address_is_any_def ip_bytes_def IN6_IS_ADDR_UNSPECIFIED_def
        set_singleton_replicate[of 16 "addr a" 0] del: replicate.simps)
qed

lemma loopback_iff:
  assumes wf: "wf_address sys a"
  shows "p_socket_address_is_loopback sys (Some a) \<longleftrightarrow>
    (if family a = P_SOCKET_FAMILY_INET then hd (ip_bytes a) = 127 else ip_bytes a = IN6ADDR_LOOPBACK_INIT)"
  using wf
proof (cases rule: wf_cases)
  case (inet bs)
  then show ?thesis
    by (simp add: p_socket_address_is_loopback_def ip_bytes_def wf_addr4[OF wf] top_byte del: replicate.simps)
qed (simp add: p_socket_address_is_loopback_def ip_bytes_def IN6_IS_ADDR_LOOPBACK_def)

lemma not_any_and_loopback:
  assumes wf: "wf_address sys a" and any: "set (ip_bytes a) = {0}"
  shows "\<not> p_socket_address_is_loopback sys (Some a)"
proof -
  have "ip_bytes a \<noteq> []" using any by auto
  then have "hd (ip_bytes a) = 0" using any list.set_sel(1)[of "ip_bytes a"] by simp
  moreover have "ip_bytes a \<noteq> IN6ADDR_LOOPBACK_INIT" using any by (auto simp: IN6ADDR_LOOPBACK_INIT_def)
  ultimately show ?thesis using loopback_iff[OF wf] by simp
qed

text \<open>The port of a native address, as the bytes in memory.\<close>

fun native_port :: "bool \<Rightarrow> sockaddr \<Rightarrow> byte list" where
  "native_port big (sockaddr_in p a) = bytes_of big p"
| "native_port big (sockaddr_in6 p f a s) = bytes_of big p"
| "native_port big (sockaddr_other f) = []"

text \<open>
  C26.  Every address a program can make fits into the size the library names for it: a smaller buffer is
  refused, any other gets a native address whose port bytes are in network order on either kind of host, and
  reading that back gives an equal address.
\<close>

theorem socket_address_roundtrip:
  assumes made: "made sys a" and pos: "0 < sizeof_sockaddr_in sys" "0 < sizeof_sockaddr_in6 sys"
  shows "if destlen < p_socket_address_get_native_size sys (Some a)
         then p_socket_address_to_native sys (Some a) True destlen = None
         else \<exists>sa. p_socket_address_to_native sys (Some a) True destlen = Some sa \<and> wf_native sa \<and>
                native_port (big_endian sys) sa = [ucast (drop_bit 8 (port a)), ucast (port a)] \<and>
                p_socket_address_new_from_native sys True (Some sa) (p_socket_address_get_native_size sys (Some a)) =
                  Some a"
  using made_wf[OF made]
proof (cases rule: wf_cases)
  case (inet bs)
  then show ?thesis using pos
    by (simp add: p_socket_address_get_native_size_def p_socket_address_to_native_def
        p_socket_address_new_from_native_def bytes_htons copy_zero zero_address_def
        del: replicate.simps)
next
  case inet6
  then show ?thesis using pos made_wf[OF made]
    by (simp add: p_socket_address_get_native_size_def p_socket_address_to_native_def
        p_socket_address_new_from_native_def bytes_htons copy_zero wf_address_def
        zero_address_def)
qed

text \<open>
  The tests for the wildcard and the loopback address look at the bytes in network order, on either kind
  of host: an address is the wildcard exactly when all its bytes are zero, and a loopback address exactly when
  it is \<open>::1\<close> or its first of four bytes is 127; no address is both, and each of the two constructors gives an
  address of its kind, with the family and port asked for.
\<close>

theorem socket_address_kinds:
  assumes made: "made sys a"
  shows "(p_socket_address_is_any sys (Some a) \<longleftrightarrow> set (ip_bytes a) = {0}) \<and>
         (p_socket_address_is_loopback sys (Some a) \<longleftrightarrow>
            (if family a = P_SOCKET_FAMILY_INET then hd (ip_bytes a) = 127 else ip_bytes a = IN6ADDR_LOOPBACK_INIT)) \<and>
         \<not> (p_socket_address_is_any sys (Some a) \<and> p_socket_address_is_loopback sys (Some a)) \<and>
         (p_socket_address_new_any True fam prt = Some a \<longrightarrow>
            p_socket_address_is_any sys (Some a) \<and> family a = fam \<and> port a = prt) \<and>
         (p_socket_address_new_loopback True fam prt = Some a \<longrightarrow>
            p_socket_address_is_loopback sys (Some a) \<and> family a = fam \<and> port a = prt)"
proof -
  note wf = made_wf[OF made]
  have "p_socket_address_is_any sys (Some a) \<and> family a = fam \<and> port a = prt"
    if "p_socket_address_new_any True fam prt = Some a"
    using that unfolding any_iff[OF wf]
    by (auto simp: p_socket_address_new_any_def ip_bytes_def copy_at_def numeral_eq_Suc split: if_splits)
  moreover have "p_socket_address_is_loopback sys (Some a) \<and> family a = fam \<and> port a = prt"
    if "p_socket_address_new_loopback True fam prt = Some a"
    using that unfolding loopback_iff[OF wf]
    by (auto simp: p_socket_address_new_loopback_def ip_bytes_def copy_at_def IN6ADDR_LOOPBACK_INIT_def split: if_splits)
  ultimately show ?thesis
    using any_iff[OF wf] loopback_iff[OF wf] not_any_and_loopback[OF wf] by blast
qed

text \<open>A little-endian system with structures of the usual sizes.\<close>

definition linux_system :: socket_system where
  "linux_system = \<lparr>big_endian = False, sizeof_sockaddr_in = 16, sizeof_sockaddr_in6 = 28, has_flowinfo = True,
     has_scopeid = True, has_getaddrinfo = True\<rparr>"

definition web_server :: PSocketAddress where
  "web_server = \<lparr>family = P_SOCKET_FAMILY_INET, addr = [10, 0, 0, 1] @ replicate 12 0, port = 8080, flowinfo = 0,
     scope_id = 0\<rparr>"

lemma web_server_made: "made linux_system web_server"
  by (rule made.native[where sa = "sockaddr_in (p_htons False 8080) [10, 0, 0, 1]" and alloc = True and len = 16])
     (simp_all add: p_socket_address_new_from_native_def linux_system_def zero_address_def web_server_def copy_at_def
       numeral_eq_Suc)

lemma web_server_simps:
  "big_endian linux_system = False" "p_socket_address_get_native_size linux_system (Some web_server) = 16"
  "0 < sizeof_sockaddr_in linux_system" "0 < sizeof_sockaddr_in6 linux_system"
  "ucast (drop_bit 8 (port web_server)) = (0x1f :: byte)" "ucast (port web_server) = (0x90 :: byte)"
  by (simp_all add: linux_system_def web_server_def p_socket_address_get_native_size_def)

text \<open>An IPv4 address with port 8080, whose bytes are 0x1f and 0x90.\<close>

theorem socket_address_roundtrip_witness:
  "\<exists>sa. p_socket_address_to_native linux_system (Some web_server) True 16 = Some sa \<and> wf_native sa \<and>
     native_port False sa = [0x1f, 0x90] \<and>
     p_socket_address_new_from_native linux_system True (Some sa) 16 = Some web_server"
  using socket_address_roundtrip[OF web_server_made, of 16] by (simp add: web_server_simps)

text \<open>The same address is neither the wildcard nor a loopback address.\<close>

theorem socket_address_kinds_witness:
  "\<not> p_socket_address_is_any linux_system (Some web_server) \<and>
   \<not> p_socket_address_is_loopback linux_system (Some web_server)"
  using socket_address_kinds[OF web_server_made]
  by (simp add: web_server_def ip_bytes_def)

end
