(* ===== verification/PSocket.thy ===== *)
theory PSocket
  imports PSocketAddress PError
begin

unbundle bit_operations_syntax

text \<open>
  Sockets, \<open>psocket.c\<close>, on a POSIX system.  The system is a parameter: a function from a system call and the state
  of the system to a reply and a new state.  The world of an operation is that state, \<open>errno\<close>, the caller's error
  pointer and the list of the system calls made so far.  A loop that the system keeps alive for ever has the
  value \<open>None\<close>.
\<close>

section \<open>Types\<close>

datatype PSocketProtocol =
    P_SOCKET_PROTOCOL_UNKNOWN
  | P_SOCKET_PROTOCOL_DEFAULT
  | P_SOCKET_PROTOCOL_TCP
  | P_SOCKET_PROTOCOL_UDP
  | P_SOCKET_PROTOCOL_SCTP

datatype PSocketType =
    P_SOCKET_TYPE_UNKNOWN
  | P_SOCKET_TYPE_STREAM
  | P_SOCKET_TYPE_DATAGRAM
  | P_SOCKET_TYPE_SEQPACKET

datatype PSocketDirection = P_SOCKET_DIRECTION_SND | P_SOCKET_DIRECTION_RCV

datatype PSocketIOCondition = P_SOCKET_IO_CONDITION_POLLIN | P_SOCKET_IO_CONDITION_POLLOUT

record PSocket =
  sock_family :: PSocketFamily
  protocol :: PSocketProtocol
  sock_type :: PSocketType
  fd :: int
  listen_backlog :: int
  timeout :: int
  blocking :: bool
  keepalive :: bool
  closed :: bool
  connected :: bool
  listening :: bool

definition P_SOCKET_DEFAULT_BACKLOG :: int where "P_SOCKET_DEFAULT_BACKLOG = 5"

text \<open>What \<open>p_malloc0\<close> gives.\<close>

definition zero_socket :: PSocket where
  "zero_socket = \<lparr>sock_family = P_SOCKET_FAMILY_UNKNOWN, protocol = P_SOCKET_PROTOCOL_DEFAULT,
     sock_type = P_SOCKET_TYPE_UNKNOWN, fd = 0, listen_backlog = 0, timeout = 0, blocking = False, keepalive = False,
     closed = False, connected = False, listening = False\<rparr>"

section \<open>The system\<close>

datatype sockopt =
    SO_TYPE | SO_DOMAIN | SO_KEEPALIVE | SO_ERROR | SO_REUSEADDR | SO_REUSEPORT | SO_NOSIGPIPE | SO_RCVBUF | SO_SNDBUF

datatype how = SHUT_RD | SHUT_WR | SHUT_RDWR

datatype sys_call =
    C_socket PSocketFamily "32 word" PSocketProtocol
  | C_close int
  | C_fcntl_getfl int
  | C_fcntl_setfl int "32 word"
  | C_fcntl_getfd int
  | C_fcntl_setfd int "32 word"
  | C_getsockopt int sockopt
  | C_setsockopt int sockopt int
  | C_getsockname int
  | C_getpeername int
  | C_bind int sockaddr nat
  | C_connect int sockaddr nat
  | C_listen int int
  | C_accept int
  | C_poll int PSocketIOCondition int
  | C_recv int nat
  | C_recvfrom int nat
  | C_send int "byte list"
  | C_sendto int "byte list" sockaddr nat
  | C_shutdown int how

text \<open>
  A reply: the result, the error number if it is -1, the value and length of an option, the address and its
  length if the call gives one, and the bytes received.
\<close>

record reply =
  res :: int
  err_no :: int
  optval :: int
  optlen :: nat
  name :: "sockaddr option"
  name_len :: nat
  bytes :: "byte list"

record 'k world =
  kernel :: 'k
  errno :: int
  error :: "PError option option"
  calls :: "sys_call list"

text \<open>
  What the system and the configuration fix: the answers, the numbers of error macros and constants, which
  options exist, which allocations succeed, and what an uninitialised address variable holds.
\<close>

record 'k socket_env =
  answer :: "sys_call \<Rightarrow> 'k \<Rightarrow> reply \<times> 'k"
  errnos :: "string \<Rightarrow> int option"
  addr_sys :: socket_system
  O_NONBLOCK :: "32 word"
  FD_CLOEXEC :: "32 word"
  SOCK_CLOEXEC :: "32 word"
  SOCK_STREAM :: "32 word"
  SOCK_DGRAM :: "32 word"
  SOCK_SEQPACKET :: "32 word"
  has_so_domain :: bool
  has_so_reuseport :: bool
  has_so_nosigpipe :: bool
  sizeof_storage :: nat
  mem_socket :: bool
  mem_address :: bool
  mem_error :: bool
  mem_message :: bool
  stack_address :: sockaddr

definition syscall :: "'k socket_env \<Rightarrow> sys_call \<Rightarrow> 'k world \<Rightarrow> reply \<times> 'k world" where
  "syscall env c w =
     (case answer env c (kernel w) of
        (r, k) \<Rightarrow> (r, w\<lparr>kernel := k, errno := (if res r < 0 then err_no r else errno w), calls := calls w @ [c]\<rparr>))"

definition native_name :: "'k socket_env \<Rightarrow> reply \<Rightarrow> sockaddr" where
  "native_name env r = (case name r of Some sa \<Rightarrow> sa | None \<Rightarrow> stack_address env)"

section \<open>Errors\<close>

definition pp_socket_get_errno :: "'k world \<Rightarrow> int" where
  "pp_socket_get_errno w = errno w"

definition io_error :: "'k socket_env \<Rightarrow> int \<Rightarrow> PErrorIO" where
  "io_error env e = p_error_get_io_from_system False (errnos env) e"

definition is_eintr :: "'k socket_env \<Rightarrow> int \<Rightarrow> bool" where
  "is_eintr env e \<longleftrightarrow> errnos env ''EINTR'' = Some e"

definition set_error :: "'k socket_env \<Rightarrow> PErrorIO \<Rightarrow> int \<Rightarrow> string \<Rightarrow> 'k world \<Rightarrow> 'k world" where
  "set_error env c native msg w =
     w\<lparr>error := p_error_set_error_p (mem_error env) (mem_message env) (error w) (io_code c) native (Some msg)\<rparr>"

definition set_system_error :: "'k socket_env \<Rightarrow> string \<Rightarrow> 'k world \<Rightarrow> 'k world" where
  "set_system_error env msg w =
     set_error env (io_error env (pp_socket_get_errno w)) (pp_socket_get_errno w) msg w"

definition invalid_argument :: "'k socket_env \<Rightarrow> 'k world \<Rightarrow> 'k world" where
  "invalid_argument env w = set_error env P_ERROR_IO_INVALID_ARGUMENT 0 ''Invalid input argument'' w"

section \<open>Helpers\<close>

definition pp_socket_set_fd_blocking :: "'k socket_env \<Rightarrow> int \<Rightarrow> bool \<Rightarrow> 'k world \<Rightarrow> bool \<times> 'k world" where
  "pp_socket_set_fd_blocking env d block w =
     (let (r, w1) = syscall env (C_fcntl_getfl d) w;
          arg = (if res r < 0 then 0 else word_of_int (res r));
          arg = (if \<not> block then arg OR O_NONBLOCK env else arg AND NOT (O_NONBLOCK env));
          (r2, w2) = syscall env (C_fcntl_setfl d arg) w1
      in if res r2 < 0 then (False, set_system_error env ''Failed to set socket blocking flags'' w2)
         else (True, w2))"

definition pp_socket_check :: "'k socket_env \<Rightarrow> PSocket \<Rightarrow> 'k world \<Rightarrow> bool \<times> 'k world" where
  "pp_socket_check env s w =
     (if closed s then (False, set_error env P_ERROR_IO_NOT_AVAILABLE 0 ''Socket is already closed'' w)
      else (True, w))"

fun protocol_of :: "PSocketType \<Rightarrow> PSocketProtocol \<Rightarrow> PSocketProtocol" where
  "protocol_of P_SOCKET_TYPE_STREAM p = P_SOCKET_PROTOCOL_TCP"
| "protocol_of P_SOCKET_TYPE_DATAGRAM p = P_SOCKET_PROTOCOL_UDP"
| "protocol_of P_SOCKET_TYPE_SEQPACKET p = P_SOCKET_PROTOCOL_SCTP"
| "protocol_of P_SOCKET_TYPE_UNKNOWN p = p"

definition type_of_native :: "'k socket_env \<Rightarrow> int \<Rightarrow> PSocketType" where
  "type_of_native env v =
     (if word_of_int v = SOCK_STREAM env then P_SOCKET_TYPE_STREAM
      else if word_of_int v = SOCK_DGRAM env then P_SOCKET_TYPE_DATAGRAM
      else if word_of_int v = SOCK_SEQPACKET env then P_SOCKET_TYPE_SEQPACKET
      else P_SOCKET_TYPE_UNKNOWN)"

fun native_family :: "sockaddr \<Rightarrow> PSocketFamily" where
  "native_family (sockaddr_in _ _) = P_SOCKET_FAMILY_INET"
| "native_family (sockaddr_in6 _ _ _ _) = P_SOCKET_FAMILY_INET6"
| "native_family (sockaddr_other _) = P_SOCKET_FAMILY_UNKNOWN"

text \<open>The family comes from the address in either case: the answer to \<open>SO_DOMAIN\<close> is not looked at.\<close>

definition details_family :: "'k socket_env \<Rightarrow> int \<Rightarrow> 'k world \<Rightarrow> PSocketFamily option \<times> 'k world" where
  "details_family env d w =
     (let (r, w1) = syscall env (C_getsockname d) w
      in if res r \<noteq> 0 then
           (None, set_system_error env ''Failed to call getsockname() to get socket address info'' w1)
         else if has_so_domain env \<and> name_len r = 0 then
           (let (r2, w2) = syscall env (C_getsockopt d SO_DOMAIN) w1
            in if res r2 \<noteq> 0 then
                 (None, set_system_error env ''Failed to call getsockopt() to get socket SO_DOMAIN option'' w2)
               else (Some (native_family (native_name env r)), w2))
         else (Some (native_family (native_name env r)), w1))"

definition pp_socket_set_details_from_fd :: "'k socket_env \<Rightarrow> PSocket \<Rightarrow> 'k world \<Rightarrow> bool \<times> PSocket \<times> 'k world" where
  "pp_socket_set_details_from_fd env s w =
     (let (r, w1) = syscall env (C_getsockopt (fd s) SO_TYPE) w
      in if res r \<noteq> 0 then
           (False, s, set_system_error env ''Failed to call getsockopt() to get socket info for fd'' w1)
         else if optlen r \<noteq> 4 then
           (False, s, set_error env P_ERROR_IO_INVALID_ARGUMENT 0
              ''Failed to get socket info for fd, bad option length'' w1)
         else
           (let s1 = s\<lparr>sock_type := type_of_native env (optval r)\<rparr>
            in case details_family env (fd s) w1 of
                 (None, w2) \<Rightarrow> (False, s1, w2)
               | (Some fam, w2) \<Rightarrow>
                   (let s2 = s1\<lparr>sock_family := fam\<rparr>;
                        s3 = (if fam = P_SOCKET_FAMILY_INET6 \<or> fam = P_SOCKET_FAMILY_INET
                              then s2\<lparr>protocol := protocol_of (sock_type s2) (protocol s2)\<rparr> else s2);
                        (s4, w3) =
                          (if fam \<noteq> P_SOCKET_FAMILY_UNKNOWN then
                             (let (p, v) = syscall env (C_getpeername (fd s)) w2
                              in (if res p \<ge> 0 then s3\<lparr>connected := True\<rparr> else s3, v))
                           else (s3, w2));
                        (q, w4) = syscall env (C_getsockopt (fd s) SO_KEEPALIVE) w3
                    in (True, s4\<lparr>keepalive := (res q = 0 \<and> optval q \<noteq> 0)\<rparr>, w4))))"

definition p_sys_close :: "'k socket_env \<Rightarrow> int \<Rightarrow> 'k world \<Rightarrow> int \<times> 'k world" where
  "p_sys_close env d w = (let (r, w1) = syscall env (C_close d) w in (res r, w1))"

section \<open>Queries\<close>

definition p_socket_get_fd :: "PSocket option \<Rightarrow> int" where
  "p_socket_get_fd socket = (case socket of None \<Rightarrow> -1 | Some s \<Rightarrow> fd s)"

definition p_socket_get_family :: "PSocket option \<Rightarrow> PSocketFamily" where
  "p_socket_get_family socket = (case socket of None \<Rightarrow> P_SOCKET_FAMILY_UNKNOWN | Some s \<Rightarrow> sock_family s)"

definition p_socket_get_type :: "PSocket option \<Rightarrow> PSocketType" where
  "p_socket_get_type socket = (case socket of None \<Rightarrow> P_SOCKET_TYPE_UNKNOWN | Some s \<Rightarrow> sock_type s)"

definition p_socket_get_protocol :: "PSocket option \<Rightarrow> PSocketProtocol" where
  "p_socket_get_protocol socket = (case socket of None \<Rightarrow> P_SOCKET_PROTOCOL_UNKNOWN | Some s \<Rightarrow> protocol s)"

definition p_socket_get_keepalive :: "PSocket option \<Rightarrow> bool" where
  "p_socket_get_keepalive socket = (case socket of None \<Rightarrow> False | Some s \<Rightarrow> keepalive s)"

definition p_socket_get_blocking :: "PSocket option \<Rightarrow> bool" where
  "p_socket_get_blocking socket = (case socket of None \<Rightarrow> False | Some s \<Rightarrow> blocking s)"

definition p_socket_get_listen_backlog :: "PSocket option \<Rightarrow> int" where
  "p_socket_get_listen_backlog socket = (case socket of None \<Rightarrow> -1 | Some s \<Rightarrow> listen_backlog s)"

definition p_socket_get_timeout :: "PSocket option \<Rightarrow> int" where
  "p_socket_get_timeout socket = (case socket of None \<Rightarrow> -1 | Some s \<Rightarrow> timeout s)"

definition p_socket_is_connected :: "PSocket option \<Rightarrow> bool" where
  "p_socket_is_connected socket = (case socket of None \<Rightarrow> False | Some s \<Rightarrow> connected s)"

definition p_socket_is_closed :: "PSocket option \<Rightarrow> bool" where
  "p_socket_is_closed socket = (case socket of None \<Rightarrow> True | Some s \<Rightarrow> closed s)"

definition p_socket_get_local_address ::
  "'k socket_env \<Rightarrow> PSocket option \<Rightarrow> 'k world \<Rightarrow> PSocketAddress option \<times> 'k world" where
  "p_socket_get_local_address env socket w =
     (case socket of
        None \<Rightarrow> (None, invalid_argument env w)
      | Some s \<Rightarrow>
          (let (r, w1) = syscall env (C_getsockname (fd s)) w
           in if res r < 0 then
                (None, set_system_error env ''Failed to call getsockname() to get local socket address'' w1)
              else
                (case p_socket_address_new_from_native (addr_sys env) (mem_address env) (Some (native_name env r))
                        (name_len r) of
                   None \<Rightarrow> (None, set_error env P_ERROR_IO_FAILED 0
                                     ''Failed to create socket address from native structure'' w1)
                 | Some a \<Rightarrow> (Some a, w1))))"

definition p_socket_get_remote_address ::
  "'k socket_env \<Rightarrow> PSocket option \<Rightarrow> 'k world \<Rightarrow> PSocketAddress option \<times> 'k world" where
  "p_socket_get_remote_address env socket w =
     (case socket of
        None \<Rightarrow> (None, invalid_argument env w)
      | Some s \<Rightarrow>
          (let (r, w1) = syscall env (C_getpeername (fd s)) w
           in if res r < 0 then
                (None, set_system_error env ''Failed to call getpeername() to get remote socket address'' w1)
              else
                (case p_socket_address_new_from_native (addr_sys env) (mem_address env) (Some (native_name env r))
                        (name_len r) of
                   None \<Rightarrow> (None, set_error env P_ERROR_IO_FAILED 0
                                     ''Failed to create socket address from native structure'' w1)
                 | Some a \<Rightarrow> (Some a, w1))))"

section \<open>Updates\<close>

definition p_socket_set_keepalive ::
  "'k socket_env \<Rightarrow> PSocket option \<Rightarrow> bool \<Rightarrow> 'k world \<Rightarrow> PSocket option \<times> 'k world" where
  "p_socket_set_keepalive env socket keep w =
     (case socket of
        None \<Rightarrow> (None, w)
      | Some s \<Rightarrow>
          if keepalive s = keep then (Some s, w)
          else (let (r, w1) = syscall env (C_setsockopt (fd s) SO_KEEPALIVE (if keep then 1 else 0)) w
                in if res r < 0 then (Some s, w1) else (Some (s\<lparr>keepalive := keep\<rparr>), w1)))"

definition p_socket_set_blocking :: "PSocket option \<Rightarrow> bool \<Rightarrow> PSocket option" where
  "p_socket_set_blocking socket block = (case socket of None \<Rightarrow> None | Some s \<Rightarrow> Some (s\<lparr>blocking := block\<rparr>))"

definition p_socket_set_listen_backlog :: "PSocket option \<Rightarrow> int \<Rightarrow> PSocket option" where
  "p_socket_set_listen_backlog socket backlog =
     (case socket of
        None \<Rightarrow> None
      | Some s \<Rightarrow> if listening s then Some s else Some (s\<lparr>listen_backlog := backlog\<rparr>))"

definition p_socket_set_timeout :: "PSocket option \<Rightarrow> int \<Rightarrow> PSocket option" where
  "p_socket_set_timeout socket t =
     (case socket of None \<Rightarrow> None | Some s \<Rightarrow> Some (s\<lparr>timeout := (if t < 0 then 0 else t)\<rparr>))"

definition p_socket_set_buffer_size ::
  "'k socket_env \<Rightarrow> PSocket option \<Rightarrow> PSocketDirection \<Rightarrow> 64 word \<Rightarrow> 'k world \<Rightarrow> bool \<times> 'k world" where
  "p_socket_set_buffer_size env socket dir sz w =
     (case socket of
        None \<Rightarrow> (False, invalid_argument env w)
      | Some s \<Rightarrow>
          (case pp_socket_check env s w of
             (False, w1) \<Rightarrow> (False, w1)
           | (True, w1) \<Rightarrow>
               (let optname = (if dir = P_SOCKET_DIRECTION_RCV then SO_RCVBUF else SO_SNDBUF);
                    (r, w2) = syscall env (C_setsockopt (fd s) optname (sint (ucast sz :: 32 word))) w1
                in if res r \<noteq> 0 then
                     (False, set_system_error env ''Failed to call setsockopt() on socket to set buffer size'' w2)
                   else (True, w2))))"

end
