(* ===== verification/PSocketIO.thy ===== *)
theory PSocketIO
  imports PSocket
begin

unbundle bit_operations_syntax

text \<open>
  The rest of \<open>psocket.c\<close>: making, closing and connecting sockets, and the operations that wait.  The loops that
  try again are partial functions.
\<close>

section \<open>Closing\<close>

definition p_socket_close :: "'k socket_env \<Rightarrow> PSocket option \<Rightarrow> 'k world \<Rightarrow> bool \<times> PSocket option \<times> 'k world" where
  "p_socket_close env socket w =
     (case socket of
        None \<Rightarrow> (False, None, invalid_argument env w)
      | Some s \<Rightarrow>
          if closed s then (True, Some s, w)
          else
            (case p_sys_close env (fd s) w of
               (ret, w1) \<Rightarrow>
                 if ret = 0 then
                   (True, Some (s\<lparr>connected := False, closed := True, listening := False, fd := -1\<rparr>), w1)
                 else
                   (let err_code = pp_socket_get_errno w1
                    in (False, Some s, set_error env (io_error env err_code) err_code ''Failed to close socket'' w1))))"

text \<open>The object is closed with NULL for the error.\<close>

definition p_socket_free :: "'k socket_env \<Rightarrow> PSocket option \<Rightarrow> 'k world \<Rightarrow> 'k world" where
  "p_socket_free env socket w =
     (case socket of
        None \<Rightarrow> w
      | Some s \<Rightarrow>
          (case p_socket_close env (Some s) (w\<lparr>error := None\<rparr>) of (_, _, w1) \<Rightarrow> w1\<lparr>error := error w\<rparr>))"

section \<open>Making\<close>

definition set_cloexec :: "'k socket_env \<Rightarrow> int \<Rightarrow> 'k world \<Rightarrow> 'k world" where
  "set_cloexec env d w =
     (let (r, w1) = syscall env (C_fcntl_getfd d) w;
          flags = word_of_int (res r)
      in if res r \<noteq> -1 \<and> flags AND FD_CLOEXEC env = 0
         then snd (syscall env (C_fcntl_setfd d (flags OR FD_CLOEXEC env)) w1)
         else w1)"

definition set_nosigpipe :: "'k socket_env \<Rightarrow> int \<Rightarrow> 'k world \<Rightarrow> 'k world" where
  "set_nosigpipe env d w = (if has_so_nosigpipe env then snd (syscall env (C_setsockopt d SO_NOSIGPIPE 1) w) else w)"

definition p_socket_new_from_fd :: "'k socket_env \<Rightarrow> int \<Rightarrow> 'k world \<Rightarrow> PSocket option \<times> 'k world" where
  "p_socket_new_from_fd env d w =
     (if d < 0 then
        (None, set_error env P_ERROR_IO_INVALID_ARGUMENT 0 ''Unable to create socket from bad fd'' w)
      else if \<not> mem_socket env then
        (None, set_error env P_ERROR_IO_NO_RESOURCES 0 ''Failed to allocate memory for socket'' w)
      else
        (case pp_socket_set_details_from_fd env (zero_socket\<lparr>fd := d\<rparr>) w of
           (False, s, w1) \<Rightarrow> (None, w1)
         | (True, s, w1) \<Rightarrow>
             (case pp_socket_set_fd_blocking env (fd s) False w1 of
                (False, w2) \<Rightarrow> (None, w2)
              | (True, w2) \<Rightarrow>
                  (case p_socket_set_listen_backlog (Some s) P_SOCKET_DEFAULT_BACKLOG of
                     None \<Rightarrow> (None, w2)
                   | Some s1 \<Rightarrow> (Some (s1\<lparr>timeout := 0, blocking := True\<rparr>), set_nosigpipe env (fd s) w2)))))"

fun native_type :: "'k socket_env \<Rightarrow> PSocketType \<Rightarrow> 32 word option" where
  "native_type env P_SOCKET_TYPE_STREAM = Some (SOCK_STREAM env)"
| "native_type env P_SOCKET_TYPE_DATAGRAM = Some (SOCK_DGRAM env)"
| "native_type env P_SOCKET_TYPE_SEQPACKET = Some (SOCK_SEQPACKET env)"
| "native_type env P_SOCKET_TYPE_UNKNOWN = None"

definition p_socket_new ::
  "'k socket_env \<Rightarrow> PSocketFamily \<Rightarrow> PSocketType \<Rightarrow> PSocketProtocol \<Rightarrow> 'k world \<Rightarrow> PSocket option \<times> 'k world" where
  "p_socket_new env fam type prot w =
     (if fam = P_SOCKET_FAMILY_UNKNOWN \<or> type = P_SOCKET_TYPE_UNKNOWN \<or> prot = P_SOCKET_PROTOCOL_UNKNOWN then
        (None, set_error env P_ERROR_IO_INVALID_ARGUMENT 0 ''Invalid input socket family, type or protocol'' w)
      else
        (case native_type env type of
           None \<Rightarrow>
             (None, set_error env P_ERROR_IO_INVALID_ARGUMENT 0 ''Unable to create socket with unknown family'' w)
         | Some t \<Rightarrow>
             if \<not> mem_socket env then
               (None, set_error env P_ERROR_IO_NO_RESOURCES 0 ''Failed to allocate memory for socket'' w)
             else
               (let (r, w1) = syscall env (C_socket fam (t OR SOCK_CLOEXEC env) prot) w
                in if res r < 0 then
                     (None, set_system_error env ''Failed to call socket() to create socket'' w1)
                   else
                     (let w2 = set_cloexec env (res r) w1;
                          s = zero_socket\<lparr>fd := res r\<rparr>
                      in case pp_socket_set_fd_blocking env (fd s) False w2 of
                           (False, w3) \<Rightarrow> (None, p_socket_free env (Some s) w3)
                         | (True, w3) \<Rightarrow>
                             (p_socket_set_listen_backlog
                                (Some (s\<lparr>timeout := 0, blocking := True, sock_family := fam, protocol := prot,
                                         sock_type := type\<rparr>)) P_SOCKET_DEFAULT_BACKLOG,
                              set_nosigpipe env (fd s) w3)))))"

section \<open>Waiting\<close>

text \<open>The loop over \<open>poll\<close>: an interrupted call is made again with the whole timeout.\<close>

partial_function (option) poll_loop ::
  "'k socket_env \<Rightarrow> sys_call \<Rightarrow> 'k world \<Rightarrow> (bool \<times> 'k world) option" where
  "poll_loop env call w =
     (case syscall env call w of
        (r, w1) \<Rightarrow>
          if res r = -1 \<and> is_eintr env (pp_socket_get_errno w1) then poll_loop env call w1
          else if res r = 1 then Some (True, w1)
          else if res r = 0 then
            Some (False, set_error env P_ERROR_IO_TIMED_OUT (pp_socket_get_errno w1)
                           ''Timed out while waiting socket condition'' w1)
          else Some (False, set_system_error env ''Failed to call poll() on socket'' w1))"

definition poll_call :: "PSocket \<Rightarrow> PSocketIOCondition \<Rightarrow> sys_call" where
  "poll_call s cond = C_poll (fd s) cond (if timeout s > 0 then timeout s else -1)"

definition p_socket_io_condition_wait ::
  "'k socket_env \<Rightarrow> PSocket option \<Rightarrow> PSocketIOCondition \<Rightarrow> 'k world \<Rightarrow> (bool \<times> 'k world) option" where
  "p_socket_io_condition_wait env socket cond w =
     (case socket of
        None \<Rightarrow> Some (False, invalid_argument env w)
      | Some s \<Rightarrow>
          (case pp_socket_check env s w of
             (False, w1) \<Rightarrow> Some (False, w1)
           | (True, w1) \<Rightarrow> poll_loop env (poll_call s cond) w1))"

text \<open>
  The loop that \<open>p_socket_accept\<close>, \<open>p_socket_receive\<close>, \<open>p_socket_receive_from\<close>, \<open>p_socket_send\<close> and
  \<open>p_socket_send_to\<close> run around their call: wait if the object is blocking, call, try again if the call was
  interrupted or, on a blocking object, would block.
\<close>

partial_function (option) io_loop ::
  "'k socket_env \<Rightarrow> PSocketIOCondition \<Rightarrow> sys_call \<Rightarrow> string \<Rightarrow> PSocket \<Rightarrow> 'k world \<Rightarrow> (reply option \<times> 'k world) option"
where
  "io_loop env cond call msg s w =
     Option.bind (if blocking s then p_socket_io_condition_wait env (Some s) cond w else Some (True, w))
       (\<lambda>(ready, w1).
          if \<not> ready then Some (None, w1)
          else (case syscall env call w1 of
             (r, w2) \<Rightarrow>
               if res r < 0 then
                 (let err_code = pp_socket_get_errno w2;
                      sock_err = io_error env err_code
                  in if is_eintr env err_code then io_loop env cond call msg s w2
                     else if blocking s \<and> sock_err = P_ERROR_IO_WOULD_BLOCK then io_loop env cond call msg s w2
                     else Some (None, set_error env sock_err err_code msg w2))
               else Some (Some r, w2)))"

section \<open>Binding, connecting, listening, accepting\<close>

definition p_socket_bind ::
  "'k socket_env \<Rightarrow> PSocket option \<Rightarrow> PSocketAddress option \<Rightarrow> bool \<Rightarrow> 'k world \<Rightarrow> bool \<times> 'k world" where
  "p_socket_bind env socket address allow_reuse w =
     (case socket of
        None \<Rightarrow> (False, invalid_argument env w)
      | Some s \<Rightarrow>
          if address = None then (False, invalid_argument env w)
          else
            (case pp_socket_check env s w of
               (False, w1) \<Rightarrow> (False, w1)
             | (True, w1) \<Rightarrow>
                 (let w2 = snd (syscall env (C_setsockopt (fd s) SO_REUSEADDR (if allow_reuse then 1 else 0)) w1);
                      reuse_port = allow_reuse \<and> sock_type s = P_SOCKET_TYPE_DATAGRAM;
                      w3 = (if has_so_reuseport env
                            then snd (syscall env (C_setsockopt (fd s) SO_REUSEPORT (if reuse_port then 1 else 0)) w2)
                            else w2)
                  in case p_socket_address_to_native (addr_sys env) address True (sizeof_storage env) of
                       None \<Rightarrow>
                         (False, set_error env P_ERROR_IO_FAILED 0
                                   ''Failed to convert socket address to native structure'' w3)
                     | Some sa \<Rightarrow>
                         (let (r, w4) =
                            syscall env (C_bind (fd s) sa (p_socket_address_get_native_size (addr_sys env) address)) w3
                          in if res r < 0 then (False, set_system_error env ''Failed to call bind() on socket'' w4)
                             else (True, w4)))))"

definition p_socket_check_connect_result ::
  "'k socket_env \<Rightarrow> PSocket option \<Rightarrow> 'k world \<Rightarrow> bool \<times> PSocket option \<times> 'k world" where
  "p_socket_check_connect_result env socket w =
     (case socket of
        None \<Rightarrow> (False, None, invalid_argument env w)
      | Some s \<Rightarrow>
          (let (r, w1) = syscall env (C_getsockopt (fd s) SO_ERROR) w
           in if res r < 0 then
                (False, Some s, set_system_error env ''Failed to call getsockopt() to get connection status'' w1)
              else
                (let v = optval r;
                     w2 = (if v \<noteq> 0 then set_error env (io_error env v) v ''Error in socket layer'' w1 else w1)
                 in (v = 0, Some (s\<lparr>connected := (v = 0)\<rparr>), w2))))"

partial_function (option) connect_loop :: "'k socket_env \<Rightarrow> sys_call \<Rightarrow> 'k world \<Rightarrow> (int \<times> int \<times> 'k world) option" where
  "connect_loop env call w =
     (case syscall env call w of
        (r, w1) \<Rightarrow>
          if res r = 0 then Some (res r, 0, w1)
          else
            (let err_code = pp_socket_get_errno w1
             in if is_eintr env err_code then connect_loop env call w1 else Some (res r, err_code, w1)))"

definition p_socket_connect ::
  "'k socket_env \<Rightarrow> PSocket option \<Rightarrow> PSocketAddress option \<Rightarrow> 'k world \<Rightarrow> (bool \<times> PSocket option \<times> 'k world) option"
where
  "p_socket_connect env socket address w =
     (case socket of
        None \<Rightarrow> Some (False, None, invalid_argument env w)
      | Some s \<Rightarrow>
          if address = None then Some (False, Some s, invalid_argument env w)
          else
            (case pp_socket_check env s w of
               (False, w1) \<Rightarrow> Some (False, Some s, w1)
             | (True, w1) \<Rightarrow>
                 (case p_socket_address_to_native (addr_sys env) address True (sizeof_storage env) of
                    None \<Rightarrow>
                      Some (False, Some s, set_error env P_ERROR_IO_FAILED 0
                                             ''Failed to convert socket address to native structure'' w1)
                  | Some sa \<Rightarrow>
                      Option.bind
                        (connect_loop env
                           (C_connect (fd s) sa (p_socket_address_get_native_size (addr_sys env) address)) w1)
                        (\<lambda>(conn_result, err_code, w2).
                           if conn_result = 0 then Some (True, Some (s\<lparr>connected := True\<rparr>), w2)
                           else
                             (let sock_err = io_error env err_code
                              in if sock_err = P_ERROR_IO_WOULD_BLOCK \<or> sock_err = P_ERROR_IO_IN_PROGRESS then
                                   if blocking s then
                                     Option.bind (p_socket_io_condition_wait env (Some s) P_SOCKET_IO_CONDITION_POLLOUT w2)
                                       (\<lambda>(ready, w3).
                                          if \<not> ready then Some (False, Some s, w3)
                                          else (case p_socket_check_connect_result env (Some s) w3 of
                                              (True, Some s1, w4) \<Rightarrow> Some (True, Some (s1\<lparr>connected := True\<rparr>), w4)
                                            | (_, s1, w4) \<Rightarrow> Some (False, s1, w4)))
                                   else
                                     Some (False, Some s,
                                           set_error env sock_err err_code ''Couldn't block non-blocking socket'' w2)
                                 else
                                   Some (False, Some s,
                                         set_error env sock_err err_code ''Failed to call connect() on socket'' w2))))))"

definition p_socket_listen ::
  "'k socket_env \<Rightarrow> PSocket option \<Rightarrow> 'k world \<Rightarrow> bool \<times> PSocket option \<times> 'k world" where
  "p_socket_listen env socket w =
     (case socket of
        None \<Rightarrow> (False, None, invalid_argument env w)
      | Some s \<Rightarrow>
          (case pp_socket_check env s w of
             (False, w1) \<Rightarrow> (False, Some s, w1)
           | (True, w1) \<Rightarrow>
               (let (r, w2) = syscall env (C_listen (fd s) (listen_backlog s)) w1
                in if res r < 0 then (False, Some s, set_system_error env ''Failed to call listen() on socket'' w2)
                   else (True, Some (s\<lparr>listening := True\<rparr>), w2))))"

definition p_socket_accept ::
  "'k socket_env \<Rightarrow> PSocket option \<Rightarrow> 'k world \<Rightarrow> (PSocket option \<times> 'k world) option" where
  "p_socket_accept env socket w =
     (case socket of
        None \<Rightarrow> Some (None, invalid_argument env w)
      | Some s \<Rightarrow>
          (case pp_socket_check env s w of
             (False, w1) \<Rightarrow> Some (None, w1)
           | (True, w1) \<Rightarrow>
               Option.bind
                 (io_loop env P_SOCKET_IO_CONDITION_POLLIN (C_accept (fd s)) ''Failed to call accept() on socket'' s w1)
                 (\<lambda>(reply, w2).
                    case reply of
                      None \<Rightarrow> Some (None, w2)
                    | Some r \<Rightarrow>
                        (case p_socket_new_from_fd env (res r) (set_cloexec env (res r) w2) of
                           (None, w3) \<Rightarrow> Some (None, snd (p_sys_close env (res r) w3))
                         | (Some ret, w3) \<Rightarrow> Some (Some (ret\<lparr>protocol := protocol s\<rparr>), w3)))))"

section \<open>Receiving and sending\<close>

text \<open>The length is cut to the 32 bits of \<open>socklen_t\<close>.  The bytes received replace the front of the buffer.\<close>

definition socklen :: "64 word \<Rightarrow> nat" where
  "socklen buflen = unat (ucast buflen :: 32 word)"

definition p_socket_receive ::
  "'k socket_env \<Rightarrow> PSocket option \<Rightarrow> byte list option \<Rightarrow> 64 word \<Rightarrow> 'k world \<Rightarrow> (int \<times> byte list option \<times> 'k world) option"
where
  "p_socket_receive env socket buffer buflen w =
     (case (socket, buffer) of
        (Some s, Some buf) \<Rightarrow>
          (case pp_socket_check env s w of
             (False, w1) \<Rightarrow> Some (-1, buffer, w1)
           | (True, w1) \<Rightarrow>
               Option.bind
                 (io_loop env P_SOCKET_IO_CONDITION_POLLIN (C_recv (fd s) (socklen buflen))
                    ''Failed to call recv() on socket'' s w1)
                 (\<lambda>(reply, w2).
                    case reply of
                      None \<Rightarrow> Some (-1, buffer, w2)
                    | Some r \<Rightarrow> Some (res r, Some (copy_at buf 0 (bytes r)), w2)))
      | _ \<Rightarrow> Some (-1, buffer, invalid_argument env w))"

text \<open>The address is stored if the caller asks for it; the result is \<open>None\<close> if nothing is stored.\<close>

definition p_socket_receive_from ::
  "'k socket_env \<Rightarrow> PSocket option \<Rightarrow> bool \<Rightarrow> byte list option \<Rightarrow> 64 word \<Rightarrow> 'k world \<Rightarrow>
   (int \<times> PSocketAddress option option \<times> byte list option \<times> 'k world) option"
where
  "p_socket_receive_from env socket want_address buffer buflen w =
     (case (socket, buffer) of
        (Some s, Some buf) \<Rightarrow>
          if buflen = 0 then Some (-1, None, buffer, invalid_argument env w)
          else
            (case pp_socket_check env s w of
               (False, w1) \<Rightarrow> Some (-1, None, buffer, w1)
             | (True, w1) \<Rightarrow>
                 Option.bind
                   (io_loop env P_SOCKET_IO_CONDITION_POLLIN (C_recvfrom (fd s) (socklen buflen))
                      ''Failed to call recvfrom() on socket'' s w1)
                   (\<lambda>(reply, w2).
                      case reply of
                        None \<Rightarrow> Some (-1, None, buffer, w2)
                      | Some r \<Rightarrow>
                          Some (res r,
                            (if want_address
                             then Some (p_socket_address_new_from_native (addr_sys env) (mem_address env)
                                          (Some (native_name env r)) (name_len r))
                             else None),
                            Some (copy_at buf 0 (bytes r)), w2)))
      | _ \<Rightarrow> Some (-1, None, buffer, invalid_argument env w))"

definition p_socket_send ::
  "'k socket_env \<Rightarrow> PSocket option \<Rightarrow> byte list option \<Rightarrow> 64 word \<Rightarrow> 'k world \<Rightarrow> (int \<times> 'k world) option" where
  "p_socket_send env socket buffer buflen w =
     (case (socket, buffer) of
        (Some s, Some buf) \<Rightarrow>
          if buflen = 0 then Some (-1, invalid_argument env w)
          else
            (case pp_socket_check env s w of
               (False, w1) \<Rightarrow> Some (-1, w1)
             | (True, w1) \<Rightarrow>
                 Option.bind
                   (io_loop env P_SOCKET_IO_CONDITION_POLLOUT (C_send (fd s) (take (socklen buflen) buf))
                      ''Failed to call send() on socket'' s w1)
                   (\<lambda>(reply, w2). case reply of None \<Rightarrow> Some (-1, w2) | Some r \<Rightarrow> Some (res r, w2)))
      | _ \<Rightarrow> Some (-1, invalid_argument env w))"

definition p_socket_send_to ::
  "'k socket_env \<Rightarrow> PSocket option \<Rightarrow> PSocketAddress option \<Rightarrow> byte list option \<Rightarrow> 64 word \<Rightarrow> 'k world \<Rightarrow>
   (int \<times> 'k world) option" where
  "p_socket_send_to env socket address buffer buflen w =
     (case (socket, buffer) of
        (Some s, Some buf) \<Rightarrow>
          if address = None then Some (-1, invalid_argument env w)
          else
            (case pp_socket_check env s w of
               (False, w1) \<Rightarrow> Some (-1, w1)
             | (True, w1) \<Rightarrow>
                 (case p_socket_address_to_native (addr_sys env) address True (sizeof_storage env) of
                    None \<Rightarrow>
                      Some (-1, set_error env P_ERROR_IO_FAILED 0
                                  ''Failed to convert socket address to native structure'' w1)
                  | Some sa \<Rightarrow>
                      Option.bind
                        (io_loop env P_SOCKET_IO_CONDITION_POLLOUT
                           (C_sendto (fd s) (take (socklen buflen) buf) sa
                              (p_socket_address_get_native_size (addr_sys env) address))
                           ''Failed to call sendto() on socket'' s w1)
                        (\<lambda>(reply, w2). case reply of None \<Rightarrow> Some (-1, w2) | Some r \<Rightarrow> Some (res r, w2))))
      | _ \<Rightarrow> Some (-1, invalid_argument env w))"

section \<open>Shutting down\<close>

definition p_socket_shutdown ::
  "'k socket_env \<Rightarrow> PSocket option \<Rightarrow> bool \<Rightarrow> bool \<Rightarrow> 'k world \<Rightarrow> bool \<times> PSocket option \<times> 'k world" where
  "p_socket_shutdown env socket shutdown_read shutdown_write w =
     (case socket of
        None \<Rightarrow> (False, None, invalid_argument env w)
      | Some s \<Rightarrow>
          (case pp_socket_check env s w of
             (False, w1) \<Rightarrow> (False, Some s, w1)
           | (True, w1) \<Rightarrow>
               if \<not> shutdown_read \<and> \<not> shutdown_write then (True, Some s, w1)
               else
                 (let how = (if shutdown_read \<and> shutdown_write then SHUT_RDWR
                             else if shutdown_read then SHUT_RD else SHUT_WR);
                      (r, w2) = syscall env (C_shutdown (fd s) how) w1
                  in if res r \<noteq> 0 then
                       (False, Some s, set_system_error env ''Failed to call shutdown() on socket'' w2)
                     else
                       (True, Some (if shutdown_read \<and> shutdown_write then s\<lparr>connected := False\<rparr> else s), w2))))"

end
