(* ===== verification/PSocketProps.thy ===== *)
theory PSocketProps
  imports PSocketIO
begin

unbundle bit_operations_syntax

text \<open>
  Properties of sockets, for every system: which operations on closed objects make no system call, blocking operations return exactly
  what the last round of their loop says, descriptors are not lost, lengths are cut to 32 bits, and a
  \<open>connect\<close> that is interrupted and then finds the connection made reports a failure.
\<close>

section \<open>System calls and errors\<close>

lemma syscall_simps:
  "calls (snd (syscall env c w)) = calls w @ [c]" "error (snd (syscall env c w)) = error w"
  "fst (syscall env c w) = fst (answer env c (kernel w))"
  by (simp_all add: syscall_def split: prod.splits)

lemma set_error_simps [simp]:
  "calls (set_error env c n m w) = calls w" "kernel (set_error env c n m w) = kernel w"
  "errno (set_error env c n m w) = errno w"
  by (simp_all add: set_error_def)

lemma set_system_error_simps [simp]:
  "calls (set_system_error env m w) = calls w" "kernel (set_system_error env m w) = kernel w"
  "errno (set_system_error env m w) = errno w"
  by (simp_all add: set_system_error_def)

lemma syscall_calls: "syscall env c w = (r, w1) \<Longrightarrow> calls w1 = calls w @ [c]"
  using syscall_simps(1)[of env c w] by simp

lemma check_open [simp]: "\<not> closed s \<Longrightarrow> pp_socket_check env s w = (True, w)"
  by (simp add: pp_socket_check_def)

lemma check_closed [simp]:
  "closed s \<Longrightarrow> pp_socket_check env s w = (False, set_error env P_ERROR_IO_NOT_AVAILABLE 0 ''Socket is already closed'' w)"
  by (simp add: pp_socket_check_def)

section \<open>Closed objects\<close>

text \<open>
  C27.  Closing an open object asks the system to close its descriptor once; if the system agrees the object is
  closed, disconnected, not listening and has no descriptor.  On a closed object the operations that check for it
  (bind, connect, listen, accept, receive, receive_from, send, send_to, shutdown, set_buffer_size and
  io_condition_wait) fail with the error \<open>not available\<close>, make no system call and leave the object alone; closing it
  again succeeds without a system call.  The four that do not check (get_local_address, get_remote_address,
  check_connect_result, and set_keepalive with a new value) call the system with the descriptor -1.
\<close>

theorem socket_closed_is_dead:
  assumes "\<not> closed s" and "p_socket_close env (Some s) w = (True, Some t, w1)"
  shows "closed t \<and> \<not> connected t \<and> \<not> listening t \<and> fd t = -1 \<and> calls w1 = calls w @ [C_close (fd s)] \<and>
    (let v' = set_error env P_ERROR_IO_NOT_AVAILABLE 0 ''Socket is already closed'' v in
       p_socket_close env (Some t) v = (True, Some t, v) \<and>
       p_socket_bind env (Some t) (Some a) reuse v = (False, v') \<and>
       p_socket_connect env (Some t) (Some a) v = Some (False, Some t, v') \<and>
       p_socket_listen env (Some t) v = (False, Some t, v') \<and>
       p_socket_accept env (Some t) v = Some (None, v') \<and>
       p_socket_receive env (Some t) (Some buf) len v = Some (-1, Some buf, v') \<and>
       (len \<noteq> 0 \<longrightarrow> p_socket_receive_from env (Some t) want (Some buf) len v = Some (-1, None, Some buf, v')) \<and>
       (len \<noteq> 0 \<longrightarrow> p_socket_send env (Some t) (Some buf) len v = Some (-1, v')) \<and>
       p_socket_send_to env (Some t) (Some a) (Some buf) len v = Some (-1, v') \<and>
       p_socket_shutdown env (Some t) rd wr v = (False, Some t, v') \<and>
       p_socket_set_buffer_size env (Some t) dir sz v = (False, v') \<and>
       p_socket_io_condition_wait env (Some t) cond v = Some (False, v') \<and>
       calls v' = calls v) \<and>
    calls (snd (p_socket_get_local_address env (Some t) v)) = calls v @ [C_getsockname (-1)] \<and>
    calls (snd (p_socket_get_remote_address env (Some t) v)) = calls v @ [C_getpeername (-1)] \<and>
    calls (snd (snd (p_socket_check_connect_result env (Some t) v))) = calls v @ [C_getsockopt (-1) SO_ERROR] \<and>
    (keepalive t \<noteq> keep \<longrightarrow>
      calls (snd (p_socket_set_keepalive env (Some t) keep v)) = calls v @ [C_setsockopt (-1) SO_KEEPALIVE (if keep then 1 else 0)])"
proof -
  obtain r w0 where sc: "syscall env (C_close (fd s)) w = (r, w0)" by fastforce
  then have t: "t = s\<lparr>connected := False, closed := True, listening := False, fd := -1\<rparr>" "w1 = w0"
    using assms by (auto simp: p_socket_close_def p_sys_close_def Let_def split: if_splits)
  then have c: "closed t" by simp
  have others: "calls (snd (p_socket_get_local_address env (Some t) v)) = calls v @ [C_getsockname (-1)]"
    "calls (snd (p_socket_get_remote_address env (Some t) v)) = calls v @ [C_getpeername (-1)]"
    "calls (snd (snd (p_socket_check_connect_result env (Some t) v))) = calls v @ [C_getsockopt (-1) SO_ERROR]"
    "keepalive t \<noteq> keep \<Longrightarrow>
      calls (snd (p_socket_set_keepalive env (Some t) keep v)) = calls v @ [C_setsockopt (-1) SO_KEEPALIVE (if keep then 1 else 0)]"
    using t(1) by (auto simp: p_socket_get_local_address_def p_socket_get_remote_address_def p_socket_check_connect_result_def
        p_socket_set_keepalive_def Let_def syscall_simps split: prod.split option.split dest: syscall_calls)
  show ?thesis
    using c t syscall_calls[OF sc] others
    by (simp add: p_socket_close_def p_socket_bind_def p_socket_connect_def p_socket_listen_def p_socket_accept_def
        p_socket_receive_def p_socket_receive_from_def p_socket_send_def p_socket_send_to_def p_socket_shutdown_def
        p_socket_set_buffer_size_def p_socket_io_condition_wait_def)
qed

section \<open>The loop of blocking operations\<close>

text \<open>A round after which the loop tries again, and the results of a round that is the last.\<close>

definition io_again ::
  "'k socket_env \<Rightarrow> PSocketIOCondition \<Rightarrow> sys_call \<Rightarrow> PSocket \<Rightarrow> 'k world \<Rightarrow> 'k world \<Rightarrow> bool" where
  "io_again env cond call s w w2 \<longleftrightarrow>
     (\<exists>w1 r. p_socket_io_condition_wait env (Some s) cond w = Some (True, w1) \<and> syscall env call w1 = (r, w2) \<and>
             res r < 0 \<and> (is_eintr env (errno w2) \<or> io_error env (errno w2) = P_ERROR_IO_WOULD_BLOCK))"

definition io_last ::
  "'k socket_env \<Rightarrow> PSocketIOCondition \<Rightarrow> sys_call \<Rightarrow> string \<Rightarrow> PSocket \<Rightarrow> 'k world \<Rightarrow> reply option \<Rightarrow> 'k world \<Rightarrow> bool"
where
  "io_last env cond call msg s w out w' \<longleftrightarrow>
     p_socket_io_condition_wait env (Some s) cond w = Some (False, w') \<and> out = None \<or>
     (\<exists>w1 r w2. p_socket_io_condition_wait env (Some s) cond w = Some (True, w1) \<and> syscall env call w1 = (r, w2) \<and>
        (if res r < 0
         then \<not> is_eintr env (errno w2) \<and> io_error env (errno w2) \<noteq> P_ERROR_IO_WOULD_BLOCK \<and> out = None \<and>
              w' = set_error env (io_error env (errno w2)) (errno w2) msg w2
         else out = Some r \<and> w' = w2))"

lemma io_last_cases:
  "(\<exists>out. io_last env cond call msg s w out w' \<and> P out) \<longleftrightarrow>
     p_socket_io_condition_wait env (Some s) cond w = Some (False, w') \<and> P None \<or>
     (\<exists>w1 r w2. p_socket_io_condition_wait env (Some s) cond w = Some (True, w1) \<and> syscall env call w1 = (r, w2) \<and>
        (if res r < 0
         then \<not> is_eintr env (errno w2) \<and> io_error env (errno w2) \<noteq> P_ERROR_IO_WOULD_BLOCK \<and> P None \<and>
              w' = set_error env (io_error env (errno w2)) (errno w2) msg w2
         else P (Some r) \<and> w' = w2))"
  unfolding io_last_def by (rule iffI; elim exE conjE disjE) (fastforce split: if_splits)+

lemma io_loop_again:
  "blocking s \<Longrightarrow> io_again env cond call s w w2 \<Longrightarrow> io_loop env cond call msg s w = io_loop env cond call msg s w2"
  by (subst io_loop.simps) (auto simp: io_again_def pp_socket_get_errno_def Let_def)

lemma io_loop_last:
  "blocking s \<Longrightarrow> io_last env cond call msg s w out w' \<Longrightarrow> io_loop env cond call msg s w = Some (out, w')"
  by (subst io_loop.simps) (auto simp: io_last_def pp_socket_get_errno_def Let_def split: if_splits)

lemma io_loop_sound:
  assumes "io_loop env cond call msg s w = Some (out, w')"
  shows "blocking s \<longrightarrow> (\<exists>w1. (io_again env cond call s)\<^sup>*\<^sup>* w w1 \<and> io_last env cond call msg s w1 out w')"
proof -
  have "blocking s \<longrightarrow> (\<exists>w1. (io_again env cond call s)\<^sup>*\<^sup>* w w1 \<and> io_last env cond call msg s w1 (fst p) (snd p))"
    if "io_loop env cond call msg s w = Some p" for p
  proof (rule io_loop.raw_induct[where P = "\<lambda>env cond call msg s w p. blocking s \<longrightarrow>
        (\<exists>w1. (io_again env cond call s)\<^sup>*\<^sup>* w w1 \<and> io_last env cond call msg s w1 (fst p) (snd p))", OF _ that],
      goal_cases)
    case (1 loop env cond call msg s w p)
    show ?case
    proof
      assume b: "blocking s"
      then obtain ready w1 where wt: "p_socket_io_condition_wait env (Some s) cond w = Some (ready, w1)"
        using 1(2) by (auto split: option.splits bind_splits)
      show "\<exists>w1. (io_again env cond call s)\<^sup>*\<^sup>* w w1 \<and> io_last env cond call msg s w1 (fst p) (snd p)"
      proof (cases ready)
        case False
        then have "io_last env cond call msg s w (fst p) (snd p)" using 1(2) b wt by (auto simp: io_last_def)
        then show ?thesis by blast
      next
        case True
        obtain r w2 where sc: "syscall env call w1 = (r, w2)" by fastforce
        show ?thesis
        proof (cases "res r < 0 \<and> (is_eintr env (errno w2) \<or> io_error env (errno w2) = P_ERROR_IO_WOULD_BLOCK)")
          case True
          then have ag: "io_again env cond call s w w2" using wt \<open>ready\<close> sc by (auto simp: io_again_def)
          have "loop env cond call msg s w2 = Some p"
            using 1(2) b wt \<open>ready\<close> sc True by (auto simp: pp_socket_get_errno_def Let_def split: if_splits)
          then show ?thesis using 1(1) b ag converse_rtranclp_into_rtranclp[of "io_again env cond call s"] by meson
        next
          case False
          then have "io_last env cond call msg s w (fst p) (snd p)"
            using 1(2) b wt \<open>ready\<close> sc by (auto simp: io_last_def pp_socket_get_errno_def Let_def split: if_splits)
          then show ?thesis by blast
        qed
      qed
    qed
  qed
  from this[OF assms] show ?thesis by simp
qed

lemma io_loop_blocking:
  assumes "blocking s"
  shows "io_loop env cond call msg s w = Some (out, w') \<longleftrightarrow>
    (\<exists>w1. (io_again env cond call s)\<^sup>*\<^sup>* w w1 \<and> io_last env cond call msg s w1 out w')"
proof
  assume "\<exists>w1. (io_again env cond call s)\<^sup>*\<^sup>* w w1 \<and> io_last env cond call msg s w1 out w'"
  then obtain w1 where "(io_again env cond call s)\<^sup>*\<^sup>* w w1" "io_last env cond call msg s w1 out w'" by blast
  then show "io_loop env cond call msg s w = Some (out, w')"
    by (induction rule: converse_rtranclp_induct) (simp_all add: io_loop_again io_loop_last assms)
qed (use io_loop_sound assms in blast)

text \<open>
  C28.  Receiving on an open blocking object returns exactly when, after finitely many rounds in which the wait
  succeeds but the call is interrupted or would block, a round comes in which the wait fails (the result is -1
  with the error of the wait), the call fails for another reason (-1 with the library's code for it), or the call
  succeeds (its result, with the bytes in the buffer).  An interruption is never reported.
\<close>

theorem socket_blocking_receive:
  fixes s env len
  defines "again \<equiv> io_again env P_SOCKET_IO_CONDITION_POLLIN (C_recv (fd s) (socklen len)) s"
  assumes "\<not> closed s" and "blocking s"
  shows "p_socket_receive env (Some s) (Some buf) len w = Some (n, buf', w') \<longleftrightarrow>
    (\<exists>w1. again\<^sup>*\<^sup>* w w1 \<and>
       (p_socket_io_condition_wait env (Some s) P_SOCKET_IO_CONDITION_POLLIN w1 = Some (False, w') \<and>
          n = -1 \<and> buf' = Some buf \<or>
        (\<exists>w2 r w3. p_socket_io_condition_wait env (Some s) P_SOCKET_IO_CONDITION_POLLIN w1 = Some (True, w2) \<and>
           syscall env (C_recv (fd s) (socklen len)) w2 = (r, w3) \<and>
           (if res r < 0
            then \<not> is_eintr env (errno w3) \<and> io_error env (errno w3) \<noteq> P_ERROR_IO_WOULD_BLOCK \<and> n = -1 \<and>
                 buf' = Some buf \<and>
                 w' = set_error env (io_error env (errno w3)) (errno w3) ''Failed to call recv() on socket'' w3
            else n = res r \<and> buf' = Some (copy_at buf 0 (bytes r)) \<and> w' = w3))))"
proof -
  let ?last = "io_last env P_SOCKET_IO_CONDITION_POLLIN (C_recv (fd s) (socklen len)) ''Failed to call recv() on socket'' s"
  have "p_socket_receive env (Some s) (Some buf) len w = Some (n, buf', w') \<longleftrightarrow>
    (\<exists>out. (\<exists>w1. again\<^sup>*\<^sup>* w w1 \<and> ?last w1 out w') \<and>
       (case out of None \<Rightarrow> n = -1 \<and> buf' = Some buf | Some r \<Rightarrow> n = res r \<and> buf' = Some (copy_at buf 0 (bytes r))))"
    using assms(2,3)
    by (auto simp: p_socket_receive_def again_def io_loop_blocking[symmetric] split: option.splits bind_splits)
  also have "\<dots> \<longleftrightarrow> (\<exists>w1. again\<^sup>*\<^sup>* w w1 \<and> (\<exists>out. ?last w1 out w' \<and>
       (case out of None \<Rightarrow> n = -1 \<and> buf' = Some buf | Some r \<Rightarrow> n = res r \<and> buf' = Some (copy_at buf 0 (bytes r)))))"
    by blast
  finally show ?thesis by (simp only: io_last_cases option.case conj_assoc)
qed

section \<open>Connecting\<close>

text \<open>
  C29.  A call of \<open>connect\<close> that a signal interrupts goes on in the background, and the loop calls it again.  On a
  system that then answers that the socket is connected, the operation reports a failure and the object is not
  marked as connected, although the connection exists; if the second call says that the attempt is in progress, a
  blocking object waits for it and succeeds.
\<close>

theorem socket_connect_interrupted:
  assumes "\<not> closed s" "blocking s" "\<not> connected s"
    and "p_socket_address_to_native (addr_sys env) (Some a) True (sizeof_storage env) = Some sa"
    and "syscall env (C_connect (fd s) sa (p_socket_address_get_native_size (addr_sys env) (Some a))) w = (r1, w1)"
    and "res r1 = -1" "is_eintr env (errno w1)"
    and "syscall env (C_connect (fd s) sa (p_socket_address_get_native_size (addr_sys env) (Some a))) w1 = (r2, w2)"
    and "res r2 = -1" "\<not> is_eintr env (errno w2)"
  shows "(io_error env (errno w2) = P_ERROR_IO_CONNECTED \<longrightarrow>
            p_socket_connect env (Some s) (Some a) w =
              Some (False, Some s, set_error env P_ERROR_IO_CONNECTED (errno w2) ''Failed to call connect() on socket'' w2)) \<and>
         (io_error env (errno w2) = P_ERROR_IO_IN_PROGRESS \<and>
          p_socket_io_condition_wait env (Some s) P_SOCKET_IO_CONDITION_POLLOUT w2 = Some (True, w3) \<and>
          syscall env (C_getsockopt (fd s) SO_ERROR) w3 = (r4, w4) \<and> res r4 = 0 \<and> optval r4 = 0 \<longrightarrow>
            p_socket_connect env (Some s) (Some a) w = Some (True, Some (s\<lparr>connected := True\<rparr>), w4))"
proof -
  have "connect_loop env (C_connect (fd s) sa (p_socket_address_get_native_size (addr_sys env) (Some a))) w =
      Some (-1, errno w2, w2)"
    using assms(5-10) by (simp add: connect_loop.simps pp_socket_get_errno_def)
  then show ?thesis
    using assms(1-4) by (auto simp: p_socket_connect_def p_socket_check_connect_result_def Let_def)
qed

section \<open>Descriptors\<close>

lemma set_fd_blocking_calls:
  "pp_socket_set_fd_blocking env d b w = (ok, w') \<Longrightarrow>
     \<exists>arg. calls w' = calls w @ [C_fcntl_getfl d, C_fcntl_setfl d arg]"
  by (auto simp: pp_socket_set_fd_blocking_def Let_def dest!: syscall_calls split: prod.splits if_splits)

lemma set_cloexec_calls: "\<exists>cs. calls (set_cloexec env d w) = calls w @ cs \<and> (\<forall>x. C_close x \<notin> set cs)"
  by (auto simp: set_cloexec_def Let_def syscall_simps dest!: syscall_calls split: prod.splits)

lemma set_nosigpipe_calls: "\<exists>cs. calls (set_nosigpipe env d w) = calls w @ cs \<and> (\<forall>x. C_close x \<notin> set cs)"
  by (auto simp: set_nosigpipe_def syscall_simps)

text \<open>No closing among the calls added.\<close>

definition no_close :: "'k world \<Rightarrow> 'k world \<Rightarrow> bool" where
  "no_close w w' \<longleftrightarrow> (\<exists>cs. calls w' = calls w @ cs \<and> (\<forall>x. C_close x \<notin> set cs))"

lemma no_close_refl [simp]: "no_close w w" by (simp add: no_close_def)

lemma no_close_trans: "no_close u v \<Longrightarrow> no_close v w \<Longrightarrow> no_close u w"
  by (force simp: no_close_def)

lemma no_close_syscall: "syscall env c w = (r, w1) \<Longrightarrow> (\<And>x. c \<noteq> C_close x) \<Longrightarrow> no_close w w1"
  using syscall_calls[of env c w r w1] by (force simp: no_close_def)

lemma no_close_set_error [simp]:
  "no_close w (set_error env c n m v) = no_close w v" "no_close w (set_system_error env m v) = no_close w v"
  by (simp_all add: no_close_def)

lemma no_close_helpers:
  "no_close w (set_cloexec env d w)" "no_close w (set_nosigpipe env d w)"
  "pp_socket_set_fd_blocking env d b w = (ok, w') \<Longrightarrow> no_close w w'"
  using set_cloexec_calls set_nosigpipe_calls by (auto simp: no_close_def dest!: set_fd_blocking_calls)

lemma details_family_no_close: "details_family env d w = (f, w') \<Longrightarrow> no_close w w'"
  by (auto simp: details_family_def Let_def split: prod.splits if_splits
      intro: no_close_trans dest!: no_close_syscall)

lemma details_no_close: "pp_socket_set_details_from_fd env s w = (ok, s', w') \<Longrightarrow> no_close w w'"
  by (auto simp: pp_socket_set_details_from_fd_def Let_def split: prod.splits if_splits option.splits
      intro: no_close_trans dest!: no_close_syscall details_family_no_close)

lemma details_fd:
  "pp_socket_set_details_from_fd env s w = (ok, s', w') \<Longrightarrow> fd s' = fd s \<and> closed s' = closed s \<and> listening s' = listening s"
  by (auto simp: pp_socket_set_details_from_fd_def Let_def split: prod.splits if_splits option.splits)

lemma details_effect:
  "pp_socket_set_details_from_fd env s w = (ok, s', w') \<Longrightarrow>
     no_close w w' \<and> fd s' = fd s \<and> closed s' = closed s \<and> listening s' = listening s"
  using details_no_close details_fd by blast

lemma new_from_fd_no_close:
  assumes "p_socket_new_from_fd env d w = (ret, w')"
  shows "no_close w w' \<and> (\<forall>s. ret = Some s \<longrightarrow> fd s = d \<and> \<not> closed s \<and> blocking s \<and> timeout s = 0 \<and>
           listen_backlog s = P_SOCKET_DEFAULT_BACKLOG)"
  using assms
  by (auto simp: p_socket_new_from_fd_def p_socket_set_listen_backlog_def zero_socket_def
      split: prod.splits if_splits bool.splits dest!: details_effect no_close_helpers(3)
      intro: no_close_trans no_close_helpers(2))

lemma free_calls: "\<not> closed s \<Longrightarrow> calls (p_socket_free env (Some s) w) = calls w @ [C_close (fd s)]"
  by (auto simp: p_socket_free_def p_socket_close_def p_sys_close_def Let_def dest!: syscall_calls split: prod.splits)

lemma new_keeps_descriptor:
  assumes new: "p_socket_new env fam type prot w = (ret, w')"
  shows "case ret of
      Some s \<Rightarrow> fd s \<ge> 0 \<and> \<not> closed s \<and> sock_family s = fam \<and> sock_type s = type \<and> protocol s = prot \<and> no_close w w'
    | None \<Rightarrow> calls w' = calls w \<or>
        (\<exists>t r v. syscall env (C_socket fam t prot) w = (r, v) \<and>
           (if res r < 0 then calls w' = calls v else \<exists>u. no_close v u \<and> calls w' = calls u @ [C_close (res r)]))"
proof (cases "(fam = P_SOCKET_FAMILY_UNKNOWN \<or> type = P_SOCKET_TYPE_UNKNOWN \<or> prot = P_SOCKET_PROTOCOL_UNKNOWN) \<or>
    native_type env type = None \<or> \<not> mem_socket env")
  case True
  then show ?thesis using new by (auto simp: p_socket_new_def split: if_splits option.splits)
next
  case False
  then obtain t where t: "native_type env type = Some t" by auto
  obtain r v where sc: "syscall env (C_socket fam (t OR SOCK_CLOEXEC env) prot) w = (r, v)" by fastforce
  note v = no_close_syscall[OF sc]
  define s0 where "s0 = zero_socket\<lparr>fd := res r\<rparr>"
  have s0: "fd s0 = res r" "\<not> closed s0" "\<not> listening s0" by (simp_all add: s0_def zero_socket_def)
  show ?thesis
  proof (cases "res r < 0")
    case True
    then have "ret = None" "calls w' = calls v" using new False t sc by (auto simp: p_socket_new_def)
    then show ?thesis using sc True by auto
  next
    case ok: False
    obtain b v2 where sb: "pp_socket_set_fd_blocking env (res r) False (set_cloexec env (res r) v) = (b, v2)" by fastforce
    have u: "no_close v v2" using no_close_trans[OF no_close_helpers(1) no_close_helpers(3)[OF sb]] .
    show ?thesis
    proof (cases b)
      case True
      then have "ret = Some (s0\<lparr>timeout := 0, blocking := True, sock_family := fam, protocol := prot, sock_type := type,
          listen_backlog := P_SOCKET_DEFAULT_BACKLOG\<rparr>)" "w' = set_nosigpipe env (res r) v2"
        using new False t sc ok sb s0 by (auto simp: p_socket_new_def p_socket_set_listen_backlog_def s0_def)
      then show ?thesis using s0 ok no_close_trans[OF no_close_trans[OF v u] no_close_helpers(2)] by simp
    next
      case False
      then have "ret = None" "w' = p_socket_free env (Some s0) v2"
        using new \<open>\<not> (_ \<or> _)\<close> t sc ok sb s0 by (auto simp: p_socket_new_def s0_def)
      then show ?thesis using sc ok u free_calls[OF s0(2), of env v2] s0 by auto
    qed
  qed
qed

lemma accept_keeps_descriptor:
  assumes "\<not> closed s"
    and io: "io_loop env P_SOCKET_IO_CONDITION_POLLIN (C_accept (fd s)) ''Failed to call accept() on socket'' s w =
      Some (Some r, w1)"
    and acc: "p_socket_accept env (Some s) w = Some (ret, w')"
  shows "case ret of
      Some t \<Rightarrow> fd t = res r \<and> \<not> closed t \<and> protocol t = protocol s \<and> no_close w1 w'
    | None \<Rightarrow> \<exists>u. no_close w1 u \<and> calls w' = calls u @ [C_close (res r)]"
proof -
  obtain q u where nf: "p_socket_new_from_fd env (res r) (set_cloexec env (res r) w1) = (q, u)" by fastforce
  have u: "no_close w1 u" "\<And>t. q = Some t \<Longrightarrow> fd t = res r \<and> \<not> closed t"
    using new_from_fd_no_close[OF nf] no_close_trans[OF no_close_helpers(1)] by blast+
  show ?thesis
    using acc assms(1) io nf u
    by (auto simp: p_socket_accept_def p_sys_close_def Let_def syscall_simps split: option.splits prod.splits
        dest!: syscall_calls)
qed

text \<open>
  C30.  Descriptors are not lost.  When \<open>p_socket_new\<close> gets a descriptor from the system it either returns an open
  object that owns it, with the family, type and protocol asked for, and has closed nothing, or it returns NULL and
  its last call closes that descriptor; the same holds of the descriptor that \<open>p_socket_accept\<close> gets from its
  last \<open>accept\<close>, whose object takes over the protocol of the listening one.
\<close>

theorem socket_descriptors_kept:
  assumes "p_socket_new env fam type prot w = (ret, w')"
    and "\<not> closed s"
    and "io_loop env P_SOCKET_IO_CONDITION_POLLIN (C_accept (fd s)) ''Failed to call accept() on socket'' s v =
      Some (Some r, v1)"
    and "p_socket_accept env (Some s) v = Some (acc, v')"
  shows "(case ret of
      Some t \<Rightarrow> fd t \<ge> 0 \<and> \<not> closed t \<and> sock_family t = fam \<and> sock_type t = type \<and> protocol t = prot \<and> no_close w w'
    | None \<Rightarrow> calls w' = calls w \<or>
        (\<exists>nt q u. syscall env (C_socket fam nt prot) w = (q, u) \<and>
           (if res q < 0 then calls w' = calls u else \<exists>x. no_close u x \<and> calls w' = calls x @ [C_close (res q)]))) \<and>
    (case acc of
      Some t \<Rightarrow> fd t = res r \<and> \<not> closed t \<and> protocol t = protocol s \<and> no_close v1 v'
    | None \<Rightarrow> \<exists>x. no_close v1 x \<and> calls v' = calls x @ [C_close (res r)])"
  using new_keeps_descriptor[OF assms(1)] accept_keeps_descriptor[OF assms(2-4)] by blast

section \<open>Lengths\<close>

text \<open>
  The length of the data is cut to the 32 bits of \<open>socklen_t\<close>: a non-blocking object hands over to the system
  only the first \<open>buflen mod 2^32\<close> bytes, so that of 2^32 bytes none are sent, and an operation that sends at
  once returns what the system says of those.
\<close>

theorem socket_send_truncates:
  assumes "\<not> closed s" "\<not> blocking s" "buflen \<noteq> 0"
    and sent: "syscall env (C_send (fd s) (take (unat buflen mod 2 ^ 32) buf)) w = (r, w1)" "0 \<le> res r"
  shows "p_socket_send env (Some s) (Some buf) buflen w = Some (res r, w1) \<and>
         calls w1 = calls w @ [C_send (fd s) (take (unat buflen mod 2 ^ 32) buf)]"
proof -
  have len: "socklen buflen = unat buflen mod 2 ^ 32"
    by (simp add: socklen_def unsigned_ucast_eq take_bit_eq_mod)
  show ?thesis
    using assms syscall_calls[OF sent(1)] by (subst p_socket_send_def) (simp add: len io_loop.simps)
qed

section \<open>Concrete runs\<close>

text \<open>A little-endian system that reads its answers from a list, with the error numbers of Linux.\<close>

definition some_errnos :: "string \<Rightarrow> int option" where
  "some_errnos = [''EINTR'' \<mapsto> 4, ''EAGAIN'' \<mapsto> 11, ''EWOULDBLOCK'' \<mapsto> 11, ''EISCONN'' \<mapsto> 106, ''EINPROGRESS'' \<mapsto> 115]"

definition script_env :: "reply list socket_env" where
  "script_env = \<lparr>answer = (\<lambda>c rs. (hd rs, tl rs)), errnos = some_errnos,
     addr_sys = \<lparr>big_endian = False, sizeof_sockaddr_in = 16, sizeof_sockaddr_in6 = 28, has_flowinfo = True,
       has_scopeid = True, has_getaddrinfo = True\<rparr>,
     O_NONBLOCK = 2048, FD_CLOEXEC = 1, SOCK_CLOEXEC = 524288, SOCK_STREAM = 1, SOCK_DGRAM = 2, SOCK_SEQPACKET = 5,
     has_so_domain = True, has_so_reuseport = True, has_so_nosigpipe = False, sizeof_storage = 128,
     mem_socket = True, mem_address = True, mem_error = True, mem_message = True, stack_address = sockaddr_other 0\<rparr>"

definition answered :: "int \<Rightarrow> int \<Rightarrow> byte list \<Rightarrow> reply" where
  "answered n e bs = \<lparr>res = n, err_no = e, optval = 0, optlen = 4, name = None, name_len = 0, bytes = bs\<rparr>"

definition start :: "reply list \<Rightarrow> reply list world" where
  "start rs = \<lparr>kernel = rs, errno = 0, error = Some None, calls = []\<rparr>"

definition tcp_socket :: PSocket where
  "tcp_socket = zero_socket\<lparr>sock_family := P_SOCKET_FAMILY_INET, protocol := P_SOCKET_PROTOCOL_TCP,
     sock_type := P_SOCKET_TYPE_STREAM, fd := 3, blocking := True\<rparr>"

definition localhost :: PSocketAddress where
  "localhost = \<lparr>family = P_SOCKET_FAMILY_INET, addr = [127, 0, 0, 1] @ replicate 12 0, port = 80, flowinfo = 0,
     scope_id = 0\<rparr>"

lemma script_simps [simp]:
  "closed tcp_socket = False" "blocking tcp_socket" "\<not> connected tcp_socket" "fd tcp_socket = 3"
  "timeout tcp_socket = 0" "protocol tcp_socket = P_SOCKET_PROTOCOL_TCP"
  "res (answered n e bs) = n" "err_no (answered n e bs) = e" "bytes (answered n e bs) = bs"
  "optval (answered n e bs) = 0" "optlen (answered n e bs) = 4" "name_len (answered n e bs) = 0"
  "name (answered n e bs) = None"
  by (simp_all add: tcp_socket_def zero_socket_def answered_def)

lemma script_fields [simp]:
  "mem_socket script_env" "native_type script_env P_SOCKET_TYPE_STREAM = Some 1" "FD_CLOEXEC script_env = 1"
  "has_so_nosigpipe script_env = False" "has_so_domain script_env"
  by (simp_all add: script_env_def)

lemma script_syscall:
  "syscall script_env c w =
     (hd (kernel w), w\<lparr>kernel := tl (kernel w), errno := (if res (hd (kernel w)) < 0 then err_no (hd (kernel w)) else errno w),
        calls := calls w @ [c]\<rparr>)"
  by (simp add: syscall_def script_env_def)

lemma script_errors [simp]:
  "is_eintr script_env e \<longleftrightarrow> e = 4" "io_error script_env 11 = P_ERROR_IO_WOULD_BLOCK"
  "io_error script_env 106 = P_ERROR_IO_CONNECTED" "io_error script_env 115 = P_ERROR_IO_IN_PROGRESS"
  by (auto simp: is_eintr_def io_error_def p_error_get_io_from_system_def switch_code_def script_env_def some_errnos_def
      io_cases_posix_def)

text \<open>A connection that is closed and then read from: the second operation asks the system nothing.\<close>

theorem socket_closed_is_dead_witness:
  "\<exists>t w1 w2. p_socket_close script_env (Some tcp_socket) (start [answered 0 0 []]) = (True, Some t, w1) \<and>
     calls w1 = [C_close 3] \<and> fd t = -1 \<and>
     p_socket_receive script_env (Some t) (Some [0]) 1 w1 = Some (-1, Some [0], w2) \<and> calls w2 = [C_close 3]"
proof -
  obtain t w1 where c: "p_socket_close script_env (Some tcp_socket) (start [answered 0 0 []]) = (True, Some t, w1)"
    by (simp add: p_socket_close_def p_sys_close_def script_syscall start_def)
  show ?thesis
    using c socket_closed_is_dead[OF _ c, where v = w1 and buf = "[0]" and len = 1]
    by (simp add: Let_def start_def)
qed

text \<open>The world after some calls, with the answers that are left.\<close>

definition midway :: "reply list \<Rightarrow> int \<Rightarrow> sys_call list \<Rightarrow> reply list world" where
  "midway rs e cs = \<lparr>kernel = rs, errno = e, error = Some None, calls = cs\<rparr>"

lemma midway_syscall:
  "syscall script_env c (midway (r # rs) e cs) = (r, midway rs (if res r < 0 then err_no r else e) (cs @ [c]))"
  by (simp add: script_syscall midway_def)

lemma midway_simps [simp]:
  "errno (midway rs e cs) = e" "kernel (midway rs e cs) = rs" "calls (midway rs e cs) = cs"
  by (simp_all add: midway_def)

lemma midway_ready:
  "p_socket_io_condition_wait script_env (Some tcp_socket) cond (midway (answered 1 n [] # rs) e cs) =
     Some (True, midway rs e (cs @ [C_poll 3 cond (-1)]))"
  by (simp add: p_socket_io_condition_wait_def poll_loop.simps midway_syscall pp_socket_get_errno_def poll_call_def)

text \<open>
  A system that interrupts the first call and wakes the object in vain before the second; the bytes arrive
  in the third round.
\<close>

theorem socket_blocking_receive_witness:
  "\<exists>w'. p_socket_receive script_env (Some tcp_socket) (Some [0, 0, 0, 0]) 4
     (midway [answered 1 0 [], answered (-1) 4 [], answered 1 0 [], answered (-1) 11 [], answered 1 0 [],
              answered 2 0 [72, 105]] 0 []) = Some (2, Some [72, 105, 0, 0], w')"
proof -
  let ?again = "io_again script_env P_SOCKET_IO_CONDITION_POLLIN (C_recv (fd tcp_socket) (socklen 4)) tcp_socket"
  have retry: "\<exists>cs'. ?again (midway (answered 1 0 [] # answered (-1) v [] # rs) e cs) (midway rs v cs')"
    if "v = 4 \<or> v = 11" for v rs e cs
    using that by (auto simp: io_again_def midway_ready midway_syscall)
  define rs where "rs = [answered 1 0 [], answered 2 0 [72, 105 :: byte]]"
  obtain cs1 where 1: "?again (midway (answered 1 0 [] # answered (-1) 4 [] # answered 1 0 [] # answered (-1) 11 [] # rs) 0 [])
      (midway (answered 1 0 [] # answered (-1) 11 [] # rs) 4 cs1)" using retry by blast
  obtain cs2 where 2: "?again (midway (answered 1 0 [] # answered (-1) 11 [] # rs) 4 cs1) (midway rs 11 cs2)"
    using retry by blast
  have run: "?again\<^sup>*\<^sup>* (midway (answered 1 0 [] # answered (-1) 4 [] # answered 1 0 [] # answered (-1) 11 [] # rs) 0 [])
      (midway rs 11 cs2)"
    using 1 2 by (meson converse_rtranclp_into_rtranclp rtranclp.rtrancl_refl)
  let ?last = "answered 2 0 [72, 105]"
  have wt: "p_socket_io_condition_wait script_env (Some tcp_socket) P_SOCKET_IO_CONDITION_POLLIN (midway rs 11 cs2) =
      Some (True, midway [?last] 11 (cs2 @ [C_poll 3 P_SOCKET_IO_CONDITION_POLLIN (-1)]))"
    unfolding rs_def by (rule midway_ready)
  obtain w' where sc: "syscall script_env (C_recv (fd tcp_socket) (socklen 4))
      (midway [?last] 11 (cs2 @ [C_poll 3 P_SOCKET_IO_CONDITION_POLLIN (-1)])) = (?last, w')"
    by (simp add: midway_syscall)
  have "p_socket_receive script_env (Some tcp_socket) (Some [0, 0, 0, 0]) 4
      (midway (answered 1 0 [] # answered (-1) 4 [] # answered 1 0 [] # answered (-1) 11 [] # rs) 0 []) =
      Some (res ?last, Some (copy_at [0, 0, 0, 0] 0 (bytes ?last)), w')"
    by (rule iffD2[OF socket_blocking_receive]; (intro exI conjI, rule run, intro disjI2 exI conjI, rule wt, rule sc)?) simp_all
  then show ?thesis by (simp add: rs_def copy_at_def)
qed

text \<open>The first call is interrupted, the second is told that the socket is connected.\<close>

theorem socket_connect_interrupted_witness:
  "\<exists>w'. p_socket_connect script_env (Some tcp_socket) (Some localhost) (midway [answered (-1) 4 [], answered (-1) 106 []] 0 []) =
     Some (False, Some tcp_socket, w')"
proof -
  obtain sa where sa: "p_socket_address_to_native (addr_sys script_env) (Some localhost) True (sizeof_storage script_env) = Some sa"
    by (simp add: script_env_def localhost_def p_socket_address_to_native_def)
  show ?thesis
    using socket_connect_interrupted[OF _ _ _ sa midway_syscall _ _ midway_syscall, where s = tcp_socket]
    by auto
qed

text \<open>
  Making a socket fails when it cannot be made non-blocking, and accepting when memory is short of an answer;
  both descriptors are closed.
\<close>

theorem socket_descriptors_kept_witness:
  "\<exists>w' v'. p_socket_new script_env P_SOCKET_FAMILY_INET P_SOCKET_TYPE_STREAM P_SOCKET_PROTOCOL_TCP
       (midway [answered 7 0 [], answered 1 0 [], answered 0 0 [], answered (-1) 9 [], answered 0 0 []] 0 []) = (None, w') \<and>
     last (calls w') = C_close 7 \<and>
     p_socket_accept script_env (Some tcp_socket)
       (midway [answered 1 0 [], answered 8 0 [], answered 1 0 [], answered (-1) 9 [], answered 0 0 []] 0 []) = Some (None, v') \<and>
     last (calls v') = C_close 8"
proof -
  let ?ws = "[answered 7 0 [], answered 1 0 [], answered 0 0 [], answered (-1) 9 [], answered 0 0 []]"
  let ?vs = "[answered 1 0 [], answered 8 0 [], answered 1 0 [], answered (-1) 9 [], answered 0 0 []]"
  obtain w' where new: "p_socket_new script_env P_SOCKET_FAMILY_INET P_SOCKET_TYPE_STREAM P_SOCKET_PROTOCOL_TCP
      (midway ?ws 0 []) = (None, w')" and ne: "calls w' \<noteq> []"
    by (simp add: p_socket_new_def midway_syscall set_cloexec_def pp_socket_set_fd_blocking_def Let_def zero_socket_def
        free_calls)
  obtain v1 where io: "io_loop script_env P_SOCKET_IO_CONDITION_POLLIN (C_accept (fd tcp_socket))
      ''Failed to call accept() on socket'' tcp_socket (midway ?vs 0 []) = Some (Some (answered 8 0 []), v1)"
    by (simp add: io_loop.simps midway_ready midway_syscall)
  obtain v' where acc: "p_socket_accept script_env (Some tcp_socket) (midway ?vs 0 []) = Some (None, v')"
    by (simp add: p_socket_accept_def io_loop.simps midway_ready midway_syscall set_cloexec_def p_socket_new_from_fd_def
        pp_socket_set_details_from_fd_def Let_def)
  show ?thesis
    using new acc ne socket_descriptors_kept[OF new _ io acc] by (auto simp: midway_syscall)
qed

text \<open>A buffer of 2^32 bytes: the system is asked to send no byte and the result is 0.\<close>

theorem socket_send_truncates_witness:
  "p_socket_send script_env (Some (tcp_socket\<lparr>blocking := False\<rparr>)) (Some buf) (2 ^ 32) (midway [answered 0 0 []] 0 []) =
     Some (0, midway [] 0 [C_send 3 []])"
  using socket_send_truncates[of "tcp_socket\<lparr>blocking := False\<rparr>" "2 ^ 32" script_env buf "midway [answered 0 0 []] 0 []"]
  by (simp add: midway_syscall)

end
