(* ===== verification/PUThread.thy ===== *)
theory PUThread
  imports PAtomic "HOL-Library.Signed_Division"
begin

text \<open>
  Threads (\<open>puthread.c\<close>, with the native part of \<open>puthread-posix.c\<close> and the spin lock of \<open>pspinlock-sync.c\<close>):
  reference-counted thread objects, the value each native thread keeps for itself, and the spin lock that keeps
  a new thread from running before its object is filled in.  An access to an object that was freed has the value
  \<open>None\<close>.
\<close>

section \<open>The spin lock\<close>

record PSpinLock =
  spin :: pint

definition p_spinlock_new :: "bool \<Rightarrow> PSpinLock option" where
  "p_spinlock_new mem = (if \<not> mem then None else Some \<lparr>spin = 0\<rparr>)"

text \<open>One round of the loop of \<open>p_spinlock_lock\<close>; \<open>None\<close> if the lock is taken and the caller goes on spinning.\<close>

definition spin_acquire :: "PSpinLock \<Rightarrow> PSpinLock option" where
  "spin_acquire lk =
     (case p_atomic_int_compare_and_exchange (spin lk) 0 1 of
        (v, success) \<Rightarrow> if success then Some (lk\<lparr>spin := v\<rparr>) else None)"

definition p_spinlock_trylock :: "PSpinLock option \<Rightarrow> PSpinLock option \<times> bool" where
  "p_spinlock_trylock lock =
     (case lock of
        None \<Rightarrow> (None, False)
      | Some lk \<Rightarrow>
          (case p_atomic_int_compare_and_exchange (spin lk) 0 1 of (v, success) \<Rightarrow> (Some (lk\<lparr>spin := v\<rparr>), success)))"

definition spin_release :: "PSpinLock \<Rightarrow> PSpinLock" where
  "spin_release lk = lk\<lparr>spin := 0\<rparr>"

definition p_spinlock_lock :: "PSpinLock option \<Rightarrow> (PSpinLock option \<times> bool) option" where
  "p_spinlock_lock lock =
     (case lock of
        None \<Rightarrow> Some (None, False)
      | Some lk \<Rightarrow> map_option (\<lambda>lk'. (Some lk', True)) (spin_acquire lk))"

definition p_spinlock_unlock :: "PSpinLock option \<Rightarrow> PSpinLock option \<times> bool" where
  "p_spinlock_unlock lock = (case lock of None \<Rightarrow> (None, False) | Some lk \<Rightarrow> (Some (spin_release lk), True))"

section \<open>Native threads\<close>

datatype PUThreadPriority =
    P_UTHREAD_PRIORITY_INHERIT
  | P_UTHREAD_PRIORITY_IDLE
  | P_UTHREAD_PRIORITY_LOWEST
  | P_UTHREAD_PRIORITY_LOW
  | P_UTHREAD_PRIORITY_NORMAL
  | P_UTHREAD_PRIORITY_HIGH
  | P_UTHREAD_PRIORITY_HIGHEST
  | P_UTHREAD_PRIORITY_TIMECRITICAL

fun priority_code :: "PUThreadPriority \<Rightarrow> int" where
  "priority_code P_UTHREAD_PRIORITY_INHERIT = 0"
| "priority_code P_UTHREAD_PRIORITY_IDLE = 1"
| "priority_code P_UTHREAD_PRIORITY_LOWEST = 2"
| "priority_code P_UTHREAD_PRIORITY_LOW = 3"
| "priority_code P_UTHREAD_PRIORITY_NORMAL = 4"
| "priority_code P_UTHREAD_PRIORITY_HIGH = 5"
| "priority_code P_UTHREAD_PRIORITY_HIGHEST = 6"
| "priority_code P_UTHREAD_PRIORITY_TIMECRITICAL = 7"

text \<open>
  The native priority and policy; \<open>sched_idle\<close> is the policy \<open>SCHED_IDLE\<close> if the system has it, \<open>bounds\<close> gives the
  lowest and the highest priority of a policy.  The division is that of C.
\<close>

definition pp_uthread_get_unix_priority ::
  "int option \<Rightarrow> (int \<Rightarrow> int \<times> int) \<Rightarrow> PUThreadPriority \<Rightarrow> int \<Rightarrow> (int \<times> int) option" where
  "pp_uthread_get_unix_priority sched_idle bounds prio sched_policy =
     (if sched_idle \<noteq> None \<and> prio = P_UTHREAD_PRIORITY_IDLE then Some (the sched_idle, 0)
      else
        (let lowBound = priority_code (if sched_idle \<noteq> None then P_UTHREAD_PRIORITY_LOWEST else P_UTHREAD_PRIORITY_IDLE);
             upperBound = priority_code P_UTHREAD_PRIORITY_TIMECRITICAL;
             (prio_min, prio_max) = bounds sched_policy
         in if prio_min = -1 \<or> prio_max = -1 then None
            else
              (let native_prio = ((priority_code prio - lowBound) * (prio_max - prio_min)) sdiv upperBound + prio_min;
                   native_prio = (if native_prio > prio_max then prio_max else native_prio);
                   native_prio = (if native_prio < prio_min then prio_min else native_prio)
               in Some (sched_policy, native_prio))))"

record thread_attr =
  detached :: bool
  inherit_sched :: bool
  policy :: int
  sched_priority :: int
  stack :: nat

datatype create_code = Created | Not_permitted | Not_created

text \<open>What the system answers: which calls succeed, the range of priorities, the smallest stack, the outcome of each
  of the two attempts to make the thread.\<close>

record pthreads =
  mem_thread :: bool
  attr_init :: "thread_attr option"
  set_detach :: bool
  get_policy :: bool
  set_inherit :: "bool \<Rightarrow> bool"
  set_policy :: bool
  set_param :: bool
  idle_policy :: "int option"
  prio_range :: "int \<Rightarrow> int \<times> int"
  min_stack :: int
  set_stack :: bool
  native_create :: "nat \<Rightarrow> thread_attr \<Rightarrow> create_code"

text \<open>\<open>attr1 \<noteq> 0 || attr2 \<noteq> 0 || attr3 \<noteq> 0\<close> stops at the first call that fails.\<close>

definition set_priority_attr :: "pthreads \<Rightarrow> PUThreadPriority \<Rightarrow> thread_attr \<Rightarrow> thread_attr" where
  "set_priority_attr env prio attr =
     (if prio = P_UTHREAD_PRIORITY_INHERIT then
        (if set_inherit env True then attr\<lparr>inherit_sched := True\<rparr> else attr)
      else if \<not> get_policy env then attr
      else (case pp_uthread_get_unix_priority (idle_policy env) (prio_range env) prio (policy attr) of
          None \<Rightarrow> attr
        | Some (pol, native_prio) \<Rightarrow>
            if \<not> set_inherit env False then attr
            else (let a1 = attr\<lparr>inherit_sched := False\<rparr>
                  in if \<not> set_policy env then a1
                     else (let a2 = a1\<lparr>policy := pol\<rparr>
                           in if \<not> set_param env then a2 else a2\<lparr>sched_priority := native_prio\<rparr>))))"

definition set_stack_attr :: "pthreads \<Rightarrow> nat \<Rightarrow> thread_attr \<Rightarrow> thread_attr" where
  "set_stack_attr env stack_size attr =
     (if stack_size > 0 then
        (let sz = (if min_stack env > 0 \<and> stack_size < nat (min_stack env) then nat (min_stack env) else stack_size)
         in if set_stack env then attr\<lparr>stack := sz\<rparr> else attr)
      else attr)"

text \<open>The attributes the thread was made with, if it was made; without permission it is tried again.\<close>

definition p_uthread_create_internal ::
  "pthreads \<Rightarrow> bool \<Rightarrow> PUThreadPriority \<Rightarrow> nat \<Rightarrow> thread_attr option" where
  "p_uthread_create_internal env joinable prio stack_size =
     (if \<not> mem_thread env then None
      else (case attr_init env of
          None \<Rightarrow> None
        | Some attr \<Rightarrow>
            if \<not> set_detach env then None
            else
              (let attr = attr\<lparr>detached := \<not> joinable\<rparr>;
                   attr = set_priority_attr env prio attr;
                   attr = set_stack_attr env stack_size attr
               in case native_create env 0 attr of
                    Created \<Rightarrow> Some attr
                  | Not_created \<Rightarrow> None
                  | Not_permitted \<Rightarrow>
                      (let attr = (if set_inherit env True then attr\<lparr>inherit_sched := True\<rparr> else attr)
                       in if native_create env 1 attr = Created then Some attr else None))))"

section \<open>Objects\<close>

record PUThreadBase =
  ref_count :: pint
  ret_code :: int
  ours :: bool
  joinable :: bool
  func :: "nat option"
  data :: nat
  prio :: PUThreadPriority

definition zero_thread :: PUThreadBase where
  "zero_thread = \<lparr>ref_count = 0, ret_code = 0, ours = False, joinable = False, func = None, data = 0,
     prio = P_UTHREAD_PRIORITY_INHERIT\<rparr>"

text \<open>A native thread is known by the object it was made for, or it is one the library did not make.\<close>

datatype tid = Ours nat | Foreign nat

text \<open>The objects, what each native thread keeps in its own slot, and the spin lock.\<close>

record uthreads =
  objs :: "nat \<Rightarrow> PUThreadBase option"
  slot :: "tid \<Rightarrow> nat option"
  new_spin :: PSpinLock
  next_obj :: nat

definition p_uthread_ref :: "nat option \<Rightarrow> uthreads \<Rightarrow> uthreads option" where
  "p_uthread_ref thread st =
     (case thread of
        None \<Rightarrow> Some st
      | Some p \<Rightarrow>
          (case objs st p of
             None \<Rightarrow> None
           | Some b \<Rightarrow> Some (st\<lparr>objs := (objs st)(p \<mapsto> b\<lparr>ref_count := p_atomic_int_inc (ref_count b)\<rparr>)\<rparr>)))"

definition p_uthread_unref :: "nat option \<Rightarrow> uthreads \<Rightarrow> uthreads option" where
  "p_uthread_unref thread st =
     (case thread of
        None \<Rightarrow> Some st
      | Some p \<Rightarrow>
          (case objs st p of
             None \<Rightarrow> None
           | Some b \<Rightarrow>
               (case p_atomic_int_dec_and_test (ref_count b) of
                  (c, zero) \<Rightarrow>
                    Some (st\<lparr>objs := (objs st)(p := (if zero then None else Some (b\<lparr>ref_count := c\<rparr>)))\<rparr>))))"

text \<open>The destructor of the slot, which runs when a native thread ends.\<close>

definition pp_uthread_cleanup :: "tid \<Rightarrow> uthreads \<Rightarrow> uthreads option" where
  "pp_uthread_cleanup t st =
     (case slot st t of
        None \<Rightarrow> Some st
      | Some p \<Rightarrow> map_option (\<lambda>st'. st'\<lparr>slot := (slot st')(t := None)\<rparr>) (p_uthread_unref (Some p) st))"

definition p_uthread_current :: "bool \<Rightarrow> tid \<Rightarrow> uthreads \<Rightarrow> nat option \<times> uthreads" where
  "p_uthread_current mem t st =
     (case slot st t of
        Some p \<Rightarrow> (Some p, st)
      | None \<Rightarrow>
          if \<not> mem then (None, st)
          else
            (let p = next_obj st
             in (Some p, st\<lparr>objs := (objs st)(p \<mapsto> zero_thread\<lparr>ref_count := 1\<rparr>), slot := (slot st)(t \<mapsto> p),
                            next_obj := Suc p\<rparr>)))"

text \<open>The second part of the result says whether the native thread ends.\<close>

definition p_uthread_exit :: "bool \<Rightarrow> int \<Rightarrow> tid \<Rightarrow> uthreads \<Rightarrow> (uthreads \<times> bool) option" where
  "p_uthread_exit mem c t st =
     (case p_uthread_current mem t st of
        (None, st1) \<Rightarrow> Some (st1, False)
      | (Some p, st1) \<Rightarrow>
          (case objs st1 p of
             None \<Rightarrow> None
           | Some b \<Rightarrow>
               if \<not> ours b then Some (st1, False)
               else Some (st1\<lparr>objs := (objs st1)(p \<mapsto> b\<lparr>ret_code := c\<rparr>)\<rparr>, True)))"

text \<open>
  \<open>ended\<close>: \<open>pthread_join\<close> comes back, because the native thread has ended or with an error that is only logged; until
  then the caller waits.
\<close>

datatype join_result = Waits | Freed | Returned int

definition p_uthread_join :: "nat option \<Rightarrow> bool \<Rightarrow> uthreads \<Rightarrow> join_result" where
  "p_uthread_join thread ended st =
     (case thread of
        None \<Rightarrow> Returned (-1)
      | Some p \<Rightarrow>
          (case objs st p of
             None \<Rightarrow> Freed
           | Some b \<Rightarrow>
               if \<not> joinable b then Returned (-1)
               else if \<not> ended then Waits
               else Returned (ret_code b)))"

text \<open>
  \<open>now\<close> is the policy of the native thread, if the system tells it; \<open>set_sched\<close> says whether the system takes a
  policy and a priority.
\<close>

definition p_uthread_set_priority ::
  "int option \<Rightarrow> (int \<Rightarrow> int \<times> int) \<Rightarrow> int option \<Rightarrow> (int \<Rightarrow> int \<Rightarrow> bool) \<Rightarrow> PUThreadBase option \<Rightarrow> PUThreadPriority
    \<Rightarrow> PUThreadBase option \<times> bool" where
  "p_uthread_set_priority sched_idle bounds now set_sched thread pr =
     (case thread of
        None \<Rightarrow> (None, False)
      | Some b \<Rightarrow>
          (case now of
             None \<Rightarrow> (Some b, False)
           | Some pol \<Rightarrow>
               (case pp_uthread_get_unix_priority sched_idle bounds pr pol of
                  None \<Rightarrow> (Some b, False)
                | Some (pol', native_prio) \<Rightarrow>
                    if \<not> set_sched pol' native_prio then (Some b, False) else (Some (b\<lparr>prio := pr\<rparr>), True))))"

section \<open>Sleeping\<close>

text \<open>The answers of \<open>nanosleep\<close>: slept to the end, interrupted with this time left, or another error.\<close>

datatype slept = Slept | Interrupted "int \<times> int" | Sleep_failed

text \<open>The result; \<open>None\<close> as long as every call was interrupted.\<close>

fun sleep_loop :: "int \<times> int \<Rightarrow> slept list \<Rightarrow> pint option" where
  "sleep_loop time_req [] = None"
| "sleep_loop time_req (Slept # as) = Some 0"
| "sleep_loop time_req (Interrupted time_rem # as) = sleep_loop time_rem as"
| "sleep_loop time_req (Sleep_failed # as) = Some (-1)"

definition p_uthread_sleep :: "32 word \<Rightarrow> slept list \<Rightarrow> pint option" where
  "p_uthread_sleep msec as = sleep_loop (uint (msec div 1000), uint (msec mod 1000) * 1000000) as"

section \<open>Making a thread\<close>

record create_args =
  a_func :: "nat option"
  a_data :: nat
  a_joinable :: bool
  a_prio :: PUThreadPriority
  a_stack :: nat

text \<open>
  \<open>p_uthread_create_full\<close> between accesses to shared memory: taking the spin lock, making the native thread with
  its object (\<open>None\<close> when the system refuses), filling the object in, and giving the lock up.
\<close>

definition create_native :: "pthreads \<Rightarrow> create_args \<Rightarrow> uthreads \<Rightarrow> nat option \<times> uthreads" where
  "create_native env a st =
     (case p_uthread_create_internal env (a_joinable a) (a_prio a) (a_stack a) of
        None \<Rightarrow> (None, st)
      | Some _ \<Rightarrow>
          (let p = next_obj st
           in (Some p, st\<lparr>objs := (objs st)(p \<mapsto> zero_thread\<lparr>joinable := a_joinable a, prio := a_prio a\<rparr>),
                          next_obj := Suc p\<rparr>)))"

definition create_fill :: "create_args \<Rightarrow> nat option \<Rightarrow> uthreads \<Rightarrow> uthreads option" where
  "create_fill a base_thread st =
     (case base_thread of
        None \<Rightarrow> Some st
      | Some p \<Rightarrow>
          (case objs st p of
             None \<Rightarrow> None
           | Some b \<Rightarrow>
               Some (st\<lparr>objs := (objs st)(p \<mapsto> b\<lparr>ref_count := 2, ours := True, joinable := a_joinable a,
                                                  func := a_func a, data := a_data a\<rparr>)\<rparr>)))"

definition p_uthread_create :: "nat option \<Rightarrow> nat \<Rightarrow> bool \<Rightarrow> create_args" where
  "p_uthread_create f d j =
     \<lparr>a_func = f, a_data = d, a_joinable = j, a_prio = P_UTHREAD_PRIORITY_INHERIT, a_stack = 0\<rparr>"

text \<open>Where a thread is: in the proxy that starts it, in its own code, making another thread, or ended.\<close>

datatype ut_pc =
    Proxy_start
  | Proxy_lock
  | Proxy_unlock
  | Proxy_call
  | Running
  | Create_lock create_args
  | Create_make create_args
  | Create_fill create_args "nat option"
  | Create_unlock "nat option"
  | Ended

text \<open>The steps of a thread inside the library; \<open>None\<close> if it spins or meets an object that was freed.\<close>

fun pp_uthread_proxy :: "nat \<Rightarrow> uthreads \<Rightarrow> ut_pc \<Rightarrow> (uthreads \<times> ut_pc) option" where
  "pp_uthread_proxy p st Proxy_start = Some (st\<lparr>slot := (slot st)(Ours p \<mapsto> p)\<rparr>, Proxy_lock)"
| "pp_uthread_proxy p st Proxy_lock =
     (case spin_acquire (new_spin st) of
        None \<Rightarrow> None
      | Some lk \<Rightarrow> Some (st\<lparr>new_spin := lk\<rparr>, Proxy_unlock))"
| "pp_uthread_proxy p st Proxy_unlock = Some (st\<lparr>new_spin := spin_release (new_spin st)\<rparr>, Proxy_call)"
| "pp_uthread_proxy p st Proxy_call =
     (case objs st p of
        None \<Rightarrow> None
      | Some b \<Rightarrow> (case func b of None \<Rightarrow> None | Some _ \<Rightarrow> Some (st, Running)))"
| "pp_uthread_proxy p st _ = None"

fun p_uthread_create_full :: "pthreads \<Rightarrow> uthreads \<Rightarrow> ut_pc \<Rightarrow> (uthreads \<times> ut_pc) option" where
  "p_uthread_create_full env st (Create_lock a) =
     (if a_func a = None then Some (st, Running)
      else (case spin_acquire (new_spin st) of
          None \<Rightarrow> None
        | Some lk \<Rightarrow> Some (st\<lparr>new_spin := lk\<rparr>, Create_make a)))"
| "p_uthread_create_full env st (Create_make a) =
     (case create_native env a st of (p, st1) \<Rightarrow> Some (st1, Create_fill a p))"
| "p_uthread_create_full env st (Create_fill a p) =
     (case create_fill a p st of None \<Rightarrow> None | Some st1 \<Rightarrow> Some (st1, Create_unlock p))"
| "p_uthread_create_full env st (Create_unlock p) =
     Some (st\<lparr>new_spin := spin_release (new_spin st)\<rparr>, Running)"
| "p_uthread_create_full env st _ = None"

end
