(* ===== verification/PUThreadProps.thy ===== *)
theory PUThreadProps
  imports PUThread
begin

text \<open>
  Properties of threads: for any number of native threads that make, share and end threads, in any order of their
  steps, an object exists exactly as long as someone refers to it, and a new thread does not run before its object
  is complete.
\<close>

section \<open>The system of threads\<close>

text \<open>
  \<open>held\<close> counts the references that programs hold to an object, from making it or from \<open>p_uthread_ref\<close>;
  \<open>owner\<close> is the native thread whose slot refers to it or, for a new thread, will.
\<close>

record ut_sys =
  ut :: uthreads
  pcs :: "tid \<Rightarrow> ut_pc"
  held :: "nat \<Rightarrow> nat"
  owner :: "nat \<Rightarrow> tid option"

definition ut_init :: ut_sys where
  "ut_init = \<lparr>ut = \<lparr>objs = (\<lambda>_. None), slot = (\<lambda>_. None), new_spin = \<lparr>spin = 0\<rparr>, next_obj = 0\<rparr>,
     pcs = (\<lambda>t. case t of Ours _ \<Rightarrow> Ended | Foreign _ \<Rightarrow> Running), held = (\<lambda>_. 0), owner = (\<lambda>_. None)\<rparr>"

text \<open>A thread that asks for its object gets one if it has none.\<close>

definition own_current :: "bool \<Rightarrow> tid \<Rightarrow> ut_sys \<Rightarrow> ut_sys" where
  "own_current mem t s =
     (case p_uthread_current mem t (ut s) of
        (None, st) \<Rightarrow> s\<lparr>ut := st\<rparr>
      | (Some p, st) \<Rightarrow> s\<lparr>ut := st, owner := (owner s)(p \<mapsto> t)\<rparr>)"

definition end_thread :: "tid \<Rightarrow> ut_sys \<Rightarrow> ut_sys option" where
  "end_thread t s =
     map_option (\<lambda>st. s\<lparr>ut := st, pcs := (pcs s)(t := Ended),
                        owner := (case slot (ut s) t of None \<Rightarrow> owner s | Some p \<Rightarrow> (owner s)(p := None))\<rparr>)
       (pp_uthread_cleanup t (ut s))"

text \<open>
  Programs use a reference only while they hold one, or the object of the thread itself, and hold fewer than
  \<open>2 ^ 31 - 2\<close> to one object.
\<close>

inductive ut_step :: "ut_sys \<Rightarrow> ut_sys \<Rightarrow> bool" where
  proxy: "pp_uthread_proxy p (ut s) (pcs s (Ours p)) = Some (st, pc) \<Longrightarrow>
    ut_step s (s\<lparr>ut := st, pcs := (pcs s)(Ours p := pc)\<rparr>)"
| create: "pcs s t = Running \<Longrightarrow> ut_step s (s\<lparr>pcs := (pcs s)(t := Create_lock a)\<rparr>)"
| create_lock: "pcs s t = Create_lock a \<Longrightarrow> p_uthread_create_full env (ut s) (Create_lock a) = Some (st, pc) \<Longrightarrow>
    ut_step s (s\<lparr>ut := st, pcs := (pcs s)(t := pc)\<rparr>)"
| create_refused: "pcs s t = Create_make a \<Longrightarrow>
    p_uthread_create_full env (ut s) (Create_make a) = Some (st, Create_fill b None) \<Longrightarrow>
    ut_step s (s\<lparr>ut := st, pcs := (pcs s)(t := Create_fill b None)\<rparr>)"
| create_made: "pcs s t = Create_make a \<Longrightarrow>
    p_uthread_create_full env (ut s) (Create_make a) = Some (st, Create_fill b (Some p)) \<Longrightarrow>
    ut_step s (s\<lparr>ut := st, pcs := (pcs s)(t := Create_fill b (Some p), Ours p := Proxy_start),
                 owner := (owner s)(p \<mapsto> Ours p)\<rparr>)"
| create_fill: "pcs s t = Create_fill a p \<Longrightarrow>
    p_uthread_create_full env (ut s) (Create_fill a p) = Some (st, pc) \<Longrightarrow>
    ut_step s (s\<lparr>ut := st, pcs := (pcs s)(t := pc),
                 held := (case p of None \<Rightarrow> held s | Some i \<Rightarrow> (held s)(i := 1))\<rparr>)"
| create_unlock: "pcs s t = Create_unlock p \<Longrightarrow>
    p_uthread_create_full env (ut s) (Create_unlock p) = Some (st, pc) \<Longrightarrow>
    ut_step s (s\<lparr>ut := st, pcs := (pcs s)(t := pc)\<rparr>)"
| current: "pcs s t = Running \<Longrightarrow> ut_step s (own_current mem t s)"
| ref: "pcs s t = Running \<Longrightarrow> 0 < held s p \<or> owner s p = Some t \<Longrightarrow> held s p < 2 ^ 31 - 2 \<Longrightarrow>
    p_uthread_ref (Some p) (ut s) = Some st \<Longrightarrow> ut_step s (s\<lparr>ut := st, held := (held s)(p := held s p + 1)\<rparr>)"
| unref: "pcs s t = Running \<Longrightarrow> 0 < held s p \<Longrightarrow> p_uthread_unref (Some p) (ut s) = Some st \<Longrightarrow>
    ut_step s (s\<lparr>ut := st, held := (held s)(p := held s p - 1)\<rparr>)"
| exit_refused: "pcs s t = Running \<Longrightarrow> p_uthread_exit mem c t (ut s) = Some (st, False) \<Longrightarrow> ut_step s (own_current mem t s)"
| exit: "pcs s t = Running \<Longrightarrow> p_uthread_exit mem c t (ut s) = Some (st, True) \<Longrightarrow>
    end_thread t ((own_current mem t s)\<lparr>ut := st\<rparr>) = Some s' \<Longrightarrow> ut_step s s'"
| return: "pcs s t = Running \<Longrightarrow> end_thread t s = Some s' \<Longrightarrow> ut_step s s'"

inductive ut_reachable :: "ut_sys \<Rightarrow> bool" where
  start: "ut_reachable ut_init"
| step: "ut_reachable s \<Longrightarrow> ut_step s s' \<Longrightarrow> ut_reachable s'"

section \<open>The invariant\<close>

fun holds :: "ut_pc \<Rightarrow> bool" where
  "holds Proxy_unlock \<longleftrightarrow> True"
| "holds (Create_make a) \<longleftrightarrow> True"
| "holds (Create_fill a p) \<longleftrightarrow> True"
| "holds (Create_unlock p) \<longleftrightarrow> True"
| "holds _ \<longleftrightarrow> False"

text \<open>The spin lock is taken exactly while one thread is between taking it and giving it up.\<close>

definition inv_spin :: "ut_sys \<Rightarrow> bool" where
  "inv_spin s \<longleftrightarrow>
     (if spin (new_spin (ut s)) = 0 then \<forall>t. \<not> holds (pcs s t)
      else \<exists>t. holds (pcs s t) \<and> (\<forall>u. holds (pcs s u) \<longrightarrow> u = t))"

definition filling :: "ut_sys \<Rightarrow> nat \<Rightarrow> bool" where
  "filling s p \<longleftrightarrow> (\<exists>t a. pcs s t = Create_fill a (Some p))"

fun args_ok :: "ut_pc \<Rightarrow> bool" where
  "args_ok (Create_make a) \<longleftrightarrow> a_func a \<noteq> None"
| "args_ok (Create_fill a p) \<longleftrightarrow> a_func a \<noteq> None"
| "args_ok _ \<longleftrightarrow> True"

text \<open>One object: new, complete, or gone.\<close>

definition inv_obj :: "ut_sys \<Rightarrow> nat \<Rightarrow> bool" where
  "inv_obj s p \<longleftrightarrow>
     (if filling s p then
        p < next_obj (ut s) \<and> (\<exists>b. objs (ut s) p = Some b \<and> ref_count b = 0) \<and> held s p = 0 \<and>
        owner s p = Some (Ours p) \<and> pcs s (Ours p) \<in> {Proxy_start, Proxy_lock}
      else (case objs (ut s) p of
          None \<Rightarrow> held s p = 0 \<and> owner s p = None
        | Some b \<Rightarrow>
            p < next_obj (ut s) \<and> unat (ref_count b) = held s p + (if owner s p = None then 0 else 1) \<and>
            0 < held s p + (if owner s p = None then 0 else 1) \<and> held s p < 2 ^ 31 - 1 \<and>
            (owner s p = Some (Ours p) \<longrightarrow> func b \<noteq> None \<and> ours b)))"

definition inv_slot :: "ut_sys \<Rightarrow> bool" where
  "inv_slot s \<longleftrightarrow>
     (\<forall>p t. owner s p = Some t \<longrightarrow> pcs s t \<noteq> Ended \<and> (slot (ut s) t = Some p \<or> t = Ours p \<and> pcs s t = Proxy_start)) \<and>
     (\<forall>p t. slot (ut s) t = Some p \<longrightarrow> owner s p = Some t) \<and>
     (\<forall>p. pcs s (Ours p) \<noteq> Ended \<longrightarrow> owner s p = Some (Ours p)) \<and>
     (\<forall>t. pcs s t \<in> {Proxy_start, Ended} \<longrightarrow> slot (ut s) t = None)"

definition ut_inv :: "ut_sys \<Rightarrow> bool" where
  "ut_inv s \<longleftrightarrow> inv_spin s \<and> (\<forall>t. args_ok (pcs s t)) \<and> (\<forall>p. inv_obj s p) \<and> inv_slot s"

lemma ut_init_inv: "ut_inv ut_init"
  by (auto simp: ut_inv_def ut_init_def inv_spin_def inv_obj_def inv_slot_def filling_def split: tid.splits)

lemma spinlock_lock_SomeD: "spin_acquire lk = Some lk' \<Longrightarrow> spin lk = 0 \<and> spin lk' = 1"
  by (auto simp: spin_acquire_def p_atomic_int_compare_and_exchange_def Let_def split: if_splits)

lemma spin_unlock [simp]: "spin (spin_release lk) = 0"
  by (simp add: spin_release_def)

text \<open>A thread takes the lock, gives it up, or does neither.\<close>

lemma spin_step:
  assumes inv: "inv_spin s" and upd: "pcs s' = (pcs s)(t := pc)"
    and step: "spin (new_spin (ut s')) = spin (new_spin (ut s)) \<and> holds pc = holds (pcs s t) \<or>
      spin (new_spin (ut s)) = 0 \<and> spin (new_spin (ut s')) \<noteq> 0 \<and> holds pc \<or>
      holds (pcs s t) \<and> spin (new_spin (ut s')) = 0 \<and> \<not> holds pc"
  shows "inv_spin s'"
proof -
  have h: "holds (pcs s' u) = (if u = t then holds pc else holds (pcs s u))" for u using upd by simp
  from step show ?thesis
  proof (elim disjE conjE)
    assume a: "spin (new_spin (ut s')) = spin (new_spin (ut s))" "holds pc = holds (pcs s t)"
    have "holds (pcs s' u) = holds (pcs s u)" for u using h[of u] a(2) by simp
    then show ?thesis using inv a(1) by (simp add: inv_spin_def)
  qed (use inv h in \<open>auto simp: inv_spin_def split: if_splits\<close>)
qed

lemma holder_unique: "inv_spin s \<Longrightarrow> holds (pcs s t) \<Longrightarrow> holds (pcs s u) \<Longrightarrow> u = t"
  by (auto simp: inv_spin_def split: if_splits)

lemma free_lock_not_filling: "inv_spin s \<Longrightarrow> spin (new_spin (ut s)) = 0 \<Longrightarrow> \<not> filling s p"
  by (auto simp: inv_spin_def filling_def) (metis holds.simps(3))

text \<open>Objects do not notice steps that leave them, their references and the filling of objects alone.\<close>

lemma inv_obj_keep:
  assumes "inv_obj s p" "objs (ut s') = objs (ut s)" "next_obj (ut s') = next_obj (ut s)" "held s' = held s"
    "owner s' = owner s" "filling s' p = filling s p" "filling s p \<Longrightarrow> pcs s' (Ours p) \<in> {Proxy_start, Proxy_lock}"
  shows "inv_obj s' p"
  using assms by (auto simp: inv_obj_def split: if_splits option.splits)

lemma inv_obj_other:
  assumes "inv_obj s p" "\<not> filling s p" "\<not> filling s' p" "objs (ut s') p = objs (ut s) p"
    "next_obj (ut s) \<le> next_obj (ut s')" "held s' p = held s p" "owner s' p = owner s p"
  shows "inv_obj s' p"
  using assms by (auto simp: inv_obj_def split: option.splits)

lemma filling_update:
  "(\<And>a i. pc \<noteq> Create_fill a (Some i)) \<Longrightarrow> (\<And>a i. pcs s t \<noteq> Create_fill a (Some i)) \<Longrightarrow>
    pcs s' = (pcs s)(t := pc) \<Longrightarrow> filling s' p = filling s p"
  unfolding filling_def by (metis fun_upd_apply)

lemma inv_slotD:
  assumes "inv_slot s"
  shows "owner s p = Some t \<Longrightarrow> pcs s t \<noteq> Ended"
    and "owner s p = Some t \<Longrightarrow> pcs s t \<noteq> Proxy_start \<Longrightarrow> slot (ut s) t = Some p"
    and "owner s p = Some t \<Longrightarrow> pcs s t = Proxy_start \<Longrightarrow> t = Ours p"
    and "slot (ut s) t = Some p \<Longrightarrow> owner s p = Some t"
    and "pcs s (Ours p) \<noteq> Ended \<Longrightarrow> owner s p = Some (Ours p)"
    and "pcs s t = Proxy_start \<or> pcs s t = Ended \<Longrightarrow> slot (ut s) t = None"
  using assms unfolding inv_slot_def by (blast, metis, metis insert_iff option.distinct(1), metis, metis, blast)

lemma inv_slotI:
  assumes "\<And>p t. owner s p = Some t \<Longrightarrow> pcs s t \<noteq> Ended"
    and "\<And>p t. owner s p = Some t \<Longrightarrow> pcs s t \<noteq> Proxy_start \<Longrightarrow> slot (ut s) t = Some p"
    and "\<And>p t. owner s p = Some t \<Longrightarrow> pcs s t = Proxy_start \<Longrightarrow> t = Ours p"
    and "\<And>p t. slot (ut s) t = Some p \<Longrightarrow> owner s p = Some t"
    and "\<And>p. pcs s (Ours p) \<noteq> Ended \<Longrightarrow> owner s p = Some (Ours p)"
    and "\<And>t. pcs s t = Proxy_start \<or> pcs s t = Ended \<Longrightarrow> slot (ut s) t = None"
  shows "inv_slot s"
  unfolding inv_slot_def using assms by blast

lemma slot_keep:
  assumes inv: "inv_slot s" and pc: "pcs s t \<noteq> Proxy_start" "pcs s t \<noteq> Ended" "pc \<noteq> Ended" "pc \<noteq> Proxy_start"
    and upd: "pcs s' = (pcs s)(t := pc)" "slot (ut s') = slot (ut s)" "owner s' = owner s"
  shows "inv_slot s'"
proof -
  have e: "pcs s' u = Ended \<longleftrightarrow> pcs s u = Ended" "pcs s' u = Proxy_start \<longleftrightarrow> pcs s u = Proxy_start" for u
    using pc upd(1) by auto
  show ?thesis by (rule inv_slotI; unfold e upd(2,3); use inv_slotD[OF inv] in blast)
qed

lemma slot_same:
  assumes inv: "inv_slot s" and upd: "pcs s' = pcs s" "slot (ut s') = slot (ut s)" "owner s' = owner s"
  shows "inv_slot s'"
  using inv unfolding inv_slot_def upd by assumption

text \<open>Only the holder of the spin lock fills an object in.\<close>

lemma holder_filling:
  assumes "inv_spin s" "holds (pcs s t)" "filling s q"
  obtains a where "pcs s t = Create_fill a (Some q)"
proof -
  obtain u a where "pcs s u = Create_fill a (Some q)" using assms(3) by (auto simp: filling_def)
  then show ?thesis using holder_unique[OF assms(1,2), of u] that by simp
qed

lemma proxy_cases:
  assumes "pp_uthread_proxy p st0 pc0 = Some (st, pc)"
  obtains (set_slot) "pc0 = Proxy_start" "st = st0\<lparr>slot := (slot st0)(Ours p \<mapsto> p)\<rparr>" "pc = Proxy_lock"
  | (acquire) lk where "pc0 = Proxy_lock" "spin_acquire (new_spin st0) = Some lk" "st = st0\<lparr>new_spin := lk\<rparr>"
      "pc = Proxy_unlock"
  | (release) "pc0 = Proxy_unlock" "st = st0\<lparr>new_spin := spin_release (new_spin st0)\<rparr>" "pc = Proxy_call"
  | (call) b where "pc0 = Proxy_call" "objs st0 p = Some b" "func b \<noteq> None" "st = st0" "pc = Running"
  using assms by (cases pc0) (auto split: option.splits)

lemma proxy_inv:
  assumes inv: "ut_inv s" and st: "pp_uthread_proxy p (ut s) (pcs s (Ours p)) = Some (st, pc)"
  shows "ut_inv (s\<lparr>ut := st, pcs := (pcs s)(Ours p := pc)\<rparr>)" (is "ut_inv ?s'")
proof -
  have spn: "inv_spin s" and args: "\<And>t. args_ok (pcs s t)" and obj: "\<And>q. inv_obj s q" and slt: "inv_slot s"
    using inv by (auto simp: ut_inv_def)
  have sp: "inv_spin ?s'"
    using st by (cases rule: proxy_cases) (use spn in \<open>auto intro!: spin_step[OF spn, where t = "Ours p"] dest: spinlock_lock_SomeD\<close>)
  have ar: "args_ok (pcs ?s' t)" for t using st args by (cases rule: proxy_cases) auto
  have own: "owner s p = Some (Ours p)" using st by (cases rule: proxy_cases) (auto intro!: inv_slotD(5)[OF slt])
  have fill: "filling ?s' q = filling s q" for q
    using st by (cases rule: proxy_cases) (rule filling_update[of pc s "Ours p"]; simp)+
  have nf: "pcs s (Ours q) \<in> {Proxy_start, Proxy_lock}" if "filling s q" for q using obj[of q] that by (simp add: inv_obj_def)
  have ob: "inv_obj ?s' q" for q
    using st
  proof (cases rule: proxy_cases)
    case set_slot
    show ?thesis by (rule inv_obj_keep[OF obj[of q]]) (use set_slot fill nf[of q] in auto)
  next
    case acquire
    then have "\<not> filling s q" using free_lock_not_filling[OF spn] by (auto dest: spinlock_lock_SomeD)
    then show ?thesis by (intro inv_obj_keep[OF obj[of q]]) (use acquire fill in auto)
  next
    case release
    show ?thesis by (rule inv_obj_keep[OF obj[of q]]) (use release fill nf[of q] in auto)
  next
    case call
    show ?thesis by (rule inv_obj_keep[OF obj[of q]]) (use call fill nf[of q] in auto)
  qed
  have "inv_slot ?s'"
    using st
  proof (cases rule: proxy_cases)
    case set_slot
    have one: "p' = p" if "owner s p' = Some (Ours p)" for p' using inv_slotD(3)[OF slt that set_slot(1)] by simp
    have e: "pcs ?s' u = Ended \<longleftrightarrow> pcs s u = Ended" "pcs ?s' u = Proxy_start \<longleftrightarrow> pcs s u = Proxy_start \<and> u \<noteq> Ours p"
      "slot (ut ?s') u = (if u = Ours p then Some p else slot (ut s) u)" "owner ?s' = owner s" for u
      using set_slot by auto
    show ?thesis
      by (rule inv_slotI; unfold e; use inv_slotD[OF slt] one own in \<open>metis option.inject tid.inject(1)\<close>)
  next
    case acquire
    then show ?thesis by (intro slot_keep[OF slt, of "Ours p" pc]) auto
  next
    case release
    then show ?thesis by (intro slot_keep[OF slt, of "Ours p" pc]) auto
  next
    case call
    then show ?thesis by (intro slot_keep[OF slt, of "Ours p" pc]) auto
  qed
  then show ?thesis using sp ar ob by (simp add: ut_inv_def)
qed

text \<open>Making a thread.\<close>

lemma create_call_inv:
  assumes inv: "ut_inv s" and pc: "pcs s t = Running"
  shows "ut_inv (s\<lparr>pcs := (pcs s)(t := Create_lock a)\<rparr>)" (is "ut_inv ?s'")
proof -
  have spn: "inv_spin s" and args: "\<And>t. args_ok (pcs s t)" and obj: "\<And>q. inv_obj s q" and slt: "inv_slot s"
    using inv by (auto simp: ut_inv_def)
  have "inv_spin ?s'" using pc by (intro spin_step[OF spn, where t = t]) auto
  moreover have fill: "filling ?s' q = filling s q" for q using pc by (intro filling_update[of "Create_lock a" s t]) auto
  have nf: "pcs s (Ours q) \<in> {Proxy_start, Proxy_lock}" if "filling s q" for q using obj[of q] that by (simp add: inv_obj_def)
  have "inv_obj ?s' q" for q by (rule inv_obj_keep[OF obj[of q]]) (use pc fill nf[of q] in auto)
  moreover have "inv_slot ?s'" using pc by (intro slot_keep[OF slt, of t "Create_lock a"]) auto
  ultimately show ?thesis using args by (auto simp: ut_inv_def)
qed

lemma create_lock_inv:
  assumes inv: "ut_inv s" and pc: "pcs s t = Create_lock a"
    and st: "p_uthread_create_full env (ut s) (Create_lock a) = Some (st, pc)"
  shows "ut_inv (s\<lparr>ut := st, pcs := (pcs s)(t := pc)\<rparr>)" (is "ut_inv ?s'")
proof -
  have spn: "inv_spin s" and args: "\<And>t. args_ok (pcs s t)" and obj: "\<And>q. inv_obj s q" and slt: "inv_slot s"
    using inv by (auto simp: ut_inv_def)
  have r: "st = ut s \<and> pc = Running \<or>
      (\<exists>lk. st = (ut s)\<lparr>new_spin := lk\<rparr> \<and> pc = Create_make a \<and> spin (new_spin (ut s)) = 0 \<and> spin lk = 1 \<and> a_func a \<noteq> None)"
    using st by (auto split: if_splits option.splits dest: spinlock_lock_SomeD)
  have "inv_spin ?s'" using pc r by (intro spin_step[OF spn, where t = t]) auto
  moreover have fill: "filling ?s' q = filling s q" for q using pc r by (intro filling_update[of pc s t]) auto
  have nf: "pcs s (Ours q) \<in> {Proxy_start, Proxy_lock}" if "filling s q" for q using obj[of q] that by (simp add: inv_obj_def)
  have "inv_obj ?s' q" for q by (rule inv_obj_keep[OF obj[of q]]) (use pc r fill nf[of q] in auto)
  moreover have "inv_slot ?s'" using pc r by (intro slot_keep[OF slt, of t]) auto
  ultimately show ?thesis using args r by (auto simp: ut_inv_def)
qed

lemma create_unlock_inv:
  assumes inv: "ut_inv s" and pc: "pcs s t = Create_unlock p"
    and st: "p_uthread_create_full env (ut s) (Create_unlock p) = Some (st, pc)"
  shows "ut_inv (s\<lparr>ut := st, pcs := (pcs s)(t := pc)\<rparr>)" (is "ut_inv ?s'")
proof -
  have spn: "inv_spin s" and args: "\<And>t. args_ok (pcs s t)" and obj: "\<And>q. inv_obj s q" and slt: "inv_slot s"
    using inv by (auto simp: ut_inv_def)
  have r: "st = (ut s)\<lparr>new_spin := spin_release (new_spin (ut s))\<rparr>" "pc = Running" using st by auto
  have "inv_spin ?s'" using pc r by (intro spin_step[OF spn, where t = t]) auto
  moreover have fill: "filling ?s' q = filling s q" for q using pc r by (intro filling_update[of pc s t]) auto
  have nf: "pcs s (Ours q) \<in> {Proxy_start, Proxy_lock}" if "filling s q" for q using obj[of q] that by (simp add: inv_obj_def)
  have "inv_obj ?s' q" for q by (rule inv_obj_keep[OF obj[of q]]) (use pc r fill nf[of q] in auto)
  moreover have "inv_slot ?s'" using pc r by (intro slot_keep[OF slt, of t]) auto
  ultimately show ?thesis using args r by (auto simp: ut_inv_def)
qed

lemma create_refused_inv:
  assumes inv: "ut_inv s" and pc: "pcs s t = Create_make a"
    and st: "p_uthread_create_full env (ut s) (Create_make a) = Some (st, Create_fill b None)"
  shows "ut_inv (s\<lparr>ut := st, pcs := (pcs s)(t := Create_fill b None)\<rparr>)" (is "ut_inv ?s'")
proof -
  have spn: "inv_spin s" and args: "\<And>t. args_ok (pcs s t)" and obj: "\<And>q. inv_obj s q" and slt: "inv_slot s"
    using inv by (auto simp: ut_inv_def)
  have r: "st = ut s" "b = a" using st by (auto simp: create_native_def Let_def split: option.splits)
  have "inv_spin ?s'" using pc r by (intro spin_step[OF spn, where t = t]) auto
  moreover have fill: "filling ?s' q = filling s q" for q using pc r by (intro filling_update[of "Create_fill b None" s t]) auto
  have nf: "pcs s (Ours q) \<in> {Proxy_start, Proxy_lock}" if "filling s q" for q using obj[of q] that by (simp add: inv_obj_def)
  have "inv_obj ?s' q" for q by (rule inv_obj_keep[OF obj[of q]]) (use pc r fill nf[of q] in auto)
  moreover have "inv_slot ?s'" using pc r by (intro slot_keep[OF slt, of t]) auto
  moreover have "a_func a \<noteq> None" using args[of t] pc by simp
  ultimately show ?thesis using args r by (auto simp: ut_inv_def)
qed

lemma create_made_inv:
  assumes inv: "ut_inv s" and pc: "pcs s t = Create_make a"
    and st: "p_uthread_create_full env (ut s) (Create_make a) = Some (st, Create_fill b (Some p))"
  shows "ut_inv (s\<lparr>ut := st, pcs := (pcs s)(t := Create_fill b (Some p), Ours p := Proxy_start),
                   owner := (owner s)(p \<mapsto> Ours p)\<rparr>)" (is "ut_inv ?s'")
proof -
  have spn: "inv_spin s" and args: "\<And>t. args_ok (pcs s t)" and obj: "\<And>q. inv_obj s q" and slt: "inv_slot s"
    using inv by (auto simp: ut_inv_def)
  have r: "b = a" "p = next_obj (ut s)"
      "st = (ut s)\<lparr>objs := (objs (ut s))(p \<mapsto> zero_thread\<lparr>joinable := a_joinable a, prio := a_prio a\<rparr>), next_obj := Suc p\<rparr>"
    using st by (auto simp: create_native_def Let_def split: option.splits)
  have nofill: "\<not> filling s q" for q
    using holder_filling[OF spn, of t q] pc by auto
  have fresh: "objs (ut s) p = None" "held s p = 0" "owner s p = None"
    using obj[of p] nofill[of p] r(2) by (auto simp: inv_obj_def split: option.splits)
  have ended: "pcs s (Ours p) = Ended" and other: "t \<noteq> Ours p" "slot (ut s) (Ours p) = None"
    using inv_slotD(5)[OF slt, of p] inv_slotD(6)[OF slt, of "Ours p"] fresh(3) pc by auto
  have fill: "filling ?s' q \<longleftrightarrow> q = p" for q
    using nofill[of q] other(1) by (auto simp: filling_def)
  define s1 where "s1 = s\<lparr>ut := st, pcs := (pcs s)(t := Create_fill b (Some p))\<rparr>"
  have "inv_spin s1" using pc r by (intro spin_step[OF spn, where t = t]) (auto simp: s1_def)
  then have "inv_spin ?s'" by (rule spin_step[where t = "Ours p" and pc = Proxy_start]) (use ended other in \<open>auto simp: s1_def\<close>)
  moreover have "inv_obj ?s' q" for q
  proof (cases "q = p")
    case True
    then have "filling ?s' q" using fill by blast
    then show ?thesis using True r fresh other(1) by (simp add: inv_obj_def zero_thread_def)
  next
    case False
    then have "\<not> filling ?s' q" using fill by blast
    then show ?thesis by (rule inv_obj_other[OF obj nofill]) (use False r in auto)
  qed
  moreover have "inv_slot ?s'"
  proof -
    have e: "pcs ?s' u = Ended \<longleftrightarrow> pcs s u = Ended \<and> u \<noteq> Ours p"
      "pcs ?s' u = Proxy_start \<longleftrightarrow> pcs s u = Proxy_start \<or> u = Ours p" "slot (ut ?s') = slot (ut s)"
      "owner ?s' q = (if q = p then Some (Ours p) else owner s q)" for u q
      using pc r ended by auto
    have "owner s q \<noteq> Some (Ours p)" for q using inv_slotD(1)[OF slt, of q "Ours p"] ended by auto
    then show ?thesis
      by (intro inv_slotI; unfold e; use inv_slotD[OF slt] fresh(3) other(2) ended in \<open>metis option.inject option.distinct(1) tid.inject(1)\<close>)
  qed
  moreover have "args_ok (pcs ?s' u)" for u using args[of t] args[of u] pc r by auto
  ultimately show ?thesis by (simp add: ut_inv_def)
qed

lemma create_fill_inv:
  assumes inv: "ut_inv s" and pc: "pcs s t = Create_fill a p"
    and st: "p_uthread_create_full env (ut s) (Create_fill a p) = Some (st, pc)"
  shows "ut_inv (s\<lparr>ut := st, pcs := (pcs s)(t := pc),
                   held := (case p of None \<Rightarrow> held s | Some i \<Rightarrow> (held s)(i := 1))\<rparr>)" (is "ut_inv ?s'")
proof -
  have spn: "inv_spin s" and args: "\<And>t. args_ok (pcs s t)" and obj: "\<And>q. inv_obj s q" and slt: "inv_slot s"
    using inv by (auto simp: ut_inv_def)
  have r: "pc = Create_unlock p" "create_fill a p (ut s) = Some st" using st by (auto split: option.splits)
  have same: "new_spin st = new_spin (ut s)" "slot st = slot (ut s)" "next_obj st = next_obj (ut s)"
    using r(2) by (auto simp: create_fill_def split: option.splits)
  have nofill: "\<not> filling ?s' q" for q
    using holder_unique[OF spn, of t] pc r by (auto simp: filling_def)
  have spn': "inv_spin ?s'" using pc r same by (intro spin_step[OF spn, where t = t]) auto
  have slt': "inv_slot ?s'" using pc r same by (intro slot_keep[OF slt, of t pc]) auto
  have ob: "inv_obj ?s' q" for q
  proof (cases "p = Some q")
    case True
    then have f: "filling s q" using pc by (auto simp: filling_def)
    then obtain b where b: "objs (ut s) q = Some b" "q < next_obj (ut s)" "owner s q = Some (Ours q)"
      using obj[of q] by (auto simp: inv_obj_def)
    have "a_func a \<noteq> None" using args[of t] pc by simp
    then show ?thesis using r(2) True b nofill[of q] by (auto simp: inv_obj_def create_fill_def)
  next
    case False
    then have nf: "\<not> filling s q" using holder_filling[OF spn, of t q] pc by auto
    have "objs st q = objs (ut s) q" using r(2) False by (auto simp: create_fill_def split: option.splits)
    then show ?thesis
      by (intro inv_obj_other[OF obj nf nofill]) (use False same in \<open>auto split: option.splits\<close>)
  qed
  show ?thesis using spn' slt' ob args r by (auto simp: ut_inv_def)
qed

text \<open>References.\<close>

lemma inv_obj_live:
  assumes "inv_obj s p" "\<not> filling s p" "0 < held s p \<or> owner s p \<noteq> None"
  obtains b where "objs (ut s) p = Some b" "p < next_obj (ut s)"
    "unat (ref_count b) = held s p + (if owner s p = None then 0 else 1)" "held s p < 2 ^ 31 - 1"
    "owner s p = Some (Ours p) \<Longrightarrow> func b \<noteq> None \<and> ours b"
  using assms by (auto simp: inv_obj_def split: option.splits)

lemma running_not_filling:
  assumes inv: "ut_inv s" and pc: "pcs s t = Running" and "0 < held s p \<or> owner s p = Some t"
  shows "\<not> filling s p"
proof
  assume "filling s p"
  moreover have "inv_obj s p" using inv by (simp add: ut_inv_def)
  ultimately show False using pc assms(3) by (auto simp: inv_obj_def)
qed

lemma inc_unat:
  assumes "unat (c :: pint) < 2 ^ 31"
  shows "unat (p_atomic_int_inc c) = unat c + 1"
  using assms by (simp add: p_atomic_int_inc_def unat_word_ariths)

lemma dec_unat:
  assumes "0 < unat (c :: pint)"
  shows "p_atomic_int_dec_and_test c = (c - 1, unat c = 1)" "unat (c - 1) = unat c - 1"
proof -
  have "c \<noteq> 0" using assms by auto
  then show u: "unat (c - 1) = unat c - 1" by (rule unat_minus_one)
  have "c - 1 = 0 \<longleftrightarrow> unat (c - 1) = 0" by (simp add: unat_eq_zero)
  then show "p_atomic_int_dec_and_test c = (c - 1, unat c = 1)" using assms u by (auto simp: p_atomic_int_dec_and_test_def)
qed

lemma ref_inv:
  assumes inv: "ut_inv s" and pc: "pcs s t = Running" and live: "0 < held s p \<or> owner s p = Some t"
    and few: "held s p < 2 ^ 31 - 2" and st: "p_uthread_ref (Some p) (ut s) = Some st"
  shows "ut_inv (s\<lparr>ut := st, held := (held s)(p := held s p + 1)\<rparr>)" (is "ut_inv ?s'")
proof -
  have spn: "inv_spin s" and args: "\<And>t. args_ok (pcs s t)" and obj: "\<And>q. inv_obj s q" and slt: "inv_slot s"
    using inv by (auto simp: ut_inv_def)
  have nf: "\<not> filling s p" by (rule running_not_filling[OF inv pc live])
  obtain b where b: "objs (ut s) p = Some b" "p < next_obj (ut s)"
      "unat (ref_count b) = held s p + (if owner s p = None then 0 else 1)"
      "owner s p = Some (Ours p) \<Longrightarrow> func b \<noteq> None \<and> ours b"
    using inv_obj_live[OF obj nf] live by (metis option.distinct(1))
  have r: "st = (ut s)\<lparr>objs := (objs (ut s))(p \<mapsto> b\<lparr>ref_count := p_atomic_int_inc (ref_count b)\<rparr>)\<rparr>"
    using st b(1) by (simp add: p_uthread_ref_def)
  have same: "inv_spin ?s'" using spn r by (simp add: inv_spin_def)
  have fill: "filling ?s' q = filling s q" for q by (simp add: filling_def)
  have "unat (p_atomic_int_inc (ref_count b)) = unat (ref_count b) + 1" by (rule inc_unat) (use b(3) few in auto)
  then have "inv_obj ?s' p" using b nf few fill[of p] r by (auto simp: inv_obj_def)
  moreover have "inv_obj ?s' q" if "q \<noteq> p" for q
  proof (cases "filling s q")
    case True
    then show ?thesis using obj[of q] fill[of q] that r by (simp add: inv_obj_def)
  next
    case False
    then show ?thesis by (intro inv_obj_other[OF obj]) (use fill that r in auto)
  qed
  ultimately have "inv_obj ?s' q" for q by (cases "q = p") auto
  moreover have "inv_slot ?s'" by (rule slot_same[OF slt]) (simp_all add: r)
  ultimately show ?thesis using same args by (simp add: ut_inv_def)
qed

lemma unref_objs:
  assumes b: "objs (ut s) p = Some b" and pos: "0 < unat (ref_count b)" and st: "p_uthread_unref (Some p) (ut s) = Some st"
  shows "st = (ut s)\<lparr>objs := (objs (ut s))(p := (if unat (ref_count b) = 1 then None
      else Some (b\<lparr>ref_count := ref_count b - 1\<rparr>)))\<rparr>" "unat (ref_count b - 1) = unat (ref_count b) - 1"
  using dec_unat[OF pos] st b by (simp_all add: p_uthread_unref_def)

lemma unref_inv:
  assumes inv: "ut_inv s" and pc: "pcs s t = Running" and live: "0 < held s p"
    and st: "p_uthread_unref (Some p) (ut s) = Some st"
  shows "ut_inv (s\<lparr>ut := st, held := (held s)(p := held s p - 1)\<rparr>)" (is "ut_inv ?s'")
proof -
  have spn: "inv_spin s" and args: "\<And>t. args_ok (pcs s t)" and obj: "\<And>q. inv_obj s q" and slt: "inv_slot s"
    using inv by (auto simp: ut_inv_def)
  have nf: "\<not> filling s p" by (rule running_not_filling[OF inv pc]) (use live in simp)
  obtain b where b: "objs (ut s) p = Some b" "p < next_obj (ut s)"
      "unat (ref_count b) = held s p + (if owner s p = None then 0 else 1)" "held s p < 2 ^ 31 - 1"
      "owner s p = Some (Ours p) \<Longrightarrow> func b \<noteq> None \<and> ours b"
    using inv_obj_live[OF obj nf] live by metis
  note r = unref_objs[OF b(1) _ st]
  have pos: "0 < unat (ref_count b)" using b(3) live by simp
  have "inv_spin ?s'" using spn r(1)[OF pos] by (simp add: inv_spin_def)
  moreover have fill: "filling ?s' q = filling s q" for q by (simp add: filling_def)
  have "inv_obj ?s' p" using b nf fill[of p] r[OF pos] live by (auto simp: inv_obj_def)
  moreover have "inv_obj ?s' q" if "q \<noteq> p" for q
  proof (cases "filling s q")
    case True
    then show ?thesis using obj[of q] fill[of q] that r(1)[OF pos] by (simp add: inv_obj_def)
  next
    case False
    then show ?thesis by (intro inv_obj_other[OF obj]) (use fill that r(1)[OF pos] in auto)
  qed
  ultimately have "inv_obj ?s' q" "inv_spin ?s'" for q by (cases "q = p"; auto)+
  moreover have "inv_slot ?s'" by (rule slot_same[OF slt]) (simp_all add: r(1)[OF pos])
  ultimately show ?thesis using args by (simp add: ut_inv_def)
qed

text \<open>The object of a thread.\<close>

lemma current_inv:
  assumes inv: "ut_inv s" and pc: "pcs s t = Running"
  shows "ut_inv (own_current mem t s)"
proof -
  have spn: "inv_spin s" and args: "\<And>t. args_ok (pcs s t)" and obj: "\<And>q. inv_obj s q" and slt: "inv_slot s"
    using inv by (auto simp: ut_inv_def)
  show ?thesis
  proof (cases "slot (ut s) t")
    case (Some p)
    then have "own_current mem t s = s"
      using inv_slotD(4)[OF slt Some] by (simp add: own_current_def p_uthread_current_def fun_upd_idem)
    then show ?thesis using inv by simp
  next
    case None
    show ?thesis
    proof (cases mem)
      case False
      then have "own_current mem t s = s" using None by (simp add: own_current_def p_uthread_current_def)
      then show ?thesis using inv by simp
    next
      case True
      define p where "p = next_obj (ut s)"
      define s' where "s' = own_current mem t s"
      have r: "ut s' = (ut s)\<lparr>objs := (objs (ut s))(p \<mapsto> zero_thread\<lparr>ref_count := 1\<rparr>), slot := (slot (ut s))(t \<mapsto> p),
          next_obj := Suc p\<rparr>" "pcs s' = pcs s" "held s' = held s" "owner s' = (owner s)(p \<mapsto> t)"
        using True None by (simp_all add: s'_def p_def own_current_def p_uthread_current_def Let_def)
      have fill: "filling s' q = filling s q" for q by (simp add: filling_def r)
      have nf: "\<not> filling s p" using obj[of p] by (auto simp: inv_obj_def p_def)
      have fresh: "objs (ut s) p = None" "held s p = 0" "owner s p = None"
        using obj[of p] nf by (auto simp: inv_obj_def p_def split: option.splits)
      have noown: "owner s q \<noteq> Some t" for q using inv_slotD(2)[OF slt, of q t] pc None by auto
      then have "t \<noteq> Ours p" using inv_slotD(5)[OF slt, of p] pc by auto
      then have "inv_obj s' p" using fresh nf fill[of p] by (auto simp: inv_obj_def r zero_thread_def)
      moreover have "inv_obj s' q" if "q \<noteq> p" for q
      proof (cases "filling s q")
        case True
        then show ?thesis using obj[of q] fill[of q] that by (auto simp: inv_obj_def r p_def)
      next
        case False
        then show ?thesis by (intro inv_obj_other[OF obj]) (use fill[of q] that in \<open>auto simp: r p_def\<close>)
      qed
      ultimately have "inv_obj s' q" for q by (cases "q = p") auto
      moreover have "inv_slot s'"
        by (rule inv_slotI; unfold r; simp split: if_splits; use inv_slotD[OF slt] pc noown fresh(3) in \<open>metis ut_pc.distinct option.distinct(1)\<close>)
      moreover have "inv_spin s'" using spn by (simp add: inv_spin_def r)
      ultimately show ?thesis using args by (simp add: ut_inv_def r s'_def[symmetric])
    qed
  qed
qed

lemma ret_code_inv:
  assumes inv: "ut_inv s" and b: "objs (ut s) p = Some b"
  shows "ut_inv (s\<lparr>ut := (ut s)\<lparr>objs := (objs (ut s))(p \<mapsto> b\<lparr>ret_code := c\<rparr>)\<rparr>\<rparr>)" (is "ut_inv ?s'")
proof -
  have spn: "inv_spin s" and args: "\<And>t. args_ok (pcs s t)" and obj: "\<And>q. inv_obj s q" and slt: "inv_slot s"
    using inv by (auto simp: ut_inv_def)
  define s' where "s' = ?s'"
  have r: "objs (ut s') = (objs (ut s))(p \<mapsto> b\<lparr>ret_code := c\<rparr>)" "next_obj (ut s') = next_obj (ut s)" "held s' = held s"
      "owner s' = owner s" "pcs s' = pcs s"
    by (simp_all add: s'_def)
  have fill: "filling s' q = filling s q" for q by (simp add: filling_def r)
  have "inv_obj s' q" for q using obj[of q] b by (cases "q = p"; cases "filling s q") (auto simp: inv_obj_def fill r split: option.splits)
  then have "inv_obj ?s' q" for q by (simp add: s'_def)
  moreover have "inv_slot ?s'" by (rule slot_same[OF slt]) simp_all
  ultimately show ?thesis using spn args by (simp add: ut_inv_def inv_spin_def)
qed

lemma end_inv:
  assumes inv: "ut_inv s" and pc: "pcs s t = Running" and st: "end_thread t s = Some s'"
  shows "ut_inv s'"
proof -
  have spn: "inv_spin s" and args: "\<And>t. args_ok (pcs s t)" and obj: "\<And>q. inv_obj s q" and slt: "inv_slot s"
    using inv by (auto simp: ut_inv_def)
  have spin': "inv_spin s''" if "new_spin (ut s'') = new_spin (ut s)" "pcs s'' = (pcs s)(t := Ended)" for s''
    using that pc by (intro spin_step[OF spn, where t = t]) auto
  have args': "args_ok (((pcs s)(t := Ended)) u)" for u using args[of u] by auto
  have fill: "filling s'' q = filling s q" if "pcs s'' = (pcs s)(t := Ended)" for s'' q
    by (rule filling_update[OF _ _ that]) (use pc in auto)
  have nfo: "pcs s (Ours q) \<in> {Proxy_start, Proxy_lock} \<and> Ours q \<noteq> t" if "filling s q" for q
    using obj[of q] that pc by (auto simp: inv_obj_def)
  show ?thesis
  proof (cases "slot (ut s) t")
    case None
    then have r: "s' = s\<lparr>pcs := (pcs s)(t := Ended)\<rparr>" using st by (simp add: end_thread_def pp_uthread_cleanup_def)
    have "inv_obj s' q" for q
      by (rule inv_obj_keep[OF obj[of q]]) (use fill[of s'] nfo[of q] r in auto)
    moreover have noown: "owner s q \<noteq> Some t" for q using inv_slotD(2)[OF slt, of q t] pc None by auto
    have e: "pcs s' u = Ended \<longleftrightarrow> u = t \<or> pcs s u = Ended" "pcs s' u = Proxy_start \<longleftrightarrow> pcs s u = Proxy_start"
        "slot (ut s') = slot (ut s)" "owner s' = owner s" for u
      using pc r by auto
    have "inv_slot s'" by (rule inv_slotI; unfold e; use inv_slotD[OF slt] None noown in metis)
    ultimately show ?thesis using spin'[of s'] args' by (simp add: ut_inv_def r)
  next
    case (Some p)
    have own: "owner s p = Some t" by (rule inv_slotD(4)[OF slt Some])
    have nf: "\<not> filling s p" by (rule running_not_filling[OF inv pc]) (use own in simp)
    have "0 < held s p \<or> owner s p \<noteq> None" using own by simp
    from inv_obj_live[OF obj[of p] nf this] obtain b where b0: "objs (ut s) p = Some b" "p < next_obj (ut s)"
      "unat (ref_count b) = held s p + (if owner s p = None then 0 else 1)" "held s p < 2 ^ 31 - 1" by blast
    then have b: "objs (ut s) p = Some b" "p < next_obj (ut s)" "unat (ref_count b) = held s p + 1" "held s p < 2 ^ 31 - 1"
      using own by simp_all
    have pos: "0 < unat (ref_count b)" using b(3) by simp
    obtain st1 where u: "p_uthread_unref (Some p) (ut s) = Some st1" using b(1) dec_unat(1)[OF pos] by (simp add: p_uthread_unref_def)
    note ro = unref_objs[OF b(1) pos u]
    have r: "ut s' = st1\<lparr>slot := (slot st1)(t := None)\<rparr>" "pcs s' = (pcs s)(t := Ended)" "held s' = held s"
        "owner s' = (owner s)(p := None)"
      using st Some u by (auto simp: end_thread_def pp_uthread_cleanup_def)
    have "inv_obj s' p" using nf fill[OF r(2), of p] b ro(2) by (auto simp: inv_obj_def r ro(1))
    moreover have "inv_obj s' q" if "q \<noteq> p" for q
    proof (cases "filling s q")
      case True
      then show ?thesis using obj[of q] fill[OF r(2), of q] nfo[of q] that by (auto simp: inv_obj_def r ro(1))
    next
      case False
      then show ?thesis by (intro inv_obj_other[OF obj]) (use fill[OF r(2), of q] that in \<open>auto simp: r ro(1)\<close>)
    qed
    ultimately have "inv_obj s' q" for q by (cases "q = p") auto
    moreover have one: "q = p" if "owner s q = Some t" for q using inv_slotD(2)[OF slt that] pc Some by auto
    have e: "pcs s' u = Ended \<longleftrightarrow> u = t \<or> pcs s u = Ended" "pcs s' u = Proxy_start \<longleftrightarrow> pcs s u = Proxy_start"
        "slot (ut s') u = (if u = t then None else slot (ut s) u)" "owner s' q = (if q = p then None else owner s q)" for u q
      using pc r ro(1) by auto
    have ne: "u \<noteq> t \<and> owner s q = Some u" if "(if q = p then None else owner s q) = Some u" for q u
      using one[of q] that by (auto split: if_splits)
    have "inv_slot s'"
    proof (rule inv_slotI; unfold e)
      show "\<not> (u = t \<or> pcs s u = Ended)" if "(if q = p then None else owner s q) = Some u" for q u
        using ne[OF that] inv_slotD(1)[OF slt, of q u] by simp
      show "(if u = t then None else slot (ut s) u) = Some q"
        if "(if q = p then None else owner s q) = Some u" "pcs s u \<noteq> Proxy_start" for q u
        using ne[OF that(1)] inv_slotD(2)[OF slt, of q u] that(2) by simp
      show "u = Ours q" if "(if q = p then None else owner s q) = Some u" "pcs s u = Proxy_start" for q u
        using ne[OF that(1)] inv_slotD(3)[OF slt, of q u] that(2) by simp
      show "(if q = p then None else owner s q) = Some u" if "(if u = t then None else slot (ut s) u) = Some q" for q u
        using that inv_slotD(4)[OF slt, of u q] own by (auto split: if_splits)
      show "(if q = p then None else owner s q) = Some (Ours q)" if "\<not> (Ours q = t \<or> pcs s (Ours q) = Ended)" for q
        using that inv_slotD(5)[OF slt, of q] own by (auto split: if_splits)
      show "(if u = t then None else slot (ut s) u) = None" if "pcs s u = Proxy_start \<or> u = t \<or> pcs s u = Ended" for u
        using that inv_slotD(6)[OF slt, of u] by auto
    qed
    ultimately show ?thesis using spin'[of s'] args' by (simp add: ut_inv_def r ro(1))
  qed
qed

lemma exit_inv:
  assumes inv: "ut_inv s" and pc: "pcs s t = Running" and ex: "p_uthread_exit mem c t (ut s) = Some (st, True)"
    and e: "end_thread t ((own_current mem t s)\<lparr>ut := st\<rparr>) = Some s'"
  shows "ut_inv s'"
proof -
  obtain p st1 b where c: "p_uthread_current mem t (ut s) = (Some p, st1)" "objs st1 p = Some b"
      "st = st1\<lparr>objs := (objs st1)(p \<mapsto> b\<lparr>ret_code := c\<rparr>)\<rparr>"
    using ex by (auto simp: p_uthread_exit_def split: prod.splits option.splits if_splits)
  have cur: "ut (own_current mem t s) = st1" "pcs (own_current mem t s) = pcs s"
    using c(1) by (simp_all add: own_current_def)
  have "ut_inv ((own_current mem t s)\<lparr>ut := st\<rparr>)"
    using ret_code_inv[OF current_inv[OF inv pc], of mem p b c] c(2,3) cur(1) by simp
  then show ?thesis by (rule end_inv[OF _ _ e]) (simp add: cur(2) pc)
qed

theorem ut_step_inv: "ut_step s s' \<Longrightarrow> ut_inv s \<Longrightarrow> ut_inv s'"
proof (induction rule: ut_step.induct)
  case (proxy p s st pc)
  then show ?case by (intro proxy_inv)
next
  case (create s t a)
  then show ?case by (intro create_call_inv)
next
  case (create_lock s t a env st pc)
  then show ?case by (intro create_lock_inv)
next
  case (create_refused s t a env st b)
  then show ?case by (intro create_refused_inv)
next
  case (create_made s t a env st b p)
  then show ?case by (intro create_made_inv)
next
  case (create_fill s t a p env st pc)
  then show ?case by (intro create_fill_inv)
next
  case (create_unlock s t p env st pc)
  then show ?case by (intro create_unlock_inv)
next
  case (ref s t p st)
  then show ?case by (intro ref_inv)
next
  case (unref s t p st)
  then show ?case by (intro unref_inv)
next
  case (exit s t mem c st s')
  then show ?case by (blast intro: exit_inv)
next
  case (return s t s')
  then show ?case by (blast intro: end_inv)
qed (simp_all add: current_inv)

lemma ut_reachable_inv: "ut_reachable s \<Longrightarrow> ut_inv s"
  by (induction rule: ut_reachable.induct) (auto intro: ut_init_inv ut_step_inv)

section \<open>Properties\<close>

text \<open>
  C31.  Thread objects live exactly as long as they are referred to: in every reachable state an object exists if and
  only if a program holds a reference to it or it belongs to a native thread, its counter is the number of those
  references once it is complete, and whoever may use a reference finds the object: referring to it, giving the
  reference back and joining never meet a freed object.
\<close>

theorem thread_objects_live:
  assumes reach: "ut_reachable s"
  shows "(objs (ut s) p \<noteq> None \<longleftrightarrow> 0 < held s p \<or> owner s p \<noteq> None) \<and>
    (\<not> filling s p \<longrightarrow> objs (ut s) p = Some b \<longrightarrow>
       unat (ref_count b) = held s p + (if owner s p = None then 0 else 1)) \<and>
    (0 < held s p \<or> owner s p = Some t \<longrightarrow> p_uthread_ref (Some p) (ut s) \<noteq> None) \<and>
    (0 < held s p \<longrightarrow> p_uthread_unref (Some p) (ut s) \<noteq> None \<and> p_uthread_join (Some p) ended (ut s) \<noteq> Freed)"
proof -
  have obj: "inv_obj s p" using ut_reachable_inv[OF reach] by (simp add: ut_inv_def)
  then have live: "objs (ut s) p \<noteq> None \<longleftrightarrow> 0 < held s p \<or> owner s p \<noteq> None"
    by (auto simp: inv_obj_def split: if_splits option.splits)
  moreover have "\<not> filling s p \<longrightarrow> objs (ut s) p = Some b \<longrightarrow>
      unat (ref_count b) = held s p + (if owner s p = None then 0 else 1)"
    using obj by (auto simp: inv_obj_def)
  moreover have "p_uthread_ref (Some p) (ut s) \<noteq> None" "p_uthread_unref (Some p) (ut s) \<noteq> None"
      "p_uthread_join (Some p) ended (ut s) \<noteq> Freed" if "objs (ut s) p \<noteq> None"
    using that by (auto simp: p_uthread_ref_def p_uthread_unref_def p_uthread_join_def split: prod.splits if_splits)
  ultimately show ?thesis by blast
qed

text \<open>A run: a thread of the program makes a thread, which gets past the spin lock.\<close>

definition demo_env :: pthreads where
  "demo_env = \<lparr>mem_thread = True,
     attr_init = Some \<lparr>detached = False, inherit_sched = False, policy = 0, sched_priority = 0, stack = 0\<rparr>,
     set_detach = True, get_policy = True, set_inherit = (\<lambda>_. True), set_policy = True, set_param = True, idle_policy = None,
     prio_range = (\<lambda>_. (1, 99)), min_stack = 0, set_stack = True, native_create = (\<lambda>_ _. Created)\<rparr>"

lemma demo_run:
  "\<exists>s. ut_reachable s \<and> pcs s (Ours 0) = Proxy_call \<and> held s 0 = 1 \<and> owner s 0 = Some (Ours 0)"
proof -
  let ?a = "p_uthread_create (Some 0) 0 True"
  let ?t = "Foreign 0"
  note sim = ut_init_def p_uthread_create_def spin_acquire_def p_atomic_int_compare_and_exchange_def
    create_native_def p_uthread_create_internal_def demo_env_def set_priority_attr_def set_stack_attr_def
    create_fill_def spin_release_def zero_thread_def
  let ?b = "zero_thread\<lparr>joinable := True\<rparr>"
  let ?u1 = "(ut ut_init)\<lparr>new_spin := \<lparr>spin = 1\<rparr>\<rparr>"
  let ?u2 = "?u1\<lparr>objs := [0 \<mapsto> ?b], next_obj := 1\<rparr>"
  let ?u3 = "?u2\<lparr>objs := [0 \<mapsto> ?b\<lparr>ref_count := 2, ours := True, func := Some 0\<rparr>]\<rparr>"
  let ?u4 = "?u3\<lparr>new_spin := \<lparr>spin = 0\<rparr>\<rparr>"
  let ?u5 = "?u4\<lparr>slot := [Ours 0 \<mapsto> 0]\<rparr>"
  obtain s1 where s1: "ut_reachable s1" "ut s1 = ut ut_init" "pcs s1 ?t = Create_lock ?a" "held s1 = held ut_init"
    using ut_reachable.step[OF start create[of ut_init ?t ?a]] by (force simp: ut_init_def)
  have "p_uthread_create_full demo_env (ut s1) (Create_lock ?a) = Some (?u1, Create_make ?a)"
    by (simp add: s1 sim)
  from ut_reachable.step[OF s1(1) create_lock[OF s1(3) this]]
  obtain s2 where s2: "ut_reachable s2" "ut s2 = ?u1" "pcs s2 ?t = Create_make ?a" by force
  have "p_uthread_create_full demo_env (ut s2) (Create_make ?a) = Some (?u2, Create_fill ?a (Some 0))"
    by (simp add: s2 sim)
  from ut_reachable.step[OF s2(1) create_made[OF s2(3) this]]
  obtain s3 where s3: "ut_reachable s3" "ut s3 = ?u2" "pcs s3 ?t = Create_fill ?a (Some 0)"
      "pcs s3 (Ours 0) = Proxy_start" "owner s3 0 = Some (Ours 0)" by force
  have "p_uthread_create_full demo_env (ut s3) (Create_fill ?a (Some 0)) = Some (?u3, Create_unlock (Some 0))"
    by (simp add: s3 sim)
  from ut_reachable.step[OF s3(1) create_fill[OF s3(3) this]]
  obtain s4 where s4: "ut_reachable s4" "ut s4 = ?u3" "pcs s4 ?t = Create_unlock (Some 0)"
      "pcs s4 (Ours 0) = Proxy_start" "owner s4 0 = Some (Ours 0)" "held s4 0 = 1"
    using s3 by force
  have "p_uthread_create_full demo_env (ut s4) (Create_unlock (Some 0)) = Some (?u4, Running)"
    by (simp add: s4 sim)
  from ut_reachable.step[OF s4(1) create_unlock[OF s4(3) this]]
  obtain s5 where s5: "ut_reachable s5" "ut s5 = ?u4" "pcs s5 (Ours 0) = Proxy_start" "owner s5 0 = Some (Ours 0)"
      "held s5 0 = 1" using s4 by force
  have "pp_uthread_proxy 0 (ut s5) (pcs s5 (Ours 0)) = Some (?u5, Proxy_lock)" by (simp add: s5 sim)
  from ut_reachable.step[OF s5(1) proxy[OF this]]
  obtain s6 where s6: "ut_reachable s6" "ut s6 = ?u5" "pcs s6 (Ours 0) = Proxy_lock" "owner s6 0 = Some (Ours 0)"
      "held s6 0 = 1" using s5 by force
  have "pp_uthread_proxy 0 (ut s6) (pcs s6 (Ours 0)) = Some (?u5\<lparr>new_spin := \<lparr>spin = 1\<rparr>\<rparr>, Proxy_unlock)"
    by (simp add: s6 sim)
  from ut_reachable.step[OF s6(1) proxy[OF this]]
  obtain s7 where s7: "ut_reachable s7" "pcs s7 (Ours 0) = Proxy_unlock" "owner s7 0 = Some (Ours 0)"
      "held s7 0 = 1" using s6 by force
  from ut_reachable.step[OF s7(1) proxy[of 0 s7]] s7 show ?thesis by force
qed

lemma thread_objects_live_witness:
  "\<exists>s. ut_reachable s \<and> objs (ut s) 0 \<noteq> None \<and> p_uthread_unref (Some 0) (ut s) \<noteq> None"
  using demo_run thread_objects_live[of _ 0] by (metis zero_less_one)

text \<open>
  C32.  A new thread runs only after its object is complete: in every reachable state a thread that has passed the spin
  lock finds its object marked as one of the library's, with a function to call, and its next step calls it.
\<close>

theorem thread_start_gate:
  assumes reach: "ut_reachable s" and pc: "pcs s (Ours p) \<notin> {Proxy_start, Proxy_lock, Ended}"
  shows "(\<exists>b. objs (ut s) p = Some b \<and> ours b \<and> func b \<noteq> None \<and> unat (ref_count b) = held s p + 1) \<and>
    (pcs s (Ours p) = Proxy_call \<longrightarrow> pp_uthread_proxy p (ut s) Proxy_call = Some (ut s, Running))"
proof -
  have inv: "ut_inv s" by (rule ut_reachable_inv[OF reach])
  then have obj: "inv_obj s p" and slt: "inv_slot s" by (auto simp: ut_inv_def)
  have own: "owner s p = Some (Ours p)" using inv_slotD(5)[OF slt, of p] pc by auto
  have "\<not> filling s p" using obj pc by (auto simp: inv_obj_def)
  then obtain b where b: "objs (ut s) p = Some b" "ours b" "func b \<noteq> None" "unat (ref_count b) = held s p + 1"
    using obj own by (auto simp: inv_obj_def split: option.splits)
  then show ?thesis by auto
qed

lemma thread_start_gate_witness:
  "\<exists>s. ut_reachable s \<and> pp_uthread_proxy 0 (ut s) Proxy_call = Some (ut s, Running)"
proof -
  obtain s where "ut_reachable s" "pcs s (Ours 0) = Proxy_call" using demo_run by blast
  then show ?thesis using thread_start_gate[of s 0] by auto
qed

text \<open>Sleeping succeeds exactly when the system, interrupted or not, has slept to the end of the whole time.\<close>

lemma sleep_loop_whole: "sleep_loop req as = Some 0 \<longleftrightarrow> (\<exists>rems rest. as = map Interrupted rems @ Slept # rest)"
proof (induction req as rule: sleep_loop.induct)
  case (3 req rem as)
  show ?case unfolding sleep_loop.simps 3
  proof (intro iffI; elim exE)
    fix rems rest assume "as = map Interrupted rems @ Slept # rest"
    then have "Interrupted rem # as = map Interrupted (rem # rems) @ Slept # rest" by simp
    then show "\<exists>rems rest. Interrupted rem # as = map Interrupted rems @ Slept # rest" by blast
  next
    fix rems rest assume a: "Interrupted rem # as = map Interrupted rems @ Slept # rest"
    then show "\<exists>rems rest. as = map Interrupted rems @ Slept # rest" by (cases rems) auto
  qed
qed (auto simp: Cons_eq_append_conv intro: exI[of _ "[]"])

lemma sdiv7: "(x :: int) sdiv 7 = (if 0 \<le> x then x div 7 else - ((- x) div 7))"
  by (auto simp: signed_divide_int_def sgn_if)

lemma div7_less: "y \<le> 6 * (d :: int) \<Longrightarrow> 0 \<le> d \<Longrightarrow> y div 7 \<le> d \<and> (0 < d \<longrightarrow> y div 7 < d)"
  by linarith

lemma priority_code_range: "0 \<le> priority_code pr \<and> priority_code pr \<le> 7"
  by (cases pr) simp_all

text \<open>One priority in the range of its policy: the scaled value, cut off at the lower end.\<close>

lemma unix_priority_scaled:
  assumes "bounds pol = (lo, hi)" "lo \<le> hi" "0 \<le> lo" "idle = None \<or> pr \<noteq> P_UTHREAD_PRIORITY_IDLE"
  shows "pp_uthread_get_unix_priority idle bounds pr pol =
    Some (pol, lo + max 0 ((priority_code pr - (if idle = None then 1 else 2)) * (hi - lo) div 7))"
proof -
  define c where "c = priority_code pr - (if idle = None then 1 else 2)"
  define x where "x = c * (hi - lo)"
  have "c \<le> 6" using priority_code_range[of pr] by (auto simp: c_def)
  then have "x \<le> 6 * (hi - lo)" unfolding x_def using assms(2) by (intro mult_right_mono) auto
  then have up: "x sdiv 7 \<le> hi - lo" using assms(2) by (auto simp: sdiv7)
  have pos: "max 0 (x sdiv 7) = max 0 (x div 7)" by (auto simp: sdiv7)
  have "pp_uthread_get_unix_priority idle bounds pr pol =
      Some (pol, (let v = x sdiv 7 + lo; v = (if v > hi then hi else v) in if v < lo then lo else v))"
    using assms by (auto simp: pp_uthread_get_unix_priority_def Let_def x_def c_def)
  also have "(let v = x sdiv 7 + lo; v = (if v > hi then hi else v) in if v < lo then lo else v) = lo + max 0 (x sdiv 7)"
    using up by (auto simp: Let_def)
  finally show ?thesis unfolding pos unfolding x_def c_def .
qed

text \<open>
  The native priority lies in the range of the policy and grows with the priority asked for, but the highest
  priority is never the highest of the range, which the division by the upper bound alone leaves out.
\<close>

theorem unix_priority_range:
  assumes "bounds pol = (lo, hi)" "lo \<le> hi" "0 \<le> lo"
    and "idle = None \<or> prio1 \<noteq> P_UTHREAD_PRIORITY_IDLE \<and> prio2 \<noteq> P_UTHREAD_PRIORITY_IDLE"
    and "priority_code prio1 \<le> priority_code prio2"
  shows "\<exists>m n. pp_uthread_get_unix_priority idle bounds prio1 pol = Some (pol, m) \<and>
    pp_uthread_get_unix_priority idle bounds prio2 pol = Some (pol, n) \<and>
    lo \<le> m \<and> m \<le> n \<and> n \<le> hi \<and> (lo < hi \<longrightarrow> n < hi)"
proof -
  define k :: int where "k = (if idle = None then 1 else 2)"
  have le: "(priority_code prio1 - k) * (hi - lo) div 7 \<le> (priority_code prio2 - k) * (hi - lo) div 7"
    using assms(2,5) by (intro zdiv_mono1 mult_right_mono) auto
  have "(priority_code prio2 - k) * (hi - lo) \<le> 6 * (hi - lo)"
    using assms(2) priority_code_range[of prio2] by (intro mult_right_mono) (auto simp: k_def)
  then have lt: "(priority_code prio2 - k) * (hi - lo) div 7 \<le> hi - lo"
      "lo < hi \<longrightarrow> (priority_code prio2 - k) * (hi - lo) div 7 < hi - lo"
    using assms(2) div7_less[of "(priority_code prio2 - k) * (hi - lo)" "hi - lo"] by auto
  show ?thesis
    using unix_priority_scaled[of bounds pol lo hi idle prio1] unix_priority_scaled[of bounds pol lo hi idle prio2]
      assms(1-4) le lt by (auto simp: k_def[symmetric])
qed

lemma unix_priority_range_witness:
  "\<exists>m n. pp_uthread_get_unix_priority None (\<lambda>_. (1, 99)) P_UTHREAD_PRIORITY_LOW 2 = Some (2, m) \<and>
    pp_uthread_get_unix_priority None (\<lambda>_. (1, 99)) P_UTHREAD_PRIORITY_TIMECRITICAL 2 = Some (2, n) \<and>
    1 \<le> m \<and> m \<le> n \<and> n < 99"
  using unix_priority_range[of "\<lambda>_. (1, 99)" 2 1 99 None P_UTHREAD_PRIORITY_LOW P_UTHREAD_PRIORITY_TIMECRITICAL]
  by auto

end
