(* ===== verification/PUThreadKey.thy ===== *)
theory PUThreadKey
  imports Main
begin

text \<open>
  Thread-local storage (\<open>puthread-posix.c\<close>): the native key behind a library key is made by the first thread that
  uses it, and threads that do so at the same time agree on one.  A native key is named by the memory block it lies in.
\<close>

record PUThreadKey =
  key :: "nat option"
  free_func :: "(nat \<Rightarrow> nat list) option"

definition p_uthread_local_new :: "bool \<Rightarrow> (nat \<Rightarrow> nat list) option \<Rightarrow> PUThreadKey option" where
  "p_uthread_local_new mem f = (if \<not> mem then None else Some \<lparr>key = None, free_func = f\<rparr>)"

section \<open>The native key\<close>

text \<open>The shared key with the native keys that exist.\<close>

record tls =
  the_key :: PUThreadKey
  natives :: "nat \<Rightarrow> bool"
  fresh :: nat

text \<open>Where a thread is in \<open>pp_uthread_get_tls_key\<close>.\<close>

datatype tls_pc =
    Key_get
  | Key_create
  | Key_exchange nat
  | Key_delete nat
  | Key_reload
  | Key_return "nat option"

text \<open>The steps between accesses to shared memory; \<open>mem\<close> and \<open>ok\<close> say whether memory and the native call succeed.\<close>

fun pp_uthread_get_tls_key :: "bool \<Rightarrow> bool \<Rightarrow> tls \<Rightarrow> tls_pc \<Rightarrow> tls \<times> tls_pc" where
  "pp_uthread_get_tls_key mem ok st Key_get =
     (st, case key (the_key st) of None \<Rightarrow> Key_create | Some k \<Rightarrow> Key_return (Some k))"
| "pp_uthread_get_tls_key mem ok st Key_create =
     (if \<not> mem then (st, Key_return None)
      else if \<not> ok then (st, Key_return None)
      else (st\<lparr>natives := (natives st)(fresh st := True), fresh := Suc (fresh st)\<rparr>, Key_exchange (fresh st)))"
| "pp_uthread_get_tls_key mem ok st (Key_exchange k) =
     (if key (the_key st) = None then (st\<lparr>the_key := (the_key st)\<lparr>key := Some k\<rparr>\<rparr>, Key_return (Some k))
      else (st, Key_delete k))"
| "pp_uthread_get_tls_key mem ok st (Key_delete k) =
     (if \<not> ok then (st, Key_return None) else (st\<lparr>natives := (natives st)(k := False)\<rparr>, Key_reload))"
| "pp_uthread_get_tls_key mem ok st Key_reload = (st, Key_return (key (the_key st)))"
| "pp_uthread_get_tls_key mem ok st (Key_return r) = (st, Key_return r)"

section \<open>Values\<close>

text \<open>
  What a native thread keeps under each native key.  \<open>tls_key\<close> is the answer of \<open>pp_uthread_get_tls_key\<close>, \<open>ok\<close> says
  whether the system stores the value.
\<close>

type_synonym slots = "nat \<Rightarrow> nat option"

definition p_uthread_get_local :: "PUThreadKey option \<Rightarrow> nat option \<Rightarrow> slots \<Rightarrow> nat option" where
  "p_uthread_get_local k tls_key vals =
     (case k of
        None \<Rightarrow> None
      | Some _ \<Rightarrow> (case tls_key of None \<Rightarrow> None | Some n \<Rightarrow> vals n))"

definition p_uthread_set_local :: "PUThreadKey option \<Rightarrow> nat option \<Rightarrow> bool \<Rightarrow> nat option \<Rightarrow> slots \<Rightarrow> slots" where
  "p_uthread_set_local k tls_key ok val vals =
     (case k of
        None \<Rightarrow> vals
      | Some _ \<Rightarrow> (case tls_key of None \<Rightarrow> vals | Some n \<Rightarrow> if \<not> ok then vals else vals(n := val)))"

text \<open>With the calls of the destroy function, here what they report.\<close>

definition p_uthread_replace_local ::
  "PUThreadKey option \<Rightarrow> nat option \<Rightarrow> bool \<Rightarrow> nat option \<Rightarrow> slots \<Rightarrow> nat list \<times> slots" where
  "p_uthread_replace_local k tls_key ok val vals =
     (case k of
        None \<Rightarrow> ([], vals)
      | Some pk \<Rightarrow>
          (case tls_key of
             None \<Rightarrow> ([], vals)
           | Some n \<Rightarrow>
               (let evs = (case vals n of None \<Rightarrow> []
                           | Some old_value \<Rightarrow> (case free_func pk of None \<Rightarrow> [] | Some f \<Rightarrow> f old_value))
                in (evs, if \<not> ok then vals else vals(n := val)))))"

end
