(* ===== verification/PUThreadKeyProps.thy ===== *)
theory PUThreadKeyProps
  imports PUThreadKey
begin

text \<open>
  Properties of thread-local storage: whatever the order in which threads first use a key, they get one native key,
  and no other is left over.
\<close>

section \<open>Threads using a key\<close>

record tls_sys =
  shared :: tls
  at :: "nat \<Rightarrow> tls_pc option"

definition tls_init :: "PUThreadKey \<Rightarrow> tls_sys" where
  "tls_init k = \<lparr>shared = \<lparr>the_key = k, natives = (\<lambda>_. False), fresh = 0\<rparr>, at = (\<lambda>_. None)\<rparr>"

text \<open>A thread that is not using the key may start to; deleting a native key that exists succeeds.\<close>

inductive tls_step :: "tls_sys \<Rightarrow> tls_sys \<Rightarrow> bool" where
  call: "at s t = None \<Longrightarrow> tls_step s (s\<lparr>at := (at s)(t \<mapsto> Key_get)\<rparr>)"
| run: "at s t = Some pc \<Longrightarrow> (\<And>k. pc = Key_delete k \<Longrightarrow> natives (shared s) k \<Longrightarrow> ok) \<Longrightarrow>
    pp_uthread_get_tls_key mem ok (shared s) pc = (st, pc') \<Longrightarrow> tls_step s (s\<lparr>shared := st, at := (at s)(t \<mapsto> pc')\<rparr>)"
| return: "at s t = Some (Key_return r) \<Longrightarrow> tls_step s (s\<lparr>at := (at s)(t := None)\<rparr>)"

inductive tls_reachable :: "PUThreadKey \<Rightarrow> tls_sys \<Rightarrow> bool" for k where
  start: "tls_reachable k (tls_init k)"
| step: "tls_reachable k s \<Longrightarrow> tls_step s s' \<Longrightarrow> tls_reachable k s'"

section \<open>The invariant\<close>

fun pending :: "tls_pc option \<Rightarrow> nat option" where
  "pending (Some (Key_exchange k)) = Some k"
| "pending (Some (Key_delete k)) = Some k"
| "pending _ = None"

text \<open>A native key is the one in use or belongs to the thread that has just made it.\<close>

definition tls_inv :: "tls_sys \<Rightarrow> bool" where
  "tls_inv s \<longleftrightarrow>
     (\<forall>n. natives (shared s) n \<longrightarrow> n < fresh (shared s)) \<and>
     (\<forall>n. natives (shared s) n \<longleftrightarrow> key (the_key (shared s)) = Some n \<or> (\<exists>t. pending (at s t) = Some n)) \<and>
     (\<forall>t n. pending (at s t) = Some n \<longrightarrow> key (the_key (shared s)) \<noteq> Some n) \<and>
     (\<forall>t u n. pending (at s t) = Some n \<longrightarrow> pending (at s u) = Some n \<longrightarrow> t = u) \<and>
     (\<forall>t n. at s t = Some (Key_return (Some n)) \<longrightarrow> key (the_key (shared s)) = Some n) \<and>
     (\<forall>t. at s t = Some Key_reload \<or> (\<exists>n. at s t = Some (Key_delete n)) \<longrightarrow> key (the_key (shared s)) \<noteq> None)"

lemma tls_init_inv: "key k = None \<Longrightarrow> tls_inv (tls_init k)"
  by (simp add: tls_inv_def tls_init_def)

lemma tls_invD:
  assumes "tls_inv s"
  shows "natives (shared s) n \<Longrightarrow> n < fresh (shared s)"
    and "natives (shared s) n \<longleftrightarrow> key (the_key (shared s)) = Some n \<or> (\<exists>t. pending (at s t) = Some n)"
    and "pending (at s t) = Some n \<Longrightarrow> key (the_key (shared s)) \<noteq> Some n"
    and "pending (at s t) = Some n \<Longrightarrow> pending (at s u) = Some n \<Longrightarrow> t = u"
    and "at s t = Some (Key_return (Some n)) \<Longrightarrow> key (the_key (shared s)) = Some n"
    and "at s t = Some Key_reload \<or> at s t = Some (Key_delete n) \<Longrightarrow> key (the_key (shared s)) \<noteq> None"
  using assms unfolding tls_inv_def by blast+

text \<open>A step that leaves the shared state alone and makes no thread hold a native key of its own.\<close>

lemma tls_inv_local:
  assumes inv: "tls_inv s" and at': "at s' = (at s)(t := pc)" and sh: "shared s' = shared s"
    and pend: "pending pc = pending (at s t)"
    and ret: "\<And>n. pc = Some (Key_return (Some n)) \<Longrightarrow> key (the_key (shared s)) = Some n"
    and del: "pc = Some Key_reload \<or> (\<exists>n. pc = Some (Key_delete n)) \<Longrightarrow> key (the_key (shared s)) \<noteq> None"
  shows "tls_inv s'"
proof -
  have p: "pending (at s' u) = pending (at s u)" for u using at' pend by simp
  show ?thesis using inv ret del unfolding tls_inv_def p sh by (simp add: at')
qed

lemma tls_invI:
  assumes "\<And>n. natives (shared s) n \<Longrightarrow> n < fresh (shared s)"
    and "\<And>n. natives (shared s) n \<Longrightarrow> key (the_key (shared s)) \<noteq> Some n \<Longrightarrow> \<exists>t. pending (at s t) = Some n"
    and "\<And>n. key (the_key (shared s)) = Some n \<Longrightarrow> natives (shared s) n"
    and "\<And>t n. pending (at s t) = Some n \<Longrightarrow> natives (shared s) n \<and> key (the_key (shared s)) \<noteq> Some n"
    and "\<And>t u n. pending (at s t) = Some n \<Longrightarrow> pending (at s u) = Some n \<Longrightarrow> t = u"
    and "\<And>t n. at s t = Some (Key_return (Some n)) \<Longrightarrow> key (the_key (shared s)) = Some n"
    and "\<And>t n. at s t = Some Key_reload \<or> at s t = Some (Key_delete n) \<Longrightarrow> key (the_key (shared s)) \<noteq> None"
  shows "tls_inv s"
  unfolding tls_inv_def using assms by blast

lemma other_thread: "pending (at s t) \<noteq> Some n \<Longrightarrow> \<exists>u. pending (at s u) = Some n \<Longrightarrow> \<exists>u. u \<noteq> t \<and> pending (at s u) = Some n"
  by metis

lemma tls_create_inv:
  assumes inv: "tls_inv s" and pc: "at s t = Some Key_create"
  shows "tls_inv (s\<lparr>shared := (shared s)\<lparr>natives := (natives (shared s))(fresh (shared s) := True),
    fresh := Suc (fresh (shared s))\<rparr>, at := (at s)(t \<mapsto> Key_exchange (fresh (shared s)))\<rparr>)" (is "tls_inv ?s")
proof -
  note d = tls_invD[OF inv]
  let ?n = "fresh (shared s)"
  have no: "\<not> natives (shared s) ?n" using d(1)[of ?n] by auto
  have pn: "pending (at s t) = None" using pc by simp
  have e: "natives (shared ?s) m \<longleftrightarrow> m = ?n \<or> natives (shared s) m" "fresh (shared ?s) = Suc ?n"
      "the_key (shared ?s) = the_key (shared s)" "pending (at ?s u) = (if u = t then Some ?n else pending (at s u))"
      "at ?s u = Some Key_reload \<longleftrightarrow> at s u = Some Key_reload"
      "at ?s u = Some (Key_delete m) \<longleftrightarrow> at s u = Some (Key_delete m)"
      "at ?s u = Some (Key_return r) \<longleftrightarrow> at s u = Some (Key_return r)" for m u r
    using pc by auto
  show ?thesis
  proof (rule tls_invI; unfold e)
    show "m < Suc ?n" if "m = ?n \<or> natives (shared s) m" for m using that d(1)[of m] by auto
    show "\<exists>u. (if u = t then Some ?n else pending (at s u)) = Some m"
      if "m = ?n \<or> natives (shared s) m" "key (the_key (shared s)) \<noteq> Some m" for m
      using that d(2)[of m] other_thread[of s t m] pn by (cases "m = ?n") auto
    show "m = ?n \<or> natives (shared s) m" if "key (the_key (shared s)) = Some m" for m using that d(2)[of m] by blast
    show "(m = ?n \<or> natives (shared s) m) \<and> key (the_key (shared s)) \<noteq> Some m"
      if "(if u = t then Some ?n else pending (at s u)) = Some m" for u m
      using that no d(2)[of m] d(3)[of u m] by (auto split: if_splits)
    show "u = v" if "(if u = t then Some ?n else pending (at s u)) = Some m"
        "(if v = t then Some ?n else pending (at s v)) = Some m" for u v m
      using that no d(2)[of m] d(4)[of u m v] by (auto split: if_splits)
  qed (use d(5,6) in blast)+
qed

lemma tls_exchange_inv:
  assumes inv: "tls_inv s" and pc: "at s t = Some (Key_exchange n)" and k: "key (the_key (shared s)) = None"
  shows "tls_inv (s\<lparr>shared := (shared s)\<lparr>the_key := (the_key (shared s))\<lparr>key := Some n\<rparr>\<rparr>,
    at := (at s)(t \<mapsto> Key_return (Some n))\<rparr>)" (is "tls_inv ?s")
proof -
  note d = tls_invD[OF inv]
  have pn: "pending (at s t) = Some n" using pc by simp
  have nr: "at s u \<noteq> Some (Key_return (Some m))" "at s u \<noteq> Some Key_reload" "at s u \<noteq> Some (Key_delete m)" for u m
    using d(5)[of u m] d(6)[of u m] k by auto
  have e: "natives (shared ?s) m \<longleftrightarrow> natives (shared s) m" "fresh (shared ?s) = fresh (shared s)"
      "key (the_key (shared ?s)) = Some n" "pending (at ?s u) = (if u = t then None else pending (at s u))"
      "at ?s u = Some (Key_return (Some m)) \<longleftrightarrow> u = t \<and> m = n" "at ?s u = Some Key_reload \<longleftrightarrow> False"
      "at ?s u = Some (Key_delete m) \<longleftrightarrow> False" for m u
    using nr by auto
  show ?thesis
  proof (rule tls_invI; unfold e)
    show "m < fresh (shared s)" if "natives (shared s) m" for m using that d(1) by blast
    show "\<exists>u. (if u = t then None else pending (at s u)) = Some m" if "natives (shared s) m" "Some n \<noteq> Some m" for m
      using that d(2)[of m] k pn other_thread[of s t m] by auto
    show "natives (shared s) m" if "Some n = Some m" for m using that d(2)[of m] pn by auto
    show "natives (shared s) m \<and> Some n \<noteq> Some m" if "(if u = t then None else pending (at s u)) = Some m" for u m
      using that d(2)[of m] d(4)[of t n u] pn by (auto split: if_splits)
    show "u = v" if "(if u = t then None else pending (at s u)) = Some m"
        "(if v = t then None else pending (at s v)) = Some m" for u v m
      using that d(4)[of u m v] by (auto split: if_splits)
  qed auto
qed

lemma tls_delete_inv:
  assumes inv: "tls_inv s" and pc: "at s t = Some (Key_delete n)"
  shows "tls_inv (s\<lparr>shared := (shared s)\<lparr>natives := (natives (shared s))(n := False)\<rparr>, at := (at s)(t \<mapsto> Key_reload)\<rparr>)"
    (is "tls_inv ?s")
proof -
  note d = tls_invD[OF inv]
  have pn: "pending (at s t) = Some n" using pc by simp
  have k: "key (the_key (shared s)) \<noteq> Some n" "key (the_key (shared s)) \<noteq> None"
    using d(3)[OF pn] d(6)[of t n] pc by auto
  have e: "natives (shared ?s) m \<longleftrightarrow> m \<noteq> n \<and> natives (shared s) m" "fresh (shared ?s) = fresh (shared s)"
      "the_key (shared ?s) = the_key (shared s)" "pending (at ?s u) = (if u = t then None else pending (at s u))"
      "at ?s u = Some (Key_return r) \<longleftrightarrow> at s u = Some (Key_return r)" for m u r
    using pc by auto
  show ?thesis
  proof (rule tls_invI; (unfold e)?)
    show "m < fresh (shared s)" if "m \<noteq> n \<and> natives (shared s) m" for m using that d(1) by blast
    show "\<exists>u. (if u = t then None else pending (at s u)) = Some m"
      if "m \<noteq> n \<and> natives (shared s) m" "key (the_key (shared s)) \<noteq> Some m" for m
      using that d(2)[of m] pn other_thread[of s t m] by auto
    show "m \<noteq> n \<and> natives (shared s) m" if "key (the_key (shared s)) = Some m" for m using that d(2)[of m] k by auto
    show "(m \<noteq> n \<and> natives (shared s) m) \<and> key (the_key (shared s)) \<noteq> Some m"
      if "(if u = t then None else pending (at s u)) = Some m" for u m
    proof -
      have u: "u \<noteq> t" "pending (at s u) = Some m" using that by (auto split: if_splits)
      then have "m \<noteq> n" using d(4)[OF pn, of u] by auto
      moreover have "natives (shared s) m" using d(2)[of m] u(2) by blast
      ultimately show ?thesis using d(3)[OF u(2)] by blast
    qed
    show "u = v" if "(if u = t then None else pending (at s u)) = Some m"
        "(if v = t then None else pending (at s v)) = Some m" for u v m
      using that d(4)[of u m v] by (auto split: if_splits)
    show "key (the_key (shared s)) = Some m" if "at s u = Some (Key_return (Some m))" for u m using that d(5) by blast
    show "key (the_key (shared s)) \<noteq> None" for u m using k(2) .
  qed
qed

lemma tls_step_inv: "tls_step s s' \<Longrightarrow> tls_inv s \<Longrightarrow> tls_inv s'"
proof (induction rule: tls_step.induct)
  case (call s t)
  then show ?case using tls_inv_local[of s "s\<lparr>at := (at s)(t \<mapsto> Key_get)\<rparr>" t "Some Key_get"] by simp
next
  case (return s t r)
  then show ?case using tls_inv_local[of s "s\<lparr>at := (at s)(t := None)\<rparr>" t None] by simp
next
  case (run s t pc ok mem st pc')
  note st = run.hyps(3) and inv = run.prems and pc = run.hyps(1)
  show ?case
  proof (cases pc)
    case Key_get
    then show ?thesis using st pc tls_inv_local[OF inv, of "s\<lparr>at := (at s)(t \<mapsto> pc')\<rparr>" t "Some pc'"]
      by (auto split: option.splits)
  next
    case Key_create
    then show ?thesis using st pc tls_create_inv[OF inv, of t] tls_inv_local[OF inv, of "s\<lparr>at := (at s)(t \<mapsto> Key_return None)\<rparr>" t "Some (Key_return None)"]
      by (auto split: if_splits)
  next
    case (Key_exchange n)
    then show ?thesis using st pc tls_exchange_inv[OF inv, of t n] tls_inv_local[OF inv, of "s\<lparr>at := (at s)(t \<mapsto> Key_delete n)\<rparr>" t "Some (Key_delete n)"]
      by (auto split: if_splits)
  next
    case (Key_delete n)
    then have "natives (shared s) n" using tls_invD(2)[OF inv, of n] pc by (metis pending.simps(2))
    then have ok using run.hyps(2) Key_delete by blast
    then show ?thesis using st pc Key_delete tls_delete_inv[OF inv, of t n] by auto
  next
    case Key_reload
    then show ?thesis using st pc tls_inv_local[OF inv, of "s\<lparr>at := (at s)(t \<mapsto> pc')\<rparr>" t "Some pc'"] by auto
  next
    case (Key_return r)
    then show ?thesis
      using st pc tls_invD(5)[OF inv, of t] tls_inv_local[OF inv, of "s\<lparr>at := (at s)(t \<mapsto> pc')\<rparr>" t "Some pc'"] by auto
  qed
qed

lemma tls_reachable_inv: "tls_reachable k s \<Longrightarrow> key k = None \<Longrightarrow> tls_inv s"
  by (induction rule: tls_reachable.induct) (auto intro: tls_init_inv tls_step_inv)

lemma tls_reachable_free_func: "tls_reachable k s \<Longrightarrow> free_func (the_key (shared s)) = free_func k"
proof (induction rule: tls_reachable.induct)
  case start
  show ?case by (simp add: tls_init_def)
next
  case (step s s')
  show ?case using step(2,3)
  proof cases
    case (run t pc ok mem st pc')
    then have "free_func (the_key st) = free_func (the_key (shared s))"
      by (cases pc) (auto split: if_splits)
    then show ?thesis using run(1) step(3) by simp
  qed (simp_all add: step(3))
qed

section \<open>Properties\<close>

text \<open>
  C33.  Threads that use a key for the first time at the same time agree on one native key: in every reachable state all
  calls that have returned a key return the same one, which exists; once no call is under way, the native keys that
  exist are exactly the one in use; and a call that finds another thread was faster returns the key of that thread.
\<close>

theorem thread_key_unique:
  assumes "tls_reachable k s" "key k = None"
  shows "(at s t = Some (Key_return (Some m)) \<longrightarrow> key (the_key (shared s)) = Some m \<and> natives (shared s) m) \<and>
    (at s t = Some (Key_return (Some m)) \<longrightarrow> at s u = Some (Key_return (Some n)) \<longrightarrow> m = n) \<and>
    ((\<forall>t. at s t = None \<or> (\<exists>r. at s t = Some (Key_return r))) \<longrightarrow>
       (natives (shared s) n \<longleftrightarrow> key (the_key (shared s)) = Some n)) \<and>
    (at s t = Some Key_reload \<longrightarrow>
       (\<exists>n. pp_uthread_get_tls_key mem ok (shared s) Key_reload = (shared s, Key_return (Some n)) \<and> natives (shared s) n))"
proof -
  note d = tls_invD[OF tls_reachable_inv[OF assms]]
  have one: "key (the_key (shared s)) = Some m \<and> natives (shared s) m" if "at s t = Some (Key_return (Some m))" for t m
    using d(5)[OF that] d(2)[of m] by blast
  moreover have "m = n" if "at s t = Some (Key_return (Some m))" "at s u = Some (Key_return (Some n))"
    using one[OF that(1)] one[OF that(2)] by simp
  moreover have "natives (shared s) n \<longleftrightarrow> key (the_key (shared s)) = Some n"
    if idle: "\<forall>t. at s t = None \<or> (\<exists>r. at s t = Some (Key_return r))"
  proof -
    have "pending (at s t) \<noteq> Some n" for t using idle[rule_format, of t] by auto
    then show ?thesis using d(2)[of n] by blast
  qed
  moreover have "\<exists>n. pp_uthread_get_tls_key mem ok (shared s) Key_reload = (shared s, Key_return (Some n)) \<and> natives (shared s) n"
    if "at s t = Some Key_reload"
    using d(6)[of t] d(2) that by auto
  ultimately show ?thesis by blast
qed

text \<open>Two threads start to use a new key, both make a native key, and the second loses.\<close>

lemma demo_race:
  fixes k :: PUThreadKey
  defines "k \<equiv> \<lparr>key = None, free_func = None\<rparr>"
  shows "\<exists>s :: tls_sys. tls_reachable k s \<and> at s 0 = Some (Key_return (Some 0)) \<and> at s 1 = Some Key_reload \<and> natives (shared s) 0"
proof -
  define pc where "pc = (\<lambda>a b :: tls_pc. \<lambda>t :: nat. if t = 0 then Some a else if t = 1 then Some b else None)"
  define st where "st = (\<lambda>c (n :: nat set) m. \<lparr>the_key = k\<lparr>key := c\<rparr>, natives = (\<lambda>i. i \<in> n), fresh = m\<rparr>)"
  have go: "tls_reachable k \<lparr>shared = st c' n' m', at = pc a' b'\<rparr>"
    if "tls_reachable k \<lparr>shared = st c n m, at = pc a b\<rparr>"
      "pp_uthread_get_tls_key True True (st c n m) a = (st c' n' m', a') \<and> b' = b \<or>
       pp_uthread_get_tls_key True True (st c n m) b = (st c' n' m', b') \<and> a' = a" for c n m a b c' n' m' a' b'
    using that(2)
  proof (elim disjE conjE)
    assume a: "pp_uthread_get_tls_key True True (st c n m) a = (st c' n' m', a')" "b' = b"
    have "(pc a b)(0 \<mapsto> a') = pc a' b" by (auto simp: pc_def)
    then show ?thesis
      using tls_reachable.step[OF that(1) run[of "\<lparr>shared = st c n m, at = pc a b\<rparr>" 0 a True True]] a by (simp add: pc_def)
  next
    assume b: "pp_uthread_get_tls_key True True (st c n m) b = (st c' n' m', b')" "a' = a"
    have "(pc a b)(1 \<mapsto> b') = pc a b'" by (auto simp: pc_def)
    then show ?thesis
      using tls_reachable.step[OF that(1) run[of "\<lparr>shared = st c n m, at = pc a b\<rparr>" 1 b True True]] b by (simp add: pc_def)
  qed
  have "tls_reachable k ((tls_init k)\<lparr>at := [0 \<mapsto> Key_get]\<rparr>)"
    using tls_reachable.step[OF start call[of "tls_init k" 0]] by (simp add: tls_init_def)
  from tls_reachable.step[OF this call[of _ 1]]
  have "tls_reachable k ((tls_init k)\<lparr>at := [0 \<mapsto> Key_get, 1 \<mapsto> Key_get]\<rparr>)" by simp
  moreover have "(tls_init k)\<lparr>at := [0 \<mapsto> Key_get, 1 \<mapsto> Key_get]\<rparr> = \<lparr>shared = st None {} 0, at = pc Key_get Key_get\<rparr>"
    by (auto simp: tls_init_def st_def pc_def k_def)
  ultimately have 1: "tls_reachable k \<lparr>shared = st None {} 0, at = pc Key_get Key_get\<rparr>" by simp
  have 2: "tls_reachable k \<lparr>shared = st None {} 0, at = pc Key_create Key_get\<rparr>" by (rule go[OF 1]) (simp add: st_def)
  have 3: "tls_reachable k \<lparr>shared = st None {} 0, at = pc Key_create Key_create\<rparr>" by (rule go[OF 2]) (simp add: st_def)
  have 4: "tls_reachable k \<lparr>shared = st None {0} 1, at = pc (Key_exchange 0) Key_create\<rparr>"
    by (rule go[OF 3]) (auto simp: st_def fun_eq_iff)
  have 5: "tls_reachable k \<lparr>shared = st None {0, 1} 2, at = pc (Key_exchange 0) (Key_exchange 1)\<rparr>"
    by (rule go[OF 4]) (auto simp: st_def fun_eq_iff)
  have 6: "tls_reachable k \<lparr>shared = st (Some 0) {0, 1} 2, at = pc (Key_return (Some 0)) (Key_exchange 1)\<rparr>"
    by (rule go[OF 5]) (auto simp: st_def k_def)
  have 7: "tls_reachable k \<lparr>shared = st (Some 0) {0, 1} 2, at = pc (Key_return (Some 0)) (Key_delete 1)\<rparr>"
    by (rule go[OF 6]) (auto simp: st_def fun_eq_iff)
  have 8: "tls_reachable k \<lparr>shared = st (Some 0) {0} 2, at = pc (Key_return (Some 0)) Key_reload\<rparr>"
    by (rule go[OF 7]) (auto simp: st_def fun_eq_iff)
  show ?thesis by (rule exI, intro conjI, rule 8) (simp_all add: pc_def st_def)
qed

lemma thread_key_unique_witness:
  "\<exists>(s :: tls_sys) n. pp_uthread_get_tls_key True True (shared s) Key_reload = (shared s, Key_return (Some n)) \<and>
    at s 0 = Some (Key_return (Some 0)) \<and> natives (shared s) n"
proof -
  let ?k = "\<lparr>key = None, free_func = None\<rparr> :: PUThreadKey"
  obtain s where s: "tls_reachable ?k s" "at s 0 = Some (Key_return (Some 0))" "at s 1 = Some Key_reload"
    using demo_race by auto
  have "key ?k = None" by simp
  from thread_key_unique[OF s(1) this, of 1 0 1 0 True True] s(3)
  have "\<exists>n. pp_uthread_get_tls_key True True (shared s) Key_reload = (shared s, Key_return (Some n)) \<and> natives (shared s) n"
    by blast
  then show ?thesis using s(2) by blast
qed

text \<open>
  A value set by a thread is the one it gets back, no other key is touched, and replacing destroys the old value,
  also when the system then refuses to store the new one and the old value stays in place.
\<close>

lemma thread_local_values:
  "p_uthread_get_local (Some k) (Some n) (p_uthread_set_local (Some k) (Some n) True val vals) = val"
  "p_uthread_get_local (Some k) (Some n) (snd (p_uthread_replace_local (Some k) (Some n) True val vals)) = val"
  "m \<noteq> n \<Longrightarrow> p_uthread_get_local (Some k) (Some m) (p_uthread_set_local (Some k) (Some n) ok val vals) = vals m"
  "free_func k = Some f \<Longrightarrow> vals n = Some old \<Longrightarrow>
    p_uthread_replace_local (Some k) (Some n) False val vals = (f old, vals)"
  by (simp_all add: p_uthread_get_local_def p_uthread_set_local_def p_uthread_replace_local_def)

end
