(* ===== verification/PUThreadSolaris.thy ===== *)
theory PUThreadSolaris
  imports PUThread PUThreadKey
begin

text \<open>
  Native threads and thread-local keys on Solaris (\<open>puthread-solaris.c\<close>, in the variant that is not for UnixWare).  The
  native key behind a library key is made under a mutex.
\<close>

section \<open>Threads\<close>

definition PLIBSYS_THREAD_MIN_PRIO :: int where "PLIBSYS_THREAD_MIN_PRIO = 0"
definition PLIBSYS_THREAD_MAX_PRIO :: int where "PLIBSYS_THREAD_MAX_PRIO = 127"

definition pp_uthread_get_unix_priority_thr :: "PUThreadPriority \<Rightarrow> int" where
  "pp_uthread_get_unix_priority_thr pr =
     (let lowBound = priority_code P_UTHREAD_PRIORITY_IDLE; upperBound = priority_code P_UTHREAD_PRIORITY_TIMECRITICAL
      in ((priority_code pr - lowBound) * (PLIBSYS_THREAD_MAX_PRIO - PLIBSYS_THREAD_MIN_PRIO)) sdiv upperBound
           + PLIBSYS_THREAD_MIN_PRIO)"

text \<open>What the system answers: \<open>thr_ok\<close> for a stack size and whether the thread is detached, \<open>prio_ok\<close> for a priority.\<close>

record thr_system =
  thr_mem :: bool
  thr_min_stack :: nat
  thr_ok :: "nat \<Rightarrow> bool \<Rightarrow> bool"
  prio_ok :: "int \<Rightarrow> bool"
  continue_ok :: bool

text \<open>The object, if one is made, with what the native thread got: stack, detached or not, and priority if it was taken.\<close>

definition p_uthread_create_internal_thr ::
  "thr_system \<Rightarrow> bool \<Rightarrow> PUThreadPriority \<Rightarrow> nat \<Rightarrow> (PUThreadBase \<times> nat \<times> bool \<times> int option) option" where
  "p_uthread_create_internal_thr env joinable_arg pr stack_size =
     (if \<not> thr_mem env then None
      else
        (let sz = (if stack_size > 0 \<and> stack_size < thr_min_stack env then thr_min_stack env else stack_size);
             det = (\<not> joinable_arg); native = pp_uthread_get_unix_priority_thr pr
         in if \<not> thr_ok env sz det then None
            else if \<not> continue_ok env then None
            else Some (zero_thread\<lparr>joinable := joinable_arg, prio := pr\<rparr>, sz, det,
                       if prio_ok env native then Some native else None)))"

definition p_uthread_set_priority_thr ::
  "(int \<Rightarrow> bool) \<Rightarrow> PUThreadBase option \<Rightarrow> PUThreadPriority \<Rightarrow> PUThreadBase option \<times> bool" where
  "p_uthread_set_priority_thr set_ok thread pr =
     (case thread of
        None \<Rightarrow> (None, False)
      | Some b \<Rightarrow>
          if \<not> set_ok (pp_uthread_get_unix_priority_thr pr) then (Some b, False)
          else (Some (b\<lparr>prio := pr\<rparr>), True))"

section \<open>The native key\<close>

datatype thr_pc =
    Thr_get
  | Thr_lock
  | Thr_create
  | Thr_store nat
  | Thr_unlock "nat option"
  | Thr_return "nat option"

record tls_locked = tls +
  tls_mutex :: bool

text \<open>
  The steps between accesses to shared memory; \<open>None\<close> while the mutex is taken.  The test after the mutex is taken reads
  the local variable, which still is NULL, and not the key again.
\<close>

fun pp_uthread_get_tls_key_thr :: "bool \<Rightarrow> bool \<Rightarrow> tls_locked \<Rightarrow> thr_pc \<Rightarrow> (tls_locked \<times> thr_pc) option" where
  "pp_uthread_get_tls_key_thr mem ok st Thr_get =
     Some (st, case key (the_key st) of None \<Rightarrow> Thr_lock | Some k \<Rightarrow> Thr_return (Some k))"
| "pp_uthread_get_tls_key_thr mem ok st Thr_lock =
     (if tls_mutex st then None else Some (st\<lparr>tls_mutex := True\<rparr>, Thr_create))"
| "pp_uthread_get_tls_key_thr mem ok st Thr_create =
     (if \<not> mem then Some (st, Thr_unlock None)
      else if \<not> ok then Some (st, Thr_unlock None)
      else Some (st\<lparr>natives := (natives st)(fresh st := True), fresh := Suc (fresh st)\<rparr>, Thr_store (fresh st)))"
| "pp_uthread_get_tls_key_thr mem ok st (Thr_store k) =
     Some (st\<lparr>the_key := (the_key st)\<lparr>key := Some k\<rparr>\<rparr>, Thr_unlock (Some k))"
| "pp_uthread_get_tls_key_thr mem ok st (Thr_unlock r) = Some (st\<lparr>tls_mutex := False\<rparr>, Thr_return r)"
| "pp_uthread_get_tls_key_thr mem ok st (Thr_return r) = None"

section \<open>Values\<close>

text \<open>\<open>get_ok\<close> and \<open>set_ok\<close>: \<open>thr_getspecific\<close> and \<open>thr_setspecific\<close> succeed.\<close>

definition p_uthread_get_local_thr :: "PUThreadKey option \<Rightarrow> nat option \<Rightarrow> bool \<Rightarrow> slots \<Rightarrow> nat option" where
  "p_uthread_get_local_thr k tls_key get_ok vals =
     (case k of
        None \<Rightarrow> None
      | Some _ \<Rightarrow> (case tls_key of None \<Rightarrow> None | Some n \<Rightarrow> if \<not> get_ok then None else vals n))"

definition p_uthread_set_local_thr :: "PUThreadKey option \<Rightarrow> nat option \<Rightarrow> bool \<Rightarrow> nat option \<Rightarrow> slots \<Rightarrow> slots" where
  "p_uthread_set_local_thr k tls_key set_ok val vals =
     (case k of
        None \<Rightarrow> vals
      | Some _ \<Rightarrow> (case tls_key of None \<Rightarrow> vals | Some n \<Rightarrow> if \<not> set_ok then vals else vals(n := val)))"

definition p_uthread_replace_local_thr ::
  "PUThreadKey option \<Rightarrow> nat option \<Rightarrow> bool \<Rightarrow> bool \<Rightarrow> nat option \<Rightarrow> slots \<Rightarrow> nat list \<times> slots" where
  "p_uthread_replace_local_thr k tls_key get_ok set_ok val vals =
     (case k of
        None \<Rightarrow> ([], vals)
      | Some pk \<Rightarrow>
          (case tls_key of
             None \<Rightarrow> ([], vals)
           | Some n \<Rightarrow>
               if \<not> get_ok then ([], vals)
               else
                 (let evs = (case vals n of None \<Rightarrow> []
                             | Some old_value \<Rightarrow> (case free_func pk of None \<Rightarrow> [] | Some f \<Rightarrow> f old_value))
                  in (evs, if \<not> set_ok then vals else vals(n := val)))))"

end
