(* ===== verification/PUThreadSolarisProps.thy ===== *)
theory PUThreadSolarisProps
  imports PUThreadSolaris
begin

text \<open>Properties of thread-local keys and priorities on Solaris.\<close>

section \<open>Threads using a key\<close>

record thr_sys =
  thr_shared :: tls_locked
  thr_at :: "nat \<Rightarrow> thr_pc option"

definition thr_init :: "PUThreadKey \<Rightarrow> thr_sys" where
  "thr_init k = \<lparr>thr_shared = \<lparr>the_key = k, natives = (\<lambda>_. False), fresh = 0, tls_mutex = False\<rparr>, thr_at = (\<lambda>_. None)\<rparr>"

inductive thr_step :: "thr_sys \<Rightarrow> thr_sys \<Rightarrow> bool" where
  call: "thr_at s t = None \<Longrightarrow> thr_step s (s\<lparr>thr_at := (thr_at s)(t \<mapsto> Thr_get)\<rparr>)"
| run: "thr_at s t = Some pc \<Longrightarrow> pp_uthread_get_tls_key_thr mem ok (thr_shared s) pc = Some (st, pc') \<Longrightarrow>
    thr_step s (s\<lparr>thr_shared := st, thr_at := (thr_at s)(t \<mapsto> pc')\<rparr>)"
| return: "thr_at s t = Some (Thr_return r) \<Longrightarrow> thr_step s (s\<lparr>thr_at := (thr_at s)(t := None)\<rparr>)"

inductive thr_reachable :: "PUThreadKey \<Rightarrow> thr_sys \<Rightarrow> bool" for k where
  start: "thr_reachable k (thr_init k)"
| step: "thr_reachable k s \<Longrightarrow> thr_step s s' \<Longrightarrow> thr_reachable k s'"

text \<open>Two threads, with the native key in use, those that exist, the next one and the mutex.\<close>

definition duo :: "PUThreadKey \<Rightarrow> nat option \<Rightarrow> nat \<Rightarrow> bool \<Rightarrow> thr_pc \<Rightarrow> thr_pc \<Rightarrow> thr_sys" where
  "duo k c m l a b =
     \<lparr>thr_shared = \<lparr>the_key = k\<lparr>key := c\<rparr>, natives = (\<lambda>i. i < m), fresh = m, tls_mutex = l\<rparr>,
      thr_at = (\<lambda>t. if t = 0 then Some a else if t = 1 then Some b else None)\<rparr>"

lemma duo_simps [simp]:
  "thr_shared (duo k c m l a b) = \<lparr>the_key = k\<lparr>key := c\<rparr>, natives = (\<lambda>i. i < m), fresh = m, tls_mutex = l\<rparr>"
  "thr_at (duo k c m l a b) 0 = Some a" "thr_at (duo k c m l a b) (Suc 0) = Some b"
  by (simp_all add: duo_def)

lemma duo_steps:
  "pp_uthread_get_tls_key_thr True True (thr_shared (duo k c m l a b)) a = Some (thr_shared (duo k c' m' l' a b), a') \<Longrightarrow>
    thr_reachable k (duo k c m l a b) \<Longrightarrow> thr_reachable k (duo k c' m' l' a' b)"
  "pp_uthread_get_tls_key_thr True True (thr_shared (duo k c m l a b)) b = Some (thr_shared (duo k c' m' l' a b), b') \<Longrightarrow>
    thr_reachable k (duo k c m l a b) \<Longrightarrow> thr_reachable k (duo k c' m' l' a b')"
proof -
  have e: "(duo k c m l a b)\<lparr>thr_shared := thr_shared (duo k c' m' l' a b),
      thr_at := (thr_at (duo k c m l a b))(0 \<mapsto> a')\<rparr> = duo k c' m' l' a' b"
    "(duo k c m l a b)\<lparr>thr_shared := thr_shared (duo k c' m' l' a b),
      thr_at := (thr_at (duo k c m l a b))(Suc 0 \<mapsto> b')\<rparr> = duo k c' m' l' a b'"
    by (auto simp: duo_def fun_eq_iff)
  show "pp_uthread_get_tls_key_thr True True (thr_shared (duo k c m l a b)) a = Some (thr_shared (duo k c' m' l' a b), a') \<Longrightarrow>
    thr_reachable k (duo k c m l a b) \<Longrightarrow> thr_reachable k (duo k c' m' l' a' b)"
    using step[OF _ run[of "duo k c m l a b" 0 a True True]] by (metis duo_simps(2) e(1))
  show "pp_uthread_get_tls_key_thr True True (thr_shared (duo k c m l a b)) b = Some (thr_shared (duo k c' m' l' a b), b') \<Longrightarrow>
    thr_reachable k (duo k c m l a b) \<Longrightarrow> thr_reachable k (duo k c' m' l' a b')"
    using step[OF _ run[of "duo k c m l a b" "Suc 0" b True True]] by (metis duo_simps(3) e(2))
qed

section \<open>Properties\<close>

text \<open>
  C38.  The mutex does not keep threads from making a native key each: two threads that use a new key for the first time at
  the same time return different native keys, both of which stay, and a value that the first of them stores under its
  native key is not found through the key afterwards.
\<close>

theorem solaris_key_race:
  "\<exists>k s. p_uthread_local_new True f = Some k \<and> thr_reachable k s \<and>
    thr_at s 0 = Some (Thr_return (Some 0)) \<and> thr_at s 1 = Some (Thr_return (Some 1)) \<and>
    natives (thr_shared s) 0 \<and> natives (thr_shared s) 1 \<and>
    (let k' = the_key (thr_shared s)
     in key k' = Some 1 \<and>
       p_uthread_get_local_thr (Some k') (key k') True
         (p_uthread_set_local_thr (Some k') (Some 0) True (Some v) (\<lambda>_. None)) = None)"
proof -
  define k :: PUThreadKey where "k = \<lparr>key = None, free_func = f\<rparr>"
  have new: "p_uthread_local_new True f = Some k" by (simp add: p_uthread_local_new_def k_def)
  have "thr_reachable k ((thr_init k)\<lparr>thr_at := [0 \<mapsto> Thr_get]\<rparr>)"
    using step[OF start call[of "thr_init k" 0]] by (simp add: thr_init_def)
  from step[OF this call[of _ 1]]
  have "thr_reachable k ((thr_init k)\<lparr>thr_at := [0 \<mapsto> Thr_get, 1 \<mapsto> Thr_get]\<rparr>)" by simp
  moreover have "(thr_init k)\<lparr>thr_at := [0 \<mapsto> Thr_get, 1 \<mapsto> Thr_get]\<rparr> = duo k None 0 False Thr_get Thr_get"
    by (auto simp: thr_init_def duo_def k_def)
  ultimately have "thr_reachable k (duo k None 0 False Thr_get Thr_get)" by simp
  then have "thr_reachable k (duo k None 0 False Thr_lock Thr_get)" by (rule duo_steps(1)[rotated]) simp
  then have "thr_reachable k (duo k None 0 False Thr_lock Thr_lock)" by (rule duo_steps(2)[rotated]) simp
  then have "thr_reachable k (duo k None 0 True Thr_create Thr_lock)" by (rule duo_steps(1)[rotated]) simp
  then have "thr_reachable k (duo k None 1 True (Thr_store 0) Thr_lock)"
    by (rule duo_steps(1)[rotated]) (simp add: fun_eq_iff)
  then have "thr_reachable k (duo k (Some 0) 1 True (Thr_unlock (Some 0)) Thr_lock)" by (rule duo_steps(1)[rotated]) simp
  then have "thr_reachable k (duo k (Some 0) 1 False (Thr_return (Some 0)) Thr_lock)" by (rule duo_steps(1)[rotated]) simp
  then have "thr_reachable k (duo k (Some 0) 1 True (Thr_return (Some 0)) Thr_create)" by (rule duo_steps(2)[rotated]) simp
  then have "thr_reachable k (duo k (Some 0) 2 True (Thr_return (Some 0)) (Thr_store 1))"
    by (rule duo_steps(2)[rotated]) (simp add: fun_eq_iff less_Suc_eq numeral_2_eq_2)
  then have "thr_reachable k (duo k (Some 1) 2 True (Thr_return (Some 0)) (Thr_unlock (Some 1)))"
    by (rule duo_steps(2)[rotated]) simp
  then have "thr_reachable k (duo k (Some 1) 2 False (Thr_return (Some 0)) (Thr_return (Some 1)))"
    by (rule duo_steps(2)[rotated]) simp
  then show ?thesis using new
    by (intro exI[of _ k] exI[of _ "duo k (Some 1) 2 False (Thr_return (Some 0)) (Thr_return (Some 1))"])
      (simp add: p_uthread_get_local_thr_def p_uthread_set_local_thr_def Let_def)
qed

text \<open>Priorities are in range, except that a thread that is to inherit its priority asks for one below the range.\<close>

lemma solaris_priorities:
  "pr \<noteq> P_UTHREAD_PRIORITY_INHERIT \<Longrightarrow>
    PLIBSYS_THREAD_MIN_PRIO \<le> pp_uthread_get_unix_priority_thr pr \<and> pp_uthread_get_unix_priority_thr pr < PLIBSYS_THREAD_MAX_PRIO"
  "pp_uthread_get_unix_priority_thr P_UTHREAD_PRIORITY_INHERIT = -18"
  by (cases pr; simp add: pp_uthread_get_unix_priority_thr_def PLIBSYS_THREAD_MIN_PRIO_def PLIBSYS_THREAD_MAX_PRIO_def Let_def
      signed_divide_int_def) (simp add: pp_uthread_get_unix_priority_thr_def PLIBSYS_THREAD_MIN_PRIO_def
      PLIBSYS_THREAD_MAX_PRIO_def Let_def signed_divide_int_def)

end
