(* ===== verification/PUThreadWin.thy ===== *)
theory PUThreadWin
  imports PUThread
begin

text \<open>
  Native threads and thread-local keys on Windows (\<open>puthread-win.c\<close>).  The system does not call destroy functions when
  a thread ends; the library keeps a list of them and calls them itself.
\<close>

section \<open>Keys\<close>

text \<open>Indexes of the system are \<open>DWORD\<close>s; the last one stands for none.\<close>

definition TLS_OUT_OF_INDEXES :: "32 word" where "TLS_OUT_OF_INDEXES = 0xFFFFFFFF"

text \<open>\<open>win_free_func\<close> is the address of the destroy function, if the key has one.\<close>

record PUThreadKeyWin =
  key_idx :: "32 word"
  win_free_func :: "nat option"

record PUThreadDestructor =
  destr_idx :: "32 word"
  destr_func :: "nat option"

definition p_uthread_local_new_win :: "bool \<Rightarrow> nat option \<Rightarrow> PUThreadKeyWin option" where
  "p_uthread_local_new_win mem f = (if \<not> mem then None else Some \<lparr>key_idx = TLS_OUT_OF_INDEXES, win_free_func = f\<rparr>)"

text \<open>The key, the mutex, the indexes in use and the list of destroy functions.\<close>

record tls_win =
  win_key :: PUThreadKeyWin
  win_locked :: bool
  in_use :: "32 word set"
  destructors :: "PUThreadDestructor list"

datatype win_pc =
    Win_get
  | Win_lock
  | Win_check
  | Win_unlock "32 word"
  | Win_return "32 word"

text \<open>
  The steps: reading the index, taking the mutex, the section under the mutex, and giving the mutex up.  \<open>idx\<close> is the
  answer of \<open>TlsAlloc\<close>, \<open>mem\<close> says whether memory is found, and \<open>cas\<close> whether the list of destroy functions, which
  other threads read meanwhile, is still the one that was read.
\<close>

fun pp_uthread_get_tls_key_win :: "32 word \<Rightarrow> bool \<Rightarrow> bool \<Rightarrow> tls_win \<Rightarrow> win_pc \<Rightarrow> (tls_win \<times> win_pc) option" where
  "pp_uthread_get_tls_key_win idx mem cas st Win_get =
     Some (st, if key_idx (win_key st) \<noteq> TLS_OUT_OF_INDEXES then Win_return (key_idx (win_key st)) else Win_lock)"
| "pp_uthread_get_tls_key_win idx mem cas st Win_lock =
     (if win_locked st then None else Some (st\<lparr>win_locked := True\<rparr>, Win_check))"
| "pp_uthread_get_tls_key_win idx mem cas st Win_check =
     (if key_idx (win_key st) \<noteq> TLS_OUT_OF_INDEXES then Some (st, Win_unlock (key_idx (win_key st)))
      else if idx = TLS_OUT_OF_INDEXES then Some (st, Win_unlock TLS_OUT_OF_INDEXES)
      else
        (let st1 = st\<lparr>in_use := insert idx (in_use st)\<rparr>;
             st2 = st1\<lparr>win_key := (win_key st1)\<lparr>key_idx := idx\<rparr>\<rparr>
         in case win_free_func (win_key st) of
              None \<Rightarrow> Some (st2, Win_unlock idx)
            | Some f \<Rightarrow>
                if \<not> mem then Some (st1\<lparr>in_use := in_use st1 - {idx}\<rparr>, Win_unlock TLS_OUT_OF_INDEXES)
                else if \<not> cas then Some (st1\<lparr>in_use := in_use st1 - {idx}\<rparr>, Win_unlock TLS_OUT_OF_INDEXES)
                else Some (st2\<lparr>destructors := \<lparr>destr_idx = idx, destr_func = Some f\<rparr> # destructors st2\<rparr>, Win_unlock idx)))"
| "pp_uthread_get_tls_key_win idx mem cas st (Win_unlock r) = Some (st\<lparr>win_locked := False\<rparr>, Win_return r)"
| "pp_uthread_get_tls_key_win idx mem cas st (Win_return r) = None"

section \<open>Values\<close>

type_synonym win_slots = "32 word \<Rightarrow> nat option"

text \<open>\<open>idx\<close> is what \<open>pp_uthread_get_tls_key\<close> returned; \<open>set_ok\<close>: \<open>TlsSetValue\<close> succeeds.\<close>

definition p_uthread_get_local_win :: "PUThreadKeyWin option \<Rightarrow> 32 word \<Rightarrow> win_slots \<Rightarrow> nat option" where
  "p_uthread_get_local_win k idx vals =
     (case k of None \<Rightarrow> None | Some _ \<Rightarrow> if idx = TLS_OUT_OF_INDEXES then None else vals idx)"

definition p_uthread_set_local_win :: "PUThreadKeyWin option \<Rightarrow> 32 word \<Rightarrow> bool \<Rightarrow> nat option \<Rightarrow> win_slots \<Rightarrow> win_slots" where
  "p_uthread_set_local_win k idx set_ok val vals =
     (case k of
        None \<Rightarrow> vals
      | Some _ \<Rightarrow> if idx = TLS_OUT_OF_INDEXES then vals else if \<not> set_ok then vals else vals(idx := val))"

text \<open>With the calls of destroy functions, a function and its argument each.\<close>

definition p_uthread_replace_local_win ::
  "PUThreadKeyWin option \<Rightarrow> 32 word \<Rightarrow> bool \<Rightarrow> nat option \<Rightarrow> win_slots \<Rightarrow> (nat \<times> nat) list \<times> win_slots" where
  "p_uthread_replace_local_win k idx set_ok val vals =
     (case k of
        None \<Rightarrow> ([], vals)
      | Some pk \<Rightarrow>
          if idx = TLS_OUT_OF_INDEXES then ([], vals)
          else
            (let calls = (case (vals idx, win_free_func pk) of (Some old_value, Some f) \<Rightarrow> [(f, old_value)] | _ \<Rightarrow> [])
             in (calls, if \<not> set_ok then vals else vals(idx := val))))"

section \<open>The end of a thread\<close>

text \<open>
  One round over the list: a value that has a destroy function is taken out of its slot and the function is called.
  \<open>effect f v\<close> is what the function, a part of the program, does to the values of the thread.
\<close>

fun detach_round ::
  "(nat \<Rightarrow> nat \<Rightarrow> win_slots \<Rightarrow> win_slots) \<Rightarrow> PUThreadDestructor list \<Rightarrow> win_slots \<Rightarrow> (nat \<times> nat) list \<times> win_slots" where
  "detach_round effect [] vals = ([], vals)"
| "detach_round effect (destr # rest) vals =
     (case (vals (destr_idx destr), destr_func destr) of
        (Some value, Some f) \<Rightarrow>
          (case detach_round effect rest (effect f value (vals(destr_idx destr := None))) of
             (calls, vals') \<Rightarrow> ((f, value) # calls, vals'))
      | _ \<Rightarrow> detach_round effect rest vals)"

text \<open>
  The rounds go on as long as one has called a function; \<open>None\<close> if they do not end.  The list does not change meanwhile.
\<close>

partial_function (option) p_uthread_win32_thread_detach ::
  "(nat \<Rightarrow> nat \<Rightarrow> win_slots \<Rightarrow> win_slots) \<Rightarrow> PUThreadDestructor list \<Rightarrow> win_slots \<Rightarrow> ((nat \<times> nat) list \<times> win_slots) option" where
  "p_uthread_win32_thread_detach effect destrs vals =
     (let (calls, vals') = detach_round effect destrs vals
      in if calls = [] then Some ([], vals')
         else Option.bind (p_uthread_win32_thread_detach effect destrs vals') (\<lambda>(more, vals''). Some (calls @ more, vals'')))"

section \<open>Threads\<close>

text \<open>
  What \<open>p_uthread_create_internal\<close> returns: no object, a complete one, or the address of an object that it has freed,
  because the branch for a thread that cannot be resumed does not leave the function.
\<close>

datatype created = No_object | Object PUThreadBase | Freed_object

text \<open>The switch over the priorities; \<open>current\<close> is the priority of the calling thread.\<close>

fun native_priority :: "int \<Rightarrow> PUThreadPriority \<Rightarrow> int" where
  "native_priority current P_UTHREAD_PRIORITY_IDLE = -15"
| "native_priority current P_UTHREAD_PRIORITY_LOWEST = -2"
| "native_priority current P_UTHREAD_PRIORITY_LOW = -1"
| "native_priority current P_UTHREAD_PRIORITY_NORMAL = 0"
| "native_priority current P_UTHREAD_PRIORITY_HIGH = 1"
| "native_priority current P_UTHREAD_PRIORITY_HIGHEST = 2"
| "native_priority current P_UTHREAD_PRIORITY_TIMECRITICAL = 15"
| "native_priority current P_UTHREAD_PRIORITY_INHERIT = current"

definition p_uthread_set_priority_win ::
  "int \<Rightarrow> (int \<Rightarrow> bool) \<Rightarrow> PUThreadBase option \<Rightarrow> PUThreadPriority \<Rightarrow> PUThreadBase option \<times> bool" where
  "p_uthread_set_priority_win current set_ok thread pr =
     (case thread of
        None \<Rightarrow> (None, False)
      | Some b \<Rightarrow>
          if \<not> set_ok (native_priority current pr) then (Some b, False)
          else (Some (b\<lparr>prio := pr\<rparr>), True))"

definition p_uthread_create_internal_win ::
  "int \<Rightarrow> (int \<Rightarrow> bool) \<Rightarrow> bool \<Rightarrow> bool \<Rightarrow> bool \<Rightarrow> bool \<Rightarrow> PUThreadPriority \<Rightarrow> created" where
  "p_uthread_create_internal_win current set_ok mem begin_ok resume_ok joinable_arg pr =
     (if \<not> mem then No_object
      else if \<not> begin_ok then No_object
      else
        (let b = zero_thread\<lparr>joinable := joinable_arg\<rparr>
         in case p_uthread_set_priority_win current set_ok (Some b) pr of
              (None, _) \<Rightarrow> No_object
            | (Some b', _) \<Rightarrow> if \<not> resume_ok then Freed_object else Object b'))"

end
