(* ===== verification/PUThreadWinProps.thy ===== *)
theory PUThreadWinProps
  imports PUThreadWin
begin

text \<open>Properties of thread-local keys on Windows: the end of a thread, and one native key for each key.\<close>

section \<open>The end of a thread\<close>

text \<open>The calls for the values that are set and have a destroy function.\<close>

definition due :: "PUThreadDestructor list \<Rightarrow> win_slots \<Rightarrow> (nat \<times> nat) list" where
  "due destrs vals =
     concat (map (\<lambda>d. case (vals (destr_idx d), destr_func d) of (Some v, Some f) \<Rightarrow> [(f, v)] | _ \<Rightarrow> []) destrs)"

definition cleared :: "PUThreadDestructor list \<Rightarrow> win_slots \<Rightarrow> win_slots" where
  "cleared destrs vals = (\<lambda>i. if \<exists>d \<in> set destrs. destr_idx d = i \<and> destr_func d \<noteq> None then None else vals i)"

lemma due_update: "i \<notin> destr_idx ` set destrs \<Longrightarrow> due destrs (vals(i := x)) = due destrs vals"
  by (induction destrs) (auto simp: due_def)

lemma detach_round_due:
  "(\<And>f v w. effect f v w = w) \<Longrightarrow> distinct (map destr_idx destrs) \<Longrightarrow>
    detach_round effect destrs vals = (due destrs vals, cleared destrs vals)"
proof (induction destrs arbitrary: vals)
  case Nil
  then show ?case by (simp add: due_def cleared_def)
next
  case (Cons d destrs)
  have d: "destr_idx d \<notin> destr_idx ` set destrs" using Cons.prems(2) by simp
  show ?case
  proof (cases "vals (destr_idx d) = None \<or> destr_func d = None")
    case True
    then have "detach_round effect (d # destrs) vals = detach_round effect destrs vals"
      "due (d # destrs) vals = due destrs vals"
      by (auto simp: due_def split: option.splits)
    moreover have "cleared (d # destrs) vals = cleared destrs vals"
      using True by (auto simp: cleared_def fun_eq_iff)
    moreover have "detach_round effect destrs vals = (due destrs vals, cleared destrs vals)"
      by (rule Cons.IH) (use Cons.prems in auto)
    ultimately show ?thesis by simp
  next
    case False
    then obtain v f where vf: "vals (destr_idx d) = Some v" "destr_func d = Some f" by auto
    have "cleared destrs (vals(destr_idx d := None)) = cleared (d # destrs) vals"
      using vf by (auto simp: cleared_def fun_eq_iff)
    moreover have "due (d # destrs) vals = (f, v) # due destrs (vals(destr_idx d := None))"
      using vf due_update[OF d, of vals None] by (simp add: due_def)
    moreover have "detach_round effect destrs (vals(destr_idx d := None)) =
        (due destrs (vals(destr_idx d := None)), cleared destrs (vals(destr_idx d := None)))"
      by (rule Cons.IH) (use Cons.prems in auto)
    moreover have "effect = (\<lambda>f v w. w)" by (intro ext, rule fun_cong, rule Cons.prems(1))
    ultimately show ?thesis using vf by simp
  qed
qed

lemma due_cleared: "due destrs (cleared destrs vals) = []"
  by (auto simp: due_def cleared_def split: option.splits)

text \<open>A destroy function that stores a value under the index \<open>i\<close>, where it was called for a value, is called in every round.\<close>

definition stores_again :: "nat \<Rightarrow> 32 word \<Rightarrow> (nat \<Rightarrow> nat \<Rightarrow> win_slots \<Rightarrow> win_slots) \<Rightarrow> bool" where
  "stores_again f i effect \<longleftrightarrow> (\<forall>g v w. effect g v w = (if g = f then w(i \<mapsto> v) else w))"

lemma round_stores:
  assumes e: "stores_again f i effect" and only: "\<forall>d \<in> set ds. destr_idx d = i \<longrightarrow> destr_func d = Some f"
  shows "w i \<noteq> None \<Longrightarrow> snd (detach_round effect ds w) i \<noteq> None"
  using only
proof (induction ds arbitrary: w)
  case (Cons d ds)
  show ?case
  proof (cases "w (destr_idx d) = None \<or> destr_func d = None")
    case True
    then have "detach_round effect (d # ds) w = detach_round effect ds w" by (auto split: option.splits)
    then show ?thesis using Cons by auto
  next
    case False
    then obtain v g where vg: "w (destr_idx d) = Some v" "destr_func d = Some g" by auto
    let ?w = "effect g v (w(destr_idx d := None))"
    have "?w i \<noteq> None" using e Cons.prems vg by (auto simp: stores_again_def)
    then have "snd (detach_round effect ds ?w) i \<noteq> None" using Cons by auto
    then show ?thesis using vg by (cases "detach_round effect ds ?w") simp
  qed
qed simp

lemma round_calls:
  "d \<in> set ds \<Longrightarrow> destr_func d \<noteq> None \<Longrightarrow> w (destr_idx d) \<noteq> None \<Longrightarrow> fst (detach_round effect ds w) \<noteq> []"
proof (induction ds)
  case (Cons d' ds)
  show ?case
  proof (cases "w (destr_idx d') = None \<or> destr_func d' = None")
    case True
    then have "detach_round effect (d' # ds) w = detach_round effect ds w" by (auto split: option.splits)
    then show ?thesis using Cons True by auto
  qed (auto split: prod.splits)
qed simp

lemma detach_diverges:
  assumes e: "stores_again f i effect" and d: "d \<in> set ds" "destr_idx d = i" "destr_func d = Some f"
    and dist: "distinct (map destr_idx ds)"
  shows "w i \<noteq> None \<Longrightarrow> p_uthread_win32_thread_detach effect ds w \<noteq> Some r"
proof
  have only: "\<forall>d' \<in> set ds. destr_idx d' = i \<longrightarrow> destr_func d' = Some f"
    using d dist by (metis distinct_map inj_onD)
  let ?P = "\<lambda>effect ds w r. stores_again f i effect \<longrightarrow> d \<in> set ds \<longrightarrow>
      (\<forall>d' \<in> set ds. destr_idx d' = i \<longrightarrow> destr_func d' = Some f) \<longrightarrow> w i = None"
  assume w: "w i \<noteq> None" and ret: "p_uthread_win32_thread_detach effect ds w = Some r"
  have "?P effect ds w r"
  proof (rule p_uthread_win32_thread_detach.raw_induct[where P = ?P, OF _ ret], goal_cases)
    case (1 detach effect ds w r)
    show ?case
    proof (intro impI, rule ccontr)
      assume h: "stores_again f i effect" "d \<in> set ds" "\<forall>d' \<in> set ds. destr_idx d' = i \<longrightarrow> destr_func d' = Some f" "w i \<noteq> None"
      obtain calls w' where round: "detach_round effect ds w = (calls, w')" by fastforce
      have "calls \<noteq> []" "w' i \<noteq> None"
        using round_calls[of d ds w effect] round_stores[OF h(1,3), of w] h d round by auto
      moreover from this(1) obtain q where "detach effect ds w' = Some q"
        using 1(2) round by (auto simp: Let_def bind_eq_Some_conv)
      ultimately show False using 1(1)[of effect ds w' q] h by simp
    qed
  qed
  then show False using w e d only by blast
qed

text \<open>
  C40.  The rounds at the end of a thread end if destroy functions store no values: every value that has a destroy function
  is destroyed exactly once, in the order of the list, its slot is cleared, and nothing else is changed.  But a
  destroy function that stores a value under its own key keeps the thread from ending for ever.
\<close>

theorem win_detach_ends:
  assumes "distinct (map destr_idx destrs)"
  shows "((\<forall>f v w. effect f v w = w) \<longrightarrow>
      p_uthread_win32_thread_detach effect destrs vals = Some (due destrs vals, cleared destrs vals)) \<and>
    (d \<in> set destrs \<longrightarrow> destr_func d = Some f \<longrightarrow> vals (destr_idx d) \<noteq> None \<longrightarrow> stores_again f (destr_idx d) effect \<longrightarrow>
      p_uthread_win32_thread_detach effect destrs vals = None)"
proof (intro conjI impI)
  assume "\<forall>f v w. effect f v w = w"
  then have r: "detach_round effect destrs w = (due destrs w, cleared destrs w)" for w
    using detach_round_due[of effect destrs w] assms by simp
  have "cleared destrs (cleared destrs vals) = cleared destrs vals" by (auto simp: cleared_def fun_eq_iff)
  then have "p_uthread_win32_thread_detach effect destrs (cleared destrs vals) = Some ([], cleared destrs vals)"
    by (subst p_uthread_win32_thread_detach.simps) (simp add: r due_cleared)
  then show "p_uthread_win32_thread_detach effect destrs vals = Some (due destrs vals, cleared destrs vals)"
    by (subst p_uthread_win32_thread_detach.simps) (auto simp: r due_cleared cleared_def fun_eq_iff)
next
  assume "d \<in> set destrs" "destr_func d = Some f" "vals (destr_idx d) \<noteq> None" "stores_again f (destr_idx d) effect"
  then show "p_uthread_win32_thread_detach effect destrs vals = None"
    using detach_diverges[of f "destr_idx d" effect d destrs vals] assms by (cases "p_uthread_win32_thread_detach effect destrs vals") auto
qed

lemma win_detach_ends_witness:
  "p_uthread_win32_thread_detach (\<lambda>f v w. w) [\<lparr>destr_idx = 1, destr_func = Some 7\<rparr>] [1 \<mapsto> 5, 2 \<mapsto> 6] =
     Some ([(7, 5)], [2 \<mapsto> 6]) \<and>
   p_uthread_win32_thread_detach (\<lambda>f v w. if f = 7 then w(1 \<mapsto> v) else w) [\<lparr>destr_idx = 1, destr_func = Some 7\<rparr>] [1 \<mapsto> 5] = None"
proof -
  let ?ds = "[\<lparr>destr_idx = 1, destr_func = Some 7\<rparr>] :: PUThreadDestructor list"
  have "distinct (map destr_idx ?ds)" by simp
  note ends = win_detach_ends[OF this]
  have "due ?ds [1 \<mapsto> 5, 2 \<mapsto> 6] = [(7, 5)]" "cleared ?ds [1 \<mapsto> 5, 2 \<mapsto> 6] = [2 \<mapsto> 6]"
    by (auto simp: due_def cleared_def fun_eq_iff)
  moreover have "stores_again 7 1 (\<lambda>f v w. if f = 7 then w(1 \<mapsto> v) else w)" by (simp add: stores_again_def)
  ultimately show ?thesis
    using ends[of "\<lambda>f v w. w" "[1 \<mapsto> 5, 2 \<mapsto> 6]"]
      ends[of "\<lambda>f v w. if f = 7 then w(1 \<mapsto> v) else w" "[1 \<mapsto> 5]" "\<lparr>destr_idx = 1, destr_func = Some 7\<rparr>" 7]
    by simp
qed

section \<open>Threads using a key\<close>

record win_sys =
  win_shared :: tls_win
  win_at :: "nat \<Rightarrow> win_pc option"

definition win_init :: "PUThreadKeyWin \<Rightarrow> win_sys" where
  "win_init k = \<lparr>win_shared = \<lparr>win_key = k, win_locked = False, in_use = {}, destructors = []\<rparr>, win_at = (\<lambda>_. None)\<rparr>"

text \<open>
  The system gives out indexes that are not in use.  The list of destroy functions is changed only under the mutex, so
  that the exchange finds it as it was read.
\<close>

inductive win_step :: "win_sys \<Rightarrow> win_sys \<Rightarrow> bool" where
  call: "win_at s t = None \<Longrightarrow> win_step s (s\<lparr>win_at := (win_at s)(t \<mapsto> Win_get)\<rparr>)"
| run: "win_at s t = Some pc \<Longrightarrow> idx \<notin> in_use (win_shared s) \<Longrightarrow>
    pp_uthread_get_tls_key_win idx mem True (win_shared s) pc = Some (st, pc') \<Longrightarrow>
    win_step s (s\<lparr>win_shared := st, win_at := (win_at s)(t \<mapsto> pc')\<rparr>)"
| return: "win_at s t = Some (Win_return r) \<Longrightarrow> win_step s (s\<lparr>win_at := (win_at s)(t := None)\<rparr>)"

inductive win_reachable :: "PUThreadKeyWin \<Rightarrow> win_sys \<Rightarrow> bool" for k where
  start: "win_reachable k (win_init k)"
| step: "win_reachable k s \<Longrightarrow> win_step s s' \<Longrightarrow> win_reachable k s'"

text \<open>The index a call has found.\<close>

fun found :: "win_pc option \<Rightarrow> 32 word option" where
  "found (Some (Win_unlock r)) = Some r"
| "found (Some (Win_return r)) = Some r"
| "found _ = None"

definition registered :: "PUThreadKeyWin \<Rightarrow> PUThreadDestructor list" where
  "registered k =
     (if key_idx k = TLS_OUT_OF_INDEXES \<or> win_free_func k = None then []
      else [\<lparr>destr_idx = key_idx k, destr_func = win_free_func k\<rparr>])"

definition win_inv :: "nat option \<Rightarrow> win_sys \<Rightarrow> bool" where
  "win_inv f s \<longleftrightarrow>
     (let st = win_shared s; i = key_idx (win_key st)
      in win_free_func (win_key st) = f \<and> in_use st = (if i = TLS_OUT_OF_INDEXES then {} else {i}) \<and>
        destructors st = registered (win_key st) \<and>
        (\<forall>t r. found (win_at s t) = Some r \<longrightarrow> r \<noteq> TLS_OUT_OF_INDEXES \<longrightarrow> i = r))"

lemma win_step_inv: "win_step s s' \<Longrightarrow> win_inv f s \<Longrightarrow> win_inv f s'"
proof (induction rule: win_step.induct)
  case (run s t pc idx mem st pc')
  show ?case
  proof (cases pc)
    case Win_get
    then show ?thesis using run by (auto simp: win_inv_def Let_def split: if_splits)
  next
    case Win_lock
    then show ?thesis using run by (auto simp: win_inv_def Let_def split: if_splits)
  next
    case Win_check
    then show ?thesis using run
      by (auto simp: win_inv_def Let_def registered_def split: if_splits option.splits)
  next
    case (Win_unlock r)
    then have "r = TLS_OUT_OF_INDEXES \<or> key_idx (win_key (win_shared s)) = r"
      using run(1,4) unfolding win_inv_def Let_def by (metis found.simps(1))
    then show ?thesis using run Win_unlock by (auto simp: win_inv_def Let_def registered_def split: if_splits)
  next
    case (Win_return r)
    then show ?thesis using run by simp
  qed
qed (auto simp: win_inv_def Let_def split: if_splits)

lemma win_init_inv: "key_idx k = TLS_OUT_OF_INDEXES \<Longrightarrow> win_inv (win_free_func k) (win_init k)"
  by (simp add: win_inv_def win_init_def registered_def)

lemma win_reachable_inv:
  "win_reachable k s \<Longrightarrow> key_idx k = TLS_OUT_OF_INDEXES \<Longrightarrow> win_inv (win_free_func k) s"
  by (induction rule: win_reachable.induct) (auto intro: win_step_inv win_init_inv)

text \<open>
  C39.  Under the mutex the index is read again, so that all threads agree: in every reachable state of a new key every call
  that returns an index returns that of the key, which is the only one in use, and the list of destroy functions has the
  one of the key exactly once.
\<close>

theorem win_key_unique:
  assumes "p_uthread_local_new_win True f = Some k" "win_reachable k s"
  shows "let st = win_shared s; i = key_idx (win_key st)
    in (win_at s t = Some (Win_return r) \<longrightarrow> r \<noteq> TLS_OUT_OF_INDEXES \<longrightarrow> r = i \<and> in_use st = {i} \<and>
        destructors st = (case f of None \<Rightarrow> [] | Some g \<Rightarrow> [\<lparr>destr_idx = i, destr_func = Some g\<rparr>])) \<and>
      (i = TLS_OUT_OF_INDEXES \<longrightarrow> in_use st = {} \<and> destructors st = [])"
proof -
  have k: "key_idx k = TLS_OUT_OF_INDEXES" "win_free_func k = f" using assms(1) by (auto simp: p_uthread_local_new_win_def)
  have inv: "win_inv f s" using win_reachable_inv[OF assms(2) k(1)] k(2) by simp
  moreover have "r = key_idx (win_key (win_shared s))" if "win_at s t = Some (Win_return r)" "r \<noteq> TLS_OUT_OF_INDEXES"
    using inv that unfolding win_inv_def Let_def by (metis found.simps(2))
  ultimately show ?thesis by (auto simp: win_inv_def registered_def Let_def split: option.splits)
qed

lemma win_key_unique_witness:
  "\<exists>k s. win_reachable k s \<and> win_at s 0 = Some (Win_return 3) \<and> in_use (win_shared s) = {3} \<and>
    destructors (win_shared s) = [\<lparr>destr_idx = 3, destr_func = Some 9\<rparr>]"
proof -
  let ?k = "\<lparr>key_idx = TLS_OUT_OF_INDEXES, win_free_func = Some 9\<rparr>"
  have new: "p_uthread_local_new_win True (Some 9) = Some ?k" by (simp add: p_uthread_local_new_win_def)
  define st where "st l c = \<lparr>win_key = ?k\<lparr>key_idx := if c then 3 else TLS_OUT_OF_INDEXES\<rparr>, win_locked = l,
      in_use = (if c then {3} else {}), destructors = (if c then [\<lparr>destr_idx = 3, destr_func = Some 9\<rparr>] else [])\<rparr>" for l c
  have three: "(3 :: 32 word) \<noteq> TLS_OUT_OF_INDEXES" by (simp add: TLS_OUT_OF_INDEXES_def)
  have go: "win_reachable ?k \<lparr>win_shared = st l' c', win_at = [0 \<mapsto> pc']\<rparr>"
    if "win_reachable ?k \<lparr>win_shared = st l c, win_at = [0 \<mapsto> pc]\<rparr>" "\<not> c \<or> idx \<noteq> 3"
      "pp_uthread_get_tls_key_win idx True True (st l c) pc = Some (st l' c', pc')" for l c pc l' c' pc' idx
    using step[OF that(1) run[of "\<lparr>win_shared = st l c, win_at = [0 \<mapsto> pc]\<rparr>" 0 pc idx True "st l' c'" pc']] that(2,3)
    by (auto simp: st_def)
  have "win_reachable ?k \<lparr>win_shared = st False False, win_at = [0 \<mapsto> Win_get]\<rparr>"
    using step[OF start call[of "win_init ?k" 0]] by (simp add: win_init_def st_def)
  then have "win_reachable ?k \<lparr>win_shared = st False False, win_at = [0 \<mapsto> Win_lock]\<rparr>"
    by (rule go[of _ _ _ 0]) (simp_all add: st_def)
  then have "win_reachable ?k \<lparr>win_shared = st True False, win_at = [0 \<mapsto> Win_check]\<rparr>"
    by (rule go[of _ _ _ 0]) (simp_all add: st_def)
  then have "win_reachable ?k \<lparr>win_shared = st True True, win_at = [0 \<mapsto> Win_unlock 3]\<rparr>"
    by (rule go[of _ _ _ 3]) (simp_all add: st_def three Let_def)
  then have reach: "win_reachable ?k \<lparr>win_shared = st False True, win_at = [0 \<mapsto> Win_return 3]\<rparr>"
    by (rule go[of _ _ _ 0]) (simp_all add: st_def)
  then show ?thesis
    using win_key_unique[OF new reach, of 0 3] three by (auto simp: Let_def intro!: exI[of _ ?k])
qed

section \<open>Threads that cannot be resumed\<close>

text \<open>A thread that is made but cannot be resumed leaves the caller with the address of an object that was freed.\<close>

lemma win_create_dangling:
  "p_uthread_create_internal_win current set_ok True True False joinable_arg pr = Freed_object"
  by (simp add: p_uthread_create_internal_win_def p_uthread_set_priority_win_def Let_def)

end
