(* ===== verification/PCondVariableXp.thy ===== *)
theory PCondVariableXp
  imports PAtomic
begin

text \<open>
  Condition variables on Windows (\<open>pcondvariable-win.c\<close>): the emulation for Windows XP, which counts the waiting
  threads and lets them sleep on a semaphore of the system, and the front end, which uses it where the system has no
  condition variables of its own.
\<close>

section \<open>The object\<close>

text \<open>\<open>waiters_sema\<close> is the value of the semaphore.\<close>

record PCondVariableXP =
  waiters_sema :: nat
  waiters_count :: pint

definition pp_cond_variable_init_xp :: "bool \<Rightarrow> bool \<Rightarrow> PCondVariableXP option" where
  "pp_cond_variable_init_xp mem sema =
     (if \<not> mem then None
      else if \<not> sema then None
      else Some \<lparr>waiters_sema = 0, waiters_count = 0\<rparr>)"

definition MAXLONG :: nat where "MAXLONG = 2147483647"

text \<open>The system call: it fails if the value would exceed the limit given when the semaphore was made.\<close>

definition ReleaseSemaphore :: "nat \<Rightarrow> PCondVariableXP \<Rightarrow> PCondVariableXP \<times> bool" where
  "ReleaseSemaphore n cv =
     (if waiters_sema cv + n > MAXLONG then (cv, False) else (cv\<lparr>waiters_sema := waiters_sema cv + n\<rparr>, True))"

section \<open>Waiting\<close>

datatype wait_code = WAIT_OBJECT_0 | WAIT_FAILED | WAIT_OTHER

text \<open>Where a thread is in the call, and the condition variable with the state of the mutex.\<close>

datatype wait_pc =
    Wait_count
  | Wait_unlock
  | Wait_sema
  | Wait_lock wait_code
  | Wait_leave wait_code
  | Wait_done bool

record cond_mutex =
  cv :: PCondVariableXP
  locked :: bool

text \<open>
  The steps between accesses to shared memory; \<open>None\<close> while the thread sleeps, on the semaphore or for the mutex.
  \<open>wait\<close> is the answer of the system call, which takes one from the semaphore if it is \<open>WAIT_OBJECT_0\<close>.
\<close>

fun pp_cond_variable_wait_xp :: "wait_code \<Rightarrow> cond_mutex \<Rightarrow> wait_pc \<Rightarrow> (cond_mutex \<times> wait_pc) option" where
  "pp_cond_variable_wait_xp wait s Wait_count =
     Some (s\<lparr>cv := (cv s)\<lparr>waiters_count := waiters_count (cv s) + 1\<rparr>\<rparr>, Wait_unlock)"
| "pp_cond_variable_wait_xp wait s Wait_unlock = Some (s\<lparr>locked := False\<rparr>, Wait_sema)"
| "pp_cond_variable_wait_xp wait s Wait_sema =
     (if wait \<noteq> WAIT_OBJECT_0 then Some (s, Wait_lock wait)
      else if waiters_sema (cv s) = 0 then None
      else Some (s\<lparr>cv := (cv s)\<lparr>waiters_sema := waiters_sema (cv s) - 1\<rparr>\<rparr>, Wait_lock WAIT_OBJECT_0))"
| "pp_cond_variable_wait_xp wait s (Wait_lock code) =
     (if locked s then None else Some (s\<lparr>locked := True\<rparr>, Wait_leave code))"
| "pp_cond_variable_wait_xp wait s (Wait_leave code) =
     (let s1 = (if code \<noteq> WAIT_OBJECT_0 then s\<lparr>cv := (cv s)\<lparr>waiters_count := waiters_count (cv s) - 1\<rparr>\<rparr> else s)
      in if code = WAIT_FAILED then Some (s1, Wait_done False) else Some (s1, Wait_done (code = WAIT_OBJECT_0)))"
| "pp_cond_variable_wait_xp wait s (Wait_done r) = None"

section \<open>Waking\<close>

definition pp_cond_variable_signal_xp :: "PCondVariableXP \<Rightarrow> PCondVariableXP \<times> bool" where
  "pp_cond_variable_signal_xp c =
     (if 0 <s waiters_count c then ReleaseSemaphore 1 (c\<lparr>waiters_count := waiters_count c - 1\<rparr>) else (c, True))"

definition pp_cond_variable_broadcast_xp :: "PCondVariableXP \<Rightarrow> PCondVariableXP \<times> bool" where
  "pp_cond_variable_broadcast_xp c =
     (let waiters = waiters_count c
      in if 0 <s waiters then ReleaseSemaphore (unat waiters) (c\<lparr>waiters_count := 0\<rparr>) else (c, True))"

section \<open>The front end\<close>

text \<open>
  The table of functions: \<open>None\<close> when the module of the system cannot be found, otherwise the functions of the system
  if it has them, or the emulation.
\<close>

datatype cond_impl = Vista | XP

definition p_cond_variable_init :: "bool \<Rightarrow> bool \<Rightarrow> cond_impl option \<Rightarrow> cond_impl option" where
  "p_cond_variable_init hmodule initialize_cv table =
     (if \<not> hmodule then table else if initialize_cv then Some Vista else Some XP)"

text \<open>A condition variable of the system, which this library only passes on, or the emulation.\<close>

datatype PCondVariable = Native | Emulated PCondVariableXP

definition p_cond_variable_new :: "cond_impl \<Rightarrow> bool \<Rightarrow> bool \<Rightarrow> bool \<Rightarrow> PCondVariable option" where
  "p_cond_variable_new impl mem mem_cv sema =
     (if \<not> mem then None
      else (case impl of
          Vista \<Rightarrow> Some Native
        | XP \<Rightarrow> map_option Emulated (pp_cond_variable_init_xp mem_cv sema)))"

text \<open>The system's own functions to wake threads have no result; the call reports success.\<close>

definition p_cond_variable_signal :: "PCondVariable option \<Rightarrow> PCondVariable option \<times> bool" where
  "p_cond_variable_signal cond =
     (case cond of
        None \<Rightarrow> (None, False)
      | Some Native \<Rightarrow> (Some Native, True)
      | Some (Emulated c) \<Rightarrow> (case pp_cond_variable_signal_xp c of (c', r) \<Rightarrow> (Some (Emulated c'), r)))"

definition p_cond_variable_broadcast :: "PCondVariable option \<Rightarrow> PCondVariable option \<times> bool" where
  "p_cond_variable_broadcast cond =
     (case cond of
        None \<Rightarrow> (None, False)
      | Some Native \<Rightarrow> (Some Native, True)
      | Some (Emulated c) \<Rightarrow> (case pp_cond_variable_broadcast_xp c of (c', r) \<Rightarrow> (Some (Emulated c'), r)))"

text \<open>
  Where the call starts: it returns at once, with the answer \<open>native\<close> of the system's own function or without having
  waited, or it runs the emulation.
\<close>

definition p_cond_variable_wait :: "bool \<Rightarrow> PCondVariable option \<Rightarrow> bool \<Rightarrow> wait_pc" where
  "p_cond_variable_wait native cond mutex_given =
     (if cond = None \<or> \<not> mutex_given then Wait_done False
      else (case the cond of Native \<Rightarrow> Wait_done native | Emulated _ \<Rightarrow> Wait_count))"

end
