(* ===== verification/PCondVariableXpProps.thy ===== *)
theory PCondVariableXpProps
  imports PCondVariableXp PThreads
begin

text \<open>
  Properties of the emulated condition variable: for any number of threads and any order of their steps the counter
  and the semaphore together count the threads that sleep, so that no wake-up is kept for a thread that does not
  wait; but a thread that comes later can take the wake-up of one that was waiting.
\<close>

section \<open>Threads that use the variable\<close>

text \<open>A thread is outside, holds the mutex, or is in the waiting call.\<close>

datatype cond_pc = Outside | Inside | Waiting wait_pc

record cond_sys =
  sh :: cond_mutex
  pcs :: "nat \<Rightarrow> cond_pc"

definition cond_init :: cond_sys where
  "cond_init = \<lparr>sh = \<lparr>cv = \<lparr>waiters_sema = 0, waiters_count = 0\<rparr>, locked = False\<rparr>, pcs = (\<lambda>_. Outside)\<rparr>"

text \<open>The threads signal while they hold the mutex; waiting for a semaphore that exists does not fail.\<close>

inductive cond_step :: "nat \<Rightarrow> cond_sys \<Rightarrow> cond_sys \<Rightarrow> bool" for n where
  lock: "t < n \<Longrightarrow> pcs s t = Outside \<Longrightarrow> \<not> locked (sh s) \<Longrightarrow>
    cond_step n s (s\<lparr>sh := (sh s)\<lparr>locked := True\<rparr>, pcs := (pcs s)(t := Inside)\<rparr>)"
| unlock: "t < n \<Longrightarrow> pcs s t = Inside \<Longrightarrow>
    cond_step n s (s\<lparr>sh := (sh s)\<lparr>locked := False\<rparr>, pcs := (pcs s)(t := Outside)\<rparr>)"
| call: "t < n \<Longrightarrow> pcs s t = Inside \<Longrightarrow>
    cond_step n s (s\<lparr>pcs := (pcs s)(t := Waiting (p_cond_variable_wait True (Some (Emulated (cv (sh s)))) True))\<rparr>)"
| wait: "t < n \<Longrightarrow> pcs s t = Waiting pc \<Longrightarrow> pp_cond_variable_wait_xp WAIT_OBJECT_0 (sh s) pc = Some (m, pc') \<Longrightarrow>
    cond_step n s (s\<lparr>sh := m, pcs := (pcs s)(t := Waiting pc')\<rparr>)"
| return: "t < n \<Longrightarrow> pcs s t = Waiting (Wait_done r) \<Longrightarrow> cond_step n s (s\<lparr>pcs := (pcs s)(t := Inside)\<rparr>)"
| signal: "t < n \<Longrightarrow> pcs s t = Inside \<Longrightarrow> p_cond_variable_signal (Some (Emulated (cv (sh s)))) = (Some (Emulated c), r) \<Longrightarrow>
    cond_step n s (s\<lparr>sh := (sh s)\<lparr>cv := c\<rparr>\<rparr>)"
| broadcast: "t < n \<Longrightarrow> pcs s t = Inside \<Longrightarrow>
    p_cond_variable_broadcast (Some (Emulated (cv (sh s)))) = (Some (Emulated c), r) \<Longrightarrow>
    cond_step n s (s\<lparr>sh := (sh s)\<lparr>cv := c\<rparr>\<rparr>)"

inductive cond_reachable :: "nat \<Rightarrow> cond_sys \<Rightarrow> bool" for n where
  start: "cond_reachable n cond_init"
| step: "cond_reachable n s \<Longrightarrow> cond_step n s s' \<Longrightarrow> cond_reachable n s'"

section \<open>The invariant\<close>

text \<open>Who is counted as asleep, who owns the mutex, and what the call can have come to.\<close>

fun asleep :: "cond_pc \<Rightarrow> bool" where
  "asleep (Waiting Wait_unlock) \<longleftrightarrow> True"
| "asleep (Waiting Wait_sema) \<longleftrightarrow> True"
| "asleep _ \<longleftrightarrow> False"

fun owns :: "cond_pc \<Rightarrow> bool" where
  "owns Inside \<longleftrightarrow> True"
| "owns (Waiting Wait_count) \<longleftrightarrow> True"
| "owns (Waiting Wait_unlock) \<longleftrightarrow> True"
| "owns (Waiting (Wait_leave c)) \<longleftrightarrow> True"
| "owns (Waiting (Wait_done r)) \<longleftrightarrow> True"
| "owns _ \<longleftrightarrow> False"

fun waited_ok :: "cond_pc \<Rightarrow> bool" where
  "waited_ok (Waiting (Wait_lock c)) \<longleftrightarrow> c = WAIT_OBJECT_0"
| "waited_ok (Waiting (Wait_leave c)) \<longleftrightarrow> c = WAIT_OBJECT_0"
| "waited_ok (Waiting (Wait_done r)) \<longleftrightarrow> r"
| "waited_ok _ \<longleftrightarrow> True"

definition cond_inv :: "nat \<Rightarrow> cond_sys \<Rightarrow> bool" where
  "cond_inv n s \<longleftrightarrow>
     unat (waiters_count (cv (sh s))) + waiters_sema (cv (sh s)) = cnt n asleep (pcs s) \<and>
     cnt n owns (pcs s) = of_bool (locked (sh s)) \<and>
     (\<forall>t. waited_ok (pcs s t)) \<and> (\<forall>t. n \<le> t \<longrightarrow> pcs s t = Outside)"

lemma cond_init_inv: "cond_inv n cond_init"
  by (simp add: cond_inv_def cond_init_def cnt_zero)

lemma count_positive:
  assumes "unat (w :: pint) < 2 ^ 31"
  shows "0 <s w \<longleftrightarrow> w \<noteq> 0"
proof -
  have u: "uint w = int (unat w)" by simp
  have lt: "int (unat w) < 2 ^ 31" using assms by (metis of_nat_less_iff of_nat_numeral of_nat_power)
  have "signed_take_bit 31 (int (unat w)) = int (unat w)"
    by (rule signed_take_bit_int_eq_self) (use lt of_nat_0_le_iff[of "unat w", where ?'a = int] in linarith)+
  then have "sint w = int (unat w)" by (simp only: sint_uint u) simp
  then show ?thesis by (simp add: word_sless_alt order_less_le unsigned_eq_0_iff)
qed

lemma signal_effect:
  assumes "unat (waiters_count c) + waiters_sema c \<le> n" "n < 2 ^ 31"
  shows "pp_cond_variable_signal_xp c =
    (if waiters_count c = 0 then (c, True)
     else (c\<lparr>waiters_count := waiters_count c - 1, waiters_sema := waiters_sema c + 1\<rparr>, True))"
  using assms count_positive[of "waiters_count c"] unat_gt_0[of "waiters_count c"]
  by (auto simp: pp_cond_variable_signal_xp_def ReleaseSemaphore_def MAXLONG_def)

lemma broadcast_effect:
  assumes "unat (waiters_count c) + waiters_sema c \<le> n" "n < 2 ^ 31"
  shows "pp_cond_variable_broadcast_xp c =
    (c\<lparr>waiters_count := 0, waiters_sema := waiters_sema c + unat (waiters_count c)\<rparr>, True)"
  using assms count_positive[of "waiters_count c"]
  by (cases "waiters_count c = 0") (auto simp: pp_cond_variable_broadcast_xp_def ReleaseSemaphore_def MAXLONG_def Let_def)

lemma cond_inv_step:
  assumes inv: "cond_inv n s" and t: "t < n" and pcs: "pcs s' = (pcs s)(t := pc)" and ok: "waited_ok pc"
    and count: "unat (waiters_count (cv (sh s'))) + waiters_sema (cv (sh s')) + of_bool (asleep (pcs s t)) =
      unat (waiters_count (cv (sh s))) + waiters_sema (cv (sh s)) + of_bool (asleep pc)"
    and mutex: "of_bool (locked (sh s')) + of_bool (owns (pcs s t)) = of_bool (locked (sh s)) + (of_bool (owns pc) :: nat)"
  shows "cond_inv n s'"
  using inv t count mutex ok cnt_update[OF t, of asleep "pcs s" pc] cnt_update[OF t, of owns "pcs s" pc]
  by (simp add: cond_inv_def pcs)

lemma owner_locks: "cond_inv n s \<Longrightarrow> t < n \<Longrightarrow> owns (pcs s t) \<Longrightarrow> locked (sh s)"
  using cnt_pos[of t n owns "pcs s"] by (auto simp: cond_inv_def split: if_splits)

lemma sleepers_bound: "cond_inv n s \<Longrightarrow> unat (waiters_count (cv (sh s))) + waiters_sema (cv (sh s)) \<le> n"
  using cnt_le[of n asleep "pcs s"] by (simp add: cond_inv_def)

lemma wait_inv:
  assumes inv: "cond_inv n s" and n: "n < 2 ^ 31" and t: "t < n" and pc: "pcs s t = Waiting pc"
    and w: "pp_cond_variable_wait_xp WAIT_OBJECT_0 (sh s) pc = Some (m, pc')"
  shows "cond_inv n (s\<lparr>sh := m, pcs := (pcs s)(t := Waiting pc')\<rparr>)"
proof -
  have ok: "waited_ok (Waiting pc)" using inv pc unfolding cond_inv_def by metis
  have lk: "owns (Waiting pc) \<Longrightarrow> locked (sh s)" using owner_locks[OF inv t] pc by simp
  have "unat (waiters_count (cv (sh s)) + 1) = unat (waiters_count (cv (sh s))) + 1"
    using sleepers_bound[OF inv] n by (simp add: unat_word_ariths(1))
  note facts = this w ok lk pc
  note step = cond_inv_step[OF inv t, of "s\<lparr>sh := m, pcs := (pcs s)(t := Waiting pc')\<rparr>" "Waiting pc'"]
  show ?thesis
  proof (cases pc)
    case Wait_sema
    then show ?thesis by (intro step) (use facts in \<open>auto split: if_splits\<close>)
  next
    case (Wait_lock c)
    then show ?thesis by (intro step) (use facts in \<open>auto split: if_splits\<close>)
  next
    case (Wait_leave c)
    then show ?thesis by (intro step) (use facts in \<open>auto simp: Let_def\<close>)
  qed (use facts step in auto)
qed

lemma cond_step_inv: "cond_step n s s' \<Longrightarrow> n < 2 ^ 31 \<Longrightarrow> cond_inv n s \<Longrightarrow> cond_inv n s'"
proof (induction rule: cond_step.induct)
  case (lock t s)
  then show ?case by (intro cond_inv_step[OF lock(5,1), where pc = Inside]) simp_all
next
  case (unlock t s)
  then have "locked (sh s)" by (simp add: owner_locks)
  then show ?case using unlock by (intro cond_inv_step[OF unlock(4,1), where pc = Outside]) simp_all
next
  case (call t s)
  then show ?case by (intro cond_inv_step[OF call(4,1), where pc = "Waiting Wait_count"]) (simp_all add: p_cond_variable_wait_def)
next
  case (wait t s pc m pc')
  then show ?case by (intro wait_inv)
next
  case (return t s r)
  then have r using cond_inv_def waited_ok.simps(3) by metis
  then show ?case using return by (intro cond_inv_step[OF return(4,1), where pc = Inside]) simp_all
next
  case (signal t s c r)
  have c: "pp_cond_variable_signal_xp (cv (sh s)) = (c, r)"
    using signal(3) by (simp add: p_cond_variable_signal_def split: prod.splits)
  show ?case
    by (rule cond_inv_step[OF signal(5,1), where pc = Inside])
      (use c signal signal_effect[OF sleepers_bound[OF signal(5)] signal(4)] in
        \<open>auto simp: unat_minus_one unat_gt_0 split: if_splits\<close>)
next
  case (broadcast t s c r)
  have c: "pp_cond_variable_broadcast_xp (cv (sh s)) = (c, r)"
    using broadcast(3) by (simp add: p_cond_variable_broadcast_def split: prod.splits)
  show ?case
    by (rule cond_inv_step[OF broadcast(5,1), where pc = Inside])
      (use c broadcast broadcast_effect[OF sleepers_bound[OF broadcast(5)] broadcast(4)] in \<open>auto split: if_splits\<close>)
qed

lemma cond_reachable_inv: "cond_reachable n s \<Longrightarrow> n < 2 ^ 31 \<Longrightarrow> cond_inv n s"
  by (induction rule: cond_reachable.induct) (auto intro: cond_init_inv cond_step_inv)

section \<open>Properties\<close>

text \<open>
  C34.  In every reachable state of fewer than \<open>2 ^ 31\<close> threads the counter and the value of the semaphore together are
  the number of threads that sleep, at most one thread has the mutex, and every call that returns reports success.
  So a wake-up that was given always has a thread to take it; a broadcast lets all the threads go that sleep, a signal
  one more of them, and without sleeping threads neither leaves a wake-up behind.
\<close>

theorem cond_xp_counts:
  assumes "cond_reachable n s" "n < 2 ^ 31"
  shows "unat (waiters_count (cv (sh s))) + waiters_sema (cv (sh s)) = card {t. t < n \<and> asleep (pcs s t)} \<and>
    (owns (pcs s t) \<longrightarrow> owns (pcs s u) \<longrightarrow> t = u) \<and>
    (pcs s t = Waiting (Wait_done r) \<longrightarrow> r) \<and>
    (\<exists>c. p_cond_variable_broadcast (Some (Emulated (cv (sh s)))) = (Some (Emulated c), True) \<and>
       waiters_sema c = card {t. t < n \<and> asleep (pcs s t)}) \<and>
    (\<exists>c. p_cond_variable_signal (Some (Emulated (cv (sh s)))) = (Some (Emulated c), True) \<and>
       waiters_sema c = min (waiters_sema (cv (sh s)) + 1) (card {t. t < n \<and> asleep (pcs s t)}))"
proof -
  note inv = cond_reachable_inv[OF assms]
  have sum: "unat (waiters_count (cv (sh s))) + waiters_sema (cv (sh s)) = card {t. t < n \<and> asleep (pcs s t)}"
    using inv by (simp add: cond_inv_def cnt_def)
  have one: "t = u" if o: "owns (pcs s t)" "owns (pcs s u)"
  proof (rule ccontr)
    assume ne: "t \<noteq> u"
    have lt: "v < n" if "owns (pcs s v)" for v
      using inv that unfolding cond_inv_def by (metis not_le owns.simps(6))
    have "card {t, u} \<le> card {v. v < n \<and> owns (pcs s v)}" by (rule card_mono) (use o lt in auto)
    moreover have "card {v. v < n \<and> owns (pcs s v)} \<le> 1" using inv by (simp only: cond_inv_def cnt_def) simp
    ultimately show False using ne by simp
  qed
  have fin: "r" if "pcs s t = Waiting (Wait_done r)"
    using inv that unfolding cond_inv_def by (metis waited_ok.simps(3))
  show ?thesis
    using sum one fin unat_gt_0[of "waiters_count (cv (sh s))"] broadcast_effect[OF sleepers_bound[OF inv] assms(2)] signal_effect[OF sleepers_bound[OF inv] assms(2)]
    by (auto simp: p_cond_variable_broadcast_def p_cond_variable_signal_def min_def)
qed

lemma cond_xp_counts_witness:
  "\<exists>s. cond_reachable 2 s \<and>
    (\<exists>c. p_cond_variable_broadcast (Some (Emulated (cv (sh s)))) = (Some (Emulated c), True) \<and> waiters_sema c = 0)"
  using cond_xp_counts[OF start[of 2]] start[of 2] by (auto simp: cond_init_def intro!: exI[of _ cond_init])

section \<open>A stolen wake-up\<close>

text \<open>Two threads: the values of the semaphore and the counter, the mutex, and where the threads are.\<close>

definition two :: "nat \<Rightarrow> pint \<Rightarrow> bool \<Rightarrow> cond_pc \<Rightarrow> cond_pc \<Rightarrow> cond_sys" where
  "two v w l a b =
     \<lparr>sh = \<lparr>cv = \<lparr>waiters_sema = v, waiters_count = w\<rparr>, locked = l\<rparr>,
      pcs = (\<lambda>t. if t = 0 then a else if t = 1 then b else Outside)\<rparr>"

lemma two_simps [simp]:
  "sh (two v w l a b) = \<lparr>cv = \<lparr>waiters_sema = v, waiters_count = w\<rparr>, locked = l\<rparr>"
  "pcs (two v w l a b) 0 = a" "pcs (two v w l a b) 1 = b" "pcs (two v w l a b) (Suc 0) = b"
  "(two v w l a b)\<lparr>sh := \<lparr>cv = \<lparr>waiters_sema = v', waiters_count = w'\<rparr>, locked = l'\<rparr>\<rparr> = two v' w' l' a b"
  "(two v w l c d)\<lparr>pcs := (pcs (two v' w' l' a b))(0 := a')\<rparr> = two v w l a' b"
  "(two v w l c d)\<lparr>pcs := (pcs (two v' w' l' a b))(Suc 0 := b')\<rparr> = two v w l a b'"
  by (auto simp: two_def fun_eq_iff)

lemma two_wait:
  "pp_cond_variable_wait_xp WAIT_OBJECT_0 (sh (two v w l a b)) p = Some (sh (two v' w' l' a b), q) \<Longrightarrow>
    a = Waiting p \<Longrightarrow> cond_step 2 (two v w l a b) (two v' w' l' (Waiting q) b)"
  "pp_cond_variable_wait_xp WAIT_OBJECT_0 (sh (two v w l a b)) p = Some (sh (two v' w' l' a b), q) \<Longrightarrow>
    b = Waiting p \<Longrightarrow> cond_step 2 (two v w l a b) (two v' w' l' a (Waiting q))"
  using wait[of 0 2 "two v w l a b" p] wait[of 1 2 "two v w l a b" p] by auto

lemma two_enter:
  "cond_step 2 (two v w False Outside b) (two v w True Inside b)"
  "cond_step 2 (two v w False a Outside) (two v w True a Inside)"
  "cond_step 2 (two v w l Inside b) (two v w l (Waiting Wait_count) b)"
  "cond_step 2 (two v w l a Inside) (two v w l a (Waiting Wait_count))"
  using lock[of 0 2 "two v w False Outside b"] lock[of 1 2 "two v w False a Outside"]
    call[of 0 2 "two v w l Inside b"] call[of 1 2 "two v w l a Inside"]
  by (auto simp: p_cond_variable_wait_def)

text \<open>
  C35.  A broadcast does not wake every thread that waits: thread 0 sleeps when thread 1 broadcasts; thread 1 then waits
  itself, takes the wake-up at once and returns, and thread 0 goes on sleeping on a semaphore of value 0.
\<close>

theorem cond_xp_stolen_wakeup:
  "\<exists>s c s'. cond_reachable 2 s \<and> pcs s 0 = Waiting Wait_sema \<and> pcs s 1 = Inside \<and>
    p_cond_variable_broadcast (Some (Emulated (cv (sh s)))) = (Some (Emulated c), True) \<and>
    (cond_step 2)\<^sup>*\<^sup>* (s\<lparr>sh := (sh s)\<lparr>cv := c\<rparr>\<rparr>) s' \<and>
    pcs s' 1 = Waiting (Wait_done True) \<and> pcs s' 0 = Waiting Wait_sema \<and>
    pp_cond_variable_wait_xp WAIT_OBJECT_0 (sh s') Wait_sema = None"
proof -
  let ?s = "two 0 1 True (Waiting Wait_sema) Inside"
  let ?woken = "two 1 0 True (Waiting Wait_sema) Inside"
  have "cond_init = two 0 0 False Outside Outside" by (simp add: cond_init_def two_def fun_eq_iff)
  then have "cond_reachable 2 (two 0 0 False Outside Outside)" using start by metis
  then have "cond_reachable 2 (two 0 0 True Inside Outside)" by (rule step) (rule two_enter)
  then have "cond_reachable 2 (two 0 0 True (Waiting Wait_count) Outside)" by (rule step) (rule two_enter)
  then have "cond_reachable 2 (two 0 1 True (Waiting Wait_unlock) Outside)" by (rule step) (rule two_wait; simp)
  then have "cond_reachable 2 (two 0 1 False (Waiting Wait_sema) Outside)" by (rule step) (rule two_wait; simp)
  then have reach: "cond_reachable 2 ?s" by (rule step) (rule two_enter)
  have wake: "p_cond_variable_broadcast (Some (Emulated (cv (sh ?s)))) =
      (Some (Emulated \<lparr>waiters_sema = 1, waiters_count = 0\<rparr>), True)"
    using broadcast_effect[of "cv (sh ?s)" 1] by (simp add: p_cond_variable_broadcast_def)
  have "(cond_step 2)\<^sup>*\<^sup>* ?woken (two 1 0 True (Waiting Wait_sema) (Waiting Wait_count))" by (rule r_into_rtranclp) (rule two_enter)
  then have "(cond_step 2)\<^sup>*\<^sup>* ?woken (two 1 1 True (Waiting Wait_sema) (Waiting Wait_unlock))"
    by (rule rtranclp.rtrancl_into_rtrancl) (rule two_wait(2); simp)
  then have "(cond_step 2)\<^sup>*\<^sup>* ?woken (two 1 1 False (Waiting Wait_sema) (Waiting Wait_sema))"
    by (rule rtranclp.rtrancl_into_rtrancl) (rule two_wait(2); simp)
  then have "(cond_step 2)\<^sup>*\<^sup>* ?woken (two 0 1 False (Waiting Wait_sema) (Waiting (Wait_lock WAIT_OBJECT_0)))"
    by (rule rtranclp.rtrancl_into_rtrancl) (rule two_wait(2); simp)
  then have "(cond_step 2)\<^sup>*\<^sup>* ?woken (two 0 1 True (Waiting Wait_sema) (Waiting (Wait_leave WAIT_OBJECT_0)))"
    by (rule rtranclp.rtrancl_into_rtrancl) (rule two_wait(2); simp)
  then have "(cond_step 2)\<^sup>*\<^sup>* ?woken (two 0 1 True (Waiting Wait_sema) (Waiting (Wait_done True)))"
    by (rule rtranclp.rtrancl_into_rtrancl) (rule two_wait(2); simp)
  then show ?thesis using reach wake
    by (intro exI[of _ ?s] exI[of _ "\<lparr>waiters_sema = 1, waiters_count = 0\<rparr>"]
        exI[of _ "two 0 1 True (Waiting Wait_sema) (Waiting (Wait_done True))"]) simp
qed

end
