(* ===== verification/PShmSysV.thy ===== *)
theory PShmSysV
  imports PShm PSemSysV
begin

text \<open>
  Shared memory on System V systems (\<open>pshm-sysv.c\<close>): a segment found by the key of a file, with the semaphore that
  locks it.  A segment is removed when its last user goes; its bytes are not part of the model.
\<close>

section \<open>The system\<close>

text \<open>A segment has a size and a number of attachments; \<open>no_attach\<close> if the system has no room to attach one.\<close>

record shm_sysv =
  sv :: sysv
  shm_ids :: "int \<Rightarrow> int option"
  segments :: "int \<Rightarrow> (nat \<times> nat) option"
  next_shm :: int
  no_attach :: bool

text \<open>\<open>shmget\<close> with \<open>IPC_CREAT | IPC_EXCL\<close> and without, \<open>shmctl\<close> with \<open>IPC_STAT\<close> and \<open>IPC_RMID\<close>.\<close>

definition shmget_excl :: "int \<Rightarrow> nat \<Rightarrow> shm_sysv \<Rightarrow> shm_sysv \<times> (errno + int)" where
  "shmget_excl key sz os =
     (case shm_ids os key of
        Some _ \<Rightarrow> (os, Inl EEXIST)
      | None \<Rightarrow>
          if sz = 0 then (os, Inl EINVAL)
          else (os\<lparr>shm_ids := (shm_ids os)(key \<mapsto> next_shm os), segments := (segments os)(next_shm os \<mapsto> (sz, 0)),
                  next_shm := next_shm os + 1\<rparr>, Inr (next_shm os)))"

definition shmget :: "int \<Rightarrow> shm_sysv \<Rightarrow> errno + int" where
  "shmget key os = (case shm_ids os key of None \<Rightarrow> Inl ENOENT | Some i \<Rightarrow> Inr i)"

definition shmctl_stat :: "int \<Rightarrow> shm_sysv \<Rightarrow> errno + (nat \<times> nat)" where
  "shmctl_stat i os = (case segments os i of None \<Rightarrow> Inl EINVAL | Some st \<Rightarrow> Inr st)"

definition shmctl_rmid :: "int \<Rightarrow> shm_sysv \<Rightarrow> shm_sysv" where
  "shmctl_rmid i os =
     os\<lparr>segments := (segments os)(i := None), shm_ids := (\<lambda>key. if shm_ids os key = Some i then None else shm_ids os key)\<rparr>"

text \<open>What \<open>shmat\<close> answers, the address of a segment or \<open>(void *) -1\<close>.\<close>

datatype shm_ptr = Attached int | Minus_one

definition shmat :: "int \<Rightarrow> shm_sysv \<Rightarrow> shm_sysv \<times> shm_ptr" where
  "shmat i os =
     (case segments os i of
        None \<Rightarrow> (os, Minus_one)
      | Some (sz, n) \<Rightarrow>
          if no_attach os then (os, Minus_one)
          else (os\<lparr>segments := (segments os)(i \<mapsto> (sz, Suc n))\<rparr>, Attached i))"

definition shmdt :: "shm_ptr \<Rightarrow> shm_sysv \<Rightarrow> shm_sysv" where
  "shmdt a os =
     (case a of
        Minus_one \<Rightarrow> os
      | Attached i \<Rightarrow>
          (case segments os i of
             None \<Rightarrow> os
           | Some (sz, n) \<Rightarrow> os\<lparr>segments := (segments os)(i \<mapsto> (sz, n - 1))\<rparr>))"

section \<open>The handle\<close>

record PShmSysV =
  key_file_created :: bool
  shm_unix_key :: int
  shm_platform_key :: "string option"
  shm_hdl :: int
  seg_addr :: "shm_ptr option"
  seg_size :: nat
  seg_sem :: "PSemaphoreSysV option"
  seg_perms :: PShmAccessPerms

text \<open>
  \<open>shmctl\<close> fails only for a segment that does not exist, and then removing it has no effect; a key that is NULL
  cannot be unlinked.
\<close>

definition pp_shm_clean_handle_sysv :: "shm_sysv \<Rightarrow> PShmSysV \<Rightarrow> shm_sysv \<times> PShmSysV" where
  "pp_shm_clean_handle_sysv os shm =
     (let os1 = (case seg_addr shm of
            None \<Rightarrow> os
          | Some a \<Rightarrow>
              (let d = shmdt a os
               in case shmctl_stat (shm_hdl shm) d of
                    Inl _ \<Rightarrow> d
                  | Inr (_, nattch) \<Rightarrow> if nattch = 0 then shmctl_rmid (shm_hdl shm) d else d));
          os2 = (case (key_file_created shm, shm_platform_key shm) of
            (True, Some key) \<Rightarrow> os1\<lparr>sv := unlink_file key (sv os1)\<rparr> | _ \<Rightarrow> os1);
          os3 = (case seg_sem shm of None \<Rightarrow> os2 | Some s \<Rightarrow> os2\<lparr>sv := p_semaphore_free_sysv (sv os2) (Some s)\<rparr>)
      in (os3, shm\<lparr>seg_sem := None, key_file_created := False, shm_unix_key := -1, shm_hdl := -1, seg_addr := None,
                    seg_size := 0\<rparr>))"

definition shm_sysv_fail ::
  "shm_sysv \<Rightarrow> PShmSysV \<Rightarrow> ipc_failure \<Rightarrow> shm_sysv \<times> PShmSysV \<times> (ipc_failure + unit)" where
  "shm_sysv_fail os shm err = (case pp_shm_clean_handle_sysv os shm of (os', shm') \<Rightarrow> (os', shm', Inl err))"

text \<open>From the call of \<open>IPC_STAT\<close> on.  The error number of a failed \<open>shmat\<close> is left open here (\<open>ENOMEM\<close>).\<close>

definition shm_attach ::
  "(nat \<Rightarrow> int) \<Rightarrow> (string \<Rightarrow> string option) \<Rightarrow> shm_sysv \<Rightarrow> PShmSysV \<Rightarrow> bool \<Rightarrow> shm_sysv \<times> PShmSysV \<times> (ipc_failure + unit)" where
  "shm_attach ftok ipc_key os shm is_exists =
     (case shmctl_stat (shm_hdl shm) os of
        Inl e \<Rightarrow> shm_sysv_fail os shm (System e)
      | Inr (segsz, _) \<Rightarrow>
          (let (os1, a) = shmat (shm_hdl shm) os;
               shm1 = shm\<lparr>seg_size := segsz, seg_addr := Some a\<rparr>
           in if a = Minus_one then shm_sysv_fail os1 shm1 (System ENOMEM)
              else (case p_semaphore_new_sysv ftok ipc_key True True (sv os1) (shm_platform_key shm) 1
                      (if is_exists then P_SEM_ACCESS_OPEN else P_SEM_ACCESS_CREATE) of
                  (s, Inl err) \<Rightarrow> shm_sysv_fail (os1\<lparr>sv := s\<rparr>) (shm1\<lparr>seg_sem := None\<rparr>) err
                | (s, Inr sem) \<Rightarrow> (os1\<lparr>sv := s\<rparr>, shm1\<lparr>seg_sem := Some sem\<rparr>, Inr ()))))"

definition pp_shm_create_handle_sysv ::
  "(nat \<Rightarrow> int) \<Rightarrow> (string \<Rightarrow> string option) \<Rightarrow> shm_sysv \<Rightarrow> PShmSysV \<Rightarrow> shm_sysv \<times> PShmSysV \<times> (ipc_failure + unit)" where
  "pp_shm_create_handle_sysv ftok ipc_key os shm =
     (case shm_platform_key shm of
        None \<Rightarrow> (os, shm, Inl (Library P_ERROR_IPC_INVALID_ARGUMENT))
      | Some key \<Rightarrow>
          (let (s1, built) = p_ipc_unix_create_key_file (sv os) (Some key); os1 = os\<lparr>sv := s1\<rparr>
           in if built = -1 then shm_sysv_fail os1 shm (System EACCES)
              else
                (let shm1 = (if built = 0 then shm\<lparr>key_file_created := True\<rparr> else shm);
                     ukey = p_ipc_unix_get_ftok_key ftok s1 (Some key);
                     shm2 = shm1\<lparr>shm_unix_key := ukey\<rparr>
                 in if ukey = -1 then shm_sysv_fail os1 shm2 (System ENOENT)
                    else
                      (case shmget_excl ukey (seg_size shm2) os1 of
                         (os2, Inr i) \<Rightarrow>
                           shm_attach ftok ipc_key os2 (shm2\<lparr>shm_hdl := i, key_file_created := (built = 1)\<rparr>) False
                       | (os2, Inl e) \<Rightarrow>
                           (case (if e = EEXIST then shmget ukey os2 else Inl e) of
                              Inl e2 \<Rightarrow> shm_sysv_fail os2 (shm2\<lparr>shm_hdl := -1\<rparr>) (System e2)
                            | Inr i \<Rightarrow> shm_attach ftok ipc_key os2 (shm2\<lparr>shm_hdl := i\<rparr>) True)))))"

section \<open>The operations\<close>

definition p_shm_free_sysv :: "shm_sysv \<Rightarrow> PShmSysV option \<Rightarrow> shm_sysv" where
  "p_shm_free_sysv os shm = (case shm of None \<Rightarrow> os | Some s \<Rightarrow> fst (pp_shm_clean_handle_sysv os s))"

definition p_shm_new_sysv ::
  "(nat \<Rightarrow> int) \<Rightarrow> (string \<Rightarrow> string option) \<Rightarrow> bool \<Rightarrow> bool \<Rightarrow> shm_sysv \<Rightarrow> string option \<Rightarrow> nat \<Rightarrow> PShmAccessPerms \<Rightarrow>
   shm_sysv \<times> (ipc_failure + PShmSysV)" where
  "p_shm_new_sysv ftok ipc_key mem mem_name os name sz p =
     (case name of
        None \<Rightarrow> (os, Inl (Library P_ERROR_IPC_INVALID_ARGUMENT))
      | Some n \<Rightarrow>
          if \<not> mem then (os, Inl (Library P_ERROR_IPC_NO_RESOURCES))
          else if \<not> mem_name then (os, Inl (Library P_ERROR_IPC_NO_RESOURCES))
          else
            (let ret = \<lparr>key_file_created = False, shm_unix_key = 0, shm_platform_key = ipc_key (n @ P_SHM_SUFFIX), shm_hdl = 0,
                        seg_addr = None, seg_size = sz, seg_sem = None, seg_perms = p\<rparr>
             in case pp_shm_create_handle_sysv ftok ipc_key os ret of
                  (os1, ret1, Inl err) \<Rightarrow> (p_shm_free_sysv os1 (Some ret1), Inl err)
                | (os1, ret1, Inr _) \<Rightarrow>
                    (os1, Inr (if seg_size ret1 > sz \<and> sz \<noteq> 0 then ret1\<lparr>seg_size := sz\<rparr> else ret1))))"

definition p_shm_take_ownership_sysv :: "PShmSysV option \<Rightarrow> PShmSysV option" where
  "p_shm_take_ownership_sysv shm =
     (case shm of
        None \<Rightarrow> None
      | Some s \<Rightarrow> Some (s\<lparr>key_file_created := True, seg_sem := p_semaphore_take_ownership_sysv (seg_sem s)\<rparr>))"

text \<open>Taking and giving up the lock may make the semaphore anew, so that the object changes too.\<close>

definition p_shm_lock_sysv ::
  "(nat \<Rightarrow> int) \<Rightarrow> shm_sysv \<Rightarrow> PShmSysV option \<Rightarrow> (shm_sysv \<times> PShmSysV option \<times> (ipc_failure + unit)) option" where
  "p_shm_lock_sysv ftok os shm =
     (case shm of
        None \<Rightarrow> Some (os, None, Inl (Library P_ERROR_IPC_INVALID_ARGUMENT))
      | Some s \<Rightarrow>
          (case p_semaphore_acquire_sysv ftok (sv os) (seg_sem s) of
             None \<Rightarrow> None
           | Some (v, sem, r) \<Rightarrow> Some (os\<lparr>sv := v\<rparr>, Some (s\<lparr>seg_sem := sem\<rparr>), r)))"

definition p_shm_unlock_sysv ::
  "(nat \<Rightarrow> int) \<Rightarrow> shm_sysv \<Rightarrow> PShmSysV option \<Rightarrow> shm_sysv \<times> PShmSysV option \<times> (ipc_failure + unit)" where
  "p_shm_unlock_sysv ftok os shm =
     (case shm of
        None \<Rightarrow> (os, None, Inl (Library P_ERROR_IPC_INVALID_ARGUMENT))
      | Some s \<Rightarrow>
          (case p_semaphore_release_sysv ftok (sv os) (seg_sem s) of
             (v, sem, r) \<Rightarrow> (os\<lparr>sv := v\<rparr>, Some (s\<lparr>seg_sem := sem\<rparr>), r)))"

definition p_shm_get_address_sysv :: "PShmSysV option \<Rightarrow> shm_ptr option" where
  "p_shm_get_address_sysv shm = (case shm of None \<Rightarrow> None | Some s \<Rightarrow> seg_addr s)"

definition p_shm_get_size_sysv :: "PShmSysV option \<Rightarrow> nat" where
  "p_shm_get_size_sysv shm = (case shm of None \<Rightarrow> 0 | Some s \<Rightarrow> seg_size s)"

end
