(* ===== verification/PShmSysVProps.thy ===== *)
theory PShmSysVProps
  imports PShmSysV PSemSysVProps
begin

text \<open>
  Properties of System V shared memory: two processes that open one name share the segment and its lock; the last
  one to go takes the segment with it, but not the key files, and the one that made the semaphore takes it away from
  those who still use it.
\<close>

lemma sysv_new_open:
  assumes "ipc_key (n @ P_SEM_SUFFIX) = Some k" "0 \<le> init" "\<not> sv_denied os k" "files os k = Some inode"
    and "ftok inode \<noteq> -1" "sem_ids os (ftok inode) = Some i" "i \<noteq> -1"
  shows "p_semaphore_new_sysv ftok ipc_key True True os (Some n) init P_SEM_ACCESS_OPEN =
    (os, Inr \<lparr>file_created = False, sv_created = False, unix_key = ftok inode, sv_key = Some k, sv_hdl = i,
         sv_mode = P_SEM_ACCESS_OPEN, sv_init = init\<rparr>)"
  using assms by (simp add: sysv_defs Let_def)

text \<open>The names are known to the system, which lets the process make files, segments and semaphores.\<close>

definition shm_sysv_ready :: "(string \<Rightarrow> string option) \<Rightarrow> string \<Rightarrow> string \<Rightarrow> string \<Rightarrow> shm_sysv \<Rightarrow> bool" where
  "shm_sysv_ready ipc_key n k ks os \<longleftrightarrow>
     ipc_key (n @ P_SHM_SUFFIX) = Some k \<and> ipc_key (k @ P_SEM_SUFFIX) = Some ks \<and> k \<noteq> ks \<and>
     \<not> sv_denied (sv os) k \<and> \<not> sv_denied (sv os) ks \<and> \<not> no_attach os \<and> 0 \<le> next_sem (sv os) \<and> 0 \<le> next_shm os"

lemma shm_sysv_new_fresh:
  assumes "shm_sysv_ready ipc_key n k ks os" "files (sv os) k = None" "files (sv os) ks = None" "0 < sz"
    and "i = next_inode (sv os)" "ftok i \<noteq> -1" "ftok (Suc i) \<noteq> -1" "shm_ids os (ftok i) = None"
    and "sem_ids (sv os) (ftok (Suc i)) = None"
  shows "\<exists>os1 s sem. p_shm_new_sysv ftok ipc_key True True os (Some n) sz p = (os1, Inr s) \<and>
    s = \<lparr>key_file_created = False, shm_unix_key = ftok i, shm_platform_key = Some k, shm_hdl = next_shm os,
         seg_addr = Some (Attached (next_shm os)), seg_size = sz, seg_sem = Some sem, seg_perms = p\<rparr> \<and>
    sem = \<lparr>file_created = False, sv_created = True, unix_key = ftok (Suc i), sv_key = Some ks, sv_hdl = next_sem (sv os),
         sv_mode = P_SEM_ACCESS_CREATE, sv_init = 1\<rparr> \<and>
    shm_ids os1 = (shm_ids os)(ftok i \<mapsto> next_shm os) \<and> segments os1 = (segments os)(next_shm os \<mapsto> (sz, 1)) \<and>
    next_shm os1 = next_shm os + 1 \<and> no_attach os1 = no_attach os \<and>
    files (sv os1) = (files (sv os))(k \<mapsto> i, ks \<mapsto> Suc i) \<and>
    sem_ids (sv os1) = (sem_ids (sv os))(ftok (Suc i) \<mapsto> next_sem (sv os)) \<and>
    sem_sets (sv os1) = (sem_sets (sv os))(next_sem (sv os) \<mapsto> 1) \<and>
    sv_denied (sv os1) = sv_denied (sv os) \<and> next_sem (sv os1) = next_sem (sv os) + 1 \<and>
    sv_interrupts (sv os1) = sv_interrupts (sv os)"
proof -
  let ?v = "(sv os)\<lparr>files := (files (sv os))(k \<mapsto> i), next_inode := Suc i\<rparr>"
  obtain v where v: "p_semaphore_new_sysv ftok ipc_key True True ?v (Some k) 1 P_SEM_ACCESS_CREATE =
      (v, Inr \<lparr>file_created = False, sv_created = True, unix_key = ftok (Suc i), sv_key = Some ks, sv_hdl = next_sem (sv os),
         sv_mode = P_SEM_ACCESS_CREATE, sv_init = 1\<rparr>)"
      "files v = (files (sv os))(k \<mapsto> i, ks \<mapsto> Suc i)" "sem_ids v = (sem_ids (sv os))(ftok (Suc i) \<mapsto> next_sem (sv os))"
      "sem_sets v = (sem_sets (sv os))(next_sem (sv os) \<mapsto> 1)" "sv_denied v = sv_denied (sv os)"
      "next_sem v = next_sem (sv os) + 1" "sv_interrupts v = sv_interrupts (sv os)"
    using sysv_new_new[of ipc_key k ks 1 ?v "Suc i" ftok P_SEM_ACCESS_CREATE] assms by (auto simp: shm_sysv_ready_def SEMVMX_def)
  show ?thesis
    using assms v
    by (simp add: shm_sysv_ready_def p_shm_new_sysv_def pp_shm_create_handle_sysv_def p_ipc_unix_create_key_file_def
        p_ipc_unix_get_ftok_key_def open_excl_def Let_def shmget_excl_def shm_attach_def shmctl_stat_def shmat_def)
qed

lemma shm_sysv_new_open:
  assumes "shm_sysv_ready ipc_key n k ks os" "files (sv os) k = Some i" "files (sv os) ks = Some i'"
    and "ftok i \<noteq> -1" "ftok i' \<noteq> -1" "shm_ids os (ftok i) = Some h" "segments os h = Some (sz, a)"
    and "sem_ids (sv os) (ftok i') = Some j" "j \<noteq> -1"
  shows "p_shm_new_sysv ftok ipc_key True True os (Some n) sz2 p =
    (os\<lparr>segments := (segments os)(h \<mapsto> (sz, Suc a))\<rparr>,
     Inr \<lparr>key_file_created = False, shm_unix_key = ftok i, shm_platform_key = Some k, shm_hdl = h,
         seg_addr = Some (Attached h), seg_size = (if sz2 < sz \<and> sz2 \<noteq> 0 then sz2 else sz),
         seg_sem = Some \<lparr>file_created = False, sv_created = False, unix_key = ftok i', sv_key = Some ks, sv_hdl = j,
           sv_mode = P_SEM_ACCESS_OPEN, sv_init = 1\<rparr>, seg_perms = p\<rparr>)"
  using assms sysv_new_open[of ipc_key k ks 1 "sv os" i' ftok j]
  by (simp add: shm_sysv_ready_def p_shm_new_sysv_def pp_shm_create_handle_sysv_def p_ipc_unix_create_key_file_def
      p_ipc_unix_get_ftok_key_def open_excl_def Let_def shmget_excl_def shmget_def shm_attach_def shmctl_stat_def shmat_def)

text \<open>Opening a segment whose semaphore is gone makes a new semaphore, of value 1.\<close>

lemma shm_sysv_new_reopen:
  assumes "shm_sysv_ready ipc_key n k ks os" "files (sv os) k = Some i" "files (sv os) ks = Some i'"
    and "ftok i \<noteq> -1" "ftok i' \<noteq> -1" "shm_ids os (ftok i) = Some h" "segments os h = Some (sz, a)"
    and "sem_ids (sv os) (ftok i') = None"
  shows "\<exists>os1 s sem. p_shm_new_sysv ftok ipc_key True True os (Some n) sz2 p = (os1, Inr s) \<and>
    seg_addr s = Some (Attached h) \<and> seg_sem s = Some sem \<and> sv_hdl sem = next_sem (sv os) \<and>
    sem_sets (sv os1) = (sem_sets (sv os))(next_sem (sv os) \<mapsto> 1)"
proof -
  obtain v s where v: "p_semaphore_new_sysv ftok ipc_key True True (sv os) (Some k) 1 P_SEM_ACCESS_OPEN = (v, Inr s)"
      "sv_hdl s = next_sem (sv os)" "sem_sets v = (sem_sets (sv os))(next_sem (sv os) \<mapsto> 1)"
    using sysv_new_new[of ipc_key k ks 1 "sv os" i' ftok P_SEM_ACCESS_OPEN] assms by (auto simp: shm_sysv_ready_def SEMVMX_def)
  then show ?thesis using assms
    by (simp add: shm_sysv_ready_def p_shm_new_sysv_def pp_shm_create_handle_sysv_def p_ipc_unix_create_key_file_def
        p_ipc_unix_get_ftok_key_def open_excl_def Let_def shmget_excl_def shmget_def shm_attach_def shmctl_stat_def shmat_def)
qed

text \<open>The lock is the semaphore; interrupted calls are made again.\<close>

lemma shm_sysv_lock_taken:
  "seg_sem s = Some sem \<Longrightarrow> sem_sets (sv os) (sv_hdl sem) = Some 0 \<Longrightarrow> p_shm_lock_sysv ftok os (Some s) = None"
  by (simp add: p_shm_lock_sysv_def p_semaphore_acquire_sysv_def semop_results)

lemma shm_sysv_lock_free:
  "seg_sem s = Some sem \<Longrightarrow> sem_sets (sv os) (sv_hdl sem) = Some (Suc v) \<Longrightarrow>
    p_shm_lock_sysv ftok os (Some s) =
      Some (os\<lparr>sv := (quiet_sysv (sv os))\<lparr>sem_sets := (sem_sets (sv os))(sv_hdl sem \<mapsto> v)\<rparr>\<rparr>, Some s, Inr ())"
  by (simp add: p_shm_lock_sysv_def p_semaphore_acquire_sysv_def semop_results)

lemma shm_sysv_unlock:
  "seg_sem s = Some sem \<Longrightarrow> sem_sets (sv os) (sv_hdl sem) = Some v \<Longrightarrow> v < SEMVMX \<Longrightarrow>
    p_shm_unlock_sysv ftok os (Some s) =
      (os\<lparr>sv := (quiet_sysv (sv os))\<lparr>sem_sets := (sem_sets (sv os))(sv_hdl sem \<mapsto> Suc v)\<rparr>\<rparr>, Some s, Inr ())"
  by (simp add: p_shm_unlock_sysv_def p_semaphore_release_sysv_def semop_results)

lemmas shm_sysv_locks = shm_sysv_lock_taken shm_sysv_lock_free shm_sysv_unlock

text \<open>What the first process and one that opens the name after it have, and the system between the two.\<close>

definition maker_object :: "PShmSysV \<Rightarrow> PSemaphoreSysV \<Rightarrow> int \<Rightarrow> int \<Rightarrow> bool" where
  "maker_object s sem h j \<longleftrightarrow> seg_addr s = Some (Attached h) \<and> shm_hdl s = h \<and> \<not> key_file_created s \<and>
     seg_sem s = Some sem \<and> sv_created sem \<and> \<not> file_created sem \<and> sv_hdl sem = j"

definition user_object :: "PShmSysV \<Rightarrow> PSemaphoreSysV \<Rightarrow> int \<Rightarrow> int \<Rightarrow> bool" where
  "user_object s sem h j \<longleftrightarrow> seg_addr s = Some (Attached h) \<and> shm_hdl s = h \<and> \<not> key_file_created s \<and>
     seg_sem s = Some sem \<and> \<not> sv_created sem \<and> \<not> file_created sem \<and> sv_hdl sem = j"

lemma shm_sysv_two_users:
  assumes "shm_sysv_ready ipc_key n k ks os" "files (sv os) k = None" "files (sv os) ks = None" "0 < sz"
    and "i = next_inode (sv os)" "ftok i \<noteq> -1" "ftok (Suc i) \<noteq> -1" "shm_ids os (ftok i) = None"
    and "sem_ids (sv os) (ftok (Suc i)) = None" "h = next_shm os" "j = next_sem (sv os)"
  obtains os1 s1 sem1 s2 sem2 where
    "p_shm_new_sysv ftok ipc_key True True os (Some n) sz p = (os1, Inr s1)"
    "p_shm_new_sysv ftok ipc_key True True os1 (Some n) sz2 p2 = (os1\<lparr>segments := (segments os)(h \<mapsto> (sz, 2))\<rparr>, Inr s2)"
    "maker_object s1 sem1 h j" "seg_size s1 = sz" "user_object s2 sem2 h j" "seg_size s2 = (if sz2 = 0 then sz else min sz2 sz)"
    "shm_sysv_ready ipc_key n k ks os1" "shm_ids os1 = (shm_ids os)(ftok i \<mapsto> h)" "segments os1 = (segments os)(h \<mapsto> (sz, 1))"
    "files (sv os1) = (files (sv os))(k \<mapsto> i, ks \<mapsto> Suc i)" "sem_ids (sv os1) = (sem_ids (sv os))(ftok (Suc i) \<mapsto> j)"
    "sem_sets (sv os1) = (sem_sets (sv os))(j \<mapsto> 1)"
proof -
  obtain os1 s1 sem1 where new1: "p_shm_new_sysv ftok ipc_key True True os (Some n) sz p = (os1, Inr s1)"
      "s1 = \<lparr>key_file_created = False, shm_unix_key = ftok i, shm_platform_key = Some k, shm_hdl = h,
         seg_addr = Some (Attached h), seg_size = sz, seg_sem = Some sem1, seg_perms = p\<rparr>"
      "sem1 = \<lparr>file_created = False, sv_created = True, unix_key = ftok (Suc i), sv_key = Some ks, sv_hdl = j,
         sv_mode = P_SEM_ACCESS_CREATE, sv_init = 1\<rparr>"
      "shm_ids os1 = (shm_ids os)(ftok i \<mapsto> h)" "segments os1 = (segments os)(h \<mapsto> (sz, 1))"
      "next_shm os1 = h + 1" "no_attach os1 = no_attach os" "files (sv os1) = (files (sv os))(k \<mapsto> i, ks \<mapsto> Suc i)"
      "sem_ids (sv os1) = (sem_ids (sv os))(ftok (Suc i) \<mapsto> j)" "sem_sets (sv os1) = (sem_sets (sv os))(j \<mapsto> 1)"
      "sv_denied (sv os1) = sv_denied (sv os)" "next_sem (sv os1) = j + 1"
    using shm_sysv_new_fresh[OF assms(1-9), of p] assms(10,11) by auto
  have ready: "shm_sysv_ready ipc_key n k ks os1" "k \<noteq> ks" "j \<noteq> -1"
    using assms(1,10,11) new1(6,7,11,12) by (simp_all add: shm_sysv_ready_def)
  show ?thesis
    using that[OF new1(1), of _ sem1 "\<lparr>file_created = False, sv_created = False, unix_key = ftok (Suc i), sv_key = Some ks,
        sv_hdl = j, sv_mode = P_SEM_ACCESS_OPEN, sv_init = 1\<rparr>"]
      shm_sysv_new_open[OF ready(1), of i "Suc i" ftok h sz 1 j sz2 p2] new1 ready assms(6,7)
    by (simp add: maker_object_def user_object_def numeral_2_eq_2 min_def)
qed

text \<open>Freeing the two objects.\<close>

lemma shm_sysv_free_user:
  assumes "user_object s sem h j" "segments os h = Some (sz, Suc a)"
  shows "p_shm_free_sysv os (Some s) =
    (if a = 0 then shmctl_rmid h os else os\<lparr>segments := (segments os)(h \<mapsto> (sz, a))\<rparr>)"
  using assms by (cases "key_file_created s")
    (auto simp: user_object_def p_shm_free_sysv_def pp_shm_clean_handle_sysv_def shmdt_def shmctl_stat_def shmctl_rmid_def
      p_semaphore_free_sysv_def pp_semaphore_clean_handle_sysv_def Let_def cong: if_cong)

lemma shm_sysv_free_maker:
  assumes "maker_object s sem h j" "segments os h = Some (sz, Suc a)" "j \<noteq> -1"
  shows "p_shm_free_sysv os (Some s) =
    (if a = 0 then shmctl_rmid h os else os\<lparr>segments := (segments os)(h \<mapsto> (sz, a))\<rparr>)\<lparr>sv := semctl_rmid j (sv os)\<rparr>"
  using assms by (cases "key_file_created s")
    (auto simp: maker_object_def p_shm_free_sysv_def pp_shm_clean_handle_sysv_def shmdt_def shmctl_stat_def shmctl_rmid_def
      p_semaphore_free_sysv_def pp_semaphore_clean_handle_sysv_def Let_def cong: if_cong)

text \<open>
  C36.  Two processes that open the same new name get the same segment, the second no more of it than it asks for, and of
  the two only one has the lock, until it gives it up.  When both have freed their objects, in either order, the segment
  and the semaphore are gone, but both key files stay.  If the process that made the segment goes first, the segment
  stays for the other one, but the semaphore is removed at once: while the other one holds the lock, a third process
  that opens the name makes a new semaphore and gets the lock of the same segment too.
\<close>

theorem shm_sysv_shared:
  assumes "shm_sysv_ready ipc_key n k ks os" "files (sv os) k = None" "files (sv os) ks = None" "0 < sz"
    and "i = next_inode (sv os)" "ftok i \<noteq> -1" "ftok (Suc i) \<noteq> -1" "shm_ids os (ftok i) = None"
    and "sem_ids (sv os) (ftok (Suc i)) = None"
  shows "\<exists>os1 s1 os2 s2. p_shm_new_sysv ftok ipc_key True True os (Some n) sz p = (os1, Inr s1) \<and>
    p_shm_new_sysv ftok ipc_key True True os1 (Some n) sz2 p2 = (os2, Inr s2) \<and>
    p_shm_get_address_sysv (Some s2) = p_shm_get_address_sysv (Some s1) \<and>
    p_shm_get_size_sysv (Some s1) = sz \<and> p_shm_get_size_sysv (Some s2) = (if sz2 = 0 then sz else min sz2 sz) \<and>
    (\<exists>os3. p_shm_lock_sysv ftok os2 (Some s1) = Some (os3, Some s1, Inr ()) \<and> p_shm_lock_sysv ftok os3 (Some s2) = None \<and>
      (\<exists>os4. p_shm_unlock_sysv ftok os3 (Some s1) = (os4, Some s1, Inr ()) \<and>
        (\<exists>os5. p_shm_lock_sysv ftok os4 (Some s2) = Some (os5, Some s2, Inr ())))) \<and>
    (let o1 = p_shm_free_sysv os2 (Some s2); o2 = p_shm_free_sysv o1 (Some s1)
     in segments o1 (shm_hdl s1) = Some (sz, 1) \<and> sem_sets (sv o1) = sem_sets (sv os1) \<and>
       segments o2 (shm_hdl s1) = None \<and> shm_ids o2 (ftok i) = None \<and> sem_ids (sv o2) (ftok (Suc i)) = None \<and>
       files (sv o2) = (files (sv os))(k \<mapsto> i, ks \<mapsto> Suc i)) \<and>
    (let o1 = p_shm_free_sysv os2 (Some s1); o2 = p_shm_free_sysv o1 (Some s2)
     in segments o1 (shm_hdl s1) = Some (sz, 1) \<and> sem_ids (sv o1) (ftok (Suc i)) = None \<and>
       segments o2 (shm_hdl s1) = None \<and> shm_ids o2 (ftok i) = None \<and> sem_ids (sv o2) (ftok (Suc i)) = None \<and>
       files (sv o2) = (files (sv os))(k \<mapsto> i, ks \<mapsto> Suc i)) \<and>
    (\<exists>os3. p_shm_lock_sysv ftok os2 (Some s2) = Some (os3, Some s2, Inr ()) \<and>
      (\<exists>os4 s3. p_shm_new_sysv ftok ipc_key True True (p_shm_free_sysv os3 (Some s1)) (Some n) sz3 p3 = (os4, Inr s3) \<and>
        p_shm_get_address_sysv (Some s3) = p_shm_get_address_sysv (Some s1) \<and>
        (\<exists>os5. p_shm_lock_sysv ftok os4 (Some s3) = Some (os5, Some s3, Inr ()))))"
proof -
  let ?h = "next_shm os" and ?j = "next_sem (sv os)"
  obtain os1 s1 sem1 s2 sem2 where new: "p_shm_new_sysv ftok ipc_key True True os (Some n) sz p = (os1, Inr s1)"
      "p_shm_new_sysv ftok ipc_key True True os1 (Some n) sz2 p2 = (os1\<lparr>segments := (segments os)(?h \<mapsto> (sz, 2))\<rparr>, Inr s2)"
    and objs: "maker_object s1 sem1 ?h ?j" "seg_size s1 = sz" "user_object s2 sem2 ?h ?j" "seg_size s2 = (if sz2 = 0 then sz else min sz2 sz)"
    and os1: "shm_sysv_ready ipc_key n k ks os1" "shm_ids os1 = (shm_ids os)(ftok i \<mapsto> ?h)" "segments os1 = (segments os)(?h \<mapsto> (sz, 1))"
      "files (sv os1) = (files (sv os))(k \<mapsto> i, ks \<mapsto> Suc i)" "sem_ids (sv os1) = (sem_ids (sv os))(ftok (Suc i) \<mapsto> ?j)"
      "sem_sets (sv os1) = (sem_sets (sv os))(?j \<mapsto> 1)"
    by (rule shm_sysv_two_users[OF assms refl refl])
  define os2 where "os2 = os1\<lparr>segments := (segments os)(?h \<mapsto> (sz, 2))\<rparr>"
  have j: "?j \<noteq> -1" using assms(1) by (simp add: shm_sysv_ready_def)
  note s1 = objs(1)[unfolded maker_object_def] and s2 = objs(3)[unfolded user_object_def]
  have seg: "segments os2 ?h = Some (sz, Suc 1)" "segments os1 ?h = Some (sz, Suc 0)" using os1(3) by (simp_all add: os2_def)
  note user = shm_sysv_free_user[OF objs(3)] and maker = shm_sysv_free_maker[OF objs(1) _ j]
  have sems: "seg_sem s1 = Some sem1" "seg_sem s2 = Some sem2" "sv_hdl sem1 = ?j" "sv_hdl sem2 = ?j" and ks: "k \<noteq> ks"
    using s1 s2 os1(1) by (simp_all add: shm_sysv_ready_def)
  have sv2: "sv os2 = sv os1" "shm_ids os2 = shm_ids os1" by (simp_all add: os2_def)
  have lock1: "\<exists>os3. p_shm_lock_sysv ftok os2 (Some s1) = Some (os3, Some s1, Inr ()) \<and> p_shm_lock_sysv ftok os3 (Some s2) = None \<and>
      (\<exists>os4. p_shm_unlock_sysv ftok os3 (Some s1) = (os4, Some s1, Inr ()) \<and>
        (\<exists>os5. p_shm_lock_sysv ftok os4 (Some s2) = Some (os5, Some s2, Inr ())))"
    using os1(6) sems(3,4)
    by (simp add: shm_sysv_lock_free[OF sems(1)] shm_sysv_lock_taken[OF sems(2)] shm_sysv_lock_free[OF sems(2)]
        shm_sysv_unlock[OF sems(1)] sv2 SEMVMX_def)
  have first2: "p_shm_free_sysv os2 (Some s2) = os1" using user[OF seg(1)] os1(3) by (simp add: os2_def)
  have then1: "segments (p_shm_free_sysv os1 (Some s1)) ?h = None" "shm_ids (p_shm_free_sysv os1 (Some s1)) (ftok i) = None"
      "sem_ids (sv (p_shm_free_sysv os1 (Some s1))) (ftok (Suc i)) = None"
      "files (sv (p_shm_free_sysv os1 (Some s1))) = (files (sv os))(k \<mapsto> i, ks \<mapsto> Suc i)"
    using os1(2,4,5) by (simp_all add: maker[OF seg(2)] shmctl_rmid_def semctl_rmid_def)
  let ?o1 = "p_shm_free_sysv os2 (Some s1)"
  have o1: "?o1 = os1\<lparr>segments := (segments os)(?h \<mapsto> (sz, Suc 0)), sv := semctl_rmid ?j (sv os1)\<rparr>"
    using maker[OF seg(1)] by (simp add: os2_def)
  have seg_o1: "segments ?o1 ?h = Some (sz, Suc 0)" by (simp add: o1)
  have second: "segments (p_shm_free_sysv ?o1 (Some s2)) ?h = None" "shm_ids (p_shm_free_sysv ?o1 (Some s2)) (ftok i) = None"
      "sem_ids (sv (p_shm_free_sysv ?o1 (Some s2))) (ftok (Suc i)) = None"
      "files (sv (p_shm_free_sysv ?o1 (Some s2))) = (files (sv os))(k \<mapsto> i, ks \<mapsto> Suc i)" "sem_ids (sv ?o1) (ftok (Suc i)) = None"
    unfolding user[OF seg_o1] using os1(2,4,5) by (simp_all add: shmctl_rmid_def o1 semctl_rmid_def)
  define v where "v = (quiet_sysv (sv os1))\<lparr>sem_sets := (sem_sets (sv os1))(?j \<mapsto> 0)\<rparr>"
  define os3 where "os3 = os2\<lparr>sv := v\<rparr>"
  have held: "p_shm_lock_sysv ftok os2 (Some s2) = Some (os3, Some s2, Inr ())"
    using shm_sysv_lock_free[OF sems(2), of os2 0 ftok] os1(6) sems(4) by (simp add: sv2 os3_def v_def)
  let ?o3 = "p_shm_free_sysv os3 (Some s1)"
  have "segments os3 ?h = Some (sz, Suc 1)" using seg(1) by (simp add: os3_def)
  from maker[OF this] have o3: "?o3 = os1\<lparr>segments := (segments os)(?h \<mapsto> (sz, Suc 0)), sv := semctl_rmid ?j v\<rparr>"
    by (simp add: os3_def os2_def)
  have "shm_sysv_ready ipc_key n k ks ?o3" using os1(1) by (simp add: shm_sysv_ready_def o3 semctl_rmid_def v_def)
  from shm_sysv_new_reopen[OF this, of i "Suc i" ftok ?h sz "Suc 0" sz3 p3]
  obtain os4 s3 sem3 where new3: "p_shm_new_sysv ftok ipc_key True True ?o3 (Some n) sz3 p3 = (os4, Inr s3)"
      "seg_addr s3 = Some (Attached ?h)" "seg_sem s3 = Some sem3" "sem_sets (sv os4) (sv_hdl sem3) = Some (Suc 0)"
    using os1(2,4,5) assms(6,7) ks by (auto simp: o3 semctl_rmid_def v_def)
  have lock3: "\<exists>os5. p_shm_lock_sysv ftok os4 (Some s3) = Some (os5, Some s3, Inr ())"
    using shm_sysv_lock_free[OF new3(3), of os4 0 ftok] new3(4) by simp
  show ?thesis
    unfolding Let_def
    by (rule exI[of _ os1], rule exI[of _ s1], rule exI[of _ os2], rule exI[of _ s2])
      (use new[folded os2_def] lock1 first2 then1 seg seg_o1 second held new3 lock3 s1 s2 objs(2,4) in
        \<open>auto simp: p_shm_get_address_sysv_def p_shm_get_size_sysv_def\<close>)
qed

definition sample_shm_sysv :: shm_sysv where
  "sample_shm_sysv = \<lparr>sv = sample_sysv, shm_ids = Map.empty, segments = Map.empty, next_shm = 0, no_attach = False\<rparr>"

theorem shm_sysv_shared_witness:
  "\<exists>os1 s1 os2 s2. p_shm_new_sysv int Some True True sample_shm_sysv (Some ''m'') 64 P_SHM_ACCESS_READWRITE = (os1, Inr s1) \<and>
    p_shm_new_sysv int Some True True os1 (Some ''m'') 16 P_SHM_ACCESS_READONLY = (os2, Inr s2) \<and>
    p_shm_get_size_sysv (Some s2) = 16"
proof -
  have "shm_sysv_ready Some ''m'' ''m_p_shm_object'' ''m_p_shm_object_p_sem_object'' sample_shm_sysv"
    by (simp add: shm_sysv_ready_def sample_shm_sysv_def sample_sysv_def P_SHM_SUFFIX_def P_SEM_SUFFIX_def)
  note shared = shm_sysv_shared[OF this, of 64 7 int P_SHM_ACCESS_READWRITE 16 P_SHM_ACCESS_READONLY]
  have "files (sv sample_shm_sysv) = Map.empty" "next_inode (sv sample_shm_sysv) = 7" "shm_ids sample_shm_sysv = Map.empty"
      "sem_ids (sv sample_shm_sysv) = Map.empty"
    by (simp_all add: sample_shm_sysv_def sample_sysv_def)
  then obtain os1 s1 os2 s2 where
    "p_shm_new_sysv int Some True True sample_shm_sysv (Some ''m'') 64 P_SHM_ACCESS_READWRITE = (os1, Inr s1)"
    "p_shm_new_sysv int Some True True os1 (Some ''m'') 16 P_SHM_ACCESS_READONLY = (os2, Inr s2)"
    "p_shm_get_size_sysv (Some s2) = (if 16 = (0 :: nat) then 64 else min 16 64)"
    using shared by fastforce
  then show ?thesis by auto
qed

end
