(* ===== verification/PDir.thy ===== *)
theory PDir
  imports PString PError
begin

text \<open>
  Directories and files on POSIX systems (\<open>pdir-posix.c\<close>, \<open>pdir.c\<close>, \<open>pfile.c\<close>), over a file system that maps paths to
  what \<open>stat\<close> tells of them and, for directories, the names \<open>readdir_r\<close> gives.
\<close>

section \<open>The system\<close>

datatype file_node = Directory "string list" | Regular | Special

text \<open>\<open>refused\<close> has the error numbers of calls on a path that fail for another reason than what the path names.\<close>

record file_system =
  nodes :: "string \<Rightarrow> file_node option"
  refused :: "string \<Rightarrow> nat option"
  enoent :: nat
  enotdir :: nat

definition opendir :: "file_system \<Rightarrow> string \<Rightarrow> nat + string list" where
  "opendir fs path =
     (case refused fs path of
        Some e \<Rightarrow> Inl e
      | None \<Rightarrow>
          (case nodes fs path of
             None \<Rightarrow> Inl (enoent fs)
           | Some (Directory names) \<Rightarrow> if path = [] then Inl (enoent fs) else Inr names
           | Some _ \<Rightarrow> Inl (enotdir fs)))"

definition stat :: "file_system \<Rightarrow> string \<Rightarrow> file_node option" where
  "stat fs path = (if refused fs path \<noteq> None then None else nodes fs path)"

text \<open>An error of the library, or one that the system reports.\<close>

datatype dir_failure = Code PErrorIO | Errno nat

section \<open>Reading directories\<close>

datatype PDirEntryType = P_DIR_ENTRY_TYPE_DIR | P_DIR_ENTRY_TYPE_FILE | P_DIR_ENTRY_TYPE_OTHER

record PDirEntry =
  entry_name :: string
  entry_type :: PDirEntryType

text \<open>\<open>stream\<close> is what is left to read.\<close>

record PDir =
  stream :: "string list option"
  dir_path :: string
  orig_path :: "string option"

definition is_separator :: "char \<Rightarrow> bool" where
  "is_separator c \<longleftrightarrow> c = CHR ''/'' \<or> c = CHR 0x5C"

definition cut_separator :: "string \<Rightarrow> string" where
  "cut_separator path = (if is_separator (last path) then butlast path else path)"

text \<open>
  \<open>mem\<close>, \<open>mem_path\<close> and \<open>mem_orig\<close> say whether memory is found for the object and its two strings; \<open>None\<close> is the use of
  a NULL path.
\<close>

definition p_dir_new :: "file_system \<Rightarrow> bool \<Rightarrow> bool \<Rightarrow> bool \<Rightarrow> string option \<Rightarrow> (dir_failure + PDir) option" where
  "p_dir_new fs mem mem_path mem_orig path =
     (case path of
        None \<Rightarrow> Some (Inl (Code P_ERROR_IO_INVALID_ARGUMENT))
      | Some p \<Rightarrow>
          (case opendir fs p of
             Inl e \<Rightarrow> Some (Inl (Errno e))
           | Inr names \<Rightarrow>
               if \<not> mem then Some (Inl (Code P_ERROR_IO_NO_RESOURCES))
               else (case p_strdup mem_path (Some p) of
                   None \<Rightarrow> None
                 | Some q \<Rightarrow>
                     Some (Inr \<lparr>stream = Some names, dir_path = cut_separator q, orig_path = p_strdup mem_orig (Some p)\<rparr>))))"

definition p_dir_get_path :: "bool \<Rightarrow> PDir option \<Rightarrow> string option" where
  "p_dir_get_path mem dir = (case dir of None \<Rightarrow> None | Some d \<Rightarrow> p_strdup mem (orig_path d))"

definition type_of_entry :: "file_node option \<Rightarrow> PDirEntryType" where
  "type_of_entry sb =
     (case sb of
        None \<Rightarrow> P_DIR_ENTRY_TYPE_OTHER
      | Some (Directory _) \<Rightarrow> P_DIR_ENTRY_TYPE_DIR
      | Some Regular \<Rightarrow> P_DIR_ENTRY_TYPE_FILE
      | Some Special \<Rightarrow> P_DIR_ENTRY_TYPE_OTHER)"

text \<open>
  \<open>fails\<close> is the error number if \<open>readdir_r\<close> fails.  The result is the object with an error, or an entry, or no entry at
  the end; \<open>None\<close> is the use of a NULL name.
\<close>

definition p_dir_get_next_entry ::
  "file_system \<Rightarrow> nat option \<Rightarrow> bool \<Rightarrow> bool \<Rightarrow> bool \<Rightarrow> PDir option \<Rightarrow> (PDir option \<times> (dir_failure + PDirEntry option)) option" where
  "p_dir_get_next_entry fs fails mem mem_name mem_path dir =
     (case dir of
        None \<Rightarrow> Some (None, Inl (Code P_ERROR_IO_INVALID_ARGUMENT))
      | Some d \<Rightarrow>
          (case stream d of
             None \<Rightarrow> Some (Some d, Inl (Code P_ERROR_IO_INVALID_ARGUMENT))
           | Some names \<Rightarrow>
               (case fails of
                  Some e \<Rightarrow> Some (Some d, Inl (Errno e))
                | None \<Rightarrow>
                    (case names of
                       [] \<Rightarrow> Some (Some d, Inr None)
                     | name # rest \<Rightarrow>
                         (let d1 = d\<lparr>stream := Some rest\<rparr>
                          in if \<not> mem then Some (Some d1, Inl (Code P_ERROR_IO_NO_RESOURCES))
                             else (case p_strdup mem_name (Some name) of
                                 None \<Rightarrow> None
                               | Some nm \<Rightarrow>
                                   Some (Some d1, Inr (Some \<lparr>entry_name = nm, entry_type =
                                     (if \<not> mem_path then P_DIR_ENTRY_TYPE_OTHER
                                      else type_of_entry (stat fs (dir_path d @ ''/'' @ nm)))\<rparr>)))))))) "

text \<open>\<open>rewinddir\<close> starts again with the names that the directory has now.\<close>

definition p_dir_rewind :: "(PDir \<Rightarrow> string list) \<Rightarrow> PDir option \<Rightarrow> PDir option \<times> (dir_failure + unit)" where
  "p_dir_rewind names_now dir =
     (case dir of
        None \<Rightarrow> (None, Inl (Code P_ERROR_IO_INVALID_ARGUMENT))
      | Some d \<Rightarrow>
          (case stream d of
             None \<Rightarrow> (Some d, Inl (Code P_ERROR_IO_INVALID_ARGUMENT))
           | Some _ \<Rightarrow> (Some (d\<lparr>stream := Some (names_now d)\<rparr>), Inr ())))"

section \<open>Making and removing directories and files\<close>

definition p_dir_is_exists :: "file_system \<Rightarrow> string option \<Rightarrow> bool" where
  "p_dir_is_exists fs path =
     (case path of
        None \<Rightarrow> False
      | Some p \<Rightarrow> (case stat fs p of Some (Directory _) \<Rightarrow> True | _ \<Rightarrow> False))"

text \<open>The system calls are arguments: the file system after them and the error number, if they fail.\<close>

type_synonym path_call = "string \<Rightarrow> file_system \<Rightarrow> file_system \<times> nat option"

definition p_dir_create ::
  "(int \<Rightarrow> path_call) \<Rightarrow> file_system \<Rightarrow> string option \<Rightarrow> int \<Rightarrow> file_system \<times> (dir_failure + unit)" where
  "p_dir_create mkdir fs path mode =
     (case path of
        None \<Rightarrow> (fs, Inl (Code P_ERROR_IO_INVALID_ARGUMENT))
      | Some p \<Rightarrow>
          if p_dir_is_exists fs (Some p) then (fs, Inr ())
          else (case mkdir mode p fs of
              (fs', Some e) \<Rightarrow> (fs', Inl (Errno e))
            | (fs', None) \<Rightarrow> (fs', Inr ())))"

definition p_dir_remove :: "path_call \<Rightarrow> file_system \<Rightarrow> string option \<Rightarrow> file_system \<times> (dir_failure + unit)" where
  "p_dir_remove rmdir fs path =
     (case path of
        None \<Rightarrow> (fs, Inl (Code P_ERROR_IO_INVALID_ARGUMENT))
      | Some p \<Rightarrow>
          if \<not> p_dir_is_exists fs (Some p) then (fs, Inl (Code P_ERROR_IO_NOT_EXISTS))
          else (case rmdir p fs of
              (fs', Some e) \<Rightarrow> (fs', Inl (Errno e))
            | (fs', None) \<Rightarrow> (fs', Inr ())))"

text \<open>\<open>access\<close> with \<open>F_OK\<close> is what \<open>stat\<close> finds.\<close>

definition p_file_is_exists :: "file_system \<Rightarrow> string option \<Rightarrow> bool" where
  "p_file_is_exists fs file = (case file of None \<Rightarrow> False | Some f \<Rightarrow> stat fs f \<noteq> None)"

definition p_file_remove :: "path_call \<Rightarrow> file_system \<Rightarrow> string option \<Rightarrow> file_system \<times> (dir_failure + unit)" where
  "p_file_remove unlink fs file =
     (case file of
        None \<Rightarrow> (fs, Inl (Code P_ERROR_IO_INVALID_ARGUMENT))
      | Some f \<Rightarrow>
          (case unlink f fs of
             (fs', Some e) \<Rightarrow> (fs', Inl (Errno e))
           | (fs', None) \<Rightarrow> (fs', Inr ())))"

end
