(* ===== verification/PDirProps.thy ===== *)
theory PDirProps
  imports PDir
begin

text \<open>Properties of directories: reading one to its end, and again after rewinding.\<close>

text \<open>
  The loop of a program that reads a directory until no entry is left, while no call of the library fails; \<open>None\<close> if it
  does not end.
\<close>

partial_function (option) list_entries :: "file_system \<Rightarrow> PDir \<Rightarrow> (PDirEntry list \<times> PDir) option" where
  "list_entries fs d =
     (case p_dir_get_next_entry fs None True True True (Some d) of
        Some (Some d', Inr (Some e)) \<Rightarrow>
          Option.bind (list_entries fs d') (\<lambda>(es, d''). Some (e # es, d''))
      | Some (Some d', Inr None) \<Rightarrow> Some ([], d')
      | _ \<Rightarrow> None)"

definition entry_of :: "file_system \<Rightarrow> string \<Rightarrow> string \<Rightarrow> PDirEntry" where
  "entry_of fs base nm = \<lparr>entry_name = nm, entry_type = type_of_entry (stat fs (base @ ''/'' @ nm))\<rparr>"

lemma next_entry_simps:
  "stream d = Some [] \<Longrightarrow> p_dir_get_next_entry fs None True True True (Some d) = Some (Some d, Inr None)"
  "stream d = Some (nm # rest) \<Longrightarrow> p_dir_get_next_entry fs None True True True (Some d) =
     Some (Some (d\<lparr>stream := Some rest\<rparr>), Inr (Some (entry_of fs (dir_path d) nm)))"
  by (simp_all add: p_dir_get_next_entry_def p_strdup_def entry_of_def Let_def)

lemma list_entries_stream:
  "stream d = Some names \<Longrightarrow> list_entries fs d = Some (map (entry_of fs (dir_path d)) names, d\<lparr>stream := Some []\<rparr>)"
proof (induction names arbitrary: d)
  case Nil
  then have "d\<lparr>stream := Some []\<rparr> = d" by (cases d) simp
  then show ?case using Nil by (subst list_entries.simps) (simp add: next_entry_simps)
next
  case (Cons nm names)
  then show ?case by (subst list_entries.simps) (simp add: next_entry_simps Cons.IH)
qed

text \<open>
  C37.  Reading a directory ends: a new object gives every name of the directory once, in the order of the system, with the
  type of what the path and the name lead to, then no entry and no error as often as it is asked; after rewinding it
  gives the same again.  The path in front of the names is the one given without a slash at its end, but also without a
  backslash, which on these systems belongs to the name of the directory.
\<close>

theorem dir_listing_ends:
  assumes "nodes fs path = Some (Directory names)" "refused fs path = None" "path \<noteq> []"
  shows "\<exists>d d'. p_dir_new fs True True True (Some path) = Some (Inr d) \<and> p_dir_get_path True (Some d) = Some path \<and>
    list_entries fs d =
      Some (map (entry_of fs (if last path \<in> {CHR ''/'', CHR 0x5C} then butlast path else path)) names, d') \<and>
    p_dir_get_next_entry fs None True True True (Some d') = Some (Some d', Inr None) \<and>
    p_dir_rewind (\<lambda>_. names) (Some d') = (Some d, Inr ())"
proof -
  let ?d = "\<lparr>stream = Some names, dir_path = cut_separator path, orig_path = Some path\<rparr>"
  have "p_dir_new fs True True True (Some path) = Some (Inr ?d)"
    using assms by (simp add: p_dir_new_def opendir_def p_strdup_def)
  moreover have "list_entries fs ?d = Some (map (entry_of fs (cut_separator path)) names, ?d\<lparr>stream := Some []\<rparr>)"
    by (subst list_entries_stream[of ?d names]) simp_all
  moreover have "cut_separator path = (if last path \<in> {CHR ''/'', CHR 0x5C} then butlast path else path)"
    by (auto simp: cut_separator_def is_separator_def)
  ultimately show ?thesis
    by (intro exI[of _ ?d] exI[of _ "?d\<lparr>stream := Some []\<rparr>"]) (simp add: next_entry_simps p_dir_get_path_def p_strdup_def p_dir_rewind_def)
qed

definition sample_fs :: file_system where
  "sample_fs = \<lparr>nodes = [''d/'' \<mapsto> Directory [''a'', ''b''], ''d/a'' \<mapsto> Regular, ''d/b'' \<mapsto> Directory []], refused = (\<lambda>_. None),
     enoent = 2, enotdir = 20\<rparr>"

lemma dir_listing_ends_witness:
  "\<exists>d d'. p_dir_new sample_fs True True True (Some ''d/'') = Some (Inr d) \<and>
    list_entries sample_fs d = Some ([\<lparr>entry_name = ''a'', entry_type = P_DIR_ENTRY_TYPE_FILE\<rparr>,
      \<lparr>entry_name = ''b'', entry_type = P_DIR_ENTRY_TYPE_DIR\<rparr>], d')"
  using dir_listing_ends[of sample_fs "''d/''" "[''a'', ''b'']"]
  by (auto simp: sample_fs_def entry_of_def stat_def type_of_entry_def)

end
