(* ===== verification/PMem.thy ===== *)
theory PMem
  imports Prelude
begin

text \<open>
  The allocator (\<open>pmem.c\<close>): every allocation of the library goes through a table of three functions, which a program
  may replace.  A block is an address and the functions of the table work on an arbitrary memory \<open>'m\<close>.
\<close>

section \<open>The table\<close>

text \<open>\<open>None\<close> in a table is NULL.\<close>

record 'm PMemVTable =
  malloc_func :: "(nat \<Rightarrow> 'm \<Rightarrow> 'm \<times> nat option) option"
  realloc_func :: "(nat \<Rightarrow> nat \<Rightarrow> 'm \<Rightarrow> 'm \<times> nat option) option"
  free_func :: "(nat \<Rightarrow> 'm \<Rightarrow> 'm) option"

text \<open>The table in use with its flag; \<open>system\<close> are \<open>malloc\<close>, \<open>realloc\<close> and \<open>free\<close>.\<close>

record 'm mem_table =
  p_mem_table :: "'m PMemVTable"
  p_mem_table_inited :: bool

definition p_mem_restore_vtable :: "'m PMemVTable \<Rightarrow> 'm mem_table \<Rightarrow> 'm mem_table" where
  "p_mem_restore_vtable system t = t\<lparr>p_mem_table := system, p_mem_table_inited := True\<rparr>"

definition p_mem_init :: "'m PMemVTable \<Rightarrow> 'm mem_table \<Rightarrow> 'm mem_table" where
  "p_mem_init system t = (if p_mem_table_inited t then t else p_mem_restore_vtable system t)"

definition p_mem_shutdown :: "'m mem_table \<Rightarrow> 'm mem_table" where
  "p_mem_shutdown t =
     (if \<not> p_mem_table_inited t then t
      else t\<lparr>p_mem_table := \<lparr>malloc_func = None, realloc_func = None, free_func = None\<rparr>, p_mem_table_inited := False\<rparr>)"

definition p_mem_set_vtable :: "'m PMemVTable option \<Rightarrow> 'm mem_table \<Rightarrow> 'm mem_table \<times> bool" where
  "p_mem_set_vtable table t =
     (case table of
        None \<Rightarrow> (t, False)
      | Some v \<Rightarrow>
          if free_func v = None \<or> malloc_func v = None \<or> realloc_func v = None then (t, False)
          else (t\<lparr>p_mem_table := \<lparr>malloc_func = malloc_func v, realloc_func = realloc_func v, free_func = free_func v\<rparr>,
                   p_mem_table_inited := True\<rparr>, True))"

section \<open>Blocks\<close>

text \<open>The outer \<open>None\<close> is a call through NULL; \<open>zero\<close> is \<open>memset\<close> with 0.\<close>

definition p_malloc :: "'m mem_table \<Rightarrow> nat \<Rightarrow> 'm \<Rightarrow> ('m \<times> nat option) option" where
  "p_malloc t n_bytes m =
     (if n_bytes > 0 then map_option (\<lambda>f. f n_bytes m) (malloc_func (p_mem_table t)) else Some (m, None))"

definition p_malloc0 :: "(nat \<Rightarrow> nat \<Rightarrow> 'm \<Rightarrow> 'm) \<Rightarrow> 'm mem_table \<Rightarrow> nat \<Rightarrow> 'm \<Rightarrow> ('m \<times> nat option) option" where
  "p_malloc0 zero t n_bytes m =
     (if n_bytes > 0 then
        (case malloc_func (p_mem_table t) of
           None \<Rightarrow> None
         | Some f \<Rightarrow>
             (case f n_bytes m of
                (m1, None) \<Rightarrow> Some (m1, None)
              | (m1, Some ret) \<Rightarrow> Some (zero ret n_bytes m1, Some ret)))
      else Some (m, None))"

definition p_realloc :: "'m mem_table \<Rightarrow> nat option \<Rightarrow> nat \<Rightarrow> 'm \<Rightarrow> ('m \<times> nat option) option" where
  "p_realloc t mem n_bytes m =
     (if n_bytes = 0 then Some (m, None)
      else (case mem of
          None \<Rightarrow> map_option (\<lambda>f. f n_bytes m) (malloc_func (p_mem_table t))
        | Some p \<Rightarrow> map_option (\<lambda>f. f p n_bytes m) (realloc_func (p_mem_table t))))"

definition p_free :: "'m mem_table \<Rightarrow> nat option \<Rightarrow> 'm \<Rightarrow> 'm option" where
  "p_free t mem m = (case mem of None \<Rightarrow> Some m | Some p \<Rightarrow> map_option (\<lambda>f. f p m) (free_func (p_mem_table t)))"

section \<open>The table is never incomplete\<close>

datatype 'm table_op = Init | Restore | Set "'m PMemVTable option"

fun run_table_op :: "'m PMemVTable \<Rightarrow> 'm table_op \<Rightarrow> 'm mem_table \<Rightarrow> 'm mem_table" where
  "run_table_op system Init t = p_mem_init system t"
| "run_table_op system Restore t = p_mem_restore_vtable system t"
| "run_table_op system (Set v) t = fst (p_mem_set_vtable v t)"

definition complete :: "'m PMemVTable \<Rightarrow> bool" where
  "complete v \<longleftrightarrow> malloc_func v \<noteq> None \<and> realloc_func v \<noteq> None \<and> free_func v \<noteq> None"

lemma run_table_ops_complete:
  assumes "complete system" "p_mem_table_inited t \<longrightarrow> complete (p_mem_table t)"
  shows "p_mem_table_inited (fold (run_table_op system) ops t) \<longrightarrow> complete (p_mem_table (fold (run_table_op system) ops t))"
    and "p_mem_table_inited t \<Longrightarrow> p_mem_table_inited (fold (run_table_op system) ops t)"
proof -
  have one: "(p_mem_table_inited t \<longrightarrow> p_mem_table_inited (run_table_op system op t)) \<and>
      ((p_mem_table_inited t \<longrightarrow> complete (p_mem_table t)) \<longrightarrow>
        (p_mem_table_inited (run_table_op system op t) \<longrightarrow> complete (p_mem_table (run_table_op system op t))))" for op t
    using assms(1)
    by (cases op) (auto simp: p_mem_init_def p_mem_restore_vtable_def p_mem_set_vtable_def complete_def split: option.splits)
  show "p_mem_table_inited (fold (run_table_op system) ops t) \<longrightarrow> complete (p_mem_table (fold (run_table_op system) ops t))"
    using assms(2) by (induction ops arbitrary: t) (simp_all add: one)
  show "p_mem_table_inited t \<Longrightarrow> p_mem_table_inited (fold (run_table_op system) ops t)"
    by (induction ops arbitrary: t) (simp_all add: one)
qed

text \<open>
  After initialisation, whatever tables a program sets, also incomplete ones, which are refused, no allocation goes
  through NULL; asking for no bytes gives NULL, without a call, and so does \<open>p_realloc\<close> of a block, which stays allocated.
\<close>

theorem mem_table_complete:
  assumes "complete system" "t = fold (run_table_op system) ops (p_mem_init system t0)"
    and "p_mem_table_inited t0 \<longrightarrow> complete (p_mem_table t0)"
  shows "p_malloc t n m \<noteq> None \<and> p_malloc0 zero t n m \<noteq> None \<and> p_realloc t b n m \<noteq> None \<and> p_free t b m \<noteq> None \<and>
    p_malloc t 0 m = Some (m, None) \<and> p_malloc0 zero t 0 m = Some (m, None) \<and> p_realloc t b 0 m = Some (m, None)"
proof -
  have "p_mem_table_inited (p_mem_init system t0)" "complete (p_mem_table (p_mem_init system t0))"
    using assms(1,3) by (auto simp: p_mem_init_def p_mem_restore_vtable_def)
  then have "complete (p_mem_table t)" using run_table_ops_complete[OF assms(1)] assms(2) by blast
  then show ?thesis
    by (auto simp: complete_def p_malloc_def p_malloc0_def p_realloc_def p_free_def split: option.splits prod.splits)
qed

end
