(* ===== verification/PFipsReal.thy ===== *)
theory PFipsReal
  imports Complex_Main PFips180
begin

text \<open>
  The integer computation of \<open>PFips180\<close> gives the fractional part of the real root.  It has a theory of its own
  because the rest of the development does without the real numbers.
\<close>

lemma frac_root_floor:
  assumes "0 < k" "p < 32 ^ k"
  shows "frac_root k b p = nat \<lfloor>root k (real p) * 2 ^ b\<rfloor> mod 2 ^ b"
proof -
  let ?n = "p * 2 ^ (k * b)" and ?x = "root k (real p) * 2 ^ b"
  have "?n < 32 ^ k * 2 ^ (k * b)" using assms(2) by simp
  also have "\<dots> = (2 ^ (b + 5)) ^ k" by (simp add: power_add power_mult_distrib mult.commute flip: power_mult)
  finally have n: "?n < (2 ^ (b + 5)) ^ k" .
  have x: "0 \<le> ?x" using assms(1) by simp
  have "?x ^ k = real ?n" using assms(1) by (simp add: power_mult_distrib mult.commute flip: power_mult)
  moreover have "real (int_root k (b + 5) ?n ^ k) \<le> real ?n" "real ?n < real ((int_root k (b + 5) ?n + 1) ^ k)"
    unfolding of_nat_le_iff of_nat_less_iff by (rule int_root_ok[OF assms(1) n])+
  ultimately have "real (int_root k (b + 5) ?n) ^ k \<le> ?x ^ k" "?x ^ k < (real (int_root k (b + 5) ?n) + 1) ^ k"
    by (simp_all only: of_nat_power of_nat_add of_nat_1)
  then have "real (int_root k (b + 5) ?n) \<le> ?x" "?x < real (int_root k (b + 5) ?n) + 1"
    using x assms(1) power_mono_iff[of "real (int_root k (b + 5) ?n)" ?x k]
      power_less_imp_less_base[of ?x k "real (int_root k (b + 5) ?n) + 1"] by linarith+
  then have "\<lfloor>?x\<rfloor> = int (int_root k (b + 5) ?n)" by (simp add: floor_eq_iff)
  then show ?thesis by (simp add: frac_root_def)
qed

end
