(* ===== verification/Spec2Isabelle.thy ===== *)
theory Spec2Isabelle
  imports PTreeProps PContainerProps PCryptoProps PShmProps PRWLockProps PRWLockXpProps PIniProps PErrorProps
    PIpcProps PSemSysVProps PSocketAddressProps PSocketProps PUThreadProps PUThreadKeyProps
    PUThreadSolarisProps PUThreadWinProps PCondVariableXpProps PShmSysVProps PDirProps PMem
    PFipsReal
begin

text \<open>
  Verification of plibsys, the portable C library under \<open>src/plibsys/src\<close>.

  \<^bold>\<open>The program.\<close>  plibsys gives C programs containers (lists, hash tables, three kinds of search trees),
  cryptographic hashes, a ring buffer in shared memory, read-write locks, an ini-file parser, semaphores, shared
  memory, sockets and other wrappers of system calls.  The parts with logic of their own are modelled here.  Every
  other theory of this directory is named after the C file it models; \<open>\<dots>Props\<close> theories hold the properties
  C1 to C40.

  \<^bold>\<open>Trees\<close> (\<open>ptree*.c\<close>).  \<open>PTreeBase\<close> has the nodes and the paths that stand for the parent pointers and
  pointer-to-pointer variables of the C loops; \<open>PTreeBackend\<close> the interface the three kinds of trees share (a
  locale); \<open>PTreeBst\<close>, \<open>PTreeAvl\<close> and \<open>PTreeRb\<close> the three kinds, each with the rebalancing loops over the stored
  balance factors and colors and an interpretation of the locale; \<open>PTree\<close> the tree object, which counts nodes
  and dispatches; \<open>PTreeHeap\<close> the two stackless traversals on an explicit heap of nodes, where the threads
  they write into right pointers matter.  C1 shows that programs of insertions and removals behave as a
  dictionary, C2 what the destroy functions get, C3 and C4 that the balance and color rules hold after every operation,
  C5 that searches are logarithmic in every tree that insertions and removals build, C6 and C7 that the traversals visit and free every node once and restore what they change.

  \<^bold>\<open>Lists and hash tables\<close> (\<open>plist.c\<close>, \<open>phashtable.c\<close>).  \<open>PList\<close> has every operation on a heap of cells,
  \<open>PHashTable\<close> the table of 101 chains.  C8 and C9 refine them to HOL lists and to maps, C23 shows
  what the lists of keys and values contain.

  \<^bold>\<open>Hashes\<close> (\<open>pcryptohash*.c\<close>).  \<open>PBytes\<close> and \<open>PHashBlock\<close> have what the modules share: bytes and words in
  either byte order, the counters, the block buffer and the padding.  \<open>PMd5\<close>, \<open>PSha1\<close>, \<open>PSha2\<close>, \<open>PSha256\<close>,
  \<open>PSha512\<close>, \<open>PGost3411\<close> and \<open>PGostStream\<close> have the unrolled transformations and the context functions;
  \<open>PCryptoHash\<close> the front end over a locale \<open>hash_backend\<close>, interpreted in \<open>PCryptoBackends\<close> on each of the
  seven algorithms.  The standards are written down apart from the code: \<open>PFips180\<close> computes the constants of FIPS
  180 from the roots of the primes (\<open>PFipsReal\<close> relates the computation to the real roots), the compression
  functions stand in the theories of the modules, and \<open>PGostStandard\<close> has the block cipher of RFC 5830 and the
  step function of RFC 5831 with tables of its own; \<open>PGostEquiv\<close> proves the closed forms of the code equal to them.
  C10 shows that every program over a hash object gives the digests of the standard algorithm, C11 that the chunks
  and the byte order do not matter; C12 that the unrolled rounds are the compression functions of RFC 1321 and FIPS
  180; C13 that the GOST step function is the one of the standard, and the digest as long as the checksum loses no
  carry.

  \<^bold>\<open>Shared ring buffer\<close> (\<open>pshmbuffer.c\<close>).  \<open>PShmBuffer\<close> has the segment as bytes, with the two positions in
  front of the data.  C14 and C15 show a first-in-first-out queue, except for the write that overfills it.

  \<^bold>\<open>Read-write locks\<close> (\<open>prwlock-general.c\<close>, \<open>prwlock-win.c\<close>, \<open>patomic-sim.c\<close>).  \<open>PRWLock\<close> has the operations
  of the lock on a mutex as the sections between taking and giving up the mutex, and a step relation of threads
  over them; C16 to C18 show mutual exclusion, the counters and the wake-ups.  \<open>PAtomic\<close> has the atomic
  operations, \<open>PRWLockXp\<close> the lock for Windows XP over them, one transition for each access to shared memory,
  and \<open>PThreads\<close> the counting of threads that both locks use.  C20 shows mutual exclusion for it and C21 a run
  in which a wake-up is lost.

  \<^bold>\<open>Strings and ini files\<close> (\<open>pstring.c\<close>, \<open>pinifile.c\<close>).  \<open>PString\<close> has copying and stripping, \<open>PIniFile\<close>
  the parser line by line with its scan patterns and the queries.  C19 shows the round trip of printed documents;
  lemmas of \<open>PIniProps\<close> treat stripping, byte-order marks and lists.

  \<^bold>\<open>Errors\<close> (\<open>perror.c\<close>, \<open>perrortypes.h\<close>).  \<open>PError\<close> has the codes, the tables from the numbers of the system for
  both platforms and the error object; C22 shows which code every number of Linux and of Windows becomes and that the
  first error is kept.

  \<^bold>\<open>Interprocess communication\<close> (\<open>pipc.c\<close>, \<open>psemaphore-posix.c\<close>, \<open>psemaphore-sysv.c\<close>, \<open>pshm-posix.c\<close>, \<open>pshm-sysv.c\<close>).
  \<open>PIpc\<close> has the names, which are hashes made by the hash modules; \<open>PPosix\<close> the system calls as their documentation
  describes them, with a schedule that says how often each coming call is interrupted, and a locale for the loops that
  repeat an interrupted call; \<open>PSemaphore\<close>, \<open>PShm\<close>, \<open>PSemSysV\<close> and
  \<open>PShmSysV\<close> the objects.  C24 shows that a semaphore counts, C25 and C36 that processes share a segment of either kind
  and exclude each other, C36 also what freeing leaves behind in either order and how the exclusion is lost when the
  maker of a System V segment frees it first.

  \<^bold>\<open>Sockets\<close> (\<open>psocketaddress.c\<close>, \<open>psocket.c\<close>).  \<open>PSocketAddress\<close> has the addresses and their native form,
  \<open>PSocket\<close> the object, its queries and updates on an arbitrary system that answers system calls, \<open>PSocketIO\<close>
  making, closing, connecting and the loops that wait and try again.  C26 shows the round trip of addresses, C27
  which operations on a closed object fail without a system call and which call the system, C28 what a blocking receive returns, C29 the interrupted connect,
  C30 that descriptors are not lost.

  \<^bold>\<open>Threads\<close> (\<open>puthread.c\<close>, \<open>puthread-posix.c\<close>, \<open>puthread-solaris.c\<close>, \<open>puthread-win.c\<close>, \<open>pspinlock-sync.c\<close>).  \<open>PUThread\<close>
  has the spin lock, the attributes and priorities of native threads, the counted objects and the steps in which threads
  are made, started and ended; \<open>PUThreadKey\<close>, \<open>PUThreadSolaris\<close> and \<open>PUThreadWin\<close> the native keys of thread-local storage,
  which threads may make at the same time, and its values on the three systems.  C31 and C32 show that objects live as
  long as they are referred to and that a new thread waits for its object; C33 and C39 that threads agree on a native
  key, C38 that on Solaris they need not; C40 when the end of a thread on Windows comes to an end.

  \<^bold>\<open>Condition variables\<close> (\<open>pcondvariable-win.c\<close>).  \<open>PCondVariableXp\<close> has the emulation for Windows XP, one transition for
  each access to shared memory.  C34 shows what it counts and whom it wakes, C35 a wake-up that is stolen.

  \<^bold>\<open>Directories, files and memory\<close> (\<open>pdir-posix.c\<close>, \<open>pfile.c\<close>, \<open>pmem.c\<close>).  \<open>PDir\<close> has the directory stream and the tests on
  paths, over a file system that is an argument; C37 shows that reading a directory ends and what it gives.  \<open>PMem\<close> has
  the table of allocation functions, which never becomes incomplete.

  \<^bold>\<open>Loops.\<close>  Loops over data the code has bounded terminate by a measure.  Loops over pointers (\<open>PList\<close>,
  \<open>PTreeHeap\<close>), the copying loops of the ring buffer and the loops of \<open>PSocketIO\<close> that the system can keep alive
  are partial functions, whose value \<open>None\<close> stands for a loop that does not end or meets NULL; the properties state
  when they return \<open>Some\<close>.  \<open>psize\<close> has 64 bits.  Machine words keep their width wherever the code can wrap.

  \<^bold>\<open>Parameters.\<close>  The byte order of the host, the success of allocations, the shared memory and its locks, the
  mutex, the condition variables, the file system, the numbers of the system's error macros, \<open>ftok\<close>, the
  conversion of addresses to text and back, and the answers to socket calls are arguments of the definitions.

  \<^bold>\<open>Not modelled.\<close>  Wrappers of system calls with no logic of their own (processes, mutexes, library loading, time, memory
  mappings) and the variants that wrap native semaphores, shared memory, condition variables and locks; start and
  shutdown of the modules; \<open>p_strtod\<close>, which computes in floating point; compiler macros; the functions that only free;
  the Windows branches of the socket and directory modules.
\<close>

end
